(* ===== verification/SB_Prelude.thy ===== *)
theory SB_Prelude
  imports Main "HOL-Library.Word" "HOL-Library.AList" "HOL-Library.Char_ord"
    "HOL-Library.List_Lexorder"
begin

text \<open>
  Shared vocabulary of the development: machine-integer synonyms, time stamps, results,
  hash tables and ordered maps as association lists, and the parts of Rust's \<open>str\<close>
  and integer libraries the modelled sources call.  Everything is executable.

  Conventions.  A \<open>Result<T, E>\<close> is \<open>E + T\<close> (\<open>Inl\<close> the error), an \<open>Option\<close> is
  \<open>option\<close>.  A \<open>DashMap\<close>/\<open>HashMap\<close> is a \<open>table\<close>: an association list with distinct
  keys whose order stands for the (unspecified) iteration order.  A \<open>BTreeMap\<close> is a table
  kept sorted by key.  Instants and \<open>DateTime\<close>s are integers counting nanoseconds.
\<close>

unbundle bit_operations_syntax

named_theorems table_simps "lookup laws of hash tables and ordered maps"

section \<open>Machine integers and time\<close>

type_synonym u8 = "8 word"
type_synonym u16 = "16 word"
type_synonym u32 = "32 word"
type_synonym u64 = "64 word"

text \<open>\<open>saturating_add\<close> and \<open>saturating_sub\<close> of the unsigned types.\<close>

definition saturating_add :: "'a::len word \<Rightarrow> 'a word \<Rightarrow> 'a word" where
  "saturating_add a b =
     (if unat a + unat b < 2 ^ LENGTH('a) then a + b else - 1)"

definition saturating_sub :: "'a::len word \<Rightarrow> 'a word \<Rightarrow> 'a word" where
  "saturating_sub a b = (if b \<le> a then a - b else 0)"

lemma unat_saturating_add:
  "unat (saturating_add a b :: 'a::len word) = min (unat a + unat b) (2 ^ LENGTH('a) - 1)"
proof (cases "unat a + unat b < 2 ^ LENGTH('a)")
  case True
  then show ?thesis
    by (simp add: saturating_add_def unat_word_ariths)
next
  case False
  then show ?thesis
    by (simp add: saturating_add_def unsigned_minus_1_eq_mask mask_eq_exp_minus_1)
qed

text \<open>\<open>i64::checked_mul\<close>, on the mathematical value: \<open>None\<close> when it leaves the type.\<close>

definition in_i64 :: "int \<Rightarrow> bool" where
  "in_i64 x \<longleftrightarrow> - (2 ^ 63) \<le> x \<and> x < 2 ^ 63"

definition checked_mul_i64 :: "int \<Rightarrow> int \<Rightarrow> int option" where
  "checked_mul_i64 a b = (if in_i64 (a * b) then Some (a * b) else None)"

text \<open>What a release build's wrapping \<open>i64\<close> arithmetic leaves of a mathematical result.\<close>

definition wrap_i64 :: "int \<Rightarrow> int" where
  "wrap_i64 x = (x + 2 ^ 63) mod 2 ^ 64 - 2 ^ 63"

lemma wrap_i64_id: "in_i64 x \<Longrightarrow> wrap_i64 x = x"
  by (simp add: wrap_i64_def in_i64_def)

type_synonym instant = int   \<comment> \<open>nanoseconds\<close>
type_synonym datetime = int  \<comment> \<open>nanoseconds since the epoch, UTC\<close>

abbreviation nanos_per_sec :: int where
  "nanos_per_sec \<equiv> 1000000000"

abbreviation seconds :: "int \<Rightarrow> int" where
  "seconds n \<equiv> n * nanos_per_sec"

text \<open>
  \<open>Instant::checked_sub\<close> on the agent's platform: an instant holds a signed 64-bit second
  count, so the subtraction fails only below the least representable second.
\<close>

definition instant_checked_sub :: "instant \<Rightarrow> int \<Rightarrow> instant option" where
  "instant_checked_sub t d =
     (if - (2 ^ 63) * nanos_per_sec \<le> t - d then Some (t - d) else None)"

text \<open>\<open>now.checked_sub(window).unwrap_or(now)\<close>, the cut-off of every sliding window.\<close>

definition window_cutoff :: "instant \<Rightarrow> int \<Rightarrow> instant" where
  "window_cutoff now d = (case instant_checked_sub now d of Some t \<Rightarrow> t | None \<Rightarrow> now)"

lemma window_cutoff_le: "0 \<le> d \<Longrightarrow> window_cutoff now d \<le> now"
  by (auto simp: window_cutoff_def instant_checked_sub_def split: option.splits if_splits)

lemma window_cutoff_regular:
  "- (2 ^ 63) * nanos_per_sec \<le> now - d \<Longrightarrow> window_cutoff now d = now - d"
  by (simp add: window_cutoff_def instant_checked_sub_def)

text \<open>\<open>Instant::duration_since\<close> saturates at zero; \<open>as_secs\<close> drops the fraction.\<close>

definition duration_since :: "instant \<Rightarrow> instant \<Rightarrow> int" where
  "duration_since now t = max 0 (now - t)"

abbreviation as_secs :: "int \<Rightarrow> int" where
  "as_secs d \<equiv> d div nanos_per_sec"

section \<open>Hash tables\<close>

type_synonym ('k, 'v) table = "('k \<times> 'v) list"

abbreviation keys :: "('k, 'v) table \<Rightarrow> 'k list" where
  "keys t \<equiv> map fst t"

definition table_ok :: "('k, 'v) table \<Rightarrow> bool" where
  "table_ok t \<longleftrightarrow> distinct (keys t)"

definition tget :: "('k, 'v) table \<Rightarrow> 'k \<Rightarrow> 'v option" where
  "tget t k = map_of t k"

definition thas :: "('k, 'v) table \<Rightarrow> 'k \<Rightarrow> bool" where
  "thas t k \<longleftrightarrow> tget t k \<noteq> None"

definition tput :: "'k \<Rightarrow> 'v \<Rightarrow> ('k, 'v) table \<Rightarrow> ('k, 'v) table" where
  "tput k v t = AList.update k v t"

definition tdel :: "'k \<Rightarrow> ('k, 'v) table \<Rightarrow> ('k, 'v) table" where
  "tdel k t = AList.delete k t"

definition tretain :: "('k \<Rightarrow> 'v \<Rightarrow> bool) \<Rightarrow> ('k, 'v) table \<Rightarrow> ('k, 'v) table" where
  "tretain P t = filter (\<lambda>(k, v). P k v) t"

text \<open>\<open>get_mut\<close> followed by writes: change the entry where there is one.\<close>

definition tmodify :: "'k \<Rightarrow> ('v \<Rightarrow> 'v) \<Rightarrow> ('k, 'v) table \<Rightarrow> ('k, 'v) table" where
  "tmodify k f t = map (\<lambda>(k', v). (k', if k' = k then f v else v)) t"

lemma table_ok_Nil [simp]: "table_ok []"
  by (simp add: table_ok_def)

lemma tget_Nil [simp]: "tget [] k = None"
  by (simp add: tget_def)

lemma tget_tput [table_simps]: "tget (tput k v t) k' = (if k' = k then Some v else tget t k')"
  by (simp add: tget_def tput_def update_conv')

lemma tget_tdel [table_simps]: "tget (tdel k t) k' = (if k' = k then None else tget t k')"
  by (simp add: tget_def tdel_def delete_conv')

lemma map_of_filter_pairs:
  "distinct (map fst t) \<Longrightarrow>
   map_of (filter (\<lambda>(k, v). P k v) t) k =
     (case map_of t k of None \<Rightarrow> None | Some v \<Rightarrow> if P k v then Some v else None)"
proof (induction t)
  case Nil
  then show ?case by simp
next
  case (Cons p t)
  obtain a b where p: "p = (a, b)" by (cases p)
  from Cons.prems p have "map_of t a = None"
    by (simp add: map_of_eq_None_iff)
  with Cons p show ?case
    by (auto split: option.splits)
qed

lemma tget_tretain [table_simps]:
  "table_ok t \<Longrightarrow>
   tget (tretain P t) k =
     (case tget t k of None \<Rightarrow> None | Some v \<Rightarrow> if P k v then Some v else None)"
  by (simp add: table_ok_def tget_def tretain_def map_of_filter_pairs)

lemma tget_tmodify [table_simps]:
  "tget (tmodify k f t) k' = (if k' = k then map_option f (tget t k) else tget t k')"
  by (induction t) (auto simp: tget_def tmodify_def)

lemma table_ok_tput [simp, intro]: "table_ok t \<Longrightarrow> table_ok (tput k v t)"
  by (simp add: table_ok_def tput_def distinct_update)

lemma table_ok_tdel [simp, intro]: "table_ok t \<Longrightarrow> table_ok (tdel k t)"
  by (simp add: table_ok_def tdel_def distinct_delete)

lemma keys_tretain: "keys (tretain P t) = keys (filter (\<lambda>(k, v). P k v) t)"
  by (simp add: tretain_def)

lemma table_ok_tretain [simp, intro]: "table_ok t \<Longrightarrow> table_ok (tretain P t)"
  by (simp add: table_ok_def tretain_def distinct_map_filter)

lemma keys_tmodify [simp]: "keys (tmodify k f t) = keys t"
  by (induction t) (auto simp: tmodify_def)

lemma table_ok_tmodify [simp]: "table_ok (tmodify k f t) \<longleftrightarrow> table_ok t"
  by (simp add: table_ok_def)

lemma tget_in_set: "table_ok t \<Longrightarrow> (k, v) \<in> set t \<longleftrightarrow> tget t k = Some v"
  by (simp add: table_ok_def tget_def)

lemma tget_SomeD: "tget t k = Some v \<Longrightarrow> (k, v) \<in> set t"
  by (simp add: tget_def map_of_SomeD)

lemma length_tretain_le: "length (tretain P t) \<le> length t"
  by (simp add: tretain_def)

text \<open>A sweep maps over the values of a table.\<close>

lemma tget_map_values:
  "tget (map (\<lambda>(k, v). (k, f v)) t) k = map_option f (tget t k)"
  by (induction t) (auto simp: tget_def)

lemma table_ok_map_values [simp]: "table_ok (map (\<lambda>(k, v). (k, f v)) t) \<longleftrightarrow> table_ok t"
  by (simp add: table_ok_def comp_def split_def)

section \<open>Ordered maps\<close>

text \<open>\<open>BTreeMap::insert\<close> on the table sorted by key.\<close>

fun btput :: "'k::linorder \<Rightarrow> 'v \<Rightarrow> ('k, 'v) table \<Rightarrow> ('k, 'v) table" where
  "btput k v [] = [(k, v)]"
| "btput k v ((k', v') # t) =
     (if k < k' then (k, v) # (k', v') # t
      else if k = k' then (k, v) # t
      else (k', v') # btput k v t)"

definition btree_ok :: "('k::linorder, 'v) table \<Rightarrow> bool" where
  "btree_ok t \<longleftrightarrow> sorted_wrt (<) (keys t)"

lemma btree_ok_table_ok: "btree_ok t \<Longrightarrow> table_ok t"
  by (auto simp: btree_ok_def table_ok_def strict_sorted_iff)

lemma keys_btput: "set (keys (btput k v t)) = insert k (set (keys t))"
proof (induction t)
  case Nil
  then show ?case by simp
next
  case (Cons p t)
  obtain a b where "p = (a, b)" by (cases p)
  with Cons show ?case by (simp add: insert_commute)
qed

lemma btree_ok_btput [intro]: "btree_ok t \<Longrightarrow> btree_ok (btput k v t)"
proof (induction t)
  case Nil
  then show ?case by (simp add: btree_ok_def)
next
  case (Cons p t)
  obtain a b where p: "p = (a, b)" by (cases p)
  from Cons have t: "btree_ok (btput k v t)" by (simp add: btree_ok_def)
  with Cons.prems p show ?case
    using keys_btput [of k v t] by (fastforce simp: btree_ok_def)
qed

lemma tget_btput [table_simps]:
  "btree_ok t \<Longrightarrow> tget (btput k v t) k' = (if k' = k then Some v else tget t k')"
proof (induction t)
  case Nil
  then show ?case by (simp add: tget_def)
next
  case (Cons p t)
  then show ?case
    by (cases p) (auto simp: tget_def btree_ok_def)
qed

lemma btree_ok_tretain [simp, intro]: "btree_ok t \<Longrightarrow> btree_ok (tretain P t)"
proof (induction t)
  case Nil
  then show ?case by (simp add: btree_ok_def tretain_def)
next
  case (Cons p t)
  then show ?case
    by (cases p) (force simp: btree_ok_def tretain_def)
qed

lemma btree_ok_tdel [simp, intro]: "btree_ok t \<Longrightarrow> btree_ok (tdel k t)"
  using btree_ok_tretain [of t "\<lambda>k' v. k' \<noteq> k"]
  by (simp add: tretain_def tdel_def AList.delete_eq split_def eq_commute)

section \<open>Strings\<close>

text \<open>
  The parts of Rust's \<open>str\<close> the sources use, on the UTF-8 bytes of the string
  (Isabelle's \<open>char\<close> is a byte).
\<close>

definition starts_with :: "string \<Rightarrow> string \<Rightarrow> bool" where
  "starts_with s p \<longleftrightarrow> take (length p) s = p"

definition strip_prefix :: "string \<Rightarrow> string \<Rightarrow> string option" where
  "strip_prefix s p = (if starts_with s p then Some (drop (length p) s) else None)"

definition strip_suffix :: "string \<Rightarrow> string \<Rightarrow> string option" where
  "strip_suffix s p =
     (if starts_with (rev s) (rev p) then Some (take (length s - length p) s) else None)"

text \<open>\<open>str::split_once\<close> with a string pattern: the first occurrence.\<close>

fun split_once :: "string \<Rightarrow> string \<Rightarrow> (string \<times> string) option" where
  "split_once [] p = (if p = [] then Some ([], []) else None)"
| "split_once (c # s) p =
     (if starts_with (c # s) p then Some ([], drop (length p) (c # s))
      else map_option (\<lambda>(a, b). (c # a, b)) (split_once s p))"

text \<open>\<open>str::rsplit_once\<close> with a one-character pattern: the last occurrence.\<close>

fun rsplit_once :: "string \<Rightarrow> char \<Rightarrow> (string \<times> string) option" where
  "rsplit_once [] c = None"
| "rsplit_once (x # s) c =
     (case rsplit_once s c of
        Some (a, b) \<Rightarrow> Some (x # a, b)
      | None \<Rightarrow> if x = c then Some ([], s) else None)"

definition str_contains :: "string \<Rightarrow> string \<Rightarrow> bool" where
  "str_contains s p \<longleftrightarrow> split_once s p \<noteq> None"

definition trim_start_matches :: "char \<Rightarrow> string \<Rightarrow> string" where
  "trim_start_matches c s = dropWhile (\<lambda>x. x = c) s"

definition trim_end_matches :: "char \<Rightarrow> string \<Rightarrow> string" where
  "trim_end_matches c s = rev (dropWhile (\<lambda>x. x = c) (rev s))"

definition is_ascii_digit :: "char \<Rightarrow> bool" where
  "is_ascii_digit c \<longleftrightarrow> 48 \<le> (of_char c :: nat) \<and> (of_char c :: nat) \<le> 57"

definition is_ascii_char :: "char \<Rightarrow> bool" where
  "is_ascii_char c \<longleftrightarrow> (of_char c :: nat) < 128"

definition is_ascii :: "string \<Rightarrow> bool" where
  "is_ascii s \<longleftrightarrow> list_all is_ascii_char s"

text \<open>
  \<open>char::is_whitespace\<close> for ASCII characters: tab, line feed, vertical tab, form feed,
  carriage return and space.
\<close>

definition ascii_lower :: "char \<Rightarrow> char" where
  "ascii_lower c = (let n = (of_char c :: nat) in if 65 \<le> n \<and> n \<le> 90 then char_of (n + 32) else c)"

definition eq_ignore_ascii_case :: "string \<Rightarrow> string \<Rightarrow> bool" where
  "eq_ignore_ascii_case a b \<longleftrightarrow> map ascii_lower a = map ascii_lower b"

definition is_ascii_whitespace :: "char \<Rightarrow> bool" where
  "is_ascii_whitespace c \<longleftrightarrow>
     (let n = (of_char c :: nat) in (9 \<le> n \<and> n \<le> 13) \<or> n = 32)"

text \<open>
  \<open>value.trim().is_empty()\<close>: nothing but Unicode white space, on the UTF-8 bytes (the two- and
  three-byte characters are U+0085, U+00A0, U+1680, U+2000 to U+200A, U+2028, U+2029, U+202F,
  U+205F and U+3000).
\<close>

definition ws_byte :: "nat \<Rightarrow> bool" where
  "ws_byte a \<longleftrightarrow> (9 \<le> a \<and> a \<le> 13) \<or> a = 32"

definition ws_2bytes :: "nat \<Rightarrow> nat \<Rightarrow> bool" where
  "ws_2bytes a b \<longleftrightarrow> a = 194 \<and> (b = 133 \<or> b = 160)"

definition ws_3bytes :: "nat \<Rightarrow> nat \<Rightarrow> nat \<Rightarrow> bool" where
  "ws_3bytes a b c \<longleftrightarrow>
     (a = 225 \<and> b = 154 \<and> c = 128) \<or>
     (a = 226 \<and> b = 128 \<and> ((128 \<le> c \<and> c \<le> 138) \<or> c = 168 \<or> c = 169 \<or> c = 175)) \<or>
     (a = 226 \<and> b = 129 \<and> c = 159) \<or>
     (a = 227 \<and> b = 128 \<and> c = 128)"

fun blank_bytes :: "nat list \<Rightarrow> bool" where
  "blank_bytes [] \<longleftrightarrow> True"
| "blank_bytes [a] \<longleftrightarrow> ws_byte a"
| "blank_bytes [a, b] \<longleftrightarrow> (ws_byte a \<and> ws_byte b) \<or> ws_2bytes a b"
| "blank_bytes (a # b # c # bs) \<longleftrightarrow>
     (if ws_byte a then blank_bytes (b # c # bs)
      else if ws_2bytes a b then blank_bytes (c # bs)
      else ws_3bytes a b c \<and> blank_bytes bs)"

definition is_blank :: "string \<Rightarrow> bool" where
  "is_blank s \<longleftrightarrow> blank_bytes (map of_char s)"

text \<open>The decimal digits \<open>Display\<close> writes for an unsigned integer.\<close>

fun show_nat :: "nat \<Rightarrow> string" where
  "show_nat n =
     (if n < 10 then [char_of (48 + n)] else show_nat (n div 10) @ [char_of (48 + n mod 10)])"

declare show_nat.simps [simp del]

lemma rsplit_once_SomeD: "rsplit_once s c = Some (a, b) \<Longrightarrow> s = a @ c # b \<and> c \<notin> set b"
proof (induction s arbitrary: a b)
  case Nil
  then show ?case by simp
next
  case (Cons x s)
  have none: "rsplit_once s c = None \<Longrightarrow> c \<notin> set s" for s
    by (induction s) (auto split: option.splits if_splits)
  from Cons show ?case
    by (auto split: option.splits if_splits simp: none)
qed

lemma rsplit_once_NoneD: "rsplit_once s c = None \<Longrightarrow> c \<notin> set s"
  by (induction s) (auto split: option.splits if_splits)

lemma split_once_SomeD: "split_once s p = Some (a, b) \<Longrightarrow> s = a @ p @ b"
proof (induction s arbitrary: a b)
  case Nil
  then show ?case by (simp split: if_splits)
next
  case (Cons c s)
  show ?case
  proof (cases "starts_with (c # s) p")
    case True
    then have "p @ drop (length p) (c # s) = c # s"
      by (metis append_take_drop_id starts_with_def)
    with True Cons.prems show ?thesis by auto
  next
    case False
    with Cons show ?thesis by (cases "split_once s p") auto
  qed
qed

lemma strip_prefix_SomeD: "strip_prefix s p = Some r \<Longrightarrow> s = p @ r"
  by (auto simp: strip_prefix_def starts_with_def split: if_splits)
    (metis append_take_drop_id)

section \<open>Results\<close>

text \<open>The \<open>?\<close> operator and \<open>ok_or\<close>.\<close>

definition try_bind :: "'e + 'a \<Rightarrow> ('a \<Rightarrow> 'e + 'b) \<Rightarrow> 'e + 'b" where
  "try_bind r f = (case r of Inl e \<Rightarrow> Inl e | Inr x \<Rightarrow> f x)"

definition ok_or :: "'e \<Rightarrow> 'a option \<Rightarrow> 'e + 'a" where
  "ok_or e x = (case x of None \<Rightarrow> Inl e | Some a \<Rightarrow> Inr a)"

fun collect_results :: "('e + 'a) list \<Rightarrow> 'e + 'a list" where
  "collect_results [] = Inr []"
| "collect_results (Inl e # rs) = Inl e"
| "collect_results (Inr a # rs) = try_bind (collect_results rs) (\<lambda>as. Inr (a # as))"

lemma try_bind_Inr [simp]: "try_bind (Inr x) f = f x"
  by (simp add: try_bind_def)

lemma try_bind_Inl [simp]: "try_bind (Inl e) f = Inl e"
  by (simp add: try_bind_def)

lemma try_bind_InrD: "try_bind r f = Inr y \<Longrightarrow> \<exists>x. r = Inr x \<and> f x = Inr y"
  by (cases r) auto

lemma ok_or_Inr [simp]: "ok_or e x = Inr a \<longleftrightarrow> x = Some a"
  by (simp add: ok_or_def split: option.split)

lemma collect_results_map_Inr [simp]: "collect_results (map (\<lambda>x. Inr (f x)) xs) = Inr (map f xs)"
  by (induction xs) auto

end
