(* ===== verification/Ssrf.thy ===== *)
theory Ssrf
  imports SB_Prelude
begin

text \<open>
  The SSRF guard of \<open>crates/common/src/ssrf.rs\<close>: URL validation, the two address policies
  \<open>is_global_addr\<close> (strict) and \<open>is_monitor_safe_addr\<close> (monitoring), the resolve-then-check
  functions and the literal-target check.

  Parameters: the \<open>url\<close> crate's parser (a function from a string to the fields the guard
  reads) and the operating system's name resolution.  \<open>IpAddr\<close> parsing is a parameter too.
\<close>

section \<open>Addresses\<close>

datatype ip_addr =
  V4 u8 u8 u8 u8
| V6 u16 u16 u16 u16 u16 u16 u16 u16

text \<open>The predicates of \<open>std::net::Ipv4Addr\<close> the guard calls.\<close>

fun v4_is_loopback :: "ip_addr \<Rightarrow> bool" where
  "v4_is_loopback (V4 a b c d) \<longleftrightarrow> a = 127"
| "v4_is_loopback _ \<longleftrightarrow> False"

fun v4_is_private :: "ip_addr \<Rightarrow> bool" where
  "v4_is_private (V4 a b c d) \<longleftrightarrow>
     a = 10 \<or> (a = 172 \<and> b AND 0xF0 = 16) \<or> (a = 192 \<and> b = 168)"
| "v4_is_private _ \<longleftrightarrow> False"

fun v4_is_link_local :: "ip_addr \<Rightarrow> bool" where
  "v4_is_link_local (V4 a b c d) \<longleftrightarrow> a = 169 \<and> b = 254"
| "v4_is_link_local _ \<longleftrightarrow> False"

fun v4_is_broadcast :: "ip_addr \<Rightarrow> bool" where
  "v4_is_broadcast (V4 a b c d) \<longleftrightarrow> a = 255 \<and> b = 255 \<and> c = 255 \<and> d = 255"
| "v4_is_broadcast _ \<longleftrightarrow> False"

text \<open>
  \<open>Ipv6Addr::to_ipv4\<close>: the IPv4-mapped and IPv4-compatible addresses, the low two segments
  read as big-endian bytes.
\<close>

definition high_byte :: "u16 \<Rightarrow> u8" where
  "high_byte s = ucast (drop_bit 8 s)"

definition low_byte :: "u16 \<Rightarrow> u8" where
  "low_byte s = ucast s"

fun to_ipv4 :: "ip_addr \<Rightarrow> ip_addr option" where
  "to_ipv4 (V6 s0 s1 s2 s3 s4 s5 ab cd) =
     (if s0 = 0 \<and> s1 = 0 \<and> s2 = 0 \<and> s3 = 0 \<and> s4 = 0 \<and> (s5 = 0 \<or> s5 = 0xFFFF)
      then Some (V4 (high_byte ab) (low_byte ab) (high_byte cd) (low_byte cd))
      else None)"
| "to_ipv4 (V4 a b c d) = None"

lemma to_ipv4_V4: "to_ipv4 a = Some b \<Longrightarrow> \<exists>w x y z. b = V4 w x y z"
  by (cases a) (auto split: if_splits)

section \<open>Address policies\<close>

fun is_global_v4 :: "ip_addr \<Rightarrow> bool" where
  "is_global_v4 (V4 o0 o1 o2 o3) \<longleftrightarrow>
     (if v4_is_loopback (V4 o0 o1 o2 o3) then False
      else if v4_is_private (V4 o0 o1 o2 o3) then False
      else if v4_is_link_local (V4 o0 o1 o2 o3) then False
      else if v4_is_broadcast (V4 o0 o1 o2 o3) then False
      else if o0 = 0 then False
      else if o0 = 192 \<and> o1 = 0 \<and> o2 = 2 then False
      else if o0 = 198 \<and> o1 = 51 \<and> o2 = 100 then False
      else if o0 = 203 \<and> o1 = 0 \<and> o2 = 113 then False
      else if o0 = 100 \<and> o1 AND 0b11000000 = 0b01000000 then False
      else True)"
| "is_global_v4 _ \<longleftrightarrow> False"

fun is_global_addr :: "ip_addr \<Rightarrow> bool" where
  "is_global_addr (V4 a b c d) = is_global_v4 (V4 a b c d)"
| "is_global_addr (V6 s0 s1 s2 s3 s4 s5 s6 s7) =
     (case to_ipv4 (V6 s0 s1 s2 s3 s4 s5 s6 s7) of
        Some v4 \<Rightarrow> is_global_v4 v4
      | None \<Rightarrow>
          if (s0, s1, s2, s3, s4, s5, s6, s7) = (0, 0, 0, 0, 0, 0, 0, 1) then False
          else if (s0, s1, s2, s3, s4, s5, s6, s7) = (0, 0, 0, 0, 0, 0, 0, 0) then False
          else if s0 AND 0xFFC0 = 0xFE80 then False
          else if s0 AND 0xFE00 = 0xFC00 then False
          else if s0 = 0x2001 \<and> s1 = 0x0DB8 then False
          else if s0 = 0x0064 \<and> s1 = 0xFF9B \<and> s2 = 0 \<and> s3 = 0 \<and> s4 = 0 \<and> s5 = 0 then False
          else True)"

fun is_monitor_safe_v4 :: "ip_addr \<Rightarrow> bool" where
  "is_monitor_safe_v4 (V4 o0 o1 o2 o3) \<longleftrightarrow>
     (if v4_is_loopback (V4 o0 o1 o2 o3) then False
      else if v4_is_link_local (V4 o0 o1 o2 o3) then False
      else if v4_is_broadcast (V4 o0 o1 o2 o3) then False
      else if o0 = 0 then False
      else True)"
| "is_monitor_safe_v4 _ \<longleftrightarrow> False"

fun is_monitor_safe_addr :: "ip_addr \<Rightarrow> bool" where
  "is_monitor_safe_addr (V4 a b c d) = is_monitor_safe_v4 (V4 a b c d)"
| "is_monitor_safe_addr (V6 s0 s1 s2 s3 s4 s5 s6 s7) =
     (case to_ipv4 (V6 s0 s1 s2 s3 s4 s5 s6 s7) of
        Some v4 \<Rightarrow> is_monitor_safe_v4 v4
      | None \<Rightarrow>
          if (s0, s1, s2, s3, s4, s5, s6, s7) = (0, 0, 0, 0, 0, 0, 0, 1) then False
          else if (s0, s1, s2, s3, s4, s5, s6, s7) = (0, 0, 0, 0, 0, 0, 0, 0) then False
          else if s0 AND 0xFFC0 = 0xFE80 then False
          else if s0 = 0x0064 \<and> s1 = 0xFF9B \<and> s2 = 0 \<and> s3 = 0 \<and> s4 = 0 \<and> s5 = 0 then False
          else True)"

section \<open>URL validation\<close>

text \<open>The fields of a parsed \<open>Url\<close> the guard reads; the parser is a parameter.\<close>

record parsed_url =
  u_scheme :: string
  u_port :: "u16 option"
  u_username :: string
  u_password :: "string option"
  u_host_str :: "string option"

datatype ssrf_error =
  UrlParse
| SchemeNotAllowed string
| PortNotAllowed u16
| EmbeddedCredentials
| ResolveIo
| CouldNotResolve string
| NonGlobalAddress string ip_addr
| BlockedAddress string ip_addr
| BlockedTarget string ip_addr

definition ALLOWED_SCHEMES :: "string list" where
  "ALLOWED_SCHEMES = [''http'', ''https'']"

definition ALLOWED_PORTS :: "u16 list" where
  "ALLOWED_PORTS = [80, 443]"

definition validate_url_inner ::
  "(string \<Rightarrow> parsed_url option) \<Rightarrow> string \<Rightarrow> bool \<Rightarrow> ssrf_error + parsed_url" where
  "validate_url_inner parse_url raw restrict_ports =
     (case parse_url raw of
        None \<Rightarrow> Inl UrlParse
      | Some url \<Rightarrow>
          if u_scheme url \<notin> set ALLOWED_SCHEMES then Inl (SchemeNotAllowed (u_scheme url))
          else if restrict_ports \<and> (case u_port url of Some p \<Rightarrow> p \<notin> set ALLOWED_PORTS | None \<Rightarrow> False)
          then Inl (PortNotAllowed (the (u_port url)))
          else if u_username url \<noteq> [] \<or> u_password url \<noteq> None then Inl EmbeddedCredentials
          else Inr url)"

definition validate_url ::
  "(string \<Rightarrow> parsed_url option) \<Rightarrow> string \<Rightarrow> ssrf_error + parsed_url" where
  "validate_url parse_url raw = validate_url_inner parse_url raw True"

definition validate_monitor_url ::
  "(string \<Rightarrow> parsed_url option) \<Rightarrow> string \<Rightarrow> ssrf_error + parsed_url" where
  "validate_monitor_url parse_url raw = validate_url_inner parse_url raw False"

section \<open>Resolve and check\<close>

type_synonym resolver = "string \<Rightarrow> u16 \<Rightarrow> (ip_addr \<times> u16) list option"

text \<open>The loop over the resolved addresses: the first offending one is the error.\<close>

fun first_bad :: "(ip_addr \<Rightarrow> bool) \<Rightarrow> (ip_addr \<times> u16) list \<Rightarrow> ip_addr option" where
  "first_bad ok [] = None"
| "first_bad ok ((ip, port) # addrs) = (if \<not> ok ip then Some ip else first_bad ok addrs)"

definition resolve_and_check ::
  "resolver \<Rightarrow> string \<Rightarrow> u16 \<Rightarrow> ssrf_error + (ip_addr \<times> u16) list" where
  "resolve_and_check resolve host port =
     (case resolve host port of
        None \<Rightarrow> Inl ResolveIo
      | Some addrs \<Rightarrow>
          if addrs = [] then Inl (CouldNotResolve host)
          else case first_bad is_global_addr addrs of
                 Some ip \<Rightarrow> Inl (NonGlobalAddress host ip)
               | None \<Rightarrow> Inr addrs)"

definition resolve_and_check_monitor ::
  "resolver \<Rightarrow> string \<Rightarrow> u16 \<Rightarrow> ssrf_error + (ip_addr \<times> u16) list" where
  "resolve_and_check_monitor resolve host port =
     (case resolve host port of
        None \<Rightarrow> Inl ResolveIo
      | Some addrs \<Rightarrow>
          if addrs = [] then Inl (CouldNotResolve host)
          else case first_bad is_monitor_safe_addr addrs of
                 Some ip \<Rightarrow> Inl (BlockedAddress host ip)
               | None \<Rightarrow> Inr addrs)"

definition rsplit_host_port :: "string \<Rightarrow> string option" where
  "rsplit_host_port target =
     (case rsplit_once target CHR '':'' of
        Some (h, port) \<Rightarrow>
          if CHR '':'' \<notin> set h \<and> port \<noteq> [] \<and> list_all is_ascii_digit port
          then Some h else None
      | None \<Rightarrow> None)"

definition bracketed_host :: "string \<Rightarrow> string option" where
  "bracketed_host target =
     (case strip_prefix target ''['' of
        None \<Rightarrow> None
      | Some rest \<Rightarrow>
          (case split_once rest '']:'' of
             Some (h, _) \<Rightarrow> Some h
           | None \<Rightarrow> strip_suffix rest '']''))"

definition extract_target_host :: "(string \<Rightarrow> parsed_url option) \<Rightarrow> string \<Rightarrow> string" where
  "extract_target_host parse_url target =
     (case (if str_contains target ''://''
            then Option.bind (parse_url target) u_host_str else None) of
        Some h \<Rightarrow> trim_end_matches CHR '']'' (trim_start_matches CHR ''['' h)
      | None \<Rightarrow>
          (case bracketed_host target of
             Some h \<Rightarrow> h
           | None \<Rightarrow>
               (case rsplit_host_port target of
                  Some h \<Rightarrow> h
                | None \<Rightarrow> target)))"

definition reject_literal_unsafe_target ::
  "(string \<Rightarrow> parsed_url option) \<Rightarrow> (string \<Rightarrow> ip_addr option) \<Rightarrow> string \<Rightarrow> ssrf_error + unit" where
  "reject_literal_unsafe_target parse_url parse_ip target =
     (case parse_ip (extract_target_host parse_url target) of
        Some ip \<Rightarrow> if \<not> is_monitor_safe_addr ip then Inl (BlockedTarget target ip) else Inr ()
      | None \<Rightarrow> Inr ())"


section \<open>Byte tests as ranges\<close>

lemma u8_bound: "unat (b :: u8) < 256"
  using unsigned_less [of b] by simp

text \<open>A byte test is decided by its value at the 256 bytes.\<close>

lemma u8_check: "list_all P [0..<256] \<Longrightarrow> P (unat (b :: u8))"
  unfolding list_all_iff set_upt using u8_bound [of b] by (metis atLeastLessThan_iff zero_le)

lemma byte_masks_172:
  "list_all (\<lambda>n. ((word_of_nat n :: u8) AND 0xF0 = 16) = (16 \<le> n \<and> n < 32)) [0..<256]"
  by code_simp

lemma byte_masks_100:
  "list_all (\<lambda>n. ((word_of_nat n :: u8) AND 0b11000000 = 0b01000000) = (64 \<le> n \<and> n < 128)) [0..<256]"
  by code_simp

lemma byte_in_172: "(b :: u8) AND 0xF0 = 16 \<longleftrightarrow> 16 \<le> unat b \<and> unat b < 32"
  using u8_check [OF byte_masks_172, of b] by simp

lemma byte_in_100: "(b :: u8) AND 0b11000000 = 0b01000000 \<longleftrightarrow> 64 \<le> unat b \<and> unat b < 128"
  using u8_check [OF byte_masks_100, of b] by simp

lemma u8_eq_unat: "(b :: u8) = numeral k \<longleftrightarrow> unat b = unat (numeral k :: u8)"
  by (simp add: word_unat_eq_iff)

lemma u8_eq_0: "(b :: u8) = 0 \<longleftrightarrow> unat b = 0"
  by (simp add: unat_eq_0)

section \<open>The strict policy as a list of CIDR blocks\<close>

text \<open>
  The specification: an IPv4 address as a 32-bit number, and the blocks the policy's
  documentation names, each as base address and prefix length.
\<close>

definition dotted :: "nat \<Rightarrow> nat \<Rightarrow> nat \<Rightarrow> nat \<Rightarrow> nat" where
  "dotted a b c d = ((a * 256 + b) * 256 + c) * 256 + d"

fun v4_number :: "ip_addr \<Rightarrow> nat" where
  "v4_number (V4 a b c d) = dotted (unat a) (unat b) (unat c) (unat d)"
| "v4_number _ = 0"

definition in_cidr :: "nat \<Rightarrow> nat \<times> nat \<Rightarrow> bool" where
  "in_cidr n = (\<lambda>(base, len). n div 2 ^ (32 - len) = base div 2 ^ (32 - len))"

definition non_global_blocks :: "(nat \<times> nat) list" where
  "non_global_blocks =
     [(dotted 0 0 0 0, 8), (dotted 127 0 0 0, 8),
      (dotted 10 0 0 0, 8), (dotted 172 16 0 0, 12), (dotted 192 168 0 0, 16),
      (dotted 169 254 0 0, 16), (dotted 255 255 255 255, 32),
      (dotted 192 0 2 0, 24), (dotted 198 51 100 0, 24), (dotted 203 0 113 0, 24),
      (dotted 100 64 0 0, 10)]"

definition private_blocks :: "(nat \<times> nat) list" where
  "private_blocks = [(dotted 10 0 0 0, 8), (dotted 172 16 0 0, 12), (dotted 192 168 0 0, 16)]"

lemma dotted_div:
  assumes "b < 256" "c < 256" "d < 256"
  shows "dotted a b c d div 16777216 = a" and "dotted a b c d div 65536 = a * 256 + b"
    and "dotted a b c d div 256 = (a * 256 + b) * 256 + c"
    and "dotted a b c d div 1048576 = a * 16 + b div 16"
    and "dotted a b c d div 4194304 = a * 4 + b div 64"
proof -
  show d8: "dotted a b c d div 256 = (a * 256 + b) * 256 + c"
    using assms by (simp add: dotted_def)
  have "dotted a b c d div 65536 = dotted a b c d div 256 div 256"
    by (simp add: div_mult2_eq [symmetric])
  then show d16: "dotted a b c d div 65536 = a * 256 + b"
    using assms d8 by simp
  have "dotted a b c d div 16777216 = dotted a b c d div 65536 div 256"
    by (simp add: div_mult2_eq [symmetric])
  then show "dotted a b c d div 16777216 = a"
    using assms d16 by simp
  have "dotted a b c d div 1048576 = dotted a b c d div 65536 div 16"
    by (simp add: div_mult2_eq [symmetric])
  also have "\<dots> = (a * 16 * 16 + b) div 16" using d16 by simp
  also have "\<dots> = a * 16 + b div 16" by (subst div_mult_self3) simp_all
  finally show "dotted a b c d div 1048576 = a * 16 + b div 16" .
  have "dotted a b c d div 4194304 = dotted a b c d div 65536 div 64"
    by (simp add: div_mult2_eq [symmetric])
  also have "\<dots> = (a * 4 * 64 + b) div 64" using d16 by simp
  also have "\<dots> = a * 4 + b div 64" by (subst div_mult_self3) simp_all
  finally show "dotted a b c d div 4194304 = a * 4 + b div 64" .
qed

lemma digits_base:
  assumes "b < n" "b' < (n :: nat)"
  shows "(a * n + b = a' * n + b') = (a = a' \<and> b = b')"
proof
  assume eq: "a * n + b = a' * n + b'"
  have "(a * n + b) div n = a" and "(a' * n + b') div n = a'"
    using assms by simp_all
  with eq show "a = a' \<and> b = b'" by auto
qed auto

lemmas digits_256 = digits_base [where n = 256]

lemma in_cidr_8:
  "b < 256 \<Longrightarrow> c < 256 \<Longrightarrow> d < 256 \<Longrightarrow> in_cidr (dotted a b c d) (dotted x 0 0 0, 8) \<longleftrightarrow> a = x"
  by (simp add: in_cidr_def dotted_div)

lemma in_cidr_16:
  "b < 256 \<Longrightarrow> c < 256 \<Longrightarrow> d < 256 \<Longrightarrow> y < 256 \<Longrightarrow>
   in_cidr (dotted a b c d) (dotted x y 0 0, 16) \<longleftrightarrow> a = x \<and> b = y"
  by (simp add: in_cidr_def dotted_div digits_256)

lemma in_cidr_24:
  "b < 256 \<Longrightarrow> c < 256 \<Longrightarrow> d < 256 \<Longrightarrow> y < 256 \<Longrightarrow> z < 256 \<Longrightarrow>
   in_cidr (dotted a b c d) (dotted x y z 0, 24) \<longleftrightarrow> a = x \<and> b = y \<and> c = z"
  unfolding in_cidr_def by (simp add: dotted_div digits_256 del: distrib_right_numeral)

lemma in_cidr_172:
  "b < 256 \<Longrightarrow> c < 256 \<Longrightarrow> d < 256 \<Longrightarrow>
   in_cidr (dotted a b c d) (dotted 172 16 0 0, 12) \<longleftrightarrow> a = 172 \<and> 16 \<le> b \<and> b < 32"
proof -
  assume b: "b < 256" "c < 256" "d < 256"
  have "a * 16 + b div 16 = 172 * 16 + 1 \<longleftrightarrow> a = 172 \<and> b div 16 = 1"
    by (rule digits_base) (use b(1) in \<open>simp_all add: less_mult_imp_div_less\<close>)
  then show ?thesis
    using b by (simp add: in_cidr_def dotted_div) linarith
qed

lemma in_cidr_100:
  "b < 256 \<Longrightarrow> c < 256 \<Longrightarrow> d < 256 \<Longrightarrow>
   in_cidr (dotted a b c d) (dotted 100 64 0 0, 10) \<longleftrightarrow> a = 100 \<and> 64 \<le> b \<and> b < 128"
proof -
  assume b: "b < 256" "c < 256" "d < 256"
  have "a * 4 + b div 64 = 100 * 4 + 1 \<longleftrightarrow> a = 100 \<and> b div 64 = 1"
    by (rule digits_base) (use b(1) in \<open>simp_all add: less_mult_imp_div_less\<close>)
  then show ?thesis
    using b by (simp add: in_cidr_def dotted_div) linarith
qed

lemma in_cidr_255:
  "b < 256 \<Longrightarrow> c < 256 \<Longrightarrow> d < 256 \<Longrightarrow>
   in_cidr (dotted a b c d) (dotted 255 255 255 255, 32) \<longleftrightarrow>
     a = 255 \<and> b = 255 \<and> c = 255 \<and> d = 255"
proof -
  assume b: "b < 256" "c < 256" "d < 256"
  have "dotted a b c d = dotted 255 255 255 255 \<longleftrightarrow> a = 255 \<and> b = 255 \<and> c = 255 \<and> d = 255"
    unfolding dotted_def using b by (subst digits_256, simp, simp)+ auto
  then show ?thesis by (simp add: in_cidr_def)
qed

lemmas in_cidr_simps =
  in_cidr_8 in_cidr_16 in_cidr_24 in_cidr_172 in_cidr_100 in_cidr_255 u8_bound

text \<open>
  For IPv4 the strict guard's octet tests decide exactly membership in the
  documented CIDR blocks: an address is globally routable iff its 32-bit number lies in none
  of 0/8, 127/8, 10/8, 172.16/12, 192.168/16, 169.254/16, 255.255.255.255/32, the three
  documentation /24s and 100.64/10.
\<close>

lemma is_global_v4_cidr:
  "is_global_addr (V4 a b c d) \<longleftrightarrow>
     list_all (\<lambda>blk. \<not> in_cidr (v4_number (V4 a b c d)) blk) non_global_blocks"
proof -
  have "is_global_addr (V4 a b c d) \<longleftrightarrow>
      \<not> (unat a = 127 \<or> unat a = 10 \<or> (unat a = 172 \<and> 16 \<le> unat b \<and> unat b < 32) \<or>
        (unat a = 192 \<and> unat b = 168) \<or> (unat a = 169 \<and> unat b = 254) \<or>
        (unat a = 255 \<and> unat b = 255 \<and> unat c = 255 \<and> unat d = 255) \<or> unat a = 0 \<or>
        (unat a = 192 \<and> unat b = 0 \<and> unat c = 2) \<or> (unat a = 198 \<and> unat b = 51 \<and> unat c = 100) \<or>
        (unat a = 203 \<and> unat b = 0 \<and> unat c = 113) \<or>
        (unat a = 100 \<and> 64 \<le> unat b \<and> unat b < 128))"
    unfolding is_global_addr.simps is_global_v4.simps v4_is_loopback.simps v4_is_private.simps
      v4_is_link_local.simps v4_is_broadcast.simps byte_in_172 byte_in_100
    by (simp only: u8_eq_unat u8_eq_0) simp
  then show ?thesis
    unfolding non_global_blocks_def v4_number.simps
    by (simp add: in_cidr_simps del: is_global_addr.simps) blast
qed

section \<open>How the two policies relate\<close>

lemma is_global_v4_monitor: "is_global_v4 a \<Longrightarrow> is_monitor_safe_v4 a"
  by (cases a) (auto split: if_splits)

lemma to_ipv4_None_cases:
  "to_ipv4 (V6 s0 s1 s2 s3 s4 s5 s6 s7) = None \<longleftrightarrow>
     \<not> (s0 = 0 \<and> s1 = 0 \<and> s2 = 0 \<and> s3 = 0 \<and> s4 = 0 \<and> (s5 = 0 \<or> s5 = 0xFFFF))"
  by simp

lemma is_global_implies_monitor_safe_aux: "is_global_addr a \<Longrightarrow> is_monitor_safe_addr a"
proof (induction a rule: is_global_addr.induct)
  case (1 a b c d)
  then show ?case
    by (simp add: is_global_v4_monitor del: is_global_v4.simps is_monitor_safe_v4.simps)
next
  case (2 s0 s1 s2 s3 s4 s5 s6 s7)
  show ?case
  proof (cases "to_ipv4 (V6 s0 s1 s2 s3 s4 s5 s6 s7)")
    case None
    with "2" show ?thesis
      unfolding is_global_addr.simps is_monitor_safe_addr.simps None option.case
      by (simp only: split: if_splits) simp
  next
    case (Some v4)
    with "2" show ?thesis
      unfolding is_global_addr.simps is_monitor_safe_addr.simps Some option.case
      by (rule_tac is_global_v4_monitor)
  qed
qed

lemma high_low_bytes [simp]:
  "high_byte (word_cat (x :: u8) (y :: u8)) = x" "low_byte (word_cat x y) = y"
  by (simp_all add: high_byte_def low_byte_def) (rule bit_eqI, auto simp: bit_simps)+

text \<open>
  Embedding an IPv4 address in IPv6 never changes a verdict.  The mapped form
  \<open>::ffff:a.b.c.d\<close> and the compatible form \<open>::a.b.c.d\<close> are judged by both policies exactly as
  \<open>a.b.c.d\<close> is, so neither can smuggle a loopback or metadata address past the guard.
\<close>

lemma embedded_v4_same_verdict:
  "\<forall>s5. s5 = 0 \<or> s5 = 0xFFFF \<longrightarrow>
     is_global_addr (V6 0 0 0 0 0 s5 (word_cat a b) (word_cat c d)) = is_global_addr (V4 a b c d) \<and>
     is_monitor_safe_addr (V6 0 0 0 0 0 s5 (word_cat a b) (word_cat c d))
       = is_monitor_safe_addr (V4 a b c d)"
  by (simp del: is_global_v4.simps is_monitor_safe_v4.simps)

lemma embedded_v4_same_verdict_witness:
  "\<not> is_global_addr (V6 0 0 0 0 0 0xFFFF (word_cat (127 :: u8) (0 :: u8)) (word_cat (0 :: u8) (1 :: u8)))"
  using embedded_v4_same_verdict [of 127 0 0 1] by simp

lemma first_bad_None: "first_bad ok addrs = None \<longleftrightarrow> (\<forall>p \<in> set addrs. ok (fst p))"
  by (induction ok addrs rule: first_bad.induct) auto

lemma first_bad_Some: "first_bad ok addrs = Some ip \<Longrightarrow> \<not> ok ip \<and> ip \<in> fst ` set addrs"
  by (induction ok addrs rule: first_bad.induct) (auto split: if_splits)

lemma resolve_and_check_ok_iff:
  "resolve_and_check resolve host port = Inr addrs \<longleftrightarrow>
     resolve host port = Some addrs \<and> addrs \<noteq> [] \<and>
     list_all (\<lambda>p. is_global_addr (fst p)) addrs"
proof (cases "resolve host port")
  case None
  then show ?thesis by (simp add: resolve_and_check_def)
next
  case (Some l)
  then show ?thesis
    using first_bad_None [of is_global_addr l]
    by (auto simp: resolve_and_check_def list_all_iff split: option.splits)
qed

lemma resolve_and_check_monitor_ok_iff:
  "resolve_and_check_monitor resolve host port = Inr addrs \<longleftrightarrow>
     resolve host port = Some addrs \<and> addrs \<noteq> [] \<and>
     list_all (\<lambda>p. is_monitor_safe_addr (fst p)) addrs"
proof (cases "resolve host port")
  case None
  then show ?thesis by (simp add: resolve_and_check_monitor_def)
next
  case (Some l)
  then show ?thesis
    using first_bad_None [of is_monitor_safe_addr l]
    by (auto simp: resolve_and_check_monitor_def list_all_iff split: option.splits)
qed

text \<open>Whatever passes the strict resolution passes the monitoring one with the same addresses.\<close>

lemma resolve_and_check_monitor_mono:
  "resolve_and_check resolve host port = Inr addrs \<Longrightarrow>
   resolve_and_check_monitor resolve host port = Inr addrs"
  unfolding resolve_and_check_ok_iff resolve_and_check_monitor_ok_iff
  by (auto simp: list_all_iff intro: is_global_implies_monitor_safe_aux)

end
