(* ===== verification/Capability.thy ===== *)
theory Capability
  imports SB_Prelude
begin

text \<open>
  The capability toggles of \<open>crates/common/src/constants.rs\<close>: the bit of every capability,
  its wire name, the metadata table, and the tests \<open>has_capability\<close> and
  \<open>probe_type_to_cap\<close>.  The lemmas show that the three representations (enum, bit, name)
  agree, that the metadata table covers exactly the valid mask, and that the default mask is
  exactly the set of capabilities the table marks \<open>default_enabled\<close>.
\<close>

section \<open>Bits, keys and names\<close>

definition CAP_TERMINAL :: u32 where "CAP_TERMINAL = 1"
definition CAP_EXEC :: u32 where "CAP_EXEC = 2"
definition CAP_UPGRADE :: u32 where "CAP_UPGRADE = 4"
definition CAP_PING_ICMP :: u32 where "CAP_PING_ICMP = 8"
definition CAP_PING_TCP :: u32 where "CAP_PING_TCP = 16"
definition CAP_PING_HTTP :: u32 where "CAP_PING_HTTP = 32"
definition CAP_FILE :: u32 where "CAP_FILE = 64"
definition CAP_DOCKER :: u32 where "CAP_DOCKER = 128"
definition CAP_SECURITY_EVENTS :: u32 where "CAP_SECURITY_EVENTS = 256"
definition CAP_FIREWALL_BLOCK :: u32 where "CAP_FIREWALL_BLOCK = 512"
definition CAP_IP_QUALITY :: u32 where "CAP_IP_QUALITY = 1024"

definition CAP_DEFAULT :: u32 where
  "CAP_DEFAULT = CAP_UPGRADE OR CAP_PING_ICMP OR CAP_PING_TCP OR CAP_PING_HTTP
     OR CAP_SECURITY_EVENTS OR CAP_FIREWALL_BLOCK OR CAP_IP_QUALITY"

definition CAP_VALID_MASK :: u32 where "CAP_VALID_MASK = 0b11111111111"

lemmas cap_bit_defs =
  CAP_TERMINAL_def CAP_EXEC_def CAP_UPGRADE_def CAP_PING_ICMP_def CAP_PING_TCP_def
  CAP_PING_HTTP_def CAP_FILE_def CAP_DOCKER_def CAP_SECURITY_EVENTS_def
  CAP_FIREWALL_BLOCK_def CAP_IP_QUALITY_def

datatype capability_key =
  Terminal | Exec | Upgrade | PingIcmp | PingTcp | PingHttp | File | Docker
| SecurityEvents | FirewallBlock | IpQuality

fun as_str :: "capability_key \<Rightarrow> string" where
  "as_str Terminal = ''terminal''"
| "as_str Exec = ''exec''"
| "as_str Upgrade = ''upgrade''"
| "as_str PingIcmp = ''ping_icmp''"
| "as_str PingTcp = ''ping_tcp''"
| "as_str PingHttp = ''ping_http''"
| "as_str File = ''file''"
| "as_str Docker = ''docker''"
| "as_str SecurityEvents = ''security_events''"
| "as_str FirewallBlock = ''firewall_block''"
| "as_str IpQuality = ''ip_quality''"

fun to_bit :: "capability_key \<Rightarrow> u32" where
  "to_bit Terminal = CAP_TERMINAL"
| "to_bit Exec = CAP_EXEC"
| "to_bit Upgrade = CAP_UPGRADE"
| "to_bit PingIcmp = CAP_PING_ICMP"
| "to_bit PingTcp = CAP_PING_TCP"
| "to_bit PingHttp = CAP_PING_HTTP"
| "to_bit File = CAP_FILE"
| "to_bit Docker = CAP_DOCKER"
| "to_bit SecurityEvents = CAP_SECURITY_EVENTS"
| "to_bit FirewallBlock = CAP_FIREWALL_BLOCK"
| "to_bit IpQuality = CAP_IP_QUALITY"

definition from_str :: "string \<Rightarrow> string + capability_key" where
  "from_str value =
     (if value = ''terminal'' then Inr Terminal
      else if value = ''exec'' then Inr Exec
      else if value = ''upgrade'' then Inr Upgrade
      else if value = ''ping_icmp'' then Inr PingIcmp
      else if value = ''ping_tcp'' then Inr PingTcp
      else if value = ''ping_http'' then Inr PingHttp
      else if value = ''file'' then Inr File
      else if value = ''docker'' then Inr Docker
      else if value = ''security_events'' then Inr SecurityEvents
      else if value = ''firewall_block'' then Inr FirewallBlock
      else if value = ''ip_quality'' then Inr IpQuality
      else Inl (''unknown capability: '' @ value))"

datatype capability_denied_reason = ServerCapabilityDisabled | AgentCapabilityDisabled

record capability_meta =
  cm_bit :: u32
  cm_key :: string
  cm_display_name :: string
  cm_default_enabled :: bool
  cm_risk_level :: string

definition ALL_CAPABILITIES :: "capability_meta list" where
  "ALL_CAPABILITIES =
   [\<lparr>cm_bit = CAP_TERMINAL, cm_key = ''terminal'', cm_display_name = ''Web Terminal'',
      cm_default_enabled = False, cm_risk_level = ''high''\<rparr>,
    \<lparr>cm_bit = CAP_EXEC, cm_key = ''exec'', cm_display_name = ''Remote Exec'',
      cm_default_enabled = False, cm_risk_level = ''high''\<rparr>,
    \<lparr>cm_bit = CAP_UPGRADE, cm_key = ''upgrade'', cm_display_name = ''Auto Upgrade'',
      cm_default_enabled = True, cm_risk_level = ''low''\<rparr>,
    \<lparr>cm_bit = CAP_PING_ICMP, cm_key = ''ping_icmp'', cm_display_name = ''ICMP Ping'',
      cm_default_enabled = True, cm_risk_level = ''low''\<rparr>,
    \<lparr>cm_bit = CAP_PING_TCP, cm_key = ''ping_tcp'', cm_display_name = ''TCP Probe'',
      cm_default_enabled = True, cm_risk_level = ''low''\<rparr>,
    \<lparr>cm_bit = CAP_PING_HTTP, cm_key = ''ping_http'', cm_display_name = ''HTTP Probe'',
      cm_default_enabled = True, cm_risk_level = ''low''\<rparr>,
    \<lparr>cm_bit = CAP_FILE, cm_key = ''file'', cm_display_name = ''File Manager'',
      cm_default_enabled = False, cm_risk_level = ''high''\<rparr>,
    \<lparr>cm_bit = CAP_DOCKER, cm_key = ''docker'', cm_display_name = ''Docker Management'',
      cm_default_enabled = False, cm_risk_level = ''high''\<rparr>,
    \<lparr>cm_bit = CAP_SECURITY_EVENTS, cm_key = ''security_events'',
      cm_display_name = ''Security Events'', cm_default_enabled = True, cm_risk_level = ''low''\<rparr>,
    \<lparr>cm_bit = CAP_FIREWALL_BLOCK, cm_key = ''firewall_block'',
      cm_display_name = ''Firewall Blocklist'', cm_default_enabled = True,
      cm_risk_level = ''medium''\<rparr>,
    \<lparr>cm_bit = CAP_IP_QUALITY, cm_key = ''ip_quality'', cm_display_name = ''IP Quality'',
      cm_default_enabled = True, cm_risk_level = ''medium''\<rparr>]"

definition has_capability :: "u32 \<Rightarrow> u32 \<Rightarrow> bool" where
  "has_capability capabilities cap_bit \<longleftrightarrow> capabilities AND cap_bit \<noteq> 0"

definition probe_type_to_cap :: "string \<Rightarrow> u32 option" where
  "probe_type_to_cap probe_type =
     (if probe_type = ''icmp'' then Some CAP_PING_ICMP
      else if probe_type = ''tcp'' then Some CAP_PING_TCP
      else if probe_type = ''http'' then Some CAP_PING_HTTP
      else None)"

section \<open>Keys as bit positions\<close>

text \<open>Every key owns one bit position; reasoning about masks goes through \<open>bit\<close>.\<close>

fun key_index :: "capability_key \<Rightarrow> nat" where
  "key_index Terminal = 0"
| "key_index Exec = 1"
| "key_index Upgrade = 2"
| "key_index PingIcmp = 3"
| "key_index PingTcp = 4"
| "key_index PingHttp = 5"
| "key_index File = 6"
| "key_index Docker = 7"
| "key_index SecurityEvents = 8"
| "key_index FirewallBlock = 9"
| "key_index IpQuality = 10"

lemma to_bit_exp: "to_bit k = push_bit (key_index k) 1"
  by (cases k) (simp_all add: cap_bit_defs push_bit_eq_mult)

lemma key_index_less: "key_index k < 11"
  by (cases k) simp_all

lemma key_index_inject [simp]: "key_index k = key_index k' \<longleftrightarrow> k = k'"
  by (cases k; cases k') simp_all

lemma key_index_surj: "n < 11 \<Longrightarrow> \<exists>k. key_index k = n"
proof -
  assume "n < 11"
  then have "n \<in> {0, 1, 2, 3, 4, 5, 6, 7, 8, 9, 10}"
    by (simp only: insert_iff empty_iff) presburger
  then show ?thesis
    by (elim insertE emptyE) (metis key_index.simps)+
qed

lemma bit_to_bit [simp]: "bit (to_bit k) n \<longleftrightarrow> n = key_index k"
  using key_index_less [of k] by (auto simp: to_bit_exp bit_simps)

lemma bit_VALID_MASK [simp]: "bit CAP_VALID_MASK n \<longleftrightarrow> n < 11"
proof -
  have "CAP_VALID_MASK = mask 11" by (simp add: CAP_VALID_MASK_def mask_eq_exp_minus_1)
  then have "bit CAP_VALID_MASK n = bit (mask 11 :: u32) n" by (rule arg_cong)
  then show ?thesis by (simp only: bit_mask_iff) auto
qed

lemma word_and_bit_eq_0: "(w :: u32) AND to_bit k = 0 \<longleftrightarrow> \<not> bit w (key_index k)"
proof -
  have "w AND to_bit k = 0 \<longleftrightarrow> (\<forall>n. \<not> bit (w AND to_bit k) n)"
    by (metis bit_0_eq bit_eqI bot_apply bot_bool_def)
  then show ?thesis by (auto simp: bit_and_iff)
qed

lemma has_capability_bit [simp]: "has_capability w (to_bit k) \<longleftrightarrow> bit w (key_index k)"
  by (simp add: has_capability_def word_and_bit_eq_0)

lemma to_bit_inject [simp]: "to_bit k = to_bit k' \<longleftrightarrow> k = k'"
proof
  assume "to_bit k = to_bit k'"
  then have "bit (to_bit k') (key_index k)" by (metis bit_to_bit)
  then show "k = k'" by simp
qed simp

lemma as_str_inject [simp]: "as_str k = as_str k' \<longleftrightarrow> k = k'"
  by (cases k; cases k') simp_all

lemma from_str_as_str [simp]: "from_str (as_str k) = Inr k"
  by (cases k) (simp_all add: from_str_def)

lemma from_str_InrD: "from_str s = Inr k \<Longrightarrow> s = as_str k"
  by (auto simp: from_str_def split: if_splits)

lemma from_str_iff: "from_str s = Inr k \<longleftrightarrow> s = as_str k"
  using from_str_InrD by auto

lemma valid_mask_iff: "(w :: u32) AND CAP_VALID_MASK = w \<longleftrightarrow> (\<forall>n. bit w n \<longrightarrow> n < 11)"
proof
  assume "w AND CAP_VALID_MASK = w"
  then show "\<forall>n. bit w n \<longrightarrow> n < 11" by (metis bit_VALID_MASK bit_and_iff)
next
  assume "\<forall>n. bit w n \<longrightarrow> n < 11"
  then show "w AND CAP_VALID_MASK = w" by (intro bit_eqI) (auto simp: bit_and_iff)
qed

text \<open>A mask within the valid bits is determined by the capabilities it holds.\<close>

lemma valid_mask_eqI:
  assumes "a AND CAP_VALID_MASK = a" and "b AND CAP_VALID_MASK = b"
    and "\<And>k. has_capability a (to_bit k) \<longleftrightarrow> has_capability b (to_bit k)"
  shows "(a :: u32) = b"
proof (rule bit_eqI)
  fix n
  have low: "bit a n \<Longrightarrow> n < 11" "bit b n \<Longrightarrow> n < 11"
    using assms(1,2) by (metis bit_VALID_MASK bit_and_iff)+
  show "bit a n \<longleftrightarrow> bit b n"
  proof (cases "n < 11")
    case True
    then obtain k where "key_index k = n" using key_index_surj by blast
    with assms(3) [of k] show ?thesis by simp
  next
    case False
    with low show ?thesis by blast
  qed
qed

section \<open>The metadata table\<close>

definition key_meta :: "capability_key \<Rightarrow> capability_meta \<Rightarrow> bool" where
  "key_meta k m \<longleftrightarrow> cm_bit m = to_bit k \<and> cm_key m = as_str k"

text \<open>The table lists the keys in bit order, one row each.\<close>

definition all_keys :: "capability_key list" where
  "all_keys = [Terminal, Exec, Upgrade, PingIcmp, PingTcp, PingHttp, File, Docker,
     SecurityEvents, FirewallBlock, IpQuality]"

lemma set_all_keys [simp]: "set all_keys = UNIV"
proof -
  have "k \<in> set all_keys" for k by (cases k) (simp_all add: all_keys_def)
  then show ?thesis by blast
qed

lemma ALL_CAPABILITIES_keys: "map cm_key ALL_CAPABILITIES = map as_str all_keys"
  by (simp add: ALL_CAPABILITIES_def all_keys_def)

lemma ALL_CAPABILITIES_bits: "map cm_bit ALL_CAPABILITIES = map to_bit all_keys"
  by (simp add: ALL_CAPABILITIES_def all_keys_def)

lemma ALL_CAPABILITIES_rows: "list_all2 key_meta all_keys ALL_CAPABILITIES"
  by (simp add: key_meta_def ALL_CAPABILITIES_def all_keys_def)

lemma default_bit: "has_capability CAP_DEFAULT (to_bit k) \<longleftrightarrow>
    k \<in> {Upgrade, PingIcmp, PingTcp, PingHttp, SecurityEvents, FirewallBlock, IpQuality}"
  unfolding has_capability_def CAP_DEFAULT_def cap_bit_defs
  by (cases k) (simp_all add: cap_bit_defs)

text \<open>
  The metadata table is consistent with the enum.  Its rows are, in order, the rows
  of all capabilities: each carries exactly the bit and the name the enum maps to, the name
  parses back to the capability, and the row is marked \<open>default_enabled\<close> exactly when the
  default mask holds its bit.
\<close>

lemma capability_table_consistent:
  "set all_keys = UNIV \<and> distinct all_keys \<and>
   list_all2 (\<lambda>k m. cm_bit m = to_bit k \<and> from_str (cm_key m) = Inr k \<and>
       (cm_default_enabled m \<longleftrightarrow> has_capability CAP_DEFAULT (to_bit k)))
     all_keys ALL_CAPABILITIES"
  unfolding default_bit from_str_iff
  by (simp add: set_all_keys) (simp add: all_keys_def ALL_CAPABILITIES_def)

end
