(* ===== verification/Capability_Policy.thy ===== *)
theory Capability_Policy
  imports Capability
begin

text \<open>
  The agent's startup capability policy, \<open>crates/agent/src/capability_policy.rs\<close>: the config
  layer and the command-line layer over the default mask, the two reconciliations with what
  the subsystems can serve, and the parser of the \<open>--allow-cap\<close>/\<open>--deny-cap\<close> flags.
\<close>

section \<open>Layers\<close>

record overrides =
  allow_caps :: "capability_key list"
  deny_caps :: "capability_key list"

text \<open>The \<open>allow\<close> and \<open>deny\<close> lists of the \<open>[capabilities]\<close> block.\<close>

record capabilities_config =
  cfg_allow :: "string list"
  cfg_deny :: "string list"

datatype policy_error =
  BadCapability string
| MissingValue string
| UnknownFlag string

definition parse_key :: "string \<Rightarrow> policy_error + capability_key" where
  "parse_key s = (case from_str s of Inl e \<Rightarrow> Inl (BadCapability e) | Inr k \<Rightarrow> Inr k)"

definition parse_config_capabilities :: "capabilities_config \<Rightarrow> policy_error + overrides" where
  "parse_config_capabilities config =
     try_bind (collect_results (map parse_key (cfg_allow config))) (\<lambda>allow.
     try_bind (collect_results (map parse_key (cfg_deny config))) (\<lambda>deny.
     Inr \<lparr>allow_caps = allow, deny_caps = deny\<rparr>))"

definition apply_overrides :: "u32 \<Rightarrow> overrides \<Rightarrow> u32" where
  "apply_overrides capabilities ov =
     fold (\<lambda>k c. c AND NOT (to_bit k)) (deny_caps ov)
       (fold (\<lambda>k c. c OR to_bit k) (allow_caps ov) capabilities)"

definition compute_local_capabilities ::
  "capabilities_config \<Rightarrow> overrides \<Rightarrow> policy_error + u32" where
  "compute_local_capabilities config cli =
     try_bind (parse_config_capabilities config) (\<lambda>config_overrides.
       let capabilities = apply_overrides CAP_DEFAULT config_overrides;
           capabilities = apply_overrides capabilities cli
       in Inr (capabilities AND CAP_VALID_MASK))"

text \<open>The fields of \<open>FileConfig\<close> the reconciliation reads.\<close>

record file_config =
  file_enabled :: bool
  file_root_paths :: "string list"

definition reconcile_file_capability :: "u32 \<Rightarrow> file_config \<Rightarrow> u32" where
  "reconcile_file_capability capabilities file =
     (if has_capability capabilities CAP_FILE \<and> (\<not> file_enabled file \<or> file_root_paths file = [])
      then capabilities AND NOT CAP_FILE else capabilities)"

definition reconcile_firewall_capability :: "u32 \<Rightarrow> bool \<Rightarrow> u32" where
  "reconcile_firewall_capability capabilities probe_ok =
     (if probe_ok then capabilities else capabilities AND NOT CAP_FIREWALL_BLOCK)"

section \<open>Command-line flags\<close>

definition is_unknown_capability_flag :: "string \<Rightarrow> bool" where
  "is_unknown_capability_flag arg \<longleftrightarrow>
     (starts_with arg ''--allow-cap'' \<and> arg \<noteq> ''--allow-cap'') \<or>
     (starts_with arg ''--deny-cap'' \<and> arg \<noteq> ''--deny-cap'')"

text \<open>The argument iterator is the list; a flag consumes the following element.\<close>

fun parse_capability_loop ::
  "string list \<Rightarrow> capability_key list \<Rightarrow> capability_key list \<Rightarrow> policy_error + overrides" where
  "parse_capability_loop [] allow deny = Inr \<lparr>allow_caps = allow, deny_caps = deny\<rparr>"
| "parse_capability_loop (arg # args) allow deny =
     (if arg = ''--allow-cap'' then
        (case args of
           [] \<Rightarrow> Inl (MissingValue ''--allow-cap'')
         | value # rest \<Rightarrow>
             if starts_with value ''--'' then Inl (MissingValue ''--allow-cap'')
             else (case parse_key value of
                     Inl e \<Rightarrow> Inl e
                   | Inr k \<Rightarrow> parse_capability_loop rest (allow @ [k]) deny))
      else if arg = ''--deny-cap'' then
        (case args of
           [] \<Rightarrow> Inl (MissingValue ''--deny-cap'')
         | value # rest \<Rightarrow>
             if starts_with value ''--'' then Inl (MissingValue ''--deny-cap'')
             else (case parse_key value of
                     Inl e \<Rightarrow> Inl e
                   | Inr k \<Rightarrow> parse_capability_loop rest allow (deny @ [k])))
      else if is_unknown_capability_flag arg then Inl (UnknownFlag arg)
      else parse_capability_loop args allow deny)"

definition parse_capability_args :: "string list \<Rightarrow> policy_error + overrides" where
  "parse_capability_args args = parse_capability_loop args [] []"

section \<open>What the layers compute\<close>

lemma bit_fold_or:
  "bit (fold (\<lambda>k c. c OR to_bit k) ks (w :: u32)) n \<longleftrightarrow> bit w n \<or> n \<in> key_index ` set ks"
  by (induction ks arbitrary: w) (auto simp: bit_or_iff)

lemma bit_fold_and_not:
  "n < 11 \<Longrightarrow> bit (fold (\<lambda>k c. c AND NOT (to_bit k)) ks (w :: u32)) n \<longleftrightarrow>
     bit w n \<and> n \<notin> key_index ` set ks"
  by (induction ks arbitrary: w) (auto simp: bit_and_iff bit_not_iff possible_bit_word)

lemma has_apply_overrides:
  "has_capability (apply_overrides w ov) (to_bit k) \<longleftrightarrow>
     (has_capability w (to_bit k) \<or> k \<in> set (allow_caps ov)) \<and> k \<notin> set (deny_caps ov)"
  using key_index_less [of k]
  by (auto simp: apply_overrides_def bit_fold_and_not bit_fold_or)

lemma parse_key_Inr: "parse_key s = Inr k \<longleftrightarrow> s = as_str k"
proof (cases "from_str s")
  case (Inl e)
  then have "s \<noteq> as_str k" by auto
  with Inl show ?thesis by (simp add: parse_key_def)
next
  case (Inr k')
  then show ?thesis using from_str_InrD [OF Inr] by (auto simp: parse_key_def)
qed

lemma collect_results_Cons:
  "collect_results (r # rs) = Inr xs \<longleftrightarrow>
     (\<exists>y ys. xs = y # ys \<and> r = Inr y \<and> collect_results rs = Inr ys)"
  by (cases r; cases "collect_results rs") auto

lemma collect_parse_keys: "collect_results (map parse_key ss) = Inr ks \<longleftrightarrow> ss = map as_str ks"
proof (induction ss arbitrary: ks)
  case Nil
  then show ?case by auto
next
  case (Cons s ss)
  show ?case
    unfolding list.map collect_results_Cons parse_key_Inr Cons.IH
    by (cases ks) auto
qed

lemma parse_config_Inr:
  "parse_config_capabilities config = Inr ov \<longleftrightarrow>
     cfg_allow config = map as_str (allow_caps ov) \<and> cfg_deny config = map as_str (deny_caps ov)"
proof -
  have "parse_config_capabilities config = Inr ov \<longleftrightarrow>
      collect_results (map parse_key (cfg_allow config)) = Inr (allow_caps ov) \<and>
      collect_results (map parse_key (cfg_deny config)) = Inr (deny_caps ov)"
    by (cases ov) (auto simp: parse_config_capabilities_def dest!: try_bind_InrD)
  then show ?thesis by (simp add: collect_parse_keys)
qed

lemma compute_local_Inr:
  assumes "compute_local_capabilities config cli = Inr caps"
  obtains ov where "cfg_allow config = map as_str (allow_caps ov)"
    and "cfg_deny config = map as_str (deny_caps ov)"
    and "caps = apply_overrides (apply_overrides CAP_DEFAULT ov) cli AND CAP_VALID_MASK"
  using assms unfolding compute_local_capabilities_def Let_def
  by (auto dest!: try_bind_InrD simp: parse_config_Inr)

text \<open>
  The layered policy.  When the config parses, a capability is on at startup
  exactly when the command line does not deny it and either the command line allows it or
  the config layer leaves it on, which means: not denied in the config, and allowed there or
  on by default.  Deny wins within a layer and the command line wins over the config; no bit
  outside the valid mask is ever set.
\<close>

lemma compute_local_capabilities_layers:
  assumes "compute_local_capabilities config cli = Inr caps"
  shows "(has_capability caps (to_bit k) \<longleftrightarrow>
      k \<notin> set (deny_caps cli) \<and>
      (k \<in> set (allow_caps cli) \<or>
       (as_str k \<notin> set (cfg_deny config) \<and>
        (as_str k \<in> set (cfg_allow config) \<or> has_capability CAP_DEFAULT (to_bit k))))) \<and>
    caps AND CAP_VALID_MASK = caps"
proof -
  from assms obtain ov where ov: "cfg_allow config = map as_str (allow_caps ov)"
    "cfg_deny config = map as_str (deny_caps ov)"
    and caps: "caps = apply_overrides (apply_overrides CAP_DEFAULT ov) cli AND CAP_VALID_MASK"
    by (rule compute_local_Inr)
  have "has_capability caps (to_bit k) \<longleftrightarrow>
      has_capability (apply_overrides (apply_overrides CAP_DEFAULT ov) cli) (to_bit k)"
    using key_index_less [of k] by (simp add: caps bit_and_iff)
  then have "has_capability caps (to_bit k) \<longleftrightarrow>
      k \<notin> set (deny_caps cli) \<and>
      (k \<in> set (allow_caps cli) \<or>
       (as_str k \<notin> set (cfg_deny config) \<and>
        (as_str k \<in> set (cfg_allow config) \<or> has_capability CAP_DEFAULT (to_bit k))))"
    unfolding has_apply_overrides ov by auto
  moreover have "caps AND CAP_VALID_MASK = caps"
    by (simp add: caps and.assoc)
  ultimately show ?thesis by blast
qed

lemma compute_local_capabilities_layers_witness:
  "\<exists>caps. compute_local_capabilities
      \<lparr>cfg_allow = [''terminal''], cfg_deny = [''upgrade'']\<rparr>
      \<lparr>allow_caps = [Exec], deny_caps = [Terminal]\<rparr> = Inr caps \<and>
    has_capability caps (to_bit Exec) \<and> \<not> has_capability caps (to_bit Terminal) \<and>
    \<not> has_capability caps (to_bit Upgrade)"
proof -
  let ?cfg = "\<lparr>cfg_allow = [''terminal''], cfg_deny = [''upgrade'']\<rparr>"
  let ?cli = "\<lparr>allow_caps = [Exec], deny_caps = [Terminal]\<rparr>"
  obtain caps where caps: "compute_local_capabilities ?cfg ?cli = Inr caps"
    by (simp add: compute_local_capabilities_def parse_config_capabilities_def parse_key_def
        from_str_def)
  note layers = compute_local_capabilities_layers [OF caps]
  show ?thesis
    using caps layers [of Exec] layers [of Terminal] layers [of Upgrade] by auto
qed

text \<open>
  Reconciliation only ever clears the one bit of the subsystem that cannot serve it.
\<close>

lemma has_and_not_bit:
  "has_capability (w AND NOT (to_bit k')) (to_bit k) \<longleftrightarrow> has_capability w (to_bit k) \<and> k \<noteq> k'"
  using key_index_less [of k] by (auto simp: bit_and_iff bit_not_iff possible_bit_word)

lemma has_reconcile_firewall:
  "has_capability (reconcile_firewall_capability caps ok) (to_bit k) \<longleftrightarrow>
     has_capability caps (to_bit k) \<and> (ok \<or> k \<noteq> FirewallBlock)"
  using has_and_not_bit [of caps FirewallBlock k]
  by (auto simp: reconcile_firewall_capability_def simp del: has_capability_bit)

lemma has_reconcile_file:
  "has_capability (reconcile_file_capability caps file) (to_bit k) \<longleftrightarrow>
     has_capability caps (to_bit k) \<and>
     (k \<noteq> File \<or> (file_enabled file \<and> file_root_paths file \<noteq> []))"
  using has_and_not_bit [of caps File k]
  by (auto simp: reconcile_file_capability_def simp del: has_capability_bit)

section \<open>Round trip of the flags\<close>

definition flag_args :: "string \<Rightarrow> capability_key list \<Rightarrow> string list" where
  "flag_args flag ks = concat (map (\<lambda>k. [flag, as_str k]) ks)"

lemma as_str_no_dashes: "\<not> starts_with (as_str k) ''--''"
  by (cases k) (simp_all add: starts_with_def)

lemma parse_allow_flags:
  "parse_capability_loop (flag_args ''--allow-cap'' ks @ rest) allow deny =
     parse_capability_loop rest (allow @ ks) deny"
  by (induction ks arbitrary: allow)
    (simp_all add: flag_args_def as_str_no_dashes parse_key_Inr [THEN iffD2])

lemma parse_deny_flags:
  "parse_capability_loop (flag_args ''--deny-cap'' ks @ rest) allow deny =
     parse_capability_loop rest allow (deny @ ks)"
  by (induction ks arbitrary: deny)
    (simp_all add: flag_args_def as_str_no_dashes parse_key_Inr [THEN iffD2])

text \<open>
  The flag parser inverts the flags.  Writing any overrides out as
  \<open>--allow-cap\<close>/\<open>--deny-cap\<close> flags and parsing them gives the overrides back.
\<close>

lemma parse_capability_args_roundtrip:
  "parse_capability_args
     (flag_args ''--allow-cap'' (allow_caps ov) @ flag_args ''--deny-cap'' (deny_caps ov)) = Inr ov"
  using parse_deny_flags [of "deny_caps ov" "[]"]
  by (simp add: parse_capability_args_def parse_allow_flags)

end
