(* ===== verification/Plain_Codec.thy ===== *)
theory Plain_Codec
  imports SB_Prelude
begin

text \<open>
  A plain textual format that can be read back: escaped tokens, numbers in unary.  The sources
  leave the encoding of their files to a JSON library, a parameter of the model; this format
  meets the round-trip contract and instantiates that parameter in the witnesses.
\<close>

definition plain_int :: "int \<Rightarrow> string" where
  "plain_int i = (if i < 0 then CHR ''-'' else CHR ''+'') # replicate (nat \<bar>i\<bar>) (CHR ''1'')"

definition plain_int_of :: "string \<Rightarrow> int" where
  "plain_int_of s = (if take 1 s = ''-'' then - int (length s - 1) else int (length s - 1))"

definition plain_token :: "string \<Rightarrow> string" where
  "plain_token s = concat (map (\<lambda>c. [CHR ''.'', c]) s) @ '';''"

fun plain_tokens :: "string \<Rightarrow> string \<Rightarrow> string list" where
  "plain_tokens acc [] = []"
| "plain_tokens acc [x] = [acc]"
| "plain_tokens acc (x # c # s) =
     (if x = CHR ''.'' then plain_tokens (acc @ [c]) s else acc # plain_tokens [] (c # s))"

lemma plain_tokens_token:
  "plain_tokens acc (plain_token s @ t) = (acc @ s) # plain_tokens [] t"
proof (induction s arbitrary: acc)
  case Nil
  then show ?case by (cases t) (simp_all add: plain_token_def)
next
  case (Cons c s)
  then show ?case by (simp add: plain_token_def)
qed

lemma plain_tokens_concat: "plain_tokens [] (concat (map plain_token ts)) = ts"
  by (induction ts) (simp_all add: plain_tokens_token)

lemma plain_int_of_int: "plain_int_of (plain_int i) = i"
  by (simp add: plain_int_def plain_int_of_def)

lemma plain_token_nonempty: "concat (map plain_token (t # ts)) \<noteq> []"
  by (simp add: plain_token_def)

end
