(* ===== verification/Grant_Store.thy ===== *)
theory Grant_Store
  imports Plain_Codec Capability
begin

text \<open>
  The temporary capability grants of the agent: the grants file and its in-memory store
  (\<open>crates/agent/src/capability_grants/store.rs\<close>), the duration parser (\<open>mod.rs\<close>) and the
  operator's commands that write the file (\<open>cli.rs\<close>).

  Parameters: the JSON encoder and decoder of the persisted schema (\<open>serde_json\<close>) and the
  outcome of each file operation.
\<close>

section \<open>Durations\<close>

datatype duration_error =
  TooShort | NotCharBoundary | NotInteger | NotPositive | BadUnit | Overflows

text \<open>\<open>str::trim\<close> on the ASCII white space at the ends.\<close>

definition trim_ascii :: "string \<Rightarrow> string" where
  "trim_ascii s =
     rev (dropWhile is_ascii_whitespace (rev (dropWhile is_ascii_whitespace s)))"

text \<open>\<open>i64::from_str\<close>: an optional sign, then decimal digits, within the type.\<close>

definition digits_value :: "string \<Rightarrow> nat" where
  "digits_value s = foldl (\<lambda>n c. n * 10 + (of_char c - 48)) 0 s"

definition parse_i64 :: "string \<Rightarrow> int option" where
  "parse_i64 s =
     (let (neg, ds) =
        (case s of
           [] \<Rightarrow> (False, [])
         | c # cs \<Rightarrow> if c = CHR ''-'' then (True, cs) else if c = CHR ''+'' then (False, cs)
                    else (False, s));
          v = (if neg then - int (digits_value ds) else int (digits_value ds))
      in if ds \<noteq> [] \<and> list_all is_ascii_digit ds \<and> in_i64 v then Some v else None)"

text \<open>
  \<open>str::split_at\<close> panics when the index falls inside a character, i.e. on a UTF-8
  continuation byte; the panic is the error \<open>NotCharBoundary\<close>.
\<close>

definition is_continuation_byte :: "char \<Rightarrow> bool" where
  "is_continuation_byte c \<longleftrightarrow> 128 \<le> (of_char c :: nat) \<and> (of_char c :: nat) < 192"

definition parse_duration_secs :: "string \<Rightarrow> duration_error + int" where
  "parse_duration_secs input =
     (let trimmed = trim_ascii input in
      if length trimmed < 2 then Inl TooShort
      else let num = take (length trimmed - 1) trimmed;
               last_byte = trimmed ! (length trimmed - 1)
           in if is_continuation_byte last_byte then Inl NotCharBoundary
              else case parse_i64 num of
                     None \<Rightarrow> Inl NotInteger
                   | Some value \<Rightarrow>
                       if value \<le> 0 then Inl NotPositive
                       else if last_byte = CHR ''s'' then ok_or Overflows (Some value)
                       else if last_byte = CHR ''m'' then ok_or Overflows (checked_mul_i64 value 60)
                       else if last_byte = CHR ''h'' then ok_or Overflows (checked_mul_i64 value 3600)
                       else if last_byte = CHR ''d'' then ok_or Overflows (checked_mul_i64 value 86400)
                       else Inl BadUnit)"

lemma parse_i64_in_range: "parse_i64 s = Some v \<Longrightarrow> in_i64 v"
  by (auto simp: parse_i64_def Let_def split: if_splits prod.splits)

lemma parse_duration_secs_bounds:
  assumes "parse_duration_secs input = Inr secs"
  shows "0 < secs \<and> in_i64 secs"
  using assms unfolding parse_duration_secs_def Let_def
  by (auto split: if_splits option.splits simp: checked_mul_i64_def dest: parse_i64_in_range)

section \<open>The store\<close>

record grant_record =
  gr_cap :: string
  gr_granted_at :: int
  gr_expires_at :: int
  gr_granted_by :: string
  gr_reason :: "string option"

record persisted_grants =
  pg_version :: int
  pg_grants :: "grant_record list"

text \<open>\<open>CapabilityGrantStore::records\<close>; the path is a parameter of the file operations.\<close>

type_synonym grant_store = "(string, grant_record) table"

definition SCHEMA_VERSION :: int where "SCHEMA_VERSION = 1"

text \<open>What \<open>fs::read\<close> returns.\<close>

datatype file_read = NotFound | ReadError | Bytes string

type_synonym grants_parser = "string \<Rightarrow> persisted_grants option"
type_synonym grants_printer = "persisted_grants \<Rightarrow> string"

definition collect_grants :: "grant_record list \<Rightarrow> grant_store" where
  "collect_grants rs = fold (\<lambda>r t. btput (gr_cap r) r t) rs []"

definition load_from :: "grants_parser \<Rightarrow> file_read \<Rightarrow> grant_store option" where
  "load_from parse file =
     (case file of
        NotFound \<Rightarrow> Some []
      | ReadError \<Rightarrow> None
      | Bytes bytes \<Rightarrow>
          if bytes = [] then Some []
          else case parse bytes of
                 None \<Rightarrow> None
               | Some parsed \<Rightarrow>
                   if pg_version parsed \<noteq> SCHEMA_VERSION then Some []
                   else Some (collect_grants (pg_grants parsed)))"

definition load_store :: "grants_parser \<Rightarrow> file_read \<Rightarrow> grant_store" where
  "load_store parse file = (case load_from parse file of Some r \<Rightarrow> r | None \<Rightarrow> [])"

definition store_records :: "grant_store \<Rightarrow> grant_record list" where
  "store_records st = map snd st"

definition active_bits :: "grant_store \<Rightarrow> int \<Rightarrow> u32 \<Rightarrow> u32" where
  "active_bits st now base =
     fold (\<lambda>rec bits.
        if gr_expires_at rec \<le> now then bits
        else case from_str (gr_cap rec) of
               Inl _ \<Rightarrow> bits
             | Inr key \<Rightarrow> if base AND to_bit key = 0 then bits OR to_bit key else bits)
       (store_records st) 0 AND CAP_VALID_MASK"

record temporary_grant =
  tg_cap :: string
  tg_granted_at :: int
  tg_expires_at :: int

definition grant_turns_on :: "u32 \<Rightarrow> grant_record \<Rightarrow> bool" where
  "grant_turns_on base r =
     (case from_str (gr_cap r) of Inl _ \<Rightarrow> False | Inr key \<Rightarrow> base AND to_bit key = 0)"

definition active_grants :: "grant_store \<Rightarrow> int \<Rightarrow> u32 \<Rightarrow> temporary_grant list" where
  "active_grants st now base =
     sort_key tg_cap
       (map (\<lambda>r. \<lparr>tg_cap = gr_cap r, tg_granted_at = gr_granted_at r, tg_expires_at = gr_expires_at r\<rparr>)
         (filter (grant_turns_on base) (filter (\<lambda>r. now < gr_expires_at r) (store_records st))))"

definition prune_expired :: "int \<Rightarrow> grant_store \<Rightarrow> grant_store" where
  "prune_expired now st = tretain (\<lambda>_ r. now < gr_expires_at r) st"

definition upsert :: "grant_record \<Rightarrow> int \<Rightarrow> grant_store \<Rightarrow> grant_store" where
  "upsert record now st = btput (gr_cap record) record (prune_expired now st)"

definition remove_grant :: "string \<Rightarrow> int \<Rightarrow> grant_store \<Rightarrow> bool \<times> grant_store" where
  "remove_grant cap now st = (thas st cap, prune_expired now (tdel cap st))"

text \<open>The bytes \<open>flush\<close> renames into place.\<close>

definition flush_store :: "grants_printer \<Rightarrow> grant_store \<Rightarrow> file_read" where
  "flush_store print st =
     Bytes (print \<lparr>pg_version = SCHEMA_VERSION, pg_grants = store_records st\<rparr>)"

section \<open>Store invariant\<close>

definition store_ok :: "grant_store \<Rightarrow> bool" where
  "store_ok st \<longleftrightarrow> btree_ok st \<and> (\<forall>(k, r) \<in> set st. gr_cap r = k)"

lemma store_ok_Nil [simp]: "store_ok []"
  by (simp add: store_ok_def btree_ok_def)

lemma store_okD: "store_ok st \<Longrightarrow> tget st k = Some r \<Longrightarrow> gr_cap r = k"
  by (auto simp: store_ok_def dest: tget_SomeD)

lemma set_btput: "set (btput k v t) \<subseteq> insert (k, v) (set t)"
  by (induction k v t rule: btput.induct) auto

lemma store_ok_btput [simp, intro]: "store_ok st \<Longrightarrow> store_ok (btput (gr_cap r) r st)"
  using set_btput [of "gr_cap r" r st] by (fastforce simp: store_ok_def)

lemma store_ok_prune [simp, intro]: "store_ok st \<Longrightarrow> store_ok (prune_expired now st)"
  by (auto simp: store_ok_def prune_expired_def) (auto simp: tretain_def)

lemma store_ok_tdel [simp, intro]: "store_ok st \<Longrightarrow> store_ok (tdel k st)"
  by (auto simp: store_ok_def) (auto simp: tdel_def AList.delete_eq)

lemma store_ok_upsert [simp, intro]: "store_ok st \<Longrightarrow> store_ok (upsert r now st)"
  by (simp add: upsert_def)

lemma store_ok_remove [simp, intro]: "store_ok st \<Longrightarrow> store_ok (snd (remove_grant cap now st))"
  by (simp add: remove_grant_def)

lemma store_ok_fold_btput: "store_ok st \<Longrightarrow> store_ok (fold (\<lambda>r t. btput (gr_cap r) r t) rs st)"
  by (induction rs arbitrary: st) auto

lemma store_ok_collect [simp]: "store_ok (collect_grants rs)"
  by (simp add: collect_grants_def store_ok_fold_btput)

lemma store_ok_load [simp]: "store_ok (load_store parse file)"
  by (auto simp: load_store_def load_from_def split: option.splits file_read.splits)

lemma find_record:
  assumes "store_ok st"
  shows "find (\<lambda>r. gr_cap r = k) (store_records st) = tget st k"
  using assms
proof (induction st)
  case Nil
  then show ?case by (simp add: store_records_def)
next
  case (Cons p st)
  then have "store_ok st" by (auto simp: store_ok_def btree_ok_def)
  moreover have "gr_cap (snd p) = fst p" using Cons.prems by (auto simp: store_ok_def)
  ultimately show ?case using Cons.IH by (cases p) (auto simp: store_records_def tget_def)
qed

lemma record_ex_tget:
  assumes "store_ok st"
  shows "(\<exists>r \<in> set (store_records st). P r) \<longleftrightarrow> (\<exists>k r. tget st k = Some r \<and> gr_cap r = k \<and> P r)"
proof -
  have "tget st k = Some r \<longleftrightarrow> (k, r) \<in> set st" for k r
    using assms by (simp add: store_ok_def tget_in_set btree_ok_table_ok)
  moreover have "(k, r) \<in> set st \<Longrightarrow> gr_cap r = k" for k r
    using assms by (auto simp: store_ok_def)
  ultimately show ?thesis by (force simp: store_records_def)
qed

lemma record_iff_tget:
  assumes "store_ok st"
  shows "r \<in> set (store_records st) \<longleftrightarrow> tget st (gr_cap r) = Some r"
proof
  assume "r \<in> set (store_records st)"
  then obtain k where "(k, r) \<in> set st" by (auto simp: store_records_def)
  moreover from this have "gr_cap r = k" using assms by (auto simp: store_ok_def)
  ultimately show "tget st (gr_cap r) = Some r"
    using assms by (auto simp: store_ok_def tget_in_set btree_ok_table_ok)
next
  assume "tget st (gr_cap r) = Some r"
  then show "r \<in> set (store_records st)"
    by (auto simp: store_records_def dest!: tget_SomeD) (metis image_eqI snd_conv)
qed

text \<open>Saving and loading: the sorted table survives the trip through the record list.\<close>

lemma btput_append:
  "\<forall>k' \<in> set (keys t). k' < k \<Longrightarrow> btput k v t = t @ [(k, v)]"
  by (induction t) auto

lemma fold_btput_sorted:
  assumes "btree_ok (s @ t)" and "\<forall>(k, r) \<in> set t. gr_cap r = k"
  shows "fold (\<lambda>r t. btput (gr_cap r) r t) (map snd t) s = s @ t"
  using assms
proof (induction t arbitrary: s)
  case Nil
  then show ?case by simp
next
  case (Cons p t)
  obtain k r where p: "p = (k, r)" by (cases p)
  from Cons.prems p have "\<forall>k' \<in> set (keys s). k' < k" "gr_cap r = k"
    by (auto simp: btree_ok_def sorted_wrt_append)
  then have "btput (gr_cap r) r s = s @ [(k, r)]" by (simp add: btput_append)
  with Cons.IH [of "s @ [(k, r)]"] Cons.prems p show ?case by simp
qed

lemma collect_records [simp]: "store_ok st \<Longrightarrow> collect_grants (store_records st) = st"
  using fold_btput_sorted [of "[]" st] by (simp add: store_ok_def collect_grants_def store_records_def)

definition json_roundtrip :: "grants_printer \<Rightarrow> grants_parser \<Rightarrow> bool" where
  "json_roundtrip print parse \<longleftrightarrow> (\<forall>p. parse (print p) = Some p \<and> print p \<noteq> [])"

lemma load_flush:
  assumes "json_roundtrip print parse" and "store_ok st"
  shows "load_store parse (flush_store print st) = st"
  using assms by (simp add: load_store_def load_from_def flush_store_def json_roundtrip_def)

text \<open>
  A concrete format that meets this contract, for the witnesses: the fields as escaped tokens,
  numbers in unary.
\<close>

definition plain_reason :: "string option \<Rightarrow> string" where
  "plain_reason r = (case r of None \<Rightarrow> [] | Some s \<Rightarrow> CHR ''s'' # s)"

definition plain_record :: "grant_record \<Rightarrow> string list" where
  "plain_record r = [gr_cap r, plain_int (gr_granted_at r), plain_int (gr_expires_at r),
     gr_granted_by r, plain_reason (gr_reason r)]"

definition plain_print :: grants_printer where
  "plain_print p = concat (map plain_token
     (plain_int (pg_version p) # concat (map plain_record (pg_grants p))))"

fun plain_records :: "string list \<Rightarrow> grant_record list" where
  "plain_records (cap # at # till # who # reason # rest) =
     \<lparr>gr_cap = cap, gr_granted_at = plain_int_of at, gr_expires_at = plain_int_of till,
      gr_granted_by = who, gr_reason = (if reason = [] then None else Some (tl reason))\<rparr>
     # plain_records rest"
| "plain_records _ = []"

definition plain_parse :: grants_parser where
  "plain_parse s =
     (case plain_tokens [] s of
        [] \<Rightarrow> None
      | v # rest \<Rightarrow> Some \<lparr>pg_version = plain_int_of v, pg_grants = plain_records rest\<rparr>)"

lemma plain_records_concat: "plain_records (concat (map plain_record rs)) = rs"
proof (induction rs)
  case Nil
  then show ?case by simp
next
  case (Cons r rs)
  then show ?case
    by (cases "gr_reason r") (simp_all add: plain_record_def plain_reason_def plain_int_of_int)
qed

lemma plain_roundtrip: "json_roundtrip plain_print plain_parse"
  unfolding json_roundtrip_def
proof (intro allI conjI)
  fix p
  show "plain_parse (plain_print p) = Some p"
    unfolding plain_parse_def plain_print_def plain_tokens_concat
    by (simp add: plain_int_of_int plain_records_concat)
  show "plain_print p \<noteq> []" by (simp add: plain_print_def plain_token_def)
qed

section \<open>Active bits\<close>

lemma bit_active_fold:
  "bit (fold (\<lambda>rec bits.
        if gr_expires_at rec \<le> now then bits
        else case from_str (gr_cap rec) of
               Inl _ \<Rightarrow> bits
             | Inr key \<Rightarrow> if base AND to_bit key = 0 then bits OR to_bit key else bits) rs (w :: u32))
     (key_index k) \<longleftrightarrow>
   bit w (key_index k) \<or>
   (\<exists>r \<in> set rs. now < gr_expires_at r \<and> gr_cap r = as_str k \<and> \<not> bit base (key_index k))"
proof (induction rs arbitrary: w)
  case Nil
  then show ?case by simp
next
  case (Cons r rs)
  show ?case
  proof (cases "from_str (gr_cap r)")
    case (Inl e)
    then have "gr_cap r \<noteq> as_str k" by auto
    with Inl Cons show ?thesis by auto
  next
    case (Inr k')
    then have "gr_cap r = as_str k'" by (rule from_str_InrD)
    with Inr Cons show ?thesis
      by (auto simp: bit_or_iff word_and_bit_eq_0)
  qed
qed

lemma active_bits_valid [simp]: "active_bits st now base AND CAP_VALID_MASK = active_bits st now base"
  by (simp add: active_bits_def and.assoc)

lemma has_active_bits:
  assumes "store_ok st"
  shows "has_capability (active_bits st now base) (to_bit k) \<longleftrightarrow>
    \<not> has_capability base (to_bit k) \<and>
    (\<exists>r. tget st (as_str k) = Some r \<and> now < gr_expires_at r)"
proof -
  have "has_capability (active_bits st now base) (to_bit k) \<longleftrightarrow>
      (\<exists>r \<in> set (store_records st). now < gr_expires_at r \<and> gr_cap r = as_str k \<and>
        \<not> bit base (key_index k))"
    using key_index_less [of k]
    by (simp add: active_bits_def bit_and_iff bit_active_fold)
  also have "\<dots> \<longleftrightarrow> \<not> bit base (key_index k) \<and>
      (\<exists>r. tget st (as_str k) = Some r \<and> now < gr_expires_at r)"
    unfolding record_ex_tget [OF assms] using store_okD [OF assms] by (auto, metis)
  finally show ?thesis by simp
qed

text \<open>
  What a grants file activates.  A capability is temporarily active exactly when
  the permanent mask does not hold it and its record has not expired; in particular a grant
  never clears a bit and an expired, unknown or already-permanent grant has no effect.
\<close>

lemma active_bits_exact:
  "has_capability (active_bits (load_store parse file) now base) (to_bit k) \<longleftrightarrow>
    \<not> has_capability base (to_bit k) \<and>
    (\<exists>r. tget (load_store parse file) (as_str k) = Some r \<and> now < gr_expires_at r)"
  by (rule has_active_bits) simp

text \<open>The reported grants are exactly the records behind the active bits.\<close>

lemma set_active_grants:
  assumes "store_ok st"
  shows "tg \<in> set (active_grants st now base) \<longleftrightarrow>
    (\<exists>k r. tget st (as_str k) = Some r \<and> now < gr_expires_at r \<and>
       \<not> has_capability base (to_bit k) \<and>
       tg = \<lparr>tg_cap = as_str k, tg_granted_at = gr_granted_at r, tg_expires_at = gr_expires_at r\<rparr>)"
    (is "?L \<longleftrightarrow> ?R")
proof -
  have on: "grant_turns_on base r \<longleftrightarrow> (\<exists>k. gr_cap r = as_str k \<and> \<not> has_capability base (to_bit k))"
    for r
  proof (cases "from_str (gr_cap r)")
    case (Inl e)
    then have "\<And>k. gr_cap r \<noteq> as_str k" by (metis from_str_as_str Inl_Inr_False)
    with Inl show ?thesis by (simp add: grant_turns_on_def)
  next
    case (Inr k)
    then have "gr_cap r = as_str k" by (rule from_str_InrD)
    with Inr show ?thesis by (auto simp: grant_turns_on_def word_and_bit_eq_0)
  qed
  have "?L \<longleftrightarrow> (\<exists>r \<in> set (store_records st). now < gr_expires_at r \<and> grant_turns_on base r \<and>
      tg = \<lparr>tg_cap = gr_cap r, tg_granted_at = gr_granted_at r, tg_expires_at = gr_expires_at r\<rparr>)"
    by (auto simp: active_grants_def)
  also have "\<dots> \<longleftrightarrow> ?R"
    unfolding on record_ex_tget [OF assms] using store_okD [OF assms] by (auto, metis)
  finally show ?thesis .
qed

end
