(* ===== verification/Capability_Authority.thy ===== *)
theory Capability_Authority
  imports Grant_Store
begin

text \<open>
  The agent-owned capability authority: the grant commands of \<open>capability_grants/cli.rs\<close>, the
  pure transition function \<open>evaluate\<close> and the authority of \<open>authority.rs\<close>, and the durable
  event journal of \<open>journal.rs\<close> (all under \<open>crates/agent/src/capability_grants\<close>).

  Parameters: the clock, the freshly loaded grant store, generated message ids, the range of
  representable time stamps (\<open>chrono\<close>) and the outcome of every journal write.
\<close>

section \<open>The operator's commands\<close>

datatype grant_error =
  UnknownCap string | AlreadyEnabled | BadDuration duration_error | BadMaxDuration duration_error
| ExceedsMax | WriteFailed

record grant_args =
  ga_cap :: string
  ga_for_duration :: string
  ga_reason :: "string option"

text \<open>
  \<open>run_grant\<close>: \<open>max_duration\<close> is the configured \<open>temporary_max_duration\<close>, \<open>file\<close> the grants
  file, \<open>write_ok\<close> the outcome of the atomic write.  The result is the new file content.
\<close>

definition run_grant ::
  "grants_parser \<Rightarrow> grants_printer \<Rightarrow> string \<Rightarrow> u32 \<Rightarrow> grant_args \<Rightarrow> int \<Rightarrow> string \<Rightarrow> bool \<Rightarrow>
   file_read \<Rightarrow> grant_error + file_read" where
  "run_grant parse print max_duration base args now granted_by write_ok file =
     (case from_str (ga_cap args) of
        Inl e \<Rightarrow> Inl (UnknownCap e)
      | Inr key \<Rightarrow>
          if base AND to_bit key \<noteq> 0 then Inl AlreadyEnabled
          else case parse_duration_secs (ga_for_duration args) of
                 Inl e \<Rightarrow> Inl (BadDuration e)
               | Inr dur \<Rightarrow>
                   (case parse_duration_secs max_duration of
                      Inl e \<Rightarrow> Inl (BadMaxDuration e)
                    | Inr mx \<Rightarrow>
                        if mx < dur then Inl ExceedsMax
                        else
                          let st = upsert
                                \<lparr>gr_cap = as_str key, gr_granted_at = now,
                                 gr_expires_at = wrap_i64 (now + dur),
                                 gr_granted_by = granted_by, gr_reason = ga_reason args\<rparr>
                                now (load_store parse file)
                          in if write_ok then Inr (flush_store print st) else Inl WriteFailed))"

definition run_revoke ::
  "grants_parser \<Rightarrow> grants_printer \<Rightarrow> string \<Rightarrow> int \<Rightarrow> bool \<Rightarrow> file_read \<Rightarrow>
   grant_error + (bool \<times> file_read)" where
  "run_revoke parse print cap now write_ok file =
     (case from_str cap of
        Inl e \<Rightarrow> Inl (UnknownCap e)
      | Inr key \<Rightarrow>
          let (existed, st) = remove_grant (as_str key) now (load_store parse file)
          in if write_ok then Inr (existed, flush_store print st) else Inl WriteFailed)"

lemma tget_upsert:
  "store_ok st \<Longrightarrow> tget (upsert r now st) k =
     (if k = gr_cap r then Some r
      else case tget st k of None \<Rightarrow> None
           | Some r' \<Rightarrow> if now < gr_expires_at r' then Some r' else None)"
  unfolding upsert_def prune_expired_def
  by (auto simp: store_ok_def table_simps btree_ok_table_ok)

lemma tget_remove_grant:
  "store_ok st \<Longrightarrow> tget (snd (remove_grant cap now st)) k =
     (if k = cap then None
      else case tget st k of None \<Rightarrow> None
           | Some r \<Rightarrow> if now < gr_expires_at r then Some r else None)"
  unfolding remove_grant_def prune_expired_def snd_conv
  by (auto simp: store_ok_def table_simps btree_ok_table_ok)

text \<open>
  A successful \<open>grant\<close> command activates exactly its capability until it expires.
  When the agent reloads the written file at a time \<open>t\<close> not before the command, the granted
  capability is active iff \<open>t\<close> is before the expiry, and every other capability is active iff
  it was active from the old file: pruning expired records loses nothing.
\<close>

lemma run_grant_activates:
  assumes json: "json_roundtrip print parse"
    and grant: "run_grant parse print max_duration base args now by_user write_ok file = Inr file'"
    and key: "from_str (ga_cap args) = Inr key"
    and dur: "parse_duration_secs (ga_for_duration args) = Inr dur"
    and t: "now \<le> t"
  shows "has_capability (active_bits (load_store parse file') t base) (to_bit k) \<longleftrightarrow>
    (if k = key then t < wrap_i64 (now + dur)
     else has_capability (active_bits (load_store parse file) t base) (to_bit k))"
proof -
  define r where "r = \<lparr>gr_cap = as_str key, gr_granted_at = now,
      gr_expires_at = wrap_i64 (now + dur), gr_granted_by = by_user, gr_reason = ga_reason args\<rparr>"
  define st where "st = upsert r now (load_store parse file)"
  have ok: "store_ok st" by (simp add: st_def)
  from grant key dur have off: "base AND to_bit key = 0"
    by (simp add: run_grant_def split: if_splits)
  from grant key dur have "file' = flush_store print st"
    by (auto simp: run_grant_def st_def r_def Let_def split: if_splits sum.splits)
  then have load: "load_store parse file' = st"
    using load_flush [OF json ok] by simp
  show ?thesis
    unfolding load has_active_bits [OF ok] has_active_bits [OF store_ok_load]
    unfolding st_def tget_upsert [OF store_ok_load]
    using off t by (auto simp: r_def word_and_bit_eq_0 split: option.splits)
qed

lemma run_grant_activates_witness:
  "\<exists>file'. run_grant plain_parse plain_print ''1d'' 0 \<lparr>ga_cap = ''exec'', ga_for_duration = ''1h'',
       ga_reason = None\<rparr> 100 ''root'' True NotFound = Inr file' \<and>
     has_capability (active_bits (load_store plain_parse file') 3699 0) CAP_EXEC \<and>
     \<not> has_capability (active_bits (load_store plain_parse file') 3700 0) CAP_EXEC"
proof -
  let ?args = "\<lparr>ga_cap = ''exec'', ga_for_duration = ''1h'', ga_reason = None\<rparr>"
  have key: "from_str (ga_cap ?args) = Inr Exec" by code_simp
  have dur: "parse_duration_secs (ga_for_duration ?args) = Inr 3600" by code_simp
  have "parse_duration_secs ''1d'' = Inr 86400" by code_simp
  then obtain file' where
    g: "run_grant plain_parse plain_print ''1d'' 0 ?args 100 ''root'' True NotFound = Inr file'"
    using key dur by (simp add: run_grant_def Let_def)
  have "100 \<le> (3699::int)" "100 \<le> (3700::int)" by simp_all
  note at = this [THEN run_grant_activates [OF plain_roundtrip g key dur, where k = Exec]]
  show ?thesis using g at by (auto simp: wrap_i64_def)
qed

text \<open>Revoking a capability deactivates it, whatever the clock says, and nothing else.\<close>

lemma run_revoke_deactivates:
  assumes json: "json_roundtrip print parse"
    and revoke: "run_revoke parse print (as_str key) now write_ok file = Inr (existed, file')"
    and t: "now \<le> t"
  shows "has_capability (active_bits (load_store parse file') t base) (to_bit k) \<longleftrightarrow>
    k \<noteq> key \<and> has_capability (active_bits (load_store parse file) t base) (to_bit k)"
proof -
  define st where "st = snd (remove_grant (as_str key) now (load_store parse file))"
  have ok: "store_ok st" by (simp add: st_def)
  from revoke have "file' = flush_store print st"
    by (auto simp: run_revoke_def st_def Let_def split: if_splits prod.splits)
  then have load: "load_store parse file' = st"
    using load_flush [OF json ok] by simp
  show ?thesis
    unfolding load has_active_bits [OF ok] has_active_bits [OF store_ok_load]
    unfolding st_def tget_remove_grant [OF store_ok_load]
    using t by (auto split: option.splits)
qed

section \<open>Transitions\<close>

datatype change_action = Granted | Expired | Revoked

record change_event =
  ce_cap :: string
  ce_action :: change_action
  ce_expires_at :: "int option"
  ce_granted_by :: "string option"
  ce_reason :: "string option"

text \<open>The body of the loop over the metadata table.\<close>

definition meta_changes :: "grant_store \<Rightarrow> u32 \<Rightarrow> u32 \<Rightarrow> capability_meta \<Rightarrow> change_event list" where
  "meta_changes st granted removed meta =
     (let rec = find (\<lambda>r. gr_cap r = cm_key meta) (store_records st) in
      (if granted AND cm_bit meta \<noteq> 0
       then [\<lparr>ce_cap = cm_key meta, ce_action = Granted,
              ce_expires_at = map_option gr_expires_at rec,
              ce_granted_by = map_option gr_granted_by rec,
              ce_reason = Option.bind rec gr_reason\<rparr>] else []) @
      (if removed AND cm_bit meta \<noteq> 0
       then [\<lparr>ce_cap = cm_key meta, ce_action = (if rec \<noteq> None then Expired else Revoked),
              ce_expires_at = None, ce_granted_by = None, ce_reason = None\<rparr>] else []))"

definition evaluate ::
  "grant_store \<Rightarrow> u32 \<Rightarrow> u32 \<Rightarrow> int \<Rightarrow> u32 \<times> u32 \<times> temporary_grant list \<times> change_event list" where
  "evaluate st base prev_active_bits now =
     (let ab = active_bits st now base;
          effective = (base OR ab) AND CAP_VALID_MASK;
          temporary = active_grants st now base;
          granted = ab AND NOT prev_active_bits;
          removed = prev_active_bits AND NOT ab
      in (effective, ab, temporary, concat (map (meta_changes st granted removed) ALL_CAPABILITIES)))"

text \<open>A consumer's view: what a change event does to the set of active grants.\<close>

definition apply_change :: "change_event \<Rightarrow> u32 \<Rightarrow> u32" where
  "apply_change ev w =
     (case from_str (ce_cap ev) of
        Inl _ \<Rightarrow> w
      | Inr key \<Rightarrow> (case ce_action ev of
           Granted \<Rightarrow> w OR to_bit key
         | Expired \<Rightarrow> w AND NOT (to_bit key)
         | Revoked \<Rightarrow> w AND NOT (to_bit key)))"

definition apply_changes :: "change_event list \<Rightarrow> u32 \<Rightarrow> u32" where
  "apply_changes evs w = fold apply_change evs w"

lemma has_apply_change:
  "ce_cap ev = as_str k' \<Longrightarrow>
   has_capability (apply_change ev w) (to_bit k) \<longleftrightarrow>
     (if k = k' then ce_action ev = Granted else has_capability w (to_bit k))"
  using key_index_less [of k]
  by (cases "ce_action ev")
    (auto simp: apply_change_def bit_or_iff bit_and_iff bit_not_iff possible_bit_word)

lemma meta_changes_row:
  assumes "key_meta k m"
  shows "has_capability (apply_changes (meta_changes st g r m) w) (to_bit k') \<longleftrightarrow>
    (if k' \<noteq> k then has_capability w (to_bit k')
     else if has_capability r (to_bit k) then False
     else has_capability g (to_bit k) \<or> has_capability w (to_bit k))"
  using assms
  by (auto simp: meta_changes_def apply_changes_def Let_def key_meta_def has_apply_change
      word_and_bit_eq_0 simp del: has_capability_bit)
    (auto simp: word_and_bit_eq_0)

lemma rows_changes:
  assumes "list_all2 key_meta ks ms" and "distinct ks"
  shows "has_capability (apply_changes (concat (map (meta_changes st g r) ms)) w) (to_bit k) \<longleftrightarrow>
    (if k \<notin> set ks then has_capability w (to_bit k)
     else if has_capability r (to_bit k) then False
     else has_capability g (to_bit k) \<or> has_capability w (to_bit k))"
  using assms
proof (induction arbitrary: w rule: list_all2_induct)
  case Nil
  then show ?case by (simp add: apply_changes_def)
next
  case (Cons k0 ks m ms)
  have "apply_changes (concat (map (meta_changes st g r) (m # ms))) w =
      apply_changes (concat (map (meta_changes st g r) ms)) (apply_changes (meta_changes st g r m) w)"
    by (simp add: apply_changes_def)
  with Cons show ?case
    by (auto simp: meta_changes_row [OF Cons.hyps(1)] simp del: has_capability_bit)
qed

lemma has_and_not:
  "has_capability (a AND NOT b) (to_bit k) \<longleftrightarrow> has_capability a (to_bit k) \<and> \<not> has_capability b (to_bit k)"
  using key_index_less [of k] by (auto simp: bit_and_iff bit_not_iff possible_bit_word)

lemma evaluate_replay:
  assumes "prev AND CAP_VALID_MASK = prev"
    and "evaluate st base prev now = (eff, ab, tmp, changes)"
  shows "apply_changes changes prev = ab"
proof (rule valid_mask_eqI)
  let ?g = "ab AND NOT prev" and ?r = "prev AND NOT ab"
  from assms(2) have ab: "ab = active_bits st now base"
    and changes: "changes = concat (map (meta_changes st ?g ?r) ALL_CAPABILITIES)"
    by (auto simp: evaluate_def Let_def)
  have distinct: "distinct all_keys" by (simp add: all_keys_def)
  have has: "has_capability (apply_changes changes prev) (to_bit k) \<longleftrightarrow> has_capability ab (to_bit k)" for k
    unfolding changes rows_changes [OF ALL_CAPABILITIES_rows distinct] has_and_not by auto
  then show "has_capability (apply_changes changes prev) (to_bit k) \<longleftrightarrow> has_capability ab (to_bit k)" for k .
  show "ab AND CAP_VALID_MASK = ab" by (simp add: ab)
  have keep: "w AND CAP_VALID_MASK = w \<Longrightarrow> apply_change ev w AND CAP_VALID_MASK = apply_change ev w" for ev w
    unfolding valid_mask_iff
    by (auto simp: apply_change_def bit_or_iff bit_and_iff key_index_less
        split: sum.splits change_action.splits)
  have "w AND CAP_VALID_MASK = w \<Longrightarrow> apply_changes evs w AND CAP_VALID_MASK = apply_changes evs w" for evs w
    by (induction evs arbitrary: w) (auto simp: apply_changes_def keep)
  with assms(1) show "apply_changes changes prev AND CAP_VALID_MASK = apply_changes changes prev" by blast
qed

section \<open>The journal\<close>

record event =
  ev_msg_id :: string
  ev_occurred_at :: datetime
  ev_changes :: "change_event list"

record journal =
  j_observed_active :: u32
  j_destination :: "string option"
  j_events :: "event list"
  j_dirty :: bool

text \<open>The fields \<open>serde\<close> writes; \<open>path\<close> and \<open>dirty\<close> are skipped.\<close>

record saved_journal =
  sj_observed_active :: u32
  sj_destination :: "string option"
  sj_events :: "event list"

definition saved_of :: "journal \<Rightarrow> saved_journal" where
  "saved_of j = \<lparr>sj_observed_active = j_observed_active j, sj_destination = j_destination j,
     sj_events = j_events j\<rparr>"

text \<open>
  \<open>Journal::flush\<close> can fail before the rename (the old file stays) or after it, when syncing
  the directory fails: then the new file is in place although an error is returned.
\<close>

datatype flush_outcome = FlushOk | FailedBeforeRename | FailedAfterRename

definition flush_journal ::
  "flush_outcome \<Rightarrow> journal \<Rightarrow> saved_journal option \<Rightarrow> bool \<times> saved_journal option" where
  "flush_journal fo j disk =
     (case fo of
        FlushOk \<Rightarrow> (True, Some (saved_of j))
      | FailedBeforeRename \<Rightarrow> (False, disk)
      | FailedAfterRename \<Rightarrow> (False, Some (saved_of j)))"

text \<open>
  \<open>Journal::open\<close>: \<open>None\<close> when the file cannot be read or parsed; \<open>read\<close> is what is on disk.
\<close>

datatype journal_read = JournalMissing | JournalUnreadable | JournalSaved saved_journal

definition open_journal ::
  "journal_read \<Rightarrow> u32 \<Rightarrow> flush_outcome \<Rightarrow> (journal \<times> saved_journal option) option" where
  "open_journal read active fo =
     (case read of
        JournalUnreadable \<Rightarrow> None
      | JournalSaved s \<Rightarrow>
          Some (\<lparr>j_observed_active = sj_observed_active s, j_destination = sj_destination s,
                 j_events = sj_events s, j_dirty = False\<rparr>, Some s)
      | JournalMissing \<Rightarrow>
          let j = \<lparr>j_observed_active = active, j_destination = None, j_events = [], j_dirty = True\<rparr>;
              (saved, disk) = flush_journal fo j None
          in Some (if saved then j\<lparr>j_dirty := False\<rparr> else j, disk))"

section \<open>The authority\<close>

record transition =
  tr_effective :: u32
  tr_temporary :: "temporary_grant list"
  tr_changes :: "change_event list"

text \<open>
  \<open>CapabilityAuthority\<close>: the lists \<open>ca_state_tx\<close> and \<open>ca_transition_tx\<close> are what was sent on
  the watch and broadcast channels, oldest first; \<open>ca_disk\<close> is the journal file.
\<close>

record authority =
  ca_journal :: journal
  ca_base :: u32
  ca_effective :: u32
  ca_state_tx :: "u32 list"
  ca_transition_tx :: "transition list"
  ca_disk :: "saved_journal option"

datatype authority_error = NotDurable | JournalIo | InvalidSourceTime

text \<open>\<open>try_new\<close>; the two readings of the clock are separate arguments.\<close>

definition try_new ::
  "u32 \<Rightarrow> grant_store \<Rightarrow> int \<Rightarrow> int \<Rightarrow> journal_read \<Rightarrow> flush_outcome \<Rightarrow> authority option" where
  "try_new base st now1 now2 read fo =
     (let effective = (base OR active_bits st now1 base) AND CAP_VALID_MASK
      in map_option
           (\<lambda>(j, disk). \<lparr>ca_journal = j, ca_base = base, ca_effective = effective,
              ca_state_tx = [], ca_transition_tx = [], ca_disk = disk\<rparr>)
           (open_journal read (active_bits st now2 base) fo))"

text \<open>The common tail of the journal edits: flush the next journal, keep it if that worked.\<close>

definition commit_journal ::
  "flush_outcome \<Rightarrow> journal \<Rightarrow> authority \<Rightarrow> (authority_error + unit) \<times> authority" where
  "commit_journal fo nxt a =
     (let (saved, disk) = flush_journal fo nxt (ca_disk a)
      in if saved then (Inr (), a\<lparr>ca_journal := nxt\<lparr>j_dirty := False\<rparr>, ca_disk := disk\<rparr>)
         else (Inl JournalIo, a\<lparr>ca_disk := disk\<rparr>))"

definition bind_destination ::
  "string \<Rightarrow> flush_outcome \<Rightarrow> authority \<Rightarrow> (authority_error + unit) \<times> authority" where
  "bind_destination destination fo a =
     (let j = ca_journal a in
      if j_destination j = Some destination \<and> \<not> j_dirty j then (Inr (), a)
      else
        let nxt = (if (case j_destination j of Some old \<Rightarrow> old \<noteq> destination | None \<Rightarrow> False)
                   then j\<lparr>j_events := []\<rparr> else j)
        in commit_journal fo (nxt\<lparr>j_destination := Some destination\<rparr>) a)"

definition pending_events :: "authority \<Rightarrow> authority_error + event list" where
  "pending_events a =
     (if j_dirty (ca_journal a) then Inl NotDurable else Inr (j_events (ca_journal a)))"

definition acknowledge_event ::
  "string \<Rightarrow> flush_outcome \<Rightarrow> authority \<Rightarrow> (authority_error + unit) \<times> authority" where
  "acknowledge_event msg_id fo a =
     (let j = ca_journal a in
      if \<not> list_ex (\<lambda>ev. ev_msg_id ev = msg_id) (j_events j) then (Inr (), a)
      else commit_journal fo (j\<lparr>j_events := filter (\<lambda>ev. ev_msg_id ev \<noteq> msg_id) (j_events j)\<rparr>) a)"

definition discard_legacy_events ::
  "flush_outcome \<Rightarrow> authority \<Rightarrow> (authority_error + unit) \<times> authority" where
  "discard_legacy_events fo a =
     (let j = ca_journal a in
      if j_events j = [] then (Inr (), a)
      else commit_journal fo (j\<lparr>j_events := []\<rparr>) a)"

text \<open>
  The loop of \<open>observe\<close> that turns changes into journal events; \<open>valid_ts\<close> says which second
  counts \<open>DateTime::from_timestamp\<close> accepts, \<open>fresh i\<close> is the \<open>i\<close>-th generated id.  \<open>None\<close> is the
  early return on an invalid time.
\<close>

definition occurred_at :: "grant_store \<Rightarrow> int \<Rightarrow> change_event \<Rightarrow> int" where
  "occurred_at st now ce =
     (if ce_action ce = Granted
      then (case find (\<lambda>r. gr_cap r = ce_cap ce) (store_records st) of
              Some rec \<Rightarrow> gr_granted_at rec | None \<Rightarrow> now)
      else now)"

fun new_events ::
  "(int \<Rightarrow> bool) \<Rightarrow> grant_store \<Rightarrow> int \<Rightarrow> (nat \<Rightarrow> string) \<Rightarrow> nat \<Rightarrow> change_event list \<Rightarrow> event list option" where
  "new_events valid_ts st now fresh i [] = Some []"
| "new_events valid_ts st now fresh i (ce # ces) =
     (let t = occurred_at st now ce in
      if valid_ts t
      then map_option (\<lambda>evs. \<lparr>ev_msg_id = fresh i, ev_occurred_at = seconds t, ev_changes = [ce]\<rparr> # evs)
             (new_events valid_ts st now fresh (Suc i) ces)
      else None)"

text \<open>The last step of \<open>observe\<close>: save a dirty journal.\<close>

definition finish_observe ::
  "flush_outcome \<Rightarrow> bool \<Rightarrow> bool \<Rightarrow> transition \<Rightarrow> authority \<Rightarrow>
   (authority_error + transition option) \<times> authority" where
  "finish_observe fo local_changed changed tr a =
     (let result = Inr (if changed then Some tr else None) in
      if j_dirty (ca_journal a) then
        let (saved, disk) = flush_journal fo (ca_journal a) (ca_disk a)
        in if saved
           then (result, a\<lparr>ca_journal := (ca_journal a)\<lparr>j_dirty := False\<rparr>, ca_disk := disk\<rparr>)
           else (Inl JournalIo,
                 a\<lparr>ca_disk := disk,
                   ca_transition_tx := ca_transition_tx a @
                     (if local_changed then [tr\<lparr>tr_changes := []\<rparr>] else [])\<rparr>)
      else (result, a))"

definition observe ::
  "(int \<Rightarrow> bool) \<Rightarrow> grant_store \<Rightarrow> (nat \<Rightarrow> string) \<Rightarrow> flush_outcome \<Rightarrow> int \<Rightarrow> authority \<Rightarrow>
   (authority_error + transition option) \<times> authority" where
  "observe valid_ts st fresh fo now a =
     (let j = ca_journal a;
          (effective, active, temporary, changes) = evaluate st (ca_base a) (j_observed_active j) now;
          local_changed = (effective \<noteq> ca_effective a);
          a = (if local_changed
               then a\<lparr>ca_effective := effective, ca_state_tx := ca_state_tx a @ [effective]\<rparr> else a);
          changed = (active \<noteq> j_observed_active j);
          tr = \<lparr>tr_effective = effective, tr_temporary = temporary, tr_changes = changes\<rparr>
      in if changed then
           (case new_events valid_ts st now fresh 0 changes of
              None \<Rightarrow> (Inl InvalidSourceTime, a)
            | Some evs \<Rightarrow>
                finish_observe fo local_changed changed tr
                  (a\<lparr>ca_journal := j\<lparr>j_observed_active := active, j_events := j_events j @ evs,
                                      j_dirty := True\<rparr>\<rparr>))
         else finish_observe fo local_changed changed tr a)"

text \<open>One tick of \<open>run\<close>: a successful transition is broadcast.\<close>

definition run_tick ::
  "(int \<Rightarrow> bool) \<Rightarrow> grant_store \<Rightarrow> (nat \<Rightarrow> string) \<Rightarrow> flush_outcome \<Rightarrow> int \<Rightarrow> authority \<Rightarrow> authority" where
  "run_tick valid_ts st fresh fo now a =
     (case observe valid_ts st fresh fo now a of
        (Inr (Some tr), a') \<Rightarrow> a'\<lparr>ca_transition_tx := ca_transition_tx a' @ [tr]\<rparr>
      | (_, a') \<Rightarrow> a')"

definition has_cap :: "authority \<Rightarrow> u32 \<Rightarrow> bool" where
  "has_cap a cap = has_capability (ca_effective a) cap"

section \<open>Authority takes effect at once\<close>

lemma finish_observe_fields [simp]:
  "ca_effective (snd (finish_observe fo lc ch tr a)) = ca_effective a"
  "ca_base (snd (finish_observe fo lc ch tr a)) = ca_base a"
  "j_events (ca_journal (snd (finish_observe fo lc ch tr a))) = j_events (ca_journal a)"
  "j_observed_active (ca_journal (snd (finish_observe fo lc ch tr a)))
     = j_observed_active (ca_journal a)"
  "j_destination (ca_journal (snd (finish_observe fo lc ch tr a))) = j_destination (ca_journal a)"
  by (auto simp: finish_observe_def Let_def split: prod.splits)

lemma observe_effective:
  "ca_effective (snd (observe valid_ts st fresh fo now a))
     = (ca_base a OR active_bits st now (ca_base a)) AND CAP_VALID_MASK"
  by (simp add: observe_def evaluate_def Let_def split: option.split)

lemma observe_base [simp]: "ca_base (snd (observe valid_ts st fresh fo now a)) = ca_base a"
  by (simp add: observe_def evaluate_def Let_def split: option.split)

text \<open>
  Revocation never waits for the disk.  After one observation, whatever happens to
  the journal (invalid source time, failed write, failed sync), a capability is effective
  exactly when the permanent mask holds it or an unexpired grant of the freshly loaded file
  does; so a revoked or expired grant is gone at the next tick even if nothing can be saved.
\<close>

lemma observe_takes_effect:
  "has_cap (snd (observe valid_ts (load_store parse file) fresh fo now a)) (to_bit k) \<longleftrightarrow>
     has_capability (ca_base a) (to_bit k) \<or>
     (\<exists>r. tget (load_store parse file) (as_str k) = Some r \<and> now < gr_expires_at r)"
  unfolding has_cap_def observe_effective
  using has_active_bits [OF store_ok_load, where now = now and base = "ca_base a" and k = k] key_index_less [of k]
  by (auto simp: bit_and_iff bit_or_iff)

section \<open>The events of an observation\<close>

lemma new_events_changes:
  "new_events valid_ts st now fresh i ces = Some evs \<Longrightarrow> concat (map ev_changes evs) = ces"
  by (induction ces arbitrary: i evs) (auto simp: Let_def split: if_splits)

lemma apply_changes_concat:
  "apply_changes (concat (map ev_changes (evs @ evs'))) w =
     apply_changes (concat (map ev_changes evs')) (apply_changes (concat (map ev_changes evs)) w)"
  by (simp add: apply_changes_def)

text \<open>
  Claim C30: no transition is lost and none is invented.  An observation only appends events to
  the journal, and replaying the appended events on the previously observed grants gives the
  newly observed grants; when the observation is not consumed (its time stamp is invalid) the
  journal keeps both, so the same transition is reported again later.
\<close>

theorem observe_journal_replay:
  assumes "j_observed_active (ca_journal a) AND CAP_VALID_MASK = j_observed_active (ca_journal a)"
  shows "\<exists>evs. j_events (ca_journal (snd (observe valid_ts st fresh fo now a)))
        = j_events (ca_journal a) @ evs \<and>
      apply_changes (concat (map ev_changes evs)) (j_observed_active (ca_journal a))
        = j_observed_active (ca_journal (snd (observe valid_ts st fresh fo now a)))"
proof -
  let ?j = "ca_journal a"
  obtain eff ab tmp changes
    where e: "evaluate st (ca_base a) (j_observed_active ?j) now = (eff, ab, tmp, changes)"
    by (metis prod_cases4)
  have replay: "apply_changes changes (j_observed_active ?j) = ab"
    by (rule evaluate_replay [OF assms e])
  show ?thesis
  proof (cases "ab \<noteq> j_observed_active ?j")
    case False
    then show ?thesis
      by (intro exI [of _ "[]"]) (simp add: observe_def e Let_def apply_changes_def)
  next
    case True
    show ?thesis
    proof (cases "new_events valid_ts st now fresh 0 changes")
      case None
      with True show ?thesis
        by (intro exI [of _ "[]"]) (simp add: observe_def e Let_def apply_changes_def)
    next
      case (Some evs)
      with True replay show ?thesis
        by (intro exI [of _ evs]) (simp add: observe_def e Let_def new_events_changes [OF Some])
    qed
  qed
qed

theorem observe_journal_replay_witness:
  "\<exists>a evs. j_events (ca_journal (snd (observe (\<lambda>_. True) [] (\<lambda>_. ''id'') FlushOk 5 a)))
      = j_events (ca_journal a) @ evs \<and> evs \<noteq> []"
proof -
  let ?a = "\<lparr>ca_journal = \<lparr>j_observed_active = CAP_EXEC, j_destination = None, j_events = [],
      j_dirty = False\<rparr>, ca_base = 0, ca_effective = CAP_EXEC, ca_state_tx = [],
      ca_transition_tx = [], ca_disk = None\<rparr>"
  have "CAP_EXEC AND CAP_VALID_MASK = CAP_EXEC" by (simp add: CAP_EXEC_def CAP_VALID_MASK_def)
  then obtain evs where evs: "j_events (ca_journal (snd (observe (\<lambda>_. True) [] (\<lambda>_. ''id'') FlushOk 5 ?a)))
        = j_events (ca_journal ?a) @ evs"
    and replay: "apply_changes (concat (map ev_changes evs)) CAP_EXEC
        = j_observed_active (ca_journal (snd (observe (\<lambda>_. True) [] (\<lambda>_. ''id'') FlushOk 5 ?a)))"
    using observe_journal_replay [of ?a "\<lambda>_. True" "[]" "\<lambda>_. ''id''" FlushOk 5] by auto
  have none: "active_bits [] 5 0 = 0" by (simp add: active_bits_def store_records_def)
  have exec: "CAP_EXEC \<noteq> 0" by (simp add: CAP_EXEC_def)
  have valid: "new_events (\<lambda>_. True) [] 5 (\<lambda>_. ''id'') i ces \<noteq> None" for i ces
    by (induction ces arbitrary: i) (auto simp: Let_def)
  have "j_observed_active (ca_journal (snd (observe (\<lambda>_. True) [] (\<lambda>_. ''id'') FlushOk 5 ?a))) = 0"
    using valid exec by (auto simp: observe_def evaluate_def none Let_def split: option.split)
  with replay exec have "evs \<noteq> []" by (auto simp: apply_changes_def)
  with evs show ?thesis by blast
qed

section \<open>Durability before delivery\<close>

datatype cap_op =
  ObserveTick "int \<Rightarrow> bool" grant_store "nat \<Rightarrow> string" flush_outcome int
| Acknowledge string flush_outcome
| BindDestination string flush_outcome
| DiscardLegacy flush_outcome

fun cap_step :: "authority \<Rightarrow> cap_op \<Rightarrow> authority" where
  "cap_step a (ObserveTick valid_ts st fresh fo now) = run_tick valid_ts st fresh fo now a"
| "cap_step a (Acknowledge m fo) = snd (acknowledge_event m fo a)"
| "cap_step a (BindDestination d fo) = snd (bind_destination d fo a)"
| "cap_step a (DiscardLegacy fo) = snd (discard_legacy_events fo a)"

text \<open>The message ids an operation gives up: acknowledged, or of events of another owner.\<close>

fun released :: "authority \<Rightarrow> cap_op \<Rightarrow> string set" where
  "released a (ObserveTick valid_ts st fresh fo now) = {}"
| "released a (Acknowledge m fo) = {m}"
| "released a (BindDestination d fo) =
     (if (case j_destination (ca_journal a) of Some old \<Rightarrow> old \<noteq> d | None \<Rightarrow> False)
      then ev_msg_id ` set (j_events (ca_journal a)) else {})"
| "released a (DiscardLegacy fo) = ev_msg_id ` set (j_events (ca_journal a))"

text \<open>
  The invariant: a clean journal is on disk, up to released events.
\<close>

definition durable :: "string set \<Rightarrow> authority \<Rightarrow> bool" where
  "durable R a \<longleftrightarrow>
     (\<not> j_dirty (ca_journal a) \<longrightarrow>
      (\<exists>s. ca_disk a = Some s \<and>
         (\<forall>ev \<in> set (j_events (ca_journal a)). ev \<in> set (sj_events s) \<or> ev_msg_id ev \<in> R)))"

lemma durable_mono: "durable R a \<Longrightarrow> R \<subseteq> R' \<Longrightarrow> durable R' a"
  unfolding durable_def by blast

lemma durable_commit:
  assumes "durable R a"
    and "\<forall>ev \<in> set (j_events (ca_journal a)). ev \<in> set (j_events nxt) \<or> ev_msg_id ev \<in> R"
  shows "durable R (snd (commit_journal fo nxt a))"
  using assms
  by (cases fo) (auto simp: commit_journal_def flush_journal_def durable_def saved_of_def)

lemma durable_finish_observe:
  "durable R a \<Longrightarrow> durable R (snd (finish_observe fo lc ch tr a))"
  by (cases fo)
    (auto simp: finish_observe_def flush_journal_def durable_def saved_of_def Let_def)

lemma durable_observe: "durable R a \<Longrightarrow> durable R (snd (observe valid_ts st fresh fo now a))"
  unfolding observe_def evaluate_def Let_def prod.case
  by (auto split: option.split intro!: durable_finish_observe) (auto simp: durable_def)

lemma durable_run_tick: "durable R a \<Longrightarrow> durable R (run_tick valid_ts st fresh fo now a)"
  using durable_observe [of R a valid_ts st fresh fo now]
  by (auto simp: run_tick_def durable_def split: prod.splits sum.splits option.splits)

lemma durable_step: "durable R a \<Longrightarrow> durable (R \<union> released a op) (cap_step a op)"
proof (cases op)
  case (ObserveTick valid_ts st fresh fo now)
  assume "durable R a"
  then show ?thesis by (simp add: ObserveTick durable_run_tick)
next
  case (Acknowledge m fo)
  assume "durable R a"
  then have "durable (R \<union> {m}) a" by (rule durable_mono) auto
  then show ?thesis
    by (auto simp: Acknowledge acknowledge_event_def Let_def intro!: durable_commit)
next
  case (BindDestination d fo)
  assume "durable R a"
  then have "durable (R \<union> released a op) a" by (rule durable_mono) auto
  then show ?thesis
    by (auto simp: BindDestination bind_destination_def Let_def intro!: durable_commit
        split: option.splits)
next
  case (DiscardLegacy fo)
  assume "durable R a"
  then have "durable (R \<union> ev_msg_id ` set (j_events (ca_journal a))) a" by (rule durable_mono) auto
  then show ?thesis
    by (auto simp: DiscardLegacy discard_legacy_events_def Let_def intro!: durable_commit)
qed

fun cap_run :: "authority \<Rightarrow> cap_op list \<Rightarrow> authority" where
  "cap_run a [] = a"
| "cap_run a (op # ops) = cap_run (cap_step a op) ops"

fun released_run :: "authority \<Rightarrow> cap_op list \<Rightarrow> string set" where
  "released_run a [] = {}"
| "released_run a (op # ops) = released a op \<union> released_run (cap_step a op) ops"

lemma durable_run: "durable R a \<Longrightarrow> durable (R \<union> released_run a ops) (cap_run a ops)"
proof (induction ops arbitrary: R a)
  case Nil
  then show ?case by simp
next
  case (Cons op ops)
  from durable_step [OF Cons.prems] show ?case
    using Cons.IH by (fastforce simp: Un_assoc)
qed

lemma durable_try_new: "try_new base st now1 now2 read fo = Some a \<Longrightarrow> durable {} a"
  by (cases fo)
    (auto simp: try_new_def open_journal_def flush_journal_def durable_def saved_of_def Let_def
      split: journal_read.splits)

text \<open>
  Claim C26: events are delivered only once they are durable.  From start-up, through any
  sequence of observations, acknowledgements, rebindings and discards with any write failures,
  every event \<open>pending_events\<close> hands to a connection is in the journal file, unless its message
  id was acknowledged, discarded, or belonged to another destination before.
\<close>

theorem pending_events_durable:
  assumes "try_new base st now1 now2 read fo = Some a"
    and "pending_events (cap_run a ops) = Inr evs"
    and "ev \<in> set evs" and "ev_msg_id ev \<notin> released_run a ops"
  shows "\<exists>s. ca_disk (cap_run a ops) = Some s \<and> ev \<in> set (sj_events s)"
proof -
  have "durable (released_run a ops) (cap_run a ops)"
    using durable_run [OF durable_try_new [OF assms(1)], of ops] by simp
  with assms(2-4) show ?thesis
    by (auto simp: pending_events_def durable_def split: if_splits)
qed

theorem pending_events_durable_witness:
  "\<exists>a evs ev s.
     try_new 0 [] 5 5 JournalMissing FlushOk = Some a \<and>
     pending_events (cap_run a [ObserveTick (\<lambda>_. True)
       [(''exec'', \<lparr>gr_cap = ''exec'', gr_granted_at = 6, gr_expires_at = 20,
                    gr_granted_by = ''root'', gr_reason = None\<rparr>)] (\<lambda>_. ''m1'') FlushOk 7]) = Inr evs \<and>
     ev \<in> set evs \<and> ca_disk (cap_run a [ObserveTick (\<lambda>_. True)
       [(''exec'', \<lparr>gr_cap = ''exec'', gr_granted_at = 6, gr_expires_at = 20,
                    gr_granted_by = ''root'', gr_reason = None\<rparr>)] (\<lambda>_. ''m1'') FlushOk 7]) = Some s \<and>
     ev \<in> set (sj_events s)"
proof -
  let ?st = "[(''exec'', \<lparr>gr_cap = ''exec'', gr_granted_at = 6, gr_expires_at = 20,
      gr_granted_by = ''root'', gr_reason = None\<rparr>)] :: grant_store"
  let ?ops = "[ObserveTick (\<lambda>_. True) ?st (\<lambda>_. ''m1'') FlushOk 7]"
  let ?a = "\<lparr>ca_journal = \<lparr>j_observed_active = 0, j_destination = None, j_events = [], j_dirty = False\<rparr>,
      ca_base = 0, ca_effective = 0, ca_state_tx = [], ca_transition_tx = [],
      ca_disk = Some \<lparr>sj_observed_active = 0, sj_destination = None, sj_events = []\<rparr>\<rparr>"
  let ?ev = "\<lparr>ev_msg_id = ''m1'', ev_occurred_at = seconds 6,
      ev_changes = [\<lparr>ce_cap = ''exec'', ce_action = Granted, ce_expires_at = Some 20,
        ce_granted_by = Some ''root'', ce_reason = None\<rparr>]\<rparr>"
  have new: "try_new 0 [] 5 5 JournalMissing FlushOk = Some ?a" by code_simp
  have pend: "pending_events (cap_run ?a ?ops) = Inr [?ev]" by code_simp
  have ev: "?ev \<in> set [?ev]" by simp
  have "ev_msg_id ?ev \<notin> released_run ?a ?ops" by simp
  from pending_events_durable [OF new pend ev this] new pend ev show ?thesis by blast
qed

end
