(* ===== verification/App_Error.thy ===== *)
theory App_Error
  imports SB_Prelude
begin

text \<open>
  The server's error type (\<open>crates/server/src/error.rs\<close>): the constructors of \<open>AppError\<close>, the
  message the audit log keeps, and the HTTP status and code a client receives.  The JSON
  rendering of the body is not modelled.
\<close>

datatype app_error =
  BadRequest string
| Unauthorized
| Forbidden string
| NotFound string
| TooManyRequests string
| Conflict string
| Validation string
| RequestTimeout string
| BadGateway string
| Internal string
| Domain (dm_status: nat) (dm_code: string) (dm_message: string) (dm_details: "string option")

text \<open>What a failing database statement turns into.\<close>

definition db_error :: app_error where
  "db_error = Internal ''Database error''"

fun audit_reason :: "app_error \<Rightarrow> string option" where
  "audit_reason (Forbidden message) = Some message"
| "audit_reason (BadRequest message) = Some message"
| "audit_reason (NotFound message) = Some message"
| "audit_reason (Conflict message) = Some message"
| "audit_reason (RequestTimeout message) = Some message"
| "audit_reason (Validation message) = Some message"
| "audit_reason (TooManyRequests message) = Some message"
| "audit_reason (BadGateway message) = Some message"
| "audit_reason (Internal message) = Some message"
| "audit_reason Unauthorized = None"
| "audit_reason (Domain _ _ message _) = Some message"

text \<open>The status, code and details of \<open>into_response\<close>.\<close>

fun response_status :: "app_error \<Rightarrow> nat \<times> string \<times> string option" where
  "response_status (BadRequest _) = (400, ''BAD_REQUEST'', None)"
| "response_status Unauthorized = (401, ''UNAUTHORIZED'', None)"
| "response_status (Forbidden _) = (403, ''FORBIDDEN'', None)"
| "response_status (TooManyRequests _) = (429, ''TOO_MANY_REQUESTS'', None)"
| "response_status (NotFound _) = (404, ''NOT_FOUND'', None)"
| "response_status (Conflict _) = (409, ''CONFLICT'', None)"
| "response_status (Validation _) = (422, ''VALIDATION_ERROR'', None)"
| "response_status (RequestTimeout _) = (408, ''REQUEST_TIMEOUT'', None)"
| "response_status (BadGateway _) = (502, ''BAD_GATEWAY'', None)"
| "response_status (Internal _) = (500, ''INTERNAL_ERROR'', None)"
| "response_status (Domain status code _ details) = (status, code, details)"

text \<open>The \<open>thiserror\<close> texts.\<close>

fun app_error_message :: "app_error \<Rightarrow> string" where
  "app_error_message (BadRequest m) = ''Bad request: '' @ m"
| "app_error_message Unauthorized = ''Unauthorized''"
| "app_error_message (Forbidden m) = ''Forbidden: '' @ m"
| "app_error_message (NotFound m) = ''Not found: '' @ m"
| "app_error_message (TooManyRequests m) = ''Too many requests: '' @ m"
| "app_error_message (Conflict m) = ''Conflict: '' @ m"
| "app_error_message (Validation m) = ''Validation error: '' @ m"
| "app_error_message (RequestTimeout m) = ''Request timeout: '' @ m"
| "app_error_message (BadGateway m) = m"
| "app_error_message (Internal m) = ''Internal error: '' @ m"
| "app_error_message (Domain _ _ m _) = m"

end
