(* ===== verification/Agent_Manager.thy ===== *)
theory Agent_Manager
  imports Capability App_Error
begin

text \<open>
  The server's registry of connected agents (\<open>crates/server/src/service/agent_manager.rs\<close>):
  connections and their generation numbers, request/reply correlation, terminal and docker-log
  routing, the mirrors of what an agent last reported, and the traceroute cache.

  A sender (of an agent's channel, a terminal, a log stream, a one-shot reply) is a channel
  number; the receiving end of a one-shot is what became of its number.  Payloads the registry
  stores and forwards without looking inside (agent and server messages, docker data, hops) are
  strings, an \<open>f64\<close> it copies is the 64-bit word of its representation.  The browser broadcast is
  the list of messages sent, oldest first.  Each method is one step: the callers that connect and
  disconnect hold the server's lifecycle lock.
\<close>

type_synonym payload = string
type_synonym channel = nat
type_synonym f64 = "64 word"

section \<open>Reports\<close>

record disk_io =
  di_name :: string
  di_read_bytes_per_sec :: u64
  di_write_bytes_per_sec :: u64

record system_report =
  sr_cpu :: f64
  sr_mem_used :: int
  sr_swap_used :: int
  sr_disk_used :: int
  sr_net_in_speed :: int
  sr_net_out_speed :: int
  sr_net_in_transfer :: int
  sr_net_out_transfer :: int
  sr_load1 :: f64
  sr_load5 :: f64
  sr_load15 :: f64
  sr_tcp_conn :: int
  sr_udp_conn :: int
  sr_process_count :: int
  sr_uptime :: u64
  sr_disk_io :: "disk_io list option"
  sr_temperature :: "f64 option"
  sr_gpu :: "payload option"

record live_metrics =
  lm_id :: string
  lm_name :: string
  lm_online :: bool
  lm_last_active :: int
  lm_uptime :: u64
  lm_cpu :: f64
  lm_mem_used :: int
  lm_swap_used :: int
  lm_disk_used :: int
  lm_net_in_speed :: int
  lm_net_out_speed :: int
  lm_net_in_transfer :: int
  lm_net_out_transfer :: int
  lm_load1 :: f64
  lm_load5 :: f64
  lm_load15 :: f64
  lm_tcp_conn :: int
  lm_udp_conn :: int
  lm_process_count :: int
  lm_disk_read_bytes_per_sec :: u64
  lm_disk_write_bytes_per_sec :: u64

definition aggregate_disk_io :: "system_report \<Rightarrow> u64 \<times> u64" where
  "aggregate_disk_io report =
     (case sr_disk_io report of
        None \<Rightarrow> (0, 0)
      | Some devices \<Rightarrow>
          foldl (\<lambda>(r, w) d. (saturating_add r (di_read_bytes_per_sec d),
                             saturating_add w (di_write_bytes_per_sec d))) (0, 0) devices)"

text \<open>
  \<open>AgentAuthorityStateSummary\<close>; its time stamps are kept as times, not as RFC 3339 text.
\<close>

datatype authority_status = Claimed | Unclaimed

record outstanding_summary =
  os_id :: string
  os_code_prefix :: string
  os_expires_at :: datetime
  os_created_at :: datetime

record authority_summary =
  as_status :: authority_status
  as_outstanding_offer :: "outstanding_summary option"

datatype browser_message =
  ServerOnline string
| ServerOffline string
| Update "live_metrics list"
| AgentAuthorityChanged string authority_summary
| DockerAvailabilityChanged string bool
| OtherMessage payload

section \<open>State\<close>

datatype request_error = Offline | SendFailed | Disconnected | Timeout int

fun app_error_of_request :: "request_error \<Rightarrow> app_error" where
  "app_error_of_request Offline = NotFound ''Server offline''"
| "app_error_of_request SendFailed = Internal ''Failed to send to agent''"
| "app_error_of_request Disconnected = Internal ''Agent disconnected''"
| "app_error_of_request (Timeout t) =
     RequestTimeout (''Agent did not respond within '' @ show_nat (nat (as_secs t)) @ ''s'')"

record terminal_session =
  ts_server_id :: string
  ts_tx :: channel

record pending_request =
  pr_tx :: channel
  pr_server_id :: string
  pr_created_at :: instant
  pr_ttl :: int

record agent_connection =
  ac_connection_id :: nat
  ac_authority_fingerprint :: "string option"
  ac_server_name :: string
  ac_tx :: channel
  ac_last_report_at :: instant
  ac_remote_addr :: string
  ac_protocol_version :: nat

datatype recorded_protocol = Icmp | Udp | Tcp | Legacy

record traceroute_meta =
  tm_server_id :: string
  tm_target :: string
  tm_protocol :: recorded_protocol
  tm_started_at :: int

record traceroute_snapshot =
  tn_server_id :: string
  tn_target :: string
  tn_protocol :: recorded_protocol
  tn_started_at :: int
  tn_round :: nat
  tn_total_rounds :: nat
  tn_completed :: bool
  tn_hops :: "payload list"
  tn_error :: "string option"

record traceroute_entry =
  te_meta :: traceroute_meta
  te_round :: nat
  te_total_rounds :: nat
  te_hops :: "payload list"
  te_completed :: bool
  te_error :: "string option"
  te_created_at :: instant
  te_completed_at :: "instant option"

text \<open>
  The struct's fields, and what stands for the outside: \<open>am_browser_tx\<close> the messages broadcast,
  \<open>am_replies\<close> the values sent into one-shot channels, \<open>am_next_channel\<close> the next one-shot.
\<close>

record agent_manager =
  am_connections :: "(string, agent_connection) table"
  am_latest_reports :: "(string, system_report) table"
  am_browser_tx :: "browser_message list"
  am_terminal_sessions :: "(string, terminal_session) table"
  am_pending_requests :: "(string, pending_request) table"
  am_docker_containers :: "(string, payload list) table"
  am_docker_stats :: "(string, payload list) table"
  am_docker_info :: "(string, payload) table"
  am_features :: "(string, string list) table"
  am_agent_local_capabilities :: "(string, u32) table"
  am_temporary_grants :: "(string, payload list) table"
  am_docker_log_sessions :: "(string, (string, channel) table) table"
  am_traceroute_results :: "(string, traceroute_entry) table"
  am_next_connection_id :: nat
  am_replies :: "(channel, payload) table"
  am_next_channel :: channel

definition new_manager :: agent_manager where
  "new_manager = \<lparr>am_connections = [], am_latest_reports = [], am_browser_tx = [],
     am_terminal_sessions = [], am_pending_requests = [], am_docker_containers = [],
     am_docker_stats = [], am_docker_info = [], am_features = [], am_agent_local_capabilities = [],
     am_temporary_grants = [], am_docker_log_sessions = [], am_traceroute_results = [],
     am_next_connection_id = 1, am_replies = [], am_next_channel = 0\<rparr>"

definition broadcast_browser :: "browser_message \<Rightarrow> agent_manager \<Rightarrow> agent_manager" where
  "broadcast_browser msg am = am\<lparr>am_browser_tx := am_browser_tx am @ [msg]\<rparr>"

section \<open>Connections\<close>

definition add_connection ::
  "string \<Rightarrow> string \<Rightarrow> channel \<Rightarrow> string \<Rightarrow> instant \<Rightarrow> agent_manager \<Rightarrow> nat \<times> agent_manager" where
  "add_connection server_id server_name tx remote_addr now am =
     (let connection_id = am_next_connection_id am;
          am = am\<lparr>am_next_connection_id := connection_id + 1\<rparr>;
          am = am\<lparr>am_connections := tput server_id
                 \<lparr>ac_connection_id = connection_id, ac_authority_fingerprint = None,
                  ac_server_name = server_name, ac_tx = tx, ac_last_report_at = now,
                  ac_remote_addr = remote_addr, ac_protocol_version = 1\<rparr> (am_connections am)\<rparr>
      in (connection_id, broadcast_browser (ServerOnline server_id) am))"

definition remove_docker_log_sessions_for_server ::
  "string \<Rightarrow> agent_manager \<Rightarrow> string list \<times> agent_manager" where
  "remove_docker_log_sessions_for_server server_id am =
     (case tget (am_docker_log_sessions am) server_id of
        Some inner \<Rightarrow>
          (keys inner, am\<lparr>am_docker_log_sessions := tdel server_id (am_docker_log_sessions am)\<rparr>)
      | None \<Rightarrow> ([], am))"

definition clear_docker_caches :: "string \<Rightarrow> agent_manager \<Rightarrow> agent_manager" where
  "clear_docker_caches server_id am =
     am\<lparr>am_docker_containers := tdel server_id (am_docker_containers am),
        am_docker_stats := tdel server_id (am_docker_stats am),
        am_docker_info := tdel server_id (am_docker_info am)\<rparr>"

definition finish_connection_removal :: "string \<Rightarrow> agent_manager \<Rightarrow> agent_manager" where
  "finish_connection_removal server_id am =
     (let am = am\<lparr>am_agent_local_capabilities := tdel server_id (am_agent_local_capabilities am)\<rparr>;
          am = am\<lparr>am_temporary_grants := tdel server_id (am_temporary_grants am)\<rparr>;
          am = am\<lparr>am_pending_requests :=
                 tretain (\<lambda>_ pending. pr_server_id pending \<noteq> server_id) (am_pending_requests am)\<rparr>;
          am = am\<lparr>am_terminal_sessions :=
                 tretain (\<lambda>_ session. ts_server_id session \<noteq> server_id) (am_terminal_sessions am)\<rparr>;
          am = snd (remove_docker_log_sessions_for_server server_id am);
          am = clear_docker_caches server_id am
      in broadcast_browser (ServerOffline server_id) am)"

definition remove_connection :: "string \<Rightarrow> agent_manager \<Rightarrow> agent_manager" where
  "remove_connection server_id am =
     (if thas (am_connections am) server_id
      then finish_connection_removal server_id
             (am\<lparr>am_connections := tdel server_id (am_connections am)\<rparr>)
      else am)"

definition is_current_connection :: "string \<Rightarrow> nat \<Rightarrow> agent_manager \<Rightarrow> bool" where
  "is_current_connection server_id expected_connection_id am =
     (case tget (am_connections am) server_id of
        None \<Rightarrow> False
      | Some connection \<Rightarrow> ac_connection_id connection = expected_connection_id)"

definition remove_connection_if_current ::
  "string \<Rightarrow> nat \<Rightarrow> agent_manager \<Rightarrow> bool \<times> agent_manager" where
  "remove_connection_if_current server_id expected_connection_id am =
     (if (case tget (am_connections am) server_id of
            None \<Rightarrow> False
          | Some connection \<Rightarrow> ac_connection_id connection = expected_connection_id)
      then (True, finish_connection_removal server_id
                    (am\<lparr>am_connections := tdel server_id (am_connections am)\<rparr>))
      else (False, am))"

definition modify_connection ::
  "string \<Rightarrow> (agent_connection \<Rightarrow> agent_connection) \<Rightarrow> agent_manager \<Rightarrow> agent_manager" where
  "modify_connection server_id f am =
     am\<lparr>am_connections := tmodify server_id f (am_connections am)\<rparr>"

definition bind_security_authority :: "string \<Rightarrow> string \<Rightarrow> agent_manager \<Rightarrow> agent_manager" where
  "bind_security_authority server_id fingerprint =
     modify_connection server_id (\<lambda>c. c\<lparr>ac_authority_fingerprint := Some fingerprint\<rparr>)"

definition security_authority :: "string \<Rightarrow> agent_manager \<Rightarrow> string option" where
  "security_authority server_id am =
     Option.bind (tget (am_connections am) server_id) ac_authority_fingerprint"

definition touch_connection :: "string \<Rightarrow> instant \<Rightarrow> agent_manager \<Rightarrow> agent_manager" where
  "touch_connection server_id now = modify_connection server_id (\<lambda>c. c\<lparr>ac_last_report_at := now\<rparr>)"

definition set_protocol_version :: "string \<Rightarrow> nat \<Rightarrow> agent_manager \<Rightarrow> agent_manager" where
  "set_protocol_version server_id version =
     modify_connection server_id (\<lambda>c. c\<lparr>ac_protocol_version := version\<rparr>)"

definition get_protocol_version :: "string \<Rightarrow> agent_manager \<Rightarrow> nat option" where
  "get_protocol_version server_id am =
     map_option ac_protocol_version (tget (am_connections am) server_id)"

definition broadcast_agent_authority_changed ::
  "string \<Rightarrow> authority_summary \<Rightarrow> agent_manager \<Rightarrow> agent_manager" where
  "broadcast_agent_authority_changed server_id summary =
     broadcast_browser (AgentAuthorityChanged server_id summary)"

definition is_online :: "string \<Rightarrow> agent_manager \<Rightarrow> bool" where
  "is_online server_id am = thas (am_connections am) server_id"

definition get_sender :: "string \<Rightarrow> agent_manager \<Rightarrow> channel option" where
  "get_sender server_id am = map_option ac_tx (tget (am_connections am) server_id)"

definition get_remote_addr :: "string \<Rightarrow> agent_manager \<Rightarrow> string option" where
  "get_remote_addr server_id am = map_option ac_remote_addr (tget (am_connections am) server_id)"

definition connected_server_ids :: "agent_manager \<Rightarrow> string list" where
  "connected_server_ids am = keys (am_connections am)"

definition online_agents :: "agent_manager \<Rightarrow> (string \<times> nat) list" where
  "online_agents am = map (\<lambda>(k, c). (k, ac_protocol_version c)) (am_connections am)"

definition stale_connection_candidates ::
  "int \<Rightarrow> instant \<Rightarrow> agent_manager \<Rightarrow> (string \<times> nat) list" where
  "stale_connection_candidates threshold_secs now am =
     map (\<lambda>(k, c). (k, ac_connection_id c))
       (filter (\<lambda>(k, c). threshold_secs \<le> as_secs (duration_since now (ac_last_report_at c)))
         (am_connections am))"

section \<open>Reports\<close>

text \<open>\<open>now\<close> is the monotonic clock, \<open>timestamp\<close> the wall clock in seconds.\<close>

definition live_metrics_of ::
  "string \<Rightarrow> string \<Rightarrow> int \<Rightarrow> system_report \<Rightarrow> live_metrics" where
  "live_metrics_of server_id name timestamp report =
     (let (disk_read, disk_write) = aggregate_disk_io report in
      \<lparr>lm_id = server_id, lm_name = name, lm_online = True, lm_last_active = timestamp,
       lm_uptime = sr_uptime report, lm_cpu = sr_cpu report, lm_mem_used = sr_mem_used report,
       lm_swap_used = sr_swap_used report, lm_disk_used = sr_disk_used report,
       lm_net_in_speed = sr_net_in_speed report, lm_net_out_speed = sr_net_out_speed report,
       lm_net_in_transfer = sr_net_in_transfer report,
       lm_net_out_transfer = sr_net_out_transfer report,
       lm_load1 = sr_load1 report, lm_load5 = sr_load5 report, lm_load15 = sr_load15 report,
       lm_tcp_conn = sr_tcp_conn report, lm_udp_conn = sr_udp_conn report,
       lm_process_count = sr_process_count report,
       lm_disk_read_bytes_per_sec = disk_read, lm_disk_write_bytes_per_sec = disk_write\<rparr>)"

definition update_report ::
  "string \<Rightarrow> system_report \<Rightarrow> instant \<Rightarrow> int \<Rightarrow> agent_manager \<Rightarrow> agent_manager" where
  "update_report server_id report now timestamp am =
     (let am = modify_connection server_id (\<lambda>c. c\<lparr>ac_last_report_at := now\<rparr>) am;
          name = (case tget (am_connections am) server_id of
                    Some c \<Rightarrow> ac_server_name c | None \<Rightarrow> []);
          am = broadcast_browser (Update [live_metrics_of server_id name timestamp report]) am
      in am\<lparr>am_latest_reports := tput server_id report (am_latest_reports am)\<rparr>)"

definition get_latest_report :: "string \<Rightarrow> agent_manager \<Rightarrow> system_report option" where
  "get_latest_report server_id am = tget (am_latest_reports am) server_id"

definition all_latest_reports :: "agent_manager \<Rightarrow> (string \<times> system_report) list" where
  "all_latest_reports am = am_latest_reports am"

definition online_latest_reports :: "agent_manager \<Rightarrow> (string \<times> system_report) list" where
  "online_latest_reports am =
     filter (\<lambda>(k, r). thas (am_connections am) k) (am_latest_reports am)"

definition remove_cached_report :: "string \<Rightarrow> agent_manager \<Rightarrow> agent_manager" where
  "remove_cached_report server_id am =
     am\<lparr>am_latest_reports := tdel server_id (am_latest_reports am)\<rparr>"

section \<open>Terminal sessions\<close>

definition register_terminal_session ::
  "string \<Rightarrow> string \<Rightarrow> channel \<Rightarrow> agent_manager \<Rightarrow> agent_manager" where
  "register_terminal_session session_id server_id tx am =
     am\<lparr>am_terminal_sessions :=
          tput session_id \<lparr>ts_server_id = server_id, ts_tx = tx\<rparr> (am_terminal_sessions am)\<rparr>"

definition unregister_terminal_session :: "string \<Rightarrow> agent_manager \<Rightarrow> agent_manager" where
  "unregister_terminal_session session_id am =
     am\<lparr>am_terminal_sessions := tdel session_id (am_terminal_sessions am)\<rparr>"

definition unregister_agent_terminal_session ::
  "string \<Rightarrow> string \<Rightarrow> agent_manager \<Rightarrow> agent_manager" where
  "unregister_agent_terminal_session server_id session_id am =
     (case tget (am_terminal_sessions am) session_id of
        Some session \<Rightarrow>
          if ts_server_id session = server_id
          then am\<lparr>am_terminal_sessions := tdel session_id (am_terminal_sessions am)\<rparr> else am
      | None \<Rightarrow> am)"

definition get_terminal_session :: "string \<Rightarrow> string \<Rightarrow> agent_manager \<Rightarrow> channel option" where
  "get_terminal_session server_id session_id am =
     (case tget (am_terminal_sessions am) session_id of
        Some session \<Rightarrow> if ts_server_id session = server_id then Some (ts_tx session) else None
      | None \<Rightarrow> None)"

section \<open>Requests and replies\<close>

definition upload_ack_key :: "string \<Rightarrow> string" where
  "upload_ack_key transfer_id = ''upload-ack-'' @ transfer_id"

definition upload_complete_key :: "string \<Rightarrow> string" where
  "upload_complete_key transfer_id = ''upload-complete-'' @ transfer_id"

definition register_pending_request_with_ttl ::
  "string \<Rightarrow> string \<Rightarrow> int \<Rightarrow> instant \<Rightarrow> agent_manager \<Rightarrow> channel \<times> agent_manager" where
  "register_pending_request_with_ttl server_id msg_id ttl now am =
     (let rx = am_next_channel am in
      (rx, am\<lparr>am_next_channel := rx + 1,
              am_pending_requests := tput msg_id
                \<lparr>pr_tx = rx, pr_server_id = server_id, pr_created_at = now, pr_ttl = ttl\<rparr>
                (am_pending_requests am)\<rparr>))"

definition register_pending_request ::
  "string \<Rightarrow> string \<Rightarrow> instant \<Rightarrow> agent_manager \<Rightarrow> channel \<times> agent_manager" where
  "register_pending_request server_id msg_id =
     register_pending_request_with_ttl server_id msg_id (seconds 60)"

definition has_pending_request :: "string \<Rightarrow> agent_manager \<Rightarrow> bool" where
  "has_pending_request msg_id am = thas (am_pending_requests am) msg_id"

definition cancel_pending_request :: "string \<Rightarrow> agent_manager \<Rightarrow> agent_manager" where
  "cancel_pending_request msg_id am =
     am\<lparr>am_pending_requests := tdel msg_id (am_pending_requests am)\<rparr>"

text \<open>
  What the holder of a one-shot receiver observes: a value, a sender still held by a pending
  slot, or a sender that is gone.
\<close>

datatype waiter = Waiting | Received payload | SenderDropped

definition waiter_state :: "channel \<Rightarrow> agent_manager \<Rightarrow> waiter" where
  "waiter_state rx am =
     (case tget (am_replies am) rx of
        Some m \<Rightarrow> Received m
      | None \<Rightarrow>
          if list_ex (\<lambda>(k, p). pr_tx p = rx) (am_pending_requests am) then Waiting
          else SenderDropped)"

text \<open>
  \<open>request_with_id\<close> has three stretches, cut at its awaits: register the slot; learn whether the
  channel took the message; learn the outcome of \<open>tokio::time::timeout\<close>, which polls the
  receiver before the deadline, so a reply that is there wins (\<open>None\<close>: still waiting).
\<close>

definition request_begin ::
  "string \<Rightarrow> string \<Rightarrow> int \<Rightarrow> instant \<Rightarrow> agent_manager \<Rightarrow>
   (request_error + (channel \<times> channel)) \<times> agent_manager" where
  "request_begin server_id msg_id timeout now am =
     (case get_sender server_id am of
        None \<Rightarrow> (Inl Offline, am)
      | Some sender \<Rightarrow>
          let (rx, am) = register_pending_request_with_ttl server_id msg_id (timeout + seconds 10) now am
          in (Inr (sender, rx), am))"

definition request_sent ::
  "bool \<Rightarrow> string \<Rightarrow> agent_manager \<Rightarrow> (request_error + unit) \<times> agent_manager" where
  "request_sent sent msg_id am =
     (if \<not> sent
      then (Inl SendFailed, am\<lparr>am_pending_requests := tdel msg_id (am_pending_requests am)\<rparr>)
      else (Inr (), am))"

definition request_poll ::
  "bool \<Rightarrow> int \<Rightarrow> channel \<Rightarrow> string \<Rightarrow> agent_manager \<Rightarrow>
   (request_error + payload) option \<times> agent_manager" where
  "request_poll elapsed timeout rx msg_id am =
     (case waiter_state rx am of
        Received message \<Rightarrow> (Some (Inr message), am)
      | SenderDropped \<Rightarrow> (Some (Inl Disconnected), am)
      | Waiting \<Rightarrow>
          if elapsed
          then (Some (Inl (Timeout timeout)),
                am\<lparr>am_pending_requests := tdel msg_id (am_pending_requests am)\<rparr>)
          else (None, am))"

definition dispatch_pending_response ::
  "string \<Rightarrow> string \<Rightarrow> payload \<Rightarrow> agent_manager \<Rightarrow> bool \<times> agent_manager" where
  "dispatch_pending_response server_id msg_id message am =
     (case tget (am_pending_requests am) msg_id of
        Some pending \<Rightarrow>
          if pr_server_id pending = server_id
          then (True, am\<lparr>am_pending_requests := tdel msg_id (am_pending_requests am),
                         am_replies := tput (pr_tx pending) message (am_replies am)\<rparr>)
          else (False, am)
      | None \<Rightarrow> (False, am))"

definition cleanup_expired_requests :: "instant \<Rightarrow> agent_manager \<Rightarrow> agent_manager" where
  "cleanup_expired_requests now am =
     am\<lparr>am_pending_requests :=
          tretain (\<lambda>_ pending. duration_since now (pr_created_at pending) < pr_ttl pending)
            (am_pending_requests am)\<rparr>"

section \<open>Mirrors of the agent's state\<close>

definition update_docker_containers :: "string \<Rightarrow> payload list \<Rightarrow> agent_manager \<Rightarrow> agent_manager" where
  "update_docker_containers server_id cs am =
     am\<lparr>am_docker_containers := tput server_id cs (am_docker_containers am)\<rparr>"

definition get_docker_containers :: "string \<Rightarrow> agent_manager \<Rightarrow> payload list option" where
  "get_docker_containers server_id am = tget (am_docker_containers am) server_id"

definition update_docker_stats :: "string \<Rightarrow> payload list \<Rightarrow> agent_manager \<Rightarrow> agent_manager" where
  "update_docker_stats server_id stats am =
     am\<lparr>am_docker_stats := tput server_id stats (am_docker_stats am)\<rparr>"

definition get_docker_stats :: "string \<Rightarrow> agent_manager \<Rightarrow> payload list option" where
  "get_docker_stats server_id am = tget (am_docker_stats am) server_id"

definition update_docker_info :: "string \<Rightarrow> payload \<Rightarrow> agent_manager \<Rightarrow> agent_manager" where
  "update_docker_info server_id info am =
     am\<lparr>am_docker_info := tput server_id info (am_docker_info am)\<rparr>"

definition get_docker_info :: "string \<Rightarrow> agent_manager \<Rightarrow> payload option" where
  "get_docker_info server_id am = tget (am_docker_info am) server_id"

definition update_features :: "string \<Rightarrow> string list \<Rightarrow> agent_manager \<Rightarrow> agent_manager" where
  "update_features server_id features am =
     am\<lparr>am_features := tput server_id features (am_features am)\<rparr>"

definition get_features :: "string \<Rightarrow> agent_manager \<Rightarrow> string list" where
  "get_features server_id am =
     (case tget (am_features am) server_id of Some fs \<Rightarrow> fs | None \<Rightarrow> [])"

definition has_feature :: "string \<Rightarrow> string \<Rightarrow> agent_manager \<Rightarrow> bool" where
  "has_feature server_id feature am =
     (case tget (am_features am) server_id of Some fs \<Rightarrow> List.member fs feature | None \<Rightarrow> False)"

definition update_agent_local_capabilities :: "string \<Rightarrow> u32 \<Rightarrow> agent_manager \<Rightarrow> agent_manager" where
  "update_agent_local_capabilities server_id caps am =
     am\<lparr>am_agent_local_capabilities := tput server_id caps (am_agent_local_capabilities am)\<rparr>"

definition get_agent_local_capabilities :: "string \<Rightarrow> agent_manager \<Rightarrow> u32 option" where
  "get_agent_local_capabilities server_id am = tget (am_agent_local_capabilities am) server_id"

definition get_effective_capabilities :: "string \<Rightarrow> agent_manager \<Rightarrow> u32 option" where
  "get_effective_capabilities server_id am = get_agent_local_capabilities server_id am"

definition effective_capabilities_or :: "string \<Rightarrow> u32 \<Rightarrow> agent_manager \<Rightarrow> u32" where
  "effective_capabilities_or server_id mirror_caps am =
     (case get_agent_local_capabilities server_id am of Some caps \<Rightarrow> caps | None \<Rightarrow> mirror_caps)"

definition capability_denied_reason ::
  "string \<Rightarrow> u32 \<Rightarrow> u32 \<Rightarrow> agent_manager \<Rightarrow> string option" where
  "capability_denied_reason server_id mirror_caps cap_bit am =
     (if has_capability (effective_capabilities_or server_id mirror_caps am) cap_bit then None
      else Some ''agent_capability_disabled'')"

definition update_temporary_grants :: "string \<Rightarrow> payload list \<Rightarrow> agent_manager \<Rightarrow> agent_manager" where
  "update_temporary_grants server_id grants am =
     am\<lparr>am_temporary_grants :=
          (if grants = [] then tdel server_id (am_temporary_grants am)
           else tput server_id grants (am_temporary_grants am))\<rparr>"

definition get_temporary_grants :: "string \<Rightarrow> agent_manager \<Rightarrow> payload list" where
  "get_temporary_grants server_id am =
     (case tget (am_temporary_grants am) server_id of Some gs \<Rightarrow> gs | None \<Rightarrow> [])"

definition has_docker_capability :: "string \<Rightarrow> agent_manager \<Rightarrow> bool" where
  "has_docker_capability server_id am =
     (case get_agent_local_capabilities server_id am of
        Some cap \<Rightarrow> has_capability cap CAP_DOCKER | None \<Rightarrow> False)"

text \<open>
  \<open>preload_capabilities\<close>: the rows of the query (id, the \<open>i32\<close> mask, the features column) and
  the JSON reader of the features are arguments; \<open>None\<close> is a failed query.
\<close>

definition preload_capabilities ::
  "(string \<Rightarrow> string list option) \<Rightarrow> (string \<times> int \<times> string) list option \<Rightarrow> agent_manager \<Rightarrow>
   bool \<times> agent_manager" where
  "preload_capabilities parse rows am =
     (case rows of
        None \<Rightarrow> (False, am)
      | Some rs \<Rightarrow>
          (True, fold (\<lambda>(id, caps, features_json) am.
             let am = am\<lparr>am_agent_local_capabilities :=
                           tput id (word_of_int caps) (am_agent_local_capabilities am)\<rparr>;
                 features = (case parse features_json of Some fs \<Rightarrow> fs | None \<Rightarrow> [])
             in am\<lparr>am_features := tput id features (am_features am)\<rparr>) rs am))"

section \<open>Docker log routing\<close>

definition add_docker_log_session ::
  "string \<Rightarrow> string \<Rightarrow> channel \<Rightarrow> agent_manager \<Rightarrow> agent_manager" where
  "add_docker_log_session server_id session_id tx am =
     (let inner = (case tget (am_docker_log_sessions am) server_id of Some t \<Rightarrow> t | None \<Rightarrow> [])
      in am\<lparr>am_docker_log_sessions :=
              tput server_id (tput session_id tx inner) (am_docker_log_sessions am)\<rparr>)"

definition get_docker_log_session :: "string \<Rightarrow> string \<Rightarrow> agent_manager \<Rightarrow> channel option" where
  "get_docker_log_session server_id session_id am =
     Option.bind (tget (am_docker_log_sessions am) server_id) (\<lambda>inner. tget inner session_id)"

definition remove_docker_log_session ::
  "string \<Rightarrow> string \<Rightarrow> agent_manager \<Rightarrow> bool \<times> agent_manager" where
  "remove_docker_log_session server_id session_id am =
     (case tget (am_docker_log_sessions am) server_id of
        Some inner \<Rightarrow>
          (thas inner session_id,
           am\<lparr>am_docker_log_sessions :=
                tmodify server_id (tdel session_id) (am_docker_log_sessions am)\<rparr>)
      | None \<Rightarrow> (False, am))"

section \<open>Traceroute results\<close>

definition insert_traceroute_placeholder ::
  "string \<Rightarrow> traceroute_meta \<Rightarrow> instant \<Rightarrow> agent_manager \<Rightarrow> agent_manager" where
  "insert_traceroute_placeholder request_id meta now am =
     am\<lparr>am_traceroute_results := tput request_id
          \<lparr>te_meta = meta, te_round = 0, te_total_rounds = 0, te_hops = [], te_completed = False,
           te_error = None, te_created_at = now, te_completed_at = None\<rparr>
          (am_traceroute_results am)\<rparr>"

definition traceroute_snapshot_of :: "traceroute_entry \<Rightarrow> traceroute_snapshot" where
  "traceroute_snapshot_of e =
     \<lparr>tn_server_id = tm_server_id (te_meta e), tn_target = tm_target (te_meta e),
      tn_protocol = tm_protocol (te_meta e), tn_started_at = tm_started_at (te_meta e),
      tn_round = te_round e, tn_total_rounds = te_total_rounds e, tn_completed = te_completed e,
      tn_hops = te_hops e, tn_error = te_error e\<rparr>"

definition update_traceroute_round ::
  "string \<Rightarrow> nat \<Rightarrow> nat \<Rightarrow> payload list \<Rightarrow> bool \<Rightarrow> string option \<Rightarrow> instant \<Rightarrow> agent_manager \<Rightarrow>
   traceroute_snapshot option \<times> agent_manager" where
  "update_traceroute_round request_id round total_rounds hops completed err now am =
     (case tget (am_traceroute_results am) request_id of
        None \<Rightarrow> (None, am)
      | Some entry \<Rightarrow>
          let entry = entry\<lparr>te_round := round, te_total_rounds := total_rounds, te_hops := hops,
                            te_completed := completed, te_error := err\<rparr>;
              entry = (if completed \<and> te_completed_at entry = None
                       then entry\<lparr>te_completed_at := Some now\<rparr> else entry)
          in (Some (traceroute_snapshot_of entry),
              am\<lparr>am_traceroute_results := tput request_id entry (am_traceroute_results am)\<rparr>))"

definition get_traceroute_snapshot :: "string \<Rightarrow> agent_manager \<Rightarrow> traceroute_snapshot option" where
  "get_traceroute_snapshot request_id am =
     map_option traceroute_snapshot_of (tget (am_traceroute_results am) request_id)"

definition get_traceroute_meta :: "string \<Rightarrow> agent_manager \<Rightarrow> traceroute_meta option" where
  "get_traceroute_meta request_id am = map_option te_meta (tget (am_traceroute_results am) request_id)"

definition set_traceroute_meta_protocol ::
  "string \<Rightarrow> recorded_protocol \<Rightarrow> agent_manager \<Rightarrow> agent_manager" where
  "set_traceroute_meta_protocol request_id protocol am =
     am\<lparr>am_traceroute_results :=
          tmodify request_id (\<lambda>e. e\<lparr>te_meta := (te_meta e)\<lparr>tm_protocol := protocol\<rparr>\<rparr>)
            (am_traceroute_results am)\<rparr>"

definition cleanup_traceroute_results :: "instant \<Rightarrow> agent_manager \<Rightarrow> agent_manager" where
  "cleanup_traceroute_results now am =
     am\<lparr>am_traceroute_results :=
          tretain (\<lambda>_ entry.
             as_secs (duration_since now
               (case te_completed_at entry of Some t \<Rightarrow> t | None \<Rightarrow> te_created_at entry)) < 120)
            (am_traceroute_results am)\<rparr>"

end
