(* ===== verification/Agent_Registry.thy ===== *)
theory Agent_Registry
  imports Agent_Manager
begin

text \<open>
  What the rest of the server relies on in the agent registry of \<open>Agent_Manager\<close>: the operations
  as one step function, its invariant, the fate of connection generations and of request waiters,
  and the contract \<open>agent_registry\<close> that the authority service is verified against.
\<close>

section \<open>Operations\<close>

datatype am_op =
  Connect string string channel string instant
| Disconnect string
| DisconnectIfCurrent string nat
| BindAuthority string string
| Touch string instant
| SetProtocol string nat
| AuthorityChanged string authority_summary
| BroadcastOther payload
| DockerAvailability string bool
| Report string system_report instant int
| DropReport string
| OpenTerminal string string channel
| CloseTerminal string
| AgentClosesTerminal string string
| RegisterRequest string string int instant
| DispatchReply string string payload
| CancelRequest string
| SweepRequests instant
| DockerContainers string "payload list"
| DockerStats string "payload list"
| DockerInfo string payload
| ClearDocker string
| Features string "string list"
| Capabilities string u32
| Grants string "payload list"
| OpenLog string string channel
| CloseLog string string
| CloseLogs string
| TracePlaceholder string traceroute_meta instant
| TraceRound string nat nat "payload list" bool "string option" instant
| TraceProtocol string recorded_protocol
| SweepTraces instant

fun am_step :: "agent_manager \<Rightarrow> am_op \<Rightarrow> agent_manager" where
  "am_step am (Connect s n tx addr now) = snd (add_connection s n tx addr now am)"
| "am_step am (Disconnect s) = remove_connection s am"
| "am_step am (DisconnectIfCurrent s i) = snd (remove_connection_if_current s i am)"
| "am_step am (BindAuthority s f) = bind_security_authority s f am"
| "am_step am (Touch s now) = touch_connection s now am"
| "am_step am (SetProtocol s v) = set_protocol_version s v am"
| "am_step am (AuthorityChanged s p) = broadcast_agent_authority_changed s p am"
| "am_step am (BroadcastOther p) = broadcast_browser (OtherMessage p) am"
| "am_step am (DockerAvailability s b) = broadcast_browser (DockerAvailabilityChanged s b) am"
| "am_step am (Report s r now ts) = update_report s r now ts am"
| "am_step am (DropReport s) = remove_cached_report s am"
| "am_step am (OpenTerminal i s tx) = register_terminal_session i s tx am"
| "am_step am (CloseTerminal i) = unregister_terminal_session i am"
| "am_step am (AgentClosesTerminal s i) = unregister_agent_terminal_session s i am"
| "am_step am (RegisterRequest s k ttl now) = snd (register_pending_request_with_ttl s k ttl now am)"
| "am_step am (DispatchReply s k m) = snd (dispatch_pending_response s k m am)"
| "am_step am (CancelRequest k) = cancel_pending_request k am"
| "am_step am (SweepRequests now) = cleanup_expired_requests now am"
| "am_step am (DockerContainers s c) = update_docker_containers s c am"
| "am_step am (DockerStats s c) = update_docker_stats s c am"
| "am_step am (DockerInfo s c) = update_docker_info s c am"
| "am_step am (ClearDocker s) = clear_docker_caches s am"
| "am_step am (Features s fs) = update_features s fs am"
| "am_step am (Capabilities s c) = update_agent_local_capabilities s c am"
| "am_step am (Grants s g) = update_temporary_grants s g am"
| "am_step am (OpenLog s i tx) = add_docker_log_session s i tx am"
| "am_step am (CloseLog s i) = snd (remove_docker_log_session s i am)"
| "am_step am (CloseLogs s) = snd (remove_docker_log_sessions_for_server s am)"
| "am_step am (TracePlaceholder r m now) = insert_traceroute_placeholder r m now am"
| "am_step am (TraceRound r i n hops done e now) = snd (update_traceroute_round r i n hops done e now am)"
| "am_step am (TraceProtocol r p) = set_traceroute_meta_protocol r p am"
| "am_step am (SweepTraces now) = cleanup_traceroute_results now am"

fun am_run :: "agent_manager \<Rightarrow> am_op list \<Rightarrow> agent_manager" where
  "am_run am [] = am"
| "am_run am (op # ops) = am_run (am_step am op) ops"

lemmas connection_defs =
  add_connection_def remove_connection_def remove_connection_if_current_def
  bind_security_authority_def touch_connection_def set_protocol_version_def modify_connection_def
  broadcast_agent_authority_changed_def broadcast_browser_def
  update_report_def remove_cached_report_def

lemmas mirror_defs =
  register_terminal_session_def unregister_terminal_session_def
  unregister_agent_terminal_session_def
  update_docker_containers_def update_docker_stats_def update_docker_info_def
  clear_docker_caches_def update_features_def update_agent_local_capabilities_def
  update_temporary_grants_def add_docker_log_session_def remove_docker_log_session_def
  remove_docker_log_sessions_for_server_def insert_traceroute_placeholder_def
  update_traceroute_round_def set_traceroute_meta_protocol_def cleanup_traceroute_results_def

lemmas request_defs =
  register_pending_request_with_ttl_def dispatch_pending_response_def cancel_pending_request_def
  cleanup_expired_requests_def

text \<open>What the end of a connection leaves of each field.\<close>

lemma finish_removal_fields [simp]:
  "am_connections (finish_connection_removal s am) = am_connections am"
  "am_next_connection_id (finish_connection_removal s am) = am_next_connection_id am"
  "am_replies (finish_connection_removal s am) = am_replies am"
  "am_next_channel (finish_connection_removal s am) = am_next_channel am"
  "am_browser_tx (finish_connection_removal s am) = am_browser_tx am @ [ServerOffline s]"
  "am_pending_requests (finish_connection_removal s am)
     = tretain (\<lambda>_ p. pr_server_id p \<noteq> s) (am_pending_requests am)"
  "am_terminal_sessions (finish_connection_removal s am)
     = tretain (\<lambda>_ p. ts_server_id p \<noteq> s) (am_terminal_sessions am)"
  "am_agent_local_capabilities (finish_connection_removal s am)
     = tdel s (am_agent_local_capabilities am)"
  "am_temporary_grants (finish_connection_removal s am) = tdel s (am_temporary_grants am)"
  "am_docker_containers (finish_connection_removal s am) = tdel s (am_docker_containers am)"
  "am_docker_stats (finish_connection_removal s am) = tdel s (am_docker_stats am)"
  "am_docker_info (finish_connection_removal s am) = tdel s (am_docker_info am)"
  "am_features (finish_connection_removal s am) = am_features am"
  "am_latest_reports (finish_connection_removal s am) = am_latest_reports am"
  "tget (am_docker_log_sessions (finish_connection_removal s am)) s'
     = (if s' = s then None else tget (am_docker_log_sessions am) s')"
  by (auto simp: finish_connection_removal_def remove_docker_log_sessions_for_server_def
      clear_docker_caches_def broadcast_browser_def Let_def table_simps split: option.splits)

section \<open>Invariant\<close>

definition connections_ok :: "agent_manager \<Rightarrow> bool" where
  "connections_ok am \<longleftrightarrow>
     table_ok (am_connections am) \<and>
     (\<forall>s c. tget (am_connections am) s = Some c \<longrightarrow> ac_connection_id c < am_next_connection_id am)"

definition requests_ok :: "agent_manager \<Rightarrow> bool" where
  "requests_ok am \<longleftrightarrow>
     table_ok (am_pending_requests am) \<and>
     (\<forall>k p. tget (am_pending_requests am) k = Some p \<longrightarrow>
        pr_tx p < am_next_channel am \<and> tget (am_replies am) (pr_tx p) = None) \<and>
     (\<forall>k k' p p'. tget (am_pending_requests am) k = Some p \<longrightarrow>
        tget (am_pending_requests am) k' = Some p' \<longrightarrow> pr_tx p = pr_tx p' \<longrightarrow> k = k') \<and>
     (\<forall>rx m. tget (am_replies am) rx = Some m \<longrightarrow> rx < am_next_channel am)"

definition am_ok :: "agent_manager \<Rightarrow> bool" where
  "am_ok am \<longleftrightarrow> connections_ok am \<and> requests_ok am \<and> table_ok (am_terminal_sessions am)"

lemma am_ok_new: "am_ok new_manager"
  by (simp add: am_ok_def connections_ok_def requests_ok_def new_manager_def)

text \<open>Mirror operations touch neither connections nor requests.\<close>

definition core_of :: "agent_manager \<Rightarrow> _" where
  "core_of am = (am_connections am, am_next_connection_id am, am_pending_requests am,
     am_replies am, am_next_channel am)"

fun is_core_op :: "am_op \<Rightarrow> bool" where
  "is_core_op (Connect _ _ _ _ _) = True"
| "is_core_op (Disconnect _) = True"
| "is_core_op (DisconnectIfCurrent _ _) = True"
| "is_core_op (BindAuthority _ _) = True"
| "is_core_op (Touch _ _) = True"
| "is_core_op (SetProtocol _ _) = True"
| "is_core_op (Report _ _ _ _) = True"
| "is_core_op (RegisterRequest _ _ _ _) = True"
| "is_core_op (DispatchReply _ _ _) = True"
| "is_core_op (CancelRequest _) = True"
| "is_core_op (SweepRequests _) = True"
| "is_core_op _ = False"

lemma core_of_mirror_op: "\<not> is_core_op op \<Longrightarrow> core_of (am_step am op) = core_of am"
  by (cases op)
    (simp_all add: core_of_def mirror_defs broadcast_agent_authority_changed_def
      broadcast_browser_def remove_cached_report_def Let_def split: option.split)

lemma connections_ok_step: "connections_ok am \<Longrightarrow> connections_ok (am_step am op)"
proof (cases "is_core_op op")
  case False
  moreover assume "connections_ok am"
  ultimately show ?thesis
    using core_of_mirror_op [of op am] by (simp add: core_of_def connections_ok_def)
next
  case True
  moreover assume "connections_ok am"
  ultimately show ?thesis
    by (cases op)
      (auto simp: connections_ok_def connection_defs request_defs Let_def table_simps
        less_SucI split: option.splits if_splits)
qed

lemma requests_ok_retain:
  assumes "requests_ok am"
  shows "requests_ok (am\<lparr>am_pending_requests := tretain P (am_pending_requests am)\<rparr>)"
  using assms unfolding requests_ok_def
  by (simp add: table_simps split: option.splits if_splits)

lemma requests_ok_del:
  assumes "requests_ok am"
  shows "requests_ok (am\<lparr>am_pending_requests := tdel k (am_pending_requests am)\<rparr>)"
  using assms unfolding requests_ok_def
  by (simp add: table_simps)

lemma requests_ok_cong:
  "am_pending_requests am' = am_pending_requests am \<Longrightarrow> am_replies am' = am_replies am \<Longrightarrow>
   am_next_channel am' = am_next_channel am \<Longrightarrow> requests_ok am' = requests_ok am"
  by (simp add: requests_ok_def)

lemma requests_ok_finish:
  "requests_ok am \<Longrightarrow> requests_ok (finish_connection_removal s am)"
  using requests_ok_retain [of am "\<lambda>_ p. pr_server_id p \<noteq> s"]
  by (simp add: requests_ok_def)

lemma requests_ok_register:
  "requests_ok am \<Longrightarrow> requests_ok (snd (register_pending_request_with_ttl s k ttl now am))"
  unfolding requests_ok_def request_defs Let_def
  by (auto simp: table_simps less_SucI split: if_splits) (metis less_irrefl)+

lemma requests_ok_dispatch:
  "requests_ok am \<Longrightarrow> requests_ok (snd (dispatch_pending_response s k m am))"
  unfolding requests_ok_def request_defs
  by (simp add: table_simps split: option.splits if_splits) blast

lemma requests_ok_step: "requests_ok am \<Longrightarrow> requests_ok (am_step am op)"
proof (cases "is_core_op op")
  case False
  moreover assume "requests_ok am"
  ultimately show ?thesis
    using core_of_mirror_op [of op am] by (simp add: core_of_def requests_ok_def)
next
  case True
  assume ok: "requests_ok am"
  then have conns: "requests_ok (am\<lparr>am_connections := c\<rparr>)" for c
    by (simp add: requests_ok_def)
  from True ok show ?thesis
  proof (cases op)
    case (RegisterRequest s k ttl now)
    with ok show ?thesis by (simp add: requests_ok_register)
  next
    case (DispatchReply s k m)
    with ok show ?thesis by (simp add: requests_ok_dispatch)
  next
    case (CancelRequest k)
    with ok show ?thesis by (simp add: cancel_pending_request_def requests_ok_del)
  next
    case (SweepRequests now)
    with ok show ?thesis by (simp add: cleanup_expired_requests_def requests_ok_retain)
  next
    case (Disconnect s)
    with ok conns show ?thesis by (simp add: remove_connection_def requests_ok_finish)
  next
    case (DisconnectIfCurrent s i)
    with ok conns show ?thesis by (simp add: remove_connection_if_current_def requests_ok_finish)
  qed (auto simp: connection_defs Let_def requests_ok_def)
qed

lemma terminals_ok_step:
  "table_ok (am_terminal_sessions am) \<Longrightarrow> table_ok (am_terminal_sessions (am_step am op))"
  by (cases op)
    (auto simp: connection_defs request_defs mirror_defs Let_def split: option.splits if_splits)

lemma am_ok_step: "am_ok am \<Longrightarrow> am_ok (am_step am op)"
  by (simp add: am_ok_def connections_ok_step requests_ok_step terminals_ok_step)

lemma am_ok_run: "am_ok am \<Longrightarrow> am_ok (am_run am ops)"
  by (induction ops arbitrary: am) (auto simp: am_ok_step)

section \<open>Generations\<close>

lemma issued_step: "am_next_connection_id am \<le> am_next_connection_id (am_step am op)"
proof (cases "is_core_op op")
  case False
  then show ?thesis using core_of_mirror_op [of op am] by (simp add: core_of_def)
next
  case True
  then show ?thesis
    by (cases op) (auto simp: connection_defs request_defs Let_def split: option.split)
qed

lemma dead_step:
  assumes "cid < am_next_connection_id am" and "\<not> is_current_connection s cid am"
  shows "\<not> is_current_connection s cid (am_step am op)"
proof (cases "is_core_op op")
  case False
  with assms show ?thesis
    using core_of_mirror_op [of op am] by (simp add: core_of_def is_current_connection_def)
next
  case True
  with assms show ?thesis
    by (cases op)
      (auto simp: is_current_connection_def connection_defs request_defs Let_def table_simps
        split: option.splits if_splits)
qed

lemma current_issued:
  "am_ok am \<Longrightarrow> is_current_connection s cid am \<Longrightarrow> cid < am_next_connection_id am"
  by (auto simp: am_ok_def connections_ok_def is_current_connection_def split: option.splits)

lemma remove_offline: "\<not> is_online s (remove_connection s am)"
  by (simp add: is_online_def remove_connection_def thas_def table_simps)

lemma current_online: "is_current_connection s cid am \<Longrightarrow> is_online s am"
  by (auto simp: is_current_connection_def is_online_def thas_def split: option.splits)

text \<open>
  The contract: generation numbers are issued once, a generation that is not current never
  becomes current again, and dropping a server's connection leaves it without one.
\<close>

locale agent_registry =
  fixes ok :: "'m \<Rightarrow> bool"
    and step :: "'m \<Rightarrow> 'o \<Rightarrow> 'm"
    and issued :: "nat \<Rightarrow> 'm \<Rightarrow> bool"
    and current :: "'s \<Rightarrow> nat \<Rightarrow> 'm \<Rightarrow> bool"
    and drop_conn :: "'s \<Rightarrow> 'm \<Rightarrow> 'm"
  assumes ok_step: "ok m \<Longrightarrow> ok (step m oper)"
    and ok_drop: "ok m \<Longrightarrow> ok (drop_conn s m)"
    and issued_mono: "issued i m \<Longrightarrow> issued i (step m oper)"
    and issued_drop: "issued i m \<Longrightarrow> issued i (drop_conn s m)"
    and issued_current: "ok m \<Longrightarrow> current s i m \<Longrightarrow> issued i m"
    and dead: "issued i m \<Longrightarrow> \<not> current s i m \<Longrightarrow> \<not> current s i (step m oper)"
    and drop_current: "\<not> current s i (drop_conn s m)"
    and drop_other: "s' \<noteq> s \<Longrightarrow> current s' i (drop_conn s m) = current s' i m"
begin

primrec run_reg :: "'m \<Rightarrow> 'o list \<Rightarrow> 'm" where
  "run_reg m [] = m"
| "run_reg m (oper # opers) = run_reg (step m oper) opers"

lemma ok_run: "ok m \<Longrightarrow> ok (run_reg m opers)"
  by (induction opers arbitrary: m) (auto intro: ok_step)

lemma dead_run: "issued i m \<Longrightarrow> \<not> current s i m \<Longrightarrow> \<not> current s i (run_reg m opers)"
  by (induction opers arbitrary: m) (auto dest: dead intro: issued_mono)

text \<open>After the server's connection is dropped, no generation issued before is current again.\<close>

lemma fenced: "issued i m \<Longrightarrow> \<not> current s i (run_reg (drop_conn s m) opers)"
  by (rule dead_run) (auto intro: issued_drop simp: drop_current)

lemma fenced_current:
  "ok m \<Longrightarrow> current s i m \<Longrightarrow> \<not> current s i (run_reg (drop_conn s m) opers)"
  by (rule fenced) (rule issued_current)

end

interpretation reg: agent_registry am_ok am_step "\<lambda>i m. i < am_next_connection_id m"
  is_current_connection remove_connection
proof unfold_locales
  fix m :: agent_manager and s i and op :: am_op
  show "am_ok m \<Longrightarrow> am_ok (am_step m op)" by (rule am_ok_step)
  show "am_ok m \<Longrightarrow> am_ok (remove_connection s m)" using am_ok_step [of m "Disconnect s"] by simp
  show "i < am_next_connection_id m \<Longrightarrow> i < am_next_connection_id (am_step m op)"
    using issued_step [of m op] by simp
  show "i < am_next_connection_id m \<Longrightarrow> i < am_next_connection_id (remove_connection s m)"
    using issued_step [of m "Disconnect s"] by simp
  show "am_ok m \<Longrightarrow> is_current_connection s i m \<Longrightarrow> i < am_next_connection_id m"
    by (rule current_issued)
  show "i < am_next_connection_id m \<Longrightarrow> \<not> is_current_connection s i m \<Longrightarrow>
      \<not> is_current_connection s i (am_step m op)" by (rule dead_step)
  show "\<not> is_current_connection s i (remove_connection s m)"
    using remove_offline current_online by blast
next
  fix s' s :: string and i and m :: agent_manager
  assume "s' \<noteq> s"
  then show "is_current_connection s' i (remove_connection s m) = is_current_connection s' i m"
    by (simp add: is_current_connection_def remove_connection_def table_simps)
qed

lemma run_reg_am_run: "reg.run_reg = am_run"
proof (intro ext)
  fix m ops show "reg.run_reg m ops = am_run m ops" by (induction ops arbitrary: m) auto
qed

lemmas fenced_am_run = reg.fenced [unfolded run_reg_am_run]
lemmas dead_am_run = reg.dead_run [unfolded run_reg_am_run]

text \<open>
  Claim C29: a stale connection handle is powerless for good.  Once a connection generation was
  issued and is not the server's current one (it was replaced by a reconnect or removed), it is
  never current again whatever the registry does, and the conditional removal its handler
  performs on exit changes nothing: it cannot take down the connection that replaced it.
\<close>

theorem stale_handle_powerless:
  assumes "cid < am_next_connection_id am" and "\<not> is_current_connection s cid am"
  shows "\<not> is_current_connection s cid (am_run am ops) \<and>
    remove_connection_if_current s cid (am_run am ops) = (False, am_run am ops)"
proof -
  have "\<not> is_current_connection s cid (am_run am ops)"
    using assms by (rule dead_am_run)
  then show ?thesis
    by (simp add: remove_connection_if_current_def is_current_connection_def)
qed

theorem stale_handle_powerless_witness:
  "\<not> is_current_connection ''s'' 1
     (am_run new_manager [Connect ''s'' ''n'' 0 ''a'' 0, Connect ''s'' ''n'' 1 ''a'' 5, Disconnect ''s''])"
proof -
  let ?am = "am_run new_manager [Connect ''s'' ''n'' 0 ''a'' 0, Connect ''s'' ''n'' 1 ''a'' 5]"
  have "1 < am_next_connection_id ?am" by code_simp
  moreover have "\<not> is_current_connection ''s'' 1 ?am" by code_simp
  ultimately have "\<not> is_current_connection ''s'' 1 (am_run ?am [Disconnect ''s''])"
    by (rule stale_handle_powerless [THEN conjunct1])
  then show ?thesis by simp
qed

section \<open>What browsers see\<close>

fun presence_change :: "string \<Rightarrow> bool \<Rightarrow> browser_message \<Rightarrow> bool" where
  "presence_change s b (ServerOnline t) = (if t = s then True else b)"
| "presence_change s b (ServerOffline t) = (if t = s then False else b)"
| "presence_change s b _ = b"

text \<open>A browser's idea of whether \<open>s\<close> is online, from the messages it received.\<close>

definition presence :: "string \<Rightarrow> browser_message list \<Rightarrow> bool" where
  "presence s msgs = foldl (presence_change s) False msgs"

lemma presence_snoc [simp]: "presence s (msgs @ [m]) = presence_change s (presence s msgs) m"
  by (simp add: presence_def)

lemma presence_step:
  assumes "presence s (am_browser_tx am) = is_online s am"
  shows "presence s (am_browser_tx (am_step am op)) = is_online s (am_step am op)"
  using assms
  by (cases op)
    (auto simp: is_online_def thas_def connection_defs request_defs mirror_defs Let_def table_simps
      split: option.splits if_splits)

lemma presence_run:
  "presence s (am_browser_tx am) = is_online s am \<Longrightarrow>
   presence s (am_browser_tx (am_run am ops)) = is_online s (am_run am ops)"
  by (induction ops arbitrary: am) (simp_all add: presence_step)

text \<open>
  The online/offline messages sent to browsers are exact.  After any sequence of
  operations from a fresh registry, the last presence message broadcast for a server says online
  exactly when the server has a connection; reconnects that replace a live connection, stale
  removals and removals of absent servers included.
\<close>

lemma presence_matches_connections:
  "presence s (am_browser_tx (am_run new_manager ops)) = is_online s (am_run new_manager ops)"
  by (rule presence_run) (simp add: presence_def is_online_def thas_def new_manager_def)

section \<open>Replies\<close>

lemma waiter_state_slot:
  assumes "requests_ok am" and "tget (am_pending_requests am) k = Some p"
  shows "waiter_state (pr_tx p) am = Waiting"
proof -
  have "(k, p) \<in> set (am_pending_requests am)" using assms(2) by (rule tget_SomeD)
  then have "list_ex (\<lambda>(k, q). pr_tx q = pr_tx p) (am_pending_requests am)"
    by (auto simp: list_ex_iff)
  with assms show ?thesis by (simp add: waiter_state_def requests_ok_def)
qed

lemma waiter_state_no_slot:
  assumes "requests_ok am" and "\<And>k p. tget (am_pending_requests am) k = Some p \<Longrightarrow> pr_tx p \<noteq> rx"
    and "tget (am_replies am) rx = None"
  shows "waiter_state rx am = SenderDropped"
proof -
  have "table_ok (am_pending_requests am)" using assms(1) by (simp add: requests_ok_def)
  then have "\<not> list_ex (\<lambda>(k, q). pr_tx q = rx) (am_pending_requests am)"
    using assms(2) by (fastforce simp: list_ex_iff tget_in_set)
  with assms(3) show ?thesis by (simp add: waiter_state_def)
qed

text \<open>The life of one receiver: its slot has one key and one owner until a reply arrives.\<close>

definition slot_of :: "channel \<Rightarrow> string \<Rightarrow> string \<Rightarrow> agent_manager \<Rightarrow> bool" where
  "slot_of rx s k am \<longleftrightarrow>
     requests_ok am \<and> rx < am_next_channel am \<and>
     (\<forall>k' p. tget (am_pending_requests am) k' = Some p \<longrightarrow> pr_tx p = rx \<longrightarrow>
        k' = k \<and> pr_server_id p = s)"

lemma slot_of_step:
  assumes "slot_of rx s k am"
  shows "slot_of rx s k (am_step am op)"
proof (cases "is_core_op op")
  case False
  with assms show ?thesis
    using core_of_mirror_op [of op am] by (simp add: slot_of_def core_of_def requests_ok_def)
next
  case True
  have ok: "requests_ok (am_step am op)"
    using assms by (simp add: slot_of_def requests_ok_step)
  have tab: "table_ok (am_pending_requests am)" and less: "rx < am_next_channel am"
    and slot: "\<And>k' p. tget (am_pending_requests am) k' = Some p \<Longrightarrow> pr_tx p = rx \<Longrightarrow>
        k' = k \<and> pr_server_id p = s"
    using assms by (auto simp: slot_of_def requests_ok_def)
  have "rx < am_next_channel (am_step am op)"
    using True less by (cases op) (auto simp: connection_defs request_defs Let_def split: option.split)
  moreover have "k' = k \<and> pr_server_id p = s"
    if "tget (am_pending_requests (am_step am op)) k' = Some p" "pr_tx p = rx" for k' p
    using True that less slot [of k' p] tab
    by (cases op)
      (auto simp: connection_defs request_defs Let_def table_simps split: option.splits if_splits)
  ultimately show ?thesis using ok by (auto simp: slot_of_def)
qed

lemma reply_step:
  assumes "slot_of rx s k am"
  shows "tget (am_replies (am_step am op)) rx = tget (am_replies am) rx \<or>
    tget (am_replies am) rx = None \<and>
    (\<exists>m. op = DispatchReply s k m \<and> tget (am_replies (am_step am op)) rx = Some m)"
proof (cases "is_core_op op")
  case False
  then show ?thesis using core_of_mirror_op [of op am] by (simp add: core_of_def)
next
  case True
  have slot: "\<And>k' p. tget (am_pending_requests am) k' = Some p \<Longrightarrow> pr_tx p = rx \<Longrightarrow>
        k' = k \<and> pr_server_id p = s \<and> tget (am_replies am) rx = None"
    using assms by (auto simp: slot_of_def requests_ok_def)
  from True show ?thesis
  proof (cases op)
    case (DispatchReply s' k' m)
    with slot [of k'] show ?thesis
      by (auto simp: request_defs table_simps split: option.split)
  qed (auto simp: connection_defs request_defs Let_def)
qed

lemma reply_final:
  assumes "slot_of rx s k am" and "tget (am_replies am) rx = Some m"
  shows "tget (am_replies (am_run am ops)) rx = Some m"
  using assms
proof (induction ops arbitrary: am)
  case Nil
  then show ?case by simp
next
  case (Cons op ops)
  have "slot_of rx s k (am_step am op)" by (rule slot_of_step) (rule Cons.prems)
  moreover have "tget (am_replies (am_step am op)) rx = Some m"
    using reply_step [OF Cons.prems(1), of op] Cons.prems(2) by auto
  ultimately show ?case using Cons.IH by simp
qed

lemma reply_run:
  assumes "slot_of rx s k am" and "tget (am_replies (am_run am ops)) rx = Some m"
    and "tget (am_replies am) rx = None"
  shows "DispatchReply s k m \<in> set ops"
  using assms
proof (induction ops arbitrary: am)
  case Nil
  then show ?case by simp
next
  case (Cons op ops)
  have slot: "slot_of rx s k (am_step am op)" by (rule slot_of_step) (rule Cons.prems)
  from reply_step [OF Cons.prems(1), of op] Cons.prems(3) consider
      "tget (am_replies (am_step am op)) rx = None"
    | m' where "op = DispatchReply s k m'" "tget (am_replies (am_step am op)) rx = Some m'"
    by auto
  then show ?case
  proof cases
    case 1
    with Cons.IH [OF slot] Cons.prems(2) show ?thesis by simp
  next
    case (2 m')
    with reply_final [OF slot 2(2), of ops] Cons.prems(2) show ?thesis by simp
  qed
qed

lemma slot_of_register:
  assumes "requests_ok am" and "register_pending_request_with_ttl s k ttl now am = (rx, am')"
  shows "slot_of rx s k am' \<and> tget (am_replies am') rx = None"
proof -
  have "requests_ok am'" using requests_ok_register [OF assms(1), of s k ttl now] assms(2) by simp
  moreover have "pr_tx p \<noteq> am_next_channel am" if "tget (am_pending_requests am) k' = Some p" for k' p
    using assms(1) that unfolding requests_ok_def by (metis less_irrefl)
  moreover have "tget (am_replies am) (am_next_channel am) = None"
    using assms(1) unfolding requests_ok_def by (metis less_irrefl not_None_eq)
  ultimately show ?thesis using assms(2)
    by (auto simp: slot_of_def register_pending_request_with_ttl_def Let_def table_simps
        split: if_splits)
qed

text \<open>
  Claim C24: a waiter only ever receives its own agent's reply.  Whatever happens after a request
  was registered for a server (other requests reusing the correlation id, replies by other
  agents naming it, sweeps, disconnects), a message the waiter receives was dispatched by an
  agent of that very server, under the request's own correlation id.
\<close>

theorem reply_authentic:
  assumes "am_ok am" and "register_pending_request_with_ttl s k ttl now am = (rx, am')"
    and "waiter_state rx (am_run am' ops) = Received m"
  shows "DispatchReply s k m \<in> set ops"
proof -
  from assms(1) have "requests_ok am" by (simp add: am_ok_def)
  from slot_of_register [OF this assms(2)]
  have slot: "slot_of rx s k am'" and none: "tget (am_replies am') rx = None" by auto
  from assms(3) have "tget (am_replies (am_run am' ops)) rx = Some m"
    by (simp add: waiter_state_def split: option.splits if_splits)
  then show ?thesis by (rule reply_run [OF slot]) (simp add: none)
qed

theorem reply_authentic_witness:
  "let (rx, am) = register_pending_request_with_ttl ''a'' ''q'' 5 0 new_manager;
       ops = [DispatchReply ''b'' ''q'' ''forged'', DispatchReply ''a'' ''q'' ''real'']
   in waiter_state rx (am_run am ops) = Received ''real'' \<and> DispatchReply ''a'' ''q'' ''real'' \<in> set ops"
proof -
  let ?ops = "[DispatchReply ''b'' ''q'' ''forged'', DispatchReply ''a'' ''q'' ''real'']"
  obtain rx am where r: "register_pending_request_with_ttl ''a'' ''q'' 5 0 new_manager = (rx, am)"
    by fastforce
  have "(case register_pending_request_with_ttl ''a'' ''q'' 5 0 new_manager of
      (rx, am) \<Rightarrow> waiter_state rx (am_run am ?ops)) = Received ''real''"
    by code_simp
  with r have w: "waiter_state rx (am_run am ?ops) = Received ''real''" by simp
  from reply_authentic [OF am_ok_new r w] r w show ?thesis by simp
qed

section \<open>Disconnection\<close>

lemma waiter_after_disconnect:
  assumes ok: "am_ok am" and on: "is_online s am"
    and slot: "tget (am_pending_requests am) k = Some p"
  shows "waiter_state (pr_tx p) (remove_connection s am) =
    (if pr_server_id p = s then SenderDropped else Waiting)"
proof -
  let ?am' = "remove_connection s am"
  have req: "requests_ok am" and tab: "table_ok (am_pending_requests am)"
    using ok by (auto simp: am_ok_def requests_ok_def)
  have req': "requests_ok ?am'" using requests_ok_step [OF req, of "Disconnect s"] by simp
  have pend: "am_pending_requests ?am' = tretain (\<lambda>_ p. pr_server_id p \<noteq> s) (am_pending_requests am)"
    and repl: "am_replies ?am' = am_replies am"
    using on by (auto simp: remove_connection_def is_online_def)
  show ?thesis
  proof (cases "pr_server_id p = s")
    case True
    have "waiter_state (pr_tx p) ?am' = SenderDropped"
    proof (rule waiter_state_no_slot [OF req'])
      show "tget (am_replies ?am') (pr_tx p) = None"
        using req slot by (auto simp: repl requests_ok_def)
      fix k' q assume "tget (am_pending_requests ?am') k' = Some q"
      then have q: "tget (am_pending_requests am) k' = Some q" "pr_server_id q \<noteq> s"
        using tab by (auto simp: pend table_simps split: option.splits if_splits)
      show "pr_tx q \<noteq> pr_tx p"
      proof
        assume "pr_tx q = pr_tx p"
        then have "k' = k" using req q(1) slot by (auto simp: requests_ok_def)
        with q slot True show False by simp
      qed
    qed
    with True show ?thesis by simp
  next
    case False
    with slot tab have "tget (am_pending_requests ?am') k = Some p"
      by (simp add: pend table_simps)
    with waiter_state_slot [OF req'] False show ?thesis by simp
  qed
qed

text \<open>
  Losing an agent fails its waiters at once and nobody else's.  When a connected
  server is removed, every pending request of that server observes a dropped sender, every
  other pending request keeps waiting, and no live mirror of the server (capabilities, grants,
  docker data, terminal and log routes) survives, while other servers' terminals, the cached
  last report and the feature list are untouched.
\<close>

lemma disconnect_clears_server:
  assumes "am_ok am" and "is_online s am"
  shows "(\<forall>k p. tget (am_pending_requests am) k = Some p \<longrightarrow>
            waiter_state (pr_tx p) (remove_connection s am) =
              (if pr_server_id p = s then SenderDropped else Waiting)) \<and>
    \<not> is_online s (remove_connection s am) \<and>
    get_effective_capabilities s (remove_connection s am) = None \<and>
    get_temporary_grants s (remove_connection s am) = [] \<and>
    get_docker_containers s (remove_connection s am) = None \<and>
    get_docker_stats s (remove_connection s am) = None \<and>
    get_docker_info s (remove_connection s am) = None \<and>
    (\<forall>i. get_docker_log_session s i (remove_connection s am) = None) \<and>
    (\<forall>s' i. get_terminal_session s' i (remove_connection s am) =
            (if s' = s then None else get_terminal_session s' i am)) \<and>
    get_latest_report s (remove_connection s am) = get_latest_report s am \<and>
    get_features s (remove_connection s am) = get_features s am"
proof (intro conjI)
  show "\<forall>k p. tget (am_pending_requests am) k = Some p \<longrightarrow>
      waiter_state (pr_tx p) (remove_connection s am) =
        (if pr_server_id p = s then SenderDropped else Waiting)"
    using waiter_after_disconnect [OF assms] by blast
  show "\<not> is_online s (remove_connection s am)" by (rule remove_offline)
qed (use assms in \<open>auto simp: remove_connection_def is_online_def get_effective_capabilities_def
      get_agent_local_capabilities_def get_temporary_grants_def get_docker_containers_def
      get_docker_stats_def get_docker_info_def get_docker_log_session_def get_terminal_session_def
      get_latest_report_def get_features_def table_simps am_ok_def split: option.split\<close>)

lemma disconnect_clears_server_witness:
  "waiter_state 0 (remove_connection ''a'' (am_run new_manager
      [Connect ''a'' ''n'' 7 ''addr'' 0, RegisterRequest ''a'' ''q'' 5 0, RegisterRequest ''b'' ''r'' 5 0]))
     = SenderDropped"
proof -
  let ?am = "am_run new_manager
    [Connect ''a'' ''n'' 7 ''addr'' 0, RegisterRequest ''a'' ''q'' 5 0, RegisterRequest ''b'' ''r'' 5 0]"
  let ?p = "\<lparr>pr_tx = 0, pr_server_id = ''a'', pr_created_at = 0, pr_ttl = 5\<rparr>"
  have ok: "am_ok ?am" by (rule am_ok_run [OF am_ok_new])
  have on: "is_online ''a'' ?am" by code_simp
  have "tget (am_pending_requests ?am) ''q'' = Some ?p" by code_simp
  with disconnect_clears_server [OF ok on, THEN conjunct1] show ?thesis by fastforce
qed

section \<open>Request deadlines\<close>

text \<open>
  A request's slot outlives its deadline by ten seconds, so the sweep cannot end a request that
  is still within its own timeout.
\<close>

lemma sweep_spares_live_requests:
  assumes ok: "requests_ok am" and begun: "request_begin s k timeout t0 am = (Inr (tx, rx), am')"
    and "t0 \<le> now" and "now \<le> t0 + timeout"
  shows "waiter_state rx (cleanup_expired_requests now am') = Waiting"
proof -
  let ?p = "\<lparr>pr_tx = rx, pr_server_id = s, pr_created_at = t0, pr_ttl = timeout + seconds 10\<rparr>"
  from begun have reg:
    "register_pending_request_with_ttl s k (timeout + seconds 10) t0 am = (rx, am')"
    by (auto simp: request_begin_def split: option.splits prod.splits)
  then have slot: "tget (am_pending_requests am') k = Some ?p"
    by (auto simp: register_pending_request_with_ttl_def Let_def table_simps)
  have ok': "requests_ok am'" using requests_ok_register [OF ok] reg by (metis snd_conv)
  have "requests_ok (cleanup_expired_requests now am')"
    unfolding cleanup_expired_requests_def by (rule requests_ok_retain [OF ok'])
  moreover have "tget (am_pending_requests (cleanup_expired_requests now am')) k = Some ?p"
    using slot ok' assms(3,4)
    by (simp add: cleanup_expired_requests_def table_simps requests_ok_def duration_since_def)
  ultimately show ?thesis using waiter_state_slot by fastforce
qed

end
