(* ===== verification/Authority_Types.thy ===== *)
theory Authority_Types
  imports Agent_Registry
begin

text \<open>
  The values of the enrolment protocol (\<open>crates/server/src/service/agent_authority/model.rs\<close>):
  validated identifiers and secrets, actors, offer outcomes, transitions and the inputs,
  results and errors of every operation.
\<close>

section \<open>Validated values\<close>

definition parse_identifier :: "string \<Rightarrow> string \<Rightarrow> string + string" where
  "parse_identifier label value =
     (if is_blank value then Inl (label @ '' must not be empty'') else Inr value)"

definition parse_server_id :: "string \<Rightarrow> string + string" where
  "parse_server_id = parse_identifier ''server id''"

definition parse_offer_id :: "string \<Rightarrow> string + string" where
  "parse_offer_id = parse_identifier ''offer id''"

definition parse_enrollment_code :: "string \<Rightarrow> string + string" where
  "parse_enrollment_code value =
     (if length value < 16 \<or> 512 < length value \<or> \<not> is_ascii value
      then Inl ''enrollment code must be 16-512 ASCII characters'' else Inr value)"

definition parse_proposed_run_token :: "string \<Rightarrow> string + string" where
  "parse_proposed_run_token value =
     (if length value < 32 \<or> 512 < length value \<or> \<not> is_ascii value \<or>
         list_ex is_ascii_whitespace value
      then Inl ''proposed run token must be 32-512 non-whitespace ASCII characters''
      else Inr value)"

definition parse_presented_run_token :: "string \<Rightarrow> string + string" where
  "parse_presented_run_token value =
     (if length value < 8 \<or> 512 < length value \<or> \<not> is_ascii value
      then Inl ''presented run token must be 8-512 ASCII characters'' else Inr value)"

text \<open>Both bounds are byte counts, as \<open>String::len\<close>.\<close>

definition parse_request_source :: "string \<Rightarrow> string + string" where
  "parse_request_source value =
     (if is_blank value \<or> 256 < length value
      then Inl ''request source must be 1-256 characters'' else Inr value)"

definition DEFAULT_OFFER_TTL :: int where "DEFAULT_OFFER_TTL = 600"

definition offer_ttl_seconds :: "int \<Rightarrow> string + int" where
  "offer_ttl_seconds value =
     (if \<not> (1 \<le> value \<and> value \<le> 86400)
      then Inl ''offer ttl must be between 1 and 86400 seconds'' else Inr value)"

section \<open>Actors\<close>

datatype actor = User string | System | Agent

datatype actor_kind = KindUser | KindSystem | KindAgent

fun actor_kind_str :: "actor_kind \<Rightarrow> string" where
  "actor_kind_str KindUser = ''user''"
| "actor_kind_str KindSystem = ''system''"
| "actor_kind_str KindAgent = ''agent''"

definition parse_actor_kind :: "string \<Rightarrow> actor_kind option" where
  "parse_actor_kind value =
     (if value = ''user'' then Some KindUser
      else if value = ''system'' then Some KindSystem
      else if value = ''agent'' then Some KindAgent
      else None)"

fun kind_of_actor :: "actor \<Rightarrow> actor_kind" where
  "kind_of_actor (User _) = KindUser"
| "kind_of_actor System = KindSystem"
| "kind_of_actor Agent = KindAgent"

fun actor_id :: "actor \<Rightarrow> string option" where
  "actor_id (User i) = Some i"
| "actor_id System = None"
| "actor_id Agent = None"

definition offer_creator :: "actor \<Rightarrow> string" where
  "offer_creator a = (case actor_id a of Some i \<Rightarrow> i | None \<Rightarrow> actor_kind_str (kind_of_actor a))"

section \<open>Stored enumerations\<close>

fun authority_status_str :: "authority_status \<Rightarrow> string" where
  "authority_status_str Claimed = ''claimed''"
| "authority_status_str Unclaimed = ''unclaimed''"

datatype offer_outcome = Consumed | RevokedOffer | Replaced | ExpiredOffer

fun outcome_str :: "offer_outcome \<Rightarrow> string" where
  "outcome_str Consumed = ''consumed''"
| "outcome_str RevokedOffer = ''revoked''"
| "outcome_str Replaced = ''replaced''"
| "outcome_str ExpiredOffer = ''expired''"

definition outcome_of_str :: "string \<Rightarrow> offer_outcome option" where
  "outcome_of_str value =
     (if value = ''consumed'' then Some Consumed
      else if value = ''revoked'' then Some RevokedOffer
      else if value = ''replaced'' then Some Replaced
      else if value = ''expired'' then Some ExpiredOffer
      else None)"

datatype reenrollment_mode = Graceful | Emergency

fun mode_str :: "reenrollment_mode \<Rightarrow> string" where
  "mode_str Graceful = ''graceful''"
| "mode_str Emergency = ''emergency''"

definition parse_mode :: "string \<Rightarrow> reenrollment_mode option" where
  "parse_mode value =
     (if value = ''graceful'' then Some Graceful
      else if value = ''emergency'' then Some Emergency
      else None)"

datatype authority_transition =
  InitialOfferIssued | OfferIssued | ReenrollmentStarted | OfferConsumed | OfferRevoked
| OfferReplaced | OfferExpired | AuthorityRevoked | ServerDeleted

fun transition_str :: "authority_transition \<Rightarrow> string" where
  "transition_str InitialOfferIssued = ''initial_offer_issued''"
| "transition_str OfferIssued = ''offer_issued''"
| "transition_str ReenrollmentStarted = ''reenrollment_started''"
| "transition_str OfferConsumed = ''offer_consumed''"
| "transition_str OfferRevoked = ''offer_revoked''"
| "transition_str OfferReplaced = ''offer_replaced''"
| "transition_str OfferExpired = ''offer_expired''"
| "transition_str AuthorityRevoked = ''authority_revoked''"
| "transition_str ServerDeleted = ''server_deleted''"

definition parse_transition :: "string \<Rightarrow> authority_transition option" where
  "parse_transition value =
     (if value = ''initial_offer_issued'' then Some InitialOfferIssued
      else if value = ''offer_issued'' then Some OfferIssued
      else if value = ''reenrollment_started'' then Some ReenrollmentStarted
      else if value = ''offer_consumed'' then Some OfferConsumed
      else if value = ''offer_revoked'' then Some OfferRevoked
      else if value = ''offer_replaced'' then Some OfferReplaced
      else if value = ''offer_expired'' then Some OfferExpired
      else if value = ''authority_revoked'' then Some AuthorityRevoked
      else if value = ''server_deleted'' then Some ServerDeleted
      else None)"

lemma stored_enum_roundtrips [simp]:
  "parse_actor_kind (actor_kind_str ak) = Some ak"
  "outcome_of_str (outcome_str oc) = Some oc"
  "parse_mode (mode_str md) = Some md"
  "parse_transition (transition_str tr) = Some tr"
proof -
  show "parse_actor_kind (actor_kind_str ak) = Some ak"
    by (cases ak) (simp_all add: parse_actor_kind_def)
  show "outcome_of_str (outcome_str oc) = Some oc"
    by (cases oc) (simp_all add: outcome_of_str_def)
  show "parse_mode (mode_str md) = Some md" by (cases md) (simp_all add: parse_mode_def)
  show "parse_transition (transition_str tr) = Some tr"
    by (cases tr) (simp_all add: parse_transition_def)
qed

section \<open>Inputs and results\<close>

record outstanding_offer =
  oo_id :: string
  oo_code_prefix :: string
  oo_expires_at :: datetime
  oo_created_at :: datetime

record issued_offer =
  io_id :: string
  io_code :: string
  io_code_prefix :: string
  io_expires_at :: datetime
  io_created_at :: datetime

record claim_agent =
  cl_code :: string
  cl_proposed_run_token :: string
  cl_source :: string
  cl_remote_addr :: "string option"

text \<open>The inputs of the operator's commands; the fields a command lacks are arguments of it.\<close>

record operator_request =
  rq_server_id :: string
  rq_actor :: actor
  rq_source :: string

record admitted_connection =
  ad_server_id :: string
  ad_server_name :: string
  ad_server_capabilities :: int
  ad_connection_id :: nat

text \<open>Every error type has a \<open>Store\<close> variant besides its own.\<close>

datatype 'e failure = Store app_error | Err 'e

datatype claim_error = ClaimRejected
datatype issue_error = IssueNotFound | AlreadyClaimed | IssueOutstandingExists outstanding_offer
datatype reenroll_error =
  ReenrollNotFound | ReenrollUnclaimed | ReenrollOutstandingExists outstanding_offer
datatype replace_error =
  ReplaceServerNotFound | ReplaceOfferNotFound
| NotOutstanding offer_outcome "outstanding_offer option"
| Stale "outstanding_offer option"
datatype revoke_offer_error = RevokeServerNotFound | RevokeOfferNotFound | Terminal offer_outcome
datatype revoke_authority_error = RevokeNotFound
datatype admission_error = AdmissionRejected
datatype state_error = StateNotFound

end
