(* ===== verification/Agent_Authority.thy ===== *)
theory Agent_Authority
  imports Authority_Types
begin

text \<open>
  The enrolment authority of the server (\<open>crates/server/src/service/agent_authority/mod.rs\<close>) on
  the tables of \<open>migration/m20260713_000075_*.rs\<close>: issuing, claiming, replacing and revoking
  enrolment offers, re-enrolment, revocation of an agent's authority, deletion, and the
  two-stage admission of a connection.

  A computation reads and updates a world: the committed database, the database seen by the open
  transaction, the agent registry, and a schedule of faults.  Every statement consumes one entry
  of the schedule and fails where it says so (the empty schedule has no faults); a statement also
  fails where a constraint of the schema would be violated.  Only a commit copies the
  transaction's database into the committed one, so an early return discards the changes but
  keeps what happened to the registry.  The writer holds SQLite's write reservation and the
  server's lifecycle lock, so an operation is one step, except that \<open>claim\<close> and the admission
  look up their row in a step of their own, before they take the lock.

  Parameters: password hashing and verification (argon2), the fingerprint of a hash, and for each
  call the clock at each program point, generated ids, the generated code and the salt.
\<close>

section \<open>Tables\<close>

record server_row =
  sv_id :: string
  sv_name :: string
  sv_token_hash :: "string option"
  sv_token_prefix :: "string option"
  sv_capabilities :: int
  sv_last_remote_addr :: "string option"
  sv_updated_at :: datetime

record offer_row =
  eo_id :: string
  eo_code_hash :: string
  eo_code_prefix :: string
  eo_target_server_id :: string
  eo_created_by :: string
  eo_expires_at :: datetime
  eo_outcome :: "string option"
  eo_terminal_at :: "datetime option"
  eo_successor_offer_id :: "string option"
  eo_created_at :: datetime

record event_row =
  ae_id :: string
  ae_server_id :: string
  ae_server_name :: string
  ae_actor_kind :: string
  ae_actor_id :: "string option"
  ae_request_source :: string
  ae_offer_id :: "string option"
  ae_transition :: string
  ae_mode :: "string option"
  ae_offer_outcome :: "string option"
  ae_authority_before :: string
  ae_authority_after :: string
  ae_created_at :: datetime

record db =
  db_servers :: "server_row list"
  db_offers :: "offer_row list"
  db_events :: "event_row list"

text \<open>The CHECK constraints of \<open>enrollment_offers\<close> and the unique index on open offers.\<close>

definition outcome_values :: "string list" where
  "outcome_values = [''consumed'', ''revoked'', ''replaced'', ''expired'']"

definition offer_checks :: "offer_row \<Rightarrow> bool" where
  "offer_checks o1 \<longleftrightarrow>
     (eo_outcome o1 = None \<or> List.member outcome_values (the (eo_outcome o1))) \<and>
     ((eo_outcome o1 = None \<and> eo_terminal_at o1 = None \<and> eo_successor_offer_id o1 = None) \<or>
      (eo_outcome o1 \<noteq> None \<and> eo_terminal_at o1 \<noteq> None)) \<and>
     ((eo_outcome o1 = Some ''replaced'' \<and> eo_successor_offer_id o1 \<noteq> None) \<or>
      eo_outcome o1 = None \<or>
      (eo_outcome o1 \<noteq> Some ''replaced'' \<and> eo_successor_offer_id o1 = None))"

definition open_offers :: "string \<Rightarrow> db \<Rightarrow> offer_row list" where
  "open_offers sid d = filter (\<lambda>o1. eo_target_server_id o1 = sid \<and> eo_outcome o1 = None) (db_offers d)"

definition event_checks :: "event_row \<Rightarrow> bool" where
  "event_checks e \<longleftrightarrow>
     parse_actor_kind (ae_actor_kind e) \<noteq> None \<and>
     parse_transition (ae_transition e) \<noteq> None \<and>
     (ae_mode e = None \<or> parse_mode (the (ae_mode e)) \<noteq> None) \<and>
     List.member [''claimed'', ''unclaimed''] (ae_authority_before e) \<and>
     List.member [''claimed'', ''unclaimed''] (ae_authority_after e) \<and>
     (ae_offer_outcome e = None \<or> List.member outcome_values (the (ae_offer_outcome e)))"

section \<open>Statements\<close>

text \<open>\<open>None\<close>: the statement violates a constraint, or updates a row that is not there.\<close>

definition find_server :: "string \<Rightarrow> db \<Rightarrow> server_row option" where
  "find_server sid d = find (\<lambda>r. sv_id r = sid) (db_servers d)"

definition find_offer :: "string \<Rightarrow> db \<Rightarrow> offer_row option" where
  "find_offer oid d = find (\<lambda>r. eo_id r = oid) (db_offers d)"

definition insert_offer :: "offer_row \<Rightarrow> db \<Rightarrow> db option" where
  "insert_offer row d =
     (if find_offer (eo_id row) d = None \<and> find_server (eo_target_server_id row) d \<noteq> None \<and>
         offer_checks row \<and>
         (eo_outcome row = None \<longrightarrow> open_offers (eo_target_server_id row) d = [])
      then Some (d\<lparr>db_offers := db_offers d @ [row]\<rparr>) else None)"

definition update_offer :: "string \<Rightarrow> (offer_row \<Rightarrow> offer_row) \<Rightarrow> db \<Rightarrow> db option" where
  "update_offer oid f d =
     (case find_offer oid d of
        None \<Rightarrow> None
      | Some row \<Rightarrow>
          if offer_checks (f row)
          then Some (d\<lparr>db_offers := map (\<lambda>r. if eo_id r = oid then f r else r) (db_offers d)\<rparr>)
          else None)"

definition update_server :: "string \<Rightarrow> (server_row \<Rightarrow> server_row) \<Rightarrow> db \<Rightarrow> db option" where
  "update_server sid f d =
     (if find_server sid d = None then None
      else Some (d\<lparr>db_servers := map (\<lambda>r. if sv_id r = sid then f r else r) (db_servers d)\<rparr>))"

definition insert_event_row :: "event_row \<Rightarrow> db \<Rightarrow> db option" where
  "insert_event_row row d =
     (if list_ex (\<lambda>e. ae_id e = ae_id row) (db_events d) \<or> \<not> event_checks row then None
      else Some (d\<lparr>db_events := db_events d @ [row]\<rparr>))"

text \<open>Deleting servers cascades to their offers.\<close>

definition delete_server_rows :: "string list \<Rightarrow> db \<Rightarrow> db" where
  "delete_server_rows ids d =
     d\<lparr>db_servers := filter (\<lambda>r. \<not> List.member ids (sv_id r)) (db_servers d),
       db_offers := filter (\<lambda>r. \<not> List.member ids (eo_target_server_id r)) (db_offers d)\<rparr>"

section \<open>Computations\<close>

record world =
  w_db :: db
  w_tx :: db
  w_mgr :: agent_manager
  w_faults :: "bool list"

type_synonym ('e, 'a) act = "world \<Rightarrow> ('e failure + 'a) \<times> world"

definition ret :: "'a \<Rightarrow> ('e, 'a) act" where
  "ret x w = (Inr x, w)"

definition fail :: "'e failure \<Rightarrow> ('e, 'a) act" where
  "fail e w = (Inl e, w)"

definition andthen :: "('e, 'a) act \<Rightarrow> ('a \<Rightarrow> ('e, 'b) act) \<Rightarrow> ('e, 'b) act" where
  "andthen m f w = (case m w of (Inl e, w') \<Rightarrow> (Inl e, w') | (Inr x, w') \<Rightarrow> f x w')"

definition of_result :: "app_error + 'a \<Rightarrow> ('e, 'a) act" where
  "of_result r = (case r of Inl e \<Rightarrow> fail (Store e) | Inr x \<Rightarrow> ret x)"

text \<open>\<open>From<sea_orm::DbErr> for AppError\<close>.\<close>

definition faulty :: "('e, 'a) act \<Rightarrow> ('e, 'a) act" where
  "faulty m w =
     (case w_faults w of
        [] \<Rightarrow> m w
      | True # fs \<Rightarrow> (Inl (Store db_error), w\<lparr>w_faults := fs\<rparr>)
      | False # fs \<Rightarrow> m (w\<lparr>w_faults := fs\<rparr>))"

definition exec :: "(db \<Rightarrow> db option) \<Rightarrow> ('e, unit) act" where
  "exec f = faulty (\<lambda>w. case f (w_tx w) of
      None \<Rightarrow> (Inl (Store db_error), w)
    | Some d \<Rightarrow> (Inr (), w\<lparr>w_tx := d\<rparr>))"

definition query :: "(db \<Rightarrow> 'a) \<Rightarrow> ('e, 'a) act" where
  "query f = faulty (\<lambda>w. (Inr (f (w_tx w)), w))"

text \<open>A read outside any transaction.\<close>

definition query_db :: "(db \<Rightarrow> 'a) \<Rightarrow> ('e, 'a) act" where
  "query_db f = faulty (\<lambda>w. (Inr (f (w_db w)), w))"

definition begin_write :: "string \<Rightarrow> ('e, unit) act" where
  "begin_write server_id =
     andthen (faulty (\<lambda>w. (Inr (), w\<lparr>w_tx := w_db w\<rparr>))) (\<lambda>_. query (\<lambda>d. ()))"

definition commit :: "('e, unit) act" where
  "commit = faulty (\<lambda>w. (Inr (), w\<lparr>w_db := w_tx w\<rparr>))"

definition registry :: "(agent_manager \<Rightarrow> agent_manager) \<Rightarrow> ('e, unit) act" where
  "registry f w = (Inr (), w\<lparr>w_mgr := f (w_mgr w)\<rparr>)"

text \<open>The inputs one call draws from its surroundings.\<close>

record call_env =
  en_clock :: "nat \<Rightarrow> datetime"
  en_uuid :: "nat \<Rightarrow> string"
  en_plaintext :: string
  en_salt :: string

record crypto =
  cr_hash :: "string \<Rightarrow> string \<Rightarrow> app_error + string"
  cr_verify :: "string \<Rightarrow> string \<Rightarrow> app_error + bool"
  cr_fingerprint :: "string \<Rightarrow> string"

section \<open>Helpers\<close>

definition authority_status :: "server_row \<Rightarrow> authority_status" where
  "authority_status row = (if sv_token_hash row \<noteq> None then Claimed else Unclaimed)"

definition parse_outcome :: "string \<Rightarrow> app_error + offer_outcome" where
  "parse_outcome value =
     (case outcome_of_str value of
        Some oc \<Rightarrow> Inr oc
      | None \<Rightarrow> Inl (Internal (''invalid stored offer outcome: '' @ value)))"

definition to_outstanding :: "offer_row \<Rightarrow> app_error + outstanding_offer" where
  "to_outstanding row =
     (case parse_offer_id (eo_id row) of
        Inl e \<Rightarrow> Inl (Internal (''invalid stored offer id: '' @ e))
      | Inr oid \<Rightarrow> Inr \<lparr>oo_id = oid, oo_code_prefix = eo_code_prefix row,
                      oo_expires_at = eo_expires_at row, oo_created_at = eo_created_at row\<rparr>)"

text \<open>\<open>map(to_outstanding).transpose()\<close>\<close>

definition to_outstanding_opt :: "offer_row option \<Rightarrow> app_error + outstanding_offer option" where
  "to_outstanding_opt row =
     (case row of
        None \<Rightarrow> Inr None
      | Some r \<Rightarrow> try_bind (to_outstanding r) (\<lambda>x. Inr (Some x)))"

record event_input =
  ei_server :: server_row
  ei_actor :: actor
  ei_source :: string
  ei_offer_id :: "string option"
  ei_transition :: authority_transition
  ei_mode :: "reenrollment_mode option"
  ei_offer_outcome :: "offer_outcome option"
  ei_authority_before :: authority_status
  ei_authority_after :: authority_status

definition event_row_of :: "string \<Rightarrow> datetime \<Rightarrow> event_input \<Rightarrow> event_row" where
  "event_row_of uuid now input =
     \<lparr>ae_id = uuid, ae_server_id = sv_id (ei_server input), ae_server_name = sv_name (ei_server input),
      ae_actor_kind = actor_kind_str (kind_of_actor (ei_actor input)),
      ae_actor_id = actor_id (ei_actor input), ae_request_source = ei_source input,
      ae_offer_id = ei_offer_id input, ae_transition = transition_str (ei_transition input),
      ae_mode = map_option mode_str (ei_mode input),
      ae_offer_outcome = map_option outcome_str (ei_offer_outcome input),
      ae_authority_before = authority_status_str (ei_authority_before input),
      ae_authority_after = authority_status_str (ei_authority_after input),
      ae_created_at = now\<rparr>"

definition insert_event :: "string \<Rightarrow> datetime \<Rightarrow> event_input \<Rightarrow> ('e, unit) act" where
  "insert_event uuid now input = exec (insert_event_row (event_row_of uuid now input))"

fun transition_of_outcome :: "offer_outcome \<Rightarrow> authority_transition" where
  "transition_of_outcome Consumed = OfferConsumed"
| "transition_of_outcome RevokedOffer = OfferRevoked"
| "transition_of_outcome Replaced = OfferReplaced"
| "transition_of_outcome ExpiredOffer = OfferExpired"

definition set_terminal ::
  "offer_outcome \<Rightarrow> datetime \<Rightarrow> string option \<Rightarrow> offer_row \<Rightarrow> offer_row" where
  "set_terminal outcome now successor row =
     row\<lparr>eo_outcome := Some (outcome_str outcome), eo_terminal_at := Some now,
         eo_successor_offer_id := successor\<rparr>"

definition terminalize_offer ::
  "string \<Rightarrow> datetime \<Rightarrow> datetime \<Rightarrow> offer_row \<Rightarrow> offer_outcome \<Rightarrow> string option \<Rightarrow> server_row \<Rightarrow> actor \<Rightarrow>
   string \<Rightarrow> authority_status \<Rightarrow> authority_status \<Rightarrow> ('e, unit) act" where
  "terminalize_offer uuid now1 now2 offer outcome successor server actor source before after =
     andthen (exec (update_offer (eo_id offer) (set_terminal outcome now1 successor))) (\<lambda>_.
     insert_event uuid now2
       \<lparr>ei_server = server, ei_actor = actor, ei_source = source, ei_offer_id = Some (eo_id offer),
        ei_transition = transition_of_outcome outcome, ei_mode = None,
        ei_offer_outcome = Some outcome, ei_authority_before = before, ei_authority_after = after\<rparr>)"

definition find_open_offer :: "string \<Rightarrow> ('e, offer_row option) act" where
  "find_open_offer server_id =
     query (\<lambda>d. case open_offers server_id d of [] \<Rightarrow> None | o1 # _ \<Rightarrow> Some o1)"

definition find_outstanding :: "string \<Rightarrow> datetime \<Rightarrow> ('e, offer_row option) act" where
  "find_outstanding server_id now =
     query (\<lambda>d. case filter (\<lambda>o1. now < eo_expires_at o1) (open_offers server_id d) of
                  [] \<Rightarrow> None | o1 # _ \<Rightarrow> Some o1)"

text \<open>The clock is read for the comparison, for the terminal time and for the event.\<close>

definition expire_elapsed_outstanding ::
  "string \<Rightarrow> datetime \<Rightarrow> datetime \<Rightarrow> datetime \<Rightarrow> server_row \<Rightarrow> actor \<Rightarrow> string \<Rightarrow> ('e, unit) act" where
  "expire_elapsed_outstanding uuid now1 now2 now3 server actor source =
     andthen (find_open_offer (sv_id server)) (\<lambda>open.
       case open of
         None \<Rightarrow> ret ()
       | Some offer \<Rightarrow>
           if now1 < eo_expires_at offer then ret ()
           else terminalize_offer uuid now2 now3 offer ExpiredOffer None server actor source
                  (authority_status server) (authority_status server))"

definition prepare_offer ::
  "crypto \<Rightarrow> call_env \<Rightarrow> datetime \<Rightarrow> string \<Rightarrow> string \<Rightarrow> actor \<Rightarrow> int \<Rightarrow> app_error + (offer_row \<times> string)" where
  "prepare_offer cr en now uuid server_id actor ttl =
     (case parse_enrollment_code (en_plaintext en) of
        Inl e \<Rightarrow> Inl (Internal (''generated invalid enrollment code: '' @ e))
      | Inr code \<Rightarrow>
          (case cr_hash cr (en_salt en) (en_plaintext en) of
             Inl e \<Rightarrow> Inl e
           | Inr code_hash \<Rightarrow>
               Inr (\<lparr>eo_id = uuid, eo_code_hash = code_hash, eo_code_prefix = take 8 (en_plaintext en),
                     eo_target_server_id = server_id, eo_created_by = offer_creator actor,
                     eo_expires_at = now + seconds ttl, eo_outcome = None, eo_terminal_at = None,
                     eo_successor_offer_id = None, eo_created_at = now\<rparr>, code)))"

definition insert_prepared_offer :: "offer_row \<times> string \<Rightarrow> ('e, issued_offer) act" where
  "insert_prepared_offer prepared =
     (case prepared of (row, code) \<Rightarrow>
        andthen (exec (insert_offer row)) (\<lambda>_.
          case parse_offer_id (eo_id row) of
            Inl e \<Rightarrow> fail (Store (Internal (''invalid stored offer id: '' @ e)))
          | Inr oid \<Rightarrow> ret \<lparr>io_id = oid, io_code = code, io_code_prefix = eo_code_prefix row,
                          io_expires_at = eo_expires_at row, io_created_at = eo_created_at row\<rparr>))"

definition mint_offer ::
  "crypto \<Rightarrow> call_env \<Rightarrow> datetime \<Rightarrow> string \<Rightarrow> string \<Rightarrow> actor \<Rightarrow> int \<Rightarrow> ('e, issued_offer) act" where
  "mint_offer cr en now uuid server_id actor ttl =
     andthen (of_result (prepare_offer cr en now uuid server_id actor ttl)) insert_prepared_offer"

definition broadcast_authority_state ::
  "string \<Rightarrow> authority_status \<Rightarrow> outstanding_summary option \<Rightarrow> ('e, unit) act" where
  "broadcast_authority_state server_id status offer =
     registry (broadcast_agent_authority_changed server_id
       \<lparr>as_status = status, as_outstanding_offer = offer\<rparr>)"

definition broadcast_issued_offer_state ::
  "string \<Rightarrow> authority_status \<Rightarrow> issued_offer \<Rightarrow> ('e, unit) act" where
  "broadcast_issued_offer_state server_id status offer =
     broadcast_authority_state server_id status
       (Some \<lparr>os_id = io_id offer, os_code_prefix = io_code_prefix offer,
              os_expires_at = io_expires_at offer, os_created_at = io_created_at offer\<rparr>)"

section \<open>Issuing\<close>

definition ensure :: "bool \<Rightarrow> 'e failure \<Rightarrow> ('e, unit) act" where
  "ensure b e = (if b then ret () else fail e)"

definition the_or :: "'e failure \<Rightarrow> 'a option \<Rightarrow> ('e, 'a) act" where
  "the_or e x = (case x of None \<Rightarrow> fail e | Some a \<Rightarrow> ret a)"

text \<open>The early return that reports an outstanding offer.\<close>

definition reject_outstanding :: "(outstanding_offer \<Rightarrow> 'e) \<Rightarrow> offer_row option \<Rightarrow> ('e, unit) act" where
  "reject_outstanding err current =
     (case current of
        None \<Rightarrow> ret ()
      | Some row \<Rightarrow> andthen (of_result (to_outstanding row)) (\<lambda>x. fail (Err (err x))))"

definition issue_offer_for_unclaimed ::
  "crypto \<Rightarrow> call_env \<Rightarrow> operator_request \<Rightarrow> int \<Rightarrow> (issue_error, issued_offer) act" where
  "issue_offer_for_unclaimed cr en input ttl =
     andthen (begin_write (rq_server_id input)) (\<lambda>_.
     andthen (query (find_server (rq_server_id input))) (\<lambda>row.
     andthen (the_or (Err IssueNotFound) row) (\<lambda>server.
     andthen (ensure (authority_status server \<noteq> Claimed) (Err AlreadyClaimed)) (\<lambda>_.
     andthen (expire_elapsed_outstanding (en_uuid en 0) (en_clock en 0) (en_clock en 1) (en_clock en 2)
                server (rq_actor input) (rq_source input)) (\<lambda>_.
     andthen (find_outstanding (sv_id server) (en_clock en 3)) (\<lambda>current.
     andthen (reject_outstanding IssueOutstandingExists current) (\<lambda>_.
     andthen (mint_offer cr en (en_clock en 4) (en_uuid en 1) (sv_id server) (rq_actor input) ttl)
       (\<lambda>issued.
     andthen (insert_event (en_uuid en 2) (en_clock en 5)
       \<lparr>ei_server = server, ei_actor = rq_actor input, ei_source = rq_source input,
        ei_offer_id = Some (io_id issued), ei_transition = OfferIssued, ei_mode = None,
        ei_offer_outcome = None, ei_authority_before = Unclaimed, ei_authority_after = Unclaimed\<rparr>)
       (\<lambda>_.
     andthen commit (\<lambda>_.
     andthen (broadcast_issued_offer_state (sv_id server) Unclaimed issued) (\<lambda>_.
     ret issued)))))))))))"

definition issue_initial_offer_tx ::
  "crypto \<Rightarrow> call_env \<Rightarrow> server_row \<Rightarrow> actor \<Rightarrow> string \<Rightarrow> int \<Rightarrow> ('e, issued_offer) act" where
  "issue_initial_offer_tx cr en server actor source ttl =
     andthen (mint_offer cr en (en_clock en 0) (en_uuid en 0) (sv_id server) actor ttl) (\<lambda>issued.
     andthen (insert_event (en_uuid en 1) (en_clock en 1)
       \<lparr>ei_server = server, ei_actor = actor, ei_source = source,
        ei_offer_id = Some (io_id issued), ei_transition = InitialOfferIssued, ei_mode = None,
        ei_offer_outcome = None, ei_authority_before = Unclaimed, ei_authority_after = Unclaimed\<rparr>)
       (\<lambda>_. ret issued))"

section \<open>Claiming\<close>

text \<open>\<open>find_offer_for_code\<close>: the first open offer with the code's prefix that verifies.\<close>

fun first_verified :: "crypto \<Rightarrow> string \<Rightarrow> offer_row list \<Rightarrow> app_error + offer_row option" where
  "first_verified cr code [] = Inr None"
| "first_verified cr code (candidate # rest) =
     (case cr_verify cr code (eo_code_hash candidate) of
        Inl e \<Rightarrow> Inl e
      | Inr ok \<Rightarrow> if ok then Inr (Some candidate) else first_verified cr code rest)"

definition find_offer_for_code :: "crypto \<Rightarrow> string \<Rightarrow> ('e, offer_row option) act" where
  "find_offer_for_code cr code =
     andthen (query_db (\<lambda>d. filter (\<lambda>o1. eo_code_prefix o1 = take 8 code \<and> eo_outcome o1 = None)
                             (db_offers d)))
       (\<lambda>candidates. of_result (first_verified cr code candidates))"

definition claim_lookup :: "crypto \<Rightarrow> claim_agent \<Rightarrow> (claim_error, offer_row) act" where
  "claim_lookup cr input =
     andthen (find_offer_for_code cr (cl_code input)) (the_or (Err ClaimRejected))"

text \<open>What \<open>claim\<close> does with the candidate its first query found.\<close>

definition claim_commit ::
  "crypto \<Rightarrow> call_env \<Rightarrow> claim_agent \<Rightarrow> offer_row \<Rightarrow> (claim_error, string) act" where
  "claim_commit cr en input candidate =
     andthen (of_result (cr_hash cr (en_salt en) (cl_proposed_run_token input))) (\<lambda>token_hash.
     let token_prefix = take 8 (cl_proposed_run_token input) in
     andthen (begin_write (eo_target_server_id candidate)) (\<lambda>_.
     andthen (query (find_offer (eo_id candidate))) (\<lambda>row.
     andthen (the_or (Err ClaimRejected) row) (\<lambda>offer.
     andthen (ensure (eo_outcome offer = None) (Err ClaimRejected)) (\<lambda>_.
     andthen (of_result (cr_verify cr (cl_code input) (eo_code_hash offer))) (\<lambda>ok.
     andthen (ensure ok (Err ClaimRejected)) (\<lambda>_.
     andthen (query (find_server (eo_target_server_id offer))) (\<lambda>row2.
     andthen (the_or (Store (Internal ''enrollment offer target vanished'')) row2) (\<lambda>server.
     let before = authority_status server in
     if eo_expires_at offer \<le> en_clock en 0 then
       andthen (terminalize_offer (en_uuid en 0) (en_clock en 1) (en_clock en 2) offer ExpiredOffer None
                  server Agent (cl_source input) before before) (\<lambda>_.
       andthen commit (\<lambda>_. fail (Err ClaimRejected)))
     else
       andthen (registry (remove_connection (sv_id server))) (\<lambda>_.
       let now = en_clock en 3 in
       andthen (exec (update_offer (eo_id offer) (set_terminal Consumed now None))) (\<lambda>_.
       andthen (exec (update_server (sv_id server)
         (\<lambda>r. r\<lparr>sv_token_hash := Some token_hash, sv_token_prefix := Some token_prefix,
                sv_last_remote_addr := cl_remote_addr input, sv_updated_at := now\<rparr>))) (\<lambda>_.
       andthen (insert_event (en_uuid en 0) (en_clock en 4)
         \<lparr>ei_server = server, ei_actor = Agent, ei_source = cl_source input,
          ei_offer_id = Some (eo_id offer), ei_transition = OfferConsumed, ei_mode = None,
          ei_offer_outcome = Some Consumed, ei_authority_before = before,
          ei_authority_after = Claimed\<rparr>) (\<lambda>_.
       andthen commit (\<lambda>_.
       andthen (broadcast_authority_state (sv_id server) Claimed None) (\<lambda>_.
       case parse_server_id (sv_id server) of
         Inl e \<Rightarrow> fail (Store (Internal (''invalid stored server id: '' @ e)))
       | Inr sid \<Rightarrow> ret sid)))))))))))))))"

section \<open>Re-enrolment\<close>

definition begin_reenrollment ::
  "crypto \<Rightarrow> call_env \<Rightarrow> operator_request \<Rightarrow> reenrollment_mode \<Rightarrow> int \<Rightarrow>
   (reenroll_error, issued_offer) act" where
  "begin_reenrollment cr en input mode ttl =
     andthen (begin_write (rq_server_id input)) (\<lambda>_.
     andthen (query (find_server (rq_server_id input))) (\<lambda>row.
     andthen (the_or (Err ReenrollNotFound) row) (\<lambda>server.
     andthen (ensure (authority_status server \<noteq> Unclaimed) (Err ReenrollUnclaimed)) (\<lambda>_.
     andthen (expire_elapsed_outstanding (en_uuid en 0) (en_clock en 0) (en_clock en 1) (en_clock en 2)
                server (rq_actor input) (rq_source input)) (\<lambda>_.
     andthen (find_outstanding (sv_id server) (en_clock en 3)) (\<lambda>current.
     andthen (reject_outstanding ReenrollOutstandingExists current) (\<lambda>_.
     andthen (case mode of
         Graceful \<Rightarrow> ret Claimed
       | Emergency \<Rightarrow>
           andthen (registry (remove_connection (sv_id server))) (\<lambda>_.
           andthen (exec (update_server (sv_id server)
             (\<lambda>r. r\<lparr>sv_token_hash := None, sv_token_prefix := None, sv_updated_at := en_clock en 4\<rparr>)))
             (\<lambda>_. ret Unclaimed))) (\<lambda>authority_after.
     andthen (mint_offer cr en (en_clock en 5) (en_uuid en 1) (sv_id server) (rq_actor input) ttl)
       (\<lambda>issued.
     andthen (insert_event (en_uuid en 2) (en_clock en 6)
       \<lparr>ei_server = server, ei_actor = rq_actor input, ei_source = rq_source input,
        ei_offer_id = Some (io_id issued), ei_transition = ReenrollmentStarted, ei_mode = Some mode,
        ei_offer_outcome = None, ei_authority_before = Claimed, ei_authority_after = authority_after\<rparr>)
       (\<lambda>_.
     andthen commit (\<lambda>_.
     andthen (broadcast_issued_offer_state (sv_id server) authority_after issued) (\<lambda>_.
     ret issued))))))))))))"

section \<open>Replacing and revoking offers\<close>

text \<open>\<open>filter(|offer| offer.target_server_id == server.id)\<close>\<close>

definition owned_by :: "server_row \<Rightarrow> offer_row option \<Rightarrow> offer_row option" where
  "owned_by server row =
     (case row of None \<Rightarrow> None
      | Some r \<Rightarrow> if eo_target_server_id r = sv_id server then Some r else None)"

definition replace_offer ::
  "crypto \<Rightarrow> call_env \<Rightarrow> operator_request \<Rightarrow> string \<Rightarrow> int \<Rightarrow> (replace_error, issued_offer) act" where
  "replace_offer cr en input offer_id ttl =
     andthen (begin_write (rq_server_id input)) (\<lambda>_.
     andthen (query (find_server (rq_server_id input))) (\<lambda>row.
     andthen (the_or (Err ReplaceServerNotFound) row) (\<lambda>server.
     andthen (query (find_offer offer_id)) (\<lambda>row2.
     andthen (the_or (Err ReplaceOfferNotFound) (owned_by server row2)) (\<lambda>offer.
     case eo_outcome offer of
       Some outcome \<Rightarrow>
         andthen (find_outstanding (sv_id server) (en_clock en 0)) (\<lambda>current.
         andthen (of_result (to_outstanding_opt current)) (\<lambda>current.
         andthen (of_result (parse_outcome outcome)) (\<lambda>oc.
         fail (Err (NotOutstanding oc current)))))
     | None \<Rightarrow>
         if eo_expires_at offer \<le> en_clock en 1 then
           let before = authority_status server in
           andthen (terminalize_offer (en_uuid en 0) (en_clock en 2) (en_clock en 3) offer ExpiredOffer
                      None server (rq_actor input) (rq_source input) before before) (\<lambda>_.
           andthen commit (\<lambda>_. fail (Err (NotOutstanding ExpiredOffer None))))
         else
           andthen (find_outstanding (sv_id server) (en_clock en 4)) (\<lambda>current.
           if map_option eo_id current \<noteq> Some offer_id then
             andthen (of_result (to_outstanding_opt current)) (\<lambda>current. fail (Err (Stale current)))
           else
             andthen (of_result (prepare_offer cr en (en_clock en 5) (en_uuid en 1) (sv_id server)
                                   (rq_actor input) ttl)) (\<lambda>successor.
             andthen (exec (update_offer (eo_id offer)
               (set_terminal Replaced (en_clock en 6) (Some (eo_id (fst successor)))))) (\<lambda>_.
             andthen (insert_prepared_offer successor) (\<lambda>issued.
             let status = authority_status server in
             andthen (insert_event (en_uuid en 2) (en_clock en 7)
               \<lparr>ei_server = server, ei_actor = rq_actor input, ei_source = rq_source input,
                ei_offer_id = Some (eo_id offer), ei_transition = OfferReplaced, ei_mode = None,
                ei_offer_outcome = Some Replaced, ei_authority_before = status,
                ei_authority_after = status\<rparr>) (\<lambda>_.
             andthen commit (\<lambda>_.
             andthen (broadcast_issued_offer_state (sv_id server) status issued) (\<lambda>_.
             ret issued))))))))))))"

text \<open>The result tells whether the offer was revoked before.\<close>

definition revoke_offer ::
  "call_env \<Rightarrow> operator_request \<Rightarrow> string \<Rightarrow> (revoke_offer_error, bool) act" where
  "revoke_offer en input offer_id =
     andthen (begin_write (rq_server_id input)) (\<lambda>_.
     andthen (query (find_server (rq_server_id input))) (\<lambda>row.
     andthen (the_or (Err RevokeServerNotFound) row) (\<lambda>server.
     andthen (query (find_offer offer_id)) (\<lambda>row2.
     andthen (the_or (Err RevokeOfferNotFound) (owned_by server row2)) (\<lambda>offer.
     case eo_outcome offer of
       Some outcome \<Rightarrow>
         andthen (of_result (parse_outcome outcome)) (\<lambda>oc.
         if oc = RevokedOffer then ret True else fail (Err (Terminal oc)))
     | None \<Rightarrow>
         let status = authority_status server in
         if eo_expires_at offer \<le> en_clock en 0 then
           andthen (terminalize_offer (en_uuid en 0) (en_clock en 1) (en_clock en 2) offer ExpiredOffer
                      None server (rq_actor input) (rq_source input) status status) (\<lambda>_.
           andthen commit (\<lambda>_.
           andthen (broadcast_authority_state (sv_id server) status None) (\<lambda>_.
           fail (Err (Terminal ExpiredOffer)))))
         else
           andthen (terminalize_offer (en_uuid en 0) (en_clock en 1) (en_clock en 2) offer RevokedOffer
                      None server (rq_actor input) (rq_source input) status status) (\<lambda>_.
           andthen commit (\<lambda>_.
           andthen (broadcast_authority_state (sv_id server) status None) (\<lambda>_.
           ret False))))))))"

section \<open>Revoking an agent's authority\<close>

text \<open>The result tells whether anything changed.\<close>

definition revoke_authority ::
  "call_env \<Rightarrow> operator_request \<Rightarrow> (revoke_authority_error, bool) act" where
  "revoke_authority en input =
     andthen (begin_write (rq_server_id input)) (\<lambda>_.
     andthen (query (find_server (rq_server_id input))) (\<lambda>row.
     andthen (the_or (Err RevokeNotFound) row) (\<lambda>server.
     let before = authority_status server in
     andthen (find_open_offer (sv_id server)) (\<lambda>open_offer.
     if before = Unclaimed \<and> open_offer = None then
       andthen commit (\<lambda>_.
       andthen (registry (remove_connection (sv_id server))) (\<lambda>_.
       andthen (broadcast_authority_state (sv_id server) Unclaimed None) (\<lambda>_.
       ret False)))
     else
       andthen (case open_offer of
           None \<Rightarrow> ret ()
         | Some offer \<Rightarrow>
             terminalize_offer (en_uuid en 0) (en_clock en 1) (en_clock en 2) offer
               (if eo_expires_at offer \<le> en_clock en 0 then ExpiredOffer else RevokedOffer) None
               server (rq_actor input) (rq_source input) before before) (\<lambda>_.
       andthen (if before = Claimed then
           andthen (exec (update_server (sv_id server)
             (\<lambda>r. r\<lparr>sv_token_hash := None, sv_token_prefix := None, sv_updated_at := en_clock en 3\<rparr>)))
             (\<lambda>_.
           insert_event (en_uuid en 1) (en_clock en 4)
             \<lparr>ei_server = server, ei_actor = rq_actor input, ei_source = rq_source input,
              ei_offer_id = None, ei_transition = AuthorityRevoked, ei_mode = None,
              ei_offer_outcome = None, ei_authority_before = Claimed, ei_authority_after = Unclaimed\<rparr>)
         else ret ()) (\<lambda>_.
       andthen commit (\<lambda>_.
       andthen (registry (remove_connection (sv_id server))) (\<lambda>_.
       andthen (broadcast_authority_state (sv_id server) Unclaimed None) (\<lambda>_.
       ret True)))))))))"

section \<open>Deleting servers\<close>

definition record_server_deleted_tx ::
  "string \<Rightarrow> datetime \<Rightarrow> server_row \<Rightarrow> actor \<Rightarrow> string \<Rightarrow> ('e, unit) act" where
  "record_server_deleted_tx uuid now server actor source =
     insert_event uuid now
       \<lparr>ei_server = server, ei_actor = actor, ei_source = source, ei_offer_id = None,
        ei_transition = ServerDeleted, ei_mode = None, ei_offer_outcome = None,
        ei_authority_before = authority_status server, ei_authority_after = Unclaimed\<rparr>"

fun record_deletions ::
  "call_env \<Rightarrow> nat \<Rightarrow> server_row list \<Rightarrow> actor \<Rightarrow> string \<Rightarrow> ('e, unit) act" where
  "record_deletions en i [] actor source = ret ()"
| "record_deletions en i (row # rows) actor source =
     andthen (record_server_deleted_tx (en_uuid en i) (en_clock en i) row actor source) (\<lambda>_.
     record_deletions en (Suc i) rows actor source)"

text \<open>
  The only errors are those of the store.  The rows of other tables that \<open>delete_server_scoped_rows\<close> removes are not part of the model:
  that call is one more statement that may fail.
\<close>

definition delete_servers ::
  "call_env \<Rightarrow> string list \<Rightarrow> actor \<Rightarrow> string \<Rightarrow> (unit, server_row list) act" where
  "delete_servers en server_ids actor source =
     (let ids = remdups_adj (sort server_ids) in
      if ids = [] then ret []
      else
        andthen (begin_write (hd ids)) (\<lambda>_.
        andthen (query (\<lambda>d. filter (\<lambda>r. List.member ids (sv_id r)) (db_servers d))) (\<lambda>rows.
        andthen (registry (fold (\<lambda>row. remove_connection (sv_id row)) rows)) (\<lambda>_.
        andthen (record_deletions en 0 rows actor source) (\<lambda>_.
        let existing_ids = map sv_id rows in
        andthen (if existing_ids \<noteq> [] then
            andthen (query (\<lambda>_. ())) (\<lambda>_.
            exec (\<lambda>d. Some (delete_server_rows existing_ids d)))
          else ret ()) (\<lambda>_.
        andthen commit (\<lambda>_.
        andthen (registry (fold remove_cached_report existing_ids)) (\<lambda>_.
        ret rows))))))))"

section \<open>Admitting connections\<close>

text \<open>\<open>AuthService::validate_agent_token\<close> (\<open>service/auth.rs\<close>).\<close>

fun first_token_match :: "crypto \<Rightarrow> string \<Rightarrow> server_row list \<Rightarrow> app_error + server_row option" where
  "first_token_match cr token [] = Inr None"
| "first_token_match cr token (candidate # rest) =
     (case sv_token_hash candidate of
        None \<Rightarrow> first_token_match cr token rest
      | Some hash \<Rightarrow>
          (case cr_verify cr token hash of
             Inl e \<Rightarrow> Inl e
           | Inr ok \<Rightarrow> if ok then Inr (Some candidate) else first_token_match cr token rest))"

definition validate_agent_token :: "crypto \<Rightarrow> string \<Rightarrow> ('e, server_row option) act" where
  "validate_agent_token cr token =
     (if length token < 8 then ret None
      else
        andthen (query_db (\<lambda>d. filter (\<lambda>r. sv_token_prefix r = Some (take (min 8 (length token)) token) \<and>
                                          sv_token_hash r \<noteq> None) (db_servers d)))
          (\<lambda>candidates. of_result (first_token_match cr token candidates)))"

definition preflight_connection :: "crypto \<Rightarrow> string \<Rightarrow> (admission_error, string) act" where
  "preflight_connection cr token =
     andthen (validate_agent_token cr token) (\<lambda>row.
     andthen (the_or (Err AdmissionRejected) row) (\<lambda>server.
     case parse_server_id (sv_id server) of
       Inl e \<Rightarrow> fail (Store (Internal (''invalid stored server id: '' @ e)))
     | Inr sid \<Rightarrow> ret sid))"

definition admit ::
  "crypto \<Rightarrow> instant \<Rightarrow> string \<Rightarrow> string \<Rightarrow> channel \<Rightarrow> string \<Rightarrow> (admission_error, admitted_connection) act" where
  "admit cr now expected_server_id token tx remote_addr =
     andthen (validate_agent_token cr token) (\<lambda>row.
     let row = (case row of None \<Rightarrow> None
                | Some r \<Rightarrow> if sv_id r = expected_server_id then Some r else None) in
     andthen (the_or (Err AdmissionRejected) row) (\<lambda>server. \<lambda>w.
     let (connection_id, mgr) = add_connection (sv_id server) (sv_name server) tx remote_addr now (w_mgr w);
         mgr = (case sv_token_hash server of
                  Some hash \<Rightarrow> bind_security_authority (sv_id server) (cr_fingerprint cr hash) mgr
                | None \<Rightarrow> mgr)
     in (Inr \<lparr>ad_server_id = expected_server_id, ad_server_name = sv_name server,
              ad_server_capabilities = sv_capabilities server, ad_connection_id = connection_id\<rparr>,
         w\<lparr>w_mgr := mgr\<rparr>)))"

section \<open>Reading\<close>

record authority_state =
  st_server_id :: string
  st_authority :: authority_status
  st_outstanding_offer :: "outstanding_offer option"

text \<open>The collected map keeps the last offer of a server and hands it to the server's first row.\<close>

fun build_states ::
  "server_row list \<Rightarrow> (string, outstanding_offer) table \<Rightarrow> app_error + authority_state list" where
  "build_states [] offers = Inr []"
| "build_states (server # rest) offers =
     (case parse_server_id (sv_id server) of
        Inl e \<Rightarrow> Inl (Internal (''invalid stored server id: '' @ e))
      | Inr sid \<Rightarrow>
          try_bind (build_states rest (tdel (sv_id server) offers)) (\<lambda>states.
          Inr (\<lparr>st_server_id = sid, st_authority = authority_status server,
                st_outstanding_offer = tget offers (sv_id server)\<rparr> # states)))"

definition authority_states :: "datetime \<Rightarrow> string list \<Rightarrow> (state_error, authority_state list) act" where
  "authority_states now server_ids =
     (if server_ids = [] then ret []
      else
        andthen (query_db (\<lambda>d. filter (\<lambda>r. List.member server_ids (sv_id r)) (db_servers d))) (\<lambda>servers.
        andthen (query_db (\<lambda>d. filter (\<lambda>o1. List.member server_ids (eo_target_server_id o1) \<and>
                   eo_outcome o1 = None \<and> now < eo_expires_at o1) (db_offers d))) (\<lambda>offers.
        andthen (of_result (collect_results (map (\<lambda>o1. try_bind (to_outstanding o1)
                   (\<lambda>x. Inr (eo_target_server_id o1, x))) offers))) (\<lambda>pairs.
        of_result (build_states servers (fold (\<lambda>(k, v). tput k v) pairs []))))))"

definition authority_state_of :: "datetime \<Rightarrow> string \<Rightarrow> (state_error, authority_state) act" where
  "authority_state_of now server_id =
     andthen (authority_states now [server_id])
       (\<lambda>sts. case sts of [] \<Rightarrow> fail (Err StateNotFound) | st # _ \<Rightarrow> ret st)"

section \<open>History\<close>

record authority_event =
  av_id :: string
  av_server_id :: string
  av_server_name :: string
  av_actor_kind :: actor_kind
  av_actor_id :: "string option"
  av_request_source :: string
  av_offer_id :: "string option"
  av_transition :: authority_transition
  av_mode :: "reenrollment_mode option"
  av_offer_outcome :: "offer_outcome option"
  av_authority_before :: authority_status
  av_authority_after :: authority_status
  av_created_at :: datetime

definition parse_authority :: "string \<Rightarrow> app_error + authority_status" where
  "parse_authority value =
     (if value = ''claimed'' then Inr Claimed
      else if value = ''unclaimed'' then Inr Unclaimed
      else Inl (Internal (''invalid stored authority status: '' @ value)))"

text \<open>\<open>map(f).transpose()?\<close>\<close>

definition transpose_map :: "('a \<Rightarrow> 'e + 'b) \<Rightarrow> 'a option \<Rightarrow> 'e + 'b option" where
  "transpose_map f x =
     (case x of None \<Rightarrow> Inr None | Some a \<Rightarrow> try_bind (f a) (\<lambda>b. Inr (Some b)))"

definition invalid_id :: "string \<Rightarrow> string + 'a \<Rightarrow> app_error + 'a" where
  "invalid_id prefix r = (case r of Inl e \<Rightarrow> Inl (Internal (prefix @ e)) | Inr x \<Rightarrow> Inr x)"

definition to_authority_event :: "event_row \<Rightarrow> app_error + authority_event" where
  "to_authority_event row =
     try_bind (invalid_id ''invalid stored server id: '' (parse_server_id (ae_server_id row))) (\<lambda>sid.
     try_bind (ok_or (Internal (''invalid stored actor kind: '' @ ae_actor_kind row))
                 (parse_actor_kind (ae_actor_kind row))) (\<lambda>ak.
     try_bind (invalid_id ''invalid stored offer id: ''
                 (transpose_map parse_offer_id (ae_offer_id row))) (\<lambda>oid.
     try_bind (ok_or (Internal (''invalid stored authority transition: '' @ ae_transition row))
                 (parse_transition (ae_transition row))) (\<lambda>tr.
     try_bind (transpose_map (\<lambda>v. ok_or (Internal (''invalid stored re-enrollment mode: '' @ v))
                 (parse_mode v)) (ae_mode row)) (\<lambda>md.
     try_bind (transpose_map parse_outcome (ae_offer_outcome row)) (\<lambda>oc.
     try_bind (parse_authority (ae_authority_before row)) (\<lambda>before.
     try_bind (parse_authority (ae_authority_after row)) (\<lambda>after.
     Inr \<lparr>av_id = ae_id row, av_server_id = sid, av_server_name = ae_server_name row,
          av_actor_kind = ak, av_actor_id = ae_actor_id row,
          av_request_source = ae_request_source row, av_offer_id = oid, av_transition = tr,
          av_mode = md, av_offer_outcome = oc, av_authority_before = before,
          av_authority_after = after, av_created_at = ae_created_at row\<rparr>))))))))"

text \<open>\<open>ORDER BY created_at DESC LIMIT\<close>; ties keep the table's order.\<close>

definition history :: "string \<Rightarrow> int \<Rightarrow> ('e, authority_event list) act" where
  "history server_id limit =
     (let n = max 1 (min limit 500) in
      andthen (query_db (\<lambda>d. take (nat n) (sort_key (\<lambda>e. - ae_created_at e)
                 (filter (\<lambda>e. ae_server_id e = server_id) (db_events d))))) (\<lambda>rows.
      of_result (collect_results (map to_authority_event rows))))"

text \<open>Every event an operation writes can be read back.\<close>

lemma authority_status_str_parse [simp]:
  "parse_authority (authority_status_str st) = Inr st"
  by (cases st) (simp_all add: parse_authority_def)

lemma event_readable:
  assumes "\<not> is_blank (sv_id (ei_server input))"
    and "\<And>i. ei_offer_id input = Some i \<Longrightarrow> \<not> is_blank i"
  shows "\<exists>ev. to_authority_event (event_row_of u t input) = Inr ev \<and>
     av_transition ev = ei_transition input \<and> av_mode ev = ei_mode input \<and>
     av_offer_outcome ev = ei_offer_outcome input \<and>
     av_authority_before ev = ei_authority_before input \<and>
     av_authority_after ev = ei_authority_after input"
  using assms
  by (cases "ei_mode input"; cases "ei_offer_outcome input"; cases "ei_offer_id input")
    (simp_all add: to_authority_event_def event_row_of_def parse_server_id_def parse_offer_id_def
      parse_identifier_def invalid_id_def transpose_map_def parse_outcome_def ok_or_def)

end
