(* ===== verification/Capability_Gate.thy ===== *)
theory Capability_Gate
  imports Agent_Authority
begin

text \<open>
  The capability gate of the control plane (\<open>crates/server/src/service/capability_gate.rs\<close>): the
  agent's live bitmask decides, the persisted mirror fills in before its first report.  The
  registry is read several times; each reading is an argument of its own, as other tasks may
  change it in between.  The audit log is the list of entries written.
\<close>

text \<open>\<open>ServerService::get_server\<close>; \<open>None\<close> is a failed query.\<close>

definition get_server :: "db option \<Rightarrow> string \<Rightarrow> app_error + server_row" where
  "get_server d server_id =
     (case d of
        None \<Rightarrow> Inl db_error
      | Some d \<Rightarrow> ok_or (NotFound ''Server not found'') (find_server server_id d))"

text \<open>\<open>capabilities as u32\<close>\<close>

definition mirror_of :: "server_row \<Rightarrow> u32" where
  "mirror_of server = word_of_int (sv_capabilities server)"

definition effective_capabilities ::
  "agent_manager \<Rightarrow> db option \<Rightarrow> agent_manager \<Rightarrow> string \<Rightarrow> u32" where
  "effective_capabilities am d am' server_id =
     (case get_effective_capabilities server_id am of
        Some caps \<Rightarrow> caps
      | None \<Rightarrow>
          let mirror = (case get_server d server_id of Inr s \<Rightarrow> mirror_of s | Inl _ \<Rightarrow> 0)
          in effective_capabilities_or server_id mirror am')"

definition require_capability ::
  "db option \<Rightarrow> agent_manager \<Rightarrow> string \<Rightarrow> u32 \<Rightarrow> app_error + server_row" where
  "require_capability d am server_id cap =
     try_bind (get_server d server_id) (\<lambda>server.
       case capability_denied_reason server_id (mirror_of server) cap am of
         Some reason \<Rightarrow> Inl (Forbidden reason)
       | None \<Rightarrow> Inr server)"

definition require_capability_online ::
  "db option \<Rightarrow> agent_manager \<Rightarrow> agent_manager \<Rightarrow> string \<Rightarrow> u32 \<Rightarrow> app_error + server_row" where
  "require_capability_online d am am' server_id cap =
     try_bind (require_capability d am server_id cap) (\<lambda>server.
       if \<not> is_online server_id am' then Inl (NotFound ''Server offline'') else Inr server)"

record audit_entry =
  au_user_id :: string
  au_action :: string
  au_server_id :: string
  au_deny_reason :: "string option"
  au_ip :: string

text \<open>\<open>logged\<close>: whether the best-effort insert of the audit row works.\<close>

definition require_capability_audited ::
  "db option \<Rightarrow> agent_manager \<Rightarrow> bool \<Rightarrow> string \<Rightarrow> u32 \<Rightarrow> string \<Rightarrow> string \<Rightarrow> string \<Rightarrow>
   audit_entry list \<Rightarrow> (app_error + server_row) \<times> audit_entry list" where
  "require_capability_audited d am logged server_id cap user_id ip denied_action log =
     (case require_capability d am server_id cap of
        Inr server \<Rightarrow> (Inr server, log)
      | Inl error \<Rightarrow>
          (Inl error,
           if logged
           then log @ [\<lparr>au_user_id = user_id, au_action = denied_action, au_server_id = server_id,
                        au_deny_reason = audit_reason error, au_ip = ip\<rparr>]
           else log))"

text \<open>The mask the gate consults.\<close>

definition deciding_mask :: "agent_manager \<Rightarrow> string \<Rightarrow> server_row \<Rightarrow> u32" where
  "deciding_mask am server_id server =
     (case tget (am_agent_local_capabilities am) server_id of
        Some live \<Rightarrow> live | None \<Rightarrow> mirror_of server)"

lemma require_capability_iff:
  "require_capability d am sid cap = Inr server \<longleftrightarrow>
     get_server d sid = Inr server \<and> has_capability (deciding_mask am sid server) cap"
  by (auto simp: require_capability_def deciding_mask_def capability_denied_reason_def
      effective_capabilities_or_def get_agent_local_capabilities_def try_bind_def
      split: sum.splits option.splits if_splits)

text \<open>
  The gate is exact, and the denials are audited.  A command is let through iff the
  server row exists and the agent's live mask grants the capability (the persisted mirror
  deciding only while the agent has not reported); the online gate also needs a live connection;
  a rejection is a 403 with the agent's reason, a 404, or the store's error, and the audited
  gate writes one entry, with that reason, exactly for rejections.
\<close>

lemma capability_gate_exact:
  "(require_capability_online d am am' sid cap = Inr server \<longleftrightarrow>
     get_server d sid = Inr server \<and> has_capability (deciding_mask am sid server) cap \<and>
     is_online sid am') \<and>
   fst (require_capability_audited d am True sid cap u ip act log) = require_capability d am sid cap \<and>
   snd (require_capability_audited d am True sid cap u ip act log) =
     log @ (case require_capability d am sid cap of
              Inr _ \<Rightarrow> []
            | Inl e \<Rightarrow> [\<lparr>au_user_id = u, au_action = act, au_server_id = sid,
                        au_deny_reason = audit_reason e, au_ip = ip\<rparr>]) \<and>
   (require_capability d am sid cap = Inl e \<longleftrightarrow>
      get_server d sid = Inl e \<or>
      (\<exists>s. get_server d sid = Inr s \<and> \<not> has_capability (deciding_mask am sid s) cap \<and>
         e = Forbidden ''agent_capability_disabled''))"
proof (intro conjI)
  show "require_capability_online d am am' sid cap = Inr server \<longleftrightarrow>
     get_server d sid = Inr server \<and> has_capability (deciding_mask am sid server) cap \<and>
     is_online sid am'"
    using require_capability_iff [of d am sid cap]
    by (auto simp: require_capability_online_def try_bind_def split: sum.splits if_splits)
  show "require_capability d am sid cap = Inl e \<longleftrightarrow>
      get_server d sid = Inl e \<or>
      (\<exists>s. get_server d sid = Inr s \<and> \<not> has_capability (deciding_mask am sid s) cap \<and>
         e = Forbidden ''agent_capability_disabled'')"
    by (auto simp: require_capability_def deciding_mask_def capability_denied_reason_def
        effective_capabilities_or_def get_agent_local_capabilities_def try_bind_def
        split: sum.splits option.splits if_splits)
qed (auto simp: require_capability_audited_def split: sum.splits)

end
