(* ===== verification/Authority_Logic.thy ===== *)
theory Authority_Logic
  imports Agent_Authority
begin

text \<open>
  A weakest-precondition calculus for the computations of \<open>Agent_Authority\<close>: \<open>wp m Q E w\<close> holds
  when running \<open>m\<close> in world \<open>w\<close> ends in a world satisfying \<open>Q\<close> (success) or \<open>E\<close> (failure).  The
  rules cover every fault schedule, so one verification covers every statement that may fail.
\<close>

named_theorems wp_rules "introduction rules of the weakest-precondition calculus"

definition wp ::
  "('e, 'a) act \<Rightarrow> ('a \<Rightarrow> world \<Rightarrow> bool) \<Rightarrow> ('e failure \<Rightarrow> world \<Rightarrow> bool) \<Rightarrow> world \<Rightarrow> bool" where
  "wp m Q E w = (case m w of (Inr x, w') \<Rightarrow> Q x w' | (Inl e, w') \<Rightarrow> E e w')"

lemma wpD: "wp m Q E w \<Longrightarrow> fst (m w) = Inr x \<Longrightarrow> Q x (snd (m w))"
  by (auto simp: wp_def split: prod.splits sum.splits)

lemma wp_same: "wp m (\<lambda>_. P) (\<lambda>_. P) w \<longleftrightarrow> P (snd (m w))"
  by (auto simp: wp_def split: prod.splits sum.splits)

lemma wp_mono:
  "wp m Q E w \<Longrightarrow> (\<And>x w. Q x w \<Longrightarrow> Q' x w) \<Longrightarrow> (\<And>e w. E e w \<Longrightarrow> E' e w) \<Longrightarrow> wp m Q' E' w"
  by (auto simp: wp_def split: prod.splits sum.splits)

lemma wp_ret [wp_rules]: "Q x w \<Longrightarrow> wp (ret x) Q E w"
  by (simp add: wp_def ret_def)

lemma wp_fail [wp_rules]: "E e w \<Longrightarrow> wp (fail e) Q E w"
  by (simp add: wp_def fail_def)

lemma wp_andthen [wp_rules]: "wp m (\<lambda>x. wp (f x) Q E) E w \<Longrightarrow> wp (andthen m f) Q E w"
  by (auto simp: wp_def andthen_def split: prod.splits sum.splits)

lemma wp_of_result [wp_rules]:
  "(\<And>x. r = Inr x \<Longrightarrow> Q x w) \<Longrightarrow> (\<And>e. r = Inl e \<Longrightarrow> E (Store e) w) \<Longrightarrow> wp (of_result r) Q E w"
  by (auto simp: of_result_def ret_def fail_def wp_def split: sum.splits)

lemma wp_ensure [wp_rules]:
  "(b \<Longrightarrow> Q () w) \<Longrightarrow> (\<not> b \<Longrightarrow> E e w) \<Longrightarrow> wp (ensure b e) Q E w"
  by (simp add: ensure_def ret_def fail_def wp_def)

lemma wp_the_or [wp_rules]:
  "(\<And>a. x = Some a \<Longrightarrow> Q a w) \<Longrightarrow> (x = None \<Longrightarrow> E e w) \<Longrightarrow> wp (the_or e x) Q E w"
  by (auto simp: the_or_def ret_def fail_def wp_def split: option.splits)

lemma wp_faulty:
  assumes E: "\<And>fs. E (Store db_error) (w\<lparr>w_faults := fs\<rparr>)"
    and Q: "\<And>fs. wp m Q E (w\<lparr>w_faults := fs\<rparr>)"
  shows "wp (faulty m) Q E w"
proof (cases "w_faults w")
  case Nil
  have "w\<lparr>w_faults := w_faults w\<rparr> = w" by simp
  then have "wp m Q E w" using Q [of "w_faults w"] by simp
  with Nil show ?thesis by (simp add: faulty_def wp_def)
next
  case (Cons b fs)
  with E [of fs] Q [of fs] show ?thesis by (cases b) (simp_all add: faulty_def wp_def)
qed

lemma wp_exec [wp_rules]:
  "(\<And>fs. E (Store db_error) (w\<lparr>w_faults := fs\<rparr>)) \<Longrightarrow>
   (\<And>fs d. f (w_tx w) = Some d \<Longrightarrow> Q () (w\<lparr>w_faults := fs, w_tx := d\<rparr>)) \<Longrightarrow>
   wp (exec f) Q E w"
  unfolding exec_def by (rule wp_faulty) (auto simp: wp_def split: option.split)

lemma wp_query [wp_rules]:
  "(\<And>fs. E (Store db_error) (w\<lparr>w_faults := fs\<rparr>)) \<Longrightarrow>
   (\<And>fs. Q (f (w_tx w)) (w\<lparr>w_faults := fs\<rparr>)) \<Longrightarrow> wp (query f) Q E w"
  unfolding query_def by (rule wp_faulty) (auto simp: wp_def)

lemma wp_query_db [wp_rules]:
  "(\<And>fs. E (Store db_error) (w\<lparr>w_faults := fs\<rparr>)) \<Longrightarrow>
   (\<And>fs. Q (f (w_db w)) (w\<lparr>w_faults := fs\<rparr>)) \<Longrightarrow> wp (query_db f) Q E w"
  unfolding query_db_def by (rule wp_faulty) (auto simp: wp_def)

lemma wp_commit [wp_rules]:
  "(\<And>fs. E (Store db_error) (w\<lparr>w_faults := fs\<rparr>)) \<Longrightarrow>
   (\<And>fs. Q () (w\<lparr>w_faults := fs, w_db := w_tx w\<rparr>)) \<Longrightarrow> wp commit Q E w"
  unfolding commit_def by (rule wp_faulty) (auto simp: wp_def)

lemma world_commute:
  "w\<lparr>w_tx := d, w_faults := fs\<rparr> = w\<lparr>w_faults := fs, w_tx := d\<rparr>"
  by (cases w) simp

lemma wp_begin_write [wp_rules]:
  "(\<And>fs d. E (Store db_error) (w\<lparr>w_faults := fs, w_tx := d\<rparr>)) \<Longrightarrow>
   (\<And>fs. Q () (w\<lparr>w_faults := fs, w_tx := w_db w\<rparr>)) \<Longrightarrow> wp (begin_write s) Q E w"
  unfolding begin_write_def
proof (intro wp_andthen wp_faulty)
  assume E: "\<And>fs d. E (Store db_error) (w\<lparr>w_faults := fs, w_tx := d\<rparr>)"
    and Q: "\<And>fs. Q () (w\<lparr>w_faults := fs, w_tx := w_db w\<rparr>)"
  fix fs
  have "w\<lparr>w_faults := fs, w_tx := w_tx w\<rparr> = w\<lparr>w_faults := fs\<rparr>" by (cases w) simp
  then show "E (Store db_error) (w\<lparr>w_faults := fs\<rparr>)" using E [where fs = fs and d = "w_tx w"] by simp
  have "wp (query (\<lambda>d. ())) Q E (w\<lparr>w_faults := fs, w_tx := w_db w\<rparr>)"
    using Q by (intro wp_query) (simp_all add: E world_commute)
  then show "wp (\<lambda>w. (Inr (), w\<lparr>w_tx := w_db w\<rparr>)) (\<lambda>_. wp (query (\<lambda>d. ())) Q E) E (w\<lparr>w_faults := fs\<rparr>)"
    by (simp add: wp_def)
qed

lemma wp_registry [wp_rules]: "Q () (w\<lparr>w_mgr := f (w_mgr w)\<rparr>) \<Longrightarrow> wp (registry f) Q E w"
  by (simp add: registry_def wp_def)

lemma wp_if [wp_rules]:
  "(b \<Longrightarrow> wp m Q E w) \<Longrightarrow> (\<not> b \<Longrightarrow> wp n Q E w) \<Longrightarrow> wp (if b then m else n) Q E w"
  by simp

lemma wp_let [wp_rules]: "wp (f x) Q E w \<Longrightarrow> wp (Let x f) Q E w"
  by simp

lemma wp_case_option [wp_rules]:
  "(x = None \<Longrightarrow> wp m Q E w) \<Longrightarrow> (\<And>a. x = Some a \<Longrightarrow> wp (f a) Q E w) \<Longrightarrow>
   wp (case x of None \<Rightarrow> m | Some a \<Rightarrow> f a) Q E w"
  by (cases x) auto

lemma wp_case_sum [wp_rules]:
  "(\<And>a. x = Inl a \<Longrightarrow> wp (g a) Q E w) \<Longrightarrow> (\<And>a. x = Inr a \<Longrightarrow> wp (f a) Q E w) \<Longrightarrow>
   wp (case x of Inl a \<Rightarrow> g a | Inr a \<Rightarrow> f a) Q E w"
  by (cases x) auto

lemma wp_reject_outstanding [wp_rules]:
  "(current = None \<Longrightarrow> Q () w) \<Longrightarrow> (\<And>e. E e w) \<Longrightarrow> wp (reject_outstanding err current) Q E w"
  unfolding reject_outstanding_def by (auto intro!: wp_rules)

lemma wp_find_open_offer [wp_rules]:
  "(\<And>fs. E (Store db_error) (w\<lparr>w_faults := fs\<rparr>)) \<Longrightarrow>
   (\<And>fs. open_offers sid (w_tx w) = [] \<Longrightarrow> Q None (w\<lparr>w_faults := fs\<rparr>)) \<Longrightarrow>
   (\<And>fs o1 os. open_offers sid (w_tx w) = o1 # os \<Longrightarrow> Q (Some o1) (w\<lparr>w_faults := fs\<rparr>)) \<Longrightarrow>
   wp (find_open_offer sid) Q E w"
  unfolding find_open_offer_def by (rule wp_query) (auto split: list.split)

lemma wp_broadcast [wp_rules]:
  "Q () (w\<lparr>w_mgr := broadcast_agent_authority_changed sid
        \<lparr>as_status = st, as_outstanding_offer = off\<rparr> (w_mgr w)\<rparr>) \<Longrightarrow>
   wp (broadcast_authority_state sid st off) Q E w"
  unfolding broadcast_authority_state_def by (rule wp_registry)

end
