(* ===== verification/Authority_Steps.thy ===== *)
theory Authority_Steps
  imports Authority_Logic
begin

text \<open>
  The abstract specification of the enrolment protocol: what one committed transaction may do to
  the tables.  \<open>db_step\<close> lists the protocol's transitions, each with the event that records it;
  \<open>Authority_Refinement\<close> shows that every operation of the service commits only such steps.
  Proved here of every reachable database: the schema's invariants, that terminal offers never
  change, and that the event log is a faithful history of every server's authority.
\<close>

section \<open>Effects of the statements\<close>

lemma find_server_Some:
  "find_server sid d = Some r \<Longrightarrow> r \<in> set (db_servers d) \<and> sv_id r = sid"
  by (auto simp: find_server_def find_Some_iff in_set_conv_nth)

lemma find_server_None: "find_server sid d = None \<longleftrightarrow> (\<forall>r \<in> set (db_servers d). sv_id r \<noteq> sid)"
  by (auto simp: find_server_def find_None_iff)

lemma find_offer_Some:
  "find_offer oid d = Some r \<Longrightarrow> r \<in> set (db_offers d) \<and> eo_id r = oid"
  by (auto simp: find_offer_def find_Some_iff in_set_conv_nth)

lemma find_map_id:
  "(\<And>r. key (f r) = key r) \<Longrightarrow>
   find (\<lambda>r. key r = k) (map (\<lambda>r. if key r = i then f r else r) rs) =
     (case find (\<lambda>r. key r = k) rs of None \<Rightarrow> None
      | Some r \<Rightarrow> Some (if k = i then f r else r))"
  by (induction rs) auto

lemma update_offer_SomeD:
  assumes "update_offer oid f d = Some d'"
  shows "db_servers d' = db_servers d" "db_events d' = db_events d"
    "db_offers d' = map (\<lambda>r. if eo_id r = oid then f r else r) (db_offers d)"
    "\<exists>row. find_offer oid d = Some row \<and> offer_checks (f row)"
  using assms by (auto simp: update_offer_def split: option.splits if_splits)

lemma insert_offer_SomeD:
  assumes "insert_offer row d = Some d'"
  shows "db_servers d' = db_servers d" "db_events d' = db_events d"
    "db_offers d' = db_offers d @ [row]" "find_offer (eo_id row) d = None"
    "find_server (eo_target_server_id row) d \<noteq> None" "offer_checks row"
    "eo_outcome row = None \<Longrightarrow> open_offers (eo_target_server_id row) d = []"
  using assms by (auto simp: insert_offer_def split: if_splits)

lemma update_server_SomeD:
  assumes "update_server sid f d = Some d'"
  shows "db_offers d' = db_offers d" "db_events d' = db_events d"
    "db_servers d' = map (\<lambda>r. if sv_id r = sid then f r else r) (db_servers d)"
  using assms by (auto simp: update_server_def split: if_splits)

lemma insert_event_row_SomeD:
  assumes "insert_event_row e d = Some d'"
  shows "db_servers d' = db_servers d" "db_offers d' = db_offers d"
    "db_events d' = db_events d @ [e]" "event_checks e"
    "\<forall>e' \<in> set (db_events d). ae_id e' \<noteq> ae_id e"
  using assms by (auto simp: insert_event_row_def list_ex_iff split: if_splits)

lemmas stmt_SomeD = update_offer_SomeD insert_offer_SomeD update_server_SomeD insert_event_row_SomeD

lemma find_server_cong: "db_servers d' = db_servers d \<Longrightarrow> find_server sid d' = find_server sid d"
  by (simp add: find_server_def)

section \<open>Transitions\<close>

text \<open>The two writes to a server's credential.\<close>

definition clear_token :: "datetime \<Rightarrow> server_row \<Rightarrow> server_row" where
  "clear_token t r = r\<lparr>sv_token_hash := None, sv_token_prefix := None, sv_updated_at := t\<rparr>"

definition set_token ::
  "string \<Rightarrow> string \<Rightarrow> string option \<Rightarrow> datetime \<Rightarrow> server_row \<Rightarrow> server_row" where
  "set_token hash prefix addr t r =
     r\<lparr>sv_token_hash := Some hash, sv_token_prefix := Some prefix, sv_last_remote_addr := addr,
       sv_updated_at := t\<rparr>"

fun insert_events :: "event_row list \<Rightarrow> db \<Rightarrow> db option" where
  "insert_events [] d = Some d"
| "insert_events (e # es) d = Option.bind (insert_event_row e d) (insert_events es)"

definition deletion_event :: "event_row \<Rightarrow> server_row \<Rightarrow> bool" where
  "deletion_event e r \<longleftrightarrow>
     ae_server_id e = sv_id r \<and> ae_transition e = ''server_deleted'' \<and>
     ae_authority_before e = authority_status_str (authority_status r) \<and>
     ae_authority_after e = ''unclaimed''"

inductive db_step :: "db \<Rightarrow> db \<Rightarrow> bool" where
  CloseOffer:
    "find_offer (eo_id row) d = Some row \<Longrightarrow> eo_outcome row = None \<Longrightarrow>
     find_server (eo_target_server_id row) d = Some server \<Longrightarrow>
     oc = ExpiredOffer \<or> oc = RevokedOffer \<Longrightarrow>
     update_offer (eo_id row) (set_terminal oc t None) d = Some d1 \<Longrightarrow>
     insert_event_row (event_row_of u t' \<lparr>ei_server = server, ei_actor = ac, ei_source = src,
       ei_offer_id = Some (eo_id row), ei_transition = transition_of_outcome oc, ei_mode = None,
       ei_offer_outcome = Some oc, ei_authority_before = authority_status server,
       ei_authority_after = authority_status server\<rparr>) d1 = Some d2 \<Longrightarrow>
     db_step d d2"
| IssueOffer:
    "find_server (eo_target_server_id row) d = Some server \<Longrightarrow> eo_outcome row = None \<Longrightarrow>
     (tr, md, authority_status server) \<in>
       {(InitialOfferIssued, None, Unclaimed), (OfferIssued, None, Unclaimed),
        (ReenrollmentStarted, Some Graceful, Claimed)} \<Longrightarrow>
     insert_offer row d = Some d1 \<Longrightarrow>
     insert_event_row (event_row_of u t' \<lparr>ei_server = server, ei_actor = ac, ei_source = src,
       ei_offer_id = Some (eo_id row), ei_transition = tr, ei_mode = md, ei_offer_outcome = None,
       ei_authority_before = authority_status server, ei_authority_after = authority_status server\<rparr>)
       d1 = Some d2 \<Longrightarrow>
     db_step d d2"
| EmergencyReenroll:
    "find_server (eo_target_server_id row) d = Some server \<Longrightarrow> authority_status server = Claimed \<Longrightarrow>
     eo_outcome row = None \<Longrightarrow>
     update_server (sv_id server) (clear_token t) d = Some d1 \<Longrightarrow>
     insert_offer row d1 = Some d2 \<Longrightarrow>
     insert_event_row (event_row_of u t' \<lparr>ei_server = server, ei_actor = ac, ei_source = src,
       ei_offer_id = Some (eo_id row), ei_transition = ReenrollmentStarted,
       ei_mode = Some Emergency, ei_offer_outcome = None, ei_authority_before = Claimed,
       ei_authority_after = Unclaimed\<rparr>) d2 = Some d3 \<Longrightarrow>
     db_step d d3"
| ConsumeOffer:
    "find_offer (eo_id row) d = Some row \<Longrightarrow> eo_outcome row = None \<Longrightarrow>
     find_server (eo_target_server_id row) d = Some server \<Longrightarrow>
     update_offer (eo_id row) (set_terminal Consumed t None) d = Some d1 \<Longrightarrow>
     update_server (sv_id server) (set_token hash prefix addr t) d1 = Some d2 \<Longrightarrow>
     insert_event_row (event_row_of u t' \<lparr>ei_server = server, ei_actor = Agent, ei_source = src,
       ei_offer_id = Some (eo_id row), ei_transition = OfferConsumed, ei_mode = None,
       ei_offer_outcome = Some Consumed, ei_authority_before = authority_status server,
       ei_authority_after = Claimed\<rparr>) d2 = Some d3 \<Longrightarrow>
     db_step d d3"
| ReplaceOffer:
    "find_offer (eo_id row) d = Some row \<Longrightarrow> eo_outcome row = None \<Longrightarrow>
     find_server (eo_target_server_id row) d = Some server \<Longrightarrow>
     eo_outcome succ = None \<Longrightarrow> eo_target_server_id succ = eo_target_server_id row \<Longrightarrow>
     update_offer (eo_id row) (set_terminal Replaced t (Some (eo_id succ))) d = Some d1 \<Longrightarrow>
     insert_offer succ d1 = Some d2 \<Longrightarrow>
     insert_event_row (event_row_of u t' \<lparr>ei_server = server, ei_actor = ac, ei_source = src,
       ei_offer_id = Some (eo_id row), ei_transition = OfferReplaced, ei_mode = None,
       ei_offer_outcome = Some Replaced, ei_authority_before = authority_status server,
       ei_authority_after = authority_status server\<rparr>) d2 = Some d3 \<Longrightarrow>
     db_step d d3"
| RevokeToken:
    "find_server sid d = Some server \<Longrightarrow> authority_status server = Claimed \<Longrightarrow>
     update_server sid (clear_token t) d = Some d1 \<Longrightarrow>
     insert_event_row (event_row_of u t' \<lparr>ei_server = server, ei_actor = ac, ei_source = src,
       ei_offer_id = None, ei_transition = AuthorityRevoked, ei_mode = None,
       ei_offer_outcome = None, ei_authority_before = Claimed, ei_authority_after = Unclaimed\<rparr>)
       d1 = Some d2 \<Longrightarrow>
     db_step d d2"
| DeleteServers:
    "rows = filter (\<lambda>r. List.member ids (sv_id r)) (db_servers d) \<Longrightarrow>
     list_all2 deletion_event es rows \<Longrightarrow> insert_events es d = Some d1 \<Longrightarrow>
     db_step d (delete_server_rows (map sv_id rows) d1)"
| CreateServer:
    "find_server (sv_id row) d = None \<Longrightarrow> sv_token_hash row = None \<Longrightarrow> \<not> is_blank (sv_id row) \<Longrightarrow>
     \<forall>e \<in> set (db_events d). ae_server_id e \<noteq> sv_id row \<Longrightarrow>
     db_step d (d\<lparr>db_servers := db_servers d @ [row]\<rparr>)"

inductive_cases db_stepE: "db_step d d'"

section \<open>The schema's invariant\<close>

definition db_ok :: "db \<Rightarrow> bool" where
  "db_ok d \<longleftrightarrow>
     distinct (map sv_id (db_servers d)) \<and> distinct (map eo_id (db_offers d)) \<and>
     distinct (map ae_id (db_events d)) \<and>
     list_all (\<lambda>r. \<not> is_blank (sv_id r)) (db_servers d) \<and>
     list_all offer_checks (db_offers d) \<and> list_all event_checks (db_events d) \<and>
     list_all (\<lambda>r. find_server (eo_target_server_id r) d \<noteq> None) (db_offers d) \<and>
     (\<forall>sid. length (open_offers sid d) \<le> 1)"

lemma map_key_update [simp]:
  "(\<And>r. key (f r) = key r) \<Longrightarrow> map key (map (\<lambda>r. if key r = i then f r else r) rs) = map key rs"
  by (induction rs) auto

lemma set_terminal_fields [simp]:
  "eo_id (set_terminal oc t s r) = eo_id r"
  "eo_target_server_id (set_terminal oc t s r) = eo_target_server_id r"
  "eo_outcome (set_terminal oc t s r) = Some (outcome_str oc)"
  "eo_expires_at (set_terminal oc t s r) = eo_expires_at r"
  "eo_code_hash (set_terminal oc t s r) = eo_code_hash r"
  by (simp_all add: set_terminal_def)

lemma token_fields [simp]:
  "sv_id (clear_token t r) = sv_id r" "sv_id (set_token h p a t r) = sv_id r"
  "sv_token_hash (clear_token t r) = None" "sv_token_hash (set_token h p a t r) = Some h"
  "authority_status (clear_token t r) = Unclaimed" "authority_status (set_token h p a t r) = Claimed"
  by (simp_all add: clear_token_def set_token_def authority_status_def)

lemma find_server_update:
  assumes "update_server sid f d = Some d'" and "\<And>r. sv_id (f r) = sv_id r"
  shows "find_server k d' = (case find_server k d of None \<Rightarrow> None
      | Some r \<Rightarrow> Some (if k = sid then f r else r))"
  using assms find_map_id [of sv_id f k sid "db_servers d"]
  by (simp add: find_server_def update_server_SomeD)

lemma find_unique:
  "distinct (map eo_id rs) \<Longrightarrow> r \<in> set rs \<Longrightarrow> find (\<lambda>x. eo_id x = eo_id r) rs = Some r"
  by (induction rs) auto

lemma length_filter_map_le:
  "(\<And>r. P (f r) \<Longrightarrow> P r) \<Longrightarrow> length (filter P (map f rs)) \<le> length (filter P rs)"
  by (induction rs) auto

lemma db_ok_update_offer:
  assumes ok: "db_ok d" and upd: "update_offer oid (set_terminal oc t s) d = Some d'"
  shows "db_ok d'"
proof -
  note eqs = update_offer_SomeD [OF upd]
  let ?f = "\<lambda>r. if eo_id r = oid then set_terminal oc t s r else r"
  from eqs(4) obtain row where row: "find_offer oid d = Some row" "offer_checks (set_terminal oc t s row)"
    by blast
  have checks: "offer_checks (?f r)" if "r \<in> set (db_offers d)" for r
  proof (cases "eo_id r = oid")
    case True
    with that ok row(1) have "row = r"
      using find_unique [of "db_offers d" r] by (simp add: db_ok_def find_offer_def)
    with True row(2) show ?thesis by simp
  next
    case False
    with that ok show ?thesis by (simp add: db_ok_def list_all_iff)
  qed
  have "length (open_offers sid d') \<le> length (open_offers sid d)" for sid
    unfolding open_offers_def eqs(3) by (rule length_filter_map_le) (simp split: if_splits)
  with ok have "\<forall>sid. length (open_offers sid d') \<le> 1"
    unfolding db_ok_def by (meson order_trans)
  moreover have "map eo_id (db_offers d') = map eo_id (db_offers d)"
    unfolding eqs(3) by (rule map_key_update) simp
  moreover have "list_all offer_checks (db_offers d')"
    using checks by (simp only: eqs(3) list_all_iff set_map ball_simps) blast
  moreover have "find_server (eo_target_server_id r) d' \<noteq> None" if "r \<in> set (db_offers d')" for r
  proof -
    from that obtain r0 where "r0 \<in> set (db_offers d)" and r: "r = ?f r0"
      unfolding eqs(3) set_map by blast
    then have "find_server (eo_target_server_id r0) d \<noteq> None"
      using ok by (simp add: db_ok_def list_all_iff)
    moreover have "eo_target_server_id r = eo_target_server_id r0" by (simp add: r)
    ultimately show ?thesis by (simp add: find_server_def eqs(1))
  qed
  then have "list_all (\<lambda>r. find_server (eo_target_server_id r) d' \<noteq> None) (db_offers d')"
    by (simp add: list_all_iff)
  ultimately show ?thesis
    using ok by (simp add: db_ok_def eqs(1,2))
qed

lemma db_ok_insert_offer:
  assumes ok: "db_ok d" and ins: "insert_offer row d = Some d'"
  shows "db_ok d'"
proof -
  note eqs = insert_offer_SomeD [OF ins]
  have "eo_id row \<notin> eo_id ` set (db_offers d)"
    using eqs(4) by (auto simp: find_offer_def find_None_iff)
  moreover have "length (open_offers sid d') \<le> 1" for sid
  proof (cases "eo_target_server_id row = sid \<and> eo_outcome row = None")
    case True
    with eqs(3,7) show ?thesis by (auto simp: open_offers_def)
  next
    case False
    then have "open_offers sid d' = open_offers sid d" by (auto simp: open_offers_def eqs(3))
    with ok show ?thesis by (simp add: db_ok_def)
  qed
  ultimately show ?thesis
    using ok eqs(5,6) by (auto simp: db_ok_def eqs(1-3) find_server_def)
qed

lemma db_ok_update_server:
  assumes ok: "db_ok d" and upd: "update_server sid f d = Some d'" and id: "\<And>r. sv_id (f r) = sv_id r"
  shows "db_ok d'"
proof -
  have "map sv_id (db_servers d') = map sv_id (db_servers d)"
    unfolding update_server_SomeD(3) [OF upd] by (rule map_key_update) (rule id)
  moreover have "find_server k d \<noteq> None \<Longrightarrow> find_server k d' \<noteq> None" for k
    by (auto simp: find_server_update [OF upd id])
  moreover have "list_all (\<lambda>r. \<not> is_blank (sv_id r)) (db_servers d')"
    using ok id by (auto simp: db_ok_def update_server_SomeD [OF upd] list_all_iff)
  ultimately show ?thesis
    using ok by (simp add: db_ok_def update_server_SomeD(1,2) [OF upd] open_offers_def list_all_iff)
qed

lemma db_ok_clear_token:
  "update_server sid (clear_token t) d = Some d' \<Longrightarrow> db_ok d \<Longrightarrow> db_ok d'"
  by (erule db_ok_update_server [rotated]) simp_all

lemma db_ok_set_token:
  "update_server sid (set_token h p a t) d = Some d' \<Longrightarrow> db_ok d \<Longrightarrow> db_ok d'"
  by (erule db_ok_update_server [rotated]) simp_all

lemma db_ok_insert_event:
  assumes ok: "db_ok d" and ins: "insert_event_row e d = Some d'"
  shows "db_ok d'"
proof -
  note eqs = insert_event_row_SomeD [OF ins]
  have "ae_id e \<notin> ae_id ` set (db_events d)" using eqs(5) by auto
  with ok eqs(4) show ?thesis
    by (auto simp: db_ok_def eqs(1-3) open_offers_def find_server_def)
qed

lemma db_ok_insert_events:
  "db_ok d \<Longrightarrow> insert_events es d = Some d' \<Longrightarrow> db_ok d'"
  by (induction es arbitrary: d) (auto simp: bind_eq_Some_conv intro: db_ok_insert_event)

lemma db_ok_delete:
  assumes "db_ok d"
  shows "db_ok (delete_server_rows ids d)"
proof -
  have "find_server sid d \<noteq> None \<Longrightarrow> \<not> List.member ids sid \<Longrightarrow>
      find_server sid (delete_server_rows ids d) \<noteq> None" for sid
    by (auto simp: find_server_None delete_server_rows_def)
  moreover have "open_offers sid (delete_server_rows ids d) =
      filter (\<lambda>r. \<not> List.member ids (eo_target_server_id r)) (open_offers sid d)" for sid
    by (simp add: open_offers_def delete_server_rows_def conj_ac)
  then have "length (open_offers sid (delete_server_rows ids d)) \<le> length (open_offers sid d)" for sid
    by simp
  then have "\<forall>sid. length (open_offers sid (delete_server_rows ids d)) \<le> 1"
    using assms unfolding db_ok_def by (meson order_trans)
  ultimately show ?thesis
    using assms
    by (auto simp: db_ok_def delete_server_rows_def list_all_iff distinct_map_filter)
qed

lemma db_ok_step: "db_step d d' \<Longrightarrow> db_ok d \<Longrightarrow> db_ok d'"
proof (induction rule: db_step.induct)
  case (DeleteServers rows ids d es d1)
  then show ?case by (auto intro: db_ok_delete db_ok_insert_events)
next
  case (CreateServer row d)
  moreover have "find_server k (d\<lparr>db_servers := db_servers d @ [row]\<rparr>) \<noteq> None"
    if "find_server k d \<noteq> None" for k
    using that by (auto simp: find_server_None)
  ultimately show ?case
    by (auto simp: db_ok_def open_offers_def list_all_iff find_server_None)
next
  case (CloseOffer row d server oc t d1)
  from CloseOffer.prems CloseOffer.hyps show ?case
    by (blast intro: db_ok_update_offer db_ok_insert_event)
next
  case (IssueOffer row d server)
  from IssueOffer.prems IssueOffer.hyps show ?case
    by (blast intro: db_ok_insert_offer db_ok_insert_event)
next
  case (EmergencyReenroll row d server t d1 d2)
  have "db_ok d1" using EmergencyReenroll.hyps(4) EmergencyReenroll.prems by (rule db_ok_clear_token)
  then have "db_ok d2" using EmergencyReenroll.hyps(5) by (rule db_ok_insert_offer)
  then show ?case using EmergencyReenroll.hyps(6) by (rule db_ok_insert_event)
next
  case (ConsumeOffer row d server t d1 hash prefix addr d2)
  have "db_ok d1" using ConsumeOffer.prems ConsumeOffer.hyps(4) by (rule db_ok_update_offer)
  with ConsumeOffer.hyps(5) have "db_ok d2" by (rule db_ok_set_token)
  then show ?case using ConsumeOffer.hyps(6) by (rule db_ok_insert_event)
next
  case (ReplaceOffer row d server succ t d1 d2)
  have "db_ok d1" using ReplaceOffer.prems ReplaceOffer.hyps(6) by (rule db_ok_update_offer)
  then have "db_ok d2" using ReplaceOffer.hyps(7) by (rule db_ok_insert_offer)
  then show ?case using ReplaceOffer.hyps(8) by (rule db_ok_insert_event)
next
  case (RevokeToken sid d server t d1)
  have "db_ok d1" using RevokeToken.hyps(3) RevokeToken.prems by (rule db_ok_clear_token)
  then show ?case using RevokeToken.hyps(4) by (rule db_ok_insert_event)
qed

lemma db_ok_steps: "db_step\<^sup>*\<^sup>* d d' \<Longrightarrow> db_ok d \<Longrightarrow> db_ok d'"
  by (induction rule: rtranclp_induct) (auto intro: db_ok_step)

section \<open>The event log\<close>

definition events_of :: "string \<Rightarrow> db \<Rightarrow> event_row list" where
  "events_of sid d = filter (\<lambda>e. ae_server_id e = sid) (db_events d)"

text \<open>A history: every event starts from the authority the one before it left.\<close>

fun chained :: "string \<Rightarrow> event_row list \<Rightarrow> bool" where
  "chained st [] \<longleftrightarrow> True"
| "chained st (e # es) \<longleftrightarrow> ae_authority_before e = st \<and> chained (ae_authority_after e) es"

fun final_status :: "string \<Rightarrow> event_row list \<Rightarrow> string" where
  "final_status st [] = st"
| "final_status st (e # es) = final_status (ae_authority_after e) es"

lemma chained_snoc:
  "chained st (es @ [e]) \<longleftrightarrow> chained st es \<and> ae_authority_before e = final_status st es"
  by (induction es arbitrary: st) auto

lemma final_status_snoc [simp]: "final_status st (es @ [e]) = ae_authority_after e"
  by (induction es arbitrary: st) auto

text \<open>
  The log is faithful: each server's events form a history that starts unclaimed and ends in the
  authority its row holds.
\<close>

definition log_ok :: "db \<Rightarrow> bool" where
  "log_ok d \<longleftrightarrow>
     (\<forall>sid. chained ''unclaimed'' (events_of sid d)) \<and>
     (\<forall>sid r. find_server sid d = Some r \<longrightarrow>
        final_status ''unclaimed'' (events_of sid d) = authority_status_str (authority_status r))"

lemma log_append:
  assumes log: "log_ok d" and ev: "db_events d' = db_events d @ [e]"
    and s: "find_server (ae_server_id e) d = Some s"
    and before: "ae_authority_before e = authority_status_str (authority_status s)"
    and here: "\<And>r. find_server (ae_server_id e) d' = Some r \<Longrightarrow>
        ae_authority_after e = authority_status_str (authority_status r)"
    and elsewhere: "\<And>k r. k \<noteq> ae_server_id e \<Longrightarrow> find_server k d' = Some r \<Longrightarrow>
        find_server k d = Some r"
  shows "log_ok d'"
  unfolding log_ok_def
proof (intro conjI allI impI)
  fix sid
  show "chained ''unclaimed'' (events_of sid d')"
    using log s before by (auto simp: log_ok_def events_of_def ev chained_snoc)
  fix r assume r: "find_server sid d' = Some r"
  show "final_status ''unclaimed'' (events_of sid d') = authority_status_str (authority_status r)"
  proof (cases "ae_server_id e = sid")
    case True
    with here r show ?thesis by (simp add: events_of_def ev)
  next
    case False
    with elsewhere [of sid r] r log show ?thesis by (simp add: events_of_def ev log_ok_def)
  qed
qed

lemma event_row_of_fields [simp]:
  "ae_server_id (event_row_of u t i) = sv_id (ei_server i)"
  "ae_authority_before (event_row_of u t i) = authority_status_str (ei_authority_before i)"
  "ae_authority_after (event_row_of u t i) = authority_status_str (ei_authority_after i)"
  "ae_transition (event_row_of u t i) = transition_str (ei_transition i)"
  "ae_offer_id (event_row_of u t i) = ei_offer_id i"
  by (simp_all add: event_row_of_def)

lemma insert_events_SomeD:
  "insert_events es d = Some d' \<Longrightarrow>
   db_servers d' = db_servers d \<and> db_offers d' = db_offers d \<and> db_events d' = db_events d @ es"
  by (induction es arbitrary: d) (auto simp: bind_eq_Some_conv insert_event_row_SomeD)

lemma deletion_events_of:
  "list_all2 deletion_event es rows \<Longrightarrow> distinct (map sv_id rows) \<Longrightarrow>
   (\<forall>r \<in> set rows. sv_id r \<noteq> sid) \<and> filter (\<lambda>e. ae_server_id e = sid) es = [] \<or>
   (\<exists>r \<in> set rows. \<exists>e. sv_id r = sid \<and> deletion_event e r \<and>
      filter (\<lambda>e. ae_server_id e = sid) es = [e])"
proof (induction rule: list_all2_induct)
  case Nil
  then show ?case by simp
next
  case (Cons e es r rows)
  have id: "ae_server_id e = sv_id r" using Cons.hyps by (simp add: deletion_event_def)
  show ?case
  proof (cases "sv_id r = sid")
    case True
    with Cons.prems have "\<forall>r' \<in> set rows. sv_id r' \<noteq> sid" by (force simp: image_iff)
    with Cons.IH Cons.prems have "filter (\<lambda>e. ae_server_id e = sid) es = []" by auto
    with True Cons.hyps(1) id show ?thesis by auto
  next
    case False
    with Cons.IH Cons.prems id show ?thesis by auto
  qed
qed

lemma log_delete:
  assumes log: "log_ok d" and ok: "db_ok d"
    and rows: "rows = filter (\<lambda>r. List.member ids (sv_id r)) (db_servers d)"
    and es: "list_all2 deletion_event es rows" and ins: "insert_events es d = Some d1"
  shows "log_ok (delete_server_rows (map sv_id rows) d1)"
proof -
  let ?d' = "delete_server_rows (map sv_id rows) d1"
  note eqs = insert_events_SomeD [OF ins]
  have dist: "distinct (map sv_id rows)"
    using ok by (auto simp: rows db_ok_def distinct_map_filter)
  have evs: "events_of sid ?d' = events_of sid d @ filter (\<lambda>e. ae_server_id e = sid) es" for sid
    by (simp add: events_of_def delete_server_rows_def eqs)
  have gone: "find_server sid ?d' = Some r \<Longrightarrow>
      (\<forall>r' \<in> set rows. sv_id r' \<noteq> sid) \<and> find_server sid d = Some r" for sid r
  proof -
    assume a: "find_server sid ?d' = Some r"
    from find_server_Some [OF a] have m: "r \<in> set (db_servers d)" "sv_id r = sid"
      "\<forall>r' \<in> set rows. sv_id r' \<noteq> sid"
      by (auto simp: delete_server_rows_def eqs image_iff)
    moreover have "distinct (map sv_id rs) \<Longrightarrow> x \<in> set rs \<Longrightarrow> find (\<lambda>y. sv_id y = sv_id x) rs = Some x"
      for rs and x :: server_row by (induction rs) auto
    ultimately show ?thesis using ok by (auto simp: find_server_def db_ok_def)
  qed
  have known: "\<exists>s. find_server (sv_id r) d = Some s \<and> s = r" if "r \<in> set rows" for r
  proof -
    have "distinct (map sv_id rs) \<Longrightarrow> x \<in> set rs \<Longrightarrow> find (\<lambda>y. sv_id y = sv_id x) rs = Some x"
      for rs and x :: server_row by (induction rs) auto
    with that ok show ?thesis by (auto simp: find_server_def db_ok_def rows)
  qed
  show ?thesis
    unfolding log_ok_def
  proof (intro conjI allI impI)
    fix sid
    from deletion_events_of [OF es dist, of sid]
    show "chained ''unclaimed'' (events_of sid ?d')"
    proof (elim disjE conjE bexE exE)
      fix r e assume "r \<in> set rows" "sv_id r = sid" "deletion_event e r"
        "filter (\<lambda>e. ae_server_id e = sid) es = [e]"
      with known [of r] log show ?thesis
        by (auto simp: evs chained_snoc log_ok_def deletion_event_def)
    qed (use log in \<open>simp add: evs log_ok_def\<close>)
    fix r assume "find_server sid ?d' = Some r"
    with gone [of sid r] deletion_events_of [OF es dist, of sid] log
    show "final_status ''unclaimed'' (events_of sid ?d') = authority_status_str (authority_status r)"
      by (auto simp: evs log_ok_def)
  qed
qed

lemma find_server_id: "find_server k d = Some r \<Longrightarrow> sv_id r = k"
  by (simp add: find_server_Some)

lemma log_append_event:
  assumes log: "log_ok d" and ins: "insert_event_row (event_row_of u t i) d1 = Some d2"
    and ev: "db_events d1 = db_events d"
    and s: "find_server (sv_id (ei_server i)) d = Some (ei_server i)"
    and before: "ei_authority_before i = authority_status (ei_server i)"
    and srv: "\<And>k. find_server k d1 = (if k = sv_id (ei_server i) then Some s' else find_server k d)"
    and after: "ei_authority_after i = authority_status s'"
  shows "log_ok d2"
proof (rule log_append [OF log])
  note cong = find_server_cong [OF insert_event_row_SomeD(1) [OF ins]]
  show "db_events d2 = db_events d @ [event_row_of u t i]"
    using insert_event_row_SomeD(3) [OF ins] ev by simp
  show "find_server (ae_server_id (event_row_of u t i)) d = Some (ei_server i)" using s by simp
  show "ae_authority_before (event_row_of u t i) = authority_status_str (authority_status (ei_server i))"
    by (simp add: before)
  show "find_server (ae_server_id (event_row_of u t i)) d2 = Some r \<Longrightarrow>
      ae_authority_after (event_row_of u t i) = authority_status_str (authority_status r)" for r
    by (simp add: cong srv after)
  show "k \<noteq> ae_server_id (event_row_of u t i) \<Longrightarrow> find_server k d2 = Some r \<Longrightarrow>
      find_server k d = Some r" for k r
    by (simp add: cong srv)
qed

lemma find_server_create:
  "find_server k (d\<lparr>db_servers := db_servers d @ [row]\<rparr>) =
     (case find_server k d of Some r \<Rightarrow> Some r | None \<Rightarrow> if sv_id row = k then Some row else None)"
proof -
  have "find P (rs @ [x]) = (case find P rs of Some r \<Rightarrow> Some r | None \<Rightarrow> if P x then Some x else None)"
    for P :: "server_row \<Rightarrow> bool" and rs x by (induction rs) auto
  then show ?thesis by (simp add: find_server_def)
qed

lemma log_step: "db_step d d' \<Longrightarrow> db_ok d \<Longrightarrow> log_ok d \<Longrightarrow> log_ok d'"
proof (induction rule: db_step.induct)
  case (CloseOffer row d server oc t d1 u t' ac src d2)
  note s = CloseOffer.hyps(3) find_server_id [OF CloseOffer.hyps(3)]
    find_server_cong [OF update_offer_SomeD(1) [OF CloseOffer.hyps(5)]]
  show ?case
    by (rule log_append_event [OF CloseOffer.prems(2) CloseOffer.hyps(6), where s' = server])
      (simp_all add: s update_offer_SomeD(2) [OF CloseOffer.hyps(5)])
next
  case (IssueOffer row d server tr md d1 u t' ac src d2)
  note s = IssueOffer.hyps(1) find_server_id [OF IssueOffer.hyps(1)]
    find_server_cong [OF insert_offer_SomeD(1) [OF IssueOffer.hyps(4)]]
  show ?case
    by (rule log_append_event [OF IssueOffer.prems(2) IssueOffer.hyps(5), where s' = server])
      (simp_all add: s insert_offer_SomeD(2) [OF IssueOffer.hyps(4)])
next
  case (EmergencyReenroll row d server t d1 d2 u t' ac src d3)
  note s = EmergencyReenroll.hyps(1,2) find_server_id [OF EmergencyReenroll.hyps(1)]
    find_server_cong [OF insert_offer_SomeD(1) [OF EmergencyReenroll.hyps(5)]]
    find_server_update [OF EmergencyReenroll.hyps(4) token_fields(1)]
  show ?case
    by (rule log_append_event [OF EmergencyReenroll.prems(2) EmergencyReenroll.hyps(6),
          where s' = "clear_token t server"])
      (simp_all add: s insert_offer_SomeD(2) [OF EmergencyReenroll.hyps(5)]
        update_server_SomeD(2) [OF EmergencyReenroll.hyps(4)] split: option.split)
next
  case (ConsumeOffer row d server t d1 hash prefix addr d2 u t' src d3)
  note s = ConsumeOffer.hyps(3) find_server_id [OF ConsumeOffer.hyps(3)]
    find_server_update [OF ConsumeOffer.hyps(5) token_fields(2)]
    find_server_cong [OF update_offer_SomeD(1) [OF ConsumeOffer.hyps(4)]]
  show ?case
    by (rule log_append_event [OF ConsumeOffer.prems(2) ConsumeOffer.hyps(6),
          where s' = "set_token hash prefix addr t server"])
      (simp_all add: s update_offer_SomeD(2) [OF ConsumeOffer.hyps(4)]
        update_server_SomeD(2) [OF ConsumeOffer.hyps(5)] split: option.split)
next
  case (ReplaceOffer row d server succ t d1 d2 u t' ac src d3)
  note s = ReplaceOffer.hyps(3) find_server_id [OF ReplaceOffer.hyps(3)]
    find_server_cong [OF insert_offer_SomeD(1) [OF ReplaceOffer.hyps(7)]]
    find_server_cong [OF update_offer_SomeD(1) [OF ReplaceOffer.hyps(6)]]
  show ?case
    by (rule log_append_event [OF ReplaceOffer.prems(2) ReplaceOffer.hyps(8), where s' = server])
      (simp_all add: s insert_offer_SomeD(2) [OF ReplaceOffer.hyps(7)]
        update_offer_SomeD(2) [OF ReplaceOffer.hyps(6)])
next
  case (RevokeToken sid d server t d1 u t' ac src d2)
  note s = RevokeToken.hyps(1,2) find_server_id [OF RevokeToken.hyps(1)]
    find_server_update [OF RevokeToken.hyps(3) token_fields(1)]
  show ?case
    by (rule log_append_event [OF RevokeToken.prems(2) RevokeToken.hyps(4),
          where s' = "clear_token t server"])
      (simp_all add: s update_server_SomeD(2) [OF RevokeToken.hyps(3)] split: option.split)
next
  case (DeleteServers rows ids d es d1)
  then show ?case by (intro log_delete) auto
next
  case (CreateServer row d)
  have evs: "events_of sid (d\<lparr>db_servers := db_servers d @ [row]\<rparr>) = events_of sid d" for sid
    by (simp add: events_of_def)
  have none: "events_of (sv_id row) d = []"
    using CreateServer.hyps(4) by (simp add: events_of_def filter_empty_conv)
  show ?case
    unfolding log_ok_def evs
  proof (intro conjI allI impI)
    fix sid r
    show "chained ''unclaimed'' (events_of sid d)"
      using CreateServer.prems(2) by (simp add: log_ok_def)
    assume "find_server sid (d\<lparr>db_servers := db_servers d @ [row]\<rparr>) = Some r"
    then consider "find_server sid d = Some r" | "sid = sv_id row" "r = row"
      by (auto simp: find_server_create split: option.splits if_splits)
    then show "final_status ''unclaimed'' (events_of sid d) = authority_status_str (authority_status r)"
    proof cases
      case 1
      with CreateServer.prems(2) show ?thesis by (simp add: log_ok_def)
    next
      case 2
      with none CreateServer.hyps(2) show ?thesis by (simp add: authority_status_def)
    qed
  qed
qed

lemma log_steps: "db_step\<^sup>*\<^sup>* d d' \<Longrightarrow> db_ok d \<Longrightarrow> log_ok d \<Longrightarrow> log_ok d'"
  by (induction rule: rtranclp_induct) (auto intro: log_step db_ok_steps)

section \<open>Terminal offers\<close>

text \<open>Deleting a server leaves its deletion event behind.\<close>

definition deleted :: "string \<Rightarrow> db \<Rightarrow> bool" where
  "deleted sid d \<longleftrightarrow>
     list_ex (\<lambda>e. ae_server_id e = sid \<and> ae_transition e = ''server_deleted'') (db_events d)"

lemma events_grow: "db_step d d' \<Longrightarrow> \<exists>es. db_events d' = db_events d @ es"
  by (induction rule: db_step.induct)
    (auto simp: stmt_SomeD delete_server_rows_def dest: insert_events_SomeD)

lemma deleted_step: "db_step d d' \<Longrightarrow> deleted sid d \<Longrightarrow> deleted sid d'"
  using events_grow by (fastforce simp: deleted_def)

lemma find_offer_insert:
  "insert_offer row d = Some d' \<Longrightarrow> find_offer oid d = Some r \<Longrightarrow> find_offer oid d' = Some r"
proof -
  have "find P rs = Some r \<Longrightarrow> find P (rs @ xs) = Some r" for P :: "offer_row \<Rightarrow> bool" and rs xs
    by (induction rs) (auto split: if_splits)
  then show "insert_offer row d = Some d' \<Longrightarrow> find_offer oid d = Some r \<Longrightarrow> find_offer oid d' = Some r"
    by (simp add: find_offer_def insert_offer_SomeD(3))
qed

lemma find_offer_update:
  "update_offer i f d = Some d' \<Longrightarrow> (\<And>r. eo_id (f r) = eo_id r) \<Longrightarrow>
   find_offer oid d' = (case find_offer oid d of None \<Rightarrow> None | Some r \<Rightarrow> Some (if oid = i then f r else r))"
  using find_map_id [of eo_id f oid i "db_offers d"]
  by (simp add: find_offer_def update_offer_SomeD(3))

lemma find_offer_cong: "db_offers d' = db_offers d \<Longrightarrow> find_offer oid d' = find_offer oid d"
  by (simp add: find_offer_def)

lemma find_offer_delete:
  assumes "find_offer oid d = Some r" and "\<not> List.member ids (eo_target_server_id r)"
  shows "find_offer oid (delete_server_rows ids d) = Some r"
proof -
  have "find P rs = Some x \<Longrightarrow> Q x \<Longrightarrow> find P (filter Q rs) = Some x"
    for P Q :: "offer_row \<Rightarrow> bool" and rs x by (induction rs) (auto split: if_splits)
  with assms show ?thesis by (simp add: find_offer_def delete_server_rows_def)
qed

lemma find_offer_stmt:
  "insert_event_row e d = Some d' \<Longrightarrow> find_offer oid d' = find_offer oid d"
  "update_server sid g d = Some d' \<Longrightarrow> find_offer oid d' = find_offer oid d"
  by (erule find_offer_cong [OF insert_event_row_SomeD(2)])
    (erule find_offer_cong [OF update_server_SomeD(1)])

lemma terminal_update:
  assumes "update_offer (eo_id row) (set_terminal oc t s) d = Some d'"
    and "find_offer (eo_id row) d = Some row" and "eo_outcome row = None"
    and "find_offer oid d = Some r" and "eo_outcome r \<noteq> None"
  shows "find_offer oid d' = Some r"
  using assms by (auto simp: find_offer_update [OF assms(1)])

lemma terminal_step:
  assumes "db_step d d'" and "find_offer oid d = Some r" and "eo_outcome r \<noteq> None"
  shows "find_offer oid d' = Some r \<or> deleted (eo_target_server_id r) d'"
  using assms
proof (induction rule: db_step.induct)
  case (DeleteServers rows ids d es d1)
  note eqs = insert_events_SomeD [OF DeleteServers.hyps(3)]
  show ?case
  proof (cases "List.member (map sv_id rows) (eo_target_server_id r)")
    case True
    then obtain x where x: "x \<in> set rows" "sv_id x = eo_target_server_id r" by auto
    then obtain i where "i < length rows" "rows ! i = x" by (auto simp: in_set_conv_nth)
    with DeleteServers.hyps(2) have "es ! i \<in> set es" "deletion_event (es ! i) x"
      by (auto simp: list_all2_conv_all_nth)
    with x eqs show ?thesis
      by (auto simp: deleted_def delete_server_rows_def list_ex_iff deletion_event_def)
  next
    case False
    moreover have "find_offer oid d1 = Some r"
      using DeleteServers.prems(1) eqs by (simp only: find_offer_cong [of d1 d])
    ultimately show ?thesis by (simp add: find_offer_delete)
  qed
next
  case (CreateServer row d)
  then show ?case by (simp add: find_offer_def)
next
  case (CloseOffer row d)
  note terminal_update [OF CloseOffer.hyps(5,1,2) CloseOffer.prems]
  then show ?case using find_offer_stmt(1) [OF CloseOffer.hyps(6)] by simp
next
  case (IssueOffer row d)
  note find_offer_insert [OF IssueOffer.hyps(4) IssueOffer.prems(1)]
  then show ?case using find_offer_stmt(1) [OF IssueOffer.hyps(5)] by simp
next
  case (EmergencyReenroll row d server t d1)
  have "find_offer oid d1 = Some r"
    using find_offer_stmt(2) [OF EmergencyReenroll.hyps(4)] EmergencyReenroll.prems(1) by simp
  note find_offer_insert [OF EmergencyReenroll.hyps(5) this]
  then show ?case using find_offer_stmt(1) [OF EmergencyReenroll.hyps(6)] by simp
next
  case (ConsumeOffer row d)
  note terminal_update [OF ConsumeOffer.hyps(4,1,2) ConsumeOffer.prems]
  then show ?case
    using find_offer_stmt(2) [OF ConsumeOffer.hyps(5)] find_offer_stmt(1) [OF ConsumeOffer.hyps(6)]
    by simp
next
  case (ReplaceOffer row d)
  note find_offer_insert [OF ReplaceOffer.hyps(7)
      terminal_update [OF ReplaceOffer.hyps(6,1,2) ReplaceOffer.prems]]
  then show ?case using find_offer_stmt(1) [OF ReplaceOffer.hyps(8)] by simp
next
  case (RevokeToken sid d)
  then show ?case
    using find_offer_stmt(2) [OF RevokeToken.hyps(3)] find_offer_stmt(1) [OF RevokeToken.hyps(4)]
    by simp
qed

lemma terminal_steps:
  assumes "db_step\<^sup>*\<^sup>* d d'" and "find_offer oid d = Some r" and "eo_outcome r \<noteq> None"
  shows "find_offer oid d' = Some r \<or> deleted (eo_target_server_id r) d'"
  using assms
  by (induction rule: rtranclp_induct) (auto dest: terminal_step deleted_step)

end
