(* ===== verification/Authority_Refinement.thy ===== *)
theory Authority_Refinement
  imports Authority_Steps
begin

text \<open>
  Every operation of the service refines the abstract protocol: whatever statement fails and
  wherever it returns, what it commits is a sequence of \<open>db_step\<close>s, the registry only evolves by
  its own operations, and a connection that survives the operation keeps the server row it was
  admitted under (\<open>keeps_live\<close>).  Only the admission adds a connection.
\<close>

section \<open>What an operation may do\<close>

definition reg_evolves :: "agent_manager \<Rightarrow> agent_manager \<Rightarrow> bool" where
  "reg_evolves m m' \<longleftrightarrow> (\<exists>ops. m' = am_run m ops)"

lemma reg_evolves_refl [simp]: "reg_evolves m m"
  unfolding reg_evolves_def by (rule exI [of _ "[]"]) simp

lemma am_run_append: "am_run m (ops @ [op]) = am_step (am_run m ops) op"
  by (induction ops arbitrary: m) auto

lemma reg_evolves_step: "reg_evolves m m' \<Longrightarrow> reg_evolves m (am_step m' op)"
  unfolding reg_evolves_def by (metis am_run_append)

lemma reg_evolves_ops [simp, intro]:
  "reg_evolves m m' \<Longrightarrow> reg_evolves m (remove_connection s m')"
  "reg_evolves m m' \<Longrightarrow> reg_evolves m (broadcast_agent_authority_changed s p m')"
  "reg_evolves m m' \<Longrightarrow> reg_evolves m (remove_cached_report s m')"
  using reg_evolves_step [of m m' "Disconnect s"] reg_evolves_step [of m m' "AuthorityChanged s p"]
    reg_evolves_step [of m m' "DropReport s"]
  by simp_all

lemma reg_evolves_fold_remove [simp, intro]:
  "reg_evolves m m' \<Longrightarrow> reg_evolves m (fold (\<lambda>row. remove_connection (sv_id row)) rows m')"
  by (induction rows arbitrary: m') auto

lemma reg_evolves_fold_cached [simp, intro]:
  "reg_evolves m m' \<Longrightarrow> reg_evolves m (fold remove_cached_report ids m')"
  by (induction ids arbitrary: m') auto

definition conns :: "agent_manager \<Rightarrow> string \<Rightarrow> agent_connection option" where
  "conns m s = tget (am_connections m) s"

lemma conns_ops [simp]:
  "conns (remove_connection s m) s' = (if s' = s then None else conns m s')"
  "conns (broadcast_agent_authority_changed s p m) s' = conns m s'"
  "conns (remove_cached_report s m) s' = conns m s'"
  by (auto simp: conns_def remove_connection_def table_simps thas_def
      broadcast_agent_authority_changed_def broadcast_browser_def remove_cached_report_def)

lemma conns_fold_remove [simp]:
  "conns (fold (\<lambda>row. remove_connection (sv_id row)) rows m) s' =
     (if s' \<in> sv_id ` set rows then None else conns m s')"
  by (induction rows arbitrary: m) auto

lemma conns_fold_cached [simp]: "conns (fold remove_cached_report ids m) s' = conns m s'"
  by (induction ids arbitrary: m) auto

definition keeps_live :: "world \<Rightarrow> world \<Rightarrow> bool" where
  "keeps_live w w' \<longleftrightarrow>
     (\<forall>s c. conns (w_mgr w') s = Some c \<longrightarrow>
        conns (w_mgr w) s = Some c \<and> find_server s (w_db w') = find_server s (w_db w))"

definition refines :: "world \<Rightarrow> world \<Rightarrow> bool" where
  "refines w w' \<longleftrightarrow>
     db_step\<^sup>*\<^sup>* (w_db w) (w_db w') \<and> reg_evolves (w_mgr w) (w_mgr w') \<and> keeps_live w w'"

text \<open>Nothing committed, connections lost at most.\<close>

lemma refines_uncommitted:
  "w_db w' = w_db w \<Longrightarrow> reg_evolves (w_mgr w) (w_mgr w') \<Longrightarrow>
   (\<And>s c. conns (w_mgr w') s = Some c \<Longrightarrow> conns (w_mgr w) s = Some c) \<Longrightarrow> refines w w'"
  by (simp add: refines_def keeps_live_def)

lemma refines_committed:
  "db_step\<^sup>*\<^sup>* (w_db w) (w_db w') \<Longrightarrow> reg_evolves (w_mgr w) (w_mgr w') \<Longrightarrow>
   (\<And>s c. conns (w_mgr w') s = Some c \<Longrightarrow>
      conns (w_mgr w) s = Some c \<and> find_server s (w_db w') = find_server s (w_db w)) \<Longrightarrow>
   refines w w'"
  by (simp add: refines_def keeps_live_def)

section \<open>The shared helpers\<close>

text \<open>\<open>terminalize_offer\<close> closes the offer it is given, or fails.\<close>

definition closes :: "offer_row \<Rightarrow> offer_outcome \<Rightarrow> db \<Rightarrow> db \<Rightarrow> bool" where
  "closes row oc d d' \<longleftrightarrow> db_step d d' \<and> db_servers d' = db_servers d \<and>
     (\<exists>t. db_offers d' = map (\<lambda>r. if eo_id r = eo_id row then set_terminal oc t None r else r) (db_offers d))"

lemma wp_terminalize:
  assumes row: "find_offer (eo_id row) (w_tx w) = Some row" "eo_outcome row = None"
    and srv: "find_server (eo_target_server_id row) (w_tx w) = Some server"
    and oc: "oc = ExpiredOffer \<or> oc = RevokedOffer"
    and st: "st = authority_status server"
    and E: "\<And>fs d. E (Store db_error) (w\<lparr>w_faults := fs, w_tx := d\<rparr>)"
    and Q: "\<And>fs d. closes row oc (w_tx w) d \<Longrightarrow> Q () (w\<lparr>w_faults := fs, w_tx := d\<rparr>)"
  shows "wp (terminalize_offer u t1 t2 row oc None server ac src st st) Q E w"
  unfolding terminalize_offer_def insert_event_def
proof (intro wp_rules)
  fix fs
  have "w\<lparr>w_faults := fs, w_tx := w_tx w\<rparr> = w\<lparr>w_faults := fs\<rparr>" by (cases w) simp
  then show "E (Store db_error) (w\<lparr>w_faults := fs\<rparr>)"
    using E [where fs = fs and d = "w_tx w"] by simp
next
  fix fs d fs'
  show "E (Store db_error) (w\<lparr>w_faults := fs, w_tx := d, w_faults := fs'\<rparr>)"
    using E [where fs = fs' and d = d] by (simp add: world_commute)
next
  fix fs d1 fs' d2
  assume upd: "update_offer (eo_id row) (set_terminal oc t1 None) (w_tx w) = Some d1"
    and ins: "insert_event_row (event_row_of u t2
        \<lparr>ei_server = server, ei_actor = ac, ei_source = src, ei_offer_id = Some (eo_id row),
         ei_transition = transition_of_outcome oc, ei_mode = None, ei_offer_outcome = Some oc,
         ei_authority_before = st, ei_authority_after = st\<rparr>)
        (w_tx (w\<lparr>w_faults := fs, w_tx := d1\<rparr>)) = Some d2"
  from ins have ins': "insert_event_row (event_row_of u t2
        \<lparr>ei_server = server, ei_actor = ac, ei_source = src, ei_offer_id = Some (eo_id row),
         ei_transition = transition_of_outcome oc, ei_mode = None, ei_offer_outcome = Some oc,
         ei_authority_before = authority_status server,
         ei_authority_after = authority_status server\<rparr>) d1 = Some d2"
    by (simp add: st)
  have "closes row oc (w_tx w) d2"
    using db_step.CloseOffer [OF row srv oc upd ins']
      insert_event_row_SomeD(1,2) [OF ins'] update_offer_SomeD(1,3) [OF upd]
    unfolding closes_def by auto
  from Q [OF this, of fs'] show
    "Q () (w\<lparr>w_faults := fs, w_tx := d1, w_faults := fs', w_tx := d2\<rparr>)"
    by (simp add: world_commute)
qed

lemma open_offers_unique:
  assumes "db_ok d" and "open_offers sid d = o1 # os"
  shows "os = [] \<and> eo_outcome o1 = None \<and> eo_target_server_id o1 = sid \<and>
    find_offer (eo_id o1) d = Some o1"
proof -
  have "length (open_offers sid d) \<le> 1" using assms(1) by (simp add: db_ok_def)
  moreover have "o1 \<in> set (open_offers sid d)" using assms(2) by simp
  then have "o1 \<in> set (db_offers d)" "eo_outcome o1 = None" "eo_target_server_id o1 = sid"
    by (auto simp: open_offers_def)
  ultimately show ?thesis
    using assms find_unique [of "db_offers d" o1] by (auto simp: db_ok_def find_offer_def)
qed

text \<open>After expiring the elapsed offer the transaction is at most one step ahead.\<close>

lemma wp_expire_elapsed:
  assumes ok: "db_ok (w_tx w)" and srv: "find_server (sv_id server) (w_tx w) = Some server"
    and E: "\<And>fs d. E (Store db_error) (w\<lparr>w_faults := fs, w_tx := d\<rparr>)"
    and Q: "\<And>fs d. db_step\<^sup>*\<^sup>* (w_tx w) d \<Longrightarrow> db_servers d = db_servers (w_tx w) \<Longrightarrow>
        (\<And>o1 os. open_offers (sv_id server) d = o1 # os \<Longrightarrow> t1 < eo_expires_at o1) \<Longrightarrow>
        Q () (w\<lparr>w_faults := fs, w_tx := d\<rparr>)"
  shows "wp (expire_elapsed_outstanding u t1 t2 t3 server ac src) Q E w"
proof -
  have same: "w\<lparr>w_faults := fs, w_tx := w_tx w\<rparr> = w\<lparr>w_faults := fs\<rparr>" for fs
    by (cases w) simp
  note E0 = E [where d = "w_tx w", unfolded same]
  show ?thesis
    unfolding expire_elapsed_outstanding_def
  proof (rule wp_andthen, rule wp_find_open_offer)
    show "E (Store db_error) (w\<lparr>w_faults := fs\<rparr>)" for fs by (rule E0)
  next
    fix fs assume "open_offers (sv_id server) (w_tx w) = []"
    then have "Q () (w\<lparr>w_faults := fs, w_tx := w_tx w\<rparr>)" by (intro Q) auto
    then show "wp (case None of None \<Rightarrow> ret () | Some offer \<Rightarrow>
        if t1 < eo_expires_at offer then ret ()
        else terminalize_offer u t2 t3 offer ExpiredOffer None server ac src
               (authority_status server) (authority_status server)) Q E (w\<lparr>w_faults := fs\<rparr>)"
      by (auto intro!: wp_rules simp: same)
  next
    fix fs o1 os assume opn: "open_offers (sv_id server) (w_tx w) = o1 # os"
    note u = open_offers_unique [OF ok opn]
    have "wp (if t1 < eo_expires_at o1 then ret ()
        else terminalize_offer u t2 t3 o1 ExpiredOffer None server ac src
               (authority_status server) (authority_status server)) Q E (w\<lparr>w_faults := fs\<rparr>)"
    proof (intro wp_rules)
      assume "t1 < eo_expires_at o1"
      with opn u have "Q () (w\<lparr>w_faults := fs, w_tx := w_tx w\<rparr>)" by (intro Q) auto
      then show "Q () (w\<lparr>w_faults := fs\<rparr>)" by (simp only: same)
    next
      show "wp (terminalize_offer u t2 t3 o1 ExpiredOffer None server ac src
          (authority_status server) (authority_status server)) Q E (w\<lparr>w_faults := fs\<rparr>)"
      proof (rule wp_terminalize [where row = o1])
        fix fs' d assume c: "closes o1 ExpiredOffer (w_tx (w\<lparr>w_faults := fs\<rparr>)) d"
        then obtain t where offers: "db_offers d =
            map (\<lambda>r. if eo_id r = eo_id o1 then set_terminal ExpiredOffer t None r else r)
              (db_offers (w_tx w))" and step: "db_step (w_tx w) d"
          and servers: "db_servers d = db_servers (w_tx w)"
          by (auto simp: closes_def)
        have "open_offers (sv_id server) d = []"
        proof (rule ccontr)
          assume "open_offers (sv_id server) d \<noteq> []"
          then obtain x where x: "x \<in> set (db_offers d)" "eo_outcome x = None"
            "eo_target_server_id x = sv_id server"
            by (auto simp: open_offers_def filter_empty_conv)
          then have "x \<in> set (db_offers (w_tx w))" "eo_id x \<noteq> eo_id o1"
            by (auto simp: offers split: if_splits)
          with x have "x \<in> set (open_offers (sv_id server) (w_tx w))" by (simp add: open_offers_def)
          with opn u \<open>eo_id x \<noteq> eo_id o1\<close> show False by auto
        qed
        then show "Q () (w\<lparr>w_faults := fs, w_faults := fs', w_tx := d\<rparr>)"
          using Q [of d fs'] r_into_rtranclp [of db_step, OF step] servers by simp
      qed (use u srv E in \<open>auto simp: world_commute\<close>)
    qed
    then show "wp (case Some o1 of None \<Rightarrow> ret () | Some offer \<Rightarrow>
        if t1 < eo_expires_at offer then ret ()
        else terminalize_offer u t2 t3 offer ExpiredOffer None server ac src
               (authority_status server) (authority_status server)) Q E (w\<lparr>w_faults := fs\<rparr>)"
      by simp
  qed
qed

text \<open>\<open>mint_offer\<close> inserts a fresh open offer for the server.\<close>

lemma wp_mint_offer:
  assumes E: "\<And>e fs d. E (Store e) (w\<lparr>w_faults := fs, w_tx := d\<rparr>)"
    and Q: "\<And>fs d row issued. insert_offer row (w_tx w) = Some d \<Longrightarrow> eo_outcome row = None \<Longrightarrow>
        eo_target_server_id row = sid \<Longrightarrow> io_id issued = eo_id row \<Longrightarrow>
        io_expires_at issued = now + seconds ttl \<Longrightarrow>
        Q issued (w\<lparr>w_faults := fs, w_tx := d\<rparr>)"
  shows "wp (mint_offer cr en now u sid ac ttl) Q E w"
proof -
  have same: "w\<lparr>w_faults := fs, w_tx := w_tx w\<rparr> = w\<lparr>w_faults := fs\<rparr>"
    "w\<lparr>w_faults := w_faults w\<rparr> = w" for fs
    by (cases w; simp)+
  have E0: "E (Store e) (w\<lparr>w_faults := fs\<rparr>)" "E (Store e) w" for fs e
    using E [where fs = fs and d = "w_tx w"] E [where fs = "w_faults w" and d = "w_tx w"]
    by (simp_all add: same)
  show ?thesis
    unfolding mint_offer_def insert_prepared_offer_def
    by (intro wp_rules E0)
      (auto simp: prepare_offer_def parse_offer_id_def parse_identifier_def split: sum.splits if_splits
        intro!: wp_rules E E0 Q)
qed

section \<open>The operations\<close>

lemma wp_refinesI: "wp m (\<lambda>_. refines w) (\<lambda>_. refines w) w \<Longrightarrow> refines w (snd (m w))"
  by (simp add: wp_same)

lemma find_server_self: "find_server sid d = Some s \<Longrightarrow> find_server (sv_id s) d = Some s"
  by (simp add: find_server_id)


lemmas op_helpers = find_outstanding_def insert_event_def broadcast_issued_offer_state_def

lemma refines_uncommitted_simp [simp]:
  "w_db w' = w_db w \<Longrightarrow> reg_evolves (w_mgr w) (w_mgr w') \<Longrightarrow>
   (\<forall>s c. conns (w_mgr w') s = Some c \<longrightarrow> conns (w_mgr w) s = Some c) \<Longrightarrow> refines w w'"
  by (rule refines_uncommitted) auto

lemma owned_by_SomeD:
  "owned_by s (find_offer oid d) = Some x \<Longrightarrow>
   find_offer oid d = Some x \<and> find_offer (eo_id x) d = Some x \<and> eo_id x = oid \<and>
   eo_target_server_id x = sv_id s"
  by (auto simp: owned_by_def dest: find_offer_Some split: option.splits if_splits)

lemma set_token_fold:
  "(\<lambda>r. r\<lparr>sv_token_hash := Some h, sv_token_prefix := Some p, sv_last_remote_addr := a,
      sv_updated_at := t\<rparr>) = set_token h p a t"
  "(\<lambda>r. r\<lparr>sv_token_hash := None, sv_token_prefix := None, sv_updated_at := t\<rparr>) = clear_token t"
  by (simp_all add: fun_eq_iff set_token_def clear_token_def)

lemma closes_step: "closes row oc d d' \<Longrightarrow> db_step d d' \<and> (\<forall>s. find_server s d' = find_server s d)"
  by (auto simp: closes_def find_server_def)

lemma issue_step:
  assumes "db_step\<^sup>*\<^sup>* d0 d" and "db_servers d = db_servers d0"
    and "find_server sid d0 = Some server"
    and "insert_offer row d = Some d1" and "eo_outcome row = None"
    and "eo_target_server_id row = sv_id server"
    and "insert_event_row (event_row_of u t' \<lparr>ei_server = server, ei_actor = ac, ei_source = src,
       ei_offer_id = Some (eo_id row), ei_transition = tr, ei_mode = md, ei_offer_outcome = None,
       ei_authority_before = st, ei_authority_after = st\<rparr>) d1 = Some d2"
    and "(tr, md, authority_status server) \<in>
       {(InitialOfferIssued, None, Unclaimed), (OfferIssued, None, Unclaimed),
        (ReenrollmentStarted, Some Graceful, Claimed)}"
    and "st = authority_status server"
  shows "db_step\<^sup>*\<^sup>* d0 d2 \<and> (\<forall>s. find_server s d2 = find_server s d0)"
proof -
  have srv: "find_server (eo_target_server_id row) d = Some server"
    using assms(2,3,6) find_server_id [OF assms(3)] by (simp add: find_server_def)
  have "db_step d d2"
    by (rule db_step.IssueOffer [OF srv assms(5,8,4)])
      (use assms(7,9) in simp)
  with assms(1) have "db_step\<^sup>*\<^sup>* d0 d2" by (rule rtranclp.rtrancl_into_rtrancl)
  with assms(2) insert_event_row_SomeD(1) [OF assms(7)] insert_offer_SomeD(1) [OF assms(4)]
  show ?thesis by (simp add: find_server_def)
qed

lemma refines_sameI:
  "db_step\<^sup>*\<^sup>* (w_db w) (w_db w') \<and> (\<forall>s. find_server s (w_db w') = find_server s (w_db w)) \<Longrightarrow>
   reg_evolves (w_mgr w) (w_mgr w') \<Longrightarrow>
   (\<forall>s c. conns (w_mgr w') s = Some c \<longrightarrow> conns (w_mgr w) s = Some c) \<Longrightarrow> refines w w'"
  by (auto intro: refines_committed)

lemma refines_otherI:
  "db_step\<^sup>*\<^sup>* (w_db w) (w_db w') \<and> (\<forall>s. s \<noteq> sid \<longrightarrow> find_server s (w_db w') = find_server s (w_db w)) \<Longrightarrow>
   reg_evolves (w_mgr w) (w_mgr w') \<Longrightarrow> conns (w_mgr w') sid = None \<Longrightarrow>
   (\<forall>s c. conns (w_mgr w') s = Some c \<longrightarrow> conns (w_mgr w) s = Some c) \<Longrightarrow> refines w w'"
  by (rule refines_committed) (auto, metis option.distinct(1))

lemma find_offer_self: "find_offer oid d = Some x \<Longrightarrow> find_offer (eo_id x) d = Some x"
  by (simp add: find_offer_Some)

lemma consume_step:
  assumes "find_offer oid d = Some row" and "eo_outcome row = None"
    and "find_server (eo_target_server_id row) d = Some server"
    and "update_offer (eo_id row) (set_terminal Consumed t None) d = Some d1"
    and "update_server (sv_id server) (set_token hash prefix addr t) d1 = Some d2"
    and "insert_event_row (event_row_of u t' \<lparr>ei_server = server, ei_actor = Agent, ei_source = src,
       ei_offer_id = Some (eo_id row), ei_transition = OfferConsumed, ei_mode = None,
       ei_offer_outcome = Some Consumed, ei_authority_before = authority_status server,
       ei_authority_after = Claimed\<rparr>) d2 = Some d3"
  shows "db_step\<^sup>*\<^sup>* d d3 \<and>
    (\<forall>s. s \<noteq> sv_id server \<longrightarrow> find_server s d3 = find_server s d)"
proof -
  have "db_step d d3"
    by (rule db_step.ConsumeOffer [OF find_offer_self [OF assms(1)] assms(2-)])
  moreover have "find_server s d3 = find_server s d" if "s \<noteq> sv_id server" for s
    using that find_server_update [OF assms(5) token_fields(2), of s]
      find_server_cong [OF insert_event_row_SomeD(1) [OF assms(6)], of s]
      find_server_cong [OF update_offer_SomeD(1) [OF assms(4)], of s]
    by (simp split: option.splits)
  ultimately show ?thesis by simp
qed

lemma emergency_step:
  assumes "db_step\<^sup>*\<^sup>* d0 d" and "db_servers d = db_servers d0"
    and "find_server sid d0 = Some server" and "authority_status server = Claimed"
    and "update_server (sv_id server) (clear_token t) d = Some d1"
    and "insert_offer row d1 = Some d2" and "eo_outcome row = None"
    and "eo_target_server_id row = sv_id server"
    and "insert_event_row (event_row_of u t' \<lparr>ei_server = server, ei_actor = ac, ei_source = src,
       ei_offer_id = Some (eo_id row), ei_transition = ReenrollmentStarted, ei_mode = Some Emergency,
       ei_offer_outcome = None, ei_authority_before = Claimed, ei_authority_after = Unclaimed\<rparr>) d2
       = Some d3"
  shows "db_step\<^sup>*\<^sup>* d0 d3 \<and>
    (\<forall>s. s \<noteq> sv_id server \<longrightarrow> find_server s d3 = find_server s d0)"
proof -
  have srv: "find_server (eo_target_server_id row) d = Some server"
    using assms(2,3,8) find_server_id [OF assms(3)] by (simp add: find_server_def)
  have "db_step d d3"
    by (rule db_step.EmergencyReenroll [OF srv assms(4,7,5,6,9)])
  with assms(1) have "db_step\<^sup>*\<^sup>* d0 d3" by (rule rtranclp.rtrancl_into_rtrancl)
  moreover have "find_server s d3 = find_server s d0" if "s \<noteq> sv_id server" for s
    using that find_server_update [OF assms(5) token_fields(1), of s]
      find_server_cong [OF insert_event_row_SomeD(1) [OF assms(9)], of s]
      find_server_cong [OF insert_offer_SomeD(1) [OF assms(6)], of s]
      find_server_cong [OF assms(2), of s]
    by (simp split: option.splits)
  ultimately show ?thesis by simp
qed

lemma revoke_token_step:
  assumes "d = d0 \<or> db_step d0 d" and "\<forall>s. find_server s d = find_server s d0"
    and "find_server k d0 = Some server" and "authority_status server = Claimed"
    and "update_server (sv_id server) (clear_token t) d = Some d1"
    and "insert_event_row (event_row_of u t' \<lparr>ei_server = server, ei_actor = ac, ei_source = src,
       ei_offer_id = None, ei_transition = AuthorityRevoked, ei_mode = None,
       ei_offer_outcome = None, ei_authority_before = Claimed, ei_authority_after = Unclaimed\<rparr>) d1
       = Some d2"
  shows "db_step\<^sup>*\<^sup>* d0 d2 \<and>
    (\<forall>s. s \<noteq> sv_id server \<longrightarrow> find_server s d2 = find_server s d0)"
proof -
  have "find_server (sv_id server) d = Some server" using assms(2,3) find_server_id [OF assms(3)] by simp
  then have "db_step d d2" by (rule db_step.RevokeToken [OF _ assms(4,5,6)])
  with assms(1) have "db_step\<^sup>*\<^sup>* d0 d2" by auto
  moreover have "find_server s d2 = find_server s d0" if "s \<noteq> sv_id server" for s
    using that find_server_update [OF assms(5) token_fields(1), of s]
      find_server_cong [OF insert_event_row_SomeD(1) [OF assms(6)], of s] assms(2)
    by (simp split: option.splits)
  ultimately show ?thesis by simp
qed

lemmas revoke_token_step0 = revoke_token_step [OF disjI1 [OF refl], simplified]
lemmas revoke_token_step1 = revoke_token_step [OF disjI2]

lemma replace_step:
  assumes "find_server k d = Some server"
    and "find_offer oid d = Some row" and "eo_outcome row = None"
    and "eo_target_server_id row = sv_id server"
    and "eo_outcome succ = None" and "eo_target_server_id succ = sv_id server"
    and "update_offer oid (set_terminal Replaced t (Some i)) d = Some d1"
    and "insert_offer succ d1 = Some d2" and "eo_id succ = i"
    and "insert_event_row (event_row_of u t' \<lparr>ei_server = server, ei_actor = ac, ei_source = src,
       ei_offer_id = Some oid, ei_transition = OfferReplaced, ei_mode = None,
       ei_offer_outcome = Some Replaced, ei_authority_before = authority_status server,
       ei_authority_after = authority_status server\<rparr>) d2 = Some d3"
  shows "db_step\<^sup>*\<^sup>* d d3 \<and> (\<forall>s. find_server s d3 = find_server s d)"
proof -
  have oid: "oid = eo_id row" using assms(2) by (simp add: find_offer_Some)
  note a = assms [unfolded oid assms(9) [symmetric]]
  have "find_server (eo_target_server_id row) d = Some server"
    using assms(1,4) find_server_id [OF assms(1)] by simp
  moreover have "eo_target_server_id succ = eo_target_server_id row" using assms(4,6) by simp
  ultimately have "db_step d d3"
    using db_step.ReplaceOffer [OF a(2,3) _ a(5) _ a(7,8,10)] by blast
  then show ?thesis
    using insert_event_row_SomeD(1) [OF a(10)] insert_offer_SomeD(1) [OF a(8)]
      update_offer_SomeD(1) [OF a(7)]
    by (auto simp: find_server_def)
qed

lemma not_Claimed [simp]: "st \<noteq> Claimed \<longleftrightarrow> st = Unclaimed" "st \<noteq> Unclaimed \<longleftrightarrow> st = Claimed"
  by (cases st; simp)+

lemma issue_refines:
  assumes ok: "db_ok (w_db w)"
  shows "refines w (snd (issue_offer_for_unclaimed cr en input ttl w))"
  unfolding issue_offer_for_unclaimed_def op_helpers
  apply (rule wp_refinesI)
  apply (intro wp_rules wp_expire_elapsed wp_mint_offer; simp add: ok find_server_self)
  apply (rule refines_sameI, simp, erule (6) issue_step; simp)
  done

lemma reenroll_refines:
  assumes ok: "db_ok (w_db w)"
  shows "refines w (snd (begin_reenrollment cr en input mode ttl w))"
proof (cases mode)
  case Graceful
  show ?thesis
    unfolding begin_reenrollment_def op_helpers set_token_fold Graceful reenrollment_mode.case
    apply (rule wp_refinesI)
    apply (intro wp_rules wp_expire_elapsed wp_mint_offer; simp add: ok find_server_self)
    apply (rule refines_sameI, simp, erule (6) issue_step; simp)
    done
next
  case Emergency
  show ?thesis
    unfolding begin_reenrollment_def op_helpers set_token_fold Emergency reenrollment_mode.case
    apply (rule wp_refinesI)
    apply (intro wp_rules wp_expire_elapsed wp_mint_offer; simp add: ok find_server_self)
    apply (rule refines_otherI, simp, erule (7) emergency_step; simp)
    done
qed

lemma wp_insert_prepared:
  assumes E: "\<And>e fs d. E (Store e) (w\<lparr>w_faults := fs, w_tx := d\<rparr>)"
    and Q: "\<And>fs d issued. insert_offer (fst p) (w_tx w) = Some d \<Longrightarrow> io_id issued = eo_id (fst p) \<Longrightarrow>
        Q issued (w\<lparr>w_faults := fs, w_tx := d\<rparr>)"
  shows "wp (insert_prepared_offer p) Q E w"
proof -
  have same: "w\<lparr>w_faults := fs, w_tx := w_tx w\<rparr> = w\<lparr>w_faults := fs\<rparr>" for fs
    by (cases w; simp)
  have E0: "E (Store e) (w\<lparr>w_faults := fs\<rparr>)" for fs e
    using E [where fs = fs and d = "w_tx w"] by (simp_all add: same)
  show ?thesis
    unfolding insert_prepared_offer_def
    by (cases p) (auto simp: parse_offer_id_def parse_identifier_def intro!: wp_rules E E0 Q)
qed

lemma prepare_offer_InrD:
  "prepare_offer cr en now u sid ac ttl = Inr p \<Longrightarrow>
   eo_id (fst p) = u \<and> eo_outcome (fst p) = None \<and> eo_target_server_id (fst p) = sid \<and>
   eo_expires_at (fst p) = now + seconds ttl"
  by (auto simp: prepare_offer_def split: sum.splits)

lemma replace_refines:
  assumes ok: "db_ok (w_db w)"
  shows "refines w (snd (replace_offer cr en input oid ttl w))"
  unfolding replace_offer_def op_helpers
  apply (rule wp_refinesI)
  apply (intro wp_rules wp_terminalize wp_insert_prepared;
      clarsimp simp: ok find_server_self dest!: owned_by_SomeD closes_step prepare_offer_InrD)
   apply (rule refines_sameI; simp)
  apply (rule refines_sameI, simp, erule (9) replace_step)
  apply simp_all
  done

lemma revoke_offer_refines:
  assumes ok: "db_ok (w_db w)"
  shows "refines w (snd (revoke_offer en input oid w))"
  unfolding revoke_offer_def op_helpers
  by (rule wp_refinesI, intro wp_rules wp_terminalize)
    (auto simp: ok find_server_self dest!: owned_by_SomeD closes_step intro!: refines_sameI)

lemma claim_refines:
  assumes ok: "db_ok (w_db w)"
  shows "refines w (snd (claim_commit cr en input candidate w))"
  unfolding claim_commit_def op_helpers set_token_fold
  apply (rule wp_refinesI)
  apply (intro wp_rules wp_terminalize; simp add: ok find_server_self find_offer_self)
    apply (auto dest!: closes_step intro!: refines_sameI)[1]
   apply (rule refines_otherI, simp, erule (5) consume_step; simp)
  apply (rule refines_otherI, simp, erule (5) consume_step; simp)
  done

lemma revoke_authority_refines:
  assumes ok: "db_ok (w_db w)"
  shows "refines w (snd (revoke_authority en input w))"
  unfolding revoke_authority_def op_helpers set_token_fold
  apply (rule wp_refinesI)
  apply (intro wp_rules wp_terminalize;
      clarsimp simp: find_server_self find_offer_self dest!: open_offers_unique [OF ok] closes_step)
    apply (rule refines_otherI, simp, erule (3) revoke_token_step0; simp)
   apply (rule refines_otherI, simp, erule (5) revoke_token_step1; simp)
  apply (rule refines_sameI; simp)
  done

section \<open>Deletion and admission\<close>

lemma wp_record_deletions:
  assumes E: "\<And>fs d. E (Store db_error) (w\<lparr>w_faults := fs, w_tx := d\<rparr>)"
    and Q: "\<And>fs d es. insert_events es (w_tx w) = Some d \<Longrightarrow> list_all2 deletion_event es rows \<Longrightarrow>
        Q () (w\<lparr>w_faults := fs, w_tx := d\<rparr>)"
  shows "wp (record_deletions en i rows ac src) Q E w"
  using assms
proof (induction rows arbitrary: i w)
  case Nil
  have "w\<lparr>w_faults := w_faults w, w_tx := w_tx w\<rparr> = w" by simp
  with Nil.prems(2) [of "[]" "w_tx w" "w_faults w"] show ?case by (auto intro!: wp_rules)
next
  case (Cons row rows)
  let ?e = "event_row_of (en_uuid en i) (en_clock en i)
    \<lparr>ei_server = row, ei_actor = ac, ei_source = src, ei_offer_id = None,
     ei_transition = ServerDeleted, ei_mode = None, ei_offer_outcome = None,
     ei_authority_before = authority_status row, ei_authority_after = Unclaimed\<rparr>"
  have del: "deletion_event ?e row" by (simp add: deletion_event_def)
  have same: "w\<lparr>w_faults := fs, w_tx := w_tx w\<rparr> = w\<lparr>w_faults := fs\<rparr>" for fs by (cases w) simp
  show ?case
    unfolding record_deletions.simps record_server_deleted_tx_def insert_event_def
  proof (rule wp_andthen, rule wp_exec)
    fix fs show "E (Store db_error) (w\<lparr>w_faults := fs\<rparr>)"
      using Cons.prems(1) [where fs = fs and d = "w_tx w"] by (simp only: same)
  next
    fix fs d assume ins: "insert_event_row ?e (w_tx w) = Some d"
    show "wp (record_deletions en (Suc i) rows ac src) Q E (w\<lparr>w_faults := fs, w_tx := d\<rparr>)"
    proof (rule Cons.IH)
      fix fs' d' show "E (Store db_error) (w\<lparr>w_faults := fs, w_tx := d, w_faults := fs', w_tx := d'\<rparr>)"
        using Cons.prems(1) [where fs = fs' and d = d'] by (simp add: world_commute)
    next
      fix fs' d' es
      assume "insert_events es (w_tx (w\<lparr>w_faults := fs, w_tx := d\<rparr>)) = Some d'"
        and "list_all2 deletion_event es rows"
      with ins del have "Q () (w\<lparr>w_faults := fs', w_tx := d'\<rparr>)"
        by (intro Cons.prems(2) [of "?e # es"]) auto
      then show "Q () (w\<lparr>w_faults := fs, w_tx := d, w_faults := fs', w_tx := d'\<rparr>)"
        by (simp add: world_commute)
    qed
  qed
qed

lemma delete_step:
  assumes "insert_events es d = Some d1"
    and "list_all2 deletion_event es (filter (\<lambda>r. List.member ids (sv_id r)) (db_servers d))"
  shows "db_step d (delete_server_rows
      (map sv_id (filter (\<lambda>r. List.member ids (sv_id r)) (db_servers d))) d1)"
    and "\<And>s. s \<notin> sv_id ` set (filter (\<lambda>r. List.member ids (sv_id r)) (db_servers d)) \<Longrightarrow>
      find_server s (delete_server_rows
        (map sv_id (filter (\<lambda>r. List.member ids (sv_id r)) (db_servers d))) d1) = find_server s d"
proof -
  let ?rows = "filter (\<lambda>r. List.member ids (sv_id r)) (db_servers d)"
  show "db_step d (delete_server_rows (map sv_id ?rows) d1)"
    by (rule db_step.DeleteServers [OF refl assms(2,1)])
  fix s assume s: "s \<notin> sv_id ` set ?rows"
  have "find (\<lambda>r. sv_id r = s) (filter P rs) = find (\<lambda>r. sv_id r = s) rs"
    if "\<And>r. r \<in> set rs \<Longrightarrow> sv_id r = s \<Longrightarrow> P r" for P and rs :: "server_row list"
    using that by (induction rs) auto
  then show "find_server s (delete_server_rows (map sv_id ?rows) d1) = find_server s d"
    using s insert_events_SomeD [OF assms(1)]
    by (auto simp: find_server_def delete_server_rows_def)
qed

lemma delete_refines:
  "refines w (snd (delete_servers en ids ac src w))"
  unfolding delete_servers_def Let_def
proof (rule wp_refinesI, rule wp_if, goal_cases)
  case 1
  then show ?case by (auto intro!: wp_rules)
next
  case 2
  show ?case
    apply (intro wp_rules wp_record_deletions; simp)
    subgoal for d es
      using delete_step [of es "w_db w" d]
      by (intro refines_committed) (auto split: if_splits)
    done
qed

text \<open>Looking up an offer or a token changes nothing.\<close>

definition unchanged :: "world \<Rightarrow> world \<Rightarrow> bool" where
  "unchanged w w' \<longleftrightarrow> w_db w' = w_db w \<and> w_mgr w' = w_mgr w"

lemma claim_lookup_same: "unchanged w (snd (claim_lookup cr input w))"
proof -
  have "wp (claim_lookup cr input) (\<lambda>_. unchanged w) (\<lambda>_. unchanged w) w"
    unfolding claim_lookup_def find_offer_for_code_def
    by (intro wp_rules; simp add: unchanged_def)
  then show ?thesis by (simp add: wp_same)
qed

lemma preflight_same: "unchanged w (snd (preflight_connection cr token w))"
proof -
  have "wp (preflight_connection cr token) (\<lambda>_. unchanged w) (\<lambda>_. unchanged w) w"
    unfolding preflight_connection_def validate_agent_token_def
    by (intro wp_rules; simp add: unchanged_def)
  then show ?thesis by (simp add: wp_same)
qed

lemma first_token_match_SomeD:
  "first_token_match cr token rs = Inr (Some r) \<Longrightarrow>
   r \<in> set rs \<and> (\<exists>h. sv_token_hash r = Some h \<and> cr_verify cr token h = Inr True)"
  by (induction rs) (auto split: option.splits sum.splits if_splits)

end
