(* ===== verification/Authority_Safety.thy ===== *)
theory Authority_Safety
  imports Authority_Refinement
begin

text \<open>
  The enrolment service as a transition system: the operations of \<open>Agent_Authority\<close> in any order,
  with any faults, interleaved with the registry's other operations, from an empty installation.
  The safety properties of every reachable world: the schema's invariants, the faithful event
  log, and that every live connection was admitted under the credential its server holds now.
\<close>

section \<open>The transition system\<close>

text \<open>
  Onboarding writes a new server row and its initial offer in one transaction
  (\<open>service/server_onboarding.rs\<close>); the other columns and tables it fills are left out.
\<close>

definition insert_server :: "server_row \<Rightarrow> db \<Rightarrow> db option" where
  "insert_server row d =
     (if find_server (sv_id row) d \<noteq> None then None
      else Some (d\<lparr>db_servers := db_servers d @ [row]\<rparr>))"

definition create_server ::
  "crypto \<Rightarrow> call_env \<Rightarrow> server_row \<Rightarrow> actor \<Rightarrow> string \<Rightarrow> int \<Rightarrow> (unit, issued_offer) act" where
  "create_server cr en row ac source ttl =
     andthen (begin_write (sv_id row)) (\<lambda>_.
     andthen (exec (insert_server row)) (\<lambda>_.
     andthen (issue_initial_offer_tx cr en row ac source ttl) (\<lambda>issued.
     andthen commit (\<lambda>_.
     andthen (broadcast_issued_offer_state (sv_id row) Unclaimed issued) (\<lambda>_.
     ret issued)))))"

fun adds_connection :: "am_op \<Rightarrow> bool" where
  "adds_connection (Connect _ _ _ _ _) = True"
| "adds_connection (BindAuthority _ _) = True"
| "adds_connection _ = False"

inductive auth_step :: "crypto \<Rightarrow> world \<Rightarrow> world \<Rightarrow> bool" for cr where
  StepCreate:
    "sv_token_hash row = None \<Longrightarrow> \<not> is_blank (sv_id row) \<Longrightarrow>
     \<forall>e \<in> set (db_events (w_db w)). ae_server_id e \<noteq> sv_id row \<Longrightarrow>
     auth_step cr w (snd (create_server cr en row ac src ttl w))"
| StepIssue: "auth_step cr w (snd (issue_offer_for_unclaimed cr en input ttl w))"
| StepLookup: "auth_step cr w (snd (claim_lookup cr cl w))"
| StepClaim: "auth_step cr w (snd (claim_commit cr en cl candidate w))"
| StepReenroll: "auth_step cr w (snd (begin_reenrollment cr en input mode ttl w))"
| StepReplace: "auth_step cr w (snd (replace_offer cr en input oid ttl w))"
| StepRevokeOffer: "auth_step cr w (snd (revoke_offer en input oid w))"
| StepRevoke: "auth_step cr w (snd (revoke_authority en input w))"
| StepDelete: "auth_step cr w (snd (delete_servers en ids ac src w))"
| StepPreflight: "auth_step cr w (snd (preflight_connection cr token w))"
| StepAdmit: "auth_step cr w (snd (admit cr now sid token tx addr w))"
| StepRegistry: "\<not> adds_connection op \<Longrightarrow> auth_step cr w (w\<lparr>w_mgr := am_step (w_mgr w) op\<rparr>)"
| StepFaults: "auth_step cr w (w\<lparr>w_faults := fs\<rparr>)"

definition init_world :: world where
  "init_world = \<lparr>w_db = \<lparr>db_servers = [], db_offers = [], db_events = []\<rparr>,
     w_tx = \<lparr>db_servers = [], db_offers = [], db_events = []\<rparr>,
     w_mgr = new_manager, w_faults = []\<rparr>"

definition reachable :: "crypto \<Rightarrow> world \<Rightarrow> bool" where
  "reachable cr w \<longleftrightarrow> (auth_step cr)\<^sup>*\<^sup>* init_world w"

section \<open>Live connections\<close>

definition live_ok :: "crypto \<Rightarrow> world \<Rightarrow> bool" where
  "live_ok cr w \<longleftrightarrow>
     (\<forall>s c. conns (w_mgr w) s = Some c \<longrightarrow>
        (\<exists>r h. find_server s (w_db w) = Some r \<and> sv_token_hash r = Some h \<and>
           ac_authority_fingerprint c = Some (cr_fingerprint cr h)))"

definition auth_inv :: "crypto \<Rightarrow> world \<Rightarrow> bool" where
  "auth_inv cr w \<longleftrightarrow>
     db_ok (w_db w) \<and> log_ok (w_db w) \<and> am_ok (w_mgr w) \<and> live_ok cr w"

lemma conns_new: "conns new_manager s = None"
  by (simp add: conns_def new_manager_def)

lemma auth_inv_init: "auth_inv cr init_world"
  using am_ok_new
  by (simp add: auth_inv_def init_world_def db_ok_def log_ok_def live_ok_def open_offers_def
      events_of_def find_server_def conns_new)

lemma live_keeps: "keeps_live w w' \<Longrightarrow> live_ok cr w \<Longrightarrow> live_ok cr w'"
  unfolding keeps_live_def live_ok_def by metis

lemma auth_inv_refines: "refines w w' \<Longrightarrow> auth_inv cr w \<Longrightarrow> auth_inv cr w'"
  by (auto simp: refines_def auth_inv_def reg_evolves_def am_ok_run
      intro: db_ok_steps log_steps live_keeps)

lemma conns_registry_op:
  assumes "\<not> adds_connection op" and "conns (am_step m op) s = Some c'"
  shows "\<exists>c. conns m s = Some c \<and> ac_authority_fingerprint c' = ac_authority_fingerprint c"
proof (cases "is_core_op op")
  case False
  with assms(2) core_of_mirror_op [of op m] show ?thesis by (simp add: conns_def core_of_def)
next
  case True
  with assms show ?thesis
    by (cases op)
      (auto simp: conns_def connection_defs request_defs Let_def table_simps
        split: option.splits if_splits)
qed

lemma live_registry_op:
  assumes "\<not> adds_connection op" and "live_ok cr w"
  shows "live_ok cr (w\<lparr>w_mgr := am_step (w_mgr w) op\<rparr>)"
  unfolding live_ok_def
proof (intro allI impI)
  fix s c assume "conns (w_mgr (w\<lparr>w_mgr := am_step (w_mgr w) op\<rparr>)) s = Some c"
  then obtain c0 where "conns (w_mgr w) s = Some c0"
    "ac_authority_fingerprint c = ac_authority_fingerprint c0"
    using conns_registry_op [OF assms(1)] by fastforce
  with assms(2) show "\<exists>r h. find_server s (w_db (w\<lparr>w_mgr := am_step (w_mgr w) op\<rparr>)) = Some r \<and>
      sv_token_hash r = Some h \<and> ac_authority_fingerprint c = Some (cr_fingerprint cr h)"
    by (simp add: live_ok_def)
qed

section \<open>Admission\<close>

text \<open>The registry after an admission.\<close>

definition admitted ::
  "crypto \<Rightarrow> instant \<Rightarrow> server_row \<Rightarrow> string \<Rightarrow> channel \<Rightarrow> string \<Rightarrow> agent_manager \<Rightarrow> agent_manager" where
  "admitted cr now server h tx addr m =
     bind_security_authority (sv_id server) (cr_fingerprint cr h)
       (snd (add_connection (sv_id server) (sv_name server) tx addr now m))"

lemma wp_admit:
  assumes same: "\<And>e fs. E e (w\<lparr>w_faults := fs\<rparr>)"
    and adm: "\<And>server h ad fs. server \<in> set (db_servers (w_db w)) \<Longrightarrow> sv_id server = sid \<Longrightarrow>
        sv_token_hash server = Some h \<Longrightarrow> cr_verify cr token h = Inr True \<Longrightarrow>
        ad_connection_id ad = am_next_connection_id (w_mgr w) \<Longrightarrow> ad_server_id ad = sid \<Longrightarrow>
        Q ad (w\<lparr>w_faults := fs, w_mgr := admitted cr now server h tx addr (w_mgr w)\<rparr>)"
  shows "wp (admit cr now sid token tx addr) Q E w"
proof -
  have self: "w\<lparr>w_faults := w_faults w\<rparr> = w" by simp
  have same': "E e w" for e using same [where fs = "w_faults w"] by (simp only: self)
  show ?thesis
    unfolding admit_def validate_agent_token_def Let_def
  proof (intro wp_rules same same')
    fix fs x a
    assume m: "first_token_match cr token (filter (\<lambda>r. sv_token_prefix r =
          Some (take (min 8 (length token)) token) \<and> sv_token_hash r \<noteq> None) (db_servers (w_db w))) = Inr x"
      and a: "(case x of None \<Rightarrow> None | Some r \<Rightarrow> if sv_id r = sid then Some r else None) = Some a"
    from a have x: "x = Some a" "sv_id a = sid" by (auto split: option.splits if_splits)
    from first_token_match_SomeD [OF m [unfolded x(1)]] obtain h where
      h: "a \<in> set (db_servers (w_db w))" "sv_token_hash a = Some h" "cr_verify cr token h = Inr True"
      by auto
    show "wp (\<lambda>w. case add_connection (sv_id a) (sv_name a) tx addr now (w_mgr w) of
            (connection_id, mgr) \<Rightarrow>
              (Inr \<lparr>ad_server_id = sid, ad_server_name = sv_name a,
                   ad_server_capabilities = sv_capabilities a, ad_connection_id = connection_id\<rparr>,
               w\<lparr>w_mgr := case sv_token_hash a of None \<Rightarrow> mgr
                 | Some hash \<Rightarrow> bind_security_authority (sv_id a) (cr_fingerprint cr hash) mgr\<rparr>))
        Q E (w\<lparr>w_faults := fs\<rparr>)"
      using adm [of a h, OF h(1) x(2) h(2,3)] h(2)
      by (simp add: wp_def admitted_def add_connection_def Let_def)
  qed (auto split: option.splits)
qed

lemma conns_admitted:
  "conns (admitted cr now server h tx addr m) s =
     (if s = sv_id server
      then Some \<lparr>ac_connection_id = am_next_connection_id m,
                 ac_authority_fingerprint = Some (cr_fingerprint cr h),
                 ac_server_name = sv_name server, ac_tx = tx, ac_last_report_at = now,
                 ac_remote_addr = addr, ac_protocol_version = 1\<rparr>
      else conns m s)"
  by (simp add: admitted_def conns_def add_connection_def bind_security_authority_def
      modify_connection_def broadcast_browser_def Let_def table_simps)

lemma am_ok_admitted: "am_ok m \<Longrightarrow> am_ok (admitted cr now server h tx addr m)"
  using am_ok_step [OF am_ok_step, of m "Connect (sv_id server) (sv_name server) tx addr now"
      "BindAuthority (sv_id server) (cr_fingerprint cr h)"]
  by (simp add: admitted_def)

lemma find_server_member:
  "db_ok d \<Longrightarrow> r \<in> set (db_servers d) \<Longrightarrow> find_server (sv_id r) d = Some r"
proof -
  have "distinct (map sv_id rs) \<Longrightarrow> x \<in> set rs \<Longrightarrow> find (\<lambda>y. sv_id y = sv_id x) rs = Some x"
    for rs and x :: server_row by (induction rs) auto
  then show "db_ok d \<Longrightarrow> r \<in> set (db_servers d) \<Longrightarrow> find_server (sv_id r) d = Some r"
    by (simp add: find_server_def db_ok_def)
qed

lemma auth_inv_admit:
  assumes inv: "auth_inv cr w"
  shows "auth_inv cr (snd (admit cr now sid token tx addr w))"
proof -
  have "wp (admit cr now sid token tx addr) (\<lambda>_. auth_inv cr) (\<lambda>_. auth_inv cr) w"
  proof (rule wp_admit)
    fix fs show "auth_inv cr (w\<lparr>w_faults := fs\<rparr>)" using inv by (simp add: auth_inv_def live_ok_def)
  next
    fix server h fs
    assume a: "server \<in> set (db_servers (w_db w))" "sv_token_hash server = Some h"
    then have "find_server (sv_id server) (w_db w) = Some server"
      using inv by (simp add: auth_inv_def find_server_member)
    with a inv show
      "auth_inv cr (w\<lparr>w_faults := fs, w_mgr := admitted cr now server h tx addr (w_mgr w)\<rparr>)"
      by (auto simp: auth_inv_def am_ok_admitted live_ok_def conns_admitted)
  qed
  then show ?thesis by (simp add: wp_same)
qed

section \<open>Reachable worlds\<close>

lemma create_step:
  assumes ins: "insert_server row d0 = Some d" and offer: "insert_offer offer d = Some d1"
    and new: "eo_outcome offer = None" "eo_target_server_id offer = sv_id row"
    and ev: "insert_event_row (event_row_of u t' \<lparr>ei_server = row, ei_actor = ac, ei_source = src,
       ei_offer_id = Some (eo_id offer), ei_transition = InitialOfferIssued, ei_mode = None,
       ei_offer_outcome = None, ei_authority_before = Unclaimed, ei_authority_after = Unclaimed\<rparr>) d1
       = Some d2"
    and row: "sv_token_hash row = None" "\<not> is_blank (sv_id row)"
      "\<forall>e \<in> set (db_events d0). ae_server_id e \<noteq> sv_id row"
  shows "db_step\<^sup>*\<^sup>* d0 d2 \<and> (\<forall>s. s \<noteq> sv_id row \<longrightarrow> find_server s d2 = find_server s d0)"
proof -
  from ins have none: "find_server (sv_id row) d0 = None"
    and d: "d = d0\<lparr>db_servers := db_servers d0 @ [row]\<rparr>"
    by (auto simp: insert_server_def split: if_splits)
  have create: "db_step d0 d" unfolding d using none row by (intro db_step.CreateServer) auto
  have srv: "find_server (sv_id row) d = Some row"
    using none by (simp add: d find_server_create)
  have "db_step\<^sup>*\<^sup>* d d2 \<and> (\<forall>s. find_server s d2 = find_server s d)"
    by (rule issue_step [OF rtranclp.rtrancl_refl refl srv offer new ev])
      (simp_all add: authority_status_def row(1))
  with create show ?thesis
    by (auto simp: d find_server_create intro: converse_rtranclp_into_rtranclp split: option.splits)
qed

lemma create_refines:
  assumes row: "sv_token_hash row = None" "\<not> is_blank (sv_id row)"
      "\<forall>e \<in> set (db_events (w_db w)). ae_server_id e \<noteq> sv_id row"
    and live: "live_ok cr w"
  shows "refines w (snd (create_server cr en row ac src ttl w))"
proof -
  have gone: "conns (w_mgr w) (sv_id row) = None" if "insert_server row (w_db w) = Some d" for d
    using that live
    by (cases "conns (w_mgr w) (sv_id row)")
      (fastforce simp: live_ok_def insert_server_def split: if_splits)+
  show ?thesis
    unfolding create_server_def issue_initial_offer_tx_def op_helpers
    apply (rule wp_refinesI, intro wp_rules wp_mint_offer; simp)
    apply (rule refines_otherI, simp, erule (4) create_step; simp add: row gone)
    done
qed

lemma auth_inv_db: "auth_inv cr w \<Longrightarrow> db_ok (w_db w)"
  by (simp add: auth_inv_def)

lemma auth_inv_step: "auth_step cr w w' \<Longrightarrow> auth_inv cr w \<Longrightarrow> auth_inv cr w'"
proof (induction rule: auth_step.induct)
  case (StepCreate row w en ac src ttl)
  from StepCreate.prems have "live_ok cr w" by (simp add: auth_inv_def)
  from create_refines [OF StepCreate.hyps this] StepCreate.prems show ?case
    by (rule auth_inv_refines)
next
  case (StepLookup w cl)
  then show ?case using claim_lookup_same [of w cr cl]
    by (simp add: auth_inv_def live_ok_def unchanged_def)
next
  case (StepPreflight w token)
  then show ?case using preflight_same [of w cr token]
    by (simp add: auth_inv_def live_ok_def unchanged_def)
next
  case (StepAdmit w now sid token tx addr)
  then show ?case by (rule auth_inv_admit)
next
  case (StepRegistry op w)
  then show ?case
    using live_registry_op [of op cr w] by (simp add: auth_inv_def am_ok_step)
next
  case (StepFaults w fs)
  then show ?case by (simp add: auth_inv_def live_ok_def)
next
  case (StepDelete w en ids ac src)
  from delete_refines StepDelete.prems show ?case by (rule auth_inv_refines)
next
  case (StepIssue w en input ttl)
  from issue_refines [OF auth_inv_db [OF StepIssue.prems]] StepIssue.prems show ?case by (rule auth_inv_refines)
next
  case (StepClaim w en cl candidate)
  from claim_refines [OF auth_inv_db [OF StepClaim.prems]] StepClaim.prems show ?case by (rule auth_inv_refines)
next
  case (StepReenroll w en input mode ttl)
  from reenroll_refines [OF auth_inv_db [OF StepReenroll.prems]] StepReenroll.prems show ?case by (rule auth_inv_refines)
next
  case (StepReplace w en input oid ttl)
  from replace_refines [OF auth_inv_db [OF StepReplace.prems]] StepReplace.prems show ?case by (rule auth_inv_refines)
next
  case (StepRevokeOffer w en input oid)
  from revoke_offer_refines [OF auth_inv_db [OF StepRevokeOffer.prems]] StepRevokeOffer.prems show ?case by (rule auth_inv_refines)
next
  case (StepRevoke w en input)
  from revoke_authority_refines [OF auth_inv_db [OF StepRevoke.prems]] StepRevoke.prems show ?case by (rule auth_inv_refines)
qed

lemma reachable_inv: "reachable cr w \<Longrightarrow> auth_inv cr w"
  unfolding reachable_def
  by (induction rule: rtranclp_induct) (auto intro: auth_inv_init auth_inv_step)

section \<open>A concrete run, for the witnesses\<close>

text \<open>Hashing that keeps the text, so that verification is equality.\<close>

definition demo_crypto :: crypto where
  "demo_crypto = \<lparr>cr_hash = (\<lambda>salt s. Inr s), cr_verify = (\<lambda>s h. Inr (s = h)),
     cr_fingerprint = (\<lambda>h. h)\<rparr>"

definition demo_code :: string where "demo_code = ''0123456789abcdef''"
definition demo_token :: string where "demo_token = ''0123456789abcdef0123456789abcdef''"

definition demo_env :: "string \<Rightarrow> datetime \<Rightarrow> call_env" where
  "demo_env tag t = \<lparr>en_clock = (\<lambda>_. t), en_uuid = (\<lambda>i. tag @ show_nat i),
     en_plaintext = demo_code, en_salt = []\<rparr>"

definition demo_server :: server_row where
  "demo_server = \<lparr>sv_id = ''srv'', sv_name = ''web'', sv_token_hash = None, sv_token_prefix = None,
     sv_capabilities = 0, sv_last_remote_addr = None, sv_updated_at = 0\<rparr>"

definition demo_claim :: claim_agent where
  "demo_claim = \<lparr>cl_code = demo_code, cl_proposed_run_token = demo_token, cl_source = ''ip'',
     cl_remote_addr = None\<rparr>"

definition demo_offer :: offer_row where
  "demo_offer = \<lparr>eo_id = ''a0'', eo_code_hash = demo_code, eo_code_prefix = take 8 demo_code,
     eo_target_server_id = ''srv'', eo_created_by = ''system'', eo_expires_at = seconds 600,
     eo_outcome = None, eo_terminal_at = None, eo_successor_offer_id = None, eo_created_at = 0\<rparr>"

definition demo_created :: world where
  "demo_created = snd (create_server demo_crypto (demo_env ''a'' 0) demo_server System ''ip'' 600 init_world)"

definition demo_claimed :: world where
  "demo_claimed = snd (claim_commit demo_crypto (demo_env ''b'' 1) demo_claim demo_offer demo_created)"

definition demo_admitted :: world where
  "demo_admitted = snd (admit demo_crypto 2 ''srv'' demo_token 0 ''addr'' demo_claimed)"

definition demo_request :: operator_request where
  "demo_request = \<lparr>rq_server_id = ''srv'', rq_actor = User ''root'', rq_source = ''ip''\<rparr>"

lemma reachable_init: "reachable cr init_world"
  by (simp add: reachable_def)

lemma reachable_step: "reachable cr w \<Longrightarrow> auth_step cr w w' \<Longrightarrow> reachable cr w'"
  unfolding reachable_def by (rule rtranclp.rtrancl_into_rtrancl)

lemma demo_reachable:
  "reachable demo_crypto demo_created" "reachable demo_crypto demo_claimed"
  "reachable demo_crypto demo_admitted"
proof -
  have "\<not> is_blank (sv_id demo_server)" by code_simp
  then show c: "reachable demo_crypto demo_created"
    unfolding demo_created_def
    by (intro reachable_step [OF reachable_init] auth_step.StepCreate)
      (simp_all add: demo_server_def init_world_def)
  show d: "reachable demo_crypto demo_claimed"
    unfolding demo_claimed_def by (rule reachable_step [OF c]) (rule auth_step.StepClaim)
  show "reachable demo_crypto demo_admitted"
    unfolding demo_admitted_def by (rule reachable_step [OF d]) (rule auth_step.StepAdmit)
qed

lemma demo_results:
  "fst (claim_commit demo_crypto (demo_env ''b'' 1) demo_claim demo_offer demo_created) = Inr ''srv''"
  "fst (admit demo_crypto 2 ''srv'' demo_token 0 ''addr'' demo_claimed) =
     Inr \<lparr>ad_server_id = ''srv'', ad_server_name = ''web'', ad_server_capabilities = 0,
          ad_connection_id = 1\<rparr>"
  "fst (revoke_authority (demo_env ''c'' 3) demo_request demo_admitted) = Inr True"
  "is_online ''srv'' (w_mgr demo_admitted)"
  by code_simp+


end
