(* ===== verification/Authority_Properties.thy ===== *)
theory Authority_Properties
  imports Authority_Safety
begin

text \<open>
  The properties of the enrolment service: safety of every reachable world, the effect of a
  successful claim and of a revocation, single use of codes, and atomicity of failures.
\<close>

section \<open>Reachable worlds\<close>

text \<open>The steps of the service refine the protocol.\<close>

lemma step_refines:
  assumes "auth_inv cr w" and "auth_step cr w w'"
  shows "db_step\<^sup>*\<^sup>* (w_db w) (w_db w')"
  using assms(2,1)
proof (induction rule: auth_step.induct)
  case (StepCreate row w)
  from StepCreate.prems have "live_ok cr w" by (simp add: auth_inv_def)
  from create_refines [OF StepCreate.hyps this] show ?case by (simp add: refines_def)
next
  case (StepAdmit w now sid token tx addr)
  have "wp (admit cr now sid token tx addr) (\<lambda>_ w'. w_db w' = w_db w) (\<lambda>_ w'. w_db w' = w_db w) w"
    by (rule wp_admit) simp_all
  then show ?case by (simp add: wp_same)
qed (use issue_refines claim_refines reenroll_refines replace_refines revoke_offer_refines
      revoke_authority_refines delete_refines claim_lookup_same preflight_same
    in \<open>simp_all add: refines_def unchanged_def auth_inv_db\<close>)

lemma steps_refine:
  assumes "(auth_step cr)\<^sup>*\<^sup>* w w'" and "auth_inv cr w"
  shows "auth_inv cr w' \<and> db_step\<^sup>*\<^sup>* (w_db w) (w_db w')"
  using assms
  by (induction rule: rtranclp_induct) (auto intro: auth_inv_step step_refines rtranclp_trans)

text \<open>
  Claim C2: the service implements the enrolment protocol.  From any reachable world, every step
  (an operation with its early returns, failing statements, a failing commit, a registry
  operation) commits nothing but a sequence of the protocol's transitions, each together with
  the event that records it.
\<close>

theorem service_refines_protocol:
  assumes "reachable cr w" and "auth_step cr w w'"
  shows "db_step\<^sup>*\<^sup>* (w_db w) (w_db w')"
  using assms by (auto intro: step_refines reachable_inv)

theorem service_refines_protocol_witness:
  "db_step\<^sup>*\<^sup>* (w_db demo_created) (w_db demo_claimed) \<and>
   w_db demo_created \<noteq> w_db demo_claimed"
proof -
  have "auth_step demo_crypto demo_created demo_claimed"
    unfolding demo_claimed_def by (rule auth_step.StepClaim)
  moreover have "w_db demo_created \<noteq> w_db demo_claimed" by code_simp
  ultimately show ?thesis using service_refines_protocol [OF demo_reachable(1)] by blast
qed

text \<open>
  The tables stay consistent.  In every reachable world identifiers are unique, every
  stored offer and event satisfies the schema's CHECK constraints, every offer's server exists,
  and no server has two open enrolment offers.
\<close>

lemma reachable_tables_ok: "reachable cr w \<Longrightarrow> db_ok (w_db w)"
  by (rule auth_inv_db) (rule reachable_inv)

lemma reachable_tables_ok_witness: "db_ok (w_db demo_admitted) \<and> db_servers (w_db demo_admitted) \<noteq> []"
proof -
  have "db_servers (w_db demo_admitted) \<noteq> []" by code_simp
  with reachable_tables_ok [OF demo_reachable(3)] show ?thesis by simp
qed

text \<open>
  Claim C28: the event log is a faithful history.  In every reachable world each server's events
  form a chain (every event starts from the authority the previous one left, the first from
  unclaimed), and the last one's outcome is the authority the server has now: no change of
  authority is committed without its event, none is recorded that did not happen.
\<close>

theorem event_log_faithful:
  assumes "reachable cr w"
  shows "chained ''unclaimed'' (events_of sid (w_db w)) \<and>
    (\<forall>r. find_server sid (w_db w) = Some r \<longrightarrow>
       final_status ''unclaimed'' (events_of sid (w_db w)) = authority_status_str (authority_status r))"
  using reachable_inv [OF assms] by (simp add: auth_inv_def log_ok_def)

theorem event_log_faithful_witness:
  "chained ''unclaimed'' (events_of ''srv'' (w_db demo_claimed)) \<and>
   length (events_of ''srv'' (w_db demo_claimed)) = 2"
proof -
  have "length (events_of ''srv'' (w_db demo_claimed)) = 2" by code_simp
  with event_log_faithful [OF demo_reachable(2), of "''srv''"] show ?thesis by simp
qed

text \<open>
  Claim C1: no connection outlives its credential.  In every reachable world a connected server
  exists, holds a token, and its connection was admitted under that very token (the bound
  fingerprint is the current hash's).  Claims, revocations, emergency re-enrolments, deletions,
  failed commits and reconnects in any order never leave a connection admitted under an older
  credential.
\<close>

theorem live_connection_has_current_credential:
  assumes "reachable cr w" and "tget (am_connections (w_mgr w)) s = Some c"
  shows "\<exists>r h. find_server s (w_db w) = Some r \<and> authority_status r = Claimed \<and>
    sv_token_hash r = Some h \<and> ac_authority_fingerprint c = Some (cr_fingerprint cr h)"
  using reachable_inv [OF assms(1)] assms(2)
  by (fastforce simp: auth_inv_def live_ok_def conns_def authority_status_def)

theorem live_connection_has_current_credential_witness:
  "\<exists>c r h. tget (am_connections (w_mgr demo_admitted)) ''srv'' = Some c \<and>
     find_server ''srv'' (w_db demo_admitted) = Some r \<and> sv_token_hash r = Some h \<and>
     ac_authority_fingerprint c = Some (cr_fingerprint demo_crypto h)"
proof -
  obtain c where c: "tget (am_connections (w_mgr demo_admitted)) ''srv'' = Some c"
    using demo_results(4) by (auto simp: is_online_def thas_def)
  from live_connection_has_current_credential [OF demo_reachable(3) c] c show ?thesis by blast
qed

section \<open>Admission\<close>

lemma admit_success:
  assumes "fst (admit cr now sid token tx addr w) = Inr ad"
  shows "\<exists>server h. server \<in> set (db_servers (w_db w)) \<and> sv_id server = sid \<and>
    sv_token_hash server = Some h \<and> cr_verify cr token h = Inr True \<and>
    ad_connection_id ad = am_next_connection_id (w_mgr w) \<and>
    w_mgr (snd (admit cr now sid token tx addr w)) = admitted cr now server h tx addr (w_mgr w)"
proof -
  have "wp (admit cr now sid token tx addr)
      (\<lambda>ad w'. \<exists>server h. server \<in> set (db_servers (w_db w)) \<and> sv_id server = sid \<and>
         sv_token_hash server = Some h \<and> cr_verify cr token h = Inr True \<and>
         ad_connection_id ad = am_next_connection_id (w_mgr w) \<and>
         w_mgr w' = admitted cr now server h tx addr (w_mgr w)) (\<lambda>_ _. True) w"
    by (rule wp_admit) auto
  from wpD [OF this assms] show ?thesis .
qed

text \<open>
  An agent is admitted only with its server's current token.  If an admission succeeds
  in a reachable world, the presented token verifies against the hash the server holds at that
  moment (not when the connection was pre-flighted), and the connection it returns is the
  server's current one.
\<close>

lemma admission_needs_current_token:
  assumes "reachable cr w" and "fst (admit cr now sid token tx addr w) = Inr ad"
  shows "\<exists>r h. find_server sid (w_db w) = Some r \<and> sv_token_hash r = Some h \<and>
    cr_verify cr token h = Inr True \<and>
    is_current_connection sid (ad_connection_id ad)
      (w_mgr (snd (admit cr now sid token tx addr w)))"
proof -
  from admit_success [OF assms(2)] obtain r h where
    r: "r \<in> set (db_servers (w_db w))" "sv_id r = sid" and
    h: "sv_token_hash r = Some h" "cr_verify cr token h = Inr True" and
    ad: "ad_connection_id ad = am_next_connection_id (w_mgr w)"
      "w_mgr (snd (admit cr now sid token tx addr w)) = admitted cr now r h tx addr (w_mgr w)"
    by blast
  have "find_server sid (w_db w) = Some r"
    using find_server_member [OF _ r(1)] r(2) reachable_inv [OF assms(1)] by (simp add: auth_inv_def)
  moreover have "is_current_connection sid (ad_connection_id ad) (admitted cr now r h tx addr (w_mgr w))"
    using conns_admitted [of cr now r h tx addr "w_mgr w" sid]
    by (simp add: is_current_connection_def conns_def ad(1) r(2))
  ultimately show ?thesis using h ad(2) by auto
qed

lemma admission_needs_current_token_witness:
  "\<exists>r. find_server ''srv'' (w_db demo_claimed) = Some r \<and> sv_token_hash r = Some demo_token"
proof -
  from admission_needs_current_token [OF demo_reachable(2) demo_results(2)] show ?thesis
    by (auto simp: demo_crypto_def)
qed

section \<open>Claims\<close>

lemma claim_effect:
  assumes "find_offer oid d = Some offer" and "find_server (eo_target_server_id offer) d = Some server"
    and "update_offer (eo_id offer) (set_terminal Consumed t None) d = Some d1"
    and "update_server (sv_id server) (set_token h p a t) d1 = Some d2"
    and "insert_event_row e d2 = Some d3"
  shows "find_server (eo_target_server_id offer) d3 = Some (set_token h p a t server) \<and>
    find_offer oid d3 = Some (set_terminal Consumed t None offer) \<and>
    sv_id server = eo_target_server_id offer"
proof -
  have "sv_id server = eo_target_server_id offer" "eo_id offer = oid"
    using assms(1,2) find_server_id find_offer_Some by blast+
  with assms(1,2) show ?thesis
    using find_offer_stmt(1) [OF assms(5), of oid] find_offer_stmt(2) [OF assms(4), of oid]
      find_offer_update [OF assms(3), of oid] find_server_update [OF assms(4), of "sv_id server"]
      find_server_cong [OF insert_event_row_SomeD(1) [OF assms(5)], of "sv_id server"]
      find_server_cong [OF update_offer_SomeD(1) [OF assms(3)], of "sv_id server"]
    by simp
qed

lemma claim_success:
  assumes ok: "db_ok (w_db w)" and res: "fst (claim_commit cr en input candidate w) = Inr sid"
  shows "\<exists>offer server hash. find_offer (eo_id candidate) (w_db w) = Some offer \<and>
    eo_outcome offer = None \<and> en_clock en 0 < eo_expires_at offer \<and>
    cr_verify cr (cl_code input) (eo_code_hash offer) = Inr True \<and>
    sid = eo_target_server_id offer \<and> find_server sid (w_db w) = Some server \<and>
    cr_hash cr (en_salt en) (cl_proposed_run_token input) = Inr hash \<and>
    find_server sid (w_db (snd (claim_commit cr en input candidate w))) =
      Some (set_token hash (take 8 (cl_proposed_run_token input)) (cl_remote_addr input)
        (en_clock en 3) server) \<and>
    find_offer (eo_id candidate) (w_db (snd (claim_commit cr en input candidate w))) =
      Some (set_terminal Consumed (en_clock en 3) None offer) \<and>
    \<not> is_online sid (w_mgr (snd (claim_commit cr en input candidate w)))"
proof -
  let ?Q = "\<lambda>sid w'. \<exists>offer server hash. find_offer (eo_id candidate) (w_db w) = Some offer \<and>
    eo_outcome offer = None \<and> en_clock en 0 < eo_expires_at offer \<and>
    cr_verify cr (cl_code input) (eo_code_hash offer) = Inr True \<and>
    sid = eo_target_server_id offer \<and> find_server sid (w_db w) = Some server \<and>
    cr_hash cr (en_salt en) (cl_proposed_run_token input) = Inr hash \<and>
    find_server sid (w_db w') =
      Some (set_token hash (take 8 (cl_proposed_run_token input)) (cl_remote_addr input)
        (en_clock en 3) server) \<and>
    find_offer (eo_id candidate) (w_db w') =
      Some (set_terminal Consumed (en_clock en 3) None offer) \<and>
    \<not> is_online sid (w_mgr w')"
  have off: "\<not> is_online s (broadcast_agent_authority_changed s p (remove_connection s m))" for s p m
    using remove_offline [of s m]
    by (simp add: is_online_def broadcast_agent_authority_changed_def broadcast_browser_def)
  have "wp (claim_commit cr en input candidate) ?Q (\<lambda>_ _. True) w"
    unfolding claim_commit_def op_helpers set_token_fold
    apply (intro wp_rules wp_terminalize;
        clarsimp simp: find_offer_self off parse_server_id_def parse_identifier_def split: if_splits)
    apply (frule (4) claim_effect, auto)
    done
  from wpD [OF this res] show ?thesis .
qed

text \<open>
  Claim C6: a successful claim transfers the server, exactly.  It succeeds only for an offer that
  is open, unexpired and whose hash verifies the presented code; it installs the hash of the
  proposed token as the server's only credential, consumes the offer, and leaves the server
  without a connection, so that the old agent must be admitted anew.
\<close>

theorem claim_transfers_authority:
  assumes "reachable cr w" and "fst (claim_commit cr en input candidate w) = Inr sid"
  shows "\<exists>offer server hash. find_offer (eo_id candidate) (w_db w) = Some offer \<and>
    eo_outcome offer = None \<and> en_clock en 0 < eo_expires_at offer \<and>
    cr_verify cr (cl_code input) (eo_code_hash offer) = Inr True \<and>
    sid = eo_target_server_id offer \<and> find_server sid (w_db w) = Some server \<and>
    cr_hash cr (en_salt en) (cl_proposed_run_token input) = Inr hash \<and>
    find_server sid (w_db (snd (claim_commit cr en input candidate w))) =
      Some (set_token hash (take 8 (cl_proposed_run_token input)) (cl_remote_addr input)
        (en_clock en 3) server) \<and>
    find_offer (eo_id candidate) (w_db (snd (claim_commit cr en input candidate w))) =
      Some (set_terminal Consumed (en_clock en 3) None offer) \<and>
    \<not> is_online sid (w_mgr (snd (claim_commit cr en input candidate w)))"
  by (rule claim_success [OF auth_inv_db [OF reachable_inv [OF assms(1)]] assms(2)])

theorem claim_transfers_authority_witness:
  "\<exists>r. find_server ''srv'' (w_db demo_claimed) = Some r \<and> sv_token_hash r = Some demo_token"
proof -
  from claim_transfers_authority [OF demo_reachable(1) demo_results(1)] obtain server hash where
    "cr_hash demo_crypto (en_salt (demo_env ''b'' 1)) (cl_proposed_run_token demo_claim) = Inr hash"
    and "find_server ''srv'' (w_db demo_claimed) = Some
      (set_token hash (take 8 (cl_proposed_run_token demo_claim)) (cl_remote_addr demo_claim)
        (en_clock (demo_env ''b'' 1) 3) server)"
    unfolding demo_claimed_def by blast
  then show ?thesis by (simp add: demo_crypto_def demo_claim_def)
qed

section \<open>Identifiers of offers\<close>

text \<open>
  Only the deletion removes servers: every other operation commits tables with the servers it found.
\<close>

definition server_ids :: "db \<Rightarrow> string list" where
  "server_ids d = map sv_id (db_servers d)"

definition same_servers :: "world \<Rightarrow> world \<Rightarrow> bool" where
  "same_servers w w' \<longleftrightarrow> server_ids (w_db w') = server_ids (w_db w)"

lemma server_ids_stmt:
  "update_offer oid f d = Some d' \<Longrightarrow> server_ids d' = server_ids d"
  "insert_offer row d = Some d' \<Longrightarrow> server_ids d' = server_ids d"
  "insert_event_row e d = Some d' \<Longrightarrow> server_ids d' = server_ids d"
  "update_server k (clear_token t) d = Some d' \<Longrightarrow> server_ids d' = server_ids d"
  "update_server k (set_token h p a t) d = Some d' \<Longrightarrow> server_ids d' = server_ids d"
  "closes row oc d d' \<Longrightarrow> server_ids d' = server_ids d"
  by (simp_all add: server_ids_def stmt_SomeD closes_def)

lemma server_ids_same: "db_servers d' = db_servers d \<Longrightarrow> server_ids d' = server_ids d"
  by (simp add: server_ids_def)

lemma wp_same_serversI: "wp m (\<lambda>_. same_servers w) (\<lambda>_. same_servers w) w \<Longrightarrow> same_servers w (snd (m w))"
  by (simp add: wp_same)

lemma issue_servers: "db_ok (w_db w) \<Longrightarrow> same_servers w (snd (issue_offer_for_unclaimed cr en input ttl w))"
  unfolding issue_offer_for_unclaimed_def op_helpers
  by (rule wp_same_serversI, intro wp_rules wp_expire_elapsed wp_mint_offer)
    (auto simp: same_servers_def find_server_self dest!: server_ids_stmt server_ids_same)

lemma reenroll_servers: "db_ok (w_db w) \<Longrightarrow> same_servers w (snd (begin_reenrollment cr en input mode ttl w))"
  unfolding begin_reenrollment_def op_helpers set_token_fold
  by (cases mode; rule wp_same_serversI; simp only: reenrollment_mode.case; intro wp_rules wp_expire_elapsed wp_mint_offer)
    (auto simp: same_servers_def find_server_self dest!: server_ids_stmt server_ids_same)

lemma replace_servers: "same_servers w (snd (replace_offer cr en input oid ttl w))"
  unfolding replace_offer_def op_helpers
  by (rule wp_same_serversI, intro wp_rules wp_terminalize wp_insert_prepared)
    (auto simp: same_servers_def find_server_self dest!: owned_by_SomeD server_ids_stmt)

lemma revoke_offer_servers: "same_servers w (snd (revoke_offer en input oid w))"
  unfolding revoke_offer_def op_helpers
  by (rule wp_same_serversI, intro wp_rules wp_terminalize)
    (auto simp: same_servers_def find_server_self dest!: owned_by_SomeD server_ids_stmt)

lemma revoke_servers:
  assumes ok: "db_ok (w_db w)"
  shows "same_servers w (snd (revoke_authority en input w))"
  unfolding revoke_authority_def op_helpers set_token_fold
  by (rule wp_same_serversI, intro wp_rules wp_terminalize)
    (auto simp: same_servers_def find_server_self dest!: open_offers_unique [OF ok] server_ids_stmt)

lemma claim_servers: "same_servers w (snd (claim_commit cr en input candidate w))"
  unfolding claim_commit_def op_helpers set_token_fold
  by (rule wp_same_serversI, intro wp_rules wp_terminalize)
    (auto simp: same_servers_def find_offer_self dest!: server_ids_stmt)

text \<open>The creation adds one, the deletion removes servers with their offers.\<close>

lemma create_servers:
  "set (server_ids (w_db w)) \<subseteq> set (server_ids (w_db (snd (create_server cr en row ac src ttl w))))"
proof -
  let ?Q = "\<lambda>w'. set (server_ids (w_db w)) \<subseteq> set (server_ids (w_db w'))"
  have inserted: "set (server_ids d) = insert (sv_id row) (set (server_ids (w_db w)))"
    if "insert_server row (w_db w) = Some d" for d
    using that by (auto simp: insert_server_def server_ids_def split: if_splits)
  have "wp (create_server cr en row ac src ttl) (\<lambda>_. ?Q) (\<lambda>_. ?Q) w"
    unfolding create_server_def issue_initial_offer_tx_def op_helpers
    by (intro wp_rules wp_mint_offer) (auto dest!: server_ids_stmt inserted)
  then show ?thesis by (simp add: wp_same)
qed

lemma delete_offers:
  "set (db_offers (w_db (snd (delete_servers en ids ac src w)))) \<subseteq> set (db_offers (w_db w))"
proof -
  let ?Q = "\<lambda>w'. set (db_offers (w_db w')) \<subseteq> set (db_offers (w_db w))"
  have "wp (delete_servers en ids ac src) (\<lambda>_. ?Q) (\<lambda>_. ?Q) w"
    unfolding delete_servers_def Let_def
    by (intro wp_rules wp_record_deletions) (auto simp: delete_server_rows_def dest!: insert_events_SomeD)
  then show ?thesis by (simp add: wp_same)
qed

text \<open>A server whose deletion is in the log is not there: its identifier is never used again.\<close>

lemma deletion_names_rows:
  "list_all2 deletion_event es rows \<Longrightarrow> e \<in> set es \<Longrightarrow> ae_server_id e \<in> sv_id ` set rows"
  by (induction rule: list_all2_induct) (auto simp: deletion_event_def)

lemma transition_not_deleted:
  "tr \<noteq> ServerDeleted \<Longrightarrow> ei_transition i = tr \<Longrightarrow> ae_transition (event_row_of u t i) \<noteq> ''server_deleted''"
  by (cases tr) simp_all

lemma deleted_grows:
  "db_events d' = db_events d @ [e] \<Longrightarrow> ae_transition e \<noteq> ''server_deleted'' \<Longrightarrow> deleted sid d' = deleted sid d"
  by (simp add: deleted_def)

lemma deleted_insert:
  assumes "insert_event_row (event_row_of u t i) d = Some d'" "ei_transition i \<noteq> ServerDeleted"
    and "db_events d = db_events d0"
  shows "deleted sid d' = deleted sid d0"
  using deleted_grows [of d' d0 "event_row_of u t i"] insert_event_row_SomeD(3) [OF assms(1)]
    transition_not_deleted [OF assms(2) refl] assms(3)
  by simp

lemma deleted_present:
  assumes "db_step d d'" "deleted sid d'" "sid \<in> set (server_ids d')"
  shows "deleted sid d \<and> sid \<in> set (server_ids d)"
  using assms
proof (induction rule: db_step.induct)
  case (CloseOffer row d server oc t d1 u t' ac src d2)
  then show ?case
    using deleted_insert [OF CloseOffer.hyps(6)] update_offer_SomeD(2) [OF CloseOffer.hyps(5)]
      server_ids_stmt(1) [OF CloseOffer.hyps(5)] server_ids_stmt(3) [OF CloseOffer.hyps(6)]
    by auto
next
  case (IssueOffer row d server tr md d1 u t' ac src d2)
  then show ?case
    using deleted_insert [OF IssueOffer.hyps(5)] insert_offer_SomeD(2) [OF IssueOffer.hyps(4)]
      server_ids_stmt(2) [OF IssueOffer.hyps(4)] server_ids_stmt(3) [OF IssueOffer.hyps(5)]
    by auto
next
  case (EmergencyReenroll row d server t d1 d2 u t' ac src d3)
  then show ?case
    using deleted_insert [OF EmergencyReenroll.hyps(6)] insert_offer_SomeD(2) [OF EmergencyReenroll.hyps(5)]
      update_server_SomeD(2) [OF EmergencyReenroll.hyps(4)] server_ids_stmt(4) [OF EmergencyReenroll.hyps(4)]
      server_ids_stmt(2) [OF EmergencyReenroll.hyps(5)] server_ids_stmt(3) [OF EmergencyReenroll.hyps(6)]
    by simp
next
  case (ConsumeOffer row d server t d1 hash prefix addr d2 u t' src d3)
  then show ?case
    using deleted_insert [OF ConsumeOffer.hyps(6)] update_offer_SomeD(2) [OF ConsumeOffer.hyps(4)]
      update_server_SomeD(2) [OF ConsumeOffer.hyps(5)] server_ids_stmt(5) [OF ConsumeOffer.hyps(5)]
      server_ids_stmt(1) [OF ConsumeOffer.hyps(4)] server_ids_stmt(3) [OF ConsumeOffer.hyps(6)]
    by simp
next
  case (ReplaceOffer row d server succ t d1 d2 u t' ac src d3)
  then show ?case
    using deleted_insert [OF ReplaceOffer.hyps(8)] update_offer_SomeD(2) [OF ReplaceOffer.hyps(6)]
      insert_offer_SomeD(2) [OF ReplaceOffer.hyps(7)] server_ids_stmt(2) [OF ReplaceOffer.hyps(7)]
      server_ids_stmt(1) [OF ReplaceOffer.hyps(6)] server_ids_stmt(3) [OF ReplaceOffer.hyps(8)]
    by simp
next
  case (RevokeToken sid' d server t d1 u t' ac src d2)
  then show ?case
    using deleted_insert [OF RevokeToken.hyps(4)] update_server_SomeD(2) [OF RevokeToken.hyps(3)]
      server_ids_stmt(4) [OF RevokeToken.hyps(3)] server_ids_stmt(3) [OF RevokeToken.hyps(4)]
    by simp
next
  case (DeleteServers rows ids d es d1)
  note eqs = insert_events_SomeD [OF DeleteServers.hyps(3)]
  from DeleteServers.prems(2) have here: "sid \<notin> sv_id ` set rows" "sid \<in> set (server_ids d)"
    by (auto simp: server_ids_def delete_server_rows_def eqs)
  with deletion_names_rows [OF DeleteServers.hyps(2)] DeleteServers.prems(1) show ?case
    by (auto simp: deleted_def delete_server_rows_def eqs list_ex_iff)
next
  case (CreateServer row d)
  then show ?case by (auto simp: deleted_def server_ids_def list_ex_iff)
qed

lemma deleted_present_run:
  "db_step\<^sup>*\<^sup>* d d' \<Longrightarrow> deleted sid d' \<Longrightarrow> sid \<in> set (server_ids d') \<Longrightarrow> deleted sid d"
  by (induction rule: rtranclp_induct) (auto dest: deleted_present)

lemma reachable_present:
  assumes "reachable cr w" "sid \<in> set (server_ids (w_db w))"
  shows "\<not> deleted sid (w_db w)"
proof
  assume "deleted sid (w_db w)"
  moreover have "db_step\<^sup>*\<^sup>* (w_db init_world) (w_db w)"
    using steps_refine [OF assms(1) [unfolded reachable_def] auth_inv_init] by blast
  ultimately show False using deleted_present_run assms(2) by (fastforce simp: deleted_def init_world_def)
qed

text \<open>A step of the service leaves a terminal offer, or deletes it with its server.\<close>

lemma step_servers:
  assumes "auth_step cr w w'" "auth_inv cr w"
  shows "set (server_ids (w_db w)) \<subseteq> set (server_ids (w_db w')) \<or> set (db_offers (w_db w')) \<subseteq> set (db_offers (w_db w))"
  using assms(1)
proof cases
  case (StepCreate row en ac src ttl)
  then show ?thesis using create_servers by blast
next
  case (StepLookup cl)
  then show ?thesis using claim_lookup_same [of w cr cl] by (simp add: unchanged_def)
next
  case (StepPreflight token)
  then show ?thesis using preflight_same [of w cr token] by (simp add: unchanged_def)
next
  case (StepDelete en ids ac src)
  then show ?thesis using delete_offers by blast
next
  case (StepAdmit now sid token tx addr)
  have "wp (admit cr now sid token tx addr) (\<lambda>_ w'. w_db w' = w_db w) (\<lambda>_ w'. w_db w' = w_db w) w"
    by (rule wp_admit) simp_all
  then have "w_db (snd (admit cr now sid token tx addr w)) = w_db w" by (simp add: wp_same)
  with StepAdmit show ?thesis by simp
qed (use issue_servers reenroll_servers replace_servers revoke_offer_servers revoke_servers claim_servers
    auth_inv_db [OF assms(2)] in \<open>force simp: same_servers_def\<close>)+

lemma terminal_kept:
  assumes "reachable cr w" "auth_step cr w w'" "find_offer oid (w_db w) = Some r" "eo_outcome r \<noteq> None"
  shows "find_offer oid (w_db w') = Some r \<or> find_offer oid (w_db w') = None"
  using step_servers [OF assms(2) reachable_inv [OF assms(1)]]
proof
  note inv = reachable_inv [OF assms(1)]
  assume kept: "set (server_ids (w_db w)) \<subseteq> set (server_ids (w_db w'))"
  from assms(3) have "r \<in> set (db_offers (w_db w))" by (simp add: find_offer_Some)
  then have "find_server (eo_target_server_id r) (w_db w) \<noteq> None"
    using auth_inv_db [OF inv] by (simp add: db_ok_def list_all_iff)
  then obtain server where "find_server (eo_target_server_id r) (w_db w) = Some server" by blast
  from find_server_Some [OF this] have "eo_target_server_id r \<in> set (server_ids (w_db w))"
    by (auto simp: server_ids_def intro: rev_image_eqI)
  with kept reachable_present [OF reachable_step [OF assms(1,2)]]
  have "\<not> deleted (eo_target_server_id r) (w_db w')" by blast
  moreover have "db_step\<^sup>*\<^sup>* (w_db w) (w_db w')"
    using steps_refine [OF r_into_rtranclp inv] assms(2) by metis
  ultimately show ?thesis using terminal_steps [OF _ assms(3,4)] by blast
next
  assume sub: "set (db_offers (w_db w')) \<subseteq> set (db_offers (w_db w))"
  show ?thesis
  proof (cases "find_offer oid (w_db w')")
    case (Some x)
    then have "x \<in> set (db_offers (w_db w'))" "eo_id x = oid" by (simp_all add: find_offer_Some)
    with sub have "x \<in> set (db_offers (w_db w))" by blast
    with find_unique [of "db_offers (w_db w)" x] auth_inv_db [OF reachable_inv [OF assms(1)]] \<open>eo_id x = oid\<close> assms(3)
    have "x = r" by (simp add: db_ok_def find_offer_def)
    with Some show ?thesis by simp
  qed simp
qed

text \<open>
  The steps that give no new offer the identifier \<open>oid\<close>; the service draws identifiers as random
  UUIDs, and the table refuses one it has.
\<close>

definition fresh_step :: "crypto \<Rightarrow> string \<Rightarrow> world \<Rightarrow> world \<Rightarrow> bool" where
  "fresh_step cr oid w w' \<longleftrightarrow> auth_step cr w w' \<and>
     \<not> (find_offer oid (w_db w) = None \<and> find_offer oid (w_db w') \<noteq> None)"

lemma terminal_or_gone:
  assumes "(fresh_step cr oid)\<^sup>*\<^sup>* w w'" "reachable cr w" "find_offer oid (w_db w) = Some r" "eo_outcome r \<noteq> None"
  shows "reachable cr w' \<and> (find_offer oid (w_db w') = Some r \<or> find_offer oid (w_db w') = None)"
  using assms(1)
proof (induction rule: rtranclp_induct)
  case base
  then show ?case using assms by simp
next
  case (step w1 w2)
  from step.hyps(2) have "auth_step cr w1 w2" by (simp add: fresh_step_def)
  with step.IH have "reachable cr w2" using reachable_step by blast
  moreover have "find_offer oid (w_db w2) = Some r \<or> find_offer oid (w_db w2) = None"
    using step.IH terminal_kept [OF _ \<open>auth_step cr w1 w2\<close> _ assms(4), of oid] step.hyps(2)
    by (cases "find_offer oid (w_db w1)") (auto simp: fresh_step_def)
  ultimately show ?case by blast
qed

text \<open>
  Claim C15: an enrolment code works once.  After a claim consumed an offer, no later claim of
  that offer succeeds, with any code and after any steps of the service (re-enrolments, replaced
  offers, revocations, failed transactions, the deletion of the server), as long as no new offer
  takes the identifier of the old one.
\<close>

theorem enrollment_code_single_use:
  assumes "reachable cr w" and "fst (claim_commit cr en input candidate w) = Inr sid"
    and "(fresh_step cr (eo_id candidate))\<^sup>*\<^sup>* (snd (claim_commit cr en input candidate w)) w2"
    and "eo_id candidate2 = eo_id candidate"
  shows "\<exists>e. fst (claim_commit cr en2 input2 candidate2 w2) = Inl e"
proof (cases "fst (claim_commit cr en2 input2 candidate2 w2)")
  case (Inr sid2)
  let ?w1 = "snd (claim_commit cr en input candidate w)"
  from claim_success [OF auth_inv_db [OF reachable_inv [OF assms(1)]] assms(2)] obtain offer where
    used: "find_offer (eo_id candidate) (w_db ?w1) = Some (set_terminal Consumed (en_clock en 3) None offer)"
    by blast
  have "reachable cr ?w1" using assms(1) by (rule reachable_step) (rule auth_step.StepClaim)
  note later = terminal_or_gone [OF assms(3) this used]
  then have "reachable cr w2" by simp
  from claim_success [OF auth_inv_db [OF reachable_inv [OF this]] Inr] obtain offer2 where
    "find_offer (eo_id candidate2) (w_db w2) = Some offer2" "eo_outcome offer2 = None"
    by blast
  with later assms(4) show ?thesis by auto
qed simp

text \<open>Also after the server is deleted.\<close>

definition demo_deleted :: world where
  "demo_deleted = snd (delete_servers (demo_env ''d'' 4) [''srv''] System ''ip'' demo_claimed)"

theorem enrollment_code_single_use_witness:
  "w_db demo_deleted \<noteq> w_db demo_claimed \<and>
   (\<exists>e. fst (claim_commit demo_crypto (demo_env ''z'' 3) demo_claim demo_offer demo_deleted) = Inl e)"
proof
  show "w_db demo_deleted \<noteq> w_db demo_claimed" by code_simp
  show "\<exists>e. fst (claim_commit demo_crypto (demo_env ''z'' 3) demo_claim demo_offer demo_deleted) = Inl e"
  proof (rule enrollment_code_single_use [OF demo_reachable(1) demo_results(1) _ refl])
    have "find_offer (eo_id demo_offer) (w_db demo_deleted) = None" by code_simp
    then have "fresh_step demo_crypto (eo_id demo_offer) demo_claimed demo_deleted"
      unfolding fresh_step_def by (simp add: demo_deleted_def auth_step.StepDelete)
    then show "(fresh_step demo_crypto (eo_id demo_offer))\<^sup>*\<^sup>*
        (snd (claim_commit demo_crypto (demo_env ''b'' 1) demo_claim demo_offer demo_created)) demo_deleted"
      unfolding demo_claimed_def by (rule r_into_rtranclp)
  qed
qed

section \<open>Revocation\<close>

definition revoked_world :: "string \<Rightarrow> world \<Rightarrow> world \<Rightarrow> bool" where
  "revoked_world sid w w' \<longleftrightarrow>
     (\<exists>r. find_server sid (w_db w') = Some r \<and> sv_token_hash r = None) \<and>
     w_mgr w' = broadcast_agent_authority_changed sid
       \<lparr>as_status = Unclaimed, as_outstanding_offer = None\<rparr> (remove_connection sid (w_mgr w))"

lemma revoke_token_effect:
  assumes "find_server k d0 = Some server" and "\<forall>s. find_server s d = find_server s d0"
    and "update_server (sv_id server) (clear_token t) d = Some d1"
    and "insert_event_row e d1 = Some d2"
  shows "sv_id server = k \<and> find_server k d2 = Some (clear_token t server)"
  using find_server_id [OF assms(1)] assms(1,2)
    find_server_update [OF assms(3) token_fields(1), of k]
    find_server_cong [OF insert_event_row_SomeD(1) [OF assms(4)], of k]
  by simp

lemma revoke_effect:
  assumes ok: "db_ok (w_db w)" and res: "fst (revoke_authority en input w) = Inr changed"
  shows "revoked_world (rq_server_id input) w (snd (revoke_authority en input w))"
proof -
  have unclaimed: "authority_status r = Unclaimed \<longleftrightarrow> sv_token_hash r = None" for r
    by (simp add: authority_status_def)
  have "wp (revoke_authority en input) (\<lambda>_. revoked_world (rq_server_id input) w) (\<lambda>_ _. True) w"
    unfolding revoke_authority_def op_helpers set_token_fold
    apply (intro wp_rules wp_terminalize;
        clarsimp simp: find_server_self find_offer_self unclaimed
          dest!: open_offers_unique [OF ok] closes_step)
       apply (frule find_server_id, simp add: revoked_world_def)
      apply (frule (2) revoke_token_effect [OF _ allI [OF refl]], simp add: revoked_world_def)
     apply (frule (3) revoke_token_effect, simp add: revoked_world_def)
    apply (frule find_server_id, simp add: revoked_world_def)
    done
  from wpD [OF this res] show ?thesis .
qed

text \<open>
  Claim C16: revoking an agent's authority fences it.  When the operation reports success, the
  server holds no token and has no connection, and no connection that was ever issued before
  becomes current again, whatever the registry does afterwards.
\<close>

theorem revocation_fences_agent:
  assumes "reachable cr w" and "fst (revoke_authority en input w) = Inr changed"
    and "cid < am_next_connection_id (w_mgr w)"
  shows "\<not> is_online (rq_server_id input) (w_mgr (snd (revoke_authority en input w))) \<and>
    (\<exists>r. find_server (rq_server_id input) (w_db (snd (revoke_authority en input w))) = Some r \<and>
       authority_status r = Unclaimed) \<and>
    \<not> is_current_connection (rq_server_id input) cid
        (am_run (w_mgr (snd (revoke_authority en input w))) ops)"
proof -
  note eff = revoke_effect [OF auth_inv_db [OF reachable_inv [OF assms(1)]] assms(2)]
  then obtain p where m: "w_mgr (snd (revoke_authority en input w)) =
      am_run (remove_connection (rq_server_id input) (w_mgr w)) [AuthorityChanged (rq_server_id input) p]"
    by (auto simp: revoked_world_def)
  have "\<not> is_online (rq_server_id input) (w_mgr (snd (revoke_authority en input w)))"
    using remove_offline [of "rq_server_id input" "w_mgr w"]
    by (simp add: m is_online_def broadcast_agent_authority_changed_def broadcast_browser_def)
  moreover have "am_run (am_run x [op]) ops = am_run x (op # ops)" for x op by simp
  then have "\<not> is_current_connection (rq_server_id input) cid
      (am_run (w_mgr (snd (revoke_authority en input w))) ops)"
    unfolding m using fenced_am_run [OF assms(3)] by metis
  ultimately show ?thesis using eff by (auto simp: authority_status_def revoked_world_def)
qed

theorem revocation_fences_agent_witness:
  "\<not> is_online ''srv'' (w_mgr (snd (revoke_authority (demo_env ''c'' 3) demo_request demo_admitted)))"
proof -
  have "1 < am_next_connection_id (w_mgr demo_admitted)" by code_simp
  from revocation_fences_agent [OF demo_reachable(3) demo_results(3) this] show ?thesis
    by (simp add: demo_request_def)
qed

section \<open>Failures\<close>

definition store_atomic :: "('e, 'a) act \<Rightarrow> world \<Rightarrow> bool" where
  "store_atomic m w \<longleftrightarrow>
     (case m w of (Inl (Store _), w') \<Rightarrow> w_db w' = w_db w | _ \<Rightarrow> True)"

lemma wp_store_atomic:
  "wp m (\<lambda>_ _. True) (\<lambda>e w'. case e of Store _ \<Rightarrow> w_db w' = w_db w | Err _ \<Rightarrow> True) w \<Longrightarrow> store_atomic m w"
  by (auto simp: wp_def store_atomic_def split: prod.splits sum.splits failure.splits)

lemma issue_atomic: "db_ok (w_db w) \<Longrightarrow> store_atomic (issue_offer_for_unclaimed cr en input ttl) w"
  unfolding issue_offer_for_unclaimed_def op_helpers
  by (rule wp_store_atomic, intro wp_rules wp_expire_elapsed wp_mint_offer;
      simp add: find_server_self split: failure.split)

lemma reenroll_atomic: "db_ok (w_db w) \<Longrightarrow> store_atomic (begin_reenrollment cr en input mode ttl) w"
  unfolding begin_reenrollment_def op_helpers
  by (cases mode; rule wp_store_atomic; simp only: reenrollment_mode.case;
      intro wp_rules wp_expire_elapsed wp_mint_offer; simp add: find_server_self split: failure.split)

lemma replace_atomic: "store_atomic (replace_offer cr en input oid ttl) w"
  unfolding replace_offer_def op_helpers
  by (rule wp_store_atomic, intro wp_rules wp_terminalize wp_insert_prepared;
      clarsimp simp: find_server_self dest!: owned_by_SomeD)

lemma revoke_offer_atomic: "store_atomic (revoke_offer en input oid) w"
  unfolding revoke_offer_def op_helpers
  by (rule wp_store_atomic, intro wp_rules wp_terminalize;
      clarsimp simp: find_server_self dest!: owned_by_SomeD)

lemma revoke_authority_atomic:
  assumes ok: "db_ok (w_db w)"
  shows "store_atomic (revoke_authority en input) w"
  unfolding revoke_authority_def op_helpers
  by (rule wp_store_atomic, intro wp_rules wp_terminalize;
      clarsimp simp: find_server_self dest!: open_offers_unique [OF ok])

lemma claim_atomic:
  assumes ok: "db_ok (w_db w)"
  shows "store_atomic (claim_commit cr en input candidate) w"
proof -
  have "parse_server_id (sv_id r) = Inr (sv_id r)" if "find_server k (w_db w) = Some r" for k r
    using ok find_server_Some [OF that]
    by (auto simp: db_ok_def list_all_iff parse_server_id_def parse_identifier_def)
  then show ?thesis
    unfolding claim_commit_def op_helpers
    by (intro wp_store_atomic wp_rules wp_terminalize; clarsimp simp: find_offer_self)
qed

lemma delete_atomic: "store_atomic (delete_servers en ids ac src) w"
  unfolding delete_servers_def Let_def
  by (intro wp_store_atomic wp_rules wp_record_deletions; simp)

text \<open>
  Claim C27: a store failure commits nothing.  In a reachable world, if any operation of the
  service reports a store error (a statement, a constraint or the commit failed), the committed
  tables are exactly those before it; at most a connection was dropped.
\<close>

theorem store_failures_atomic:
  assumes "reachable cr w"
  shows "store_atomic (issue_offer_for_unclaimed cr en input ttl) w \<and>
    store_atomic (begin_reenrollment cr en input mode ttl) w \<and>
    store_atomic (replace_offer cr en input oid ttl) w \<and>
    store_atomic (revoke_offer en input oid) w \<and>
    store_atomic (revoke_authority en input) w \<and>
    store_atomic (claim_commit cr en cl candidate) w \<and>
    store_atomic (delete_servers en ids ac src) w"
  using auth_inv_db [OF reachable_inv [OF assms]]
  by (intro conjI issue_atomic reenroll_atomic replace_atomic revoke_offer_atomic
      revoke_authority_atomic claim_atomic delete_atomic)

text \<open>A revocation that cleared the token and then fails to insert the event.\<close>

definition demo_failing :: world where
  "demo_failing = demo_admitted\<lparr>w_faults := replicate 5 False @ [True]\<rparr>"

theorem store_failures_atomic_witness:
  "(case revoke_authority (demo_env ''c'' 3) demo_request demo_failing of
      (Inl (Store _), w') \<Rightarrow> w_db w' = w_db demo_failing \<and> w_tx w' \<noteq> w_db w' \<and>
        is_online ''srv'' (w_mgr w')
    | _ \<Rightarrow> False)"
proof -
  have "reachable demo_crypto demo_failing"
    unfolding demo_failing_def using demo_reachable(3) auth_step.StepFaults by (rule reachable_step)
  then have "store_atomic (revoke_authority (demo_env ''c'' 3) demo_request) demo_failing"
    using store_failures_atomic by blast
  moreover have "case revoke_authority (demo_env ''c'' 3) demo_request demo_failing of
      (Inl (Store _), w') \<Rightarrow> w_tx w' \<noteq> w_db w' \<and>
        is_online ''srv'' (w_mgr w')
    | _ \<Rightarrow> False"
    by code_simp
  ultimately show ?thesis by (auto simp: store_atomic_def split: prod.splits sum.splits failure.splits)
qed

end
