(* ===== verification/Upgrade_Tracker.thy ===== *)
theory Upgrade_Tracker
  imports SB_Prelude Capability
begin

text \<open>
  The server's record of agent upgrades (\<open>crates/server/src/service/upgrade_tracker.rs\<close>): one job
  per server, its stages, its end by report, timeout or denial, the sweep of stuck jobs and the
  clean-up of old ones.  The clock and the generated job id are arguments.  The broadcast channel
  is the list of messages sent.
\<close>

definition UPGRADE_TIMEOUT_SECS :: int where "UPGRADE_TIMEOUT_SECS = 120"
definition UPGRADE_RETENTION_HOURS :: int where "UPGRADE_RETENTION_HOURS = 24"

datatype upgrade_stage = Downloading | Verifying | PreFlight | Installing | Restarting
datatype upgrade_status = Running | Succeeded | Failed | TimedOut

record upgrade_job =
  uj_server_id :: string
  uj_job_id :: string
  uj_target_version :: string
  uj_stage :: upgrade_stage
  uj_status :: upgrade_status
  uj_error :: "string option"
  uj_backup_path :: "string option"
  uj_started_at :: datetime
  uj_finished_at :: "datetime option"

text \<open>The DTO has the job's own fields.\<close>

definition to_dto :: "upgrade_job \<Rightarrow> upgrade_job" where
  "to_dto job = job"

definition is_terminal :: "upgrade_job \<Rightarrow> bool" where
  "is_terminal job \<longleftrightarrow> uj_status job \<noteq> Running"

record upgrade_lookup =
  ul_server_id :: string
  ul_job_id :: "string option"
  ul_target_version :: string

definition lookup_from_job :: "upgrade_job \<Rightarrow> upgrade_lookup" where
  "lookup_from_job job = \<lparr>ul_server_id = uj_server_id job, ul_job_id = Some (uj_job_id job),
     ul_target_version = uj_target_version job\<rparr>"

definition lookup_matches :: "upgrade_lookup \<Rightarrow> upgrade_job \<Rightarrow> bool" where
  "lookup_matches lk job \<longleftrightarrow>
     (if uj_server_id job \<noteq> ul_server_id lk then False
      else case ul_job_id lk of
             Some job_id \<Rightarrow> uj_job_id job = job_id
           | None \<Rightarrow> uj_target_version job = ul_target_version lk)"

datatype upgrade_message = UpgradeProgress upgrade_job | UpgradeResult upgrade_job

record upgrade_tracker =
  ut_jobs :: "(string, upgrade_job) table"
  ut_browser_tx :: "upgrade_message list"

definition new_tracker :: upgrade_tracker where
  "new_tracker = \<lparr>ut_jobs = [], ut_browser_tx = []\<rparr>"

definition broadcast_progress :: "upgrade_job \<Rightarrow> upgrade_tracker \<Rightarrow> upgrade_tracker" where
  "broadcast_progress job ut = ut\<lparr>ut_browser_tx := ut_browser_tx ut @ [UpgradeProgress job]\<rparr>"

definition broadcast_result :: "upgrade_job \<Rightarrow> upgrade_tracker \<Rightarrow> upgrade_tracker" where
  "broadcast_result job ut = ut\<lparr>ut_browser_tx := ut_browser_tx ut @ [UpgradeResult job]\<rparr>"

text \<open>
  \<open>start_job\<close> reads the map and inserts in two separate steps, so that they can be interleaved
  with another caller's; \<open>start_job\<close> itself runs them back to back.
\<close>

definition start_check :: "string \<Rightarrow> upgrade_tracker \<Rightarrow> upgrade_job option" where
  "start_check server_id ut =
     (case tget (ut_jobs ut) server_id of
        Some existing \<Rightarrow> if uj_status existing = Running then Some existing else None
      | None \<Rightarrow> None)"

definition start_insert ::
  "string \<Rightarrow> string \<Rightarrow> string \<Rightarrow> datetime \<Rightarrow> upgrade_tracker \<Rightarrow> upgrade_job \<times> upgrade_tracker" where
  "start_insert server_id target_version uuid now ut =
     (let job = \<lparr>uj_server_id = server_id, uj_job_id = uuid, uj_target_version = target_version,
                 uj_stage = Downloading, uj_status = Running, uj_error = None,
                 uj_backup_path = None, uj_started_at = now, uj_finished_at = None\<rparr>;
          ut = ut\<lparr>ut_jobs := tput server_id job (ut_jobs ut)\<rparr>
      in (job, broadcast_progress job ut))"

text \<open>The left case is \<open>Conflict\<close>.\<close>

definition start_job ::
  "string \<Rightarrow> string \<Rightarrow> string \<Rightarrow> datetime \<Rightarrow> upgrade_tracker \<Rightarrow>
   (upgrade_job + upgrade_job) \<times> upgrade_tracker" where
  "start_job server_id target_version uuid now ut =
     (case start_check server_id ut of
        Some existing \<Rightarrow> (Inl existing, ut)
      | None \<Rightarrow>
          let (job, ut) = start_insert server_id target_version uuid now ut in (Inr job, ut))"

definition update_stage ::
  "upgrade_lookup \<Rightarrow> upgrade_stage \<Rightarrow> upgrade_tracker \<Rightarrow> upgrade_job option \<times> upgrade_tracker" where
  "update_stage lk stage ut =
     (case tget (ut_jobs ut) (ul_server_id lk) of
        None \<Rightarrow> (None, ut)
      | Some job \<Rightarrow>
          if uj_status job \<noteq> Running \<or> \<not> lookup_matches lk job then (None, ut)
          else if uj_stage job = stage then (Some job, ut)
          else
            let updated = job\<lparr>uj_stage := stage\<rparr>;
                ut = ut\<lparr>ut_jobs := tput (ul_server_id lk) updated (ut_jobs ut)\<rparr>
            in (Some updated, broadcast_progress updated ut))"

definition finish_job_inner ::
  "upgrade_lookup \<Rightarrow> upgrade_status \<Rightarrow> upgrade_stage option \<Rightarrow> string option \<Rightarrow> string option \<Rightarrow> bool \<Rightarrow>
   datetime \<Rightarrow> upgrade_tracker \<Rightarrow> upgrade_job option \<times> upgrade_tracker" where
  "finish_job_inner lk status stage error backup_path may_override_success now ut =
     (case tget (ut_jobs ut) (ul_server_id lk) of
        None \<Rightarrow> (None, ut)
      | Some job \<Rightarrow>
          let can_finish = (uj_status job = Running \<or>
                (may_override_success \<and> uj_status job = Succeeded)) in
          if \<not> can_finish \<or> \<not> lookup_matches lk job then (None, ut)
          else
            let job = (case stage of Some s \<Rightarrow> job\<lparr>uj_stage := s\<rparr> | None \<Rightarrow> job);
                updated = job\<lparr>uj_status := status, uj_error := error,
                              uj_backup_path := backup_path, uj_finished_at := Some now\<rparr>;
                ut = ut\<lparr>ut_jobs := tput (ul_server_id lk) updated (ut_jobs ut)\<rparr>
            in (Some updated, broadcast_result updated ut))"

definition finish_job ::
  "upgrade_lookup \<Rightarrow> upgrade_status \<Rightarrow> upgrade_stage option \<Rightarrow> string option \<Rightarrow> string option \<Rightarrow>
   datetime \<Rightarrow> upgrade_tracker \<Rightarrow> upgrade_job option \<times> upgrade_tracker" where
  "finish_job lk status stage error backup_path = finish_job_inner lk status stage error backup_path False"

definition mark_failed ::
  "upgrade_lookup \<Rightarrow> upgrade_stage \<Rightarrow> string \<Rightarrow> string option \<Rightarrow> datetime \<Rightarrow> upgrade_tracker \<Rightarrow>
   upgrade_job option \<times> upgrade_tracker" where
  "mark_failed lk stage error backup_path = finish_job lk Failed (Some stage) (Some error) backup_path"

definition mark_agent_reported_failed ::
  "upgrade_lookup \<Rightarrow> upgrade_stage \<Rightarrow> string \<Rightarrow> string option \<Rightarrow> datetime \<Rightarrow> upgrade_tracker \<Rightarrow>
   upgrade_job option \<times> upgrade_tracker" where
  "mark_agent_reported_failed lk stage error backup_path =
     finish_job_inner lk Failed (Some stage) (Some error) backup_path True"

text \<open>\<open>reason\<close> is the \<open>Debug\<close> rendering of the denial reason.\<close>

definition mark_failed_by_capability_denied ::
  "upgrade_lookup \<Rightarrow> string \<Rightarrow> datetime \<Rightarrow> upgrade_tracker \<Rightarrow> upgrade_job option \<times> upgrade_tracker" where
  "mark_failed_by_capability_denied lk reason =
     finish_job lk Failed None (Some (''Upgrade capability denied: '' @ reason)) None"

definition mark_succeeded ::
  "upgrade_lookup \<Rightarrow> string option \<Rightarrow> datetime \<Rightarrow> upgrade_tracker \<Rightarrow>
   upgrade_job option \<times> upgrade_tracker" where
  "mark_succeeded lk backup_path = finish_job lk Succeeded None None backup_path"

text \<open>The loop body of \<open>sweep_timeouts\<close>.\<close>

definition times_out :: "datetime \<Rightarrow> upgrade_job \<Rightarrow> bool" where
  "times_out now job \<longleftrightarrow>
     \<not> (uj_status job \<noteq> Running \<or> now - seconds UPGRADE_TIMEOUT_SECS < uj_started_at job)"

definition timed_out_job :: "datetime \<Rightarrow> upgrade_job \<Rightarrow> upgrade_job" where
  "timed_out_job now job =
     job\<lparr>uj_status := TimedOut,
         uj_error := Some (''Upgrade timed out after '' @ show_nat (nat UPGRADE_TIMEOUT_SECS) @ ''s''),
         uj_finished_at := Some now\<rparr>"

definition sweep_timeouts :: "datetime \<Rightarrow> upgrade_tracker \<Rightarrow> upgrade_job list \<times> upgrade_tracker" where
  "sweep_timeouts now ut =
     (let jobs = map (\<lambda>(k, j). (k, if times_out now j then timed_out_job now j else j)) (ut_jobs ut);
          timed_out = map (timed_out_job now) (filter (times_out now) (map snd (ut_jobs ut)))
      in (timed_out, ut\<lparr>ut_jobs := jobs,
                       ut_browser_tx := ut_browser_tx ut @ map UpgradeResult timed_out\<rparr>))"

definition cleanup_old :: "datetime \<Rightarrow> upgrade_tracker \<Rightarrow> nat \<times> upgrade_tracker" where
  "cleanup_old now ut =
     (let retention_cutoff = now - seconds (UPGRADE_RETENTION_HOURS * 3600);
          jobs = tretain (\<lambda>_ job. \<not> (is_terminal job \<and>
                   (case uj_finished_at job of Some t \<Rightarrow> t \<le> retention_cutoff | None \<Rightarrow> False)))
                   (ut_jobs ut)
      in (length (ut_jobs ut) - length jobs, ut\<lparr>ut_jobs := jobs\<rparr>))"

definition get_job :: "string \<Rightarrow> upgrade_tracker \<Rightarrow> upgrade_job option" where
  "get_job server_id ut = tget (ut_jobs ut) server_id"

definition snapshot :: "upgrade_tracker \<Rightarrow> upgrade_job list" where
  "snapshot ut = map (to_dto \<circ> snd) (ut_jobs ut)"

section \<open>The state machine\<close>

datatype upgrade_op =
  Start string string string datetime
| Stage upgrade_lookup upgrade_stage
| MarkFailed upgrade_lookup upgrade_stage string "string option" datetime
| AgentFailed upgrade_lookup upgrade_stage string "string option" datetime
| Denied upgrade_lookup string datetime
| MarkSucceeded upgrade_lookup "string option" datetime
| Sweep datetime
| Cleanup datetime

fun upgrade_step :: "upgrade_tracker \<Rightarrow> upgrade_op \<Rightarrow> upgrade_tracker" where
  "upgrade_step ut (Start s v u now) = snd (start_job s v u now ut)"
| "upgrade_step ut (Stage lk st) = snd (update_stage lk st ut)"
| "upgrade_step ut (MarkFailed lk st e b now) = snd (mark_failed lk st e b now ut)"
| "upgrade_step ut (AgentFailed lk st e b now) = snd (mark_agent_reported_failed lk st e b now ut)"
| "upgrade_step ut (Denied lk r now) = snd (mark_failed_by_capability_denied lk r now ut)"
| "upgrade_step ut (MarkSucceeded lk b now) = snd (mark_succeeded lk b now ut)"
| "upgrade_step ut (Sweep now) = snd (sweep_timeouts now ut)"
| "upgrade_step ut (Cleanup now) = snd (cleanup_old now ut)"

fun upgrade_run :: "upgrade_tracker \<Rightarrow> upgrade_op list \<Rightarrow> upgrade_tracker" where
  "upgrade_run ut [] = ut"
| "upgrade_run ut (op # ops) = upgrade_run (upgrade_step ut op) ops"

lemmas finish_defs = mark_failed_def mark_agent_reported_failed_def
  mark_failed_by_capability_denied_def mark_succeeded_def finish_job_def finish_job_inner_def

lemmas tracker_defs = finish_defs start_job_def start_check_def start_insert_def update_stage_def
  sweep_timeouts_def cleanup_old_def broadcast_progress_def broadcast_result_def Let_def

text \<open>What one operation may do to the job of a server.\<close>

inductive job_step :: "upgrade_job option \<Rightarrow> upgrade_job option \<Rightarrow> bool" where
  JobSame: "job_step j j"
| JobStarted: "(\<forall>j'. j = Some j' \<longrightarrow> is_terminal j') \<Longrightarrow> uj_status new = Running \<Longrightarrow>
    uj_stage new = Downloading \<Longrightarrow> uj_finished_at new = None \<Longrightarrow> job_step j (Some new)"
| JobProgressed: "uj_status j = Running \<Longrightarrow> job_step (Some j) (Some (j\<lparr>uj_stage := st\<rparr>))"
| JobFinished: "uj_status j = Running \<Longrightarrow> uj_job_id j' = uj_job_id j \<Longrightarrow> is_terminal j' \<Longrightarrow>
    uj_finished_at j' \<noteq> None \<Longrightarrow> job_step (Some j) (Some j')"
| JobOverridden: "uj_status j = Succeeded \<Longrightarrow> uj_job_id j' = uj_job_id j \<Longrightarrow>
    uj_status j' = Failed \<Longrightarrow> uj_finished_at j' \<noteq> None \<Longrightarrow> job_step (Some j) (Some j')"
| JobForgotten: "is_terminal j \<Longrightarrow> job_step (Some j) None"

inductive_cases job_step_SomeE: "job_step (Some j) j'"

definition jobs_ok :: "upgrade_tracker \<Rightarrow> bool" where
  "jobs_ok ut \<longleftrightarrow>
     table_ok (ut_jobs ut) \<and>
     (\<forall>s j. tget (ut_jobs ut) s = Some j \<longrightarrow>
        uj_server_id j = s \<and> (is_terminal j \<longleftrightarrow> uj_finished_at j \<noteq> None))"

lemma timed_out_fields [simp]:
  "uj_status (timed_out_job now j) = TimedOut" "uj_server_id (timed_out_job now j) = uj_server_id j"
  "uj_finished_at (timed_out_job now j) = Some now" "uj_job_id (timed_out_job now j) = uj_job_id j"
  by (simp_all add: timed_out_job_def)

lemma get_job_sweep:
  "get_job s (snd (sweep_timeouts now ut)) =
     map_option (\<lambda>j. if times_out now j then timed_out_job now j else j) (get_job s ut)"
  by (simp add: sweep_timeouts_def get_job_def Let_def tget_map_values)

lemma times_out_running: "times_out now j \<Longrightarrow> uj_status j = Running"
  by (simp add: times_out_def)

lemma timed_out_neq [simp]: "uj_status z = Running \<Longrightarrow> z \<noteq> timed_out_job now z"
  by (metis timed_out_fields(1) upgrade_status.distinct(5))

lemma jobs_ok_step: "jobs_ok ut \<Longrightarrow> jobs_ok (upgrade_step ut op)"
proof (cases op)
  case (Sweep now)
  assume ok: "jobs_ok ut"
  have "table_ok (ut_jobs (snd (sweep_timeouts now ut))) = table_ok (ut_jobs ut)"
    by (simp add: sweep_timeouts_def Let_def)
  with ok show ?thesis
    by (auto simp: Sweep jobs_ok_def get_job_sweep [unfolded get_job_def] is_terminal_def)
qed (auto simp: jobs_ok_def tracker_defs table_simps is_terminal_def lookup_matches_def
      split: option.splits if_splits)

lemma finish_job_step:
  assumes "status \<noteq> Running" and "may_override \<Longrightarrow> status = Failed"
  shows "job_step (get_job s ut)
    (get_job s (snd (finish_job_inner lk status stage error backup may_override now ut)))"
proof (cases "snd (finish_job_inner lk status stage error backup may_override now ut) = ut")
  case True
  then show ?thesis by (simp add: JobSame)
next
  case False
  then obtain job where job: "tget (ut_jobs ut) (ul_server_id lk) = Some job"
    and can: "uj_status job = Running \<or> may_override \<and> uj_status job = Succeeded"
    and "lookup_matches lk job"
    by (auto simp: finish_job_inner_def Let_def split: option.splits if_splits)
  moreover define j' where "j' = (case stage of Some x \<Rightarrow> job\<lparr>uj_stage := x\<rparr> | None \<Rightarrow> job)
      \<lparr>uj_status := status, uj_error := error, uj_backup_path := backup, uj_finished_at := Some now\<rparr>"
  ultimately have j': "uj_status j' = status" "uj_job_id j' = uj_job_id job"
    "uj_finished_at j' = Some now"
    "ut_jobs (snd (finish_job_inner lk status stage error backup may_override now ut)) =
        tput (ul_server_id lk) j' (ut_jobs ut)"
    by (auto simp: finish_job_inner_def broadcast_result_def Let_def split: option.split)
  show ?thesis
  proof (cases "s = ul_server_id lk")
    case True
    have "job_step (Some job) (Some j')"
      using can
    proof
      assume "uj_status job = Running"
      then show ?thesis using j' assms(1) by (intro JobFinished) (simp_all add: is_terminal_def)
    next
      assume "may_override \<and> uj_status job = Succeeded"
      then show ?thesis using j' assms(2) by (intro JobOverridden) simp_all
    qed
    with True show ?thesis by (simp add: get_job_def j'(4) job table_simps)
  next
    case False
    then show ?thesis by (simp add: get_job_def j'(4) table_simps JobSame)
  qed
qed

lemma job_step_op:
  assumes "jobs_ok ut"
  shows "job_step (get_job s ut) (get_job s (upgrade_step ut op))"
proof (cases op)
  case (Sweep now)
  show ?thesis
    by (cases "get_job s ut")
      (auto simp: Sweep get_job_sweep is_terminal_def times_out_running
        intro: job_step.intros)
next
  case (Start s' v u now)
  then show ?thesis
    by (auto simp: tracker_defs get_job_def table_simps is_terminal_def
        split: option.splits if_splits intro: job_step.intros)
next
  case (Cleanup now)
  with assms show ?thesis
    by (cases "tget (ut_jobs ut) s")
      (auto simp: tracker_defs get_job_def jobs_ok_def table_simps split: option.splits if_splits
        intro: job_step.intros)
next
  case (Stage lk st)
  then show ?thesis
    by (auto simp: tracker_defs get_job_def table_simps split: option.splits if_splits
        intro: job_step.intros)
qed (simp_all add: finish_job_step mark_failed_def mark_agent_reported_failed_def
    mark_failed_by_capability_denied_def mark_succeeded_def finish_job_def)

lemma jobs_ok_new: "jobs_ok new_tracker"
  by (simp add: jobs_ok_def new_tracker_def)

lemma jobs_ok_run: "jobs_ok ut \<Longrightarrow> jobs_ok (upgrade_run ut ops)"
  by (induction ops arbitrary: ut) (auto simp: jobs_ok_step)

text \<open>
  Every job follows the upgrade life cycle.  From a fresh tracker, each operation
  leaves a server's job unchanged or makes one legal move of it: a new job starts only where
  none is running, a running job progresses or ends (with its finishing time), a success is
  overridden only by a failure, and only a finished job is forgotten.
\<close>

lemma upgrade_life_cycle:
  "job_step (get_job s (upgrade_run new_tracker ops)) (get_job s (upgrade_run new_tracker (ops @ [op])))"
proof -
  have "upgrade_run ut (ops @ [op]) = upgrade_step (upgrade_run ut ops) op" for ut
    by (induction ops arbitrary: ut) auto
  then show ?thesis by (simp add: job_step_op jobs_ok_run jobs_ok_new)
qed

section \<open>Final verdicts\<close>

fun starts_job :: "string \<Rightarrow> upgrade_op \<Rightarrow> bool" where
  "starts_job u (Start _ _ u' _) \<longleftrightarrow> u' = u"
| "starts_job u _ \<longleftrightarrow> False"

lemma settled_step:
  assumes "\<not> starts_job (uj_job_id j) op" and "uj_status j = Failed \<or> uj_status j = TimedOut"
    and "\<And>j'. get_job s ut = Some j' \<Longrightarrow> uj_job_id j' = uj_job_id j \<Longrightarrow> j' = j"
    and "get_job s (upgrade_step ut op) = Some j'" and "uj_job_id j' = uj_job_id j"
    and "jobs_ok ut"
  shows "j' = j"
proof (cases op)
  case (Sweep now)
  with assms(2,3,4,5) show ?thesis
    by (auto simp: get_job_sweep dest: times_out_running split: if_splits)
next
  case (Start s' v u now)
  with assms show ?thesis
    by (auto simp: tracker_defs get_job_def table_simps split: option.splits if_splits)
next
  case (Cleanup now)
  with assms show ?thesis
    by (auto simp: tracker_defs get_job_def table_simps jobs_ok_def split: option.splits if_splits)
qed (use assms in \<open>auto simp: tracker_defs get_job_def table_simps split: option.splits if_splits\<close>)

lemma settled_run:
  assumes "\<forall>op \<in> set ops. \<not> starts_job (uj_job_id j) op"
    and "uj_status j = Failed \<or> uj_status j = TimedOut"
    and "\<And>j'. get_job s ut = Some j' \<Longrightarrow> uj_job_id j' = uj_job_id j \<Longrightarrow> j' = j"
    and "get_job s (upgrade_run ut ops) = Some j'" and "uj_job_id j' = uj_job_id j"
    and "jobs_ok ut"
  shows "j' = j"
  using assms
proof (induction ops arbitrary: ut)
  case Nil
  then show ?case by simp
next
  case (Cons op ops)
  show ?case
  proof (rule Cons.IH)
    show "get_job s (upgrade_run (upgrade_step ut op) ops) = Some j'" using Cons.prems(4) by simp
    show "jobs_ok (upgrade_step ut op)" using Cons.prems(6) by (rule jobs_ok_step)
    fix x assume "get_job s (upgrade_step ut op) = Some x" "uj_job_id x = uj_job_id j"
    then show "x = j"
      using settled_step [of j op s ut x] Cons.prems by simp
  qed (use Cons.prems in auto)
qed

text \<open>
  A failure or timeout is final.  Once a server's job has failed or timed out, no later
  report (success included), sweep or clean-up changes it: while a job with its id is on record,
  it is that very job.  Job ids are not reused by later starts.
\<close>

lemma failed_upgrade_is_final:
  assumes "get_job s (upgrade_run new_tracker ops1) = Some j"
    and "uj_status j = Failed \<or> uj_status j = TimedOut"
    and "\<forall>op \<in> set ops2. \<not> starts_job (uj_job_id j) op"
    and "get_job s (upgrade_run (upgrade_run new_tracker ops1) ops2) = Some j'"
    and "uj_job_id j' = uj_job_id j"
  shows "j' = j"
  by (rule settled_run [OF assms(3,2) _ assms(4,5) jobs_ok_run [OF jobs_ok_new]])
    (simp add: assms(1))

lemma failed_upgrade_is_final_witness:
  "\<exists>j j'. get_job ''s'' (upgrade_run new_tracker [Start ''s'' ''v2'' ''job'' 0, Sweep (seconds 200)]) = Some j \<and>
     get_job ''s'' (upgrade_run (upgrade_run new_tracker [Start ''s'' ''v2'' ''job'' 0, Sweep (seconds 200)])
       [MarkSucceeded \<lparr>ul_server_id = ''s'', ul_job_id = None, ul_target_version = ''v2''\<rparr> None (seconds 201)])
       = Some j' \<and> uj_status j = TimedOut \<and> j' = j"
proof -
  let ?ops1 = "[Start ''s'' ''v2'' ''job'' 0, Sweep (seconds 200)]"
  let ?ops2 = "[MarkSucceeded \<lparr>ul_server_id = ''s'', ul_job_id = None, ul_target_version = ''v2''\<rparr>
      None (seconds 201)]"
  have "map_option (\<lambda>j. (uj_status j, uj_job_id j)) (get_job ''s'' (upgrade_run new_tracker ?ops1)) =
      Some (TimedOut, ''job'')"
    by code_simp
  then obtain j where j: "get_job ''s'' (upgrade_run new_tracker ?ops1) = Some j"
    "uj_status j = TimedOut" "uj_job_id j = ''job''" by auto
  have "map_option uj_job_id (get_job ''s'' (upgrade_run (upgrade_run new_tracker ?ops1) ?ops2)) =
      Some ''job''"
    by code_simp
  then obtain j' where j': "get_job ''s'' (upgrade_run (upgrade_run new_tracker ?ops1) ?ops2) = Some j'"
    "uj_job_id j' = uj_job_id j" using j by auto
  have "j' = j"
    by (rule failed_upgrade_is_final [OF j(1) disjI2 [OF j(2)] _ j']) simp
  with j j' show ?thesis by blast
qed

section \<open>Timeouts\<close>

text \<open>
  No upgrade runs forever.  After a sweep at time \<open>now\<close>, no job that is still running
  was started 120 seconds ago or earlier; exactly the running jobs that old are turned into
  timeouts, and each of them is broadcast once.
\<close>

lemma sweep_ends_stuck_upgrades:
  "(\<forall>s j. get_job s (snd (sweep_timeouts now ut)) = Some j \<longrightarrow> uj_status j = Running \<longrightarrow>
      now - seconds 120 < uj_started_at j) \<and>
   (\<forall>s j. get_job s ut = Some j \<longrightarrow>
      get_job s (snd (sweep_timeouts now ut)) =
        Some (if uj_status j = Running \<and> uj_started_at j \<le> now - seconds 120
              then timed_out_job now j else j)) \<and>
   ut_browser_tx (snd (sweep_timeouts now ut)) =
     ut_browser_tx ut @ map UpgradeResult (fst (sweep_timeouts now ut))"
proof -
  have "ut_browser_tx (snd (sweep_timeouts now ut)) =
      ut_browser_tx ut @ map UpgradeResult (fst (sweep_timeouts now ut))"
    by (simp add: sweep_timeouts_def Let_def)
  then show ?thesis
    by (auto simp: get_job_sweep times_out_def UPGRADE_TIMEOUT_SECS_def split: if_splits)
qed

lemma sweep_ends_stuck_upgrades_witness:
  "\<exists>j. get_job ''s'' (snd (sweep_timeouts (seconds 120)
         (snd (start_job ''s'' ''v2'' ''job'' 0 new_tracker)))) = Some j \<and> uj_status j \<noteq> Running"
proof -
  let ?ut = "snd (start_job ''s'' ''v2'' ''job'' 0 new_tracker)"
  have "map_option (\<lambda>j. (uj_status j, uj_started_at j)) (get_job ''s'' ?ut) = Some (Running, 0)"
    by code_simp
  then obtain j where j: "get_job ''s'' ?ut = Some j" "uj_status j = Running" "uj_started_at j = 0"
    by auto
  from sweep_ends_stuck_upgrades [of "seconds 120" ?ut] j
  have "get_job ''s'' (snd (sweep_timeouts (seconds 120) ?ut)) = Some (timed_out_job (seconds 120) j)"
    by simp
  then show ?thesis by (simp add: timed_out_job_def)
qed

text \<open>
  Two requests can both start an upgrade of one server.  \<open>start_job\<close> reads the map
  and inserts in two steps; when both callers' reads happen before either insert, both are told
  their job started, although \<open>start_job\<close> run alone refuses the second, and the first job is
  gone from the record.
\<close>

lemma concurrent_starts_both_accepted:
  assumes "start_check s ut = None" and "u1 \<noteq> u2"
  shows "(let (job1, ut1) = start_insert s v1 u1 now1 ut;
              (job2, ut2) = start_insert s v2 u2 now2 ut1
          in uj_status job1 = Running \<and> uj_status job2 = Running \<and>
             get_job s ut2 = Some job2 \<and> get_job s ut2 \<noteq> Some job1 \<and>
             fst (start_job s v2 u2 now2 ut1) = Inl job1)"
  using assms
  by (simp add: start_insert_def start_job_def start_check_def get_job_def broadcast_progress_def
      Let_def table_simps)

lemma concurrent_starts_both_accepted_witness:
  "(let (job1, ut1) = start_insert ''s'' ''v2'' ''a'' 0 new_tracker;
        (job2, ut2) = start_insert ''s'' ''v3'' ''b'' 1 ut1
    in get_job ''s'' ut2 = Some job2 \<and> fst (start_job ''s'' ''v3'' ''b'' 1 ut1) = Inl job1)"
proof -
  have "start_check ''s'' new_tracker = None" by code_simp
  from concurrent_starts_both_accepted [OF this, of "''a''" "''b''" "''v2''" 0 "''v3''" 1]
  show ?thesis by (simp add: Let_def split: prod.splits)
qed

end
