(* ===== verification/Docker_Viewers.thy ===== *)
theory Docker_Viewers
  imports Agent_Registry
begin

text \<open>
  Which browser connections watch the docker data of which server
  (\<open>crates/server/src/service/docker_viewer.rs\<close>), and the clean-up of a disconnected server's
  docker state (\<open>cleanup_disconnected_docker_state\<close> in \<open>agent_manager.rs\<close>).  The first viewer turns
  the agent's polling on, the last one turns it off.  \<open>remove_viewer\<close> releases the map between its
  two accesses, so it is also modelled as two steps.
\<close>

type_synonym viewers = "(string, string set) table"

definition add_viewer :: "string \<Rightarrow> string \<Rightarrow> viewers \<Rightarrow> bool \<times> viewers" where
  "add_viewer server_id connection_id vs =
     (let s = (case tget vs server_id of Some s \<Rightarrow> s | None \<Rightarrow> {});
          was_empty = (s = {})
      in (was_empty, tput server_id (insert connection_id s) vs))"

text \<open>The first access; the result says whether the second one follows.\<close>

definition remove_viewer_begin :: "string \<Rightarrow> string \<Rightarrow> viewers \<Rightarrow> bool \<times> viewers" where
  "remove_viewer_begin server_id connection_id vs =
     (case tget vs server_id of
        Some s \<Rightarrow> (s - {connection_id} = {}, tput server_id (s - {connection_id}) vs)
      | None \<Rightarrow> (False, vs))"

definition remove_viewer_end :: "string \<Rightarrow> viewers \<Rightarrow> viewers" where
  "remove_viewer_end server_id vs = tdel server_id vs"

definition remove_viewer :: "string \<Rightarrow> string \<Rightarrow> viewers \<Rightarrow> bool \<times> viewers" where
  "remove_viewer server_id connection_id vs =
     (let (last, vs) = remove_viewer_begin server_id connection_id vs
      in if last then (True, remove_viewer_end server_id vs) else (False, vs))"

definition has_viewers :: "string \<Rightarrow> viewers \<Rightarrow> bool" where
  "has_viewers server_id vs = (case tget vs server_id of Some s \<Rightarrow> s \<noteq> {} | None \<Rightarrow> False)"

fun remove_each :: "string list \<Rightarrow> string \<Rightarrow> viewers \<Rightarrow> (string \<times> bool) list \<times> viewers" where
  "remove_each [] connection_id vs = ([], vs)"
| "remove_each (s # ss) connection_id vs =
     (let (is_last, vs) = remove_viewer s connection_id vs;
          (results, vs) = remove_each ss connection_id vs
      in ((s, is_last) # results, vs))"

definition remove_all_for_connection :: "string \<Rightarrow> viewers \<Rightarrow> (string \<times> bool) list \<times> viewers" where
  "remove_all_for_connection connection_id vs =
     remove_each (map fst (filter (\<lambda>(k, s). connection_id \<in> s) vs)) connection_id vs"

definition remove_all_for_server :: "string \<Rightarrow> viewers \<Rightarrow> bool \<times> viewers" where
  "remove_all_for_server server_id vs =
     (case tget vs server_id of
        Some s \<Rightarrow> (s \<noteq> {}, tdel server_id vs)
      | None \<Rightarrow> (False, vs))"

text \<open>
  \<open>stored\<close> is the persisted features column per server, \<open>write_ok\<close> whether its update works; a
  failure is ignored.
\<close>

definition cleanup_disconnected_docker_state ::
  "string \<Rightarrow> bool \<Rightarrow> viewers \<times> agent_manager \<times> (string, string list) table \<Rightarrow>
   viewers \<times> agent_manager \<times> (string, string list) table" where
  "cleanup_disconnected_docker_state server_id write_ok st =
     (case st of (vs, am, stored) \<Rightarrow>
        let vs = snd (remove_all_for_server server_id vs);
            features = filter (\<lambda>f. f \<noteq> ''docker'') (get_features server_id am);
            am = update_features server_id features am;
            stored = (if write_ok then tput server_id features stored else stored);
            am = broadcast_browser (DockerAvailabilityChanged server_id False) am
        in (vs, am, stored))"

section \<open>Subscriptions\<close>

text \<open>No empty set is ever left in the map.\<close>

definition viewers_ok :: "viewers \<Rightarrow> bool" where
  "viewers_ok vs \<longleftrightarrow> table_ok vs \<and> (\<forall>s c. tget vs s = Some c \<longrightarrow> c \<noteq> {})"

definition watching :: "viewers \<Rightarrow> string \<Rightarrow> string set" where
  "watching vs s = (case tget vs s of Some c \<Rightarrow> c | None \<Rightarrow> {})"

lemma has_viewers_watching: "has_viewers s vs \<longleftrightarrow> watching vs s \<noteq> {}"
  by (simp add: has_viewers_def watching_def split: option.split)

lemma watching_add:
  "watching (snd (add_viewer s c vs)) s' = (if s' = s then insert c (watching vs s) else watching vs s')"
  by (simp add: watching_def add_viewer_def Let_def table_simps split: option.split)

lemma watching_remove:
  "watching (snd (remove_viewer s c vs)) s' = (if s' = s then watching vs s - {c} else watching vs s')"
  by (auto simp: watching_def remove_viewer_def remove_viewer_begin_def remove_viewer_end_def Let_def
      table_simps split: option.split)

lemma remove_viewer_result:
  "viewers_ok vs \<Longrightarrow>
   fst (remove_viewer s c vs) \<longleftrightarrow> has_viewers s vs \<and> \<not> has_viewers s (snd (remove_viewer s c vs))"
  unfolding has_viewers_watching watching_remove
  by (auto simp: remove_viewer_def remove_viewer_begin_def watching_def viewers_ok_def
      split: option.splits)

lemma viewers_ok_add: "viewers_ok vs \<Longrightarrow> viewers_ok (snd (add_viewer s c vs))"
  by (auto simp: viewers_ok_def add_viewer_def Let_def table_simps split: option.splits if_splits)

lemma viewers_ok_remove: "viewers_ok vs \<Longrightarrow> viewers_ok (snd (remove_viewer s c vs))"
  by (auto simp: viewers_ok_def remove_viewer_def remove_viewer_begin_def remove_viewer_end_def
      Let_def table_simps split: option.splits if_splits)

lemma remove_each_effect:
  "viewers_ok vs \<Longrightarrow> distinct ss \<Longrightarrow>
   viewers_ok (snd (remove_each ss c vs)) \<and>
   (\<forall>s. watching (snd (remove_each ss c vs)) s =
      (if s \<in> set ss then watching vs s - {c} else watching vs s)) \<and>
   (\<forall>s b. (s, b) \<in> set (fst (remove_each ss c vs)) \<longleftrightarrow>
      s \<in> set ss \<and> (b \<longleftrightarrow> has_viewers s vs \<and> watching vs s - {c} = {}))"
proof (induction ss arbitrary: vs)
  case Nil
  then show ?case by simp
next
  case (Cons s ss)
  obtain l vs1 where r: "remove_viewer s c vs = (l, vs1)" by fastforce
  have ok: "viewers_ok vs1" using viewers_ok_remove [OF Cons.prems(1), of s c] r by simp
  have w: "watching vs1 s' = (if s' = s then watching vs s - {c} else watching vs s')" for s'
    using watching_remove [of s c vs s'] r by simp
  have l: "l \<longleftrightarrow> has_viewers s vs \<and> watching vs s - {c} = {}"
    using remove_viewer_result [OF Cons.prems(1), of s c] r w by (simp add: has_viewers_watching)
  obtain rs vs2 where r2: "remove_each ss c vs1 = (rs, vs2)" by fastforce
  from Cons.IH [OF ok] Cons.prems(2) r2 have
    ih: "viewers_ok vs2"
      "\<forall>s. watching vs2 s = (if s \<in> set ss then watching vs1 s - {c} else watching vs1 s)"
      "\<forall>s b. (s, b) \<in> set rs \<longleftrightarrow>
        s \<in> set ss \<and> (b \<longleftrightarrow> has_viewers s vs1 \<and> watching vs1 s - {c} = {})"
    by auto
  show ?case
    using ih w l Cons.prems(2) by (auto simp: r r2 has_viewers_watching)
qed

text \<open>
  Polling is switched exactly at the edges.  A viewer joining reports "first" iff
  nobody watched the server before; a viewer leaving reports "last" iff somebody watched it
  before and nobody does after; leaving twice or without having joined reports nothing.  When a
  connection closes it is removed from every server it watched, with "last" reported for exactly
  the servers nobody else watches.
\<close>

lemma docker_polling_edges:
  assumes "viewers_ok vs"
  shows "(fst (add_viewer s c vs) \<longleftrightarrow> \<not> has_viewers s vs) \<and>
    watching (snd (add_viewer s c vs)) s = insert c (watching vs s) \<and>
    (fst (remove_viewer s c vs) \<longleftrightarrow>
       has_viewers s vs \<and> \<not> has_viewers s (snd (remove_viewer s c vs))) \<and>
    (\<forall>s'. watching (snd (remove_all_for_connection c vs)) s' = watching vs s' - {c}) \<and>
    (\<forall>s' b. (s', b) \<in> set (fst (remove_all_for_connection c vs)) \<longleftrightarrow>
       c \<in> watching vs s' \<and> (b \<longleftrightarrow> watching vs s' = {c}))"
proof -
  let ?ss = "map fst (filter (\<lambda>(k, s). c \<in> s) vs)"
  have tab: "table_ok vs" using assms by (simp add: viewers_ok_def)
  then have dist: "distinct ?ss" by (simp add: table_ok_def distinct_map_filter)
  have mem: "s' \<in> set ?ss \<longleftrightarrow> c \<in> watching vs s'" for s'
  proof
    assume "s' \<in> set ?ss"
    then obtain x where "(s', x) \<in> set vs" "c \<in> x" by auto
    with tab show "c \<in> watching vs s'" by (simp add: tget_in_set watching_def)
  next
    assume "c \<in> watching vs s'"
    then obtain x where "tget vs s' = Some x" "c \<in> x" by (auto simp: watching_def split: option.splits)
    then show "s' \<in> set ?ss" by (force dest: tget_SomeD)
  qed
  note each = remove_each_effect [OF assms dist, of c]
  have "watching (snd (remove_all_for_connection c vs)) s' = watching vs s' - {c}" for s'
    using each mem by (auto simp: remove_all_for_connection_def)
  moreover have "(s', b) \<in> set (fst (remove_all_for_connection c vs)) \<longleftrightarrow>
       c \<in> watching vs s' \<and> (b \<longleftrightarrow> watching vs s' = {c})" for s' b
    using each mem unfolding remove_all_for_connection_def has_viewers_watching by auto
  moreover have "fst (add_viewer s c vs) \<longleftrightarrow> \<not> has_viewers s vs"
    by (simp add: add_viewer_def has_viewers_def Let_def split: option.split)
  ultimately show ?thesis
    using remove_viewer_result [OF assms] watching_add [of s c vs s] by simp
qed

lemma docker_polling_edges_witness:
  "fst (remove_viewer ''s'' ''a'' (snd (add_viewer ''s'' ''a'' [])))"
proof -
  have "viewers_ok []" by (simp add: viewers_ok_def)
  then have ok: "viewers_ok (snd (add_viewer ''s'' ''a'' []))" by (rule viewers_ok_add)
  have "has_viewers ''s'' (snd (add_viewer ''s'' ''a'' [])) \<and>
      \<not> has_viewers ''s'' (snd (remove_viewer ''s'' ''a'' (snd (add_viewer ''s'' ''a'' []))))"
    by (simp add: has_viewers_watching watching_remove watching_add) (simp add: watching_def)
  with docker_polling_edges [OF ok, of "''s''" "''a''"] show ?thesis by blast
qed

text \<open>
  A viewer that joins while the last one leaves is lost.  \<open>remove_viewer\<close> lets go of
  the map before it deletes the empty entry; a viewer added in between is told it is the first,
  but the deletion drops it: nobody watches any more, although in any order without the
  interleaving the joining viewer would.
\<close>

lemma join_during_last_leave_is_lost:
  assumes "watching vs s = {old}" and "new \<noteq> old"
  shows "(let (last, vs1) = remove_viewer_begin s old vs;
              (first, vs2) = add_viewer s new vs1;
              vs3 = remove_viewer_end s vs2
          in last \<and> first \<and> \<not> has_viewers s vs3) \<and>
    has_viewers s (snd (add_viewer s new (snd (remove_viewer s old vs)))) \<and>
    has_viewers s (snd (remove_viewer s old (snd (add_viewer s new vs))))"
proof -
  from assms(1) have "tget vs s = Some {old}"
    by (auto simp: watching_def split: option.splits)
  then show ?thesis
    using assms
    by (auto simp: remove_viewer_begin_def add_viewer_def remove_viewer_end_def remove_viewer_def
        has_viewers_def Let_def table_simps)
qed

lemma join_during_last_leave_is_lost_witness:
  "\<not> has_viewers ''s'' (remove_viewer_end ''s''
      (snd (add_viewer ''s'' ''b'' (snd (remove_viewer_begin ''s'' ''a'' [(''s'', {''a''})])))))"
proof -
  have "watching [(''s'', {''a''})] ''s'' = {''a''}" by (simp add: watching_def tget_def)
  from join_during_last_leave_is_lost [OF this, of "''b''"] show ?thesis
    by (simp add: Let_def split: prod.splits)
qed

end
