(* ===== verification/File_Transfer.thy ===== *)
theory File_Transfer
  imports Agent_Registry
begin

text \<open>
  File transfers between the browser and an agent
  (\<open>crates/server/src/service/file_transfer.rs\<close>) and the handlers of the agent's transfer frames
  (\<open>crates/server/src/router/ws/agent/file_transfer.rs\<close>).

  A path is the list of its components.  The disk is the table of the files of the temporary
  directory.  A file handle is one of tokio: a write returns at once and is done in the background,
  the next seek waits for it, the next write reports its error, and a write that is under way when
  the handle is dropped goes on without it.  (A message is at most 1 MiB, so a piece is one such
  write.  A write of a file that was deleted does nothing; ids are fresh, so a path is not created again after
  its file is deleted.)  What the operating system answers (does
  creating, deleting or writing a file work) is an argument of the operation, and so is the
  base64 decoder, a library.  Fresh transfer ids and the current instant are arguments too.
\<close>

datatype transfer_direction = Download | Upload

datatype transfer_status = TransferPending | InProgress | Ready | TransferFailed string

fun direction_str :: "transfer_direction \<Rightarrow> string" where
  "direction_str Download = ''download''"
| "direction_str Upload = ''upload''"

fun status_str :: "transfer_status \<Rightarrow> string" where
  "status_str TransferPending = ''pending''"
| "status_str InProgress = ''in_progress''"
| "status_str Ready = ''ready''"
| "status_str (TransferFailed e) = ''failed''"

fun error_reason :: "transfer_status \<Rightarrow> string option" where
  "error_reason (TransferFailed reason) = (if reason \<noteq> [] then Some reason else None)"
| "error_reason _ = None"

type_synonym path = "string list"

record transfer_meta =
  tm_transfer_id :: string
  tm_server_id :: string
  tm_user_id :: string
  tm_direction :: transfer_direction
  tm_file_path :: string
  tm_file_size :: "u64 option"
  tm_bytes_transferred :: u64
  tm_temp_file :: path
  tm_status :: transfer_status
  tm_created_at :: instant
  tm_last_activity :: instant

record transfer_info =
  ti_transfer_id :: string
  ti_server_id :: string
  ti_direction :: string
  ti_file_path :: string
  ti_file_size :: "u64 option"
  ti_bytes_transferred :: u64
  ti_status :: string
  ti_error :: "string option"
  ti_created_at_secs_ago :: int

text \<open>What a handle is doing: nothing, a write at an offset, or a write has failed and nobody was told.\<close>

datatype write_state = Idle | Writing nat "u8 list" | WriteFailed string

record open_file =
  of_path :: path
  of_write :: write_state

text \<open>The last field has the writes under way whose handle was dropped.\<close>

record file_transfers =
  ft_transfers :: "(string, transfer_meta) table"
  ft_open_files :: "(string, open_file) table"
  ft_temp_dir :: path
  ft_disk :: "(path, u8 list) table"
  ft_detached :: "(path \<times> nat \<times> u8 list) list"

section \<open>The manager\<close>

definition max_file_concurrent_transfers :: nat where
  "max_file_concurrent_transfers = 3"

definition file_transfer_timeout :: int where
  "file_transfer_timeout = seconds 1800"

definition ft_new :: "path \<Rightarrow> file_transfers" where
  "ft_new temp_dir = \<lparr>ft_transfers = [], ft_open_files = [], ft_temp_dir = temp_dir, ft_disk = [],
     ft_detached = []\<rparr>"

definition is_active :: "transfer_status \<Rightarrow> bool" where
  "is_active st \<longleftrightarrow> st = TransferPending \<or> st = InProgress"

definition server_transfer_count :: "string \<Rightarrow> file_transfers \<Rightarrow> nat" where
  "server_transfer_count server_id m =
     length (filter (\<lambda>(k, meta). tm_server_id meta = server_id \<and> is_active (tm_status meta))
       (ft_transfers m))"

definition part_path :: "path \<Rightarrow> string \<Rightarrow> path" where
  "part_path dir transfer_id = dir @ [transfer_id @ ''.part'']"

text \<open>\<open>create_transfer\<close> checks the limit, then inserts: two accesses of the map.\<close>

definition transfer_allowed :: "string \<Rightarrow> file_transfers \<Rightarrow> bool" where
  "transfer_allowed server_id m \<longleftrightarrow>
     server_transfer_count server_id m < max_file_concurrent_transfers"

definition insert_transfer ::
  "string \<Rightarrow> string \<Rightarrow> string \<Rightarrow> transfer_direction \<Rightarrow> string \<Rightarrow> instant \<Rightarrow>
   file_transfers \<Rightarrow> file_transfers" where
  "insert_transfer transfer_id server_id user_id direction file_path now m =
     m\<lparr>ft_transfers := tput transfer_id
        \<lparr>tm_transfer_id = transfer_id, tm_server_id = server_id, tm_user_id = user_id,
         tm_direction = direction, tm_file_path = file_path, tm_file_size = None,
         tm_bytes_transferred = 0, tm_temp_file = part_path (ft_temp_dir m) transfer_id,
         tm_status = TransferPending, tm_created_at = now, tm_last_activity = now\<rparr>
        (ft_transfers m)\<rparr>"

definition create_transfer ::
  "string \<Rightarrow> string \<Rightarrow> string \<Rightarrow> transfer_direction \<Rightarrow> string \<Rightarrow> instant \<Rightarrow>
   file_transfers \<Rightarrow> (string + string) \<times> file_transfers" where
  "create_transfer transfer_id server_id user_id direction file_path now m =
     (if \<not> transfer_allowed server_id m then (Inl ''Too many concurrent transfers'', m)
      else (Inr transfer_id,
            insert_transfer transfer_id server_id user_id direction file_path now m))"

definition info_of :: "instant \<Rightarrow> transfer_meta \<Rightarrow> transfer_info" where
  "info_of now meta =
     \<lparr>ti_transfer_id = tm_transfer_id meta, ti_server_id = tm_server_id meta,
      ti_direction = direction_str (tm_direction meta), ti_file_path = tm_file_path meta,
      ti_file_size = tm_file_size meta, ti_bytes_transferred = tm_bytes_transferred meta,
      ti_status = status_str (tm_status meta), ti_error = error_reason (tm_status meta),
      ti_created_at_secs_ago = as_secs (duration_since now (tm_created_at meta))\<rparr>"

definition ft_get :: "string \<Rightarrow> instant \<Rightarrow> file_transfers \<Rightarrow> transfer_info option" where
  "ft_get transfer_id now m = map_option (info_of now) (tget (ft_transfers m) transfer_id)"

text \<open>The four updates write their field and the time of the last activity.\<close>

definition touch ::
  "(transfer_meta \<Rightarrow> transfer_meta) \<Rightarrow> string \<Rightarrow> instant \<Rightarrow> file_transfers \<Rightarrow> file_transfers" where
  "touch f transfer_id now m =
     m\<lparr>ft_transfers :=
        tmodify transfer_id (\<lambda>meta. (f meta)\<lparr>tm_last_activity := now\<rparr>) (ft_transfers m)\<rparr>"

definition update_size :: "string \<Rightarrow> u64 \<Rightarrow> instant \<Rightarrow> file_transfers \<Rightarrow> file_transfers" where
  "update_size transfer_id bytes_total = touch (tm_file_size_update (\<lambda>_. Some bytes_total)) transfer_id"

definition update_progress :: "string \<Rightarrow> u64 \<Rightarrow> instant \<Rightarrow> file_transfers \<Rightarrow> file_transfers" where
  "update_progress transfer_id bytes = touch (tm_bytes_transferred_update (\<lambda>_. bytes)) transfer_id"

definition mark_in_progress :: "string \<Rightarrow> instant \<Rightarrow> file_transfers \<Rightarrow> file_transfers" where
  "mark_in_progress = touch (tm_status_update (\<lambda>_. InProgress))"

definition mark_ready :: "string \<Rightarrow> instant \<Rightarrow> file_transfers \<Rightarrow> file_transfers" where
  "mark_ready = touch (tm_status_update (\<lambda>_. Ready))"

definition mark_transfer_failed ::
  "string \<Rightarrow> string \<Rightarrow> instant \<Rightarrow> file_transfers \<Rightarrow> file_transfers" where
  "mark_transfer_failed transfer_id e = touch (tm_status_update (\<lambda>_. TransferFailed e)) transfer_id"

text \<open>Dropping a handle leaves its write, if one is under way, to the background.\<close>

definition remove_file_handle :: "string \<Rightarrow> file_transfers \<Rightarrow> file_transfers" where
  "remove_file_handle transfer_id m =
     (case tget (ft_open_files m) transfer_id of
        None \<Rightarrow> m
      | Some f \<Rightarrow>
          m\<lparr>ft_open_files := tdel transfer_id (ft_open_files m),
            ft_detached := (case of_write f of
               Writing offset bytes \<Rightarrow> ft_detached m @ [(of_path f, offset, bytes)]
             | _ \<Rightarrow> ft_detached m)\<rparr>)"

text \<open>Storing a handle drops the one that was stored before.\<close>

definition store_file_handle :: "string \<Rightarrow> path \<Rightarrow> file_transfers \<Rightarrow> file_transfers" where
  "store_file_handle transfer_id file m =
     (let m = remove_file_handle transfer_id m
      in m\<lparr>ft_open_files := tput transfer_id \<lparr>of_path = file, of_write = Idle\<rparr> (ft_open_files m)\<rparr>)"

definition get_file_handle :: "string \<Rightarrow> file_transfers \<Rightarrow> open_file option" where
  "get_file_handle transfer_id m = tget (ft_open_files m) transfer_id"

text \<open>\<open>unlink_ok\<close> says which files the operating system lets go; an error is ignored.\<close>

definition remove_transfer :: "(path \<Rightarrow> bool) \<Rightarrow> string \<Rightarrow> file_transfers \<Rightarrow> file_transfers" where
  "remove_transfer unlink_ok transfer_id m =
     (let m = remove_file_handle transfer_id m in
      case tget (ft_transfers m) transfer_id of
        None \<Rightarrow> m
      | Some meta \<Rightarrow>
          m\<lparr>ft_transfers := tdel transfer_id (ft_transfers m),
            ft_disk := (if unlink_ok (tm_temp_file meta) then tdel (tm_temp_file meta) (ft_disk m)
                        else ft_disk m)\<rparr>)"

definition server_id_of :: "string \<Rightarrow> file_transfers \<Rightarrow> string option" where
  "server_id_of transfer_id m = map_option tm_server_id (tget (ft_transfers m) transfer_id)"

definition get_user_id :: "string \<Rightarrow> file_transfers \<Rightarrow> string option" where
  "get_user_id transfer_id m = map_option tm_user_id (tget (ft_transfers m) transfer_id)"

definition temp_file_path :: "string \<Rightarrow> file_transfers \<Rightarrow> path option" where
  "temp_file_path transfer_id m = map_option tm_temp_file (tget (ft_transfers m) transfer_id)"

definition list_for_user :: "string \<Rightarrow> instant \<Rightarrow> file_transfers \<Rightarrow> transfer_info list" where
  "list_for_user user_id now m =
     map (\<lambda>(k, meta). info_of now meta)
       (filter (\<lambda>(k, meta). tm_user_id meta = user_id) (ft_transfers m))"

definition list_active :: "instant \<Rightarrow> file_transfers \<Rightarrow> transfer_info list" where
  "list_active now m = map (\<lambda>(k, meta). info_of now meta) (ft_transfers m)"

definition expired_ids :: "int \<Rightarrow> instant \<Rightarrow> file_transfers \<Rightarrow> string list" where
  "expired_ids max_age now m =
     map fst (filter (\<lambda>(k, meta). max_age \<le> duration_since now (tm_last_activity meta))
       (ft_transfers m))"

definition cleanup_expired ::
  "(path \<Rightarrow> bool) \<Rightarrow> int \<Rightarrow> instant \<Rightarrow> file_transfers \<Rightarrow> file_transfers" where
  "cleanup_expired unlink_ok max_age now m =
     fold (remove_transfer unlink_ok) (expired_ids max_age now m) m"

section \<open>Frames of the agent\<close>

definition sender_owns_transfer :: "string \<Rightarrow> string \<Rightarrow> file_transfers \<Rightarrow> bool" where
  "sender_owns_transfer server_id transfer_id m \<longleftrightarrow>
     (case server_id_of transfer_id m of Some owner \<Rightarrow> owner = server_id | None \<Rightarrow> False)"

text \<open>
  \<open>on_download_ready\<close> waits for the operating system between finding the path and storing the
  handle, so it is two steps; \<open>created\<close> is what opening the file answers.
\<close>

definition download_ready_begin ::
  "string \<Rightarrow> string \<Rightarrow> u64 \<Rightarrow> instant \<Rightarrow> file_transfers \<Rightarrow> path option \<times> file_transfers" where
  "download_ready_begin server_id transfer_id bytes_total now m =
     (if \<not> sender_owns_transfer server_id transfer_id m then (None, m)
      else
        let m = mark_in_progress transfer_id now (update_size transfer_id bytes_total now m)
        in (temp_file_path transfer_id m, m))"

definition download_ready_end ::
  "string + unit \<Rightarrow> string \<Rightarrow> path \<Rightarrow> instant \<Rightarrow> file_transfers \<Rightarrow> file_transfers" where
  "download_ready_end created transfer_id file now m =
     (case created of
        Inr _ \<Rightarrow> store_file_handle transfer_id file (m\<lparr>ft_disk := tput file [] (ft_disk m)\<rparr>)
      | Inl e \<Rightarrow> mark_transfer_failed transfer_id (''Failed to create temp file: '' @ e) now m)"

definition on_download_ready ::
  "string + unit \<Rightarrow> string \<Rightarrow> string \<Rightarrow> u64 \<Rightarrow> instant \<Rightarrow> file_transfers \<Rightarrow> file_transfers" where
  "on_download_ready created server_id transfer_id bytes_total now m =
     (case download_ready_begin server_id transfer_id bytes_total now m of
        (None, m) \<Rightarrow> m
      | (Some file, m) \<Rightarrow> download_ready_end created transfer_id file now m)"

text \<open>Seeking past the end and writing leaves a hole of zeros.\<close>

definition write_at :: "nat \<Rightarrow> u8 list \<Rightarrow> u8 list \<Rightarrow> u8 list" where
  "write_at offset bytes file =
     (let file = file @ replicate (offset - length file) 0
      in take offset file @ bytes @ drop (offset + length bytes) file)"

text \<open>
  What the operating system makes of a write: \<open>None\<close> when it works, else the error and what it left
  of the file.  A file deleted under a write stays deleted.
\<close>

type_synonym write_outcome = "(string \<times> u8 list) option"

definition apply_write :: "write_outcome \<Rightarrow> path \<Rightarrow> nat \<Rightarrow> u8 list \<Rightarrow> file_transfers \<Rightarrow> file_transfers" where
  "apply_write io file offset bytes m =
     m\<lparr>ft_disk := tmodify file (case io of None \<Rightarrow> write_at offset bytes | Some (_, rest) \<Rightarrow> \<lambda>_. rest) (ft_disk m)\<rparr>"

text \<open>The write of a handle ends; the error stays with the handle.\<close>

definition finish_write :: "write_outcome \<Rightarrow> string \<Rightarrow> file_transfers \<Rightarrow> file_transfers" where
  "finish_write io transfer_id m =
     (case tget (ft_open_files m) transfer_id of
        None \<Rightarrow> m
      | Some f \<Rightarrow>
          (case of_write f of
             Writing offset bytes \<Rightarrow>
               (apply_write io (of_path f) offset bytes m)\<lparr>ft_open_files := tput transfer_id
                  (f\<lparr>of_write := (case io of None \<Rightarrow> Idle | Some (e, _) \<Rightarrow> WriteFailed e)\<rparr>) (ft_open_files m)\<rparr>
           | _ \<Rightarrow> m))"

text \<open>The \<open>i\<close>th write without a handle ends; nobody learns of an error.\<close>

definition finish_detached :: "write_outcome \<Rightarrow> nat \<Rightarrow> file_transfers \<Rightarrow> file_transfers" where
  "finish_detached io i m =
     (case drop i (ft_detached m) of
        [] \<Rightarrow> m
      | (file, offset, bytes) # rest \<Rightarrow>
          (apply_write io file offset bytes m)\<lparr>ft_detached := take i (ft_detached m) @ rest\<rparr>)"

text \<open>\<open>write_all\<close>: nothing to write is no write; the error of the write before is reported instead.\<close>

definition start_write :: "string \<Rightarrow> open_file \<Rightarrow> nat \<Rightarrow> u8 list \<Rightarrow> file_transfers \<Rightarrow> (string + unit) \<times> file_transfers" where
  "start_write transfer_id f offset bytes m =
     (if bytes = [] then (Inr (), m)
      else case of_write f of
          WriteFailed e \<Rightarrow> (Inl e, m\<lparr>ft_open_files := tput transfer_id (f\<lparr>of_write := Idle\<rparr>) (ft_open_files m)\<rparr>)
        | _ \<Rightarrow> (Inr (), m\<lparr>ft_open_files := tput transfer_id (f\<lparr>of_write := Writing offset bytes\<rparr>) (ft_open_files m)\<rparr>))"

text \<open>
  The seek waits for the write under way, of which \<open>settled\<close> is the outcome, and may fail itself.
\<close>

definition on_download_chunk ::
  "(string \<Rightarrow> string + u8 list) \<Rightarrow> write_outcome \<Rightarrow> string option \<Rightarrow>
   string \<Rightarrow> string \<Rightarrow> u64 \<Rightarrow> string \<Rightarrow> instant \<Rightarrow> file_transfers \<Rightarrow> file_transfers" where
  "on_download_chunk decode settled seek_error server_id transfer_id offset data now m =
     (if \<not> sender_owns_transfer server_id transfer_id m then m
      else case get_file_handle transfer_id m of
        None \<Rightarrow> m
      | Some _ \<Rightarrow>
          (case decode data of
             Inl e \<Rightarrow> mark_transfer_failed transfer_id (''Base64 decode error: '' @ e) now m
           | Inr bytes \<Rightarrow>
               let m = finish_write settled transfer_id m in
               (case seek_error of
                  Some e \<Rightarrow> mark_transfer_failed transfer_id (''Write error: '' @ e) now m
                | None \<Rightarrow>
                    (case start_write transfer_id (the (get_file_handle transfer_id m)) (unat offset) bytes m of
                       (Inr _, m) \<Rightarrow> update_progress transfer_id (offset + of_nat (length bytes)) now m
                     | (Inl e, m) \<Rightarrow> mark_transfer_failed transfer_id (''Write error: '' @ e) now m))))"

definition on_download_end :: "string \<Rightarrow> string \<Rightarrow> instant \<Rightarrow> file_transfers \<Rightarrow> file_transfers" where
  "on_download_end server_id transfer_id now m =
     (if \<not> sender_owns_transfer server_id transfer_id m then m
      else mark_ready transfer_id now (remove_file_handle transfer_id m))"

definition on_download_error ::
  "string \<Rightarrow> string \<Rightarrow> string \<Rightarrow> instant \<Rightarrow> file_transfers \<Rightarrow> file_transfers" where
  "on_download_error server_id transfer_id e now m =
     (if \<not> sender_owns_transfer server_id transfer_id m then m
      else mark_transfer_failed transfer_id e now (remove_file_handle transfer_id m))"

definition on_upload_ack ::
  "string \<Rightarrow> string \<Rightarrow> u64 \<Rightarrow> payload \<Rightarrow> instant \<Rightarrow> file_transfers \<times> agent_manager \<Rightarrow>
   file_transfers \<times> agent_manager" where
  "on_upload_ack server_id transfer_id offset msg now st =
     (case st of (m, am) \<Rightarrow>
        if \<not> sender_owns_transfer server_id transfer_id m then (m, am)
        else (update_progress transfer_id offset now m,
              snd (dispatch_pending_response server_id (upload_ack_key transfer_id) msg am)))"

definition on_upload_complete ::
  "string \<Rightarrow> string \<Rightarrow> payload \<Rightarrow> instant \<Rightarrow> file_transfers \<times> agent_manager \<Rightarrow>
   file_transfers \<times> agent_manager" where
  "on_upload_complete server_id transfer_id msg now st =
     (case st of (m, am) \<Rightarrow>
        if \<not> sender_owns_transfer server_id transfer_id m then (m, am)
        else (mark_ready transfer_id now m,
              snd (dispatch_pending_response server_id (upload_complete_key transfer_id) msg am)))"

definition on_upload_error ::
  "string \<Rightarrow> string \<Rightarrow> string \<Rightarrow> payload \<Rightarrow> instant \<Rightarrow> file_transfers \<times> agent_manager \<Rightarrow>
   file_transfers \<times> agent_manager" where
  "on_upload_error server_id transfer_id e msg now st =
     (case st of (m, am) \<Rightarrow>
        if \<not> sender_owns_transfer server_id transfer_id m then (m, am)
        else
          let m = mark_transfer_failed transfer_id e now m;
              (taken, am) =
                dispatch_pending_response server_id (upload_complete_key transfer_id) msg am
          in if taken then (m, am)
             else (m, snd (dispatch_pending_response server_id (upload_ack_key transfer_id) msg am)))"

section \<open>Invariant\<close>

text \<open>
  Every record is filed under its own id with the temporary file of that id, and every open
  handle is the file of a transfer that is still tracked.
\<close>

definition ft_ok :: "file_transfers \<Rightarrow> bool" where
  "ft_ok m \<longleftrightarrow>
     table_ok (ft_transfers m) \<and> table_ok (ft_open_files m) \<and> table_ok (ft_disk m) \<and>
     (\<forall>t meta. tget (ft_transfers m) t = Some meta \<longrightarrow>
        tm_transfer_id meta = t \<and> tm_temp_file meta = part_path (ft_temp_dir m) t) \<and>
     (\<forall>t f. tget (ft_open_files m) t = Some f \<longrightarrow>
        thas (ft_transfers m) t \<and> of_path f = part_path (ft_temp_dir m) t)"

datatype ft_op =
    Create string string string transfer_direction string
  | UpdateSize string u64
  | UpdateProgress string u64
  | MarkInProgress string
  | MarkReady string
  | MarkFailed string string
  | RemoveHandle string
  | Remove "path \<Rightarrow> bool" string
  | Cleanup "path \<Rightarrow> bool" int
  | DownloadReady "string + unit" string string u64
  | DownloadChunk "string \<Rightarrow> string + u8 list" write_outcome "string option" string string u64 string
  | FinishWrite write_outcome string
  | FinishDetached write_outcome nat
  | DownloadEnd string string
  | DownloadError string string string

fun ft_step :: "instant \<times> ft_op \<Rightarrow> file_transfers \<Rightarrow> file_transfers" where
  "ft_step (now, Create t s u d p) m = snd (create_transfer t s u d p now m)"
| "ft_step (now, UpdateSize t n) m = update_size t n now m"
| "ft_step (now, UpdateProgress t n) m = update_progress t n now m"
| "ft_step (now, MarkInProgress t) m = mark_in_progress t now m"
| "ft_step (now, MarkReady t) m = mark_ready t now m"
| "ft_step (now, MarkFailed t e) m = mark_transfer_failed t e now m"
| "ft_step (now, RemoveHandle t) m = remove_file_handle t m"
| "ft_step (now, Remove ok t) m = remove_transfer ok t m"
| "ft_step (now, Cleanup ok age) m = cleanup_expired ok age now m"
| "ft_step (now, DownloadReady r s t n) m = on_download_ready r s t n now m"
| "ft_step (now, DownloadChunk dec io e s t off d) m = on_download_chunk dec io e s t off d now m"
| "ft_step (now, FinishWrite io t) m = finish_write io t m"
| "ft_step (now, FinishDetached io i) m = finish_detached io i m"
| "ft_step (now, DownloadEnd s t) m = on_download_end s t now m"
| "ft_step (now, DownloadError s t e) m = on_download_error s t e now m"

definition ft_run :: "(instant \<times> ft_op) list \<Rightarrow> file_transfers \<Rightarrow> file_transfers" where
  "ft_run ops m = fold ft_step ops m"

lemma ft_ok_new: "ft_ok (ft_new dir)"
  by (simp add: ft_ok_def ft_new_def)

text \<open>A change of a record that leaves its id and its path alone keeps the invariant.\<close>

definition keeps_identity :: "(transfer_meta \<Rightarrow> transfer_meta) \<Rightarrow> bool" where
  "keeps_identity f \<longleftrightarrow> (\<forall>x. tm_transfer_id (f x) = tm_transfer_id x \<and>
     tm_temp_file (f x) = tm_temp_file x \<and> tm_server_id (f x) = tm_server_id x)"

lemmas ft_updates = update_size_def update_progress_def mark_in_progress_def mark_ready_def
  mark_transfer_failed_def

lemma ft_ok_touch [intro]: "ft_ok m \<Longrightarrow> keeps_identity f \<Longrightarrow> ft_ok (touch f t now m)"
  by (auto simp: ft_ok_def touch_def keeps_identity_def table_simps thas_def split: if_splits)

lemma keeps_identity_updates [simp]:
  "keeps_identity (tm_file_size_update g)" "keeps_identity (tm_bytes_transferred_update h)"
  "keeps_identity (tm_status_update k)"
  by (simp_all add: keeps_identity_def)

lemma ft_ok_updates [simp, intro]:
  assumes "ft_ok m"
  shows "ft_ok (update_size t n now m)" "ft_ok (update_progress t n now m)"
    "ft_ok (mark_in_progress t now m)" "ft_ok (mark_ready t now m)"
    "ft_ok (mark_transfer_failed t e now m)"
  using assms by (auto simp: ft_updates)

lemma ft_ok_insert [intro]: "ft_ok m \<Longrightarrow> ft_ok (insert_transfer t s u d p now m)"
  by (auto simp: ft_ok_def insert_transfer_def table_simps thas_def split: if_splits)

lemma ft_ok_remove_handle [intro]: "ft_ok m \<Longrightarrow> ft_ok (remove_file_handle t m)"
  by (auto simp: ft_ok_def remove_file_handle_def table_simps split: if_splits option.splits)

lemma remove_file_handle_keeps [simp]:
  "ft_transfers (remove_file_handle t m) = ft_transfers m" "ft_temp_dir (remove_file_handle t m) = ft_temp_dir m"
  "ft_disk (remove_file_handle t m) = ft_disk m"
  "tget (ft_open_files (remove_file_handle t m)) t' = (if t' = t then None else tget (ft_open_files m) t')"
  by (simp_all add: remove_file_handle_def table_simps split: option.split)

lemma ft_ok_remove [intro]:
  assumes "ft_ok m"
  shows "ft_ok (remove_transfer ok t m)"
  using ft_ok_remove_handle [OF assms, of t]
  by (cases "tget (ft_transfers m) t")
    (auto simp: ft_ok_def remove_transfer_def table_simps thas_def Let_def split: if_splits)

lemma ft_ok_disk [intro]: "ft_ok m \<Longrightarrow> table_ok d \<Longrightarrow> ft_ok (m\<lparr>ft_disk := d\<rparr>)"
  by (simp add: ft_ok_def)

lemma ft_ok_fold_remove [intro]: "ft_ok m \<Longrightarrow> ft_ok (fold (remove_transfer ok) ts m)"
  by (induction ts arbitrary: m) auto

lemma download_ready_begin_Some:
  "download_ready_begin s t n now m = (Some file, m') \<Longrightarrow>
   sender_owns_transfer s t m \<and> m' = mark_in_progress t now (update_size t n now m) \<and>
   temp_file_path t m' = Some file"
  by (auto simp: download_ready_begin_def Let_def split: if_splits)

lemma ft_ok_ready_begin [intro]: "ft_ok m \<Longrightarrow> ft_ok (snd (download_ready_begin s t n now m))"
  by (auto simp: download_ready_begin_def Let_def)

text \<open>The handle may be stored while the transfer is tracked; nothing else is needed.\<close>

lemma ft_ok_put_handle:
  "ft_ok m \<Longrightarrow> thas (ft_transfers m) t \<Longrightarrow> of_path f = part_path (ft_temp_dir m) t \<Longrightarrow>
   ft_ok (m\<lparr>ft_open_files := tput t f (ft_open_files m)\<rparr>)"
  by (auto simp: ft_ok_def table_simps split: if_splits)

lemma ft_ok_store:
  assumes "ft_ok m" "thas (ft_transfers m) t" "file = part_path (ft_temp_dir m) t"
  shows "ft_ok (store_file_handle t file m)"
  using ft_ok_put_handle [OF ft_ok_remove_handle [OF assms(1), of t], of t "\<lparr>of_path = file, of_write = Idle\<rparr>"] assms(2,3)
  by (simp add: store_file_handle_def Let_def)

lemma ft_ok_ready_end:
  "ft_ok m \<Longrightarrow> thas (ft_transfers m) t \<Longrightarrow> file = part_path (ft_temp_dir m) t \<Longrightarrow>
   ft_ok (download_ready_end r t file now m)"
  by (auto simp: download_ready_end_def split: sum.split intro!: ft_ok_store ft_ok_disk) (auto simp: ft_ok_def)

lemma temp_file_path_ok:
  "ft_ok m \<Longrightarrow> temp_file_path t m = Some file \<Longrightarrow>
   thas (ft_transfers m) t \<and> file = part_path (ft_temp_dir m) t"
  by (auto simp: temp_file_path_def ft_ok_def thas_def)

lemma ft_ok_ready [intro]:
  assumes "ft_ok m"
  shows "ft_ok (on_download_ready r s t n now m)"
proof -
  obtain f m' where b: "download_ready_begin s t n now m = (f, m')" by fastforce
  then have ok: "ft_ok m'" using ft_ok_ready_begin [OF assms, of s t n now] by simp
  show ?thesis
  proof (cases f)
    case None
    with b ok show ?thesis by (simp add: on_download_ready_def)
  next
    case (Some p)
    with b have "temp_file_path t m' = Some p" by (auto dest: download_ready_begin_Some)
    with ok have "ft_ok (download_ready_end r t p now m')"
      using temp_file_path_ok by (blast intro: ft_ok_ready_end)
    with b Some show ?thesis by (simp add: on_download_ready_def)
  qed
qed

text \<open>What the background does to a transfer: only its file and its handle change.\<close>

lemma apply_write_keeps [simp]:
  "ft_transfers (apply_write io p off b m) = ft_transfers m" "ft_temp_dir (apply_write io p off b m) = ft_temp_dir m"
  "ft_open_files (apply_write io p off b m) = ft_open_files m" "ft_detached (apply_write io p off b m) = ft_detached m"
  by (simp_all add: apply_write_def)

lemma finish_write_keeps [simp]:
  "ft_transfers (finish_write io t m) = ft_transfers m" "ft_temp_dir (finish_write io t m) = ft_temp_dir m"
  "ft_detached (finish_write io t m) = ft_detached m"
  by (simp_all add: finish_write_def split: option.split write_state.split)

lemma finish_write_handle:
  "map_option of_path (tget (ft_open_files (finish_write io t m)) t') = map_option of_path (tget (ft_open_files m) t')"
  by (simp add: finish_write_def table_simps split: option.split write_state.split)

lemma finish_detached_keeps [simp]:
  "ft_transfers (finish_detached io i m) = ft_transfers m" "ft_temp_dir (finish_detached io i m) = ft_temp_dir m"
  "ft_open_files (finish_detached io i m) = ft_open_files m"
  by (simp_all add: finish_detached_def split: list.split prod.split)

lemma start_write_keeps:
  "start_write t f off b m = (r, m') \<Longrightarrow> m' = m \<or> (\<exists>w. m' = m\<lparr>ft_open_files := tput t (f\<lparr>of_write := w\<rparr>) (ft_open_files m)\<rparr>)"
  by (auto simp: start_write_def split: if_splits write_state.splits)

lemma ft_ok_apply: "ft_ok m \<Longrightarrow> ft_ok (apply_write io p off b m)"
  by (simp add: ft_ok_def apply_write_def)

lemma ft_ok_finish_write [intro]: "ft_ok m \<Longrightarrow> ft_ok (finish_write io t m)"
  by (auto simp: finish_write_def split: option.split write_state.split
      intro!: ft_ok_put_handle [where m = "apply_write a b c d e" for a b c d e, simplified] ft_ok_apply)
    (auto simp: ft_ok_def)

lemma ft_ok_finish_detached [intro]: "ft_ok m \<Longrightarrow> ft_ok (finish_detached io i m)"
  using ft_ok_apply by (auto simp: finish_detached_def ft_ok_def apply_write_def split: list.split prod.split)

lemma ft_ok_start_write:
  assumes "ft_ok m" "tget (ft_open_files m) t = Some f" "start_write t f off b m = (r, m')"
  shows "ft_ok m'"
  using start_write_keeps [OF assms(3)]
proof (elim disjE exE)
  fix w
  assume "m' = m\<lparr>ft_open_files := tput t (f\<lparr>of_write := w\<rparr>) (ft_open_files m)\<rparr>"
  with ft_ok_put_handle [OF assms(1), of t "f\<lparr>of_write := w\<rparr>"] assms(1,2) show ?thesis by (auto simp: ft_ok_def)
qed (use assms(1) in simp)

text \<open>A chunk: nothing, a failure, or progress, after the background has caught up.\<close>

lemma chunk_cases:
  obtains (ignored) "on_download_chunk dec io se s t off d now m = m"
    | (undecoded) e where "sender_owns_transfer s t m" "on_download_chunk dec io se s t off d now m = mark_transfer_failed t e now m"
    | (unsought) e where "sender_owns_transfer s t m"
        "on_download_chunk dec io se s t off d now m = mark_transfer_failed t e now (finish_write io t m)"
    | (written) f bytes r m' where "sender_owns_transfer s t m" "tget (ft_open_files (finish_write io t m)) t = Some f"
        "start_write t f (unat off) bytes (finish_write io t m) = (r, m')"
        "on_download_chunk dec io se s t off d now m =
           (case r of Inr _ \<Rightarrow> update_progress t (off + of_nat (length bytes)) now m'
            | Inl e \<Rightarrow> mark_transfer_failed t (''Write error: '' @ e) now m')"
proof (cases "sender_owns_transfer s t m \<and> tget (ft_open_files m) t \<noteq> None")
  case False
  then show ?thesis by (intro ignored) (auto simp: on_download_chunk_def get_file_handle_def)
next
  case True
  then obtain f0 where f0: "tget (ft_open_files m) t = Some f0" by blast
  show ?thesis
  proof (cases "dec d")
    case (Inl e)
    with True f0 show ?thesis by (intro undecoded) (auto simp: on_download_chunk_def get_file_handle_def)
  next
    case (Inr bytes)
    show ?thesis
    proof (cases se)
      case (Some e)
      with True f0 Inr show ?thesis by (intro unsought) (auto simp: on_download_chunk_def get_file_handle_def Let_def)
    next
      case None
      from finish_write_handle [of io t m t] f0 obtain f where f: "tget (ft_open_files (finish_write io t m)) t = Some f" by auto
      obtain r m' where w: "start_write t f (unat off) bytes (finish_write io t m) = (r, m')" by fastforce
      with True f0 f Inr None show ?thesis
        by (intro written [OF _ f w]) (auto simp: on_download_chunk_def get_file_handle_def Let_def split: sum.split)
    qed
  qed
qed

lemma ft_ok_chunk [intro]: "ft_ok m \<Longrightarrow> ft_ok (on_download_chunk dec io se s t off d now m)"
  by (cases rule: chunk_cases [of dec io se s t off d now m])
    (auto split: sum.split dest: ft_ok_start_write [OF ft_ok_finish_write])

lemma ft_ok_step: "ft_ok m \<Longrightarrow> ft_ok (ft_step op m)"
  by (induction op m rule: ft_step.induct)
    (auto simp: create_transfer_def cleanup_expired_def on_download_end_def on_download_error_def)

theorem ft_ok_run: "ft_ok m \<Longrightarrow> ft_ok (ft_run ops m)"
  unfolding ft_run_def by (induction ops arbitrary: m) (auto intro: ft_ok_step)

section \<open>The limit on concurrent transfers\<close>

definition active_set :: "string \<Rightarrow> file_transfers \<Rightarrow> string set" where
  "active_set s m = {t. \<exists>meta. tget (ft_transfers m) t = Some meta \<and> tm_server_id meta = s \<and>
     is_active (tm_status meta)}"

lemma active_set_keys: "active_set s m \<subseteq> set (keys (ft_transfers m))"
  by (force simp: active_set_def dest: tget_SomeD)

lemma finite_active_set [simp]: "finite (active_set s m)"
  using active_set_keys by (rule finite_subset) simp

lemma server_transfer_count_card:
  assumes "table_ok (ft_transfers m)"
  shows "server_transfer_count s m = card (active_set s m)"
proof -
  let ?l = "filter (\<lambda>(k, meta). tm_server_id meta = s \<and> is_active (tm_status meta)) (ft_transfers m)"
  have "distinct (map fst ?l)"
    using assms by (simp add: table_ok_def distinct_map_filter)
  moreover have "set (map fst ?l) = active_set s m"
    using assms by (force simp: active_set_def tget_in_set [symmetric])
  ultimately have "card (active_set s m) = length (map fst ?l)"
    using distinct_card [of "map fst ?l"] by simp
  then show ?thesis by (simp add: server_transfer_count_def)
qed

lemma active_set_touch:
  "keeps_identity f \<Longrightarrow>
   active_set s (touch f t now m) =
     {t'. \<exists>meta. tget (ft_transfers m) t' = Some meta \<and> tm_server_id meta = s \<and>
        is_active (tm_status (if t' = t then f meta else meta))}"
  by (auto simp: active_set_def touch_def table_simps keeps_identity_def split: if_splits)

lemma active_set_status:
  "active_set s (touch (tm_status_update (\<lambda>_. st)) t now m) =
     (if is_active st \<and> server_id_of t m = Some s then insert t (active_set s m)
      else if is_active st then active_set s m else active_set s m - {t})"
  by (auto simp: active_set_touch server_id_of_def) (auto simp: active_set_def)

lemma active_set_same_status [simp]:
  "active_set s (update_size t n now m) = active_set s m"
  "active_set s (update_progress t n now m) = active_set s m"
  by (simp_all add: ft_updates active_set_touch) (auto simp: active_set_def)

lemma active_set_eq [simp]:
  "active_set s (m\<lparr>ft_disk := d\<rparr>) = active_set s m"
  "active_set s (store_file_handle t file m) = active_set s m"
  "active_set s (remove_file_handle t m) = active_set s m"
  by (simp_all add: active_set_def store_file_handle_def Let_def)

lemma active_set_background [simp]:
  "active_set s (finish_write io t m) = active_set s m" "active_set s (finish_detached io i m) = active_set s m"
  by (simp_all add: active_set_def)

lemma active_set_start: "start_write t f off b m = (r, m') \<Longrightarrow> active_set s m' = active_set s m"
  by (auto simp: active_set_def dest!: start_write_keeps)

lemma active_set_insert:
  "\<not> thas (ft_transfers m) t \<Longrightarrow>
   active_set s (insert_transfer t s' u d p now m) =
     (if s = s' then insert t (active_set s m) else active_set s m)"
  by (auto simp: active_set_def insert_transfer_def table_simps thas_def is_active_def)

lemma active_set_remove: "active_set s (remove_transfer ok t m) = active_set s m - {t}"
  by (auto simp: active_set_def remove_transfer_def Let_def table_simps split: option.splits if_splits)

lemma active_set_removes: "active_set s (fold (remove_transfer ok) ts m) = active_set s m - set ts"
  by (induction ts arbitrary: m) (auto simp: active_set_remove)

text \<open>
  An operation is regular when the id it creates is new and it does not put a finished transfer
  back in progress.
\<close>

fun regular_op :: "ft_op \<Rightarrow> file_transfers \<Rightarrow> bool" where
  "regular_op (Create t s u d p) m \<longleftrightarrow> \<not> thas (ft_transfers m) t"
| "regular_op (MarkInProgress t) m \<longleftrightarrow>
     (case tget (ft_transfers m) t of Some meta \<Rightarrow> is_active (tm_status meta) | None \<Rightarrow> True)"
| "regular_op (DownloadReady r s t n) m \<longleftrightarrow>
     (case tget (ft_transfers m) t of Some meta \<Rightarrow> is_active (tm_status meta) | None \<Rightarrow> True)"
| "regular_op _ m \<longleftrightarrow> True"

fun regular_run :: "(instant \<times> ft_op) list \<Rightarrow> file_transfers \<Rightarrow> bool" where
  "regular_run [] m \<longleftrightarrow> True"
| "regular_run (op # ops) m \<longleftrightarrow> regular_op (snd op) m \<and> regular_run ops (ft_step op m)"

lemma is_active_simps [simp]:
  "is_active TransferPending" "is_active InProgress" "\<not> is_active Ready"
  "\<not> is_active (TransferFailed e)"
  by (simp_all add: is_active_def)

lemma active_set_fail [simp]: "active_set s (mark_transfer_failed t e now m) = active_set s m - {t}"
  by (simp add: mark_transfer_failed_def active_set_status)

lemma active_set_mark_ready [simp]: "active_set s (mark_ready t now m) = active_set s m - {t}"
  by (simp add: mark_ready_def active_set_status)

lemma server_id_of_size [simp]: "server_id_of t' (update_size t n now m) = server_id_of t' m"
  by (simp add: server_id_of_def update_size_def touch_def table_simps option.map_comp comp_def)

lemma active_set_in_progress:
  "active_set s (mark_in_progress t now m) =
     (if server_id_of t m = Some s then insert t (active_set s m) else active_set s m)"
  by (simp add: mark_in_progress_def active_set_status)

lemma regular_in_progress:
  assumes "case tget (ft_transfers m) t of Some meta \<Rightarrow> is_active (tm_status meta) | None \<Rightarrow> True"
  shows "active_set s (mark_in_progress t now m) = active_set s m"
  using assms by (auto simp: active_set_in_progress) (auto simp: active_set_def server_id_of_def)

lemma active_set_ready_end:
  "active_set s (download_ready_end r t f now m) \<subseteq> active_set s m"
  by (auto simp: download_ready_end_def split: sum.split)

lemma active_set_ready_begin:
  "active_set s (snd (download_ready_begin s' t n now m)) =
     (if sender_owns_transfer s' t m then active_set s (mark_in_progress t now m)
      else active_set s m)"
  by (simp add: download_ready_begin_def Let_def active_set_in_progress)

lemma active_set_ready:
  "active_set s (on_download_ready r s' t n now m) \<subseteq>
     active_set s (snd (download_ready_begin s' t n now m))"
  by (cases "download_ready_begin s' t n now m")
    (auto simp: on_download_ready_def split: option.split dest: subsetD [OF active_set_ready_end])

lemma active_set_chunk:
  "active_set s (on_download_chunk dec io se s' t off d now m) \<subseteq> active_set s m"
  by (cases rule: chunk_cases [of dec io se s' t off d now m])
    (auto split: sum.splits dest: active_set_start [where s = s])

lemma active_set_step:
  assumes "regular_op (snd op) m"
  shows "active_set s (ft_step op m) \<subseteq> active_set s m \<or>
    (transfer_allowed s m \<and> (\<exists>t. active_set s (ft_step op m) = insert t (active_set s m)))"
proof (cases op)
  case (Pair now c)
  show ?thesis
  proof (cases c)
    case (Create t s' u d p)
    with Pair assms show ?thesis
      by (auto simp: create_transfer_def active_set_insert)
  next
    case (MarkInProgress t)
    with Pair assms show ?thesis by (simp add: regular_in_progress)
  next
    case (DownloadReady r s' t n)
    with Pair assms active_set_ready [of s r s' t n now m] show ?thesis
      by (simp add: active_set_ready_begin regular_in_progress split: if_splits)
  next
    case (DownloadChunk dec io se s' t off d)
    with Pair active_set_chunk show ?thesis by simp
  qed (auto simp: Pair active_set_remove active_set_removes cleanup_expired_def
      on_download_end_def on_download_error_def)
qed

lemma active_count_step:
  assumes "ft_ok m" and "regular_op (snd op) m"
    and "server_transfer_count s m \<le> max_file_concurrent_transfers"
  shows "server_transfer_count s (ft_step op m) \<le> max_file_concurrent_transfers"
proof -
  have tabs: "table_ok (ft_transfers m)" "table_ok (ft_transfers (ft_step op m))"
    using assms(1) ft_ok_step [OF assms(1), of op] by (auto simp: ft_ok_def)
  note card = server_transfer_count_card [OF tabs(1), of s] server_transfer_count_card [OF tabs(2), of s]
  from active_set_step [OF assms(2), of s] show ?thesis
  proof
    assume "active_set s (ft_step op m) \<subseteq> active_set s m"
    then show ?thesis using card assms(3) by (metis card_mono finite_active_set le_trans)
  next
    assume "transfer_allowed s m \<and> (\<exists>t. active_set s (ft_step op m) = insert t (active_set s m))"
    then show ?thesis using card
      by (auto simp: transfer_allowed_def card_insert_if)
  qed
qed

text \<open>
  A server never has more than \<open>MAX_FILE_CONCURRENT_TRANSFERS\<close> pending or running
  transfers, whatever sequence of requests, agent frames and clean-ups is processed one at a
  time, provided new ids are new and no agent reports "ready" for a transfer that has already
  finished; and while the limit is reached a further transfer is refused and changes nothing.
\<close>

lemma transfer_limit_kept:
  assumes "regular_run ops (ft_new dir)"
  shows "server_transfer_count s (ft_run ops (ft_new dir)) \<le> max_file_concurrent_transfers \<and>
    (server_transfer_count s (ft_run ops (ft_new dir)) = max_file_concurrent_transfers \<longrightarrow>
     create_transfer t s u d p now (ft_run ops (ft_new dir)) =
       (Inl ''Too many concurrent transfers'', ft_run ops (ft_new dir)))"
proof -
  have "ft_ok m \<Longrightarrow> regular_run ops m \<Longrightarrow>
      server_transfer_count s m \<le> max_file_concurrent_transfers \<Longrightarrow>
      server_transfer_count s (ft_run ops m) \<le> max_file_concurrent_transfers" for m
  proof (induction ops arbitrary: m)
    case Nil
    then show ?case by (simp add: ft_run_def)
  next
    case (Cons op ops)
    then show ?case
      using ft_ok_step [of m op] active_count_step [of m op s] by (simp add: ft_run_def)
  qed
  from this [OF ft_ok_new assms] show ?thesis
    by (simp add: create_transfer_def transfer_allowed_def server_transfer_count_def ft_new_def)
qed

lemma transfer_limit_kept_witness:
  "fst (create_transfer ''d'' ''s'' ''u'' Upload ''/x'' 9
     (ft_run [(1, Create ''a'' ''s'' ''u'' Download ''/x''), (2, DownloadReady (Inr ()) ''s'' ''a'' 5),
              (3, Create ''b'' ''s'' ''u'' Download ''/x''), (4, Create ''c'' ''s'' ''v'' Upload ''/y'')]
        (ft_new []))) = Inl ''Too many concurrent transfers''"
proof -
  let ?ops = "[(1, Create ''a'' ''s'' ''u'' Download ''/x''), (2, DownloadReady (Inr ()) ''s'' ''a'' 5),
              (3, Create ''b'' ''s'' ''u'' Download ''/x''), (4, Create ''c'' ''s'' ''v'' Upload ''/y'')]"
  have "regular_run ?ops (ft_new [])" by code_simp
  moreover have "server_transfer_count ''s'' (ft_run ?ops (ft_new [])) = max_file_concurrent_transfers"
    by code_simp
  ultimately show ?thesis
    using transfer_limit_kept [of ?ops "[]" "''s''" "''d''" "''u''" Upload "''/x''" 9] by simp
qed

text \<open>The proviso is needed: an agent that repeats "ready" revives a finished transfer.\<close>

theorem repeated_ready_revives:
  assumes "ft_ok m" and "tget (ft_transfers m) t = Some meta" and "\<not> is_active (tm_status meta)"
    and "tm_server_id meta = s"
  shows "server_transfer_count s (on_download_ready (Inr ()) s t n now m) =
    Suc (server_transfer_count s m)"
proof -
  let ?m = "on_download_ready (Inr ()) s t n now m"
  have tabs: "table_ok (ft_transfers m)" "table_ok (ft_transfers ?m)"
    using assms(1) ft_ok_ready [OF assms(1)] by (auto simp: ft_ok_def)
  have own: "sender_owns_transfer s t m"
    using assms(2,4) by (simp add: sender_owns_transfer_def server_id_of_def)
  have "active_set s ?m = active_set s (snd (download_ready_begin s t n now m))"
    by (simp add: on_download_ready_def download_ready_end_def split: prod.split option.split)
  also have "\<dots> = insert t (active_set s m)"
    using own assms(2,4) by (simp add: active_set_ready_begin active_set_in_progress server_id_of_def)
  finally have "active_set s ?m = insert t (active_set s m)" .
  moreover have "t \<notin> active_set s m" using assms(2,3) by (simp add: active_set_def)
  ultimately show ?thesis
    using server_transfer_count_card [OF tabs(1)] server_transfer_count_card [OF tabs(2)] by simp
qed

section \<open>A download arrives whole\<close>

text \<open>
  The frames an agent sends for a file cut into pieces, each at the offset where the last ended, with
  no I/O error.  The flag of a piece says whether its write is done before the next frame; if
  not, the next frame waits for it.
\<close>

fun chunk_ops ::
  "(string \<Rightarrow> string + u8 list) \<Rightarrow> string \<Rightarrow> string \<Rightarrow> u64 \<Rightarrow> (instant \<times> string \<times> bool) list \<Rightarrow>
   (instant \<times> ft_op) list" where
  "chunk_ops decode s t off [] = []"
| "chunk_ops decode s t off ((now, data, early) # ds) =
     (now, DownloadChunk decode None None s t off data) #
     (if early then [(now, FinishWrite None t)] else []) @
     chunk_ops decode s t
       (off + (case decode data of Inr bytes \<Rightarrow> of_nat (length bytes) | Inl _ \<Rightarrow> 0)) ds"

text \<open>The state of a download of which \<open>got\<close> is in the file and \<open>piece\<close> is being written.\<close>

definition downloading :: "string \<Rightarrow> string \<Rightarrow> u64 \<Rightarrow> u8 list \<Rightarrow> u8 list \<Rightarrow> file_transfers \<Rightarrow> bool" where
  "downloading s t n got piece m \<longleftrightarrow>
     (\<exists>meta. tget (ft_transfers m) t = Some meta \<and> tm_server_id meta = s \<and>
        tm_status meta = InProgress \<and> tm_file_size meta = Some n \<and>
        (got @ piece \<noteq> [] \<longrightarrow> tm_bytes_transferred meta = of_nat (length (got @ piece)))) \<and>
     tget (ft_open_files m) t = Some \<lparr>of_path = part_path (ft_temp_dir m) t,
       of_write = (if piece = [] then Idle else Writing (length got) piece)\<rparr> \<and>
     tget (ft_disk m) (part_path (ft_temp_dir m) t) = Some got"

lemma write_at_end [simp]: "write_at (length disk) bytes disk = disk @ bytes"
  by (simp add: write_at_def)

lemma touch_keeps [simp]:
  "ft_temp_dir (touch f t now m) = ft_temp_dir m" "ft_detached (touch f t now m) = ft_detached m"
  "ft_open_files (touch f t now m) = ft_open_files m" "ft_disk (touch f t now m) = ft_disk m"
  by (simp_all add: touch_def)

lemma downloading_finish:
  assumes "downloading s t n got piece m"
  shows "downloading s t n (got @ piece) [] (finish_write None t m)"
  using assms by (auto simp: downloading_def finish_write_def apply_write_def table_simps)

lemma downloading_chunk:
  assumes "downloading s t n got piece m" and "decode data = Inr bytes" and "bytes \<noteq> []"
    and "length (got @ piece) < 2 ^ 64"
    and "m' = on_download_chunk decode None None s t (of_nat (length (got @ piece))) data now m"
  shows "downloading s t n (got @ piece) bytes m'" and "ft_temp_dir m' = ft_temp_dir m"
    and "ft_detached m' = ft_detached m"
proof -
  let ?k = "finish_write None t m" and ?off = "of_nat (length (got @ piece)) :: u64"
  let ?path = "part_path (ft_temp_dir m) t"
  from assms(1) have own: "sender_owns_transfer s t m" and h: "tget (ft_open_files m) t \<noteq> None"
    by (auto simp: downloading_def sender_owns_transfer_def server_id_of_def)
  have off: "unat ?off = length (got @ piece)"
    using assms(4) by (simp only: unat_of_nat) (simp add: take_bit_nat_eq_self)
  note k = downloading_finish [OF assms(1)]
  then have f: "tget (ft_open_files ?k) t = Some \<lparr>of_path = ?path, of_write = Idle\<rparr>"
    by (simp add: downloading_def)
  have c: "m' = update_progress t (?off + of_nat (length bytes)) now
      (?k\<lparr>ft_open_files := tput t \<lparr>of_path = ?path, of_write = Writing (length (got @ piece)) bytes\<rparr> (ft_open_files ?k)\<rparr>)"
    using own h assms(2,3,5) f off
    by (auto simp: on_download_chunk_def get_file_handle_def start_write_def Let_def)
  show "downloading s t n (got @ piece) bytes m'"
    using k assms(3) unfolding c
    by (auto simp: downloading_def update_progress_def touch_def table_simps)
  show "ft_temp_dir m' = ft_temp_dir m" "ft_detached m' = ft_detached m"
    unfolding c by (simp_all add: update_progress_def)
qed

text \<open>What is in the file and what is being written after some pieces.\<close>

fun split_pieces :: "u8 list \<Rightarrow> u8 list \<Rightarrow> (u8 list \<times> bool) list \<Rightarrow> u8 list \<times> u8 list" where
  "split_pieces got piece [] = (got, piece)"
| "split_pieces got piece ((bytes, early) # ps) =
     (if early then split_pieces (got @ piece @ bytes) [] ps else split_pieces (got @ piece) bytes ps)"

lemma split_pieces_snoc:
  "split_pieces got piece (ps @ [(bytes, early)]) =
     (let before = got @ piece @ concat (map fst ps)
      in if early then (before @ bytes, []) else (before, bytes))"
  by (induction got piece ps rule: split_pieces.induct) (auto simp: Let_def)

lemma downloading_chunks:
  assumes "downloading s t n got piece m"
    and "map (\<lambda>(now, data, early). (decode data, early)) ds = map (apfst Inr) ps" and "\<forall>p \<in> set ps. fst p \<noteq> []"
    and "length (got @ piece) + length (concat (map fst ps)) < 2 ^ 64"
  shows "downloading s t n (fst (split_pieces got piece ps)) (snd (split_pieces got piece ps))
      (ft_run (chunk_ops decode s t (of_nat (length (got @ piece))) ds) m) \<and>
    ft_temp_dir (ft_run (chunk_ops decode s t (of_nat (length (got @ piece))) ds) m) = ft_temp_dir m \<and>
    ft_detached (ft_run (chunk_ops decode s t (of_nat (length (got @ piece))) ds) m) = ft_detached m"
  using assms
proof (induction ds arbitrary: got piece m ps)
  case Nil
  then show ?case by (simp add: ft_run_def)
next
  case (Cons d ds)
  obtain now data early where d: "d = (now, data, early)" by (cases d) auto
  from Cons.prems(2) d obtain bytes rest where p: "ps = (bytes, early) # rest" "decode data = Inr bytes"
    "map (\<lambda>(now, data, early). (decode data, early)) ds = map (apfst Inr) rest" by (cases ps) auto
  let ?c = "on_download_chunk decode None None s t (of_nat (length (got @ piece))) data now m"
  let ?m = "if early then finish_write None t ?c else ?c"
  let ?got = "if early then (got @ piece) @ bytes else got @ piece" and ?piece = "if early then [] else bytes"
  have ne: "bytes \<noteq> []" and lt: "length (got @ piece) < 2 ^ 64" using Cons.prems(3,4) p(1) by auto
  note c = downloading_chunk [where decode = decode and data = data and now = now, OF Cons.prems(1) p(2) ne lt refl]
  have step: "downloading s t n ?got ?piece ?m" "ft_temp_dir ?m = ft_temp_dir m" "ft_detached ?m = ft_detached m"
    using c downloading_finish [OF c(1)] by auto
  have len: "length (?got @ ?piece) = length (got @ piece) + length bytes" by simp
  have "length (?got @ ?piece) + length (concat (map fst rest)) < 2 ^ 64"
    using Cons.prems(4) p(1) unfolding len by simp
  from Cons.IH [OF step(1) p(3) _ this] Cons.prems(3) p(1)
  have ih: "downloading s t n (fst (split_pieces ?got ?piece rest)) (snd (split_pieces ?got ?piece rest))
      (ft_run (chunk_ops decode s t (of_nat (length (got @ piece) + length bytes)) ds) ?m) \<and>
    ft_temp_dir (ft_run (chunk_ops decode s t (of_nat (length (got @ piece) + length bytes)) ds) ?m) = ft_temp_dir ?m \<and>
    ft_detached (ft_run (chunk_ops decode s t (of_nat (length (got @ piece) + length bytes)) ds) ?m) = ft_detached ?m"
    unfolding len by simp
  have run: "ft_run (chunk_ops decode s t (of_nat (length (got @ piece))) (d # ds)) m =
      ft_run (chunk_ops decode s t (of_nat (length (got @ piece) + length bytes)) ds) ?m"
    by (simp add: d p(2) ft_run_def ac_simps)
  show ?case using ih step(2,3) unfolding run by (auto simp: p(1))
qed

lemma ready_starts_downloading:
  assumes "ft_ok m" and "server_id_of t m = Some s" and "get_file_handle t m = None"
  shows "downloading s t n [] [] (on_download_ready (Inr ()) s t n now m) \<and>
    ft_temp_dir (on_download_ready (Inr ()) s t n now m) = ft_temp_dir m \<and>
    ft_detached (on_download_ready (Inr ()) s t n now m) = ft_detached m"
  using assms
  by (auto simp: downloading_def on_download_ready_def download_ready_begin_def download_ready_end_def
      sender_owns_transfer_def server_id_of_def temp_file_path_def mark_in_progress_def get_file_handle_def
      update_size_def touch_def store_file_handle_def remove_file_handle_def ft_ok_def Let_def table_simps)

lemma downloading_end:
  assumes "downloading s t n got piece m" and "got @ piece \<noteq> []"
  shows "tget (ft_disk (on_download_end s t later m)) (part_path (ft_temp_dir m) t) = Some got \<and>
    ft_detached (on_download_end s t later m) = ft_detached m @
      (if piece = [] then [] else [(part_path (ft_temp_dir m) t, length got, piece)]) \<and>
    get_file_handle t (on_download_end s t later m) = None \<and>
    (\<exists>info. ft_get t later (on_download_end s t later m) = Some info \<and> ti_status info = ''ready'' \<and>
       ti_file_size info = Some n \<and> ti_bytes_transferred info = of_nat (length (got @ piece)))"
  using assms
  by (auto simp: downloading_def on_download_end_def sender_owns_transfer_def server_id_of_def
      remove_file_handle_def mark_ready_def touch_def ft_get_def get_file_handle_def info_of_def
      table_simps)

lemma finish_detached_last:
  assumes "ft_detached m' = before @ [(p, length got, piece)]" and "tget (ft_disk m') p = Some got"
  shows "tget (ft_disk (finish_detached None (length before) m')) p = Some (got @ piece)"
    and "tget (ft_disk (finish_detached (Some (e, rest)) (length before) m')) p = Some rest"
  using assms by (simp_all add: finish_detached_def apply_write_def table_simps)

text \<open>
  Claim C31: a download arrives whole, up to its last piece.  For a tracked transfer without an open
  handle, when its agent reports "ready", sends the file as non-empty pieces (fewer than
  \<open>2 ^ 64\<close> bytes) at consecutive offsets and reports the end, and creating, seeking and the writes the
  frames wait for work: the record is ready with the announced size and the number of all
  bytes, the handle is closed, and the temporary file holds the concatenation of the pieces,
  the last one excepted when its write is not done by the time of the end frame.  Then that
  write goes on in the background, the record being ready already: if it works the file is whole, and if it fails
  the file is what the failure leaves of it and the record stays ready.
\<close>

theorem download_arrives_whole:
  assumes "ft_ok m" and "server_id_of t m = Some s" and "get_file_handle t m = None"
    and "map (\<lambda>(now, data, early). (decode data, early)) ds = map (apfst Inr) (ps @ [(bytes, early)])"
    and "\<forall>p \<in> set (ps @ [(bytes, early)]). fst p \<noteq> []"
    and "length (concat (map fst ps) @ bytes) < 2 ^ 64"
  shows "let m' = ft_run ((now, DownloadReady (Inr ()) s t n) # chunk_ops decode s t 0 ds @
                    [(later, DownloadEnd s t)]) m;
             before = concat (map fst ps); temp = part_path (ft_temp_dir m) t; i = length (ft_detached m)
    in get_file_handle t m' = None \<and>
       (\<exists>info. ft_get t later m' = Some info \<and> ti_status info = ''ready'' \<and>
          ti_file_size info = Some n \<and>
          ti_bytes_transferred info = of_nat (length (before @ bytes)) \<and>
          (\<forall>io. ft_get t later (finish_detached io i m') = Some info)) \<and>
       (if early then tget (ft_disk m') temp = Some (before @ bytes) \<and> ft_detached m' = ft_detached m
        else tget (ft_disk m') temp = Some before \<and>
             ft_detached m' = ft_detached m @ [(temp, length before, bytes)] \<and>
             tget (ft_disk (finish_detached None i m')) temp = Some (before @ bytes) \<and>
             (\<forall>e rest. tget (ft_disk (finish_detached (Some (e, rest)) i m')) temp = Some rest))"
proof -
  let ?m1 = "on_download_ready (Inr ()) s t n now m"
  let ?m2 = "ft_run (chunk_ops decode s t 0 ds) ?m1"
  let ?m' = "ft_run ((now, DownloadReady (Inr ()) s t n) # chunk_ops decode s t 0 ds @ [(later, DownloadEnd s t)]) m"
  let ?got = "concat (map fst ps) @ (if early then bytes else [])" and ?piece = "if early then [] else bytes"
  note r = ready_starts_downloading [OF assms(1-3), of n now]
  have split: "split_pieces [] [] (ps @ [(bytes, early)]) = (?got, ?piece)"
    by (simp add: split_pieces_snoc Let_def)
  from downloading_chunks [OF conjunct1 [OF r] assms(4,5)] assms(6) r
  have d: "downloading s t n ?got ?piece ?m2" "ft_temp_dir ?m2 = ft_temp_dir m" "ft_detached ?m2 = ft_detached m"
    unfolding split by auto
  have ne: "?got @ ?piece \<noteq> []" using assms(5) by auto
  have run: "?m' = on_download_end s t later ?m2" by (simp add: ft_run_def)
  note e = downloading_end [OF d(1) ne, of later, folded run, unfolded d(2,3)]
  have "ft_get t later (finish_detached io i ?m') = ft_get t later ?m'" for io i by (simp add: ft_get_def)
  with e finish_detached_last [of ?m' "ft_detached m" "part_path (ft_temp_dir m) t" "concat (map fst ps)" bytes] assms(5)
  show ?thesis by (cases early) (auto simp: Let_def)
qed

definition demo_decode :: "string \<Rightarrow> string + u8 list" where
  "demo_decode d = (if d = ''aGk='' then Inr [104, 105] else Inr [33])"

definition demo_transfer :: file_transfers where
  "demo_transfer = ft_run [(1, Create ''t'' ''s'' ''u'' Download ''/x'')] (ft_new [''tmp''])"

theorem download_arrives_whole_witness:
  "\<exists>m'. tget (ft_disk m') (part_path [''tmp''] ''t'') = Some [104, 105] \<and>
     tget (ft_disk (finish_detached (Some (''disk full'', [104, 105])) 0 m')) (part_path [''tmp''] ''t'') = Some [104, 105] \<and>
     tget (ft_disk (finish_detached None 0 m')) (part_path [''tmp''] ''t'') = Some [104, 105, 33] \<and>
     (\<exists>info. ft_get ''t'' 4 m' = Some info \<and> ti_status info = ''ready'')"
proof -
  have ok: "ft_ok demo_transfer" unfolding demo_transfer_def by (rule ft_ok_run) (rule ft_ok_new)
  have own: "server_id_of ''t'' demo_transfer = Some ''s''" by code_simp
  have shut: "get_file_handle ''t'' demo_transfer = None" by code_simp
  have dir: "ft_temp_dir demo_transfer = [''tmp'']" "ft_detached demo_transfer = []" by code_simp+
  have dec: "map (\<lambda>(now, data, early). (demo_decode data, early)) [(2, ''aGk='', True), (3, ''IQ=='', False)] =
      map (apfst Inr) ([([104, 105], True)] @ [([33], False)])"
    by (simp add: demo_decode_def)
  from download_arrives_whole [OF ok own shut dec, of 2 3 4] show ?thesis
    unfolding Let_def dir by auto
qed

section \<open>A frame that arrives while its transfer is removed\<close>

text \<open>An open handle and a file on disk for an id no transfer has.\<close>

definition orphaned :: "path \<Rightarrow> string \<Rightarrow> file_transfers \<Rightarrow> bool" where
  "orphaned dir t m \<longleftrightarrow>
     ft_temp_dir m = dir \<and> table_ok (ft_transfers m) \<and>
     (\<forall>t' meta. tget (ft_transfers m) t' = Some meta \<longrightarrow> tm_temp_file meta = part_path dir t') \<and>
     \<not> thas (ft_transfers m) t \<and> map_option of_path (get_file_handle t m) = Some (part_path dir t) \<and>
     thas (ft_disk m) (part_path dir t)"

text \<open>The operations that name \<open>t\<close> and would create it or close its handle.\<close>

fun reclaims :: "string \<Rightarrow> ft_op \<Rightarrow> bool" where
  "reclaims t (Create t' s u d p) \<longleftrightarrow> t' = t"
| "reclaims t (RemoveHandle t') \<longleftrightarrow> t' = t"
| "reclaims t (Remove ok t') \<longleftrightarrow> t' = t"
| "reclaims t _ \<longleftrightarrow> False"

lemma part_path_inj [simp]: "part_path dir t = part_path dir t' \<longleftrightarrow> t = t'"
  by (simp add: part_path_def)

lemma orphaned_touch:
  "orphaned dir t m \<Longrightarrow> keeps_identity f \<Longrightarrow> orphaned dir t (touch f t' now m)"
  by (auto simp: orphaned_def touch_def thas_def get_file_handle_def table_simps keeps_identity_def
      split: if_splits)

lemma orphaned_updates:
  assumes "orphaned dir t m"
  shows "orphaned dir t (update_size t' n now m)" "orphaned dir t (update_progress t' n now m)"
    "orphaned dir t (mark_in_progress t' now m)" "orphaned dir t (mark_ready t' now m)"
    "orphaned dir t (mark_transfer_failed t' e now m)"
  using assms by (auto simp: ft_updates intro: orphaned_touch)

lemma orphaned_remove_handle:
  "orphaned dir t m \<Longrightarrow> t' \<noteq> t \<Longrightarrow> orphaned dir t (remove_file_handle t' m)"
  by (auto simp: orphaned_def get_file_handle_def)

lemma orphaned_remove:
  "orphaned dir t m \<Longrightarrow> t' \<noteq> t \<Longrightarrow> orphaned dir t (remove_transfer ok t' m)"
  by (cases "tget (ft_transfers m) t'")
    (auto simp: orphaned_def remove_transfer_def get_file_handle_def Let_def thas_def table_simps split: if_splits)

lemma orphaned_removes:
  "orphaned dir t m \<Longrightarrow> t \<notin> set ts \<Longrightarrow> orphaned dir t (fold (remove_transfer ok) ts m)"
  by (induction ts arbitrary: m) (auto intro: orphaned_remove [OF _ not_sym])

lemma orphaned_expired: "orphaned dir t m \<Longrightarrow> t \<notin> set (expired_ids age now m)"
  by (auto simp: orphaned_def expired_ids_def thas_def tget_in_set)

lemma orphaned_disk:
  "orphaned dir t m \<Longrightarrow> orphaned dir t (m\<lparr>ft_disk := tput p b (ft_disk m)\<rparr>)"
  "orphaned dir t m \<Longrightarrow> orphaned dir t (m\<lparr>ft_disk := tmodify p f (ft_disk m)\<rparr>)"
  by (auto simp: orphaned_def get_file_handle_def thas_def table_simps)

lemma orphaned_not_owned: "orphaned dir t m \<Longrightarrow> \<not> sender_owns_transfer s t m"
  by (simp add: orphaned_def sender_owns_transfer_def server_id_of_def thas_def)

lemma orphaned_store:
  "orphaned dir t m \<Longrightarrow> t' \<noteq> t \<Longrightarrow> orphaned dir t (store_file_handle t' p m)"
  by (auto simp: orphaned_def store_file_handle_def get_file_handle_def Let_def table_simps)

lemma orphaned_background:
  assumes "orphaned dir t m"
  shows "orphaned dir t (finish_write io t' m)" "orphaned dir t (finish_detached io i m)"
  using assms finish_write_handle [of io t' m t]
  by (auto simp: orphaned_def get_file_handle_def thas_def finish_write_def finish_detached_def apply_write_def table_simps
      split: option.splits write_state.splits list.splits prod.splits)

lemma orphaned_start:
  "orphaned dir t m \<Longrightarrow> t' \<noteq> t \<Longrightarrow> start_write t' f off b m = (r, m') \<Longrightarrow> orphaned dir t m'"
  by (auto simp: orphaned_def get_file_handle_def table_simps dest!: start_write_keeps)

lemma orphaned_chunk:
  assumes "orphaned dir t m"
  shows "orphaned dir t (on_download_chunk dec io se s t' off d now m)"
proof (cases rule: chunk_cases [of dec io se s t' off d now m])
  case (written f bytes r m')
  have "t' \<noteq> t" using written(1) orphaned_not_owned [OF assms] by blast
  from orphaned_start [OF orphaned_background(1) [OF assms] this written(3)] written(4)
  show ?thesis by (auto split: sum.split intro: orphaned_updates)
qed (use assms in \<open>auto intro: orphaned_updates orphaned_background\<close>)

lemma orphaned_ready: "orphaned dir t m \<Longrightarrow> orphaned dir t (on_download_ready r s t' n now m)"
  using orphaned_not_owned [of dir t m s]
  by (auto simp: on_download_ready_def download_ready_begin_def download_ready_end_def Let_def
      split: option.split sum.split intro!: orphaned_store orphaned_updates orphaned_disk)

lemma orphaned_step:
  assumes "orphaned dir t m" and "\<not> reclaims t (snd op)"
  shows "orphaned dir t (ft_step op m)"
proof -
  note own = orphaned_not_owned [OF assms(1)]
  obtain now c where [simp]: "op = (now, c)" by fastforce
  show ?thesis
  proof (cases c)
    case (Create t' s u d p)
    with assms show ?thesis
      by (auto simp: create_transfer_def insert_transfer_def orphaned_def thas_def get_file_handle_def
          table_simps split: if_splits)
  next
    case (DownloadEnd s t')
    with assms own show ?thesis
      by (auto simp: on_download_end_def intro!: orphaned_updates orphaned_remove_handle)
  next
    case (DownloadError s t' e)
    with assms own show ?thesis
      by (auto simp: on_download_error_def intro!: orphaned_updates orphaned_remove_handle)
  next
    case (DownloadChunk dec io se s t' off d)
    with assms show ?thesis by (simp add: orphaned_chunk)
  qed (use assms in \<open>auto simp: cleanup_expired_def intro!: orphaned_background orphaned_updates orphaned_remove
      orphaned_remove_handle orphaned_removes orphaned_ready dest: orphaned_expired\<close>)
qed

text \<open>
  A "ready" frame that is being handled while its transfer is removed leaks.  The
  handler found the path before it waits for the file to be created; when the removal runs in
  between, the handler still creates the file and stores its handle, although the transfer is
  gone.  From then on no agent frame and no clean-up, whatever else happens, closes the handle or
  deletes the file, unless someone removes exactly this (unknown) id.
\<close>

lemma ready_after_removal_leaks:
  assumes "ft_ok m" and "download_ready_begin s t n now m = (Some p, m1)"
    and "\<forall>op \<in> set ops. \<not> reclaims t (snd op)"
  shows "let m2 = remove_transfer ok t m1;
             m3 = ft_run ops (download_ready_end (Inr ()) t p now m2)
         in \<not> thas (ft_transfers m3) t \<and> map_option of_path (get_file_handle t m3) = Some p \<and> thas (ft_disk m3) p"
proof -
  let ?m2 = "remove_transfer ok t m1"
  let ?m3 = "download_ready_end (Inr ()) t p now ?m2"
  have ok1: "ft_ok m1" using ft_ok_ready_begin [OF assms(1), of s t n now] assms(2) by simp
  have p: "p = part_path (ft_temp_dir m1) t"
    using temp_file_path_ok [OF ok1] download_ready_begin_Some [OF assms(2)] by blast
  have ok2: "ft_ok ?m2" using ok1 by blast
  have "\<not> thas (ft_transfers ?m2) t" "ft_temp_dir ?m2 = ft_temp_dir m1"
    by (auto simp: remove_transfer_def thas_def Let_def table_simps
        split: option.split)
  with ok2 have orph: "orphaned (ft_temp_dir m1) t ?m3"
    by (auto simp: orphaned_def ft_ok_def download_ready_end_def store_file_handle_def
        get_file_handle_def thas_def p Let_def table_simps)
  have "orphaned dir t k \<Longrightarrow> \<forall>op \<in> set os. \<not> reclaims t (snd op) \<Longrightarrow> orphaned dir t (ft_run os k)"
    for dir k os
    unfolding ft_run_def by (induction os arbitrary: k) (auto intro: orphaned_step)
  from this [OF orph assms(3)] p show ?thesis
    by (simp add: orphaned_def Let_def)
qed

lemma ready_after_removal_leaks_witness:
  "\<exists>m m1. download_ready_begin ''s'' ''t'' 5 2 m = (Some [''tmp'', ''t.part''], m1) \<and>
     thas (ft_disk (ft_run [(seconds 7200, Cleanup (\<lambda>_. True) file_transfer_timeout)]
        (download_ready_end (Inr ()) ''t'' [''tmp'', ''t.part''] 2
           (remove_transfer (\<lambda>_. True) ''t'' m1)))) [''tmp'', ''t.part'']"
proof -
  let ?m = "ft_run [(1, Create ''t'' ''s'' ''u'' Download ''/x'')] (ft_new [''tmp''])"
  have ok: "ft_ok ?m" by (rule ft_ok_run) (rule ft_ok_new)
  have "fst (download_ready_begin ''s'' ''t'' 5 2 ?m) = Some [''tmp'', ''t.part'']" by code_simp
  then obtain m1 where b: "download_ready_begin ''s'' ''t'' 5 2 ?m = (Some [''tmp'', ''t.part''], m1)"
    by (metis prod.collapse)
  from ready_after_removal_leaks [OF ok b, of "[(seconds 7200, Cleanup (\<lambda>_. True) file_transfer_timeout)]"
      "\<lambda>_. True"] b
  show ?thesis by (auto simp: Let_def)
qed

end
