(* ===== verification/Sliding_Window.thy ===== *)
theory Sliding_Window
  imports SB_Prelude
begin

text \<open>
  Sliding-window detectors.  The agent's two intrusion detectors keep, per source address, the
  recent events in arrival order, drop the expired ones from the front, and raise an alarm (and
  start afresh) when what is left is too much.  The locale states what such a detector promises
  of one observation and of its other operations; inside it every run is shown to raise exactly
  the alarms of a reference detector that never forgets an event between alarms.
\<close>

text \<open>The loop that pops expired entries from the front of a queue.\<close>

fun expire_front :: "instant \<Rightarrow> (instant \<times> 'a) list \<Rightarrow> (instant \<times> 'a) list" where
  "expire_front cutoff [] = []"
| "expire_front cutoff ((ts, x) # q) =
     (if ts < cutoff then expire_front cutoff q else (ts, x) # q)"

definition recent :: "instant \<Rightarrow> (instant \<times> 'a) list \<Rightarrow> (instant \<times> 'a) list" where
  "recent cutoff q = filter (\<lambda>(ts, x). cutoff \<le> ts) q"

abbreviation times_sorted :: "(instant \<times> 'a) list \<Rightarrow> bool" where
  "times_sorted q \<equiv> sorted (map fst q)"

lemma expire_front_recent: "times_sorted q \<Longrightarrow> expire_front cutoff q = recent cutoff q"
proof (induction cutoff q rule: expire_front.induct)
  case (2 cutoff ts x q)
  then have "\<not> ts < cutoff \<Longrightarrow> filter (\<lambda>(ts, x). cutoff \<le> ts) q = q"
    by (auto simp: filter_id_conv)
  with 2 show ?case by (auto simp: recent_def)
qed (simp add: recent_def)

lemma recent_append: "recent c (p @ q) = recent c p @ recent c q"
  by (simp add: recent_def)

lemma recent_recent: "c \<le> c' \<Longrightarrow> recent c' (recent c q) = recent c' q"
  by (auto simp: recent_def intro: filter_cong)

lemma recent_idem [simp]: "recent c (recent c q) = recent c q"
  by (simp add: recent_recent)

lemma times_sorted_recent: "times_sorted q \<Longrightarrow> times_sorted (recent c q)"
  by (induction q) (auto simp: recent_def)

lemma length_recent: "length (recent c q) \<le> length q"
  by (simp add: recent_def)

lemma set_recent: "set (recent c q) \<subseteq> set q"
  by (auto simp: recent_def)

text \<open>A queue all of whose entries arrived by \<open>t\<close>, in order.\<close>

definition arrived_by :: "instant \<Rightarrow> (instant \<times> 'a) list \<Rightarrow> bool" where
  "arrived_by t q \<longleftrightarrow> times_sorted q \<and> (\<forall>p \<in> set q. fst p \<le> t)"

lemma arrived_by_Nil [simp]: "arrived_by t []"
  by (simp add: arrived_by_def)

lemma arrived_by_recent: "arrived_by t q \<Longrightarrow> arrived_by t (recent c q)"
  using set_recent [of c q] by (auto simp: arrived_by_def times_sorted_recent)

lemma arrived_by_mono: "arrived_by t q \<Longrightarrow> t \<le> t' \<Longrightarrow> arrived_by t' q"
  by (fastforce simp: arrived_by_def)

lemma arrived_by_snoc: "arrived_by t q \<Longrightarrow> t \<le> now \<Longrightarrow> arrived_by now (q @ [(now, x)])"
  by (fastforce simp: arrived_by_def sorted_append)

lemma arrived_by_recent_later: "arrived_by t q \<Longrightarrow> t \<le> now \<Longrightarrow> arrived_by now (recent c q)"
  by (rule arrived_by_mono [OF arrived_by_recent])

lemma arrived_by_recent_snoc:
  "arrived_by t q \<Longrightarrow> t \<le> now \<Longrightarrow> arrived_by now (recent c q @ [(now, x)])"
  by (rule arrived_by_snoc [OF arrived_by_recent])

lemma arrived_by_expire: "arrived_by t q \<Longrightarrow> expire_front c q = recent c q"
  by (simp add: arrived_by_def expire_front_recent)

section \<open>Runs and the reference detector\<close>

datatype ('e, 'o) detector_op = Event 'e | Silent 'o

text \<open>The run of a detector: whether each event raised an alarm.\<close>

fun detector_run ::
  "(instant \<Rightarrow> 'e \<Rightarrow> 's \<Rightarrow> bool \<times> 's) \<Rightarrow> (instant \<Rightarrow> 'o \<Rightarrow> 's \<Rightarrow> 's) \<Rightarrow>
   (instant \<times> ('e, 'o) detector_op) list \<Rightarrow> 's \<Rightarrow> bool list" where
  "detector_run observe silent [] st = []"
| "detector_run observe silent ((now, Event e) # ops) st =
     (let (fired, st) = observe now e st in fired # detector_run observe silent ops st)"
| "detector_run observe silent ((now, Silent oper) # ops) st =
     detector_run observe silent ops (silent now oper st)"

text \<open>
  The reference keeps every event since the source's last alarm and looks, at each event, at
  those that are inside the window then.
\<close>

fun reference_run ::
  "('e \<Rightarrow> string) \<Rightarrow> ('e \<Rightarrow> 'i) \<Rightarrow> ((instant \<times> 'i) list \<Rightarrow> bool) \<Rightarrow> (instant \<Rightarrow> instant) \<Rightarrow>
   (instant \<times> ('e, 'o) detector_op) list \<Rightarrow> (string \<Rightarrow> (instant \<times> 'i) list) \<Rightarrow> bool list" where
  "reference_run source item alarming cutoff [] kept = []"
| "reference_run source item alarming cutoff ((now, Event e) # ops) kept =
     (let all = kept (source e) @ [(now, item e)];
          fired = alarming (recent (cutoff now) all)
      in fired # reference_run source item alarming cutoff ops
                   (kept(source e := if fired then [] else all)))"
| "reference_run source item alarming cutoff ((now, Silent oper) # ops) kept =
     reference_run source item alarming cutoff ops kept"

text \<open>A clock that never runs backwards.\<close>

fun clocked :: "instant \<Rightarrow> (instant \<times> 'x) list \<Rightarrow> bool" where
  "clocked t [] \<longleftrightarrow> True"
| "clocked t ((now, x) # ops) \<longleftrightarrow> t \<le> now \<and> clocked now ops"

lemma clocked_map: "clocked t (map (map_prod id f) ops) \<longleftrightarrow> clocked t ops"
  by (induction t ops rule: clocked.induct) auto

section \<open>The interface\<close>

locale window_detector =
  fixes observe :: "instant \<Rightarrow> 'e \<Rightarrow> 's \<Rightarrow> bool \<times> 's"
    and silent :: "instant \<Rightarrow> 'o \<Rightarrow> 's \<Rightarrow> 's"
    and source :: "'e \<Rightarrow> string"
    and item :: "'e \<Rightarrow> 'i"
    and queue :: "'s \<Rightarrow> string \<Rightarrow> (instant \<times> 'i) list"
    and alarming :: "(instant \<times> 'i) list \<Rightarrow> bool"
    and cutoff :: "instant \<Rightarrow> instant"
    and good :: "nat \<Rightarrow> instant \<Rightarrow> 's \<Rightarrow> bool"
    and bound :: nat
  assumes cutoff_mono: "0 \<le> t \<Longrightarrow> t \<le> t' \<Longrightarrow> cutoff t \<le> cutoff t'"
    and cutoff_le: "good n t st \<Longrightarrow> cutoff now \<le> now"
    and good_arrived: "good n t st \<Longrightarrow> arrived_by t (queue st k)"
    and good_observe: "good n t st \<Longrightarrow> 0 \<le> t \<Longrightarrow> t \<le> now \<Longrightarrow> n < bound \<Longrightarrow>
        good (Suc n) now (snd (observe now e st))"
    and good_silent: "good n t st \<Longrightarrow> 0 \<le> t \<Longrightarrow> t \<le> now \<Longrightarrow> good n now (silent now oper st)"
    and alarm: "good n t st \<Longrightarrow> 0 \<le> t \<Longrightarrow> t \<le> now \<Longrightarrow> n < bound \<Longrightarrow>
        fst (observe now e st) \<longleftrightarrow>
          alarming (recent (cutoff now) (queue st (source e)) @ [(now, item e)])"
    and queue_observe: "good n t st \<Longrightarrow> 0 \<le> t \<Longrightarrow> t \<le> now \<Longrightarrow> n < bound \<Longrightarrow>
        queue (snd (observe now e st)) k =
          (if k \<noteq> source e then queue st k
           else if alarming (recent (cutoff now) (queue st k) @ [(now, item e)]) then []
           else recent (cutoff now) (queue st k) @ [(now, item e)])"
    and queue_silent: "good n t st \<Longrightarrow> 0 \<le> t \<Longrightarrow> t \<le> now \<Longrightarrow>
        queue (silent now oper st) k = queue st k \<or>
        queue (silent now oper st) k = recent (cutoff now) (queue st k)"
begin

definition agrees :: "instant \<Rightarrow> 's \<Rightarrow> (string \<Rightarrow> (instant \<times> 'i) list) \<Rightarrow> bool" where
  "agrees t st kept \<longleftrightarrow>
     (\<forall>k c. cutoff t \<le> c \<longrightarrow> recent c (queue st k) = recent c (kept k))"

lemma agrees_later: "agrees t st kept \<Longrightarrow> 0 \<le> t \<Longrightarrow> t \<le> now \<Longrightarrow> agrees now st kept"
  unfolding agrees_def using cutoff_mono order_trans by blast

lemma agrees_silent:
  assumes "agrees t st kept" and "good n t st" and "0 \<le> t" and "t \<le> now"
  shows "agrees now (silent now oper st) kept"
  unfolding agrees_def
proof (intro allI impI)
  fix k c assume c: "cutoff now \<le> c"
  from agrees_later [OF assms(1,3,4)] c have "recent c (queue st k) = recent c (kept k)"
    by (simp add: agrees_def)
  with queue_silent [OF assms(2-4), of oper k] c
  show "recent c (queue (silent now oper st) k) = recent c (kept k)"
    by (auto simp: recent_recent)
qed

lemma observe_reference:
  fixes e :: 'e
  assumes "agrees t st kept" and "good n t st" and "0 \<le> t" and "t \<le> now" and "n < bound"
  defines "all \<equiv> kept (source e) @ [(now, item e)]"
  shows "fst (observe now e st) \<longleftrightarrow> alarming (recent (cutoff now) all)"
    and "agrees now (snd (observe now e st))
      (kept(source e := if alarming (recent (cutoff now) all) then [] else all))"
proof -
  note later = agrees_later [OF assms(1,3,4)]
  have cut: "cutoff now \<le> now" using cutoff_le [OF assms(2)] .
  have q: "recent (cutoff now) (queue st (source e)) @ [(now, item e)] = recent (cutoff now) all"
    using later cut by (simp add: agrees_def all_def recent_append) (simp add: recent_def)
  with alarm [OF assms(2-5)] show "fst (observe now e st) \<longleftrightarrow> alarming (recent (cutoff now) all)"
    by simp
  show "agrees now (snd (observe now e st))
      (kept(source e := if alarming (recent (cutoff now) all) then [] else all))"
    using queue_observe [OF assms(2-5)] q later
    by (auto simp: agrees_def recent_recent)
qed

text \<open>Raising alarms on the bounded queues loses nothing.\<close>

theorem run_reference:
  assumes "clocked t ops" and "0 \<le> t" and "good n t st" and "agrees t st kept"
    and "n + length ops \<le> bound"
  shows "detector_run observe silent ops st = reference_run source item alarming cutoff ops kept"
  using assms
proof (induction ops arbitrary: t n st kept)
  case Nil
  then show ?case by simp
next
  case (Cons op ops)
  obtain now x where op: "op = (now, x)" by fastforce
  show ?case
  proof (cases x)
    case (Event e)
    have pre: "t \<le> now" "clocked now ops" "0 \<le> now" "n < bound" "Suc n + length ops \<le> bound"
      using Cons.prems op by auto
    note obs = observe_reference [OF Cons.prems(4,3,2) pre(1,4), of e]
    have "detector_run observe silent ops (snd (observe now e st)) =
        reference_run source item alarming cutoff ops
        (kept(source e := if alarming (recent (cutoff now) (kept (source e) @ [(now, item e)])) then []
          else kept (source e) @ [(now, item e)]))"
      using Cons.IH [OF pre(2,3) good_observe [OF Cons.prems(3,2) pre(1,4)] obs(2) pre(5)] .
    with obs(1) show ?thesis
      by (cases "observe now e st") (auto simp: op Event Let_def)
  next
    case (Silent oper)
    have pre: "t \<le> now" "clocked now ops" "0 \<le> now" "n + length ops \<le> bound"
      using Cons.prems op by auto
    from Cons.IH [OF pre(2,3) good_silent [OF Cons.prems(3,2) pre(1)]
        agrees_silent [OF Cons.prems(4,3,2) pre(1)] pre(4)]
    show ?thesis by (simp add: op Silent)
  qed
qed

end

end
