(* ===== verification/Ssh_Detector.thy ===== *)
theory Ssh_Detector
  imports Sliding_Window
begin

text \<open>
  The brute-force detector of the agent (\<open>crates/agent/src/security/ssh_detector.rs\<close>) with the
  attempts the log parser produces (\<open>ssh_parser.rs\<close>) and the evidence it reports
  (\<open>crates/common/src/security.rs\<close>).  The instant of the clock is an argument.
\<close>

datatype auth_method_hint = HintPublickey | HintPassword | HintKeyboardInteractive | HintOther

datatype auth_outcome = Success auth_method_hint | Failure bool

record auth_attempt =
  aa_outcome :: auth_outcome
  aa_username :: string
  aa_source_ip :: string
  aa_source_port :: "u16 option"

datatype severity = Info | Low | Medium | High | Critical

datatype ssh_auth_method = Publickey | Password | KeyboardInteractive | OtherMethod

record brute_force_evidence =
  bf_failed_count :: u32
  bf_distinct_users :: u32
  bf_sample_users :: "string list"
  bf_invalid_user_count :: u32
  bf_window_seconds :: u32
  bf_threshold :: u32

datatype detector_emit =
    NoEmit
  | BruteForce string severity brute_force_evidence instant instant
  | Login string string "u16 option" ssh_auth_method

record ssh_detector =
  sd_window :: int
  sd_threshold :: u32
  sd_per_ip :: "(string, (instant \<times> auth_attempt) list) table"

definition ssh_new :: "int \<Rightarrow> u32 \<Rightarrow> ssh_detector" where
  "ssh_new window threshold = \<lparr>sd_window = window, sd_threshold = threshold, sd_per_ip = []\<rparr>"

fun auth_method_to_common :: "auth_method_hint \<Rightarrow> ssh_auth_method" where
  "auth_method_to_common HintPublickey = Publickey"
| "auth_method_to_common HintPassword = Password"
| "auth_method_to_common HintKeyboardInteractive = KeyboardInteractive"
| "auth_method_to_common HintOther = OtherMethod"

definition ssh_sweep :: "instant \<Rightarrow> ssh_detector \<Rightarrow> ssh_detector" where
  "ssh_sweep now d =
     (let cutoff = window_cutoff now (sd_window d);
          expired = map (\<lambda>(ip, q). (ip, expire_front cutoff q)) (sd_per_ip d)
      in d\<lparr>sd_per_ip := tretain (\<lambda>ip q. q \<noteq> []) expired\<rparr>)"

text \<open>The distinct names in order of first appearance, until there are \<open>limit\<close> of them.\<close>

fun sample_distinct :: "nat \<Rightarrow> 'a list \<Rightarrow> 'a list \<Rightarrow> 'a list" where
  "sample_distinct limit [] sample = sample"
| "sample_distinct limit (x # xs) sample =
     (if x \<in> set sample then sample_distinct limit xs sample
      else
        let sample = sample @ [x]
        in if limit \<le> length sample then sample else sample_distinct limit xs sample)"

definition severity_of :: "u32 \<Rightarrow> severity" where
  "severity_of distinct_users =
     (if distinct_users = 0 \<or> distinct_users = 1 then Medium
      else if 2 \<le> distinct_users \<and> distinct_users \<le> 4 then High
      else Critical)"

definition brute_force_evidence_of ::
  "ssh_detector \<Rightarrow> auth_attempt list \<Rightarrow> brute_force_evidence" where
  "brute_force_evidence_of d attempts =
     \<lparr>bf_failed_count = of_nat (length attempts),
      bf_distinct_users = of_nat (length (remdups (map aa_username attempts))),
      bf_sample_users = sample_distinct 5 (map aa_username attempts) [],
      bf_invalid_user_count =
        of_nat (length (filter (\<lambda>a. aa_outcome a = Failure True) attempts)),
      bf_window_seconds = word_of_int (as_secs (sd_window d)),
      bf_threshold = sd_threshold d\<rparr>"

definition observe_failure ::
  "instant \<Rightarrow> auth_attempt \<Rightarrow> ssh_detector \<Rightarrow> detector_emit \<times> ssh_detector" where
  "observe_failure now attempt d =
     (let cutoff = window_cutoff now (sd_window d);
          ip = aa_source_ip attempt;
          entry = (case tget (sd_per_ip d) ip of Some q \<Rightarrow> q | None \<Rightarrow> []);
          entry = expire_front cutoff entry @ [(now, attempt)]
      in if sd_threshold d \<le> of_nat (length entry)
         then
           let evidence = brute_force_evidence_of d (map snd entry);
               started_at = (case entry of (t, _) # _ \<Rightarrow> t | [] \<Rightarrow> now)
           in (BruteForce ip (severity_of (bf_distinct_users evidence)) evidence started_at now,
               d\<lparr>sd_per_ip := tput ip [] (sd_per_ip d)\<rparr>)
         else (NoEmit, d\<lparr>sd_per_ip := tput ip entry (sd_per_ip d)\<rparr>))"

definition ssh_observe ::
  "instant \<Rightarrow> auth_attempt \<Rightarrow> ssh_detector \<Rightarrow> detector_emit \<times> ssh_detector" where
  "ssh_observe now attempt d =
     (case aa_outcome attempt of
        Success auth_method \<Rightarrow>
          (Login (aa_username attempt) (aa_source_ip attempt) (aa_source_port attempt)
             (auth_method_to_common auth_method), d)
      | Failure _ \<Rightarrow> observe_failure now attempt d)"

section \<open>The detector as a window detector\<close>

text \<open>Alarms of failures; sweeps and successful logins are silent.\<close>

datatype ssh_silent = SshSweep | SshLogin auth_attempt

definition is_brute_force :: "detector_emit \<Rightarrow> bool" where
  "is_brute_force e = (case e of BruteForce _ _ _ _ _ \<Rightarrow> True | _ \<Rightarrow> False)"

definition ssh_alarm :: "instant \<Rightarrow> auth_attempt \<Rightarrow> ssh_detector \<Rightarrow> bool \<times> ssh_detector" where
  "ssh_alarm now attempt d =
     (let (emit, d) = observe_failure now attempt d in (is_brute_force emit, d))"

fun ssh_silent_step :: "instant \<Rightarrow> ssh_silent \<Rightarrow> ssh_detector \<Rightarrow> ssh_detector" where
  "ssh_silent_step now SshSweep d = ssh_sweep now d"
| "ssh_silent_step now (SshLogin attempt) d =
     (case aa_outcome attempt of Success _ \<Rightarrow> snd (ssh_observe now attempt d) | Failure _ \<Rightarrow> d)"

definition ssh_queue :: "ssh_detector \<Rightarrow> string \<Rightarrow> (instant \<times> auth_attempt) list" where
  "ssh_queue d ip = (case tget (sd_per_ip d) ip of Some q \<Rightarrow> q | None \<Rightarrow> [])"

definition ssh_alarming :: "u32 \<Rightarrow> (instant \<times> auth_attempt) list \<Rightarrow> bool" where
  "ssh_alarming threshold q \<longleftrightarrow> unat threshold \<le> length q"

definition ssh_good :: "int \<Rightarrow> u32 \<Rightarrow> nat \<Rightarrow> instant \<Rightarrow> ssh_detector \<Rightarrow> bool" where
  "ssh_good window threshold n t d \<longleftrightarrow>
     sd_window d = window \<and> sd_threshold d = threshold \<and> table_ok (sd_per_ip d) \<and>
     (\<forall>ip. arrived_by t (ssh_queue d ip) \<and> length (ssh_queue d ip) \<le> n)"

text \<open>The windows an agent can be configured with reach back less than the clock's range.\<close>

definition window_ok :: "int \<Rightarrow> bool" where
  "window_ok w \<longleftrightarrow> 0 \<le> w \<and> w \<le> 2 ^ 63 * nanos_per_sec"

lemma window_cutoff_ok: "window_ok w \<Longrightarrow> 0 \<le> t \<Longrightarrow> window_cutoff t w = t - w"
  by (simp add: window_ok_def window_cutoff_regular)

lemma ssh_queue_sweep:
  "ssh_good w th n t d \<Longrightarrow> ssh_queue (ssh_sweep now d) ip = recent (window_cutoff now w) (ssh_queue d ip)"
  using arrived_by_expire [of t "ssh_queue d ip" "window_cutoff now w"]
  by (auto simp: ssh_good_def ssh_sweep_def ssh_queue_def Let_def table_simps tget_map_values
      recent_def split: option.splits)

lemma ssh_good_recent: "ssh_good w th n t d \<Longrightarrow> length (recent c (ssh_queue d ip)) \<le> n"
  by (rule order_trans [OF length_recent]) (simp add: ssh_good_def)

lemma ssh_good_later: "ssh_good w th n t d \<Longrightarrow> t \<le> now \<Longrightarrow> ssh_good w th n now d"
  unfolding ssh_good_def using arrived_by_mono by blast

lemma ssh_good_sweep:
  assumes "ssh_good w th n t d" and "t \<le> now"
  shows "ssh_good w th n now (ssh_sweep now d)"
proof -
  note ssh_good_recent [OF assms(1)]
  moreover have "arrived_by now (recent c (ssh_queue d ip))" for c ip
    using assms by (intro arrived_by_recent_later) (auto simp: ssh_good_def)
  moreover have "sd_window (ssh_sweep now d) = w" "sd_threshold (ssh_sweep now d) = th"
    "table_ok (sd_per_ip (ssh_sweep now d))"
    using assms(1) by (auto simp: ssh_good_def ssh_sweep_def Let_def)
  ultimately show ?thesis
    using ssh_queue_sweep [OF assms(1)] by (simp add: ssh_good_def)
qed

lemma ssh_alarm_effect:
  fixes a :: auth_attempt
  assumes "ssh_good w th n t d" and "t \<le> now" and "n < 2 ^ 32 - 1"
  defines "q \<equiv> recent (window_cutoff now w) (ssh_queue d (aa_source_ip a)) @ [(now, a)]"
  shows "ssh_alarm now a d =
    (ssh_alarming th q,
     d\<lparr>sd_per_ip := tput (aa_source_ip a) (if ssh_alarming th q then [] else q) (sd_per_ip d)\<rparr>)"
proof -
  let ?q = "ssh_queue d (aa_source_ip a)"
  have len: "length q < 2 ^ 32"
    using ssh_good_recent [OF assms(1), of "window_cutoff now w" "aa_source_ip a"] assms(3)
    by (simp add: q_def)
  have "(th \<le> of_nat (length q)) = (unat th \<le> length q)"
    using len by (simp add: word_le_nat_alt unat_of_nat take_bit_nat_eq_self)
  moreover have "expire_front (window_cutoff now w) ?q @ [(now, a)] = q"
    using assms(1) arrived_by_expire [of t ?q] by (auto simp: ssh_good_def q_def)
  ultimately show ?thesis
    using assms(1)
    by (simp add: ssh_alarm_def observe_failure_def ssh_queue_def [symmetric] ssh_alarming_def
        is_brute_force_def ssh_good_def Let_def del: length_append of_nat_add)
qed

interpretation ssh: window_detector ssh_alarm ssh_silent_step aa_source_ip "\<lambda>a. a" ssh_queue
  "ssh_alarming th" "\<lambda>now. now - w" "\<lambda>n t d. window_ok w \<and> ssh_good w th n t d" "2 ^ 32 - 1"
  for w th
proof
  fix n t now and d :: ssh_detector and a :: auth_attempt and k and oper :: ssh_silent
  assume g: "window_ok w \<and> ssh_good w th n t d" and t: "0 \<le> t" "t \<le> now"
  have cut: "window_cutoff now w = now - w"
    using g t by (simp add: window_cutoff_ok)
  show "window_ok w \<and> ssh_good w th n now (ssh_silent_step now oper d)"
    using g t(2) ssh_good_sweep ssh_good_later
    by (cases oper) (auto simp: ssh_observe_def split: auth_outcome.split)
  show "ssh_queue (ssh_silent_step now oper d) k = ssh_queue d k \<or>
      ssh_queue (ssh_silent_step now oper d) k = recent (now - w) (ssh_queue d k)"
    using g cut ssh_queue_sweep [of w th n t d now k]
    by (cases oper) (auto simp: ssh_observe_def split: auth_outcome.split)
  assume n: "n < 2 ^ 32 - (1::nat)"
  note eff = ssh_alarm_effect [OF conjunct2 [OF g] t(2) n, of a, unfolded cut]
  show "fst (ssh_alarm now a d) =
      ssh_alarming th (recent (now - w) (ssh_queue d (aa_source_ip a)) @ [(now, a)])"
    by (simp add: eff)
  show q: "ssh_queue (snd (ssh_alarm now a d)) k =
      (if k \<noteq> aa_source_ip a then ssh_queue d k
       else if ssh_alarming th (recent (now - w) (ssh_queue d k) @ [(now, a)]) then []
       else recent (now - w) (ssh_queue d k) @ [(now, a)])"
    by (simp add: eff ssh_queue_def table_simps)
  note ssh_good_recent [OF conjunct2 [OF g]]
  moreover have "arrived_by now (recent (now - w) (ssh_queue d ip) @ [(now, a)])"
    "arrived_by now (ssh_queue d ip)" "length (ssh_queue d ip) \<le> Suc n" for ip
    using g t(2) by (auto simp: ssh_good_def le_SucI intro: arrived_by_recent_snoc arrived_by_mono)
  moreover have "ssh_queue (snd (ssh_alarm now a d)) ip =
      (if ip \<noteq> aa_source_ip a then ssh_queue d ip
       else if ssh_alarming th (recent (now - w) (ssh_queue d ip) @ [(now, a)]) then []
       else recent (now - w) (ssh_queue d ip) @ [(now, a)])" for ip
    by (simp add: eff ssh_queue_def table_simps)
  ultimately show "window_ok w \<and> ssh_good w th (Suc n) now (snd (ssh_alarm now a d))"
    using g by (simp add: ssh_good_def) (simp add: eff)
next
  fix n t k and d :: ssh_detector
  assume "window_ok w \<and> ssh_good w th n t d"
  then show "arrived_by t (ssh_queue d k)" by (simp add: ssh_good_def)
next
  fix n t now and d :: ssh_detector
  assume "window_ok w \<and> ssh_good w th n t d"
  then show "now - w \<le> now" by (simp add: window_ok_def)
qed simp

section \<open>The sample in the evidence\<close>

lemma sample_distinct_spec:
  assumes "distinct sample" and "length sample < limit"
  shows "distinct (sample_distinct limit xs sample) \<and>
    set (sample_distinct limit xs sample) \<subseteq> set sample \<union> set xs \<and>
    length (sample_distinct limit xs sample) = min limit (card (set sample \<union> set xs))"
  using assms
proof (induction xs arbitrary: sample)
  case Nil
  then show ?case by (simp add: distinct_card)
next
  case (Cons x xs)
  show ?case
  proof (cases "x \<in> set sample")
    case True
    with Cons show ?thesis by (simp add: insert_absorb)
  next
    case new: False
    show ?thesis
    proof (cases "limit \<le> length (sample @ [x])")
      case True
      with Cons.prems new have "limit = Suc (length sample)" "card (insert x (set sample)) = limit"
        by (auto simp: distinct_card)
      moreover have "card (insert x (set sample)) \<le> card (set sample \<union> set (x # xs))"
        by (rule card_mono) auto
      ultimately show ?thesis using Cons.prems new by auto
    next
      case False
      with Cons.IH [of "sample @ [x]"] Cons.prems new show ?thesis by auto
    qed
  qed
qed

text \<open>The severity is graded by the number of distinct names, which the counter holds exactly.\<close>

lemma severity_by_users:
  "n < 2 ^ 32 \<Longrightarrow>
   severity_of (of_nat n) = (if n \<le> 1 then Medium else if n \<le> 4 then High else Critical)"
  by (auto simp: severity_of_def word_le_nat_alt word_unat_eq_iff unat_of_nat take_bit_nat_eq_self)

section \<open>Every alarm, and no other\<close>

text \<open>What the log feeds the detector, and its periodic sweep.\<close>

datatype ssh_input = Attempt auth_attempt | Sweep

fun ssh_run :: "(instant \<times> ssh_input) list \<Rightarrow> ssh_detector \<Rightarrow> detector_emit list" where
  "ssh_run [] d = []"
| "ssh_run ((now, Attempt a) # ops) d = (let (e, d) = ssh_observe now a d in e # ssh_run ops d)"
| "ssh_run ((now, Sweep) # ops) d = ssh_run ops (ssh_sweep now d)"

text \<open>The specification on the plain history of failures since the source's last alarm.\<close>

fun brute_force_spec ::
  "int \<Rightarrow> u32 \<Rightarrow> (instant \<times> ssh_input) list \<Rightarrow> (string \<Rightarrow> (instant \<times> auth_attempt) list) \<Rightarrow> bool list" where
  "brute_force_spec w th [] failures = []"
| "brute_force_spec w th ((now, Attempt a) # ops) failures =
     (case aa_outcome a of
        Success _ \<Rightarrow> False # brute_force_spec w th ops failures
      | Failure _ \<Rightarrow>
          let ip = aa_source_ip a;
              all = failures ip @ [(now, a)];
              alarm = unat th \<le> length (filter (\<lambda>(ts, _). now - w \<le> ts) all)
          in alarm # brute_force_spec w th ops (failures(ip := if alarm then [] else all)))"
| "brute_force_spec w th ((now, Sweep) # ops) failures = brute_force_spec w th ops failures"

fun window_op :: "ssh_input \<Rightarrow> (auth_attempt, ssh_silent) detector_op" where
  "window_op (Attempt a) =
     (case aa_outcome a of Success _ \<Rightarrow> Silent (SshLogin a) | Failure _ \<Rightarrow> Event a)"
| "window_op Sweep = Silent SshSweep"

text \<open>The answers of a run with the logins, which never alarm, put back in.\<close>

fun with_logins :: "(instant \<times> ssh_input) list \<Rightarrow> bool list \<Rightarrow> bool list" where
  "with_logins ((now, Attempt a) # ops) bs =
     (case aa_outcome a of
        Success _ \<Rightarrow> False # with_logins ops bs
      | Failure _ \<Rightarrow> hd bs # with_logins ops (tl bs))"
| "with_logins ((now, Sweep) # ops) bs = with_logins ops bs"
| "with_logins [] bs = []"

lemma ssh_run_window:
  "map is_brute_force (ssh_run ops d) =
     with_logins ops (detector_run ssh_alarm ssh_silent_step (map (map_prod id window_op) ops) d)"
  by (induction ops d rule: ssh_run.induct)
    (auto simp: ssh_observe_def ssh_alarm_def is_brute_force_def split: auth_outcome.splits prod.splits)

lemma brute_force_spec_window:
  "brute_force_spec w th ops failures =
     with_logins ops (reference_run aa_source_ip (\<lambda>a. a) (ssh_alarming th) (\<lambda>now. now - w)
       (map (map_prod id window_op) ops) failures)"
proof (induction ops arbitrary: failures)
  case Nil
  then show ?case by simp
next
  case (Cons op ops)
  obtain now x where op: "op = (now, x)" by fastforce
  show ?case
  proof (cases x)
    case (Attempt a)
    show ?thesis
      by (cases "aa_outcome a")
        (simp_all add: op Attempt Let_def Cons.IH ssh_alarming_def recent_def fun_upd_def
          del: filter_append)
  next
    case Sweep
    then show ?thesis by (simp add: op Cons.IH)
  qed
qed

text \<open>
  Claim C32: the brute-force detector raises every alarm and no other.  For any sequence of log
  lines and sweeps with a clock that does not run backwards, the detector that forgets expired
  attempts and idle addresses answers exactly like the specification that keeps the whole
  history: a failed attempt raises an alarm iff, counting it, its source made at least
  \<open>threshold\<close> failed attempts within the window since the source's last alarm; a successful
  login never does.
\<close>

theorem brute_force_alarms_exact:
  assumes "window_ok w" and "clocked 0 ops" and "length ops < 2 ^ 32"
  shows "map is_brute_force (ssh_run ops (ssh_new w th)) = brute_force_spec w th ops (\<lambda>_. [])"
proof -
  have good: "window_ok w \<and> ssh_good w th 0 0 (ssh_new w th)"
    using assms(1) by (simp add: ssh_good_def ssh_new_def ssh_queue_def)
  have "ssh.agrees w 0 (ssh_new w th) (\<lambda>_. [])"
    by (simp add: ssh.agrees_def ssh_new_def ssh_queue_def)
  from ssh.run_reference [OF _ _ good this, of "map (map_prod id window_op) ops"] assms(2,3)
  have "detector_run ssh_alarm ssh_silent_step (map (map_prod id window_op) ops) (ssh_new w th) =
      reference_run aa_source_ip (\<lambda>a. a) (ssh_alarming th) (\<lambda>now. now - w)
        (map (map_prod id window_op) ops) (\<lambda>_. [])"
    by (simp add: clocked_map)
  then show ?thesis by (simp add: ssh_run_window brute_force_spec_window)
qed

definition demo_attempt :: "string \<Rightarrow> auth_attempt" where
  "demo_attempt user = \<lparr>aa_outcome = Failure False, aa_username = user,
     aa_source_ip = ''198.51.100.7'', aa_source_port = None\<rparr>"

theorem brute_force_alarms_exact_witness:
  "map is_brute_force (ssh_run [(seconds 1, Attempt (demo_attempt ''root'')), (seconds 30, Sweep),
      (seconds 70, Attempt (demo_attempt ''root'')), (seconds 71, Attempt (demo_attempt ''admin''))]
      (ssh_new (seconds 60) 2)) = [False, False, True]"
proof -
  let ?ops = "[(seconds 1, Attempt (demo_attempt ''root'')), (seconds 30, Sweep),
      (seconds 70, Attempt (demo_attempt ''root'')), (seconds 71, Attempt (demo_attempt ''admin''))]"
  have "brute_force_spec (seconds 60) 2 ?ops (\<lambda>_. []) = [False, False, True]" by code_simp
  with brute_force_alarms_exact [of "seconds 60" ?ops 2] show ?thesis
    by (simp add: window_ok_def)
qed

end
