(* ===== verification/Scan_Detector.thy ===== *)
theory Scan_Detector
  imports Sliding_Window
begin

text \<open>
  The port-scan detector of the agent (\<open>crates/agent/src/security/scan_detector.rs\<close>): per source
  address the recent connection attempts, and beside them running counters (attempts per port,
  total, blocked) that answer "how many distinct ports" without walking the queue.
\<close>

record scan_state =
  ss_events :: "(instant \<times> u16) list"
  ss_port_counts :: "(u16, u32) table"
  ss_total :: u32
  ss_blocked :: u32
  ss_window_started_at :: "instant option"

record scan_evidence =
  se_distinct_ports :: u32
  se_sample_ports :: "u16 list"
  se_total_attempts :: u32
  se_window_seconds :: u32
  se_threshold :: u32
  se_blocked_count :: u32

datatype scan_emit = NoScan | PortScan string scan_evidence instant instant

record scan_detector =
  sc_window :: int
  sc_threshold :: u32
  sc_per_ip :: "(string, scan_state) table"

definition scan_state_new :: "instant \<Rightarrow> scan_state" where
  "scan_state_new now =
     \<lparr>ss_events = [], ss_port_counts = [], ss_total = 0, ss_blocked = 0,
      ss_window_started_at = Some now\<rparr>"

definition scan_new :: "int \<Rightarrow> u32 \<Rightarrow> scan_detector" where
  "scan_new window threshold = \<lparr>sc_window = window, sc_threshold = threshold, sc_per_ip = []\<rparr>"

text \<open>Taking one attempt out of the counters.\<close>

definition uncount :: "u16 \<Rightarrow> (u16, u32) table \<Rightarrow> (u16, u32) table" where
  "uncount port counts =
     (case tget counts port of
        None \<Rightarrow> counts
      | Some c \<Rightarrow> if c - 1 = 0 then tdel port counts else tput port (c - 1) counts)"

fun expire_events ::
  "instant \<Rightarrow> (instant \<times> u16) list \<Rightarrow> (u16, u32) table \<Rightarrow> u32 \<Rightarrow>
   (instant \<times> u16) list \<times> (u16, u32) table \<times> u32" where
  "expire_events cutoff [] counts tot = ([], counts, tot)"
| "expire_events cutoff ((ts, port) # q) counts tot =
     (if ts < cutoff then expire_events cutoff q (uncount port counts) (saturating_sub tot 1)
      else ((ts, port) # q, counts, tot))"

definition expire_head :: "instant \<Rightarrow> scan_state \<Rightarrow> scan_state" where
  "expire_head cutoff s =
     (let (events, counts, tot) = expire_events cutoff (ss_events s) (ss_port_counts s) (ss_total s)
      in s\<lparr>ss_events := events, ss_port_counts := counts, ss_total := tot,
           ss_window_started_at := (case events of [] \<Rightarrow> None | (ts, _) # _ \<Rightarrow> Some ts)\<rparr>)"

definition push_attempt :: "instant \<Rightarrow> u16 \<Rightarrow> scan_state \<Rightarrow> scan_state" where
  "push_attempt now port s =
     (let count = (case tget (ss_port_counts s) port of Some c \<Rightarrow> c | None \<Rightarrow> 0)
      in s\<lparr>ss_events := ss_events s @ [(now, port)],
           ss_port_counts := tput port (count + 1) (ss_port_counts s),
           ss_total := ss_total s + 1,
           ss_window_started_at := (case ss_window_started_at s of None \<Rightarrow> Some now | t \<Rightarrow> t)\<rparr>)"

text \<open>The distinct ports in order of first appearance, until there are 20.\<close>

fun sample_ports :: "u16 list \<Rightarrow> u16 list \<Rightarrow> u16 list" where
  "sample_ports [] sample = sample"
| "sample_ports (p # ps) sample =
     (if p \<in> set sample then sample_ports ps sample
      else
        let sample = sample @ [p]
        in if 20 \<le> length sample then sample else sample_ports ps sample)"

definition scan_evidence_of :: "scan_detector \<Rightarrow> scan_state \<Rightarrow> scan_evidence" where
  "scan_evidence_of d s =
     \<lparr>se_distinct_ports = of_nat (length (ss_port_counts s)),
      se_sample_ports = sample_ports (map snd (ss_events s)) [],
      se_total_attempts = ss_total s,
      se_window_seconds = word_of_int (as_secs (sc_window d)),
      se_threshold = sc_threshold d,
      se_blocked_count = ss_blocked s\<rparr>"

definition state_of :: "instant \<Rightarrow> string \<Rightarrow> scan_detector \<Rightarrow> scan_state" where
  "state_of now ip d = (case tget (sc_per_ip d) ip of Some s \<Rightarrow> s | None \<Rightarrow> scan_state_new now)"

definition scan_observe ::
  "instant \<Rightarrow> string \<times> u16 \<Rightarrow> scan_detector \<Rightarrow> scan_emit \<times> scan_detector" where
  "scan_observe now ev d =
     (let (source_ip, dst_port) = ev;
          cutoff = window_cutoff now (sc_window d);
          s = push_attempt now dst_port (expire_head cutoff (state_of now source_ip d))
      in if sc_threshold d \<le> of_nat (length (ss_port_counts s))
         then
           (PortScan source_ip (scan_evidence_of d s)
              (case ss_window_started_at s of Some t \<Rightarrow> t | None \<Rightarrow> now) now,
            d\<lparr>sc_per_ip := tput source_ip
               (s\<lparr>ss_events := [], ss_port_counts := [], ss_total := 0, ss_blocked := 0,
                  ss_window_started_at := None\<rparr>) (sc_per_ip d)\<rparr>)
         else (NoScan, d\<lparr>sc_per_ip := tput source_ip s (sc_per_ip d)\<rparr>))"

definition record_blocked :: "instant \<Rightarrow> string \<Rightarrow> scan_detector \<Rightarrow> scan_detector" where
  "record_blocked now source_ip d =
     (let s = state_of now source_ip d
      in d\<lparr>sc_per_ip := tput source_ip (s\<lparr>ss_blocked := saturating_add (ss_blocked s) 1\<rparr>)
            (sc_per_ip d)\<rparr>)"

definition scan_sweep :: "instant \<Rightarrow> scan_detector \<Rightarrow> scan_detector" where
  "scan_sweep now d =
     (let cutoff = window_cutoff now (sc_window d);
          expired = map (\<lambda>(ip, s). (ip, expire_head cutoff s)) (sc_per_ip d)
      in d\<lparr>sc_per_ip := tretain (\<lambda>ip s. ss_events s \<noteq> [] \<or> 0 < ss_blocked s) expired\<rparr>)"

section \<open>The counters are exact\<close>

definition count_of :: "u16 \<Rightarrow> (instant \<times> u16) list \<Rightarrow> nat" where
  "count_of p q = count_list (map snd q) p"

definition counters_ok :: "(instant \<times> u16) list \<Rightarrow> (u16, u32) table \<Rightarrow> u32 \<Rightarrow> bool" where
  "counters_ok q counts tot \<longleftrightarrow>
     table_ok counts \<and> length q < 2 ^ 32 \<and> tot = of_nat (length q) \<and>
     (\<forall>p. tget counts p = (if count_of p q = 0 then None else Some (of_nat (count_of p q))))"

lemma count_of_le: "count_of p q \<le> length q"
  unfolding count_of_def using count_le_length [of "map snd q" p] by simp

lemma unat_small: "n < 2 ^ 32 \<Longrightarrow> unat (of_nat n :: u32) = n"
  by (simp add: unat_of_nat take_bit_nat_eq_self)

lemma of_nat_pred: "0 < n \<Longrightarrow> (of_nat n :: u32) - 1 = of_nat (n - 1)"
  by (cases n) auto

lemma of_nat_zero: "n < 2 ^ 32 \<Longrightarrow> (of_nat n :: u32) = 0 \<longleftrightarrow> n = 0"
  using unat_small [of n] by (auto simp flip: unat_eq_0)

lemma counters_uncount:
  assumes "counters_ok ((ts, p) # q) counts tot"
  shows "counters_ok q (uncount p counts) (saturating_sub tot 1)"
proof -
  have c: "count_of p ((ts, p) # q) = Suc (count_of p q)" "p' \<noteq> p \<Longrightarrow> count_of p' ((ts, p) # q) = count_of p' q"
    for p' by (auto simp: count_of_def)
  from assms c(1) have get: "tget counts p = Some (of_nat (Suc (count_of p q)))"
    by (simp add: counters_ok_def del: of_nat_Suc)
  have small: "count_of p q < 2 ^ 32" "length q < 2 ^ 32"
    using count_of_le [of p q] assms by (auto simp: counters_ok_def)
  have dec: "of_nat (Suc (count_of p q)) - 1 = (of_nat (count_of p q) :: u32)" by simp
  have "uncount p counts =
      (if count_of p q = 0 then tdel p counts else tput p (of_nat (count_of p q)) counts)"
    by (simp only: uncount_def get option.case dec of_nat_zero [OF small(1)])
  moreover have "saturating_sub tot 1 = of_nat (length q)"
    using assms unat_small [of "Suc (length q)"]
    by (auto simp: counters_ok_def saturating_sub_def word_le_nat_alt)
  ultimately show ?thesis
    using assms c small by (auto simp: counters_ok_def table_simps)
qed

lemma expire_events_spec:
  assumes "counters_ok q counts tot" and "arrived_by t q"
  shows "\<exists>counts' tot'. expire_events c q counts tot = (recent c q, counts', tot') \<and>
    counters_ok (recent c q) counts' tot'"
  using assms
proof (induction c q counts tot rule: expire_events.induct)
  case (1 c counts tot)
  then show ?case by (simp add: recent_def)
next
  case (2 c ts p q counts tot)
  have rest: "arrived_by t q" using 2(3) by (auto simp: arrived_by_def)
  show ?case
  proof (cases "ts < c")
    case True
    with "2.IH" [OF True counters_uncount [OF "2.prems"(1)] rest] show ?thesis
      by (simp add: recent_def)
  next
    case False
    with 2(3) have "recent c ((ts, p) # q) = (ts, p) # q"
      using arrived_by_expire [OF 2(3), of c] by simp
    with False 2(2) show ?thesis by simp
  qed
qed

definition state_ok :: "nat \<Rightarrow> instant \<Rightarrow> scan_state \<Rightarrow> bool" where
  "state_ok n t s \<longleftrightarrow>
     arrived_by t (ss_events s) \<and> length (ss_events s) \<le> n \<and>
     counters_ok (ss_events s) (ss_port_counts s) (ss_total s)"

lemma expire_head_ok:
  assumes "state_ok n t s"
  shows "state_ok n t (expire_head c s) \<and> ss_events (expire_head c s) = recent c (ss_events s) \<and>
    ss_blocked (expire_head c s) = ss_blocked s"
proof -
  from assms have "arrived_by t (ss_events s)"
    "counters_ok (ss_events s) (ss_port_counts s) (ss_total s)" "length (ss_events s) \<le> n"
    by (auto simp: state_ok_def)
  with expire_events_spec [OF this(2,1), of c] length_recent [of c "ss_events s"] show ?thesis
    by (auto simp: expire_head_def state_ok_def intro: arrived_by_recent)
qed

lemma push_attempt_ok:
  assumes "state_ok n t s" and "t \<le> now" and "n < 2 ^ 32 - 1"
  shows "state_ok (Suc n) now (push_attempt now p s) \<and>
    ss_events (push_attempt now p s) = ss_events s @ [(now, p)]"
proof -
  have c: "count_of p' (q @ [(now, p)]) = (if p' = p then Suc (count_of p' q) else count_of p' q)"
    for p' q by (simp add: count_of_def)
  show ?thesis
    using assms c
    by (auto simp: push_attempt_def state_ok_def counters_ok_def Let_def table_simps add.commute
        intro: arrived_by_snoc)
qed

lemma distinct_ports:
  assumes "counters_ok q counts tot"
  shows "length counts = card (snd ` set q)"
proof -
  have "set (keys counts) = snd ` set q"
  proof (intro set_eqI)
    fix p
    have "p \<in> set (keys counts) \<longleftrightarrow> tget counts p \<noteq> None"
      by (simp add: tget_def map_of_eq_None_iff)
    also have "\<dots> \<longleftrightarrow> p \<in> set (map snd q)"
      using assms by (auto simp: counters_ok_def count_of_def count_list_0_iff)
    finally show "p \<in> set (keys counts) \<longleftrightarrow> p \<in> snd ` set q" by simp
  qed
  moreover have "distinct (keys counts)"
    using assms by (simp add: counters_ok_def table_ok_def)
  ultimately show ?thesis using distinct_card [of "keys counts"] by simp
qed

section \<open>The detector as a window detector\<close>

datatype scan_silent = ScanSweep | Blocked string

fun scan_silent_step :: "instant \<Rightarrow> scan_silent \<Rightarrow> scan_detector \<Rightarrow> scan_detector" where
  "scan_silent_step now ScanSweep d = scan_sweep now d"
| "scan_silent_step now (Blocked ip) d = record_blocked now ip d"

definition is_port_scan :: "scan_emit \<Rightarrow> bool" where
  "is_port_scan e = (case e of PortScan _ _ _ _ \<Rightarrow> True | NoScan \<Rightarrow> False)"

definition scan_alarm :: "instant \<Rightarrow> string \<times> u16 \<Rightarrow> scan_detector \<Rightarrow> bool \<times> scan_detector" where
  "scan_alarm now ev d = (let (emit, d) = scan_observe now ev d in (is_port_scan emit, d))"

definition scan_queue :: "scan_detector \<Rightarrow> string \<Rightarrow> (instant \<times> u16) list" where
  "scan_queue d ip = (case tget (sc_per_ip d) ip of Some s \<Rightarrow> ss_events s | None \<Rightarrow> [])"

text \<open>What the counters stand for: the number of different ports in the queue.\<close>

definition scan_alarming :: "u32 \<Rightarrow> (instant \<times> u16) list \<Rightarrow> bool" where
  "scan_alarming threshold q \<longleftrightarrow> unat threshold \<le> length (remdups (map snd q))"

definition scan_good :: "int \<Rightarrow> u32 \<Rightarrow> nat \<Rightarrow> instant \<Rightarrow> scan_detector \<Rightarrow> bool" where
  "scan_good w th n t d \<longleftrightarrow>
     0 \<le> w \<and> w \<le> 2 ^ 63 * nanos_per_sec \<and> sc_window d = w \<and> sc_threshold d = th \<and>
     table_ok (sc_per_ip d) \<and>
     (\<forall>ip s. tget (sc_per_ip d) ip = Some s \<longrightarrow> state_ok n t s)"

lemma state_ok_new: "state_ok n t (scan_state_new now)"
  by (simp add: state_ok_def scan_state_new_def counters_ok_def count_of_def tget_def)

lemma state_ok_mono: "state_ok n t s \<Longrightarrow> n \<le> n' \<Longrightarrow> t \<le> t' \<Longrightarrow> state_ok n' t' s"
  by (auto simp: state_ok_def intro: arrived_by_mono)

lemma state_ok_state_of: "scan_good w th n t d \<Longrightarrow> state_ok n t (state_of now ip d)"
  by (auto simp: state_of_def scan_good_def state_ok_new split: option.split)

lemma events_state_of: "ss_events (state_of now ip d) = scan_queue d ip"
  by (simp add: state_of_def scan_queue_def scan_state_new_def split: option.split)

lemma scan_good_cutoff: "scan_good w th n t d \<Longrightarrow> 0 \<le> now \<Longrightarrow> window_cutoff now w = now - w"
  by (simp add: scan_good_def window_cutoff_regular)

lemma scan_good_put:
  assumes "scan_good w th n t d" and "n \<le> n'" and "t \<le> now" and "state_ok n' now s"
  shows "scan_good w th n' now (d\<lparr>sc_per_ip := tput ip s (sc_per_ip d)\<rparr>)"
  using assms by (auto simp: scan_good_def table_simps intro: state_ok_mono)

lemma scan_good_sweep:
  assumes "scan_good w th n t d" and "0 \<le> t" and "t \<le> now"
  shows "scan_good w th n now (scan_sweep now d)"
    and "scan_queue (scan_sweep now d) ip = recent (now - w) (scan_queue d ip)"
proof -
  let ?e = "expire_head (window_cutoff now (sc_window d))"
  have tab: "table_ok (map (\<lambda>(k, v). (k, ?e v)) (sc_per_ip d))"
    using assms(1) by (simp add: scan_good_def)
  have ok: "state_ok n t s" if "tget (sc_per_ip d) k = Some s" for k s
    using assms(1) that by (simp add: scan_good_def)
  show "scan_good w th n now (scan_sweep now d)"
    using assms(1,3) tab
    by (auto simp: scan_good_def scan_sweep_def Let_def table_simps tget_map_values split: option.splits if_splits
        intro!: state_ok_mono [OF conjunct1 [OF expire_head_ok [OF ok]] order_refl])
  have cut: "window_cutoff now (sc_window d) = now - w"
    using scan_good_cutoff [OF assms(1), of now] assms by (simp add: scan_good_def)
  show "scan_queue (scan_sweep now d) ip = recent (now - w) (scan_queue d ip)"
  proof (cases "tget (sc_per_ip d) ip")
    case None
    with tab show ?thesis
      by (simp add: scan_queue_def scan_sweep_def Let_def table_simps tget_map_values recent_def)
  next
    case (Some s)
    from expire_head_ok [OF ok [OF Some], of "now - w"] Some tab cut show ?thesis
      by (simp add: scan_queue_def scan_sweep_def Let_def table_simps tget_map_values)
  qed
qed

lemma scan_good_blocked:
  assumes "scan_good w th n t d" and "t \<le> now"
  shows "scan_good w th n now (record_blocked now ip d)"
    and "scan_queue (record_blocked now ip d) k = scan_queue d k"
proof -
  have "state_ok n now (state_of now ip d)"
    using state_ok_mono [OF state_ok_state_of [OF assms(1)] order_refl assms(2)] .
  then have "state_ok n now ((state_of now ip d)\<lparr>ss_blocked := b\<rparr>)" for b
    by (simp add: state_ok_def)
  from scan_good_put [OF assms(1) order_refl assms(2) this]
  show "scan_good w th n now (record_blocked now ip d)"
    by (simp add: record_blocked_def Let_def)
  show "scan_queue (record_blocked now ip d) k = scan_queue d k"
    using events_state_of [of now ip d]
    by (simp add: record_blocked_def Let_def scan_queue_def table_simps)
qed

lemma scan_alarm_effect:
  fixes ip :: string and port :: u16
  assumes "scan_good w th n t d" and "0 \<le> t" and "t \<le> now" and "n < 2 ^ 32 - 1"
  defines "q \<equiv> recent (now - w) (scan_queue d ip) @ [(now, port)]"
  shows "fst (scan_alarm now (ip, port) d) \<longleftrightarrow> scan_alarming th q"
    and "scan_queue (snd (scan_alarm now (ip, port) d)) k =
      (if k \<noteq> ip then scan_queue d k else if scan_alarming th q then [] else q)"
    and "scan_good w th (Suc n) now (snd (scan_alarm now (ip, port) d))"
proof -
  let ?s = "push_attempt now port (expire_head (now - w) (state_of now ip d))"
  have cut: "window_cutoff now (sc_window d) = now - w" "sc_threshold d = th"
    using scan_good_cutoff [OF assms(1), of now] assms by (auto simp: scan_good_def)
  note e = expire_head_ok [OF state_ok_state_of [OF assms(1)], of "now - w" now ip]
  have s: "state_ok (Suc n) now ?s" "ss_events ?s = q"
    using push_attempt_ok [OF conjunct1 [OF e] assms(3,4), of port] e events_state_of [of now ip d]
    by (auto simp: q_def)
  then have counts: "counters_ok q (ss_port_counts ?s) (ss_total ?s)" by (simp add: state_ok_def)
  have len: "length (ss_port_counts ?s) = length (remdups (map snd q))"
    using distinct_ports [OF counts] by (simp add: length_remdups_card_conv)
  moreover have "length (remdups (map snd q)) \<le> length q"
    using length_remdups_leq [of "map snd q"] by simp
  ultimately have "length (ss_port_counts ?s) < 2 ^ 32"
    using counts by (simp add: counters_ok_def)
  then have fire: "th \<le> of_nat (length (ss_port_counts ?s)) \<longleftrightarrow> scan_alarming th q"
    using len by (simp add: word_le_nat_alt unat_small scan_alarming_def)
  let ?cleared = "?s\<lparr>ss_events := [], ss_port_counts := [], ss_total := 0, ss_blocked := 0,
                  ss_window_started_at := None\<rparr>"
  have eff: "scan_alarm now (ip, port) d =
      (scan_alarming th q,
       d\<lparr>sc_per_ip := tput ip (if scan_alarming th q then ?cleared else ?s) (sc_per_ip d)\<rparr>)"
    using fire by (simp add: scan_alarm_def scan_observe_def Let_def is_port_scan_def cut)
  show "fst (scan_alarm now (ip, port) d) \<longleftrightarrow> scan_alarming th q"
    by (simp add: eff)
  show "scan_queue (snd (scan_alarm now (ip, port) d)) k =
      (if k \<noteq> ip then scan_queue d k else if scan_alarming th q then [] else q)"
    using s(2) by (simp add: eff scan_queue_def table_simps)
  have "state_ok (Suc n) now ?cleared"
    by (simp add: state_ok_def counters_ok_def count_of_def tget_def)
  with s(1) have "state_ok (Suc n) now (if scan_alarming th q then ?cleared else ?s)" by simp
  from scan_good_put [OF assms(1) le_SucI [OF order_refl] assms(3) this]
  show "scan_good w th (Suc n) now (snd (scan_alarm now (ip, port) d))" by (simp add: eff)
qed

interpretation scan: window_detector scan_alarm scan_silent_step fst snd scan_queue
  "scan_alarming th" "\<lambda>now. now - w" "scan_good w th" "2 ^ 32 - 1"
  for w th
proof
  fix n t now and d :: scan_detector and ev :: "string \<times> u16" and k and oper :: scan_silent
  assume g: "scan_good w th n t d" and t: "0 \<le> t" "t \<le> now"
  show "scan_good w th n now (scan_silent_step now oper d)"
    using scan_good_sweep(1) [OF g t] scan_good_blocked(1) [OF g t(2)] by (cases oper) auto
  show "scan_queue (scan_silent_step now oper d) k = scan_queue d k \<or>
      scan_queue (scan_silent_step now oper d) k = recent (now - w) (scan_queue d k)"
    using scan_good_sweep(2) [OF g t] scan_good_blocked(2) [OF g t(2)] by (cases oper) auto
  assume n: "n < 2 ^ 32 - (1::nat)"
  note eff = scan_alarm_effect [OF g t n, of "fst ev" "snd ev", unfolded prod.collapse]
  show "fst (scan_alarm now ev d) =
      scan_alarming th (recent (now - w) (scan_queue d (fst ev)) @ [(now, snd ev)])"
    by (rule eff(1))
  show "scan_queue (snd (scan_alarm now ev d)) k =
      (if k \<noteq> fst ev then scan_queue d k
       else if scan_alarming th (recent (now - w) (scan_queue d k) @ [(now, snd ev)]) then []
       else recent (now - w) (scan_queue d k) @ [(now, snd ev)])"
    using eff(2) [of k] by simp
  show "scan_good w th (Suc n) now (snd (scan_alarm now ev d))" by (rule eff(3))
next
  fix n t k and d :: scan_detector
  assume "scan_good w th n t d"
  then show "arrived_by t (scan_queue d k)"
    by (auto simp: scan_good_def scan_queue_def state_ok_def split: option.split)
next
  fix n t now and d :: scan_detector
  assume "scan_good w th n t d"
  then show "now - w \<le> now" by (simp add: scan_good_def)
qed simp

section \<open>Every scan, and no other\<close>

datatype scan_input = Connection string u16 | BlockedBy string | SweepScan

fun scan_run :: "(instant \<times> scan_input) list \<Rightarrow> scan_detector \<Rightarrow> scan_emit list" where
  "scan_run [] d = []"
| "scan_run ((now, Connection ip port) # ops) d =
     (let (e, d) = scan_observe now (ip, port) d in e # scan_run ops d)"
| "scan_run ((now, BlockedBy ip) # ops) d = scan_run ops (record_blocked now ip d)"
| "scan_run ((now, SweepScan) # ops) d = scan_run ops (scan_sweep now d)"

text \<open>The specification on the plain history of attempts since the source's last alarm.\<close>

fun port_scan_spec ::
  "int \<Rightarrow> u32 \<Rightarrow> (instant \<times> scan_input) list \<Rightarrow> (string \<Rightarrow> (instant \<times> u16) list) \<Rightarrow> bool list" where
  "port_scan_spec w th [] attempts = []"
| "port_scan_spec w th ((now, Connection ip port) # ops) attempts =
     (let all = attempts ip @ [(now, port)];
          alarm = unat th \<le> length (remdups (map snd (filter (\<lambda>(ts, _). now - w \<le> ts) all)))
      in alarm # port_scan_spec w th ops (attempts(ip := if alarm then [] else all)))"
| "port_scan_spec w th ((now, BlockedBy ip) # ops) attempts = port_scan_spec w th ops attempts"
| "port_scan_spec w th ((now, SweepScan) # ops) attempts = port_scan_spec w th ops attempts"

fun scan_op :: "scan_input \<Rightarrow> (string \<times> u16, scan_silent) detector_op" where
  "scan_op (Connection ip port) = Event (ip, port)"
| "scan_op (BlockedBy ip) = Silent (Blocked ip)"
| "scan_op SweepScan = Silent ScanSweep"

lemma scan_run_window:
  "map is_port_scan (scan_run ops d) =
     detector_run scan_alarm scan_silent_step (map (map_prod id scan_op) ops) d"
  by (induction ops d rule: scan_run.induct)
    (auto simp: scan_alarm_def is_port_scan_def split: prod.splits)

lemma port_scan_spec_window:
  "port_scan_spec w th ops attempts =
     reference_run fst snd (scan_alarming th) (\<lambda>now. now - w) (map (map_prod id scan_op) ops) attempts"
proof (induction ops arbitrary: attempts)
  case (Cons op ops)
  obtain now x where "op = (now, x)" by fastforce
  with Cons.IH show ?case
    by (cases x)
      (simp_all add: Let_def scan_alarming_def recent_def fun_upd_def del: filter_append map_append)
qed simp

text \<open>
  The scan detector raises every alarm and no other.  For any sequence of connection
  attempts, firewall messages and sweeps with a clock that does not run backwards, its running
  counters answer exactly like the specification that keeps the whole history: an attempt
  raises an alarm iff, counting it, its source tried at least \<open>threshold\<close> different ports within
  the window since the source's last alarm.
\<close>

lemma port_scan_alarms_exact:
  assumes "0 \<le> w" and "w \<le> 2 ^ 63 * nanos_per_sec" and "clocked 0 ops" and "length ops < 2 ^ 32"
  shows "map is_port_scan (scan_run ops (scan_new w th)) = port_scan_spec w th ops (\<lambda>_. [])"
proof -
  have good: "scan_good w th 0 0 (scan_new w th)"
    using assms(1,2) by (simp add: scan_good_def scan_new_def)
  have start: "scan.agrees w 0 (scan_new w th) (\<lambda>_. [])"
    by (simp add: scan.agrees_def scan_new_def scan_queue_def)
  from scan.run_reference [OF _ _ good start, of "map (map_prod id scan_op) ops"] assms(3,4)
  show ?thesis by (simp add: scan_run_window port_scan_spec_window clocked_map)
qed

lemma port_scan_alarms_exact_witness:
  "map is_port_scan (scan_run [(seconds 1, Connection ''h'' 22), (seconds 2, Connection ''h'' 22),
      (seconds 40, SweepScan), (seconds 50, Connection ''h'' 80), (seconds 65, Connection ''h'' 443),
      (seconds 66, Connection ''h'' 8080)] (scan_new (seconds 60) 3)) = [False, False, False, False, True]"
proof -
  let ?ops = "[(seconds 1, Connection ''h'' 22), (seconds 2, Connection ''h'' 22),
      (seconds 40, SweepScan), (seconds 50, Connection ''h'' 80), (seconds 65, Connection ''h'' 443),
      (seconds 66, Connection ''h'' 8080)]"
  have spec: "port_scan_spec (seconds 60) 3 ?ops (\<lambda>_. []) = [False, False, False, False, True]"
    by code_simp
  have clock: "clocked 0 ?ops" "length ?ops < 2 ^ 32" by simp_all
  have w: "0 \<le> seconds 60" "seconds 60 \<le> 2 ^ 63 * nanos_per_sec" by simp_all
  show ?thesis by (rule trans [OF port_scan_alarms_exact [OF w clock] spec])
qed

end
