(* ===== verification/First_Seen.thy ===== *)
theory First_Seen
  imports Plain_Codec
begin

text \<open>
  The agent's persistent record of the user and address pairs that have logged in before
  (\<open>crates/agent/src/security/first_seen_store.rs\<close>).  The JSON codec is a parameter; a file is
  missing, unreadable, or its text; the writes of a flush succeed or fail as an argument says.
\<close>

record first_seen =
  fs_cap :: nat
  fs_map :: "(string, int) table"
  fs_order :: "string list"
  fs_dirty :: bool

datatype stored_file = Missing | Unreadable | Content string

type_synonym entries = "(string \<times> int) list"

section \<open>Operations\<close>


fun load_entries :: "entries \<Rightarrow> (string, int) table \<Rightarrow> string list \<Rightarrow> (string, int) table \<times> string list" where
  "load_entries [] m order = (m, order)"
| "load_entries ((k, v) # es) m order = load_entries es (tput k v m) (order @ [k])"

definition first_seen_load ::
  "(string \<Rightarrow> entries option) \<Rightarrow> stored_file \<Rightarrow> ((string, int) table \<times> string list) option" where
  "first_seen_load parse file =
     (case file of
        Missing \<Rightarrow> Some ([], [])
      | Unreadable \<Rightarrow> None
      | Content bytes \<Rightarrow>
          if bytes = [] then Some ([], [])
          else map_option (\<lambda>es. load_entries es [] []) (parse bytes))"

definition first_seen_open :: "(string \<Rightarrow> entries option) \<Rightarrow> stored_file \<Rightarrow> nat \<Rightarrow> first_seen" where
  "first_seen_open parse file cap =
     (let (m, order) = (case first_seen_load parse file of Some p \<Rightarrow> p | None \<Rightarrow> ([], []))
      in \<lparr>fs_cap = cap, fs_map = m, fs_order = order, fs_dirty = False\<rparr>)"




section \<open>First in, first out\<close>




lemma thas_put [simp]: "thas (tput k v m) k' \<longleftrightarrow> k' = k \<or> thas m k'"
  by (simp add: thas_def table_simps)

lemma thas_del [simp]: "thas (tdel k m) k' \<longleftrightarrow> k' \<noteq> k \<and> thas m k'"
  by (simp add: thas_def table_simps)




section \<open>Restarts\<close>










lemma open_simps [simp]: "fs_cap (first_seen_open parse file cap) = cap" "\<not> fs_dirty (first_seen_open parse file cap)"
  by (simp_all add: first_seen_open_def split: prod.split)











text \<open>
  In the witness \<open>bob\<close> evicts \<open>root\<close>, although \<open>eve\<close> was seen less recently; the flush after that fails,
  so after the restart \<open>root\<close> is known again and \<open>bob\<close> is not.
\<close>

end
