(* ===== verification/Billing_Cycle.thy ===== *)
theory Billing_Cycle
  imports SB_Prelude "HOL-Library.Signed_Division"
begin

text \<open>
  Billing cycles (\<open>get_cycle_range\<close> and its helpers in \<open>crates/server/src/service/traffic.rs\<close>).  A
  date is a day of the proleptic Gregorian calendar; \<open>None\<close> is a panic (an \<open>unwrap\<close> of a date
  that does not exist).
\<close>

section \<open>Dates\<close>

type_synonym date = "int \<times> nat \<times> nat"

definition leap_year :: "int \<Rightarrow> bool" where
  "leap_year y \<longleftrightarrow> y mod 4 = 0 \<and> (y mod 100 \<noteq> 0 \<or> y mod 400 = 0)"

definition month_length :: "int \<Rightarrow> nat \<Rightarrow> nat" where
  "month_length y m =
     (if m = 2 then (if leap_year y then 29 else 28)
      else if m = 4 \<or> m = 6 \<or> m = 9 \<or> m = 11 then 30 else 31)"

fun valid_date :: "date \<Rightarrow> bool" where
  "valid_date (y, m, d) \<longleftrightarrow> 1 \<le> m \<and> m \<le> 12 \<and> 1 \<le> d \<and> d \<le> month_length y m"

definition from_ymd_opt :: "int \<Rightarrow> nat \<Rightarrow> nat \<Rightarrow> date option" where
  "from_ymd_opt y m d = (if valid_date (y, m, d) then Some (y, m, d) else None)"

fun pred_day :: "date \<Rightarrow> date" where
  "pred_day (y, m, d) =
     (if 1 < d then (y, m, d - 1)
      else if 1 < m then (y, m - 1, month_length y (m - 1))
      else (y - 1, 12, 31))"

definition minus_days :: "date \<Rightarrow> nat \<Rightarrow> date" where
  "minus_days date n = (pred_day ^^ n) date"

fun date_le :: "date \<Rightarrow> date \<Rightarrow> bool" where
  "date_le (y1, m1, d1) (y2, m2, d2) \<longleftrightarrow>
     y1 < y2 \<or> (y1 = y2 \<and> (m1 < m2 \<or> (m1 = m2 \<and> d1 \<le> d2)))"

section \<open>Cycles\<close>

definition days_in_month :: "int \<Rightarrow> nat \<Rightarrow> nat option" where
  "days_in_month year month =
     map_option (\<lambda>first. snd (snd (pred_day first)))
       (from_ymd_opt (if month = 12 then year + 1 else year) (if month = 12 then 1 else month + 1) 1)"

definition add_months :: "date \<Rightarrow> int \<Rightarrow> date option" where
  "add_months date months =
     (case date of (year, month, day) \<Rightarrow>
        let total_months = year * 12 + int month - 1 + months;
            y = total_months sdiv 12;
            m = nat (total_months smod 12 + 1)
        in case days_in_month y m of
             None \<Rightarrow> None
           | Some len \<Rightarrow> from_ymd_opt y m (min day len))"

definition get_monthly_range :: "nat \<Rightarrow> date \<Rightarrow> (date \<times> date) option" where
  "get_monthly_range anchor today =
     (case today of (y, m, d) \<Rightarrow>
        let cycle_start =
              (if anchor \<le> d then from_ymd_opt y m anchor
               else case minus_days today d of (py, pm, _) \<Rightarrow> from_ymd_opt py pm anchor)
        in case cycle_start of
             None \<Rightarrow> None
           | Some (sy, sm, sd) \<Rightarrow>
               let next =
                     (if anchor = 1
                      then (if sm = 12 then from_ymd_opt (sy + 1) 1 1 else from_ymd_opt sy (sm + 1) 1)
                      else add_months (sy, sm, sd) 1)
               in map_option (\<lambda>n. ((sy, sm, sd), pred_day n)) next)"

text \<open>The loop over the quarters, latest first.\<close>

fun last_quarter_start :: "int \<Rightarrow> nat \<Rightarrow> date \<Rightarrow> nat list \<Rightarrow> date option" where
  "last_quarter_start y anchor today [] = None"
| "last_quarter_start y anchor today (qm # qms) =
     (case from_ymd_opt y qm anchor of
        Some c \<Rightarrow> if date_le c today then Some c else last_quarter_start y anchor today qms
      | None \<Rightarrow> last_quarter_start y anchor today qms)"

definition get_quarterly_range :: "nat \<Rightarrow> date \<Rightarrow> (date \<times> date) option" where
  "get_quarterly_range anchor today =
     (case today of (y, m, d) \<Rightarrow>
        let cycle_start =
              (case last_quarter_start y anchor today (rev [1, 4, 7, 10]) of
                 Some c \<Rightarrow> Some c
               | None \<Rightarrow> from_ymd_opt (y - 1) 10 anchor)
        in case cycle_start of
             None \<Rightarrow> None
           | Some start \<Rightarrow> map_option (\<lambda>n. (start, pred_day n)) (add_months start 3))"

definition get_yearly_range :: "nat \<Rightarrow> date \<Rightarrow> (date \<times> date) option" where
  "get_yearly_range anchor today =
     (case today of (y, m, d) \<Rightarrow>
        case from_ymd_opt y 1 anchor of
          None \<Rightarrow> None
        | Some start \<Rightarrow>
            if date_le start today
            then map_option (\<lambda>n. (start, pred_day n)) (add_months start 12)
            else case from_ymd_opt (y - 1) 1 anchor of
                   None \<Rightarrow> None
                 | Some start \<Rightarrow> map_option (\<lambda>n. (start, pred_day n)) (add_months start 12))"

definition cycle_anchor :: "int option \<Rightarrow> nat" where
  "cycle_anchor billing_start_day =
     nat (max 1 (min 28 (case billing_start_day of Some d \<Rightarrow> d | None \<Rightarrow> 1)))"

definition get_cycle_range :: "string \<Rightarrow> int option \<Rightarrow> date \<Rightarrow> (date \<times> date) option" where
  "get_cycle_range billing_cycle billing_start_day today =
     (let anchor = cycle_anchor billing_start_day in
      if billing_cycle = ''quarterly'' then get_quarterly_range anchor today
      else if billing_cycle = ''yearly'' then get_yearly_range anchor today
      else get_monthly_range anchor today)"

section \<open>Months as a line\<close>

text \<open>The anchor day of the \<open>n\<close>-th month, counted from January of the year 0.\<close>

definition anchor_date :: "nat \<Rightarrow> int \<Rightarrow> date" where
  "anchor_date a n = (n div 12, nat (n mod 12) + 1, a)"

definition anchor_ok :: "nat \<Rightarrow> bool" where
  "anchor_ok a \<longleftrightarrow> 1 \<le> a \<and> a \<le> 28"

definition cycle_months :: "string \<Rightarrow> int" where
  "cycle_months c = (if c = ''quarterly'' then 3 else if c = ''yearly'' then 12 else 1)"

lemma anchor_ok_cycle: "anchor_ok (cycle_anchor b)"
  by (auto simp: anchor_ok_def cycle_anchor_def)

lemma month_length_ge: "28 \<le> month_length y m"
  by (simp add: month_length_def)

lemma valid_anchor: "anchor_ok a \<Longrightarrow> 1 \<le> m \<Longrightarrow> m \<le> 12 \<Longrightarrow> from_ymd_opt y m a = Some (y, m, a)"
  using month_length_ge [of y m] by (auto simp: from_ymd_opt_def anchor_ok_def)

lemma days_in_month_eq: "1 \<le> m \<Longrightarrow> m \<le> 12 \<Longrightarrow> days_in_month y m = Some (month_length y m)"
  by (auto simp: days_in_month_def from_ymd_opt_def month_length_def)

lemma anchor_date_index:
  assumes "1 \<le> m" and "m \<le> 12"
  shows "anchor_date a (y * 12 + int m - 1) = (y, m, a)"
proof -
  have "(y * 12 + int m - 1) div 12 = y" "(y * 12 + int m - 1) mod 12 = int m - 1"
    using assms by presburger+
  then show ?thesis using assms by (simp only: anchor_date_def) auto
qed

lemma add_months_anchor:
  assumes "anchor_ok a" and "0 \<le> n" and "0 \<le> k"
  shows "add_months (anchor_date a n) k = Some (anchor_date a (n + k))"
proof -
  have n: "n div 12 * 12 + int (nat (n mod 12) + 1) - 1 + k = n + k" by simp
  have pos: "(n + k) sdiv 12 = (n + k) div 12" "(n + k) smod 12 = (n + k) mod 12"
    using assms(2,3) by (simp_all add: signed_divide_int_def signed_modulo_int_def sgn_if)
  have m: "nat ((n + k) mod 12 + 1) = nat ((n + k) mod 12) + 1" by (simp add: nat_add_distrib)
  have r: "1 \<le> nat ((n + k) mod 12) + 1" "nat ((n + k) mod 12) + 1 \<le> 12"
    by (auto simp: nat_less_iff Suc_le_eq)
  have "min a (month_length y m) = a" for y m
    using assms(1) month_length_ge [of y m] by (simp add: anchor_ok_def)
  then show ?thesis
    using days_in_month_eq [OF r] valid_anchor [OF assms(1) r]
    by (simp only: add_months_def anchor_date_def prod.case Let_def n pos m option.case)
qed

text \<open>Order.\<close>

lemma date_le_trans: "date_le a b \<Longrightarrow> date_le b c \<Longrightarrow> date_le a c"
proof -
  obtain y1 m1 d1 y2 m2 d2 y3 m3 d3 where
    "a = (y1, m1, d1)" "b = (y2, m2, d2)" "c = (y3, m3, d3)"
    by (metis prod_cases3)
  moreover assume "date_le a b" "date_le b c"
  ultimately show ?thesis by (simp, linarith)
qed

lemma date_le_total: "date_le a b \<or> date_le b a"
proof -
  obtain y1 m1 d1 y2 m2 d2 where "a = (y1, m1, d1)" "b = (y2, m2, d2)" by (metis prod_cases3)
  then show ?thesis by (simp, linarith)
qed

lemma date_le_pred:
  assumes "valid_date a" and "valid_date b"
  shows "date_le a (pred_day b) \<longleftrightarrow> \<not> date_le b a"
proof -
  obtain y1 m1 d1 y2 m2 d2 where ab: "a = (y1, m1, d1)" "b = (y2, m2, d2)" by (metis prod_cases3)
  define L where "L = month_length y2 (m2 - 1)"
  have v: "1 \<le> m1" "m1 \<le> 12" "1 \<le> d1" "1 \<le> m2" "m2 \<le> 12" "1 \<le> d2"
    and L: "y1 = y2 \<Longrightarrow> m1 = m2 - 1 \<Longrightarrow> d1 \<le> L" and d31: "m1 = 12 \<Longrightarrow> d1 \<le> 31"
    using assms by (auto simp: ab L_def month_length_def [of _ 12])
  show ?thesis
  proof (cases "1 < d2")
    case True
    then show ?thesis unfolding ab pred_day.simps date_le.simps if_P [OF True] by presburger
  next
    case False
    with v have d2: "d2 = 1" by simp
    show ?thesis
    proof (cases "1 < m2")
      case True
      then show ?thesis
        using v L unfolding ab d2 pred_day.simps date_le.simps L_def [symmetric] by simp presburger
    next
      case False
      with v d31 show ?thesis unfolding ab d2 by simp presburger
    qed
  qed
qed

lemma valid_pred: "valid_date a \<Longrightarrow> valid_date (pred_day a)"
proof -
  obtain y m d where "a = (y, m, d)" by (metis prod_cases3)
  moreover assume "valid_date a"
  ultimately show ?thesis
    using month_length_ge [of y "m - 1"] by (auto simp: month_length_def [of _ 12])
qed

lemma valid_anchor_date: "anchor_ok a \<Longrightarrow> valid_date (anchor_date a n)"
proof -
  have "1 \<le> nat (n mod 12) + 1" "nat (n mod 12) + 1 \<le> 12"
    by (simp_all add: nat_le_iff)
  moreover assume "anchor_ok a"
  ultimately show ?thesis
    using month_length_ge [of "n div 12" "nat (n mod 12) + 1"]
    by (simp only: anchor_date_def valid_date.simps anchor_ok_def) simp
qed

lemma date_le_parts:
  assumes "0 \<le> r" and "0 \<le> r'"
  shows "date_le (q, nat r + 1, a) (q', nat r' + 1, a) \<longleftrightarrow> q < q' \<or> (q = q' \<and> r \<le> r')"
  using assms by auto

lemma anchor_date_le: "date_le (anchor_date a n) (anchor_date a n') \<longleftrightarrow> n \<le> n'"
proof -
  have "12 * q + r \<le> 12 * q' + r' \<longleftrightarrow> q < q' \<or> (q = q' \<and> r \<le> r')"
    if "0 \<le> r" "r < 12" "0 \<le> r'" "r' < 12" for q q' r r' :: int
    using that by linarith
  from this [of "n mod 12" "n' mod 12" "n div 12" "n' div 12"]
  have "n \<le> n' \<longleftrightarrow> n div 12 < n' div 12 \<or> (n div 12 = n' div 12 \<and> n mod 12 \<le> n' mod 12)"
    by simp
  then show ?thesis
    unfolding anchor_date_def
    by (simp only: date_le_parts [OF pos_mod_sign pos_mod_sign, of 12 12] zero_less_numeral)
qed

lemma anchor_date_less:
  assumes "date_le (anchor_date a n) d" and "\<not> date_le (anchor_date a n') d"
  shows "n < n'"
proof (rule ccontr)
  assume "\<not> n < n'"
  then have "date_le (anchor_date a n') (anchor_date a n)" by (simp add: anchor_date_le)
  with assms date_le_trans show False by blast
qed

section \<open>The three ranges\<close>

text \<open>
  What a range is to be: the interval between two consecutive cycle starts, which are the anchor
  days of every \<open>k\<close>-th month, that holds the day.
\<close>

definition is_cycle :: "int \<Rightarrow> nat \<Rightarrow> date \<Rightarrow> (date \<times> date) option \<Rightarrow> bool" where
  "is_cycle k a today r \<longleftrightarrow>
     (\<exists>n. 0 \<le> n \<and> n mod k = 0 \<and> date_le (anchor_date a n) today \<and>
        \<not> date_le (anchor_date a (n + k)) today \<and>
        r = Some (anchor_date a n, pred_day (anchor_date a (n + k))))"

text \<open>Going back as many days as the day of the month ends in the previous month.\<close>

lemma minus_days_start: "minus_days (y, m, Suc n) n = (y, m, 1)"
  by (induction n) (auto simp: minus_days_def funpow_swap1)

lemma minus_days_month:
  assumes "1 \<le> d"
  shows "minus_days (y, m, d) d = pred_day (y, m, 1)"
proof -
  from assms obtain n where "d = Suc n" by (cases d) auto
  then show ?thesis using minus_days_start [of y m n] by (simp add: minus_days_def)
qed

lemma monthly_cycle:
  assumes "anchor_ok a" and "valid_date today" and "1 \<le> fst today"
  shows "is_cycle 1 a today (get_monthly_range a today)"
proof -
  obtain y m d where t: "today = (y, m, d)" by (metis prod_cases3)
  with assms have m: "1 \<le> m" "m \<le> 12" "1 \<le> d" "1 \<le> y" by auto
  define n where "n = y * 12 + int m - 1 - (if a \<le> d then 0 else 1)"
  have n0: "0 \<le> n" using m by (auto simp: n_def)
  have idx: "anchor_date a (y * 12 + int m - 1) = (y, m, a)" using m anchor_date_index by simp
  have start: "(if a \<le> d then from_ymd_opt y m a
      else case minus_days today d of (py, pm, _) \<Rightarrow> from_ymd_opt py pm a) = Some (anchor_date a n)"
  proof (cases "a \<le> d")
    case True
    with idx m valid_anchor [OF assms(1)] show ?thesis by (simp add: n_def)
  next
    case False
    show ?thesis
    proof (cases "m = 1")
      case True
      have "anchor_date a ((y - 1) * 12 + int 12 - 1) = (y - 1, 12, a)"
        by (rule anchor_date_index) auto
      with False True m valid_anchor [OF assms(1), of 12 "y - 1"] show ?thesis
        by (simp add: n_def t minus_days_month)
    next
      case m1: False
      have "anchor_date a (y * 12 + int (m - 1) - 1) = (y, m - 1, a)"
        using m m1 by (intro anchor_date_index) auto
      with False m m1 valid_anchor [OF assms(1), of "m - 1" y] show ?thesis
        by (simp add: n_def t minus_days_month of_nat_diff)
    qed
  qed
  obtain sy sm where s: "anchor_date a n = (sy, sm, a)" by (simp add: anchor_date_def)
  have sm: "1 \<le> sm" "sm \<le> 12" using valid_anchor_date [OF assms(1), of n] by (auto simp: s)
  have "(if a = 1 then (if sm = 12 then from_ymd_opt (sy + 1) 1 1 else from_ymd_opt sy (sm + 1) 1)
      else add_months (sy, sm, a) 1) = Some (anchor_date a (n + 1))"
  proof (cases "a = 1")
    case True
    have "n = sy * 12 + int sm - 1"
      using s by (auto simp: anchor_date_def)
    then have "anchor_date 1 (n + 1) = (if sm = 12 then (sy + 1, 1, 1) else (sy, sm + 1, 1))"
      using sm anchor_date_index [of 1 1 "sy + 1"] anchor_date_index [of "sm + 1" 1 sy]
      by (simp add: algebra_simps)
    with True sm valid_anchor [of 1] show ?thesis by (simp add: anchor_ok_def)
  next
    case False
    with add_months_anchor [OF assms(1) n0, of 1] s show ?thesis by simp
  qed
  with start have r: "get_monthly_range a today =
      Some (anchor_date a n, pred_day (anchor_date a (n + 1)))"
    unfolding get_monthly_range_def t prod.case Let_def start [unfolded t] s option.case by simp
  have "date_le (anchor_date a n) today \<and> \<not> date_le (anchor_date a (n + 1)) today"
  proof (cases "a \<le> d")
    case True
    have "\<not> date_le (anchor_date a (n + 1)) today"
    proof (cases "m = 12")
      case m12: True
      with anchor_date_index [of 1 a "y + 1"] True show ?thesis by (simp add: n_def t algebra_simps)
    next
      case False
      with anchor_date_index [of "m + 1" a y] m True show ?thesis by (simp add: n_def t algebra_simps)
    qed
    with True idx show ?thesis by (simp add: n_def t)
  next
    case False
    with idx have "anchor_date a (n + 1) = (y, m, a)" by (simp add: n_def)
    moreover have "anchor_date a n = (if m = 1 then (y - 1, 12, a) else (y, m - 1, a))"
      using start False m
      by (auto simp: t minus_days_month from_ymd_opt_def split: if_splits)
    then have "date_le (anchor_date a n) today" using m by (auto simp: t)
    ultimately show ?thesis using False by (simp add: t)
  qed
  with r n0 show ?thesis unfolding is_cycle_def by (intro exI [of _ n]) simp
qed

lemma quarterly_cycle:
  assumes "anchor_ok a" and "valid_date today" and "1 \<le> fst today"
  shows "is_cycle 3 a today (get_quarterly_range a today)"
proof -
  obtain y m d where t: "today = (y, m, d)" by (metis prod_cases3)
  with assms have y: "1 \<le> y" "1 \<le> m" "m \<le> 12" by auto
  have q: "anchor_date a (y * 12) = (y, 1, a)" "anchor_date a (y * 12 + 3) = (y, 4, a)"
    "anchor_date a (y * 12 + 6) = (y, 7, a)" "anchor_date a (y * 12 + 9) = (y, 10, a)"
    "anchor_date a (y * 12 - 3) = (y - 1, 10, a)"
    and q3: "anchor_date a (y * 12 - 3 + 3) = (y, 1, a)" "anchor_date a (y * 12 + 3 + 3) = (y, 7, a)"
    "anchor_date a (y * 12 + 6 + 3) = (y, 10, a)" "anchor_date a (y * 12 + 9 + 3) = (y + 1, 1, a)"
    using anchor_date_index [of 1 a y] anchor_date_index [of 4 a y] anchor_date_index [of 7 a y]
      anchor_date_index [of 10 a y] anchor_date_index [of 1 a "y + 1"]
      anchor_date_index [of 10 a "y - 1"]
    by (simp_all add: algebra_simps)
  note v = valid_anchor [OF assms(1)]
  define n where "n = (if date_le (y, 10, a) today then y * 12 + 9
    else if date_le (y, 7, a) today then y * 12 + 6
    else if date_le (y, 4, a) today then y * 12 + 3
    else if date_le (y, 1, a) today then y * 12 else y * 12 - 3)"
  have n0: "0 \<le> n" "n mod 3 = 0" using y by (auto simp: n_def)
  have start: "(case last_quarter_start y a today (rev [1, 4, 7, 10]) of
                 Some c \<Rightarrow> Some c | None \<Rightarrow> from_ymd_opt (y - 1) 10 a) = Some (anchor_date a n)"
    by (simp add: v q n_def)
  have "get_quarterly_range a today = Some (anchor_date a n, pred_day (anchor_date a (n + 3)))"
    unfolding get_quarterly_range_def t prod.case Let_def start [unfolded t]
    using add_months_anchor [OF assms(1) n0(1), of 3] by simp
  moreover have "date_le (anchor_date a n) today \<and> \<not> date_le (anchor_date a (n + 3)) today"
  proof -
    have "date_le (y - 1, 10, a) today" "\<not> date_le (y + 1, 1, a) today" by (simp_all add: t)
    then show ?thesis
      by (cases "date_le (y, 10, a) today"; cases "date_le (y, 7, a) today";
          cases "date_le (y, 4, a) today"; cases "date_le (y, 1, a) today";
          simp only: n_def q q3 if_True if_False simp_thms)
  qed
  ultimately show ?thesis using n0 unfolding is_cycle_def by (metis)
qed

lemma yearly_cycle:
  assumes "anchor_ok a" and "valid_date today" and "1 \<le> fst today"
  shows "is_cycle 12 a today (get_yearly_range a today)"
proof -
  obtain y m d where t: "today = (y, m, d)" by (metis prod_cases3)
  with assms have y: "1 \<le> y" "1 \<le> m" by auto
  have q: "anchor_date a (y * 12) = (y, 1, a)" "anchor_date a (y * 12 + 12) = (y + 1, 1, a)"
    "anchor_date a (y * 12 - 12) = (y - 1, 1, a)" "anchor_date a (y * 12 - 12 + 12) = (y, 1, a)"
    using anchor_date_index [of 1 a y] anchor_date_index [of 1 a "y + 1"]
      anchor_date_index [of 1 a "y - 1"]
    by (simp_all add: algebra_simps)
  define n where "n = (if date_le (y, 1, a) today then y * 12 else y * 12 - 12)"
  have n0: "0 \<le> n" "n mod 12 = 0" using y by (auto simp: n_def)
  have "get_yearly_range a today = Some (anchor_date a n, pred_day (anchor_date a (n + 12)))"
  proof (cases "date_le (y, 1, a) today")
    case True
    then have "n = y * 12" by (simp add: n_def)
    with True show ?thesis
      using add_months_anchor [OF assms(1) n0(1), of 12] valid_anchor [OF assms(1), of 1 y]
      by (simp only: get_yearly_range_def t prod.case option.case if_True q) simp
  next
    case False
    then have "n = y * 12 - 12" by (simp add: n_def)
    with False show ?thesis
      using add_months_anchor [OF assms(1) n0(1), of 12] valid_anchor [OF assms(1), of 1 y]
        valid_anchor [OF assms(1), of 1 "y - 1"]
      by (simp only: get_yearly_range_def t prod.case option.case if_False q) simp
  qed
  moreover have "date_le (anchor_date a n) today \<and> \<not> date_le (anchor_date a (n + 12)) today"
  proof -
    have "date_le (y - 1, 1, a) today" "\<not> date_le (y + 1, 1, a) today" by (simp_all add: t)
    then show ?thesis
      by (cases "date_le (y, 1, a) today"; simp only: n_def q if_True if_False simp_thms)
  qed
  ultimately show ?thesis using n0 unfolding is_cycle_def by (metis)
qed

lemma cycle_range_is_cycle:
  assumes "valid_date today" and "1 \<le> fst today"
  shows "is_cycle (cycle_months c) (cycle_anchor b) today (get_cycle_range c b today)"
  using monthly_cycle [OF anchor_ok_cycle assms] quarterly_cycle [OF anchor_ok_cycle assms]
    yearly_cycle [OF anchor_ok_cycle assms]
  by (simp add: get_cycle_range_def cycle_months_def Let_def)

section \<open>The cycles partition the calendar\<close>

declare valid_date.simps [simp del] date_le.simps [simp del] pred_day.simps [simp del]

lemma multiples_close:
  fixes k n n' :: int
  assumes "0 < k" and "n mod k = 0" and "n' mod k = 0" and "n < n' + k" and "n' < n + k"
  shows "n = n'"
proof -
  from assms(2,3) obtain q q' where q: "n = k * q" "n' = k * q'" by (auto elim!: dvdE simp: mod_eq_0_iff_dvd)
  with assms(4,5) have "k * q < k * (q' + 1)" "k * q' < k * (q + 1)" by (simp_all add: distrib_left)
  with assms(1) have "q < q' + 1" "q' < q + 1" by (simp_all only: mult_less_cancel_left_pos)
  with q show ?thesis by simp
qed

text \<open>The day lies in the range, and the range is that of exactly the days in it.\<close>

lemma is_cycle_range:
  assumes "anchor_ok a" and "0 < k" and "valid_date d" and "is_cycle k a d r"
  shows "\<exists>s e. r = Some (s, e) \<and> valid_date s \<and> valid_date e \<and> date_le s d \<and> date_le d e"
proof -
  from assms(4) obtain n where "date_le (anchor_date a n) d" "\<not> date_le (anchor_date a (n + k)) d"
    "r = Some (anchor_date a n, pred_day (anchor_date a (n + k)))"
    unfolding is_cycle_def by blast
  moreover have "valid_date (anchor_date a j)" for j by (rule valid_anchor_date [OF assms(1)])
  ultimately show ?thesis
    using date_le_pred [OF assms(3)] valid_pred by blast
qed

lemma is_cycle_same:
  assumes "anchor_ok a" and "0 < k" and "valid_date d'"
    and "is_cycle k a d (Some (s, e))" and "is_cycle k a d' r'"
    and "date_le s d'" and "date_le d' e"
  shows "r' = Some (s, e)"
proof -
  from assms(4) obtain n where n: "n mod k = 0" "s = anchor_date a n"
    "e = pred_day (anchor_date a (n + k))"
    unfolding is_cycle_def option.inject prod.inject by metis
  from assms(5) obtain n' where n': "n' mod k = 0" "date_le (anchor_date a n') d'"
    "\<not> date_le (anchor_date a (n' + k)) d'"
    and r: "r' = Some (anchor_date a n', pred_day (anchor_date a (n' + k)))"
    unfolding is_cycle_def by metis
  have "\<not> date_le (anchor_date a (n + k)) d'"
    using date_le_pred [OF assms(3) valid_anchor_date [OF assms(1)]] assms(7) n(3) by simp
  then have "n' < n + k" by (rule anchor_date_less [OF n'(2)])
  moreover have "n < n' + k" using assms(6) n'(3) unfolding n(2) by (rule anchor_date_less)
  ultimately have "n = n'" using multiples_close [OF assms(2) n(1) n'(1)] by simp
  with n r show ?thesis by simp
qed

text \<open>The day before a cycle is the last day of the cycle before.\<close>

lemma is_cycle_before:
  assumes "anchor_ok a" and "0 < k" and "is_cycle k a d (Some (s, e))"
    and "is_cycle k a (pred_day s) r"
  shows "\<exists>s'. r = Some (s', pred_day s)"
proof -
  from assms(3) obtain n where n: "n mod k = 0" "s = anchor_date a n"
    unfolding is_cycle_def option.inject prod.inject by metis
  from assms(4) obtain n' where n': "n' mod k = 0" "date_le (anchor_date a n') (pred_day s)"
    "\<not> date_le (anchor_date a (n' + k)) (pred_day s)"
    and r: "r = Some (anchor_date a n', pred_day (anchor_date a (n' + k)))"
    unfolding is_cycle_def by metis
  have v: "valid_date s" using n valid_anchor_date [OF assms(1)] by simp
  have "date_le s (anchor_date a (n' + k))" "\<not> date_le s (anchor_date a n')"
    using n'(2,3) date_le_pred [OF valid_anchor_date [OF assms(1)] v] by auto
  then have lt: "n' < n" "n \<le> n' + k" unfolding n(2) anchor_date_le by simp_all
  have "(n' + k) mod k = 0" using n'(1) by simp
  with lt assms(2) have "n' + k = n" using multiples_close [OF assms(2) _ n(1), of "n' + k"] by simp
  with n(2) r show ?thesis by blast
qed

text \<open>The same of the computed range.\<close>

lemma cycle_range_holds:
  assumes "valid_date today" and "1 \<le> fst today"
  shows "\<exists>s e. get_cycle_range c b today = Some (s, e) \<and> valid_date s \<and> valid_date e \<and>
    date_le s today \<and> date_le today e"
  by (rule is_cycle_range [OF anchor_ok_cycle _ assms(1) cycle_range_is_cycle [OF assms]])
    (simp add: cycle_months_def)

lemma cycle_range_before:
  assumes "valid_date today" and "1 \<le> fst today" and "get_cycle_range c b today = Some (s, e)"
    and "1 \<le> fst (pred_day s)"
  shows "\<exists>s'. get_cycle_range c b (pred_day s) = Some (s', pred_day s)"
proof (rule is_cycle_before [OF anchor_ok_cycle])
  show "0 < cycle_months c" by (simp add: cycle_months_def)
  show "is_cycle (cycle_months c) (cycle_anchor b) today (Some (s, e))"
    using cycle_range_is_cycle [OF assms(1,2), of c b] by (simp add: assms(3))
  have "valid_date s" using cycle_range_holds [OF assms(1,2), of c b] assms(3) by auto
  then show "is_cycle (cycle_months c) (cycle_anchor b) (pred_day s) (get_cycle_range c b (pred_day s))"
    using cycle_range_is_cycle [OF valid_pred assms(4)] by simp
qed

text \<open>A cycle starts in the year of the day or in the year before.\<close>

lemma cycle_range_year:
  assumes "valid_date today" and "1 \<le> fst today" and "get_cycle_range c b today = Some (s, e)"
  shows "fst today - 1 \<le> fst s"
proof -
  from cycle_range_is_cycle [OF assms(1,2), of c b, unfolded assms(3)]
  obtain n where n: "s = anchor_date (cycle_anchor b) n"
    "\<not> date_le (anchor_date (cycle_anchor b) (n + cycle_months c)) today"
    unfolding is_cycle_def option.inject prod.inject by metis
  have "fst today \<le> (n + cycle_months c) div 12"
    using n(2) by (cases today) (auto simp: anchor_date_def date_le.simps)
  moreover have "(n + cycle_months c) div 12 \<le> n div 12 + 1"
    by (auto simp: cycle_months_def)
  ultimately show ?thesis by (simp add: n(1) anchor_date_def)
qed

text \<open>
  Claim C34: the billing cycles partition the calendar.  For every cycle kind and start day, the
  computed range exists (no date of the computation is invalid), consists of real dates, holds
  the day it was computed for, is the range of exactly the days in it, and the cycle before it
  ends on the day before it starts: no day is billed twice or not at all.
\<close>

theorem billing_cycles_partition:
  assumes "valid_date today" and "1 \<le> fst today"
  shows "\<exists>s e. get_cycle_range c b today = Some (s, e) \<and> valid_date s \<and> valid_date e \<and>
    date_le s today \<and> date_le today e \<and>
    (\<forall>day. valid_date day \<longrightarrow> 1 \<le> fst day \<longrightarrow>
       (get_cycle_range c b day = Some (s, e) \<longleftrightarrow> date_le s day \<and> date_le day e)) \<and>
    (1 \<le> fst (pred_day s) \<longrightarrow> (\<exists>s'. get_cycle_range c b (pred_day s) = Some (s', pred_day s)))"
proof -
  let ?k = "cycle_months c" and ?a = "cycle_anchor b"
  have k: "0 < ?k" by (simp add: cycle_months_def)
  note ok = anchor_ok_cycle [of b]
  note here = cycle_range_is_cycle [OF assms, of c b]
  from cycle_range_holds [OF assms, of c b] obtain s e where
    r: "get_cycle_range c b today = Some (s, e)" "valid_date s" "valid_date e"
      "date_le s today" "date_le today e" by blast
  have "get_cycle_range c b day = Some (s, e) \<longleftrightarrow> date_le s day \<and> date_le day e"
    if day: "valid_date day" "1 \<le> fst day" for day
  proof
    assume "get_cycle_range c b day = Some (s, e)"
    with is_cycle_range [OF ok k day(1) cycle_range_is_cycle [OF day, of c b]]
    show "date_le s day \<and> date_le day e" by (metis option.inject prod.inject)
  next
    assume "date_le s day \<and> date_le day e"
    then show "get_cycle_range c b day = Some (s, e)"
      using is_cycle_same [OF ok k day(1) here [unfolded r(1)] cycle_range_is_cycle [OF day, of c b]]
      by blast
  qed
  moreover have "\<exists>s'. get_cycle_range c b (pred_day s) = Some (s', pred_day s)"
    if "1 \<le> fst (pred_day s)"
    using cycle_range_before [OF assms r(1) that] .
  ultimately show ?thesis using r by blast
qed

theorem billing_cycles_partition_witness:
  "get_cycle_range ''monthly'' (Some 15) (2024, 3, 10) = Some ((2024, 2, 15), (2024, 3, 14)) \<and>
   get_cycle_range ''monthly'' (Some 15) (2024, 2, 29) = Some ((2024, 2, 15), (2024, 3, 14))"
proof -
  have here: "get_cycle_range ''monthly'' (Some 15) (2024, 3, 10) = Some ((2024, 2, 15), (2024, 3, 14))"
    by code_simp
  have day: "valid_date (2024, 3, 10)" "1 \<le> fst (2024 :: int, 3 :: nat, 10 :: nat)"
    "valid_date (2024, 2, 29)" "1 \<le> fst (2024 :: int, 2 :: nat, 29 :: nat)"
    "date_le (2024, 2, 15) (2024, 2, 29)" "date_le (2024, 2, 29) (2024, 3, 14)"
    by code_simp+
  obtain s e where r: "get_cycle_range ''monthly'' (Some 15) (2024, 3, 10) = Some (s, e)"
    "\<forall>day. valid_date day \<longrightarrow> 1 \<le> fst day \<longrightarrow>
       (get_cycle_range ''monthly'' (Some 15) day = Some (s, e) \<longleftrightarrow> date_le s day \<and> date_le day e)"
    using billing_cycles_partition [OF day(1,2), of "''monthly''" "Some 15"] by blast
  from r(1) have se: "s = (2024, 2, 15)" "e = (2024, 3, 14)" unfolding here option.inject prod.inject by blast+
  have "get_cycle_range ''monthly'' (Some 15) (2024, 2, 29) = Some ((2024, 2, 15), (2024, 3, 14))"
    using r(2) [rule_format, OF day(3,4), unfolded se] day(5,6) by blast
  with here show ?thesis by (intro conjI)
qed

end
