(* ===== verification/Traffic.thy ===== *)
theory Traffic
  imports Billing_Cycle App_Error Agent_Manager
begin

text \<open>
  Traffic accounting: the per-tick flush of cached reports
  (\<open>crates/server/src/task/record_writer.rs\<close>), the three traffic tables, their daily roll-up and
  clean-up, and the sums per billing cycle (\<open>crates/server/src/service/traffic.rs\<close>).

  A stamp is a UTC date with hours, minutes and seconds: the text format of the tables orders
  stamps as \<open>stamp_le\<close> does.  The tables hold integers; sums of the database are exact as long as
  they stay in 64 bits (beyond, SQLite goes over to a real, which is not modelled), sums of the
  program wrap.  Every database
  access succeeds or fails by a parameter; the time-zone rules (\<open>chrono_tz\<close>) are a parameter.
  \<open>None\<close> is a panic.
\<close>

section \<open>Stamps and tables\<close>

type_synonym hms = "nat \<times> nat \<times> nat"
type_synonym stamp = "date \<times> hms"

fun hms_le :: "hms \<Rightarrow> hms \<Rightarrow> bool" where
  "hms_le (h1, m1, s1) (h2, m2, s2) \<longleftrightarrow>
     h1 < h2 \<or> (h1 = h2 \<and> (m1 < m2 \<or> (m1 = m2 \<and> s1 \<le> s2)))"

fun stamp_le :: "stamp \<Rightarrow> stamp \<Rightarrow> bool" where
  "stamp_le (d1, t1) (d2, t2) \<longleftrightarrow> (d1 \<noteq> d2 \<and> date_le d1 d2) \<or> (d1 = d2 \<and> hms_le t1 t2)"

definition end_of_day :: hms where
  "end_of_day = (23, 59, 59)"

record traffic_db =
  traffic_hourly :: "(string \<times> stamp, int \<times> int) table"
  traffic_daily :: "(string \<times> date, int \<times> int) table"
  traffic_state :: "(string, int \<times> int \<times> stamp) table"

type_synonym transfer_cache = "(string, int \<times> int) table"

definition db_error :: app_error where
  "db_error = Internal ''Database error''"

definition upsert_hourly ::
  "bool \<Rightarrow> traffic_db \<Rightarrow> string \<Rightarrow> stamp \<Rightarrow> int \<Rightarrow> int \<Rightarrow> app_error + traffic_db" where
  "upsert_hourly ok db server_id hour delta_in delta_out =
     (if \<not> ok then Inl db_error
      else let row = (case tget (traffic_hourly db) (server_id, hour) of
                        None \<Rightarrow> (delta_in, delta_out)
                      | Some (b_in, b_out) \<Rightarrow> (b_in + delta_in, b_out + delta_out))
           in Inr (db\<lparr>traffic_hourly := tput (server_id, hour) row (traffic_hourly db)\<rparr>))"

definition upsert_state ::
  "bool \<Rightarrow> traffic_db \<Rightarrow> string \<Rightarrow> stamp \<Rightarrow> int \<Rightarrow> int \<Rightarrow> app_error + traffic_db" where
  "upsert_state ok db server_id now last_in last_out =
     (if \<not> ok then Inl db_error
      else Inr (db\<lparr>traffic_state := tput server_id (last_in, last_out, now) (traffic_state db)\<rparr>))"

definition load_transfer_cache :: "bool \<Rightarrow> traffic_db \<Rightarrow> app_error + transfer_cache" where
  "load_transfer_cache ok db =
     (if \<not> ok then Inl db_error
      else Inr (foldl (\<lambda>cache (server_id, last_in, last_out, _). tput server_id (last_in, last_out) cache)
                  [] (traffic_state db)))"

section \<open>The flush of one tick\<close>

definition compute_delta :: "int \<Rightarrow> int \<Rightarrow> int \<Rightarrow> int \<Rightarrow> int \<times> int" where
  "compute_delta prev_in prev_out curr_in curr_out =
     (if prev_in \<le> curr_in then wrap_i64 (curr_in - prev_in) else curr_in,
      if prev_out \<le> curr_out then wrap_i64 (curr_out - prev_out) else curr_out)"

text \<open>The outcomes of the three writes of a report; the callers log an error and go on.\<close>

record write_outcome =
  record_ok :: bool
  hourly_ok :: bool
  state_ok :: bool

type_synonym flush_state = "traffic_db \<times> transfer_cache \<times> nat"

definition or_unchanged :: "traffic_db \<Rightarrow> app_error + traffic_db \<Rightarrow> traffic_db" where
  "or_unchanged db r = (case r of Inl _ \<Rightarrow> db | Inr db' \<Rightarrow> db')"

fun flush_report ::
  "stamp \<Rightarrow> stamp \<Rightarrow> flush_state \<Rightarrow> (string \<times> system_report) \<times> write_outcome \<Rightarrow> flush_state" where
  "flush_report hour now (db, cache, count) ((server_id, report), w) =
     (let count = (if record_ok w then count + 1 else count);
          curr_in = sr_net_in_transfer report;
          curr_out = sr_net_out_transfer report
      in if curr_in = 0 \<and> curr_out = 0 then (db, cache, count)
         else case tget cache server_id of
                None \<Rightarrow>
                  (or_unchanged db (upsert_state (state_ok w) db server_id now curr_in curr_out),
                   tput server_id (curr_in, curr_out) cache, count)
              | Some (prev_in, prev_out) \<Rightarrow>
                  let (delta_in, delta_out) = compute_delta prev_in prev_out curr_in curr_out;
                      cache = tput server_id (curr_in, curr_out) cache;
                      db = (if 0 < delta_in \<or> 0 < delta_out
                            then or_unchanged db
                              (upsert_hourly (hourly_ok w) db server_id hour delta_in delta_out)
                            else db);
                      db = or_unchanged db (upsert_state (state_ok w) db server_id now curr_in curr_out)
                  in (db, cache, count))"

definition hour_of :: "stamp \<Rightarrow> stamp" where
  "hour_of now = (case now of (d, h, _, _) \<Rightarrow> (d, h, 0, 0))"

definition flush_reports ::
  "((string \<times> system_report) \<times> write_outcome) list \<Rightarrow> stamp \<Rightarrow> traffic_db \<times> transfer_cache \<Rightarrow>
   traffic_db \<times> transfer_cache \<times> nat" where
  "flush_reports reports now st =
     foldl (flush_report (hour_of now) now) (fst st, snd st, 0) reports"

text \<open>The loop of the task: the start loads the cache, every tick flushes.\<close>

type_synonym tick = "stamp \<times> ((string \<times> system_report) \<times> write_outcome) list"

definition flush_tick :: "traffic_db \<times> transfer_cache \<Rightarrow> tick \<Rightarrow> traffic_db \<times> transfer_cache" where
  "flush_tick st tick =
     (case flush_reports (snd tick) (fst tick) st of (db, cache, _) \<Rightarrow> (db, cache))"

definition record_writer_run :: "bool \<Rightarrow> traffic_db \<Rightarrow> tick list \<Rightarrow> traffic_db \<times> transfer_cache" where
  "record_writer_run load_ok db ticks =
     foldl flush_tick
       (db, case load_transfer_cache load_ok db of Inr cache \<Rightarrow> cache | Inl _ \<Rightarrow> []) ticks"

section \<open>Roll-up and clean-up\<close>

text \<open>The sums of a column over the rows that satisfy a condition.\<close>

definition sum_rows :: "(int \<times> int \<Rightarrow> int) \<Rightarrow> ('k \<Rightarrow> bool) \<Rightarrow> ('k, int \<times> int) table \<Rightarrow> int" where
  "sum_rows f P t = sum_list (map (\<lambda>(k, v). if P k then f v else 0) t)"

text \<open>
  A time zone: the local time of a UTC stamp, and the earliest and latest UTC stamps of a local
  time, where there is one.
\<close>

record time_zone =
  tz_local :: "stamp \<Rightarrow> stamp"
  tz_utc :: "stamp \<Rightarrow> (stamp \<times> stamp) option"

definition aggregate_daily_for_date ::
  "bool \<Rightarrow> traffic_db \<Rightarrow> date \<Rightarrow> time_zone \<Rightarrow> (app_error + traffic_db \<times> nat) option" where
  "aggregate_daily_for_date ok db day tz =
     (case tz_utc tz (day, 0, 0, 0) of None \<Rightarrow> None
      | Some (start_utc, _) \<Rightarrow>
        (case tz_utc tz (day, end_of_day) of None \<Rightarrow> None
         | Some (_, end_utc) \<Rightarrow>
           Some (if \<not> ok then Inl db_error
             else let sel = (\<lambda>s (server_id, hour). server_id = s \<and> stamp_le start_utc hour \<and> stamp_le hour end_utc);
                      groups = remdups [s. ((s, hour), _) \<leftarrow> traffic_hourly db, sel s (s, hour)];
                      daily = foldl (\<lambda>t s. tput (s, day)
                                (sum_rows fst (sel s) (traffic_hourly db),
                                 sum_rows snd (sel s) (traffic_hourly db)) t)
                              (traffic_daily db) groups
                  in Inr (db\<lparr>traffic_daily := daily\<rparr>, length groups))))"

definition aggregate_daily ::
  "(string \<Rightarrow> time_zone option) \<Rightarrow> bool \<times> bool \<Rightarrow> traffic_db \<Rightarrow> stamp \<Rightarrow> string \<Rightarrow>
   traffic_db \<times> (app_error + nat) option" where
  "aggregate_daily parse_tz ok db now timezone =
     (case parse_tz timezone of
        None \<Rightarrow> (db, Some (Inl (Internal (''Invalid timezone: '' @ timezone))))
      | Some tz \<Rightarrow>
          let today_local = fst (tz_local tz now);
              yesterday_local = pred_day today_local
          in case aggregate_daily_for_date (fst ok) db yesterday_local tz of
               None \<Rightarrow> (db, None)
             | Some (Inl e) \<Rightarrow> (db, Some (Inl e))
             | Some (Inr (db, n)) \<Rightarrow>
                 (case aggregate_daily_for_date (snd ok) db today_local tz of
                    None \<Rightarrow> (db, None)
                  | Some (Inl e) \<Rightarrow> (db, Some (Inl e))
                  | Some (Inr (db, m)) \<Rightarrow> (db, Some (Inr (n + m)))))"

text \<open>\<open>Utc::now() - Duration::days(n)\<close>: a panic below the first representable year.\<close>

definition days_before :: "date \<Rightarrow> nat \<Rightarrow> date option" where
  "days_before d n = (let d' = minus_days d n in if - 262143 \<le> fst d' then Some d' else None)"

definition cleanup_hourly :: "bool \<Rightarrow> traffic_db \<Rightarrow> stamp \<Rightarrow> nat \<Rightarrow> (app_error + traffic_db \<times> nat) option" where
  "cleanup_hourly ok db now days =
     (case days_before (fst now) days of None \<Rightarrow> None
      | Some d \<Rightarrow>
          Some (if \<not> ok then Inl db_error
            else let kept = tretain (\<lambda>(_, hour) _. stamp_le (d, snd now) hour) (traffic_hourly db)
                 in Inr (db\<lparr>traffic_hourly := kept\<rparr>, length (traffic_hourly db) - length kept)))"

definition cleanup_daily :: "bool \<Rightarrow> traffic_db \<Rightarrow> stamp \<Rightarrow> nat \<Rightarrow> (app_error + traffic_db \<times> nat) option" where
  "cleanup_daily ok db now days =
     (case days_before (fst now) days of None \<Rightarrow> None
      | Some d \<Rightarrow>
          Some (if \<not> ok then Inl db_error
            else let kept = tretain (\<lambda>(_, date) _. date_le d date) (traffic_daily db)
                 in Inr (db\<lparr>traffic_daily := kept\<rparr>, length (traffic_daily db) - length kept)))"

section \<open>Sums per cycle\<close>

definition daily_sum :: "(int \<times> int \<Rightarrow> int) \<Rightarrow> traffic_db \<Rightarrow> string \<Rightarrow> date \<Rightarrow> date \<Rightarrow> int" where
  "daily_sum f db server_id start_date end_date =
     sum_rows f (\<lambda>(s, date). s = server_id \<and> date_le start_date date \<and> date_le date end_date)
       (traffic_daily db)"

text \<open>Today's hourly rows, while there is no daily row of today.\<close>

definition pending_sum :: "(int \<times> int \<Rightarrow> int) \<Rightarrow> traffic_db \<Rightarrow> string \<Rightarrow> date \<Rightarrow> int" where
  "pending_sum f db server_id today =
     sum_rows f (\<lambda>(s, hour). s = server_id \<and> fst hour = today \<and> \<not> thas (traffic_daily db) (s, today))
       (traffic_hourly db)"

definition query_cycle_traffic ::
  "bool \<times> bool \<Rightarrow> traffic_db \<Rightarrow> stamp \<Rightarrow> string \<Rightarrow> date \<Rightarrow> date \<Rightarrow> app_error + int \<times> int" where
  "query_cycle_traffic ok db now server_id start_date end_date =
     (if \<not> fst ok then Inl db_error
      else if \<not> snd ok then Inl db_error
      else let today = fst now in
        Inr (wrap_i64 (daily_sum fst db server_id start_date end_date + pending_sum fst db server_id today),
             wrap_i64 (daily_sum snd db server_id start_date end_date + pending_sum snd db server_id today)))"

record cycle_traffic =
  ct_start :: date
  ct_end :: date
  ct_bytes_in :: int
  ct_bytes_out :: int

fun cycle_history_loop ::
  "traffic_db \<Rightarrow> stamp \<Rightarrow> string \<Rightarrow> string \<Rightarrow> int option \<Rightarrow> (bool \<times> bool) list \<Rightarrow> date \<Rightarrow> date \<Rightarrow>
   (app_error + cycle_traffic list) option" where
  "cycle_history_loop db now server_id billing_cycle billing_start_day [] start end_date = Some (Inr [])"
| "cycle_history_loop db now server_id billing_cycle billing_start_day (ok # oks) start end_date =
     (case query_cycle_traffic ok db now server_id start end_date of
        Inl e \<Rightarrow> Some (Inl e)
      | Inr (bytes_in, bytes_out) \<Rightarrow>
          (case get_cycle_range billing_cycle billing_start_day (pred_day start) of
             None \<Rightarrow> None
           | Some (prev_start, prev_end) \<Rightarrow>
               map_option (\<lambda>r. try_bind r (\<lambda>rest. Inr (\<lparr>ct_start = start, ct_end = end_date,
                   ct_bytes_in = bytes_in, ct_bytes_out = bytes_out\<rparr> # rest)))
                 (cycle_history_loop db now server_id billing_cycle billing_start_day oks
                    prev_start prev_end)))"

text \<open>The outcomes of the queries, two for each of the \<open>count\<close> cycles.\<close>

definition cycle_history ::
  "traffic_db \<Rightarrow> stamp \<Rightarrow> string \<Rightarrow> string \<Rightarrow> int option \<Rightarrow> (bool \<times> bool) list \<Rightarrow>
   (app_error + cycle_traffic list) option" where
  "cycle_history db now server_id billing_cycle billing_start_day oks =
     (case get_cycle_range billing_cycle billing_start_day (fst now) of
        None \<Rightarrow> None
      | Some (start, end_date) \<Rightarrow>
          cycle_history_loop db now server_id billing_cycle billing_start_day oks start end_date)"

section \<open>No byte is lost\<close>

lemma sum_rows_Nil [simp]: "sum_rows f P [] = 0"
  by (simp add: sum_rows_def)

lemma sum_rows_Cons [simp]: "sum_rows f P ((k, v) # t) = (if P k then f v else 0) + sum_rows f P t"
  by (simp add: sum_rows_def)

lemma sum_rows_tput:
  "sum_rows f P (tput k v t) =
   sum_rows f P t + (if P k then f v - (case tget t k of None \<Rightarrow> 0 | Some u \<Rightarrow> f u) else 0)"
proof (induction t)
  case Nil
  then show ?case by (simp add: tput_def)
next
  case (Cons p t)
  then show ?case by (cases p) (auto simp: tput_def tget_def)
qed

lemma sum_rows_cong:
  "(\<And>k v. (k, v) \<in> set t \<Longrightarrow> P k = Q k) \<Longrightarrow> sum_rows f P t = sum_rows f Q t"
proof (induction t)
  case Nil
  then show ?case by simp
next
  case (Cons p t)
  obtain k v where p: "p = (k, v)" by (cases p)
  have "P k = Q k" by (rule Cons.prems [of k v]) (simp add: p)
  moreover have "sum_rows f P t = sum_rows f Q t"
  proof (rule Cons.IH)
    show "P k = Q k" if "(k, v) \<in> set t" for k v
      by (rule Cons.prems [of k v]) (simp add: that)
  qed
  ultimately show ?case by (simp add: p)
qed

definition server_total :: "(int \<times> int \<Rightarrow> int) \<Rightarrow> traffic_db \<Rightarrow> string \<Rightarrow> int" where
  "server_total f db s = sum_rows f (\<lambda>(s', _). s' = s) (traffic_hourly db)"

definition stored_counters :: "traffic_db \<Rightarrow> string \<Rightarrow> (int \<times> int) option" where
  "stored_counters db s = map_option (\<lambda>(last_in, last_out, _). (last_in, last_out)) (tget (traffic_state db) s)"

text \<open>The counters of a server the ticks carry; a report with two zero counters has none.\<close>

definition report_counters :: "system_report \<Rightarrow> int \<times> int" where
  "report_counters r = (sr_net_in_transfer r, sr_net_out_transfer r)"

definition observed_of ::
  "string \<Rightarrow> ((string \<times> system_report) \<times> write_outcome) list \<Rightarrow> ((int \<times> int) \<times> write_outcome) list" where
  "observed_of s reports =
     filter (\<lambda>(c, _). c \<noteq> (0, 0)) (map (\<lambda>((_, r), w). (report_counters r, w)) (filter (\<lambda>r. fst (fst r) = s) reports))"

text \<open>With the outcomes of the writes each of them caused.\<close>

definition observed :: "string \<Rightarrow> tick list \<Rightarrow> ((int \<times> int) \<times> write_outcome) list" where
  "observed s ticks = concat (map (observed_of s \<circ> snd) ticks)"

text \<open>What a counter held when it restarted from zero.\<close>

fun lost_at_resets :: "int list \<Rightarrow> int" where
  "lost_at_resets (a # b # xs) = (if b < a then a else 0) + lost_at_resets (b # xs)"
| "lost_at_resets xs = 0"

text \<open>The bytes between the first and the last of a list of counters.\<close>

definition bytes_between :: "int list \<Rightarrow> int" where
  "bytes_between xs = (if xs = [] then 0 else last xs - hd xs + lost_at_resets xs)"

definition counters_ok :: "int \<times> int \<Rightarrow> bool" where
  "counters_ok c \<longleftrightarrow> 0 \<le> fst c \<and> fst c < 2 ^ 63 \<and> 0 \<le> snd c \<and> snd c < 2 ^ 63"

definition report_ok :: "(string \<times> system_report) \<times> write_outcome \<Rightarrow> bool" where
  "report_ok r \<longleftrightarrow> counters_ok (report_counters (snd (fst r)))"

text \<open>The bytes from one reading to the next.\<close>

definition bytes_step :: "int \<Rightarrow> int \<Rightarrow> int" where
  "bytes_step a b = (if a \<le> b then b - a else b)"

text \<open>The bytes of the readings whose hourly write failed, each counted from the reading before it.\<close>

fun bytes_unwritten :: "(int \<times> int \<Rightarrow> int) \<Rightarrow> (int \<times> int) option \<Rightarrow> ((int \<times> int) \<times> write_outcome) list \<Rightarrow> int" where
  "bytes_unwritten f prev [] = 0"
| "bytes_unwritten f prev ((c, w) # xs) =
     (case prev of None \<Rightarrow> 0 | Some p \<Rightarrow> if hourly_ok w then 0 else bytes_step (f p) (f c)) +
     bytes_unwritten f (Some c) xs"

text \<open>The counters stored after the readings: the last whose state write succeeded.\<close>

definition last_stored :: "(int \<times> int) option \<Rightarrow> ((int \<times> int) \<times> write_outcome) list \<Rightarrow> (int \<times> int) option" where
  "last_stored start xs = foldl (\<lambda>stored (c, w). if state_ok w then Some c else stored) start xs"

abbreviation opt_list :: "'a option \<Rightarrow> 'a list" where
  "opt_list x \<equiv> (case x of None \<Rightarrow> [] | Some a \<Rightarrow> [a])"

lemma bytes_between_snoc:
  "bytes_between (xs @ [a, b]) = bytes_between (xs @ [a]) + bytes_step a b"
proof -
  have "lost_at_resets (xs @ [a, b]) = lost_at_resets (xs @ [a]) + (if b < a then a else 0)"
    by (induction xs rule: lost_at_resets.induct) auto
  then show ?thesis by (cases xs) (auto simp: bytes_between_def bytes_step_def)
qed

definition last_seen :: "(int \<times> int) option \<Rightarrow> ((int \<times> int) \<times> write_outcome) list \<Rightarrow> (int \<times> int) option" where
  "last_seen start xs = (if xs = [] then start else Some (fst (last xs)))"

lemma last_seen_simps [simp]:
  "last_seen start [] = start" "last_seen start (xs @ [x]) = Some (fst x)"
  by (simp_all add: last_seen_def)

lemma last_seen_Cons: "last_seen start ((c, w) # xs) = last_seen (Some c) xs"
  by (simp add: last_seen_def)

lemma bytes_unwritten_snoc:
  "bytes_unwritten f start (xs @ [(c, w)]) = bytes_unwritten f start xs +
     (case last_seen start xs of None \<Rightarrow> 0 | Some p \<Rightarrow> if hourly_ok w then 0 else bytes_step (f p) (f c))"
proof (induction xs arbitrary: start)
  case Nil
  then show ?case by (simp split: option.split)
next
  case (Cons x xs)
  then show ?case by (cases x) (simp add: last_seen_Cons split: option.split)
qed

lemma last_stored_snoc [simp]:
  "last_stored start [] = start"
  "last_stored start (xs @ [(c, w)]) = (if state_ok w then Some c else last_stored start xs)"
  by (simp_all add: last_stored_def)

text \<open>The counters seen end with the last one.\<close>

lemma seen_last:
  assumes "last_seen start xs = Some c"
  obtains ys where "opt_list start @ map fst xs = ys @ [c]"
  using assms by (cases xs rule: rev_cases) (auto simp: last_seen_def split: option.splits)

text \<open>One report, for the server it is of and for any other.\<close>

lemma hourly_or_unchanged_state [simp]:
  "traffic_hourly (or_unchanged db (upsert_state ok db s now i u)) = traffic_hourly db"
  by (simp add: or_unchanged_def upsert_state_def)

lemma stored_upsert_state:
  "stored_counters (or_unchanged db (upsert_state ok db s now i u)) s' =
   (if ok \<and> s' = s then Some (i, u) else stored_counters db s')"
  by (simp add: or_unchanged_def upsert_state_def stored_counters_def table_simps)

lemma stored_upsert_hourly [simp]:
  "stored_counters (or_unchanged db (upsert_hourly ok db s h i u)) s' = stored_counters db s'"
  by (simp add: or_unchanged_def upsert_hourly_def stored_counters_def)

lemma total_upsert_hourly:
  assumes "f = fst \<or> f = snd"
  shows "server_total f (or_unchanged db (upsert_hourly ok db s h i u)) s' =
   server_total f db s' + (if ok \<and> s' = s then f (i, u) else 0)"
  using assms
  by (auto simp: or_unchanged_def upsert_hourly_def server_total_def sum_rows_tput split: option.split)

lemma delta_nonneg:
  assumes "counters_ok (a, b)" and "counters_ok (x, y)"
  shows "compute_delta a b x y = (bytes_step a x, bytes_step b y)"
    and "0 \<le> fst (compute_delta a b x y)" and "0 \<le> snd (compute_delta a b x y)"
proof -
  show eq: "compute_delta a b x y = (bytes_step a x, bytes_step b y)"
    using assms by (auto simp: compute_delta_def bytes_step_def counters_ok_def intro!: wrap_i64_id simp: in_i64_def)
  show "0 \<le> fst (compute_delta a b x y)" "0 \<le> snd (compute_delta a b x y)"
    using assms unfolding eq by (auto simp: counters_ok_def bytes_step_def)
qed

text \<open>
  The state between two reports, against the readings observed so far, from the counters \<open>start\<close>
  of the cache and \<open>stored\<close> of the table: the cache holds the last ones, the table the last whose
  write succeeded, and the hourly rows have grown by the bytes from \<open>start\<close> to the last reading
  that were written.
\<close>

definition accounts ::
  "(int \<times> int \<Rightarrow> int) \<Rightarrow> string \<Rightarrow> int \<Rightarrow> (int \<times> int) option \<Rightarrow> (int \<times> int) option \<Rightarrow>
   ((int \<times> int) \<times> write_outcome) list \<Rightarrow> traffic_db \<Rightarrow> transfer_cache \<Rightarrow> bool" where
  "accounts f s before start stored obs db cache \<longleftrightarrow>
     server_total f db s =
       before + bytes_between (map f (opt_list start @ map fst obs)) - bytes_unwritten f start obs \<and>
     tget cache s = last_seen start obs \<and> stored_counters db s = last_stored stored obs \<and>
     list_all counters_ok (opt_list (last_seen start obs))"

lemma accounts_report:
  assumes f: "f = fst \<or> f = snd" and acc: "accounts f s before start stored obs db cache"
    and r: "report_ok ((s', r), w)"
    and step: "flush_report h now (db, cache, n) ((s', r), w) = (db', cache', n')"
  shows "accounts f s before start stored (obs @ observed_of s [((s', r), w)]) db' cache'"
proof (cases "report_counters r = (0, 0)")
  case True
  with step have "db' = db" "cache' = cache"
    by (auto simp: report_counters_def Let_def)
  with True acc show ?thesis by (simp add: observed_of_def)
next
  case live: False
  obtain x y where xy: "sr_net_in_transfer r = x" "sr_net_out_transfer r = y" by blast
  with live have nz: "\<not> (x = 0 \<and> y = 0)" by (simp add: report_counters_def)
  from r xy have ok: "counters_ok (x, y)" by (simp add: report_ok_def report_counters_def)
  have obs: "observed_of s [((s', r), w)] = (if s' = s then [((x, y), w)] else [])"
    using live xy by (simp add: observed_of_def report_counters_def)
  show ?thesis
  proof (cases "tget cache s'")
    case None
    with step nz xy have db': "db' = or_unchanged db (upsert_state (state_ok w) db s' now x y)"
      and cache': "cache' = tput s' (x, y) cache"
      by (auto simp: Let_def)
    have total: "server_total f db' s = server_total f db s" by (simp add: db' server_total_def)
    show ?thesis
    proof (cases "s' = s")
      case True
      with acc None have "last_seen start obs = None" by (simp add: accounts_def)
      then have "start = None" "obs = []" by (auto simp: last_seen_def split: if_splits)
      moreover have "observed_of s [((s, r), w)] = [((x, y), w)]" using obs True by simp
      ultimately show ?thesis using acc ok True total
        by (simp add: accounts_def cache' db' stored_upsert_state table_simps bytes_between_def last_seen_def
            last_stored_def)
    next
      case False
      with acc total show ?thesis by (simp add: accounts_def cache' db' stored_upsert_state table_simps obs)
    qed
  next
    case (Some c)
    obtain a b where c: "c = (a, b)" by (cases c)
    let ?d = "compute_delta a b x y"
    let ?up = "or_unchanged db (upsert_hourly (hourly_ok w) db s' h (fst ?d) (snd ?d))"
    define mid where "mid = (if 0 < fst ?d \<or> 0 < snd ?d then ?up else db)"
    from step Some nz xy c have db': "db' = or_unchanged mid (upsert_state (state_ok w) mid s' now x y)"
      and cache': "cache' = tput s' (x, y) cache"
      by (auto simp: Let_def mid_def split: prod.splits if_splits)
    have state: "stored_counters db' t = (if state_ok w \<and> t = s' then Some (x, y) else stored_counters db t)" for t
      by (simp add: db' stored_upsert_state mid_def)
    show ?thesis
    proof (cases "s' = s")
      case True
      with acc Some c have seen: "last_seen start obs = Some (a, b)" by (simp add: accounts_def)
      then have "counters_ok (a, b)" using acc by (simp add: accounts_def)
      note d = delta_nonneg [OF this ok]
      have "server_total f mid s = server_total f db s + (if hourly_ok w then f ?d else 0)"
        using d(2,3) f unfolding mid_def True by (auto simp: total_upsert_hourly [OF f])
      then have "server_total f db' s = server_total f db s + (if hourly_ok w then f ?d else 0)"
        by (simp add: db' server_total_def)
      moreover have fd: "f ?d = bytes_step (f (a, b)) (f (x, y))" using f unfolding d(1) by auto
      moreover have "bytes_between (map f (opt_list start @ map fst (obs @ [((x, y), w)]))) =
          bytes_between (map f (opt_list start @ map fst obs)) + f ?d"
      proof -
        obtain ys where ys: "opt_list start @ map fst obs = ys @ [(a, b)]" using seen by (rule seen_last)
        have "opt_list start @ map fst (obs @ [((x, y), w)]) = (opt_list start @ map fst obs) @ [(x, y)]" by simp
        also have "\<dots> = ys @ [(a, b), (x, y)]" unfolding ys by simp
        finally have now: "opt_list start @ map fst (obs @ [((x, y), w)]) = ys @ [(a, b), (x, y)]" .
        show ?thesis unfolding now ys fd using bytes_between_snoc [of "map f ys" "f (a, b)" "f (x, y)"] by simp
      qed
      moreover have "observed_of s [((s, r), w)] = [((x, y), w)]" using obs True by simp
      ultimately show ?thesis
        using acc ok True seen state
        by (simp add: accounts_def cache' table_simps bytes_unwritten_snoc)
    next
      case False
      then have "server_total f db' s = server_total f db s"
        unfolding db' by (simp add: server_total_def mid_def)
          (use total_upsert_hourly [OF f, of db "hourly_ok w" s' h "fst ?d" "snd ?d" s] in \<open>auto simp: server_total_def\<close>)
      with False acc show ?thesis
        by (simp add: accounts_def cache' state table_simps obs)
    qed
  qed
qed

lemma observed_of_Cons: "observed_of s (r # rs) = observed_of s [r] @ observed_of s rs"
  by (simp add: observed_of_def)

lemma accounts_fold:
  assumes "f = fst \<or> f = snd" and "list_all report_ok rs" and "accounts f s before start stored obs db cache"
    and "foldl (flush_report h now) (db, cache, n) rs = (db', cache', n')"
  shows "accounts f s before start stored (obs @ observed_of s rs) db' cache'"
  using assms(2-)
proof (induction rs arbitrary: obs db cache n)
  case Nil
  then show ?case by (simp add: observed_of_def)
next
  case (Cons r rs)
  obtain s' rep w where r: "r = ((s', rep), w)" by (metis prod.collapse)
  obtain db1 cache1 n1 where step: "flush_report h now (db, cache, n) r = (db1, cache1, n1)"
    by (metis prod_cases3)
  from Cons.prems(1) have "report_ok ((s', rep), w)" by (simp add: r)
  from accounts_report [OF assms(1) Cons.prems(2) this step [unfolded r]]
  have "accounts f s before start stored (obs @ observed_of s [r]) db1 cache1" unfolding r .
  moreover have "foldl (flush_report h now) (db1, cache1, n1) rs = (db', cache', n')"
    using Cons.prems(3) by (simp only: foldl_Cons step)
  ultimately have "accounts f s before start stored ((obs @ observed_of s [r]) @ observed_of s rs) db' cache'"
    by (intro Cons.IH) (use Cons.prems(1) in simp_all)
  then show ?case by (simp only: append_assoc observed_of_Cons [of s r rs, symmetric])
qed

lemma accounts_run:
  assumes "f = fst \<or> f = snd" and "list_all (\<lambda>t. list_all report_ok (snd t)) ticks"
    and "accounts f s before start stored obs db cache"
    and "foldl flush_tick (db, cache) ticks = (db', cache')"
  shows "accounts f s before start stored (obs @ observed s ticks) db' cache'"
  using assms(2-)
proof (induction ticks arbitrary: obs db cache)
  case Nil
  then show ?case by (simp add: observed_def)
next
  case (Cons t ticks)
  obtain db1 cache1 n1 where step:
    "foldl (flush_report (hour_of (fst t)) (fst t)) (db, cache, 0) (snd t) = (db1, cache1, n1)"
    by (metis prod_cases3)
  from Cons.prems have "accounts f s before start stored (obs @ observed_of s (snd t)) db1 cache1"
    by (intro accounts_fold [OF assms(1) _ _ step]) simp_all
  moreover have "foldl flush_tick (db1, cache1) ticks = (db', cache')"
    using Cons.prems(3)
    by (simp only: foldl_Cons flush_tick_def [of "(db, cache)" t] flush_reports_def fst_conv snd_conv
        step prod.case)
  ultimately have "accounts f s before start stored ((obs @ observed_of s (snd t)) @ observed s ticks) db' cache'"
    by (intro Cons.IH) (use Cons.prems(1) in simp_all)
  then show ?case by (simp add: observed_def)
qed

lemma tget_foldl_tput:
  "distinct (keys rows) \<Longrightarrow>
   tget (foldl (\<lambda>t (k, v). tput k (g v) t) t rows) k =
     (case tget rows k of Some v \<Rightarrow> Some (g v) | None \<Rightarrow> tget t k)"
proof (induction rows arbitrary: t)
  case Nil
  then show ?case by simp
next
  case (Cons p rows)
  obtain k' v where p: "p = (k', v)" by (cases p)
  with Cons.prems have "tget rows k' = None" by (simp add: tget_def map_of_eq_None_iff)
  moreover have "tget (p # rows) k = (if k = k' then Some v else tget rows k)"
    by (simp add: p tget_def)
  ultimately show ?case
    using Cons.IH [of "tput k' (g v) t"] Cons.prems by (simp add: p table_simps split: option.split)
qed

lemma load_transfer_cache_stored:
  assumes "table_ok (traffic_state db)" and "load_transfer_cache True db = Inr cache"
  shows "tget cache s = stored_counters db s"
proof -
  have "cache = foldl (\<lambda>t (k, v). tput k (case v of (i, u, _) \<Rightarrow> (i, u)) t) [] (traffic_state db)"
    using assms(2) by (simp add: load_transfer_cache_def split_def)
  then show ?thesis
    using tget_foldl_tput [of "traffic_state db" "\<lambda>v. case v of (i, u, _) \<Rightarrow> (i, u)" "[]" s] assms(1)
    by (auto simp: table_ok_def stored_counters_def split: option.splits)
qed

text \<open>
  Claim C25: every byte is accounted for.  Over any run of the writer from a start of the server,
  with any of its writes failing, the hourly rows of a server grow in each direction by exactly
  the bytes between the counters the cache starts with and the last ones reported (their
  difference, plus what a counter held whenever the host restarted it), less those of the reports
  whose hourly write failed; and the stored counters, from which the next start continues, are the
  last whose write succeeded.  So nothing is lost or counted twice when the writes succeed.  The
  counters are 63-bit and the totals stay in 64 bits.
\<close>

theorem traffic_conserved:
  assumes "f = fst \<or> f = snd" and "table_ok (traffic_state db)"
    and "list_all (\<lambda>t. list_all report_ok (snd t)) ticks"
    and "list_all counters_ok (opt_list (stored_counters db s))"
    and "start = (if loaded then stored_counters db s else None)"
  shows "server_total f (fst (record_writer_run loaded db ticks)) s =
      server_total f db s + bytes_between (map f (opt_list start @ map fst (observed s ticks)))
        - bytes_unwritten f start (observed s ticks) \<and>
    stored_counters (fst (record_writer_run loaded db ticks)) s =
      last_stored (stored_counters db s) (observed s ticks)"
proof -
  let ?cache = "case load_transfer_cache loaded db of Inr cache \<Rightarrow> cache | Inl _ \<Rightarrow> []"
  have cache: "tget ?cache s = start"
    using load_transfer_cache_stored [OF assms(2)] assms(5)
    by (cases loaded) (simp_all add: load_transfer_cache_def tget_def)
  then have "accounts f s (server_total f db s) start (stored_counters db s) [] db ?cache"
    using assms(4,5) by (simp add: accounts_def bytes_between_def split: option.splits)
  moreover obtain db' cache' where run: "foldl flush_tick (db, ?cache) ticks = (db', cache')" by fastforce
  ultimately have "accounts f s (server_total f db s) start (stored_counters db s) ([] @ observed s ticks) db' cache'"
    by (rule accounts_run [OF assms(1,3)])
  with run show ?thesis by (simp add: record_writer_run_def accounts_def)
qed

text \<open>When every write succeeds nothing is missing, and the table holds the last counters.\<close>

lemma all_written:
  assumes "list_all (\<lambda>(_, w). hourly_ok w \<and> state_ok w) xs"
  shows "bytes_unwritten f start xs = 0" and "last_stored start xs = last_seen start xs"
proof -
  show "bytes_unwritten f start xs = 0"
    using assms by (induction xs arbitrary: start) (auto split: option.split)
  show "last_stored start xs = last_seen start xs"
    using assms by (induction xs rule: rev_induct) auto
qed

definition example_report :: "int \<Rightarrow> int \<Rightarrow> system_report" where
  "example_report i u = \<lparr>sr_cpu = undefined, sr_mem_used = 0, sr_swap_used = 0, sr_disk_used = 0,
     sr_net_in_speed = 0, sr_net_out_speed = 0, sr_net_in_transfer = i, sr_net_out_transfer = u,
     sr_load1 = undefined, sr_load5 = undefined, sr_load15 = undefined, sr_tcp_conn = 0,
     sr_udp_conn = 0, sr_process_count = 0, sr_uptime = 0, sr_disk_io = None, sr_temperature = None,
     sr_gpu = None\<rparr>"

text \<open>A report, one whose hourly write fails, and the host restarts before the last.\<close>

definition example_ticks :: "tick list" where
  "example_ticks =
     [(((2026, 3, 17), 10, 30, 0), [((''a'', example_report 150 60), \<lparr>record_ok = True, hourly_ok = True, state_ok = True\<rparr>)]),
      (((2026, 3, 17), 11, 30, 0), [((''a'', example_report 180 60), \<lparr>record_ok = True, hourly_ok = False, state_ok = True\<rparr>)]),
      (((2026, 3, 17), 12, 30, 0), [((''a'', example_report 20 70), \<lparr>record_ok = False, hourly_ok = True, state_ok = False\<rparr>)])]"

definition example_db :: traffic_db where
  "example_db = \<lparr>traffic_hourly = [], traffic_daily = [],
     traffic_state = [(''a'', 100, 50, (2026, 3, 17), 9, 0, 0)]\<rparr>"

theorem traffic_conserved_witness:
  "server_total fst (fst (record_writer_run True example_db example_ticks)) ''a'' = 70 \<and>
   stored_counters (fst (record_writer_run True example_db example_ticks)) ''a'' = Some (180, 60)"
proof -
  have hyp: "table_ok (traffic_state example_db)"
    "list_all (\<lambda>t. list_all report_ok (snd t)) example_ticks"
    "list_all counters_ok (opt_list (stored_counters example_db ''a''))"
    by (simp_all add: example_db_def example_ticks_def example_report_def table_ok_def report_ok_def
        counters_ok_def report_counters_def stored_counters_def tget_def)
  let ?obs = "observed ''a'' example_ticks"
  have val: "server_total fst example_db ''a'' +
      bytes_between (map fst (opt_list (stored_counters example_db ''a'') @ map fst ?obs)) -
      bytes_unwritten fst (stored_counters example_db ''a'') ?obs = 70"
    "last_stored (stored_counters example_db ''a'') ?obs = Some (180, 60)"
    by (simp_all add: example_db_def example_ticks_def example_report_def server_total_def bytes_unwritten.simps
        stored_counters_def observed_def observed_of_def report_counters_def bytes_between_def tget_def bytes_step_def
        last_stored_def)
  have "stored_counters example_db ''a'' = (if True then stored_counters example_db ''a'' else None)" by simp
  from traffic_conserved [OF disjI1 [OF refl] hyp this] val show ?thesis by simp
qed

section \<open>The roll-up of a day\<close>

text \<open>The zone whose local time is UTC.\<close>

definition utc_zone :: time_zone where
  "utc_zone = \<lparr>tz_local = id, tz_utc = (\<lambda>t. Some (t, t))\<rparr>"

lemma tget_foldl_tput_day:
  "tget (foldl (\<lambda>t s. tput (s, day) (h s) t) t ss) (s, d) =
     (if d = day \<and> s \<in> set ss then Some (h s) else tget t (s, d))"
  by (induction ss arbitrary: t) (auto simp: table_simps)

lemma date_le_antisym: "date_le a b \<Longrightarrow> date_le b a \<Longrightarrow> a = b"
  by (cases a; cases b) (auto simp: date_le.simps)

lemma in_groups:
  "s \<in> set [s. ((s, hour), _) \<leftarrow> rows, P s hour] \<longleftrightarrow> (\<exists>hour v. ((s, hour), v) \<in> set rows \<and> P s hour)"
  by (induction rows) auto

lemma hms_le_start: "hms_le (0, 0, 0) t"
  by (cases t) auto

text \<open>
  The daily row of every server with hourly rows of the day is their sum, and nothing else
  changes; a second roll-up gives the same rows.
\<close>

lemma aggregated_day_exact:
  assumes "aggregate_daily_for_date True db day utc_zone = Some (Inr (db', n))"
    and "\<And>s d t v. ((s, d, t), v) \<in> set (traffic_hourly db) \<Longrightarrow> hms_le t end_of_day"
  shows "tget (traffic_daily db') (s, d) =
    (if d = day \<and> (\<exists>t v. ((s, day, t), v) \<in> set (traffic_hourly db))
     then Some (sum_rows fst (\<lambda>(s', d, _). s' = s \<and> d = day) (traffic_hourly db),
                sum_rows snd (\<lambda>(s', d, _). s' = s \<and> d = day) (traffic_hourly db))
     else tget (traffic_daily db) (s, d))" (is "?lhs = ?rhs")
    and "traffic_hourly db' = traffic_hourly db"
    and "aggregate_daily_for_date True db' day utc_zone = Some (Inr (db'', n')) \<Longrightarrow>
      tget (traffic_daily db'') (s, d) = tget (traffic_daily db') (s, d)"
proof -
  let ?in = "\<lambda>s (server_id, hour). server_id = s \<and> stamp_le (day, 0, 0, 0) hour \<and> stamp_le hour (day, end_of_day)"
  let ?day = "\<lambda>s (s', d, t). s' = s \<and> d = day"
  have exact: "tget (traffic_daily db2) (s, d) =
      (if d = day \<and> (\<exists>t v. ((s, day, t), v) \<in> set (traffic_hourly db1))
       then Some (sum_rows fst (?day s) (traffic_hourly db1), sum_rows snd (?day s) (traffic_hourly db1))
       else tget (traffic_daily db1) (s, d)) \<and> traffic_hourly db2 = traffic_hourly db1"
    if agg: "aggregate_daily_for_date True db1 day utc_zone = Some (Inr (db2, m))"
      and rows: "traffic_hourly db1 = traffic_hourly db" for db1 db2 m
  proof -
    have in_day: "stamp_le (day, 0, 0, 0) hour \<and> stamp_le hour (day, end_of_day) \<longleftrightarrow> fst hour = day"
      if "((s, hour), v) \<in> set (traffic_hourly db)" for s hour v
    proof -
      obtain d' t where hour: "hour = (d', t)" by (cases hour)
      have "\<not> (d' \<noteq> day \<and> date_le day d' \<and> date_le d' day)" using date_le_antisym by blast
      with assms(2) [OF that [unfolded hour]] show ?thesis by (auto simp: hour hms_le_start)
    qed
    have sel: "?in s k \<longleftrightarrow> ?day s k" if "(k, v) \<in> set (traffic_hourly db)" for k v s
      using in_day [of "fst k" "snd k" v] that by (cases k) auto
    have sums: "sum_rows f (?in s) (traffic_hourly db) = sum_rows f (?day s) (traffic_hourly db)" for f s
      by (rule sum_rows_cong) (rule sel)
    let ?groups = "remdups [s. ((s, hour), _) \<leftarrow> traffic_hourly db, ?in s (s, hour)]"
    have "s \<in> set ?groups \<longleftrightarrow> (\<exists>hour v. ((s, hour), v) \<in> set (traffic_hourly db) \<and>
        stamp_le (day, 0, 0, 0) hour \<and> stamp_le hour (day, end_of_day))"
      unfolding set_remdups in_groups by simp
    also have "\<dots> \<longleftrightarrow> (\<exists>hour v. ((s, hour), v) \<in> set (traffic_hourly db) \<and> fst hour = day)"
      using in_day by blast
    also have "\<dots> \<longleftrightarrow> (\<exists>t v. ((s, day, t), v) \<in> set (traffic_hourly db))"
      by (metis fst_conv prod.collapse)
    finally have "s \<in> set ?groups \<longleftrightarrow> (\<exists>t v. ((s, day, t), v) \<in> set (traffic_hourly db))" .
    then show ?thesis
      using agg unfolding aggregate_daily_for_date_def utc_zone_def rows
      by (auto simp: Let_def sums tget_foldl_tput_day rows simp del: set_remdups set_concat)
  qed
  note day = exact [OF assms(1) refl]
  then show "?lhs = ?rhs" "traffic_hourly db' = traffic_hourly db" by simp_all
  show "tget (traffic_daily db'') (s, d) = tget (traffic_daily db') (s, d)"
    if "aggregate_daily_for_date True db' day utc_zone = Some (Inr (db'', n'))"
    using exact [OF that, THEN conjunct1] day unfolding day [THEN conjunct2]
    by (simp only: split: if_split) blast
qed

section \<open>The history of the cycles\<close>

lemma sum_rows_split:
  assumes "\<And>k v. (k, v) \<in> set t \<Longrightarrow> R k \<longleftrightarrow> P k \<or> Q k"
    and "\<And>k v. (k, v) \<in> set t \<Longrightarrow> \<not> (P k \<and> Q k)"
  shows "sum_rows f R t = sum_rows f P t + sum_rows f Q t"
  using assms
proof (induction t)
  case Nil
  then show ?case by simp
next
  case (Cons p t)
  obtain k v where p: "p = (k, v)" by (cases p)
  have "R k \<longleftrightarrow> P k \<or> Q k" "\<not> (P k \<and> Q k)" using Cons.prems [of k v] by (simp_all add: p)
  moreover have "sum_rows f R t = sum_rows f P t + sum_rows f Q t"
  proof (rule Cons.IH)
    fix k v assume "(k, v) \<in> set t"
    then have "(k, v) \<in> set (p # t)" by simp
    then show "R k \<longleftrightarrow> P k \<or> Q k" "\<not> (P k \<and> Q k)" using Cons.prems by blast+
  qed
  ultimately show ?case by (auto simp: p)
qed

lemma sum_rows_mono:
  assumes "\<And>k v. (k, v) \<in> set t \<Longrightarrow> 0 \<le> f v"
  shows "0 \<le> sum_rows f P t \<and> sum_rows f P t \<le> sum_rows f (\<lambda>_. True) t"
  using assms
proof (induction t)
  case Nil
  then show ?case by simp
next
  case (Cons p t)
  obtain k v where p: "p = (k, v)" by (cases p)
  have "0 \<le> f v" using Cons.prems [of k v] by (simp add: p)
  moreover have "0 \<le> sum_rows f P t \<and> sum_rows f P t \<le> sum_rows f (\<lambda>_. True) t"
    by (rule Cons.IH) (use Cons.prems in force)
  ultimately show ?case by (auto simp: p)
qed

text \<open>
  Tables without overflow: the rows are not negative, all of them together stay below \<open>2 ^ 63\<close>,
  and the dates are dates.
\<close>

definition tables_fit :: "traffic_db \<Rightarrow> bool" where
  "tables_fit db \<longleftrightarrow>
     list_all (\<lambda>((_, d), b_in, b_out). valid_date d \<and> 0 \<le> b_in \<and> 0 \<le> b_out) (traffic_daily db) \<and>
     list_all (\<lambda>(_, b_in, b_out). 0 \<le> b_in \<and> 0 \<le> b_out) (traffic_hourly db) \<and>
     (\<forall>f \<in> {fst, snd}. sum_rows f (\<lambda>_. True) (traffic_daily db) +
        sum_rows f (\<lambda>_. True) (traffic_hourly db) < 2 ^ 63)"

lemma cycle_sum_fits:
  assumes "tables_fit db" and f: "f = fst \<or> f = snd"
  shows "wrap_i64 (daily_sum f db s a b + pending_sum f db s t) = daily_sum f db s a b + pending_sum f db s t"
proof (rule wrap_i64_id)
  have "0 \<le> f v" if "(k, v) \<in> set (traffic_daily db)" for k v
    using assms that by (cases k; cases v) (fastforce simp: tables_fit_def list_all_iff)
  moreover have "0 \<le> f v" if "(k, v) \<in> set (traffic_hourly db)" for k v
    using assms that by (cases v) (fastforce simp: tables_fit_def list_all_iff)
  moreover have "sum_rows f (\<lambda>_. True) (traffic_daily db) + sum_rows f (\<lambda>_. True) (traffic_hourly db) < 2 ^ 63"
    using assms by (auto simp: tables_fit_def)
  ultimately show "in_i64 (daily_sum f db s a b + pending_sum f db s t)"
    unfolding daily_sum_def pending_sum_def in_i64_def
    using sum_rows_mono [of "traffic_daily db" f] sum_rows_mono [of "traffic_hourly db" f]
    by (smt (verit) zero_less_power)
qed

lemma daily_sum_adjacent:
  assumes "tables_fit db" and "valid_date b" and "date_le a (pred_day b)" and "date_le b c"
  shows "daily_sum f db s a c = daily_sum f db s a (pred_day b) + daily_sum f db s b c"
  unfolding daily_sum_def
proof (rule sum_rows_split)
  fix k v assume "(k, v) \<in> set (traffic_daily db)"
  moreover obtain s' d where k: "k = (s', d)" by (cases k)
  ultimately have "valid_date d" using assms(1) by (cases v) (auto simp: tables_fit_def list_all_iff)
  from date_le_pred [OF this assms(2)]
  have "date_le d (pred_day b) \<longleftrightarrow> \<not> date_le b d" .
  then show "(case k of (s', d) \<Rightarrow> s' = s \<and> date_le a d \<and> date_le d c) \<longleftrightarrow>
      (case k of (s', d) \<Rightarrow> s' = s \<and> date_le a d \<and> date_le d (pred_day b)) \<or>
      (case k of (s', d) \<Rightarrow> s' = s \<and> date_le b d \<and> date_le d c)"
    "\<not> ((case k of (s', d) \<Rightarrow> s' = s \<and> date_le a d \<and> date_le d (pred_day b)) \<and>
      (case k of (s', d) \<Rightarrow> s' = s \<and> date_le b d \<and> date_le d c))"
    using assms(3,4) date_le_trans date_le_total unfolding k by (simp_all, metis)
qed

abbreviation ct_sum :: "(int \<times> int \<Rightarrow> int) \<Rightarrow> cycle_traffic list \<Rightarrow> int" where
  "ct_sum f rows \<equiv> sum_list (map (\<lambda>r. f (ct_bytes_in r, ct_bytes_out r)) rows)"

lemma cycle_history_loop_accounts:
  assumes fit: "tables_fit db" and f: "f = fst \<or> f = snd"
    and "valid_date d" and "2 * int (length oks) < fst d"
    and "list_all (\<lambda>ok. ok = (True, True)) oks"
    and "get_cycle_range c b d = Some (s, e)"
  shows "\<exists>rows. cycle_history_loop db now server c b oks s e = Some (Inr rows) \<and>
    length rows = length oks \<and>
    (rows \<noteq> [] \<longrightarrow> ct_end (hd rows) = e \<and> date_le (ct_start (last rows)) s \<and>
       ct_sum f rows = daily_sum f db server (ct_start (last rows)) e +
         int (length rows) * pending_sum f db server (fst now))"
  using assms(3-)
proof (induction oks arbitrary: d s e)
  case Nil
  then show ?case by simp
next
  case (Cons ok oks)
  have d: "valid_date d" "1 \<le> fst d" using Cons.prems by simp_all
  have se: "valid_date s" "date_le s d" "date_le d e" and year: "fst d - 1 \<le> fst s"
    using cycle_range_holds [OF d, of c b] cycle_range_year [OF d Cons.prems(4)] Cons.prems(4) by auto
  have pyear: "fst s - 1 \<le> fst (pred_day s)" by (cases s) (simp add: pred_day.simps)
  have p: "valid_date (pred_day s)" "1 \<le> fst (pred_day s)" "2 * int (length oks) < fst (pred_day s)"
    using valid_pred [OF se(1)] year pyear Cons.prems(2) by simp_all
  obtain s' where prev: "get_cycle_range c b (pred_day s) = Some (s', pred_day s)"
    using cycle_range_before [OF d Cons.prems(4) p(2)] by blast
  have s': "date_le s' (pred_day s)" using cycle_range_holds [OF p(1,2), of c b] prev by auto
  from Cons.IH [OF p(1,3) _ prev] Cons.prems(3) obtain rows where
    rows: "cycle_history_loop db now server c b oks s' (pred_day s) = Some (Inr rows)"
      "length rows = length oks"
      "rows \<noteq> [] \<Longrightarrow> ct_end (hd rows) = pred_day s \<and> date_le (ct_start (last rows)) s' \<and>
         ct_sum f rows = daily_sum f db server (ct_start (last rows)) (pred_day s) +
           int (length rows) * pending_sum f db server (fst now)"
    by auto
  define row where "row = \<lparr>ct_start = s, ct_end = e,
    ct_bytes_in = daily_sum fst db server s e + pending_sum fst db server (fst now),
    ct_bytes_out = daily_sum snd db server s e + pending_sum snd db server (fst now)\<rparr>"
  have "cycle_history_loop db now server c b (ok # oks) s e = Some (Inr (row # rows))"
    using Cons.prems(3) cycle_sum_fits [OF fit, of fst] cycle_sum_fits [OF fit, of snd]
    by (simp add: query_cycle_traffic_def Let_def prev rows(1) row_def)
  moreover have row: "f (ct_bytes_in row, ct_bytes_out row) =
      daily_sum f db server s e + pending_sum f db server (fst now)"
    using f by (auto simp: row_def)
  have "date_le (ct_start (last (row # rows))) s \<and>
      ct_sum f (row # rows) = daily_sum f db server (ct_start (last (row # rows))) e +
        int (length (row # rows)) * pending_sum f db server (fst now)"
  proof (cases "rows = []")
    case True
    then show ?thesis using row date_le_total [of s s] by (simp add: row_def)
  next
    case False
    note r = rows(3) [OF False]
    have le: "date_le (ct_start (last rows)) (pred_day s)" "date_le (pred_day s) s" "date_le s e"
      using r s' date_le_pred [OF p(1) se(1)] date_le_total [of s "pred_day s"]
        date_le_total [of "pred_day s" "pred_day s"] se date_le_trans by blast+
    note daily_sum_adjacent [OF fit se(1) le(1,3), of f server]
    moreover have "date_le (ct_start (last rows)) s" using le(1,2) by (rule date_le_trans)
    moreover have "ct_sum f (row # rows) = daily_sum f db server s e +
        pending_sum f db server (fst now) + ct_sum f rows" using row by simp
    ultimately show ?thesis using False r by (simp add: distrib_right)
  qed
  ultimately show ?case using rows(2) by (auto simp: row_def)
qed

text \<open>
  What the cycle history adds up to.  With tables that fit and queries that succeed, the
  history of \<open>count\<close> cycles lists consecutive cycles back from the current one, and its entries
  add up to the daily rows between the start of the oldest and the end of the newest cycle, each
  row once, plus today's not yet aggregated bytes once for EVERY cycle listed: past cycles are
  charged with today's pending bytes too.
\<close>

lemma cycle_history_accounts:
  assumes "tables_fit db" and "f = fst \<or> f = snd"
    and "valid_date (fst now)" and "2 * int (length oks) < fst (fst now)"
    and "list_all (\<lambda>ok. ok = (True, True)) oks" and "oks \<noteq> []"
  shows "\<exists>s e rows. get_cycle_range c b (fst now) = Some (s, e) \<and>
    cycle_history db now server c b oks = Some (Inr rows) \<and> length rows = length oks \<and>
    ct_end (hd rows) = e \<and> date_le (ct_start (last rows)) s \<and>
    ct_sum f rows = daily_sum f db server (ct_start (last rows)) e +
      int (length oks) * pending_sum f db server (fst now)"
proof -
  have "1 \<le> fst (fst now)" using assms(4) by simp
  from cycle_range_holds [OF assms(3) this, of c b] obtain s e where
    r: "get_cycle_range c b (fst now) = Some (s, e)" by blast
  from cycle_history_loop_accounts [OF assms(1-5) r] obtain rows where
    "cycle_history_loop db now server c b oks s e = Some (Inr rows)" "length rows = length oks"
    "rows \<noteq> [] \<Longrightarrow> ct_end (hd rows) = e \<and> date_le (ct_start (last rows)) s \<and>
       ct_sum f rows = daily_sum f db server (ct_start (last rows)) e +
         int (length rows) * pending_sum f db server (fst now)"
    by blast
  moreover have "rows \<noteq> []" using calculation(2) assms(6) by auto
  ultimately show ?thesis using r by (auto simp: cycle_history_def)
qed

text \<open>Nothing is aggregated yet on the 2nd of May; April's 7 bytes are all in daily rows.\<close>

definition example_history_db :: traffic_db where
  "example_history_db = \<lparr>traffic_hourly = [((''a'', (2026, 5, 2), 0, 0, 0), 5, 0)],
     traffic_daily = [((''a'', 2026, 4, 20), 7, 0)], traffic_state = []\<rparr>"

lemma cycle_history_accounts_witness:
  "\<exists>rows. cycle_history example_history_db ((2026, 5, 2), 0, 10, 0) ''a'' ''monthly'' None
      [(True, True), (True, True)] = Some (Inr rows) \<and> length rows = 2 \<and>
    ct_sum fst rows = daily_sum fst example_history_db ''a'' (ct_start (last rows)) (2026, 5, 31) + 2 * 5"
proof -
  let ?now = "((2026, 5, 2), 0, 10, 0) :: stamp"
  have hyp: "tables_fit example_history_db" "valid_date (fst ?now)"
    "2 * int (length [(True, True), (True, True)]) < fst (fst ?now)"
    "list_all (\<lambda>ok. ok = (True, True)) [(True, True), (True, True)]"
    by (simp_all add: tables_fit_def example_history_db_def valid_date.simps month_length_def)
  have range: "get_cycle_range ''monthly'' None (fst ?now) = Some ((2026, 5, 1), (2026, 5, 31))"
    by code_simp
  have pending: "pending_sum fst example_history_db ''a'' (fst ?now) = 5"
    by (simp add: pending_sum_def example_history_db_def thas_def tget_def)
  from cycle_history_accounts [OF hyp(1) disjI1 [OF refl] hyp(2-4), of "''monthly''" None "''a''"]
  obtain s e rows where "get_cycle_range ''monthly'' None (fst ?now) = Some (s, e)"
    "cycle_history example_history_db ?now ''a'' ''monthly'' None [(True, True), (True, True)] = Some (Inr rows)"
    "length rows = length [(True, True), (True, True)]"
    "ct_sum fst rows = daily_sum fst example_history_db ''a'' (ct_start (last rows)) e +
      int (length [(True, True), (True, True)]) * pending_sum fst example_history_db ''a'' (fst ?now)"
    by blast
  moreover have "e = (2026, 5, 31)" using calculation(1) unfolding range option.inject prod.inject by blast
  ultimately show ?thesis unfolding pending by (intro exI [of _ rows]) simp
qed

end
