(* ===== verification/Upgrade_Transaction.thy ===== *)
theory Upgrade_Transaction
  imports SB_Prelude
begin

text \<open>
  The agent's self-upgrade transaction (\<open>crates/agent/src/upgrade/transaction.rs\<close>): the files it
  swaps, the state file that survives restarts, and its operations, written as sequences of file
  system calls each of which may succeed, fail, or be the point where the process dies.

  Parameters: the outcome of every call.  A file holds an executable (its version and its build), a
  state document as the JSON library writes it and reads it back, or the torn remains of an
  interrupted write.  Renames are atomic (Unix).  The texts of system errors are left out.
\<close>

section \<open>Files and calls\<close>

datatype transaction_phase = PhasePending | PhaseBooting | PhaseHealthy | PhaseRolledBack

record upgrade_transaction =
  ux_target_version :: string
  ux_job_id :: "string option"
  ux_phase :: transaction_phase
  ux_error :: "string option"

datatype file_content = Exe (exe_version: string) nat | StateDoc upgrade_transaction | Torn

text \<open>The executable, the candidate, and the names derived from the executable's path.\<close>

datatype upgrade_path =
  CurrentExe | Candidate | BackupPath | BackupTemp | FailedPath | StatePath | StateTempPath

type_synonym files = "upgrade_path \<Rightarrow> file_content option"

text \<open>What becomes of a call; an interrupted copy or write may leave a torn file.\<close>

datatype call_outcome = CallOk | CallFails bool | CallCrashes bool

datatype 'a outcome = Done 'a | Failed | Crashed

type_synonym 'a io = "files \<times> call_outcome list \<Rightarrow> 'a outcome \<times> files \<times> call_outcome list"

definition give :: "'a \<Rightarrow> 'a io" where
  "give a w = (Done a, w)"

definition bail :: "'a io" where
  "bail w = (Failed, w)"

definition bind_io :: "'a io \<Rightarrow> ('a \<Rightarrow> 'b io) \<Rightarrow> 'b io" where
  "bind_io m k w =
     (case m w of (Done a, w') \<Rightarrow> k a w' | (Failed, w') \<Rightarrow> (Failed, w') | (Crashed, w') \<Rightarrow> (Crashed, w'))"

text \<open>Run the second computation when the first fails.\<close>

definition or_else :: "'a io \<Rightarrow> 'a io \<Rightarrow> 'a io" where
  "or_else m h w = (case m w of (Failed, w') \<Rightarrow> h w' | r \<Rightarrow> r)"

text \<open>\<open>let _ = ...\<close>\<close>

definition ignore_error :: "unit io \<Rightarrow> unit io" where
  "ignore_error m = or_else m (give ())"

text \<open>One call: what it does when it succeeds, and what an interrupted one leaves.\<close>

definition sys_call :: "(files \<Rightarrow> ('a \<times> files) option) \<Rightarrow> (files \<Rightarrow> files) \<Rightarrow> 'a io" where
  "sys_call ok torn w =
     (case w of (fs, oracle) \<Rightarrow>
        case oracle of
          CallFails t # os \<Rightarrow> (Failed, if t then torn fs else fs, os)
        | CallCrashes t # os \<Rightarrow> (Crashed, if t then torn fs else fs, os)
        | _ \<Rightarrow> (case ok fs of
                  Some (a, fs') \<Rightarrow> (Done a, fs', drop 1 oracle)
                | None \<Rightarrow> (Failed, fs, drop 1 oracle)))"

text \<open>\<open>remove_file\<close>: whether there was a file (a missing one is the error \<open>NotFound\<close>).\<close>

definition remove_file :: "upgrade_path \<Rightarrow> bool io" where
  "remove_file p = sys_call (\<lambda>fs. Some (fs p \<noteq> None, fs(p := None))) id"

definition rename_file :: "upgrade_path \<Rightarrow> upgrade_path \<Rightarrow> unit io" where
  "rename_file a b =
     sys_call (\<lambda>fs. case fs a of None \<Rightarrow> None | Some c \<Rightarrow> Some ((), fs(a := None, b := Some c))) id"

definition copy_file :: "upgrade_path \<Rightarrow> upgrade_path \<Rightarrow> unit io" where
  "copy_file a b =
     sys_call (\<lambda>fs. case fs a of None \<Rightarrow> None | Some c \<Rightarrow> Some ((), fs(b := Some c)))
       (\<lambda>fs. fs(b := Some Torn))"

definition write_new_file :: "upgrade_path \<Rightarrow> file_content \<Rightarrow> unit io" where
  "write_new_file p c =
     sys_call (\<lambda>fs. if fs p \<noteq> None then None else Some ((), fs(p := Some c)))
       (\<lambda>fs. if fs p \<noteq> None then fs else fs(p := Some Torn))"

definition read_file :: "upgrade_path \<Rightarrow> file_content option io" where
  "read_file p = sys_call (\<lambda>fs. Some (fs p, fs)) id"

definition sync :: "unit io" where
  "sync = sys_call (\<lambda>fs. Some ((), fs)) id"

text \<open>\<open>is_file\<close> and \<open>exists\<close> report an unreadable entry as missing.\<close>

definition is_file :: "upgrade_path \<Rightarrow> bool io" where
  "is_file p = or_else (sys_call (\<lambda>fs. Some (fs p \<noteq> None, fs)) id) (give False)"

section \<open>State file and file swaps\<close>

definition normalize_version :: "string \<Rightarrow> string" where
  "normalize_version version = trim_start_matches (CHR ''v'') version"

definition sync_parent :: "unit io" where
  "sync_parent = sync"

definition read_state :: "upgrade_transaction option io" where
  "read_state =
     bind_io (read_file StatePath) (\<lambda>content.
     case content of
       None \<Rightarrow> give None
     | Some (StateDoc st) \<Rightarrow> give (Some st)
     | Some _ \<Rightarrow> bail)"

definition write_state :: "upgrade_transaction \<Rightarrow> unit io" where
  "write_state st =
     bind_io (remove_file StateTempPath) (\<lambda>_.
     bind_io (write_new_file StateTempPath (StateDoc st)) (\<lambda>_.
     bind_io sync (\<lambda>_.
     bind_io (rename_file StateTempPath StatePath) (\<lambda>_.
     sync_parent))))"

definition remove_state :: "unit io" where
  "remove_state =
     bind_io (remove_file StatePath) (\<lambda>found. if found then sync_parent else give ())"

definition copy_and_replace :: "unit io" where
  "copy_and_replace =
     bind_io (remove_file BackupTemp) (\<lambda>_.
     bind_io (copy_file CurrentExe BackupTemp) (\<lambda>_.
     bind_io sync (\<lambda>_.
     bind_io (rename_file BackupTemp BackupPath) (\<lambda>_.
     sync_parent))))"

definition rollback_files :: "unit io" where
  "rollback_files =
     bind_io (is_file BackupPath) (\<lambda>backup.
     if \<not> backup then bail
     else
       bind_io (is_file FailedPath) (\<lambda>failed.
       bind_io (if failed then bind_io (remove_file FailedPath) (\<lambda>found. if found then give () else bail)
                else give ()) (\<lambda>_.
       bind_io (rename_file CurrentExe FailedPath) (\<lambda>_.
       bind_io (or_else (rename_file BackupPath CurrentExe)
                  (bind_io (rename_file FailedPath CurrentExe) (\<lambda>_. bail))) (\<lambda>_.
       sync_parent)))))"

section \<open>Operations\<close>

text \<open>The path of the backup is returned on success.\<close>

definition install_candidate :: "string \<Rightarrow> string option \<Rightarrow> unit io" where
  "install_candidate target_version job_id =
     bind_io (is_file CurrentExe) (\<lambda>current. if \<not> current then bail else
     bind_io (is_file Candidate) (\<lambda>candidate. if \<not> candidate then bail else
     bind_io (write_state \<lparr>ux_target_version = normalize_version target_version,
                ux_job_id = job_id, ux_phase = PhasePending, ux_error = None\<rparr>) (\<lambda>_.
     bind_io (or_else copy_and_replace (bind_io (ignore_error remove_state) (\<lambda>_. bail))) (\<lambda>_.
     bind_io (or_else (rename_file Candidate CurrentExe)
                (bind_io (ignore_error remove_state) (\<lambda>_. bail))) (\<lambda>_.
     or_else sync_parent
       (bind_io (ignore_error rollback_files) (\<lambda>_.
        bind_io (ignore_error remove_state) (\<lambda>_. bail))))))))"

datatype startup_disposition = Normal | Trial | Recovered | RestartAfterRollback

definition interrupted_error :: string where
  "interrupted_error = ''upgrade was interrupted before the candidate became healthy; previous binary is active''"

definition exited_error :: string where
  "exited_error = ''candidate Agent exited before completing startup health confirmation; previous binary restored''"

definition timeout_error :: string where
  "timeout_error = ''candidate Agent did not complete startup health confirmation within 90s; previous binary restored''"

definition rolled_back :: "string \<Rightarrow> upgrade_transaction \<Rightarrow> upgrade_transaction" where
  "rolled_back error st = st\<lparr>ux_phase := PhaseRolledBack, ux_error := Some error\<rparr>"

definition is_target :: "string \<Rightarrow> upgrade_transaction \<Rightarrow> bool" where
  "is_target running_version st \<longleftrightarrow>
     normalize_version running_version = normalize_version (ux_target_version st)"

definition prepare_startup :: "string \<Rightarrow> startup_disposition io" where
  "prepare_startup running_version =
     bind_io read_state (\<lambda>state.
     case state of
       None \<Rightarrow> give Normal
     | Some st \<Rightarrow>
         if \<not> is_target running_version st then
           bind_io (if ux_phase st \<noteq> PhaseRolledBack then write_state (rolled_back interrupted_error st)
                    else give ()) (\<lambda>_. give Recovered)
         else case ux_phase st of
           PhasePending \<Rightarrow>
             bind_io (write_state (st\<lparr>ux_phase := PhaseBooting\<rparr>)) (\<lambda>_. give Trial)
         | PhaseRolledBack \<Rightarrow> bail
         | _ \<Rightarrow>
             bind_io rollback_files (\<lambda>_.
             bind_io (write_state (rolled_back exited_error st)) (\<lambda>_. give RestartAfterRollback)))"

definition commit_startup_trial :: "string \<Rightarrow> bool io" where
  "commit_startup_trial running_version =
     bind_io read_state (\<lambda>state.
     case state of
       None \<Rightarrow> give False
     | Some st \<Rightarrow>
         if ux_phase st \<noteq> PhaseBooting \<or> \<not> is_target running_version st then give False
         else bind_io (write_state (st\<lparr>ux_phase := PhaseHealthy\<rparr>)) (\<lambda>_. give True))"

definition finalize_startup_trial :: "string \<Rightarrow> unit io" where
  "finalize_startup_trial running_version =
     bind_io read_state (\<lambda>state.
     case state of
       None \<Rightarrow> give ()
     | Some st \<Rightarrow>
         if ux_phase st = PhaseHealthy \<and> is_target running_version st then remove_state else give ())"

definition rollback_unhealthy_trial :: "string \<Rightarrow> bool io" where
  "rollback_unhealthy_trial running_version =
     bind_io read_state (\<lambda>state.
     case state of
       None \<Rightarrow> give False
     | Some st \<Rightarrow>
         if ux_phase st \<notin> {PhaseBooting, PhaseHealthy} \<or> \<not> is_target running_version st then give False
         else
           bind_io rollback_files (\<lambda>_.
           bind_io (write_state (rolled_back timeout_error st)) (\<lambda>_. give True)))"

definition rollback_failed_candidate :: "string \<Rightarrow> string option \<Rightarrow> string \<Rightarrow> unit io" where
  "rollback_failed_candidate target_version job_id error =
     bind_io read_state (\<lambda>state.
     let st = (case state of Some st \<Rightarrow> st
               | None \<Rightarrow> \<lparr>ux_target_version = normalize_version target_version, ux_job_id = job_id,
                          ux_phase = PhaseBooting, ux_error = None\<rparr>)
     in bind_io rollback_files (\<lambda>_. write_state (rolled_back error st)))"

definition trial_is_active :: "bool io" where
  "trial_is_active =
     bind_io read_state (\<lambda>state.
     give (case state of None \<Rightarrow> False | Some st \<Rightarrow> ux_phase st \<in> {PhasePending, PhaseBooting, PhaseHealthy}))"

record recovery_report =
  rr_target_version :: string
  rr_job_id :: "string option"
  rr_error :: string

definition read_recovery_report :: "string \<Rightarrow> recovery_report option io" where
  "read_recovery_report running_version =
     bind_io read_state (\<lambda>state.
     give (case state of
       None \<Rightarrow> None
     | Some st \<Rightarrow>
         if ux_phase st \<noteq> PhaseRolledBack \<or> is_target running_version st then None
         else Some \<lparr>rr_target_version = ux_target_version st, rr_job_id = ux_job_id st,
                rr_error = (case ux_error st of Some e \<Rightarrow> e
                            | None \<Rightarrow> ''candidate Agent rolled back before becoming healthy'')\<rparr>))"

definition acknowledge_recovery_report :: "unit io" where
  "acknowledge_recovery_report =
     bind_io (is_file StatePath) (\<lambda>state.
     if state then
       bind_io (remove_file StatePath) (\<lambda>found. if found then sync_parent else bail)
     else give ())"

section \<open>A logic of interrupted computations\<close>

text \<open>
  Whatever the calls do, the computation ends in \<open>Q\<close> when it is done, in \<open>E\<close> when it fails and
  in \<open>C\<close> when the process dies in the middle.
\<close>

definition wp_io ::
  "'a io \<Rightarrow> ('a \<Rightarrow> files \<Rightarrow> bool) \<Rightarrow> (files \<Rightarrow> bool) \<Rightarrow> (files \<Rightarrow> bool) \<Rightarrow> files \<Rightarrow> bool" where
  "wp_io m Q E C f \<longleftrightarrow>
     (\<forall>os. case m (f, os) of
        (Done a, f', _) \<Rightarrow> Q a f' | (Failed, f', _) \<Rightarrow> E f' | (Crashed, f', _) \<Rightarrow> C f')"

named_theorems io_wp "rules of the logic of interrupted computations"

lemma wp_give [io_wp]: "Q a f \<Longrightarrow> wp_io (give a) Q E C f"
  by (simp add: wp_io_def give_def)

lemma wp_bail [io_wp]: "E f \<Longrightarrow> wp_io bail Q E C f"
  by (simp add: wp_io_def bail_def)

lemma wp_bind_io [io_wp]:
  assumes "wp_io m (\<lambda>a. wp_io (k a) Q E C) E C f"
  shows "wp_io (bind_io m k) Q E C f"
  unfolding wp_io_def
proof
  fix os
  obtain r f' os' where m: "m (f, os) = (r, f', os')" by (metis prod_cases3)
  from assms [unfolded wp_io_def, rule_format, of os] m
  show "case bind_io m k (f, os) of
      (Done a, f', _) \<Rightarrow> Q a f' | (Failed, f', _) \<Rightarrow> E f' | (Crashed, f', _) \<Rightarrow> C f'"
    by (cases r) (simp_all add: bind_io_def)
qed

lemma wp_or_else [io_wp]:
  assumes "wp_io m Q (wp_io h Q E C) C f"
  shows "wp_io (or_else m h) Q E C f"
  unfolding wp_io_def
proof
  fix os
  obtain r f' os' where m: "m (f, os) = (r, f', os')" by (metis prod_cases3)
  from assms [unfolded wp_io_def, rule_format, of os] m
  show "case or_else m h (f, os) of
      (Done a, f', _) \<Rightarrow> Q a f' | (Failed, f', _) \<Rightarrow> E f' | (Crashed, f', _) \<Rightarrow> C f'"
    by (cases r) (simp_all add: or_else_def)
qed

lemma wp_ignore_error [io_wp]: "wp_io m Q (Q ()) C f \<Longrightarrow> wp_io (ignore_error m) Q E C f"
proof -
  have "wp_io (give ()) Q E C = Q ()" by (rule ext) (simp add: wp_io_def give_def)
  moreover assume "wp_io m Q (Q ()) C f"
  ultimately show ?thesis unfolding ignore_error_def by (intro wp_or_else) simp
qed

lemma wp_sys_call [io_wp]:
  assumes "\<And>a f'. ok f = Some (a, f') \<Longrightarrow> Q a f'" and "E f" and "E (torn f)" and "C f" and "C (torn f)"
  shows "wp_io (sys_call ok torn) Q E C f"
  using assms
  by (auto simp: wp_io_def sys_call_def split: list.splits call_outcome.splits option.splits)

lemma wp_if_io [io_wp]:
  "(b \<Longrightarrow> wp_io m Q E C f) \<Longrightarrow> (\<not> b \<Longrightarrow> wp_io m' Q E C f) \<Longrightarrow> wp_io (if b then m else m') Q E C f"
  by simp

lemma wp_ioD:
  assumes "wp_io m Q E C f" and "m (f, os) = (r, f', os')"
  shows "case r of Done a \<Rightarrow> Q a f' | Failed \<Rightarrow> E f' | Crashed \<Rightarrow> C f'"
  using assms by (auto simp: wp_io_def split: outcome.splits dest!: spec [of _ os])

lemma wp_io_mono:
  "wp_io m Q E C f \<Longrightarrow> (\<And>a f. Q a f \<Longrightarrow> Q' a f) \<Longrightarrow> (\<And>f. E f \<Longrightarrow> E' f) \<Longrightarrow> (\<And>f. C f \<Longrightarrow> C' f) \<Longrightarrow>
   wp_io m Q' E' C' f"
  by (fastforce simp: wp_io_def split: prod.splits outcome.splits)

lemmas io_calls = remove_file_def rename_file_def copy_file_def write_new_file_def read_file_def
  sync_def sync_parent_def is_file_def

section \<open>The previous executable survives\<close>

text \<open>
  The executable \<open>old\<close> before and after a candidate may have been put in its place: where it is
  kept, and what the state file may say while nothing has been swapped.
\<close>

definition swap_safe :: "file_content \<Rightarrow> files \<Rightarrow> bool" where
  "swap_safe old f \<longleftrightarrow> f BackupPath = Some old \<or> (f CurrentExe = Some old \<and> f BackupPath = None)"

definition not_started :: "string \<Rightarrow> file_content \<Rightarrow> files \<Rightarrow> bool" where
  "not_started target old f \<longleftrightarrow>
     f CurrentExe = Some old \<and>
     (f StatePath = None \<or>
      (\<exists>st. f StatePath = Some (StateDoc st) \<and> ux_target_version st = normalize_version target \<and>
         ux_phase st \<in> {PhasePending, PhaseRolledBack}))"

definition install_safe :: "string \<Rightarrow> file_content \<Rightarrow> files \<Rightarrow> bool" where
  "install_safe target old f \<longleftrightarrow> swap_safe old f \<or> not_started target old f"

text \<open>Only the executable and its backup matter for \<open>swap_safe\<close>.\<close>

lemma swap_safe_other [simp]:
  "p \<noteq> CurrentExe \<Longrightarrow> p \<noteq> BackupPath \<Longrightarrow> swap_safe old (f(p := c)) = swap_safe old f"
  by (simp add: swap_safe_def)

lemma wp_write_state_swap:
  "swap_safe old f \<Longrightarrow> wp_io (write_state st) (\<lambda>_. swap_safe old) (swap_safe old) (swap_safe old) f"
  unfolding write_state_def io_calls
  by (intro io_wp) (auto split: option.splits if_splits)

lemma wp_remove_state_swap:
  "swap_safe old f \<Longrightarrow> wp_io remove_state (\<lambda>_. swap_safe old) (swap_safe old) (swap_safe old) f"
  unfolding remove_state_def io_calls
  by (intro io_wp) (auto split: option.splits if_splits)

lemma wp_rollback_swap:
  "swap_safe old f \<Longrightarrow> wp_io rollback_files (\<lambda>_. swap_safe old) (swap_safe old) (swap_safe old) f"
  unfolding rollback_files_def io_calls
  by (intro io_wp) (auto simp: swap_safe_def split: option.splits if_splits)

lemma wp_write_state_not_started:
  assumes "not_started target old f"
    and "ux_target_version st = normalize_version target" and "ux_phase st \<in> {PhasePending, PhaseRolledBack}"
  shows "wp_io (write_state st) (\<lambda>_. not_started target old) (not_started target old) (not_started target old) f"
  using assms unfolding write_state_def io_calls
  by (intro io_wp) (auto simp: not_started_def split: option.splits if_splits)

lemma wp_remove_state_install:
  "install_safe target old f \<Longrightarrow>
   wp_io remove_state (\<lambda>_. install_safe target old) (install_safe target old) (install_safe target old) f"
  unfolding remove_state_def io_calls
  by (intro io_wp) (auto simp: install_safe_def not_started_def split: option.splits if_splits)

lemma wp_copy_and_replace:
  assumes "not_started target old f"
  shows "wp_io copy_and_replace (\<lambda>_ f. f BackupPath = Some old) (install_safe target old)
    (install_safe target old) f"
  using assms unfolding copy_and_replace_def io_calls
  by (intro io_wp)
    (auto simp: install_safe_def not_started_def swap_safe_def split: option.splits if_splits)

lemma wp_fail_clean:
  assumes "install_safe target old f"
  shows "wp_io (bind_io (ignore_error remove_state) (\<lambda>_. bail)) Q (install_safe target old)
    (install_safe target old) f"
  by (intro wp_bind_io wp_ignore_error wp_io_mono [OF wp_remove_state_install [OF assms]] wp_bail)

lemma wp_install:
  assumes "f CurrentExe = Some old" and "f StatePath = None"
  shows "wp_io (install_candidate target job) (\<lambda>_. swap_safe old) (install_safe target old)
    (install_safe target old) f"
proof -
  let ?I = "install_safe target old"
  let ?st = "\<lparr>ux_target_version = normalize_version target, ux_job_id = job,
      ux_phase = PhasePending, ux_error = None\<rparr>"
  have safe: "swap_safe old f \<Longrightarrow> ?I f" for f by (simp add: install_safe_def)
  have start: "not_started target old f" using assms by (simp add: not_started_def)
  have writes: "wp_io (write_state ?st) (\<lambda>_. not_started target old) ?I ?I f"
    by (rule wp_io_mono [OF wp_write_state_not_started [OF start]]) (simp_all add: install_safe_def)
  have copy: "wp_io (or_else copy_and_replace (bind_io (ignore_error remove_state) (\<lambda>_. bail)))
      (\<lambda>_ f. f BackupPath = Some old) ?I ?I f" if "not_started target old f" for f
    by (rule wp_or_else, rule wp_io_mono [OF wp_copy_and_replace [OF that]]) (auto intro: wp_fail_clean)
  have swap: "wp_io (or_else (rename_file Candidate CurrentExe)
      (bind_io (ignore_error remove_state) (\<lambda>_. bail))) (\<lambda>_. swap_safe old) ?I ?I f"
    if "f BackupPath = Some old" for f
    using that unfolding io_calls
    by (intro wp_or_else wp_sys_call wp_fail_clean)
      (auto simp: install_safe_def swap_safe_def split: option.splits)
  have undo: "wp_io (bind_io (ignore_error rollback_files) (\<lambda>_.
      bind_io (ignore_error remove_state) (\<lambda>_. bail))) Q ?I ?I f" if "swap_safe old f" for f
      and Q :: "unit \<Rightarrow> files \<Rightarrow> bool"
    by (intro wp_bind_io wp_ignore_error, rule wp_io_mono [OF wp_rollback_swap [OF that]])
      (simp_all add: safe wp_fail_clean)
  have last: "wp_io (or_else sync_parent (bind_io (ignore_error rollback_files) (\<lambda>_.
      bind_io (ignore_error remove_state) (\<lambda>_. bail)))) (\<lambda>_. swap_safe old) ?I ?I f"
    if "swap_safe old f" for f
    using that unfolding io_calls
    by (intro wp_or_else wp_sys_call undo) (auto simp: install_safe_def)
  let ?fail = "bind_io (ignore_error remove_state) (\<lambda>_. bail)"
  let ?last = "or_else sync_parent (bind_io (ignore_error rollback_files) (\<lambda>_. ?fail))"
  let ?swap = "bind_io (or_else (rename_file Candidate CurrentExe) ?fail) (\<lambda>_. ?last)"
  let ?copy = "bind_io (or_else copy_and_replace ?fail) (\<lambda>_. ?swap)"
  have step3: "wp_io ?swap (\<lambda>_. swap_safe old) ?I ?I f" if "f BackupPath = Some old" for f
    by (rule wp_bind_io, rule wp_io_mono [OF swap [of f]]) (simp_all add: last that)
  have step2: "wp_io ?copy (\<lambda>_. swap_safe old) ?I ?I f" if "not_started target old f" for f
    by (rule wp_bind_io, rule wp_io_mono [OF copy [OF that]]) (simp_all add: step3)
  have step1: "wp_io (write_state ?st) (\<lambda>_. wp_io ?copy (\<lambda>_. swap_safe old) ?I ?I) ?I ?I f"
    by (rule wp_io_mono [OF writes]) (simp_all add: step2)
  have "?I f" using start by (simp add: install_safe_def)
  then show ?thesis
    unfolding install_candidate_def is_file_def
    by (intro wp_bind_io wp_or_else wp_sys_call wp_give wp_if_io wp_bail)
      (auto intro!: wp_bail wp_give wp_bind_io wp_if_io wp_or_else wp_sys_call step1)
qed

section \<open>Restarts, watchdogs, crashes\<close>

text \<open>
  What may happen after an installation: the executable at the path is started (its version is
  the one that runs), a process of some version confirms or finalizes its trial or finds it
  overdue, the parent gives up on its child, and the report of a rollback is read or acknowledged.
\<close>

datatype upgrade_op =
  StartProcess
| CommitTrial string
| FinalizeTrial string
| WatchdogFires string
| ParentGivesUp string "string option" string
| CheckTrial
| ReadReport string
| AcknowledgeReport

definition run_io :: "'a io \<Rightarrow> call_outcome list \<Rightarrow> files \<Rightarrow> 'a option \<times> files" where
  "run_io m os f = (case m (f, os) of (r, f', _) \<Rightarrow> (case r of Done a \<Rightarrow> Some a | _ \<Rightarrow> None, f'))"

fun upgrade_step ::
  "upgrade_op \<Rightarrow> call_outcome list \<Rightarrow> files \<Rightarrow> startup_disposition option \<times> files" where
  "upgrade_step StartProcess os f =
     (case f CurrentExe of Some (Exe v _) \<Rightarrow> run_io (prepare_startup v) os f | _ \<Rightarrow> (None, f))"
| "upgrade_step (CommitTrial v) os f = (None, snd (run_io (commit_startup_trial v) os f))"
| "upgrade_step (FinalizeTrial v) os f = (None, snd (run_io (finalize_startup_trial v) os f))"
| "upgrade_step (WatchdogFires v) os f = (None, snd (run_io (rollback_unhealthy_trial v) os f))"
| "upgrade_step (ParentGivesUp v job e) os f = (None, snd (run_io (rollback_failed_candidate v job e) os f))"
| "upgrade_step CheckTrial os f = (None, snd (run_io trial_is_active os f))"
| "upgrade_step (ReadReport v) os f = (None, snd (run_io (read_recovery_report v) os f))"
| "upgrade_step AcknowledgeReport os f = (None, snd (run_io acknowledge_recovery_report os f))"

fun upgrade_run ::
  "(upgrade_op \<times> call_outcome list) list \<Rightarrow> files \<Rightarrow> startup_disposition option list \<times> files" where
  "upgrade_run [] f = ([], f)"
| "upgrade_run ((op, os) # ops) f =
     (case upgrade_step op os f of (r, f') \<Rightarrow>
        case upgrade_run ops f' of (rs, f'') \<Rightarrow> (r # rs, f''))"

lemma run_io_wp:
  assumes "wp_io m (\<lambda>_. I) I I f"
  shows "I (snd (run_io m os f))"
proof -
  obtain r f' os' where m: "m (f, os) = (r, f', os')" by (metis prod_cases3)
  from wp_ioD [OF assms m] show ?thesis by (cases r) (simp_all add: run_io_def m)
qed

text \<open>The state is read before anything is done.\<close>

lemma wp_read_state:
  assumes "E f" and "C f" and "f StatePath = None \<Longrightarrow> Q None f"
    and "\<And>st. f StatePath = Some (StateDoc st) \<Longrightarrow> Q (Some st) f"
  shows "wp_io read_state Q E C f"
  using assms unfolding read_state_def io_calls
  by (intro io_wp) (auto intro!: io_wp split: option.split file_content.split)

lemma wp_swap_ops:
  assumes "swap_safe old f"
  shows "wp_io (prepare_startup v) (\<lambda>_. swap_safe old) (swap_safe old) (swap_safe old) f"
    and "wp_io (commit_startup_trial v) (\<lambda>_. swap_safe old) (swap_safe old) (swap_safe old) f"
    and "wp_io (finalize_startup_trial v) (\<lambda>_. swap_safe old) (swap_safe old) (swap_safe old) f"
    and "wp_io (rollback_unhealthy_trial v) (\<lambda>_. swap_safe old) (swap_safe old) (swap_safe old) f"
    and "wp_io (rollback_failed_candidate t job e) (\<lambda>_. swap_safe old) (swap_safe old) (swap_safe old) f"
    and "wp_io acknowledge_recovery_report (\<lambda>_. swap_safe old) (swap_safe old) (swap_safe old) f"
proof -
  let ?S = "swap_safe old"
  have ws: "wp_io (write_state st) (\<lambda>_. ?S) ?S ?S f" if "?S f" for st f
    by (rule wp_write_state_swap [OF that])
  have undo: "wp_io (bind_io rollback_files (\<lambda>_. bind_io (write_state st) (\<lambda>_. give x))) (\<lambda>_. ?S) ?S ?S f"
    if "?S f" for st f and x :: 'x
    by (rule wp_bind_io, rule wp_io_mono [OF wp_rollback_swap [OF that]])
      (auto intro!: wp_bind_io wp_give wp_io_mono [OF ws])
  show "wp_io (prepare_startup v) (\<lambda>_. ?S) ?S ?S f"
    unfolding prepare_startup_def using assms
    by (intro wp_bind_io wp_read_state)
      (auto intro!: wp_give wp_bail wp_if_io wp_bind_io [where m = "write_state _"]
        wp_bind_io [where m = "give ()"] wp_io_mono [OF ws] undo
        split: transaction_phase.split)
  show "wp_io (commit_startup_trial v) (\<lambda>_. ?S) ?S ?S f"
    unfolding commit_startup_trial_def using assms
    by (intro wp_bind_io wp_read_state)
      (auto intro!: wp_give wp_if_io wp_bind_io [where m = "write_state _"] wp_io_mono [OF ws])
  show "wp_io (finalize_startup_trial v) (\<lambda>_. ?S) ?S ?S f"
    unfolding finalize_startup_trial_def using assms
    by (intro wp_bind_io wp_read_state)
      (auto intro!: wp_give wp_if_io wp_remove_state_swap)
  show "wp_io (rollback_unhealthy_trial v) (\<lambda>_. ?S) ?S ?S f"
    unfolding rollback_unhealthy_trial_def using assms
    by (intro wp_bind_io wp_read_state) (auto intro!: wp_give wp_if_io undo)
  show "wp_io (rollback_failed_candidate t job e) (\<lambda>_. ?S) ?S ?S f"
    unfolding rollback_failed_candidate_def Let_def using assms
    by (intro wp_bind_io wp_read_state) (auto intro!: wp_io_mono [OF wp_rollback_swap] ws)
  show "wp_io acknowledge_recovery_report (\<lambda>_. ?S) ?S ?S f"
    unfolding acknowledge_recovery_report_def io_calls using assms
    by (intro io_wp) (auto intro!: io_wp)
qed

text \<open>While nothing is swapped, nothing that can happen swaps it, except the parent's rollback.\<close>

fun gives_up :: "upgrade_op \<Rightarrow> bool" where
  "gives_up (ParentGivesUp v job e) = True"
| "gives_up op = False"

lemma swap_safe_step: "swap_safe old f \<Longrightarrow> swap_safe old (snd (upgrade_step op os f))"
proof (cases op)
  case StartProcess
  moreover assume "swap_safe old f"
  ultimately show ?thesis
    by (auto split: option.split file_content.split intro: run_io_wp wp_swap_ops)
qed (auto intro!: run_io_wp wp_swap_ops simp: trial_is_active_def read_recovery_report_def
      intro!: wp_bind_io wp_read_state wp_give)

lemma normalize_idem [simp]: "normalize_version (normalize_version v) = normalize_version v"
  by (simp add: normalize_version_def trim_start_matches_def dropWhile_idem)

lemma not_started_step:
  assumes "not_started target old f" and "\<not> gives_up op"
    and "normalize_version (exe_version old) \<noteq> normalize_version target"
  shows "not_started target old (snd (upgrade_step op os f))"
proof -
  let ?N = "not_started target old"
  have phase: "ux_target_version st = normalize_version target \<and> ux_phase st \<in> {PhasePending, PhaseRolledBack}"
    if "f StatePath = Some (StateDoc st)" for st
    using assms(1) that by (auto simp: not_started_def)
  have removed: "wp_io remove_state (\<lambda>_. ?N) ?N ?N f"
    using assms(1) unfolding remove_state_def io_calls
    by (intro io_wp) (auto simp: not_started_def split: option.splits if_splits)
  show ?thesis
  proof (cases op)
    case StartProcess
    have "wp_io (prepare_startup v) (\<lambda>_. ?N) ?N ?N f" if "f CurrentExe = Some (Exe v b)" for v b
    proof -
      have v: "\<not> is_target v st" if "f StatePath = Some (StateDoc st)" for st
        using phase [OF that] assms(1,3) \<open>f CurrentExe = Some (Exe v b)\<close>
        by (auto simp: is_target_def not_started_def)
      have ws: "wp_io (write_state (rolled_back interrupted_error st)) (\<lambda>_. ?N) ?N ?N f"
        if "f StatePath = Some (StateDoc st)" for st
        using phase [OF that]
        by (intro wp_write_state_not_started assms(1)) (simp_all add: rolled_back_def)
      show ?thesis
        unfolding prepare_startup_def using assms(1)
        by (intro wp_bind_io wp_read_state)
          (auto simp: v intro!: wp_give wp_bind_io [where m = "write_state _"]
            wp_bind_io [where m = "give ()"] wp_io_mono [OF ws])
    qed
    with StartProcess assms(1) show ?thesis
      by (auto split: option.split file_content.split intro: run_io_wp)
  next
    case (CommitTrial v)
    have "wp_io (commit_startup_trial v) (\<lambda>_. ?N) ?N ?N f"
      unfolding commit_startup_trial_def using assms(1)
      by (intro wp_bind_io wp_read_state) (auto intro!: wp_give dest: phase)
    with CommitTrial show ?thesis by (simp add: run_io_wp)
  next
    case (FinalizeTrial v)
    have "wp_io (finalize_startup_trial v) (\<lambda>_. ?N) ?N ?N f"
      unfolding finalize_startup_trial_def using assms(1)
      by (intro wp_bind_io wp_read_state) (auto intro!: wp_give dest: phase)
    with FinalizeTrial show ?thesis by (simp add: run_io_wp)
  next
    case (WatchdogFires v)
    have "wp_io (rollback_unhealthy_trial v) (\<lambda>_. ?N) ?N ?N f"
      unfolding rollback_unhealthy_trial_def using assms(1)
      by (intro wp_bind_io wp_read_state) (auto intro!: wp_give dest: phase)
    with WatchdogFires show ?thesis by (simp add: run_io_wp)
  next
    case AcknowledgeReport
    have "wp_io acknowledge_recovery_report (\<lambda>_. ?N) ?N ?N f"
      using assms(1) unfolding acknowledge_recovery_report_def io_calls
      by (intro io_wp) (auto simp: not_started_def intro!: io_wp)
    with AcknowledgeReport show ?thesis by (simp add: run_io_wp)
  qed (use assms in \<open>auto intro!: run_io_wp simp: trial_is_active_def read_recovery_report_def
      intro!: wp_bind_io wp_read_state wp_give\<close>)
qed

lemma upgrade_run_inv:
  assumes "\<And>op os f. op \<in> fst ` set ops \<Longrightarrow> I f \<Longrightarrow> I (snd (upgrade_step op os f))" and "I f"
  shows "I (snd (upgrade_run ops f))"
  using assms
proof (induction ops arbitrary: f)
  case Nil
  then show ?case by simp
next
  case (Cons x ops)
  obtain op os where x: "x = (op, os)" by (cases x)
  have "I (snd (upgrade_step op os f))" by (rule Cons.prems) (simp_all add: x Cons.prems)
  then have "I (snd (upgrade_run ops (snd (upgrade_step op os f))))"
    by (rule Cons.IH [rotated]) (rule Cons.prems, simp_all)
  then show ?case by (simp add: x split_def)
qed

text \<open>
  Claim C7: an upgrade never loses the previous executable.  Start with an executable of another
  version and no open transaction.  Wherever the installation fails or the process dies, and
  whatever starts, confirmations, watchdogs and acknowledgements follow, each with calls that fail
  or die at any point, the previous executable is in its place or in the backup; the parent's
  rollback, which only follows an installation that succeeded, does not change that.
\<close>

theorem upgrade_keeps_previous_executable:
  assumes "f CurrentExe = Some old" and "f StatePath = None"
    and "normalize_version (exe_version old) \<noteq> normalize_version target"
    and "run_io (install_candidate target job) os f = (installed, f')"
    and "installed = None \<Longrightarrow> list_all (\<lambda>(op, _). \<not> gives_up op) ops"
  shows "snd (upgrade_run ops f') CurrentExe = Some old \<or> snd (upgrade_run ops f') BackupPath = Some old"
proof -
  obtain r os' where run: "install_candidate target job (f, os) = (r, f', os')"
    and r: "installed = (case r of Done a \<Rightarrow> Some a | _ \<Rightarrow> None)"
    using assms(4) by (auto simp: run_io_def split: prod.splits)
  note wp = wp_ioD [OF wp_install [of f old target job] run]
  have "install_safe target old (snd (upgrade_run ops f'))"
  proof (cases "installed = None")
    case False
    then have "swap_safe old f'" using wp assms(1,2) r by (cases r) auto
    then show ?thesis
      using upgrade_run_inv [of ops "swap_safe old" f'] swap_safe_step
      by (auto simp: install_safe_def)
  next
    case True
    then have start: "install_safe target old f'"
      using wp assms(1,2) r by (cases r) (auto simp: install_safe_def)
    have "install_safe target old (snd (upgrade_step op os f))"
      if "op \<in> fst ` set ops" "install_safe target old f" for op os f
      using that assms(5) [OF True] swap_safe_step not_started_step [OF _ _ assms(3)]
      by (fastforce simp: install_safe_def list_all_iff)
    then show ?thesis using upgrade_run_inv [of ops "install_safe target old" f'] start by blast
  qed
  then show ?thesis by (auto simp: install_safe_def swap_safe_def not_started_def)
qed

text \<open>
  An executable of version 1 is replaced by one of version 2; the copy is interrupted once, then
  the process dies, and the survivor starts again.
\<close>

definition demo_files :: files where
  "demo_files = (\<lambda>_. None)(CurrentExe \<mapsto> Exe ''1'' 0, Candidate \<mapsto> Exe ''2'' 0)"

theorem upgrade_keeps_previous_executable_witness:
  "snd (upgrade_run [(StartProcess, []), (StartProcess, [])]
       (snd (run_io (install_candidate ''2'' None) (replicate 9 CallOk @ [CallCrashes True]) demo_files)))
     CurrentExe = Some (Exe ''1'' 0) \<or>
   snd (upgrade_run [(StartProcess, []), (StartProcess, [])]
       (snd (run_io (install_candidate ''2'' None) (replicate 9 CallOk @ [CallCrashes True]) demo_files)))
     BackupPath = Some (Exe ''1'' 0)"
proof (rule upgrade_keeps_previous_executable)
  show "demo_files CurrentExe = Some (Exe ''1'' 0)" "demo_files StatePath = None"
    by (simp_all add: demo_files_def)
  show "normalize_version (exe_version (Exe ''1'' 0)) \<noteq> normalize_version ''2''"
    by (simp add: normalize_version_def trim_start_matches_def)
  show "run_io (install_candidate ''2'' None) (replicate 9 CallOk @ [CallCrashes True]) demo_files =
      (fst (run_io (install_candidate ''2'' None) (replicate 9 CallOk @ [CallCrashes True]) demo_files),
       snd (run_io (install_candidate ''2'' None) (replicate 9 CallOk @ [CallCrashes True]) demo_files))"
    by simp
qed simp

section \<open>One trial\<close>

definition not_pending :: "files \<Rightarrow> bool" where
  "not_pending f \<longleftrightarrow> (\<forall>st. f StatePath = Some (StateDoc st) \<longrightarrow> ux_phase st \<noteq> PhasePending)"

lemma not_pending_other [simp]: "p \<noteq> StatePath \<Longrightarrow> not_pending (f(p := c)) = not_pending f"
  by (simp add: not_pending_def)

lemma not_pendingD: "not_pending f \<Longrightarrow> f StatePath = Some (StateDoc st) \<Longrightarrow> ux_phase st \<noteq> PhasePending"
  by (simp add: not_pending_def)

lemma phase_rolled_back [simp]: "ux_phase (rolled_back m st) = PhaseRolledBack"
  by (simp add: rolled_back_def)

lemma wp_write_state_pending:
  assumes "ux_phase st \<noteq> PhasePending"
  shows "wp_io (write_state st) (\<lambda>_. not_pending) (\<lambda>_. True) (\<lambda>_. True) f"
  using assms unfolding write_state_def io_calls
  by (intro io_wp) (auto simp: not_pending_def split: option.splits if_splits)

lemma wp_write_state_not_pending:
  assumes "not_pending f" and "ux_phase st \<noteq> PhasePending"
  shows "wp_io (write_state st) (\<lambda>_. not_pending) not_pending not_pending f"
proof -
  have "not_pending (g(StateTempPath := None, StatePath := Some (StateDoc st)))" for g
    using assms(2) by (simp add: not_pending_def)
  with assms show ?thesis
    unfolding write_state_def io_calls
    by (intro io_wp) (auto simp: not_pending_def split: option.splits if_splits)
qed

lemma wp_rollback_not_pending:
  "not_pending f \<Longrightarrow> wp_io rollback_files (\<lambda>_. not_pending) not_pending not_pending f"
  unfolding rollback_files_def io_calls
  by (intro io_wp) (auto split: option.splits if_splits)

lemma wp_not_pending_ops:
  assumes "not_pending f"
  shows "wp_io (prepare_startup v) (\<lambda>r f. r \<noteq> Trial \<and> not_pending f) not_pending not_pending f"
    and "wp_io (commit_startup_trial v) (\<lambda>_. not_pending) not_pending not_pending f"
    and "wp_io (finalize_startup_trial v) (\<lambda>_. not_pending) not_pending not_pending f"
    and "wp_io (rollback_unhealthy_trial v) (\<lambda>_. not_pending) not_pending not_pending f"
    and "wp_io (rollback_failed_candidate t job e) (\<lambda>_. not_pending) not_pending not_pending f"
    and "wp_io acknowledge_recovery_report (\<lambda>_. not_pending) not_pending not_pending f"
proof -
  let ?P = not_pending
  have ws: "wp_io (write_state st) (\<lambda>_. ?P) ?P ?P f" if "?P f" "ux_phase st \<noteq> PhasePending" for st f
    by (rule wp_write_state_not_pending [OF that])
  have undo: "wp_io (bind_io rollback_files (\<lambda>_. bind_io (write_state (rolled_back m st)) (\<lambda>_. give x)))
      (\<lambda>r f. r = x \<and> ?P f) ?P ?P f"
    if "?P f" for st f m and x :: 'x
    by (rule wp_bind_io, rule wp_io_mono [OF wp_rollback_not_pending [OF that]])
      (auto intro!: wp_bind_io wp_give wp_io_mono [OF ws])
  show "wp_io (prepare_startup v) (\<lambda>r f. r \<noteq> Trial \<and> ?P f) ?P ?P f"
    unfolding prepare_startup_def using assms
    by (intro wp_bind_io wp_read_state)
      (auto intro!: wp_give wp_bail wp_bind_io [where m = "write_state _"]
        wp_bind_io [where m = "give ()"] wp_io_mono [OF ws] wp_io_mono [OF undo]
        dest: not_pendingD split: transaction_phase.split)
  show "wp_io (commit_startup_trial v) (\<lambda>_. ?P) ?P ?P f"
    unfolding commit_startup_trial_def using assms
    by (intro wp_bind_io wp_read_state)
      (auto intro!: wp_give wp_bind_io [where m = "write_state _"] wp_io_mono [OF ws])
  show "wp_io (finalize_startup_trial v) (\<lambda>_. ?P) ?P ?P f"
    unfolding finalize_startup_trial_def remove_state_def io_calls using assms
    by (intro wp_bind_io wp_read_state)
      (auto intro!: io_wp simp: not_pending_def)
  show "wp_io (rollback_unhealthy_trial v) (\<lambda>_. ?P) ?P ?P f"
    unfolding rollback_unhealthy_trial_def using assms
    by (intro wp_bind_io wp_read_state) (auto intro!: wp_give wp_io_mono [OF undo])
  show "wp_io (rollback_failed_candidate t job e) (\<lambda>_. ?P) ?P ?P f"
    unfolding rollback_failed_candidate_def Let_def using assms
    by (intro wp_bind_io wp_read_state)
      (auto intro!: wp_io_mono [OF wp_rollback_not_pending] ws)
  show "wp_io acknowledge_recovery_report (\<lambda>_. ?P) ?P ?P f"
    unfolding acknowledge_recovery_report_def io_calls using assms
    by (intro io_wp) (auto intro!: io_wp simp: not_pending_def)
qed

lemma wp_prepare_trial:
  "wp_io (prepare_startup v) (\<lambda>r f. r = Trial \<longrightarrow> not_pending f) (\<lambda>_. True) (\<lambda>_. True) f"
proof -
  have ws: "wp_io (write_state st) (\<lambda>_ f. not_pending f) (\<lambda>_. True) (\<lambda>_. True) f"
    if "ux_phase st \<noteq> PhasePending" for st f
    by (rule wp_write_state_pending [OF that])
  have undo: "wp_io (bind_io rollback_files (\<lambda>_. bind_io (write_state (rolled_back m st))
      (\<lambda>_. give RestartAfterRollback))) (\<lambda>r f. r = Trial \<longrightarrow> not_pending f) (\<lambda>_. True) (\<lambda>_. True) f"
    for m st f
    unfolding wp_io_def bind_io_def give_def
    by (auto split: prod.split outcome.split)
  show ?thesis
    unfolding prepare_startup_def
    by (intro wp_bind_io wp_read_state)
      (auto intro!: wp_give wp_bail wp_bind_io [where m = "write_state _"]
        wp_bind_io [where m = "give ()"] wp_io_mono [OF ws] undo split: transaction_phase.split)
qed

lemma run_io_cases:
  assumes "wp_io m Q E C f"
  shows "case run_io m os f of (Some a, f') \<Rightarrow> Q a f' | (None, f') \<Rightarrow> E f' \<or> C f'"
proof -
  obtain r f' os' where m: "m (f, os) = (r, f', os')" by (metis prod_cases3)
  from wp_ioD [OF assms m] show ?thesis by (cases r) (simp_all add: run_io_def m)
qed

lemma not_pending_step:
  assumes "not_pending f" and "upgrade_step op os f = (r, f')"
  shows "r \<noteq> Some Trial \<and> not_pending f'"
proof (cases "op = StartProcess")
  case False
  then have "not_pending (snd (upgrade_step op os f)) \<and> fst (upgrade_step op os f) = None"
    using assms(1) by (cases op) (auto intro!: run_io_wp wp_not_pending_ops
      simp: trial_is_active_def read_recovery_report_def intro!: wp_bind_io wp_read_state wp_give)
  with assms(2) show ?thesis by simp
next
  case True
  show ?thesis
  proof (cases "\<exists>v b. f CurrentExe = Some (Exe v b)")
    case exe: True
    then obtain v where "run_io (prepare_startup v) os f = (r, f')"
      using assms(2) True by auto
    with run_io_cases [OF wp_not_pending_ops(1) [OF assms(1), of v], of os] show ?thesis
      by (cases r) auto
  next
    case False
    then have "r = None \<and> f' = f"
      using assms(2) True by (auto split: option.splits file_content.splits)
    with assms(1) show ?thesis by simp
  qed
qed

lemma trial_step:
  assumes "upgrade_step op os f = (Some Trial, f')"
  shows "not_pending f'"
proof (cases "op = StartProcess")
  case False
  with assms show ?thesis by (cases op) auto
next
  case True
  with assms obtain v where "run_io (prepare_startup v) os f = (Some Trial, f')"
    by (auto split: option.splits file_content.splits)
  with run_io_cases [OF wp_prepare_trial, of v os f] show ?thesis by simp
qed

lemma not_pending_run: "not_pending f \<Longrightarrow> Some Trial \<notin> set (fst (upgrade_run ops f))"
proof (induction ops arbitrary: f)
  case Nil
  then show ?case by simp
next
  case (Cons x ops)
  obtain op os where x: "x = (op, os)" by (cases x)
  obtain r f' where s: "upgrade_step op os f = (r, f')" by (cases "upgrade_step op os f")
  from not_pending_step [OF Cons.prems s] Cons.IH [of f'] show ?case
    by (auto simp: x s split: prod.split)
qed

text \<open>
  Claim C35: a candidate gets one trial.  Between two installations, whatever starts, crashes and
  failing calls happen in whatever order, at most one start runs the candidate on trial: the start
  that finds the trial unfinished goes back instead of trying again.
\<close>

theorem upgrade_trial_once:
  "length (filter (\<lambda>r. r = Some Trial) (fst (upgrade_run ops f))) \<le> 1"
proof (induction ops arbitrary: f)
  case Nil
  then show ?case by simp
next
  case (Cons x ops)
  obtain op os where x: "x = (op, os)" by (cases x)
  obtain r f' where s: "upgrade_step op os f = (r, f')" by (cases "upgrade_step op os f")
  show ?case
  proof (cases "r = Some Trial")
    case True
    with s have "not_pending f'" by (auto dest: trial_step)
    then have "filter (\<lambda>r. r = Some Trial) (fst (upgrade_run ops f')) = []"
      using not_pending_run by (fastforce simp: filter_empty_conv)
    with True show ?thesis by (simp add: x s split_def)
  next
    case False
    with Cons.IH [of f'] show ?thesis by (simp add: x s split_def)
  qed
qed

section \<open>Without failures\<close>

lemma sys_call_ok [simp]:
  "sys_call ok torn (fs, []) =
     (case ok fs of Some (a, fs') \<Rightarrow> (Done a, fs', []) | None \<Rightarrow> (Failed, fs, []))"
  by (simp add: sys_call_def split: option.split)

lemmas io_run = bind_io_def give_def bail_def or_else_def ignore_error_def io_calls

lemma write_state_ok: "write_state st (f, []) =
    (Done (), f(StateTempPath := None, StatePath := Some (StateDoc st)), [])"
  by (simp add: write_state_def io_run fun_upd_twist)

lemma read_state_ok:
  "f StatePath = None \<Longrightarrow> read_state (f, []) = (Done None, f, [])"
  "f StatePath = Some (StateDoc st) \<Longrightarrow> read_state (f, []) = (Done (Some st), f, [])"
  by (simp_all add: read_state_def io_run)

lemma copy_and_replace_ok: "f CurrentExe = Some c \<Longrightarrow> copy_and_replace (f, []) =
    (Done (), f(BackupTemp := None, BackupPath := Some c), [])"
  by (simp add: copy_and_replace_def io_run fun_upd_twist)

lemma rollback_files_ok: "f CurrentExe = Some c \<Longrightarrow> f BackupPath = Some d \<Longrightarrow> rollback_files (f, []) =
    (Done (), f(FailedPath := Some c, CurrentExe := Some d, BackupPath := None), [])"
  by (simp add: rollback_files_def io_run fun_upd_twist)

text \<open>The files after an installation that succeeded.\<close>

definition installed_files :: "file_content \<Rightarrow> file_content \<Rightarrow> string \<Rightarrow> string option \<Rightarrow> files \<Rightarrow> bool" where
  "installed_files old new target job f \<longleftrightarrow>
     f CurrentExe = Some new \<and> f BackupPath = Some old \<and>
     f StatePath = Some (StateDoc \<lparr>ux_target_version = normalize_version target, ux_job_id = job,
       ux_phase = PhasePending, ux_error = None\<rparr>)"

lemma install_ok:
  assumes "f CurrentExe = Some old" and "f Candidate = Some new"
  shows "\<exists>f'. run_io (install_candidate target job) [] f = (Some (), f') \<and>
    installed_files old new target job f' \<and> f' FailedPath = f FailedPath"
proof -
  have "f CurrentExe \<noteq> None" "f Candidate \<noteq> None" using assms by simp_all
  then show ?thesis
    using assms
    by (simp add: run_io_def install_candidate_def write_state_ok copy_and_replace_ok
        bind_io_def or_else_def give_def is_file_def rename_file_def sync_parent_def sync_def
        installed_files_def)
qed

lemma healthy_trial:
  assumes "installed_files old (Exe v b) target job f" and "normalize_version v = normalize_version target"
  shows "\<exists>f'. upgrade_run [(StartProcess, []), (CommitTrial v, []), (FinalizeTrial v, []), (StartProcess, [])] f =
      ([Some Trial, None, None, Some Normal], f') \<and>
    f' CurrentExe = Some (Exe v b) \<and> f' BackupPath = Some old \<and> f' StatePath = None"
  using assms
  by (simp add: installed_files_def run_io_def prepare_startup_def commit_startup_trial_def
      finalize_startup_trial_def remove_state_def remove_file_def sync_parent_def sync_def
      bind_io_def give_def read_state_ok write_state_ok is_target_def)

lemma failed_trial:
  assumes "installed_files (Exe u a) (Exe v b) target job f"
    and "normalize_version v = normalize_version target" "normalize_version u \<noteq> normalize_version target"
  shows "\<exists>f'. upgrade_run [(StartProcess, []), (StartProcess, []), (StartProcess, [])] f =
      ([Some Trial, Some RestartAfterRollback, Some Recovered], f') \<and>
    f' CurrentExe = Some (Exe u a) \<and>
    run_io (read_recovery_report u) [] f' =
      (Some (Some \<lparr>rr_target_version = normalize_version target, rr_job_id = job, rr_error = exited_error\<rparr>), f')"
  using assms
  by (simp add: installed_files_def run_io_def prepare_startup_def read_recovery_report_def rolled_back_def
      bind_io_def give_def read_state_ok write_state_ok rollback_files_ok is_target_def)

text \<open>
  The two ends of an upgrade.  When nothing fails, an installation puts the candidate in
  place; if it confirms its start and survives the stability window, it stays, the transaction is
  closed and later starts are normal; if it is started again without having confirmed, the
  previous executable is put back, runs, and reports which upgrade failed and why.
\<close>

lemma upgrade_ends:
  assumes "f CurrentExe = Some (Exe u a)" and "f Candidate = Some (Exe v b)"
    and "normalize_version v = normalize_version target" and "normalize_version u \<noteq> normalize_version target"
  shows "\<exists>g. run_io (install_candidate target job) [] f = (Some (), g) \<and>
    (\<exists>f'. upgrade_run [(StartProcess, []), (CommitTrial v, []), (FinalizeTrial v, []), (StartProcess, [])] g =
        ([Some Trial, None, None, Some Normal], f') \<and>
      f' CurrentExe = Some (Exe v b) \<and> f' BackupPath = Some (Exe u a) \<and> f' StatePath = None) \<and>
    (\<exists>f'. upgrade_run [(StartProcess, []), (StartProcess, []), (StartProcess, [])] g =
        ([Some Trial, Some RestartAfterRollback, Some Recovered], f') \<and>
      f' CurrentExe = Some (Exe u a) \<and>
      run_io (read_recovery_report u) [] f' =
        (Some (Some \<lparr>rr_target_version = normalize_version target, rr_job_id = job, rr_error = exited_error\<rparr>), f'))"
proof -
  from install_ok [OF assms(1,2)] obtain g where
    g: "run_io (install_candidate target job) [] f = (Some (), g)"
      "installed_files (Exe u a) (Exe v b) target job g" by blast
  with healthy_trial [OF g(2) assms(3)] failed_trial [OF g(2) assms(3,4)] show ?thesis by blast
qed

lemma upgrade_ends_witness:
  "\<exists>g f'. run_io (install_candidate ''v2'' None) [] demo_files = (Some (), g) \<and>
     upgrade_run [(StartProcess, []), (StartProcess, []), (StartProcess, [])] g =
       ([Some Trial, Some RestartAfterRollback, Some Recovered], f') \<and>
     f' CurrentExe = Some (Exe ''1'' 0)"
proof -
  have "demo_files CurrentExe = Some (Exe ''1'' 0)" "demo_files Candidate = Some (Exe ''2'' 0)"
    "normalize_version ''2'' = normalize_version ''v2''" "normalize_version ''1'' \<noteq> normalize_version ''v2''"
    by (simp_all add: demo_files_def normalize_version_def trim_start_matches_def)
  from upgrade_ends [OF this, of None] show ?thesis by blast
qed

section \<open>The gap between the renames\<close>

text \<open>Once the path of the executable is empty, no operation fills it again.\<close>

lemma wp_rollback_gone:
  "f CurrentExe = None \<Longrightarrow>
   wp_io rollback_files (\<lambda>_ _. False) (\<lambda>f. f CurrentExe = None) (\<lambda>f. f CurrentExe = None) f"
  unfolding rollback_files_def io_calls
  by (intro io_wp) (auto split: option.splits if_splits)

lemma wp_gone_state:
  "f CurrentExe = None \<Longrightarrow>
   wp_io (write_state st) (\<lambda>_ f. f CurrentExe = None) (\<lambda>f. f CurrentExe = None) (\<lambda>f. f CurrentExe = None) f"
  "f CurrentExe = None \<Longrightarrow>
   wp_io remove_state (\<lambda>_ f. f CurrentExe = None) (\<lambda>f. f CurrentExe = None) (\<lambda>f. f CurrentExe = None) f"
  unfolding write_state_def remove_state_def io_calls
  by (intro io_wp; auto split: option.splits if_splits)+

lemma gone_step:
  assumes "f CurrentExe = None"
  shows "fst (upgrade_step op os f) = None \<and> snd (upgrade_step op os f) CurrentExe = None"
proof -
  let ?G = "\<lambda>f :: files. f CurrentExe = None"
  have undo: "wp_io (bind_io rollback_files k) (\<lambda>_. ?G) ?G ?G f" for k :: "unit \<Rightarrow> 'x io"
    by (rule wp_bind_io, rule wp_io_mono [OF wp_rollback_gone [of f]]) (simp_all add: assms)
  have ack: "wp_io acknowledge_recovery_report (\<lambda>_. ?G) ?G ?G f"
    unfolding acknowledge_recovery_report_def io_calls using assms
    by (intro io_wp) (auto intro!: io_wp)
  have "wp_io (commit_startup_trial v) (\<lambda>_. ?G) ?G ?G f" "wp_io (finalize_startup_trial v) (\<lambda>_. ?G) ?G ?G f"
    "wp_io (rollback_unhealthy_trial v) (\<lambda>_. ?G) ?G ?G f"
    "wp_io (rollback_failed_candidate v job e) (\<lambda>_. ?G) ?G ?G f"
    "wp_io trial_is_active (\<lambda>_. ?G) ?G ?G f" "wp_io (read_recovery_report v) (\<lambda>_. ?G) ?G ?G f" for v job e
    unfolding commit_startup_trial_def finalize_startup_trial_def rollback_unhealthy_trial_def
      rollback_failed_candidate_def trial_is_active_def read_recovery_report_def Let_def
    by (rule wp_bind_io, rule wp_read_state;
        auto simp: assms intro!: wp_give wp_gone_state undo wp_bind_io [where m = "write_state _"]
          wp_io_mono [OF wp_gone_state(1)])+
  note ops = this ack
  show ?thesis using assms by (cases op) (auto intro: run_io_wp ops)
qed

lemma gone_run:
  assumes "f CurrentExe = None" and "f BackupPath = Some old"
  shows "set (fst (upgrade_run ops f)) \<subseteq> {None} \<and> snd (upgrade_run ops f) CurrentExe = None \<and>
    snd (upgrade_run ops f) BackupPath = Some old"
  using assms
proof (induction ops arbitrary: f)
  case Nil
  then show ?case by simp
next
  case (Cons x ops)
  obtain op os where x: "x = (op, os)" by (cases x)
  obtain r f' where s: "upgrade_step op os f = (r, f')" by (cases "upgrade_step op os f")
  have "r = None \<and> f' CurrentExe = None" using gone_step [of f op os] Cons.prems(1) s by simp
  moreover have "swap_safe old f'"
    using swap_safe_step [of old f op os] Cons.prems s by (simp add: swap_safe_def)
  ultimately show ?case
    using Cons.IH [of f'] by (auto simp: x s split_def swap_safe_def)
qed

text \<open>
  Claim C36: a crash between the two renames of a rollback is never repaired.  If the process dies
  after the candidate was moved aside and before the backup was moved back, there is no executable
  at the path any more; nothing starts, and no later operation, in any order, with or without
  failures, ever puts the backup back, although it stays there.
\<close>

theorem rollback_crash_is_final:
  assumes "f CurrentExe = Some (Exe u a)" and "f Candidate = Some (Exe v b)" and "f FailedPath = None"
    and "normalize_version v = normalize_version target"
    and "run_io (install_candidate target job) [] f = (Some (), g)"
  shows "\<exists>h. upgrade_run [(StartProcess, []), (StartProcess, replicate 4 CallOk @ [CallCrashes False])] g =
      ([Some Trial, None], h) \<and>
    set (fst (upgrade_run ops h)) \<subseteq> {None} \<and> snd (upgrade_run ops h) CurrentExe = None \<and>
    snd (upgrade_run ops h) BackupPath = Some (Exe u a)"
proof -
  from install_ok [OF assms(1,2), of target job] assms(3,5)
  have g: "installed_files (Exe u a) (Exe v b) target job g" "g FailedPath = None" by auto
  then have "\<exists>h. upgrade_run [(StartProcess, []), (StartProcess, replicate 4 CallOk @ [CallCrashes False])] g =
      ([Some Trial, None], h) \<and> h CurrentExe = None \<and> h BackupPath = Some (Exe u a)"
    using assms(4)
    by (simp add: installed_files_def run_io_def prepare_startup_def read_state_ok write_state_ok
        is_target_def bind_io_def give_def read_state_def read_file_def rollback_files_def is_file_def
        or_else_def rename_file_def sys_call_def eval_nat_numeral)
  with gone_run [of _ "Exe u a" ops] show ?thesis by blast
qed

theorem rollback_crash_is_final_witness:
  "\<exists>g h. run_io (install_candidate ''2'' None) [] demo_files = (Some (), g) \<and>
     upgrade_run [(StartProcess, []), (StartProcess, replicate 4 CallOk @ [CallCrashes False])] g =
       ([Some Trial, None], h) \<and>
     snd (upgrade_run [(StartProcess, []), (ParentGivesUp ''2'' None ''gone'', [])] h) CurrentExe = None"
proof -
  have demo: "demo_files CurrentExe = Some (Exe ''1'' 0)" "demo_files Candidate = Some (Exe ''2'' 0)"
    "demo_files FailedPath = None" by (simp_all add: demo_files_def)
  from install_ok [OF demo(1,2)] obtain g where g: "run_io (install_candidate ''2'' None) [] demo_files = (Some (), g)"
    by blast
  from rollback_crash_is_final [OF demo refl g] g show ?thesis by blast
qed

end
