(* ===== verification/Agent_Firewall.thy ===== *)
theory Agent_Firewall
  imports Ssrf
begin

text \<open>
  The agent's firewall: the guardrail (\<open>crates/agent/src/firewall/guardrail.rs\<close>), the driver of the
  \<open>nft\<close> command (\<open>nft.rs\<close>), the manager that mirrors the server's block list (\<open>manager.rs\<close>), and the
  wire types they share with the server (\<open>crates/common/src/firewall.rs\<close>).

  Parameters: the \<open>ipnet\<close> library (a record of its operations, with the laws the guardrail relies
  on), and the answers of the \<open>nft\<close> command.  Every command run is logged with the way its process
  ended, and what the kernel holds is a function of that log, whatever the driver makes of it.  \<open>None\<close> is a panic.  Reasons are values; their
  texts are left out.
\<close>

section \<open>Guardrail\<close>

record 'n net_ops =
  no_parse :: "string \<Rightarrow> 'n option"
  no_host :: "ip_addr \<Rightarrow> 'n"
  no_network :: "'n \<Rightarrow> ip_addr"
  no_prefix_len :: "'n \<Rightarrow> nat"
  no_contains :: "'n \<Rightarrow> ip_addr \<Rightarrow> bool"

definition PROTECTED_CIDRS :: "string list" where
  "PROTECTED_CIDRS =
     [''127.0.0.0/8'', ''10.0.0.0/8'', ''172.16.0.0/12'', ''192.168.0.0/16'', ''169.254.0.0/16'',
      ''0.0.0.0/8'', ''224.0.0.0/4'', ''::1/128'', ''fc00::/7'', ''fe80::/10'', ''ff00::/8'', ''::/128'']"

datatype guardrail_error =
  InvalidCidr string | HitsProtected string | OwnExternalIp ip_addr | RangeContainsOwnIp ip_addr

fun check_protected :: "'n net_ops \<Rightarrow> 'n \<Rightarrow> string list \<Rightarrow> (guardrail_error + unit) option" where
  "check_protected ops net [] = Some (Inr ())"
| "check_protected ops net (p # ps) =
     (case no_parse ops p of
        None \<Rightarrow> None
      | Some prot \<Rightarrow>
          if no_contains ops prot (no_network ops net) \<or> no_contains ops net (no_network ops prot)
          then Some (Inl (HitsProtected p))
          else check_protected ops net ps)"

definition guardrail_check :: "'n net_ops \<Rightarrow> string \<Rightarrow> ip_addr option \<Rightarrow> (guardrail_error + unit) option" where
  "guardrail_check ops target_cidr own_external_ip =
     (case no_parse ops target_cidr of
        None \<Rightarrow> Some (Inl (InvalidCidr target_cidr))
      | Some net \<Rightarrow>
          (case check_protected ops net PROTECTED_CIDRS of
             Some (Inr _) \<Rightarrow>
               (case own_external_ip of
                  None \<Rightarrow> Some (Inr ())
                | Some ip \<Rightarrow>
                    let own_net = no_host ops ip in
                    if no_network ops own_net = no_network ops net \<and>
                       no_prefix_len ops own_net = no_prefix_len ops net
                    then Some (Inl (OwnExternalIp ip))
                    else if no_contains ops net ip then Some (Inl (RangeContainsOwnIp ip))
                    else Some (Inr ()))
           | r \<Rightarrow> r))"

section \<open>The nft driver\<close>

datatype nft_error = PermissionDenied | KernelMissing | BinaryMissing | OtherNft string

datatype nft_op =
  OpAddTable | OpAddSet | OpAddChain | OpAddRule | OpAddElement | OpDeleteElement | OpFlushSet | OpDeleteTable

definition is_idempotent_signal :: "string \<Rightarrow> nft_op \<Rightarrow> bool" where
  "is_idempotent_signal stderr op =
     (case op of
        OpDeleteElement \<Rightarrow> str_contains stderr ''No such file or directory''
      | OpFlushSet \<Rightarrow> str_contains stderr ''No such file or directory''
      | OpDeleteTable \<Rightarrow> str_contains stderr ''No such file or directory''
      | _ \<Rightarrow> str_contains stderr ''File exists'')"

text \<open>The first line, without its line ending; \<open>None\<close> for an empty text.\<close>

definition first_line :: "string \<Rightarrow> string option" where
  "first_line s =
     (if s = [] then None
      else let l = takeWhile (\<lambda>c. c \<noteq> CHR 0x0A) s in
        Some (if length l < length s \<and> l \<noteq> [] \<and> last l = CHR 0x0D then butlast l else l))"

text \<open>How the process ended: it could not be started, or it exited.\<close>

datatype nft_process = SpawnNotFound | SpawnFailed string | Exited bool string

definition cli_result :: "nft_process \<Rightarrow> nft_op \<Rightarrow> nft_error + unit" where
  "cli_result p op =
     (case p of
        SpawnNotFound \<Rightarrow> Inl BinaryMissing
      | SpawnFailed e \<Rightarrow> Inl (OtherNft e)
      | Exited success stderr \<Rightarrow>
          if success then Inr ()
          else if is_idempotent_signal stderr op then Inr ()
          else if str_contains stderr ''Operation not permitted'' then Inl PermissionDenied
          else if str_contains stderr ''No such file or directory'' then Inl KernelMissing
          else Inl (OtherNft (case first_line stderr of Some l \<Rightarrow> l | None \<Rightarrow> ''nft failed'')))"

datatype nft_command =
  AddTable | AddSet string | AddChain | AddRule string | AddElement string string
| DeleteElement string string | FlushSet string | DeleteTable

fun op_of :: "nft_command \<Rightarrow> nft_op" where
  "op_of AddTable = OpAddTable"
| "op_of (AddSet s) = OpAddSet"
| "op_of AddChain = OpAddChain"
| "op_of (AddRule s) = OpAddRule"
| "op_of (AddElement s t) = OpAddElement"
| "op_of (DeleteElement s t) = OpDeleteElement"
| "op_of (FlushSet s) = OpFlushSet"
| "op_of DeleteTable = OpDeleteTable"

record block_entry =
  be_id :: string
  be_target :: string
  be_family :: u8

text \<open>
  The manager's fields, the answers still to come (process ends of \<open>run\<close>, listings as the sets
  their rules match), and the commands run so far with the ends of their processes.
\<close>

record firewall =
  fw_desired :: "(string, block_entry) table"
  fw_nft_ready :: bool
  fw_external_ip :: "ip_addr option"
  fw_answers :: "nft_process list"
  fw_listings :: "(nft_error + string list) list"
  fw_log :: "(nft_command \<times> nft_process) list"

definition nft_run :: "nft_command \<Rightarrow> firewall \<Rightarrow> (nft_error + unit) \<times> firewall" where
  "nft_run cmd fw =
     (let answer = (case fw_answers fw of a # _ \<Rightarrow> a | [] \<Rightarrow> Exited True []);
          fw = fw\<lparr>fw_answers := drop 1 (fw_answers fw), fw_log := fw_log fw @ [(cmd, answer)]\<rparr>
      in (cli_result answer (op_of cmd), fw))"

definition list_chain :: "firewall \<Rightarrow> (nft_error + string list) \<times> firewall" where
  "list_chain fw =
     (case fw_listings fw of
        [] \<Rightarrow> (Inr [], fw)
      | l # ls \<Rightarrow> (l, fw\<lparr>fw_listings := ls\<rparr>))"

text \<open>The \<open>?\<close> operator.\<close>

definition and_then ::
  "('e + 'a) \<times> firewall \<Rightarrow> ('a \<Rightarrow> firewall \<Rightarrow> ('e + 'b) \<times> firewall) \<Rightarrow> ('e + 'b) \<times> firewall" where
  "and_then r f = (case r of (Inl e, fw) \<Rightarrow> (Inl e, fw) | (Inr a, fw) \<Rightarrow> f a fw)"

definition ensure_resources :: "firewall \<Rightarrow> (nft_error + unit) \<times> firewall" where
  "ensure_resources fw =
     and_then (nft_run AddTable fw) (\<lambda>_ fw.
     and_then (nft_run (AddSet ''block_v4'') fw) (\<lambda>_ fw.
     and_then (nft_run (AddSet ''block_v6'') fw) (\<lambda>_ fw.
     and_then (nft_run AddChain fw) (\<lambda>_ fw.
     and_then (list_chain fw) (\<lambda>rules fw.
     and_then (if ''block_v4'' \<in> set rules then (Inr (), fw) else nft_run (AddRule ''block_v4'') fw) (\<lambda>_ fw.
     if ''block_v6'' \<in> set rules then (Inr (), fw) else nft_run (AddRule ''block_v6'') fw))))))"

definition set_of_entry :: "block_entry \<Rightarrow> string" where
  "set_of_entry e = (if be_family e = 4 then ''block_v4'' else ''block_v6'')"

definition add_element :: "block_entry \<Rightarrow> firewall \<Rightarrow> (nft_error + unit) \<times> firewall" where
  "add_element e = nft_run (AddElement (set_of_entry e) (be_target e))"

definition delete_element :: "block_entry \<Rightarrow> firewall \<Rightarrow> (nft_error + unit) \<times> firewall" where
  "delete_element e = nft_run (DeleteElement (set_of_entry e) (be_target e))"

definition unconditional_wipe :: "firewall \<Rightarrow> (nft_error + unit) \<times> firewall" where
  "unconditional_wipe fw =
     (let fw = snd (nft_run (FlushSet ''block_v4'') fw);
          fw = snd (nft_run (FlushSet ''block_v6'') fw)
      in nft_run DeleteTable fw)"

section \<open>The manager\<close>

datatype entry_state = Present | Absent | FailedState

datatype ack_reason = ReasonNft nft_error | ReasonGuardrail guardrail_error

record ack_item =
  ai_id :: string
  ai_state :: entry_state
  ai_reason :: "ack_reason option"

datatype server_message =
  BlocklistReset | BlocklistSync "block_entry list" | BlocklistAdd block_entry | BlocklistRemove string
| OtherMessage

datatype agent_reply = BlocklistResetAck bool "ack_reason option" | BlocklistAck "ack_item list"

definition new_firewall :: firewall where
  "new_firewall = \<lparr>fw_desired = [], fw_nft_ready = False, fw_external_ip = None, fw_answers = [],
     fw_listings = [], fw_log = []\<rparr>"

definition set_external_ip :: "ip_addr option \<Rightarrow> firewall \<Rightarrow> firewall" where
  "set_external_ip ip fw = fw\<lparr>fw_external_ip := ip\<rparr>"

definition item :: "string \<Rightarrow> entry_state \<Rightarrow> ack_reason option \<Rightarrow> ack_item" where
  "item i s r = \<lparr>ai_id = i, ai_state = s, ai_reason = r\<rparr>"

definition handle_reset :: "firewall \<Rightarrow> agent_reply \<times> firewall" where
  "handle_reset fw =
     (case unconditional_wipe fw of
        (Inr _, fw) \<Rightarrow> (BlocklistResetAck True None, fw\<lparr>fw_desired := [], fw_nft_ready := False\<rparr>)
      | (Inl e, fw) \<Rightarrow> (BlocklistResetAck False (Some (ReasonNft e)), fw))"

definition ensure_ready :: "firewall \<Rightarrow> (nft_error + unit) \<times> firewall" where
  "ensure_ready fw =
     (if fw_nft_ready fw then (Inr (), fw)
      else and_then (ensure_resources fw) (\<lambda>_ fw. (Inr (), fw\<lparr>fw_nft_ready := True\<rparr>)))"

text \<open>The loop over the incoming entries.\<close>

fun sync_entries ::
  "'n net_ops \<Rightarrow> ip_addr option \<Rightarrow> block_entry list \<Rightarrow> firewall \<Rightarrow> (ack_item list \<times> firewall) option" where
  "sync_entries ops own_ip [] fw = Some ([], fw)"
| "sync_entries ops own_ip (e # es) fw =
     (case guardrail_check ops (be_target e) own_ip of
        None \<Rightarrow> None
      | Some (Inl r) \<Rightarrow>
          map_option (\<lambda>(items, fw). (item (be_id e) FailedState (Some (ReasonGuardrail r)) # items, fw))
            (sync_entries ops own_ip es (fw\<lparr>fw_desired := tdel (be_id e) (fw_desired fw)\<rparr>))
      | Some (Inr _) \<Rightarrow>
          (case add_element e fw of
             (Inr _, fw) \<Rightarrow>
               map_option (\<lambda>(items, fw). (item (be_id e) Present None # items, fw))
                 (sync_entries ops own_ip es (fw\<lparr>fw_desired := tput (be_id e) e (fw_desired fw)\<rparr>))
           | (Inl err, fw) \<Rightarrow>
               map_option (\<lambda>(items, fw). (item (be_id e) FailedState (Some (ReasonNft err)) # items, fw))
                 (sync_entries ops own_ip es (fw\<lparr>fw_desired := tdel (be_id e) (fw_desired fw)\<rparr>))))"

text \<open>The loop over the entries to remove.\<close>

fun remove_entries :: "block_entry list \<Rightarrow> firewall \<Rightarrow> ack_item list \<times> firewall" where
  "remove_entries [] fw = ([], fw)"
| "remove_entries (e # es) fw =
     (case delete_element e fw of
        (Inr _, fw) \<Rightarrow>
          (let (items, fw) = remove_entries es (fw\<lparr>fw_desired := tdel (be_id e) (fw_desired fw)\<rparr>)
           in (item (be_id e) Absent None # items, fw))
      | (Inl err, fw) \<Rightarrow>
          (let (items, fw) = remove_entries es fw
           in (item (be_id e) FailedState (Some (ReasonNft err)) # items, fw)))"

definition handle_sync :: "'n net_ops \<Rightarrow> block_entry list \<Rightarrow> firewall \<Rightarrow> (agent_reply \<times> firewall) option" where
  "handle_sync ops entries fw =
     (case ensure_ready fw of
        (Inl reason, fw) \<Rightarrow>
          Some (BlocklistAck (map (\<lambda>e. item (be_id e) FailedState (Some (ReasonNft reason))) entries), fw)
      | (Inr _, fw) \<Rightarrow>
          let incoming = foldl (\<lambda>t e. tput (be_id e) e t) [] entries;
              to_remove = filter (\<lambda>e. \<not> thas incoming (be_id e)) (map snd (fw_desired fw))
          in map_option (\<lambda>(items, fw).
               let (removed, fw) = remove_entries to_remove fw in (BlocklistAck (items @ removed), fw))
             (sync_entries ops (fw_external_ip fw) (map snd incoming) fw))"

definition handle_add :: "'n net_ops \<Rightarrow> block_entry \<Rightarrow> firewall \<Rightarrow> (agent_reply \<times> firewall) option" where
  "handle_add ops e fw =
     (case ensure_ready fw of
        (Inl reason, fw) \<Rightarrow> Some (BlocklistAck [item (be_id e) FailedState (Some (ReasonNft reason))], fw)
      | (Inr _, fw) \<Rightarrow>
          (case guardrail_check ops (be_target e) (fw_external_ip fw) of
             None \<Rightarrow> None
           | Some (Inl r) \<Rightarrow> Some (BlocklistAck [item (be_id e) FailedState (Some (ReasonGuardrail r))], fw)
           | Some (Inr _) \<Rightarrow>
               Some (case add_element e fw of
                 (Inr _, fw) \<Rightarrow>
                   (BlocklistAck [item (be_id e) Present None],
                    fw\<lparr>fw_desired := tput (be_id e) e (fw_desired fw)\<rparr>)
               | (Inl err, fw) \<Rightarrow>
                   (BlocklistAck [item (be_id e) FailedState (Some (ReasonNft err))], fw))))"

definition handle_remove :: "string \<Rightarrow> firewall \<Rightarrow> agent_reply \<times> firewall" where
  "handle_remove i fw =
     (case tget (fw_desired fw) i of
        None \<Rightarrow> (BlocklistAck [item i Absent None], fw)
      | Some e \<Rightarrow>
          (case delete_element e fw of
             (Inr _, fw) \<Rightarrow>
               (BlocklistAck [item i Absent None], fw\<lparr>fw_desired := tdel i (fw_desired fw)\<rparr>)
           | (Inl err, fw) \<Rightarrow> (BlocklistAck [item i FailedState (Some (ReasonNft err))], fw)))"

definition firewall_handle ::
  "'n net_ops \<Rightarrow> server_message \<Rightarrow> firewall \<Rightarrow> (agent_reply option \<times> firewall) option" where
  "firewall_handle ops msg fw =
     (case msg of
        BlocklistReset \<Rightarrow> Some (apfst Some (handle_reset fw))
      | BlocklistSync entries \<Rightarrow> map_option (apfst Some) (handle_sync ops entries fw)
      | BlocklistAdd e \<Rightarrow> map_option (apfst Some) (handle_add ops e fw)
      | BlocklistRemove i \<Rightarrow> Some (apfst Some (handle_remove i fw))
      | OtherMessage \<Rightarrow> Some (None, fw))"

section \<open>The guardrail keeps protected addresses reachable\<close>

text \<open>
  What the guardrail relies on: a block contains its network address, the block of a host contains
  exactly the host, and two blocks that share an address are nested.
\<close>

definition net_laws :: "'n net_ops \<Rightarrow> bool" where
  "net_laws ops \<longleftrightarrow>
     (\<forall>n. no_contains ops n (no_network ops n)) \<and>
     (\<forall>n m a. no_contains ops n a \<longrightarrow> no_contains ops m a \<longrightarrow>
        (\<forall>b. no_contains ops n b \<longrightarrow> no_contains ops m b) \<or> (\<forall>b. no_contains ops m b \<longrightarrow> no_contains ops n b))"

lemma check_protected_ok:
  assumes "check_protected ops net ps = Some (Inr ())" and "p \<in> set ps"
  shows "\<exists>prot. no_parse ops p = Some prot \<and> \<not> no_contains ops prot (no_network ops net) \<and>
    \<not> no_contains ops net (no_network ops prot)"
  using assms by (induction ps) (auto split: option.splits if_splits)

text \<open>
  The guardrail keeps the protected addresses reachable.  A target it lets through has
  no address in common with any protected range, however the two overlap, and does not contain the
  agent's own external address.
\<close>

lemma guardrail_protects:
  assumes "net_laws ops" and "guardrail_check ops target own = Some (Inr ())"
    and "no_parse ops target = Some net" and "no_contains ops net a"
  shows "own \<noteq> Some a \<and>
    (\<forall>p \<in> set PROTECTED_CIDRS. \<exists>prot. no_parse ops p = Some prot \<and> \<not> no_contains ops prot a)"
proof -
  from assms(2) have check: "(case check_protected ops net PROTECTED_CIDRS of
      Some (Inr _) \<Rightarrow>
        (case own of None \<Rightarrow> Some (Inr ())
         | Some ip \<Rightarrow>
             if no_network ops (no_host ops ip) = no_network ops net \<and>
                no_prefix_len ops (no_host ops ip) = no_prefix_len ops net
             then Some (Inl (OwnExternalIp ip))
             else if no_contains ops net ip then Some (Inl (RangeContainsOwnIp ip)) else Some (Inr ()))
    | r \<Rightarrow> r) = Some (Inr ())"
    by (simp only: guardrail_check_def assms(3) option.case Let_def)
  have ok: "check_protected ops net PROTECTED_CIDRS = Some (Inr ())"
  proof (cases "check_protected ops net PROTECTED_CIDRS")
    case None
    with check show ?thesis by simp
  next
    case (Some r)
    with check show ?thesis by (cases r) simp_all
  qed
  have "own \<noteq> Some a"
  proof
    assume "own = Some a"
    with check [unfolded ok option.case sum.case] assms(4) show False by (simp split: if_splits)
  qed
  moreover have "\<exists>prot. no_parse ops p = Some prot \<and> \<not> no_contains ops prot a"
    if "p \<in> set PROTECTED_CIDRS" for p
    using check_protected_ok [OF ok that] assms(1,4) unfolding net_laws_def by blast
  ultimately show ?thesis by blast
qed

text \<open>Blocks as an address and a number of leading bits, for the witness.\<close>

fun addr_bits :: "ip_addr \<Rightarrow> bool list" where
  "addr_bits (V4 a b c d) = concat (map (\<lambda>w. rev (map (bit w) [0..<8])) [a, b, c, d])"
| "addr_bits (V6 a b c d e f g h) = concat (map (\<lambda>w. rev (map (bit w) [0..<16])) [a, b, c, d, e, f, g, h])"

definition same_family :: "ip_addr \<Rightarrow> ip_addr \<Rightarrow> bool" where
  "same_family a b \<longleftrightarrow> length (addr_bits a) = length (addr_bits b)"

definition demo_contains :: "ip_addr \<times> nat \<Rightarrow> ip_addr \<Rightarrow> bool" where
  "demo_contains n a \<longleftrightarrow>
     same_family (fst n) a \<and> take (snd n) (addr_bits (fst n)) = take (snd n) (addr_bits a)"

definition demo_blocks :: "(string \<times> ip_addr \<times> nat) list" where
  "demo_blocks =
     [(''127.0.0.0/8'', V4 127 0 0 0, 8), (''10.0.0.0/8'', V4 10 0 0 0, 8),
      (''172.16.0.0/12'', V4 172 16 0 0, 12), (''192.168.0.0/16'', V4 192 168 0 0, 16),
      (''169.254.0.0/16'', V4 169 254 0 0, 16), (''0.0.0.0/8'', V4 0 0 0 0, 8),
      (''224.0.0.0/4'', V4 224 0 0 0, 4), (''::1/128'', V6 0 0 0 0 0 0 0 1, 128),
      (''fc00::/7'', V6 0xfc00 0 0 0 0 0 0 0, 7), (''fe80::/10'', V6 0xfe80 0 0 0 0 0 0 0, 10),
      (''ff00::/8'', V6 0xff00 0 0 0 0 0 0 0, 8), (''::/128'', V6 0 0 0 0 0 0 0 0, 128),
      (''198.51.100.0/24'', V4 198 51 100 0, 24)]"

definition demo_nets :: "(ip_addr \<times> nat) net_ops" where
  "demo_nets = \<lparr>no_parse = map_of demo_blocks, no_host = (\<lambda>a. (a, length (addr_bits a))),
     no_network = fst, no_prefix_len = snd, no_contains = demo_contains\<rparr>"

lemma demo_net_laws: "net_laws demo_nets"
proof -
  have nested: "demo_contains m b"
    if "demo_contains n a" "demo_contains m a" "snd m \<le> snd n" "demo_contains n b" for n m a b
  proof -
    have "take (snd m) (take (snd n) xs) = take (snd m) xs" for xs :: "bool list"
      using that(3) by (simp add: min_absorb1)
    with that show ?thesis unfolding demo_contains_def same_family_def by metis
  qed
  have "(\<forall>b. demo_contains n b \<longrightarrow> demo_contains m b) \<or> (\<forall>b. demo_contains m b \<longrightarrow> demo_contains n b)"
    if "demo_contains n a" "demo_contains m a" for n m a
    using nested [OF that] nested [OF that(2,1)] by (cases "snd m \<le> snd n") auto
  moreover have "demo_contains n (fst n)" for n by (simp add: demo_contains_def same_family_def)
  ultimately show ?thesis
    unfolding net_laws_def demo_nets_def net_ops.simps by blast
qed

lemma guardrail_protects_witness:
  "list_all (\<lambda>p. \<exists>prot. no_parse demo_nets p = Some prot \<and>
     \<not> no_contains demo_nets prot (V4 198 51 100 7)) PROTECTED_CIDRS"
proof -
  have "guardrail_check demo_nets ''198.51.100.0/24'' (Some (V4 203 0 113 7)) = Some (Inr ())"
    "no_parse demo_nets ''198.51.100.0/24'' = Some (V4 198 51 100 0, 24)"
    "no_contains demo_nets (V4 198 51 100 0, 24) (V4 198 51 100 7)"
    by code_simp+
  from guardrail_protects [OF demo_net_laws this] show ?thesis unfolding list_all_iff by blast
qed

section \<open>The mirror and the kernel\<close>

text \<open>
  What the kernel holds, as documented for \<open>nft\<close>: a command is one transaction, which is done when
  the process exits with success, and changes nothing otherwise.  (Nobody else changes the table.)
\<close>

fun kernel_effect :: "(string \<times> string) set \<Rightarrow> nft_command \<Rightarrow> (string \<times> string) set" where
  "kernel_effect K (AddElement s t) = insert (s, t) K"
| "kernel_effect K (DeleteElement s t) = K - {(s, t)}"
| "kernel_effect K (FlushSet s) = {k \<in> K. fst k \<noteq> s}"
| "kernel_effect K DeleteTable = {}"
| "kernel_effect K _ = K"

fun kernel_step :: "(string \<times> string) set \<Rightarrow> nft_command \<times> nft_process \<Rightarrow> (string \<times> string) set" where
  "kernel_step K (cmd, Exited True _) = kernel_effect K cmd"
| "kernel_step K _ = K"

definition kernel_elements :: "firewall \<Rightarrow> (string \<times> string) set" where
  "kernel_elements fw = foldl kernel_step {} (fw_log fw)"

text \<open>
  What a failed command says is true of the kernel it met: an element that cannot be added because
  it exists is there or shares addresses with one of the same set (the sets hold intervals), and one that
  cannot be deleted for want of it is not there.
\<close>

definition element_overlaps :: "'n net_ops \<Rightarrow> string \<times> string \<Rightarrow> string \<times> string \<Rightarrow> bool" where
  "element_overlaps ops k e \<longleftrightarrow> fst k = fst e \<and>
     (case (no_parse ops (snd k), no_parse ops (snd e)) of
        (Some n, Some m) \<Rightarrow> no_contains ops n (no_network ops m) \<or> no_contains ops m (no_network ops n)
      | _ \<Rightarrow> False)"

fun answer_true :: "'n net_ops \<Rightarrow> (string \<times> string) set \<Rightarrow> nft_command \<times> nft_process \<Rightarrow> bool" where
  "answer_true ops K (AddElement s t, Exited False err) \<longleftrightarrow>
     (str_contains err ''File exists'' \<longrightarrow> (s, t) \<in> K \<or> (\<exists>k \<in> K. element_overlaps ops k (s, t)))"
| "answer_true ops K (DeleteElement s t, Exited False err) \<longleftrightarrow>
     (str_contains err ''No such file or directory'' \<longrightarrow> (s, t) \<notin> K)"
| "answer_true ops K (FlushSet s, Exited False err) \<longleftrightarrow>
     (str_contains err ''No such file or directory'' \<longrightarrow> (\<forall>k \<in> K. fst k \<noteq> s))"
| "answer_true ops K (DeleteTable, Exited False err) \<longleftrightarrow>
     (str_contains err ''No such file or directory'' \<longrightarrow> K = {})"
| "answer_true ops K _ \<longleftrightarrow> True"

fun true_log :: "'n net_ops \<Rightarrow> (string \<times> string) set \<Rightarrow> (nft_command \<times> nft_process) list \<Rightarrow> bool" where
  "true_log ops K [] \<longleftrightarrow> True"
| "true_log ops K (x # l) \<longleftrightarrow> answer_true ops K x \<and> true_log ops (kernel_step K x) l"

definition nft_true :: "'n net_ops \<Rightarrow> firewall \<Rightarrow> bool" where
  "nft_true ops fw \<longleftrightarrow> true_log ops {} (fw_log fw)"

definition element_of :: "block_entry \<Rightarrow> string \<times> string" where
  "element_of e = (set_of_entry e, be_target e)"

definition held :: "firewall \<Rightarrow> string set" where
  "held fw = {i. thas (fw_desired fw) i}"

text \<open>
  The mirror is exact when the kernel holds the elements of the entries the manager believes to be
  there.  \<open>spec\<close> is the element the server gives every identifier; no two identifiers share one
  (the server's table is unique in the target).  The elements are apart when no two share an address.
\<close>

definition apart :: "'n net_ops \<Rightarrow> (string \<Rightarrow> string \<times> string) \<Rightarrow> bool" where
  "apart ops spec \<longleftrightarrow> inj spec \<and> (\<forall>i j. element_overlaps ops (spec i) (spec j) \<longrightarrow> i = j)"

definition entries_follow :: "(string \<Rightarrow> string \<times> string) \<Rightarrow> block_entry list \<Rightarrow> bool" where
  "entries_follow spec es \<longleftrightarrow> list_all (\<lambda>e. element_of e = spec (be_id e)) es"

definition mirror :: "(string \<Rightarrow> string \<times> string) \<Rightarrow> firewall \<Rightarrow> bool" where
  "mirror spec fw \<longleftrightarrow>
     table_ok (fw_desired fw) \<and>
     (\<forall>i e. tget (fw_desired fw) i = Some e \<longrightarrow> be_id e = i \<and> element_of e = spec i) \<and>
     kernel_elements fw = spec ` held fw"

lemma kernel_fields [simp]:
  "kernel_elements (fw\<lparr>fw_desired := d\<rparr>) = kernel_elements fw"
  "kernel_elements (fw\<lparr>fw_nft_ready := b\<rparr>) = kernel_elements fw"
  "kernel_elements (fw\<lparr>fw_answers := as\<rparr>) = kernel_elements fw"
  "kernel_elements (fw\<lparr>fw_log := fw_log fw @ [x]\<rparr>) = kernel_step (kernel_elements fw) x"
  "kernel_elements (fw\<lparr>fw_listings := ls\<rparr>) = kernel_elements fw"
  by (simp_all add: kernel_elements_def)

lemma true_log_append: "true_log ops K (l @ l') \<longleftrightarrow> true_log ops K l \<and> true_log ops (foldl kernel_step K l) l'"
  by (induction l arbitrary: K) auto

lemma nft_true_fields [simp]:
  "nft_true ops (fw\<lparr>fw_desired := d\<rparr>) = nft_true ops fw" "nft_true ops (fw\<lparr>fw_nft_ready := b\<rparr>) = nft_true ops fw"
  "nft_true ops (fw\<lparr>fw_answers := as\<rparr>) = nft_true ops fw" "nft_true ops (fw\<lparr>fw_listings := ls\<rparr>) = nft_true ops fw"
  "nft_true ops (fw\<lparr>fw_external_ip := ip\<rparr>) = nft_true ops fw"
  "nft_true ops (fw\<lparr>fw_log := fw_log fw @ [x]\<rparr>) \<longleftrightarrow> nft_true ops fw \<and> answer_true ops (kernel_elements fw) x"
  by (simp_all add: nft_true_def true_log_append kernel_elements_def)

lemma held_fields [simp]:
  "held (fw\<lparr>fw_nft_ready := b\<rparr>) = held fw" "held (fw\<lparr>fw_answers := as\<rparr>) = held fw"
  "held (fw\<lparr>fw_log := l\<rparr>) = held fw"
  "held (fw\<lparr>fw_desired := tput i e (fw_desired fw)\<rparr>) = insert i (held fw)"
  "held (fw\<lparr>fw_desired := tdel i (fw_desired fw)\<rparr>) = held fw - {i}"
  "held (fw\<lparr>fw_desired := []\<rparr>) = {}"
  by (auto simp: held_def thas_def table_simps)

text \<open>One command: the table stays; the kernel changes when the process exits with success.\<close>

lemma nft_run_parts:
  assumes "nft_run cmd fw = (r, fw')"
  shows "\<exists>p. r = cli_result p (op_of cmd) \<and> fw_desired fw' = fw_desired fw \<and>
    fw_nft_ready fw' = fw_nft_ready fw \<and> fw_external_ip fw' = fw_external_ip fw \<and>
    kernel_elements fw' = kernel_step (kernel_elements fw) (cmd, p) \<and>
    (nft_true ops fw' \<longleftrightarrow> nft_true ops fw \<and> answer_true ops (kernel_elements fw) (cmd, p))"
proof -
  define p where "p = (case fw_answers fw of a # _ \<Rightarrow> a | [] \<Rightarrow> Exited True [])"
  let ?fw = "fw\<lparr>fw_answers := drop 1 (fw_answers fw)\<rparr>"
  have "r = cli_result p (op_of cmd)" "fw' = ?fw\<lparr>fw_log := fw_log ?fw @ [(cmd, p)]\<rparr>"
    using assms by (simp_all add: nft_run_def Let_def p_def)
  then show ?thesis by (intro exI [of _ p]) (simp only: kernel_fields nft_true_fields, simp)
qed

lemma nft_run_effect:
  assumes "nft_run cmd fw = (r, fw')"
  shows "fw_desired fw' = fw_desired fw" "fw_nft_ready fw' = fw_nft_ready fw"
    "fw_external_ip fw' = fw_external_ip fw"
    "kernel_elements fw' = kernel_elements fw \<or> kernel_elements fw' = kernel_effect (kernel_elements fw) cmd"
    "r = Inl e \<Longrightarrow> kernel_elements fw' = kernel_elements fw"
    "nft_true ops fw' \<Longrightarrow> nft_true ops fw"
proof -
  from assms obtain p where p: "r = cli_result p (op_of cmd)" "fw_desired fw' = fw_desired fw"
    "fw_nft_ready fw' = fw_nft_ready fw" "fw_external_ip fw' = fw_external_ip fw"
    "kernel_elements fw' = kernel_step (kernel_elements fw) (cmd, p)"
    "nft_true ops fw' \<longleftrightarrow> nft_true ops fw \<and> answer_true ops (kernel_elements fw) (cmd, p)"
    using nft_run_parts [OF assms, of ops] by auto
  show "fw_desired fw' = fw_desired fw" "fw_nft_ready fw' = fw_nft_ready fw"
    "fw_external_ip fw' = fw_external_ip fw" "nft_true ops fw' \<Longrightarrow> nft_true ops fw"
    using p by simp_all
  have k: "kernel_elements fw' = (case p of Exited True _ \<Rightarrow> kernel_effect (kernel_elements fw) cmd | _ \<Rightarrow> kernel_elements fw)"
    unfolding p(5) by (cases p) (auto split: bool.split)
  show "kernel_elements fw' = kernel_elements fw \<or> kernel_elements fw' = kernel_effect (kernel_elements fw) cmd"
    unfolding k by (simp split: nft_process.split bool.split)
  show "r = Inl e \<Longrightarrow> kernel_elements fw' = kernel_elements fw"
    using p(1) unfolding k by (auto simp: cli_result_def split: nft_process.split bool.split)
qed

text \<open>
  What an acknowledgement is worth: the process succeeded, or it failed and said that there was
  nothing to do.
\<close>

lemma acknowledged_cases:
  assumes "cli_result p op = Inr u"
  obtains stderr where "p = Exited True stderr"
  | stderr where "p = Exited False stderr" "is_idempotent_signal stderr op"
  using assms by (auto simp: cli_result_def split: nft_process.splits if_splits)

lemma add_acknowledged:
  assumes "nft_run (AddElement t i) fw = (Inr u, fw')" and "nft_true ops fw'"
    and "\<And>k. k \<in> kernel_elements fw \<Longrightarrow> element_overlaps ops k (t, i) \<Longrightarrow> k = (t, i)"
  shows "kernel_elements fw' = insert (t, i) (kernel_elements fw)"
proof -
  from assms(1) obtain p where p: "Inr u = cli_result p OpAddElement"
    "kernel_elements fw' = kernel_step (kernel_elements fw) (AddElement t i, p)"
    "nft_true ops fw' \<longleftrightarrow> nft_true ops fw \<and> answer_true ops (kernel_elements fw) (AddElement t i, p)"
    using nft_run_parts [OF assms(1), of ops] unfolding op_of.simps by blast
  from p(1) [symmetric] show ?thesis
  proof (cases rule: acknowledged_cases)
    case (2 stderr)
    with p(3) assms(2) have "(t, i) \<in> kernel_elements fw \<or> (\<exists>k \<in> kernel_elements fw. element_overlaps ops k (t, i))"
      by (simp add: is_idempotent_signal_def)
    with assms(3) have "(t, i) \<in> kernel_elements fw" by blast
    with p(2) 2 show ?thesis by (simp add: insert_absorb)
  qed (use p(2) in simp)
qed

lemma delete_acknowledged:
  assumes "nft_run (DeleteElement t i) fw = (Inr u, fw')" and "nft_true ops fw'"
  shows "kernel_elements fw' = kernel_elements fw - {(t, i)}"
proof -
  from assms(1) obtain p where p: "Inr u = cli_result p OpDeleteElement"
    "kernel_elements fw' = kernel_step (kernel_elements fw) (DeleteElement t i, p)"
    "nft_true ops fw' \<longleftrightarrow> nft_true ops fw \<and> answer_true ops (kernel_elements fw) (DeleteElement t i, p)"
    using nft_run_parts [OF assms(1), of ops] unfolding op_of.simps by blast
  from p(1) [symmetric] show ?thesis
    by (cases rule: acknowledged_cases) (use p assms(2) in \<open>auto simp: is_idempotent_signal_def\<close>)
qed

lemma wipe_acknowledged:
  assumes "nft_run DeleteTable fw = (Inr u, fw')" and "nft_true ops fw'"
  shows "kernel_elements fw' = {}"
proof -
  from assms(1) obtain p where p: "Inr u = cli_result p OpDeleteTable"
    "kernel_elements fw' = kernel_step (kernel_elements fw) (DeleteTable, p)"
    "nft_true ops fw' \<longleftrightarrow> nft_true ops fw \<and> answer_true ops (kernel_elements fw) (DeleteTable, p)"
    using nft_run_parts [OF assms(1), of ops] unfolding op_of.simps by blast
  from p(1) [symmetric] show ?thesis
    by (cases rule: acknowledged_cases) (use p assms(2) in \<open>auto simp: is_idempotent_signal_def\<close>)
qed

lemma held_cong: "fw_desired fw' = fw_desired fw \<Longrightarrow> held fw' = held fw"
  by (simp add: held_def)

lemma mirror_same:
  "mirror spec fw \<Longrightarrow> fw_desired fw' = fw_desired fw \<Longrightarrow> kernel_elements fw' = kernel_elements fw \<Longrightarrow>
   mirror spec fw'"
  by (simp add: mirror_def held_def)

lemma mirrorI:
  assumes "table_ok (fw_desired fw)"
    and "\<And>i e. tget (fw_desired fw) i = Some e \<Longrightarrow> be_id e = i \<and> element_of e = spec i"
    and "kernel_elements fw = spec ` held fw"
  shows "mirror spec fw"
  unfolding mirror_def using assms by blast

lemma mirrorD:
  assumes "mirror spec fw"
  shows "table_ok (fw_desired fw)" "kernel_elements fw = spec ` held fw"
    and "tget (fw_desired fw) i = Some e \<Longrightarrow> be_id e = i" "tget (fw_desired fw) i = Some e \<Longrightarrow> element_of e = spec i"
  using assms unfolding mirror_def by blast+

lemma mirror_added:
  assumes "mirror spec fw" and "add_element e fw = (Inr u, fw')" and "element_of e = spec (be_id e)"
    and "apart ops spec" and "nft_true ops fw'"
  shows "mirror spec (fw'\<lparr>fw_desired := tput (be_id e) e (fw_desired fw')\<rparr>)"
    and "held (fw'\<lparr>fw_desired := tput (be_id e) e (fw_desired fw')\<rparr>) = insert (be_id e) (held fw)"
proof -
  note eff = nft_run_effect [OF assms(2) [unfolded add_element_def]]
  show h: "held (fw'\<lparr>fw_desired := tput (be_id e) e (fw_desired fw')\<rparr>) = insert (be_id e) (held fw)"
    using held_cong [OF eff(1)] by simp
  have k: "kernel_elements fw' = insert (spec (be_id e)) (kernel_elements fw)"
  proof -
    have "k = element_of e" if "k \<in> kernel_elements fw" "element_overlaps ops k (element_of e)" for k
      using that assms(3,4) mirrorD(2) [OF assms(1)] by (auto simp: apart_def)
    with add_acknowledged [OF assms(2) [unfolded add_element_def] assms(5)] assms(3) show ?thesis
      by (simp add: element_of_def)
  qed
  show "mirror spec (fw'\<lparr>fw_desired := tput (be_id e) e (fw_desired fw')\<rparr>)"
  proof (rule mirrorI, goal_cases)
    case 1
    show ?case using mirrorD(1) [OF assms(1)] eff(1) by simp
  next
    case (2 i e')
    then show ?case
      using mirrorD(3,4) [OF assms(1)] eff(1) assms(3) by (simp add: table_simps split: if_splits)
  next
    case 3
    show ?case unfolding h using k mirrorD(2) [OF assms(1)] by simp
  qed
qed

lemma mirror_less:
  assumes "mirror spec fw" and "fw_desired fw' = fw_desired fw"
    and "kernel_elements fw' = spec ` (held fw - {i})"
  shows "mirror spec (fw'\<lparr>fw_desired := tdel i (fw_desired fw')\<rparr>)"
    and "held (fw'\<lparr>fw_desired := tdel i (fw_desired fw')\<rparr>) = held fw - {i}"
proof -
  show h: "held (fw'\<lparr>fw_desired := tdel i (fw_desired fw')\<rparr>) = held fw - {i}"
    using held_cong [OF assms(2)] by simp
  show "mirror spec (fw'\<lparr>fw_desired := tdel i (fw_desired fw')\<rparr>)"
  proof (rule mirrorI, goal_cases)
    case 1
    show ?case using mirrorD(1) [OF assms(1)] assms(2) by simp
  next
    case (2 j e')
    then show ?case
      using mirrorD(3,4) [OF assms(1)] assms(2) by (simp add: table_simps split: if_splits)
  next
    case 3
    show ?case unfolding h using assms(3) by simp
  qed
qed

lemma mirror_deleted:
  assumes "mirror spec fw" and "inj spec" and "tget (fw_desired fw) i = Some e"
    and "delete_element e fw = (Inr u, fw')" and "nft_true ops fw'"
  shows "mirror spec (fw'\<lparr>fw_desired := tdel i (fw_desired fw')\<rparr>)"
    and "held (fw'\<lparr>fw_desired := tdel i (fw_desired fw')\<rparr>) = held fw - {i}"
proof -
  note eff = nft_run_effect [OF assms(4) [unfolded delete_element_def]]
  have "kernel_elements fw' = kernel_elements fw - {spec i}"
    using delete_acknowledged [OF assms(4) [unfolded delete_element_def] assms(5)] mirrorD(4) [OF assms(1,3)]
    by (simp add: element_of_def)
  also have "\<dots> = spec ` (held fw - {i})"
    unfolding mirrorD(2) [OF assms(1)] using assms(2) by (auto simp: inj_eq)
  finally have k: "kernel_elements fw' = spec ` (held fw - {i})" .
  show "mirror spec (fw'\<lparr>fw_desired := tdel i (fw_desired fw')\<rparr>)"
    "held (fw'\<lparr>fw_desired := tdel i (fw_desired fw')\<rparr>) = held fw - {i}"
    by (rule mirror_less [OF assms(1) eff(1) k])+
qed

lemma mirror_dropped:
  assumes "mirror spec fw" and "i \<notin> held fw" and "fw_desired fw' = fw_desired fw"
    and "kernel_elements fw' = kernel_elements fw"
  shows "mirror spec (fw'\<lparr>fw_desired := tdel i (fw_desired fw')\<rparr>)"
    and "held (fw'\<lparr>fw_desired := tdel i (fw_desired fw')\<rparr>) = held fw"
  using mirror_less [OF assms(1,3), of i] assms(2,4) mirrorD(2) [OF assms(1)] by simp_all

lemma ensure_resources_same:
  assumes "ensure_resources fw = (r, fw')"
  shows "fw_desired fw' = fw_desired fw \<and> kernel_elements fw' = kernel_elements fw \<and>
    fw_external_ip fw' = fw_external_ip fw"
proof -
  have run: "fw_desired fw' = fw_desired fw \<and> kernel_elements fw' = kernel_elements fw \<and>
      fw_external_ip fw' = fw_external_ip fw"
    if "nft_run cmd fw = (r, fw')" "\<And>K. kernel_effect K cmd = K" for cmd fw r fw'
    using nft_run_effect [OF that(1)] that(2) by auto
  have listing: "fw_desired fw' = fw_desired fw \<and> kernel_elements fw' = kernel_elements fw \<and>
      fw_external_ip fw' = fw_external_ip fw" if "list_chain fw = (r, fw')" for fw r fw'
    using that by (auto simp: list_chain_def split: list.splits)
  define P where "P = (\<lambda>fw'. fw_desired fw' = fw_desired fw \<and> kernel_elements fw' = kernel_elements fw \<and>
    fw_external_ip fw' = fw_external_ip fw)"
  have chain: "P (snd (and_then r k))" if "P (snd r)" "\<And>a fw. P fw \<Longrightarrow> P (snd (k a fw))"
    for r :: "(nft_error + 'x) \<times> firewall" and k :: "'x \<Rightarrow> firewall \<Rightarrow> (nft_error + unit) \<times> firewall"
    using that by (cases r; cases "fst r") (auto simp: and_then_def)
  have step: "P (snd (nft_run cmd fw'))" if "P fw'" "\<And>K. kernel_effect K cmd = K" for cmd fw'
    using run [OF prod.collapse [symmetric], of cmd fw'] that unfolding P_def by metis
  have lst: "P (snd (list_chain fw'))" if "P fw'" for fw'
    using listing [OF prod.collapse [symmetric], of fw'] that unfolding P_def by metis
  have rules: "P (snd (if b then (Inr (), fw') else nft_run (AddRule t) fw'))" if "P fw'" for b t fw'
    using that step [OF that, of "AddRule t"] by simp
  have "P fw" by (simp add: P_def)
  then have "P (snd (ensure_resources fw))"
    unfolding ensure_resources_def
    apply (rule chain [OF step], simp)
    apply (rule chain [OF step], assumption, simp)
    apply (rule chain [OF step], assumption, simp)
    apply (rule chain [OF step], assumption, simp)
    apply (rule chain [OF lst], assumption)
    apply (rule chain [OF rules], assumption)
    apply (rule rules, assumption)
    done
  with assms show ?thesis by (simp add: P_def)
qed

lemma ensure_ready_same:
  assumes "ensure_ready fw = (r, fw')"
  shows "fw_desired fw' = fw_desired fw \<and> kernel_elements fw' = kernel_elements fw \<and>
    fw_external_ip fw' = fw_external_ip fw"
  using assms ensure_resources_same
  by (fastforce simp: ensure_ready_def and_then_def split: if_splits prod.splits sum.splits)

lemma entries_follow_Cons [simp]:
  "entries_follow spec (e # es) \<longleftrightarrow> element_of e = spec (be_id e) \<and> entries_follow spec es"
  by (simp add: entries_follow_def)

lemma item_simps [simp]: "ai_id (item i s r) = i" "ai_state (item i s r) = s"
  by (simp_all add: item_def)

lemma sync_entries_ids:
  "sync_entries ops own es fw = Some (items, fw') \<Longrightarrow>
   map ai_id items = map be_id es \<and> (\<forall>it \<in> set items. ai_state it \<noteq> Absent)"
proof (induction es arbitrary: fw items)
  case Nil
  then show ?case by simp
next
  case (Cons e es)
  then show ?case by (auto split: option.splits sum.splits prod.splits)
qed

lemma sync_entries_true:
  "sync_entries ops own es fw = Some (items, fw') \<Longrightarrow> nft_true ops fw' \<Longrightarrow> nft_true ops fw"
proof (induction es arbitrary: fw items)
  case Nil
  then show ?case by simp
next
  case (Cons e es)
  obtain ar fa where add: "add_element e fw = (ar, fa)" by (cases "add_element e fw")
  note eff = nft_run_effect(6) [OF add [unfolded add_element_def], of ops]
  from Cons.prems(1) obtain fw1 items1 where t: "sync_entries ops own es fw1 = Some (items1, fw')"
    "nft_true ops fw1 \<longrightarrow> nft_true ops fw"
    using eff by (simp add: add split: option.splits sum.splits) (fastforce+)?
  from Cons.IH [OF t(1) Cons.prems(2)] t(2) show ?case by blast
qed

lemma remove_entries_true: "remove_entries es fw = (items, fw') \<Longrightarrow> nft_true ops fw' \<Longrightarrow> nft_true ops fw"
proof (induction es arbitrary: fw items)
  case Nil
  then show ?case by simp
next
  case (Cons e es)
  obtain ar fa where del: "delete_element e fw = (ar, fa)" by (cases "delete_element e fw")
  note eff = nft_run_effect(6) [OF del [unfolded delete_element_def], of ops]
  from Cons.prems(1) obtain fw1 items1 where t: "remove_entries es fw1 = (items1, fw')"
    "nft_true ops fw1 \<longrightarrow> nft_true ops fw"
    using eff by (simp add: del split: sum.splits prod.splits) (fastforce+)?
  from Cons.IH [OF t(1) Cons.prems(2)] t(2) show ?case by blast
qed

lemma sync_entries_mirror:
  assumes "sync_entries ops own es fw = Some (items, fw')" and "mirror spec fw"
    and "entries_follow spec es" and "distinct (map be_id es)"
    and "\<And>it. it \<in> set items \<Longrightarrow> ai_state it = FailedState \<Longrightarrow> ai_id it \<notin> held fw"
    and "apart ops spec" and "nft_true ops fw'"
  shows "mirror spec fw' \<and> held fw \<subseteq> held fw' \<and> held fw' \<subseteq> held fw \<union> be_id ` set es \<and>
    (\<forall>it \<in> set items. ai_state it = Present \<longrightarrow> ai_id it \<in> held fw')"
  using assms
proof (induction es arbitrary: fw items)
  case Nil
  then show ?case by simp
next
  case (Cons e es)
  obtain fw1 st rsn items1 where
    tail: "sync_entries ops own es fw1 = Some (items1, fw')" "items = item (be_id e) st rsn # items1"
    and head: "mirror spec fw1 \<and> (st = Present \<and> held fw1 = insert (be_id e) (held fw) \<or>
      st = FailedState \<and> held fw1 = held fw)"
  proof (cases "guardrail_check ops (be_target e) own")
    case None
    with Cons.prems(1) show ?thesis by simp
  next
    case (Some g)
    show ?thesis
    proof (cases g)
      case (Inl r)
      let ?fw1 = "fw\<lparr>fw_desired := tdel (be_id e) (fw_desired fw)\<rparr>"
      from Cons.prems(1) Some Inl obtain items1 where
        t: "sync_entries ops own es ?fw1 = Some (items1, fw')"
          "items = item (be_id e) FailedState (Some (ReasonGuardrail r)) # items1" by auto
      have "be_id e \<notin> held fw"
        using Cons.prems(5) [of "item (be_id e) FailedState (Some (ReasonGuardrail r))"] t(2) by simp
      with that [OF t] mirror_dropped [OF Cons.prems(2) _ refl refl, of "be_id e"] show ?thesis by simp
    next
      case (Inr u)
      obtain ar fa where add: "add_element e fw = (ar, fa)" by (cases "add_element e fw")
      show ?thesis
      proof (cases ar)
        case (Inl err)
        let ?fw1 = "fa\<lparr>fw_desired := tdel (be_id e) (fw_desired fa)\<rparr>"
        from Cons.prems(1) Some Inr add Inl obtain items1 where
          t: "sync_entries ops own es ?fw1 = Some (items1, fw')"
            "items = item (be_id e) FailedState (Some (ReasonNft err)) # items1" by auto
        have "be_id e \<notin> held fw"
          using Cons.prems(5) [of "item (be_id e) FailedState (Some (ReasonNft err))"] t(2) by simp
        moreover have "fw_desired fa = fw_desired fw" "kernel_elements fa = kernel_elements fw"
          using nft_run_effect(1,5) [OF add [unfolded add_element_def]] Inl by simp_all
        ultimately show ?thesis
          using that [OF t] mirror_dropped [OF Cons.prems(2), of "be_id e" fa] by simp
      next
        case ok: (Inr v)
        let ?fw1 = "fa\<lparr>fw_desired := tput (be_id e) e (fw_desired fa)\<rparr>"
        from Cons.prems(1) Some Inr add ok obtain items1 where
          t: "sync_entries ops own es ?fw1 = Some (items1, fw')"
            "items = item (be_id e) Present None # items1" by auto
        have "nft_true ops fa" using sync_entries_true [OF t(1) Cons.prems(7)] by simp
        with that [OF t] mirror_added [OF Cons.prems(2) add [unfolded ok] _ Cons.prems(6)] Cons.prems(3)
        show ?thesis by simp
      qed
    qed
  qed
  have ids: "map ai_id items1 = map be_id es" using sync_entries_ids [OF tail(1)] by simp
  have "ai_id it \<notin> held fw1" if "it \<in> set items1" "ai_state it = FailedState" for it
  proof -
    have "ai_id it \<in> set (map ai_id items1)" using that(1) by simp
    then have "ai_id it \<noteq> be_id e" using Cons.prems(4) unfolding ids by auto
    moreover have "ai_id it \<notin> held fw" using Cons.prems(5) [of it] that by (simp add: tail(2))
    ultimately show ?thesis using head by auto
  qed
  from Cons.IH [OF tail(1) conjunct1 [OF head] _ _ this Cons.prems(6,7)] Cons.prems(3,4) head show ?case
    by (auto simp: tail(2))
qed

lemma remove_entries_mirror:
  assumes "remove_entries es fw = (items, fw')" and "mirror spec fw" and "inj spec"
    and "distinct (map be_id es)" and "\<And>e. e \<in> set es \<Longrightarrow> tget (fw_desired fw) (be_id e) = Some e"
    and "nft_true ops fw'"
  shows "mirror spec fw' \<and> held fw' \<subseteq> held fw \<and> held fw - be_id ` set es \<subseteq> held fw' \<and>
    map ai_id items = map be_id es \<and>
    (\<forall>it \<in> set items. ai_state it \<noteq> Present \<and> (ai_state it = Absent \<longrightarrow> ai_id it \<notin> held fw'))"
  using assms
proof (induction es arbitrary: fw items)
  case Nil
  then show ?case by simp
next
  case (Cons e es)
  obtain r fa where del: "delete_element e fw = (r, fa)" by (cases "delete_element e fw")
  have e: "tget (fw_desired fw) (be_id e) = Some e" using Cons.prems(5) by simp
  note eff = nft_run_effect [OF del [unfolded delete_element_def]]
  show ?case
  proof (cases r)
    case (Inl err)
    with Cons.prems(1) del obtain items1 where
      t: "remove_entries es fa = (items1, fw')" "items = item (be_id e) FailedState (Some (ReasonNft err)) # items1"
      by (auto split: prod.splits)
    have m: "mirror spec fa" "held fa = held fw"
      using mirror_same [OF Cons.prems(2) eff(1)] held_cong [OF eff(1)] eff(5) Inl by simp_all
    from Cons.IH [OF t(1) m(1) Cons.prems(3) _ _ Cons.prems(6)] Cons.prems(4,5) eff(1) m(2) show ?thesis
      by (auto simp: t(2))
  next
    case (Inr u)
    let ?fb = "fa\<lparr>fw_desired := tdel (be_id e) (fw_desired fa)\<rparr>"
    from Inr Cons.prems(1) del obtain items1 where
      t: "remove_entries es ?fb = (items1, fw')" "items = item (be_id e) Absent None # items1"
      by (auto split: prod.splits)
    have "nft_true ops fa" using remove_entries_true [OF t(1) Cons.prems(6)] by simp
    note m = mirror_deleted [OF Cons.prems(2,3) e del [unfolded Inr] this]
    have "tget (fw_desired ?fb) (be_id x) = Some x" if "x \<in> set es" for x
    proof -
      have "be_id x \<in> be_id ` set es" using that by simp
      then have "be_id x \<noteq> be_id e" using Cons.prems(4) by auto
      then show ?thesis using Cons.prems(5) [of x] that eff(1) by (simp add: table_simps)
    qed
    from Cons.IH [OF t(1) m(1) Cons.prems(3) _ this Cons.prems(6)] Cons.prems(4) m(2) show ?thesis
      by (auto simp: t(2))
  qed
qed


text \<open>The table of the incoming entries: one per identifier, the last of the message.\<close>

lemma incoming_table:
  assumes "table_ok t" and "\<And>i e. tget t i = Some e \<Longrightarrow> be_id e = i"
  shows "table_ok (foldl (\<lambda>t e. tput (be_id e) e t) t es) \<and>
    (\<forall>i e. tget (foldl (\<lambda>t e. tput (be_id e) e t) t es) i = Some e \<longrightarrow>
       be_id e = i \<and> (e \<in> set es \<or> tget t i = Some e)) \<and>
    (\<forall>i. thas (foldl (\<lambda>t e. tput (be_id e) e t) t es) i \<longleftrightarrow> i \<in> be_id ` set es \<or> thas t i)"
  using assms
proof (induction es arbitrary: t)
  case Nil
  then show ?case by simp
next
  case (Cons e es)
  have ok: "table_ok (tput (be_id e) e t)" using Cons.prems(1) by simp
  have ids: "be_id e' = i" if "tget (tput (be_id e) e t) i = Some e'" for i e'
    using that Cons.prems(2) by (simp add: table_simps split: if_splits)
  have e: "tget (tput (be_id e) e t) i = (if i = be_id e then Some e else tget t i)" for i
    by (simp add: table_simps)
  note IH = Cons.IH [OF ok ids]
  show ?case
  proof (intro conjI allI impI)
    show "table_ok (foldl (\<lambda>t e. tput (be_id e) e t) t (e # es))"
      unfolding foldl.simps by (rule conjunct1 [OF IH])
    fix i e'
    assume "tget (foldl (\<lambda>t e. tput (be_id e) e t) t (e # es)) i = Some e'"
    then have f: "tget (foldl (\<lambda>t e. tput (be_id e) e t) (tput (be_id e) e t) es) i = Some e'" by simp
    note g = conjunct1 [OF mp [OF spec [OF spec [OF conjunct1 [OF conjunct2 [OF IH]]]] f]]
      conjunct2 [OF mp [OF spec [OF spec [OF conjunct1 [OF conjunct2 [OF IH]]]] f]]
    show "be_id e' = i" by (rule g(1))
    show "e' \<in> set (e # es) \<or> tget t i = Some e'" using g(2) by (auto simp: e split: if_splits)
  next
    fix i
    have "thas (tput (be_id e) e t) i \<longleftrightarrow> i = be_id e \<or> thas t i" by (simp add: thas_def e)
    with spec [OF conjunct2 [OF conjunct2 [OF IH]], of i]
    show "thas (foldl (\<lambda>t e. tput (be_id e) e t) t (e # es)) i \<longleftrightarrow>
        i \<in> be_id ` set (e # es) \<or> thas t i" by simp blast
  qed
qed

lemma table_values:
  assumes "table_ok t" and "\<And>i e. tget t i = Some e \<Longrightarrow> be_id e = i"
  shows "map be_id (map snd t) = map fst t" "distinct (map be_id (map snd t))"
    "e \<in> set (map snd t) \<longleftrightarrow> tget t (be_id e) = Some e"
proof -
  note mem = tget_in_set [OF assms(1)]
  have id: "be_id (snd p) = fst p" if "p \<in> set t" for p
    using that assms(2) mem [of "fst p" "snd p"] by simp
  then show ids: "map be_id (map snd t) = map fst t" by simp
  show "distinct (map be_id (map snd t))"
    unfolding ids using assms(1) by (simp add: table_ok_def)
  show "e \<in> set (map snd t) \<longleftrightarrow> tget t (be_id e) = Some e"
  proof
    assume "e \<in> set (map snd t)"
    then obtain i where "(i, e) \<in> set t" by auto
    with id mem show "tget t (be_id e) = Some e" by fastforce
  next
    assume "tget t (be_id e) = Some e"
    with mem have "(be_id e, e) \<in> set t" by blast
    then show "e \<in> set (map snd t)" by force
  qed
qed


lemma sync_entries_frame:
  "sync_entries ops own es fw = Some (items, fw') \<Longrightarrow> i \<notin> be_id ` set es \<Longrightarrow>
   tget (fw_desired fw') i = tget (fw_desired fw) i"
proof (induction es arbitrary: fw items)
  case Nil
  then show ?case by simp
next
  case (Cons e es)
  have ne: "i \<noteq> be_id e" "i \<notin> be_id ` set es" using Cons.prems(2) by simp_all
  obtain ar fa where add: "add_element e fw = (ar, fa)" by (cases "add_element e fw")
  have fa: "fw_desired fa = fw_desired fw" by (rule nft_run_effect(1) [OF add [unfolded add_element_def]])
  from Cons.prems(1) obtain fw1 items1 where
    "sync_entries ops own es fw1 = Some (items1, fw')" "tget (fw_desired fw1) i = tget (fw_desired fw) i"
    using ne(1) fa by (auto simp: add table_simps split: option.splits sum.splits)
  with Cons.IH [OF _ ne(2)] show ?case by simp
qed

section \<open>Every message keeps the mirror\<close>

definition message_follows :: "(string \<Rightarrow> string \<times> string) \<Rightarrow> server_message \<Rightarrow> bool" where
  "message_follows spec msg \<longleftrightarrow>
     (case msg of BlocklistSync es \<Rightarrow> entries_follow spec es
      | BlocklistAdd e \<Rightarrow> entries_follow spec [e] | _ \<Rightarrow> True)"

text \<open>
  The two ways a message loses track of the kernel are visible in its reply: a wipe that is not
  acknowledged, and a \<open>Failed\<close> for an incoming entry that was in the kernel before.
\<close>

definition lossless :: "firewall \<Rightarrow> server_message \<Rightarrow> agent_reply option \<Rightarrow> bool" where
  "lossless fw msg reply \<longleftrightarrow>
     (case (msg, reply) of
        (BlocklistReset, Some (BlocklistResetAck ok _)) \<Rightarrow> ok
      | (BlocklistSync es, Some (BlocklistAck items)) \<Rightarrow>
          list_all (\<lambda>it. ai_state it = FailedState \<longrightarrow> ai_id it \<in> be_id ` set es \<longrightarrow>
            \<not> thas (fw_desired fw) (ai_id it)) items
      | _ \<Rightarrow> True)"

definition truthful :: "(string \<times> string) set \<Rightarrow> (string \<Rightarrow> string \<times> string) \<Rightarrow> ack_item list \<Rightarrow> bool" where
  "truthful K spec items \<longleftrightarrow>
     list_all (\<lambda>it. case ai_state it of Present \<Rightarrow> spec (ai_id it) \<in> K
       | Absent \<Rightarrow> spec (ai_id it) \<notin> K | FailedState \<Rightarrow> True) items"

definition reply_truthful ::
  "(string \<times> string) set \<Rightarrow> (string \<Rightarrow> string \<times> string) \<Rightarrow> agent_reply option \<Rightarrow> bool" where
  "reply_truthful K spec reply \<longleftrightarrow>
     (case reply of Some (BlocklistAck items) \<Rightarrow> truthful K spec items
      | Some (BlocklistResetAck ok _) \<Rightarrow> ok \<longrightarrow> K = {} | None \<Rightarrow> True)"

lemma truthfulI:
  assumes "inj spec" "mirror spec fw"
    and "\<And>it. it \<in> set items \<Longrightarrow> ai_state it = Present \<Longrightarrow> ai_id it \<in> held fw"
    and "\<And>it. it \<in> set items \<Longrightarrow> ai_state it = Absent \<Longrightarrow> ai_id it \<notin> held fw"
  shows "truthful (kernel_elements fw) spec items"
proof -
  have "spec i \<in> kernel_elements fw \<longleftrightarrow> i \<in> held fw" for i
    using mirrorD(2) [OF assms(2)] assms(1) by (simp add: inj_image_mem_iff)
  then show ?thesis
    unfolding truthful_def list_all_iff using assms(3,4) by (simp split: entry_state.split)
qed

lemma all_failed_truthful: "truthful K spec (map (\<lambda>e. item (f e) FailedState r) es)"
  by (simp add: truthful_def list_all_iff)

lemma handle_reset_mirror:
  assumes "handle_reset fw = (reply, fw')" and "lossless fw BlocklistReset (Some reply)" and "nft_true ops fw'"
  shows "mirror spec fw' \<and> reply_truthful (kernel_elements fw') spec (Some reply)"
proof -
  obtain r fd where wipe: "unconditional_wipe fw = (r, fd)" by (cases "unconditional_wipe fw")
  from assms wipe obtain u where r: "r = Inr u"
    by (cases r) (auto simp: handle_reset_def lossless_def)
  from assms(1) wipe r have fw': "reply = BlocklistResetAck True None"
    "fw' = fd\<lparr>fw_desired := [], fw_nft_ready := False\<rparr>" by (auto simp: handle_reset_def)
  have "kernel_elements fd = {}"
    using wipe_acknowledged [OF wipe [unfolded unconditional_wipe_def Let_def r]] assms(3) fw'(2) by simp
  then show ?thesis by (auto simp: fw' reply_truthful_def mirror_def held_def thas_def)
qed

lemma handle_remove_mirror:
  assumes "inj spec" "mirror spec fw" and "handle_remove i fw = (reply, fw')" and "nft_true ops fw'"
  shows "mirror spec fw' \<and> reply_truthful (kernel_elements fw') spec (Some reply)"
proof (cases "tget (fw_desired fw) i")
  case None
  then have "i \<notin> held fw" by (simp add: held_def thas_def)
  with None assms truthfulI [OF assms(1,2), of "[item i Absent None]"] show ?thesis
    by (auto simp: handle_remove_def reply_truthful_def)
next
  case (Some e)
  obtain r fd where del: "delete_element e fw = (r, fd)" by (cases "delete_element e fw")
  show ?thesis
  proof (cases r)
    case (Inl err)
    with nft_run_effect(1,5) [OF del [unfolded delete_element_def]]
    have "mirror spec fd" by (intro mirror_same [OF assms(2)]) simp_all
    with assms(3) Some del Inl show ?thesis
      by (auto simp: handle_remove_def reply_truthful_def truthful_def)
  next
    case (Inr u)
    have eq: "reply = BlocklistAck [item i Absent None]"
      "fw' = fd\<lparr>fw_desired := tdel i (fw_desired fd)\<rparr>"
      using assms(3) Some del Inr by (simp_all add: handle_remove_def)
    have "nft_true ops fd" using assms(4) by (simp add: eq)
    note m = mirror_deleted [OF assms(2,1) Some del [unfolded Inr] this]
    have "truthful (kernel_elements fw') spec [item i Absent None]"
      unfolding eq by (rule truthfulI [OF assms(1) m(1)]) (simp_all add: m(2) del: held_fields)
    with m(1) show ?thesis by (simp add: eq reply_truthful_def)
  qed
qed

lemma handle_add_mirror:
  assumes "inj spec" "mirror spec fw" and "handle_add ops e fw = Some (reply, fw')"
    and "element_of e = spec (be_id e)" and "apart ops spec" and "nft_true ops fw'"
  shows "mirror spec fw' \<and> reply_truthful (kernel_elements fw') spec (Some reply)"
proof -
  obtain r fr where ready: "ensure_ready fw = (r, fr)" by (cases "ensure_ready fw")
  have m: "mirror spec fr" using ensure_ready_same [OF ready] by (intro mirror_same [OF assms(2)]) simp_all
  have failed: ?thesis if "reply = BlocklistAck [item (be_id e) FailedState rsn]" "fw' = f" "mirror spec f"
    for rsn f using that by (simp add: reply_truthful_def truthful_def)
  show ?thesis
  proof (cases r)
    case (Inl reason)
    with assms(3) ready m show ?thesis by (intro failed) (auto simp: handle_add_def)
  next
    case (Inr u)
    show ?thesis
    proof (cases "guardrail_check ops (be_target e) (fw_external_ip fr)")
      case None
      with assms(3) ready Inr show ?thesis by (simp add: handle_add_def)
    next
      case (Some g)
      obtain ar fa where add: "add_element e fr = (ar, fa)" by (cases "add_element e fr")
      show ?thesis
      proof (cases g)
        case (Inl gr)
        with assms(3) ready Inr Some m show ?thesis by (intro failed) (auto simp: handle_add_def)
      next
        case g: (Inr v)
        show ?thesis
        proof (cases ar)
          case (Inl err)
          with nft_run_effect(1,5) [OF add [unfolded add_element_def]]
          have "mirror spec fa" by (intro mirror_same [OF m]) simp_all
          with assms(3) ready Inr Some g add Inl show ?thesis by (intro failed) (auto simp: handle_add_def)
        next
          case ok: (Inr w)
          have eq: "reply = BlocklistAck [item (be_id e) Present None]"
            "fw' = fa\<lparr>fw_desired := tput (be_id e) e (fw_desired fa)\<rparr>"
            using assms(3) ready Inr Some g add ok by (simp_all add: handle_add_def)
          have "nft_true ops fa" using assms(6) by (simp add: eq)
          note a = mirror_added [OF m add [unfolded ok] assms(4,5) this]
          have "truthful (kernel_elements fw') spec [item (be_id e) Present None]"
            unfolding eq by (rule truthfulI [OF assms(1) a(1)]) (simp_all add: a(2) del: held_fields)
          with a(1) show ?thesis by (simp add: eq reply_truthful_def)
        qed
      qed
    qed
  qed
qed

text \<open>A sync on a ready firewall: the loop over the incoming entries, then the one over the others.\<close>

lemma handle_sync_parts:
  assumes "handle_sync ops entries fw = Some (reply, fw')" and "mirror spec fw"
    and "entries_follow spec entries" and "ensure_ready fw = (Inr u, fr)"
  obtains es rm items fs removed where
    "sync_entries ops (fw_external_ip fr) es fr = Some (items, fs)"
    "remove_entries rm fs = (removed, fw')" "reply = BlocklistAck (items @ removed)"
    "mirror spec fr" "entries_follow spec es" "distinct (map be_id es)" "distinct (map be_id rm)"
    "be_id ` set es = be_id ` set entries"
    "\<And>e. e \<in> set rm \<longleftrightarrow> tget (fw_desired fr) (be_id e) = Some e \<and> be_id e \<notin> be_id ` set entries"
proof -
  have m: "mirror spec fr"
    using ensure_ready_same [OF assms(4)] by (intro mirror_same [OF assms(2)]) simp_all
  define t where "t = foldl (\<lambda>t e. tput (be_id e) e t) [] entries"
  define es where "es = map snd t"
  define rm where "rm = filter (\<lambda>e. \<not> thas t (be_id e)) (map snd (fw_desired fr))"
  have incoming: "table_ok t \<and> (\<forall>i e. tget t i = Some e \<longrightarrow> be_id e = i \<and> (e \<in> set entries \<or> tget [] i = Some e)) \<and>
      (\<forall>i. thas t i \<longleftrightarrow> i \<in> be_id ` set entries \<or> thas ([] :: (string, block_entry) table) i)"
    unfolding t_def by (rule incoming_table) simp_all
  have src: "be_id e = i \<and> e \<in> set entries" if "tget t i = Some e" for i e
    using mp [OF spec [OF spec [OF conjunct1 [OF conjunct2 [OF incoming]]]] that] by simp
  have ids: "thas t i \<longleftrightarrow> i \<in> be_id ` set entries" for i
    using spec [OF conjunct2 [OF conjunct2 [OF incoming]], of i] by (simp add: thas_def)
  note es = table_values [OF conjunct1 [OF incoming] conjunct1 [OF src], folded es_def]
  have "i \<in> be_id ` set es \<longleftrightarrow> i \<in> be_id ` set entries" for i
  proof -
    have "i \<in> be_id ` set es \<longleftrightarrow> i \<in> set (keys t)"
      using arg_cong [OF es(1), of set] by (simp add: es_def image_image)
    also have "\<dots> \<longleftrightarrow> thas t i" by (simp add: thas_def tget_def map_of_eq_None_iff)
    finally show ?thesis using ids by simp
  qed
  then have in_es: "be_id ` set es = be_id ` set entries" by blast
  have follow: "element_of e = spec (be_id e)" if "e \<in> set es" for e
  proof -
    have "e \<in> set entries" using that es(3) [of e] src by blast
    then show ?thesis using assms(3) by (simp add: entries_follow_def list_all_iff)
  qed
  note old = table_values [OF mirrorD(1) [OF m] mirrorD(3) [OF m]]
  obtain items fs where sync: "sync_entries ops (fw_external_ip fr) es fr = Some (items, fs)"
    using assms(1,4) by (cases "sync_entries ops (fw_external_ip fr) es fr")
      (auto simp: handle_sync_def Let_def es_def t_def)
  obtain removed fz where remove: "remove_entries rm fs = (removed, fz)" by (cases "remove_entries rm fs")
  show ?thesis
  proof (rule that [OF sync _ _ m _ es(2) _ in_es])
    show "remove_entries rm fs = (removed, fw')" "reply = BlocklistAck (items @ removed)"
      using assms(1,4) sync remove by (simp_all add: handle_sync_def Let_def es_def t_def rm_def)
    show "entries_follow spec es" using follow by (simp add: entries_follow_def list_all_iff)
    show "distinct (map be_id rm)" using old(2) unfolding rm_def by (rule distinct_map_filter)
    show "e \<in> set rm \<longleftrightarrow> tget (fw_desired fr) (be_id e) = Some e \<and> be_id e \<notin> be_id ` set entries" for e
      using old(3) [of e] by (simp add: rm_def ids)
  qed
qed

lemma handle_sync_mirror:
  assumes "inj spec" "mirror spec fw" and "handle_sync ops entries fw = Some (reply, fw')"
    and "entries_follow spec entries" and "lossless fw (BlocklistSync entries) (Some reply)"
    and "apart ops spec" and "nft_true ops fw'"
  shows "mirror spec fw' \<and> reply_truthful (kernel_elements fw') spec (Some reply)"
proof -
  obtain r fr where ready: "ensure_ready fw = (r, fr)" by (cases "ensure_ready fw")
  show ?thesis
  proof (cases r)
    case (Inl reason)
    have m: "mirror spec fr"
      using ensure_ready_same [OF ready] by (intro mirror_same [OF assms(2)]) simp_all
    from Inl assms(3) ready have "reply = BlocklistAck
        (map (\<lambda>e. item (be_id e) FailedState (Some (ReasonNft reason))) entries)" "fw' = fr"
      by (simp_all add: handle_sync_def)
    with m show ?thesis by (simp only: reply_truthful_def all_failed_truthful agent_reply.case option.case)
  next
    case (Inr u)
    from handle_sync_parts [OF assms(3,2,4) ready [unfolded Inr]] obtain es rm items fs removed where
      sync: "sync_entries ops (fw_external_ip fr) es fr = Some (items, fs)"
      and remove: "remove_entries rm fs = (removed, fw')"
      and reply: "reply = BlocklistAck (items @ removed)"
      and m: "mirror spec fr" and follow: "entries_follow spec es"
      and es: "distinct (map be_id es)" "be_id ` set es = be_id ` set entries"
      and rm_distinct: "distinct (map be_id rm)"
      and rm: "\<And>e. e \<in> set rm \<longleftrightarrow> tget (fw_desired fr) (be_id e) = Some e \<and> be_id e \<notin> be_id ` set entries"
      by metis
    have ids: "ai_id it \<in> be_id ` set entries" if "it \<in> set items" for it
    proof -
      have "ai_id it \<in> set (map ai_id items)" using that by simp
      then show ?thesis using sync_entries_ids [OF sync] es(2) by simp
    qed
    have "ai_id it \<notin> held fr" if "it \<in> set items" "ai_state it = FailedState" for it
      using assms(5) that ids [OF that(1)] ensure_ready_same [OF ready]
      by (simp add: lossless_def reply list_all_iff held_def)
    from sync_entries_mirror [OF sync m follow es(1) this assms(6) remove_entries_true [OF remove assms(7)]]
    have ms: "mirror spec fs"
      and present: "\<And>it. it \<in> set items \<Longrightarrow> ai_state it = Present \<Longrightarrow> ai_id it \<in> held fs" by blast+
    have "tget (fw_desired fs) (be_id e) = Some e" if "e \<in> set rm" for e
      using sync_entries_frame [OF sync] that rm es(2) by simp
    from remove_entries_mirror [OF remove ms assms(1) rm_distinct this assms(7)]
    have mz: "mirror spec fw'" "held fs - be_id ` set rm \<subseteq> held fw'"
      and gone: "\<And>it. it \<in> set removed \<Longrightarrow> ai_state it \<noteq> Present"
        "\<And>it. it \<in> set removed \<Longrightarrow> ai_state it = Absent \<Longrightarrow> ai_id it \<notin> held fw'" by blast+
    have kept: "ai_id it \<in> held fw'" if "it \<in> set items" "ai_state it = Present" for it
    proof -
      have "ai_id it \<noteq> be_id e" if "e \<in> set rm" for e using ids [OF \<open>it \<in> set items\<close>] that rm [of e] by metis
      then have "ai_id it \<notin> be_id ` set rm" by (metis imageE)
      with present [OF that] show ?thesis using subsetD [OF mz(2)] by simp
    qed
    have "truthful (kernel_elements fw') spec (items @ removed)"
    proof (rule truthfulI [OF assms(1) mz(1)])
      fix it
      assume it: "it \<in> set (items @ removed)"
      show "ai_id it \<in> held fw'" if "ai_state it = Present"
        using it that kept [of it] gone(1) [of it] by auto
      show "ai_id it \<notin> held fw'" if "ai_state it = Absent"
        using it that gone(2) [of it] sync_entries_ids [OF sync] by auto
    qed
    with mz(1) show ?thesis by (simp add: reply reply_truthful_def)
  qed
qed

text \<open>
  Claim C14: the agent's table mirrors the kernel and its acknowledgements are true.  The server
  gives every identifier one element, no two of which share an address, and \<open>nft\<close> may fail in any
  way as long as its "exists" and "no such" are true of the kernel and nobody else changes the table.
  Then every message whose reply shows no loss (a wipe that is not acknowledged; an incoming entry that
  fails although the agent held it) keeps the invariant that
  the kernel holds exactly the elements of the agent's table; every \<open>Present\<close> of the reply names an element
  the kernel holds, every \<open>Absent\<close> one it does not hold, and an acknowledged reset leaves none.
\<close>

theorem firewall_mirror_exact:
  assumes "apart ops spec" and "mirror spec fw" and "message_follows spec msg"
    and "firewall_handle ops msg fw = Some (reply, fw')" and "lossless fw msg reply"
    and "nft_true ops fw'"
  shows "mirror spec fw' \<and> reply_truthful (kernel_elements fw') spec reply"
proof -
  have inj: "inj spec" using assms(1) by (simp add: apart_def)
  show ?thesis
  proof (cases msg)
    case BlocklistReset
    with assms(4,5,6) show ?thesis
      by (cases "handle_reset fw") (auto simp: firewall_handle_def dest: handle_reset_mirror)
  next
    case (BlocklistSync es)
    with assms(4) obtain rp where rp: "handle_sync ops es fw = Some (rp, fw')" "reply = Some rp"
      by (auto simp: firewall_handle_def)
    with assms(3,5) BlocklistSync handle_sync_mirror [OF inj assms(2) rp(1) _ _ assms(1,6)] show ?thesis
      by (simp add: message_follows_def)
  next
    case (BlocklistAdd e)
    with assms(4) obtain rp where rp: "handle_add ops e fw = Some (rp, fw')" "reply = Some rp"
      by (auto simp: firewall_handle_def)
    with assms(3) BlocklistAdd handle_add_mirror [OF inj assms(2) rp(1) _ assms(1,6)] show ?thesis
      by (simp add: message_follows_def)
  next
    case (BlocklistRemove i)
    with assms(4) obtain rp where rp: "handle_remove i fw = (rp, fw')" "reply = Some rp"
      by (cases "handle_remove i fw") (auto simp: firewall_handle_def)
    with handle_remove_mirror [OF inj assms(2) rp(1) assms(6)] show ?thesis by simp
  next
    case OtherMessage
    with assms(2,4) show ?thesis by (auto simp: firewall_handle_def reply_truthful_def)
  qed
qed

definition demo_entry :: block_entry where
  "demo_entry = \<lparr>be_id = ''198.51.100.0/24'', be_target = ''198.51.100.0/24'', be_family = 4\<rparr>"

definition demo_spec :: "string \<Rightarrow> string \<times> string" where
  "demo_spec i = (''block_v4'', i)"

lemma demo_spec_inj: "inj demo_spec"
  by (simp add: inj_def demo_spec_def)

lemma demo_blocks_apart:
  "list_all (\<lambda>(i, n). list_all (\<lambda>(j, m). i \<noteq> j \<longrightarrow>
     \<not> demo_contains n (fst m) \<and> \<not> demo_contains m (fst n)) demo_blocks) demo_blocks"
  by code_simp

lemma demo_spec_apart: "apart demo_nets demo_spec"
proof -
  have "i = j" if "map_of demo_blocks i = Some n" "map_of demo_blocks j = Some m"
      "demo_contains n (fst m) \<or> demo_contains m (fst n)" for i j n m
    using demo_blocks_apart map_of_SomeD [OF that(1)] map_of_SomeD [OF that(2)] that(3)
    unfolding list_all_iff by fastforce
  then show ?thesis
    using demo_spec_inj
    by (auto simp: apart_def element_overlaps_def demo_spec_def demo_nets_def split: option.splits)
qed

lemma new_firewall_mirror: "mirror spec new_firewall"
  by (simp add: mirror_def new_firewall_def held_def thas_def kernel_elements_def)

definition demo_blocked :: firewall where
  "demo_blocked = snd (the (firewall_handle demo_nets (BlocklistAdd demo_entry)
     (new_firewall\<lparr>fw_listings := [Inr []]\<rparr>)))"

lemma new_firewall_add_answer:
  "firewall_handle demo_nets (BlocklistAdd demo_entry) (new_firewall\<lparr>fw_listings := [Inr []]\<rparr>) =
     Some (Some (BlocklistAck [item (be_id demo_entry) Present None]), demo_blocked)"
  by code_simp

lemma demo_blocked_true: "nft_true demo_nets demo_blocked"
  by code_simp

theorem firewall_mirror_exact_witness:
  "mirror demo_spec demo_blocked \<and> demo_spec ''198.51.100.0/24'' \<in> kernel_elements demo_blocked"
proof -
  have "mirror demo_spec demo_blocked \<and> reply_truthful (kernel_elements demo_blocked) demo_spec
      (Some (BlocklistAck [item (be_id demo_entry) Present None]))"
    by (rule firewall_mirror_exact [OF demo_spec_apart _ _ new_firewall_add_answer _ demo_blocked_true])
      (simp_all add: mirror_def new_firewall_def held_def thas_def kernel_elements_def lossless_def
        message_follows_def entries_follow_def demo_entry_def demo_spec_def element_of_def set_of_entry_def)
  then show ?thesis by (simp add: reply_truthful_def truthful_def demo_entry_def)
qed

text \<open>
  The elements must be apart: \<open>nft\<close> also answers "File exists" for an interval that overlaps one the set
  holds, and the driver takes that for done.  The block is acknowledged as present and enters the
  table, but the kernel does not hold it.
\<close>

lemma overlap_acknowledged:
  assumes "fw_nft_ready fw" and "guardrail_check ops (be_target e) (fw_external_ip fw) = Some (Inr ())"
    and "fw_answers fw = [Exited False err]" and "str_contains err ''File exists''" and "nft_true ops fw"
    and "k \<in> kernel_elements fw" and "element_overlaps ops k (element_of e)" and "element_of e \<notin> kernel_elements fw"
  shows "\<exists>fw'. handle_add ops e fw = Some (BlocklistAck [item (be_id e) Present None], fw') \<and>
    nft_true ops fw' \<and> thas (fw_desired fw') (be_id e) \<and> element_of e \<notin> kernel_elements fw'"
proof -
  let ?fa = "fw\<lparr>fw_answers := []\<rparr>"
  let ?cmd = "AddElement (set_of_entry e) (be_target e)"
  have run: "nft_run ?cmd fw = (Inr (), ?fa\<lparr>fw_log := fw_log ?fa @ [(?cmd, Exited False err)]\<rparr>)"
    using assms(3,4) by (simp add: nft_run_def cli_result_def is_idempotent_signal_def)
  have "answer_true ops (kernel_elements fw) (?cmd, Exited False err)"
    using assms(6,7) by (auto simp: element_of_def)
  then have "nft_true ops (?fa\<lparr>fw_log := fw_log ?fa @ [(?cmd, Exited False err)]\<rparr>)"
    using assms(5) by (simp only: nft_true_fields) simp
  moreover have "kernel_elements (?fa\<lparr>fw_log := fw_log ?fa @ [(?cmd, Exited False err)]\<rparr>) = kernel_elements fw"
    by (simp only: kernel_fields) simp
  ultimately show ?thesis
    using assms(1,2,8) run
    by (simp add: handle_add_def ensure_ready_def add_element_def thas_def table_simps)
qed

section \<open>A failed sync entry is forgotten while the kernel still blocks it\<close>

lemma sync_entries_kernel:
  "sync_entries ops own es fw = Some (items, fw') \<Longrightarrow> kernel_elements fw \<subseteq> kernel_elements fw'"
proof (induction es arbitrary: fw items)
  case Nil
  then show ?case by simp
next
  case (Cons e es)
  obtain ar fa where add: "add_element e fw = (ar, fa)" by (cases "add_element e fw")
  have fa: "kernel_elements fw \<subseteq> kernel_elements fa"
    using nft_run_effect(4) [OF add [unfolded add_element_def]] by (auto split: sum.splits)
  from Cons.prems obtain fw1 items1 where
    "sync_entries ops own es fw1 = Some (items1, fw')" "kernel_elements fw \<subseteq> kernel_elements fw1"
    using fa by (auto simp: add split: option.splits sum.splits)
  with Cons.IH [of fw1 items1] show ?case by blast
qed

lemma sync_entries_failed:
  "sync_entries ops own es fw = Some (items, fw') \<Longrightarrow> distinct (map be_id es) \<Longrightarrow>
   it \<in> set items \<Longrightarrow> ai_state it = FailedState \<Longrightarrow> tget (fw_desired fw') (ai_id it) = None"
proof (induction es arbitrary: fw items)
  case Nil
  then show ?case by simp
next
  case (Cons e es)
  obtain ar fa where add: "add_element e fw = (ar, fa)" by (cases "add_element e fw")
  from Cons.prems(1) obtain fw1 items1 st rsn where
    t: "sync_entries ops own es fw1 = Some (items1, fw')" "items = item (be_id e) st rsn # items1"
      "st = FailedState \<longrightarrow> tget (fw_desired fw1) (be_id e) = None"
    by (auto simp: add table_simps split: option.splits sum.splits)
  show ?case
  proof (cases "it \<in> set items1")
    case True
    with Cons.IH [OF t(1)] Cons.prems(2,4) show ?thesis by simp
  next
    case False
    with Cons.prems(3) t(2) have it: "it = item (be_id e) st rsn" by simp
    with Cons.prems(4) t(3) have "tget (fw_desired fw1) (be_id e) = None" by simp
    moreover have "be_id e \<notin> be_id ` set es" using Cons.prems(2) by simp
    ultimately show ?thesis using sync_entries_frame [OF t(1)] it by simp
  qed
qed

lemma remove_entries_ids: "remove_entries es fw = (items, fw') \<Longrightarrow> map ai_id items = map be_id es"
proof (induction es arbitrary: fw items)
  case Nil
  then show ?case by simp
next
  case (Cons e es)
  then show ?case by (auto split: sum.splits prod.splits)
qed

lemma remove_entries_frame:
  "remove_entries es fw = (items, fw') \<Longrightarrow>
   kernel_elements fw - element_of ` set es \<subseteq> kernel_elements fw' \<and>
   (\<forall>i. tget (fw_desired fw) i = None \<longrightarrow> tget (fw_desired fw') i = None)"
proof (induction es arbitrary: fw items)
  case Nil
  then show ?case by simp
next
  case (Cons e es)
  obtain r fa where del: "delete_element e fw = (r, fa)" by (cases "delete_element e fw")
  note eff = nft_run_effect [OF del [unfolded delete_element_def]]
  have fa: "kernel_elements fw - {element_of e} \<subseteq> kernel_elements fa" "fw_desired fa = fw_desired fw"
    using eff(1,4) by (auto simp: element_of_def split: sum.splits)
  from Cons.prems obtain fw1 items1 where
    t: "remove_entries es fw1 = (items1, fw')" "kernel_elements fw1 = kernel_elements fa"
      "\<forall>i. tget (fw_desired fw) i = None \<longrightarrow> tget (fw_desired fw1) i = None"
    using fa(2) by (auto simp: del table_simps split: sum.splits prod.splits)
  from Cons.IH [OF t(1)] t(2,3) fa(1) show ?case by auto
qed

text \<open>
  A failed entry of a sync is forgotten although the kernel still blocks it.  When a sync
  answers \<open>Failed\<close> for an entry the agent held (its own address moved into the range, or \<open>nft\<close>
  refused the command), the entry leaves the agent's table while its element stays in the kernel;
  a later remove of it, whatever \<open>nft\<close> would answer, reports \<open>Absent\<close> and runs no command.
\<close>

lemma sync_failure_leaks_block:
  assumes "inj spec" and "mirror spec fw" and "fw_nft_ready fw" and "entries_follow spec entries"
    and "handle_sync ops entries fw = Some (BlocklistAck items, fw')"
    and "it \<in> set items" and "ai_state it = FailedState" and "ai_id it \<in> be_id ` set entries"
    and "thas (fw_desired fw) (ai_id it)"
  shows "spec (ai_id it) \<in> kernel_elements fw' \<and> \<not> thas (fw_desired fw') (ai_id it) \<and>
    (\<forall>answers. handle_remove (ai_id it) (fw'\<lparr>fw_answers := answers\<rparr>) =
       (BlocklistAck [item (ai_id it) Absent None], fw'\<lparr>fw_answers := answers\<rparr>))"
proof -
  have ready: "ensure_ready fw = (Inr (), fw)" using assms(3) by (simp add: ensure_ready_def)
  from handle_sync_parts [OF assms(5,2,4) ready] obtain es rm items' fs removed where
    sync: "sync_entries ops (fw_external_ip fw) es fw = Some (items', fs)"
    and remove: "remove_entries rm fs = (removed, fw')"
    and reply: "BlocklistAck items = BlocklistAck (items' @ removed)"
    and follow: "mirror spec fw" "entries_follow spec es"
    and es: "distinct (map be_id es)" "be_id ` set es = be_id ` set entries"
    and rmd: "distinct (map be_id rm)"
    and rm: "\<And>e. e \<in> set rm \<longleftrightarrow> tget (fw_desired fw) (be_id e) = Some e \<and> be_id e \<notin> be_id ` set entries"
    by metis
  from reply have items: "items = items' @ removed" by simp
  have "it \<notin> set removed"
  proof
    assume "it \<in> set removed"
    then have "ai_id it \<in> be_id ` set rm" using remove_entries_ids [OF remove] by (metis list.set_map imageI)
    with rm assms(8) show False by (metis imageE)
  qed
  with assms(6) items have "it \<in> set items'" by simp
  from sync_entries_failed [OF sync es(1) this assms(7)] remove_entries_frame [OF remove]
  have gone: "tget (fw_desired fw') (ai_id it) = None" by blast
  have "spec (ai_id it) \<in> kernel_elements fw"
    using assms(9) mirrorD(2) [OF assms(2)] by (simp add: held_def)
  then have "spec (ai_id it) \<in> kernel_elements fs" using sync_entries_kernel [OF sync] by blast
  moreover have "spec (ai_id it) \<notin> element_of ` set rm"
  proof
    assume "spec (ai_id it) \<in> element_of ` set rm"
    then obtain e where e: "e \<in> set rm" "spec (ai_id it) = element_of e" by blast
    with rm have "element_of e = spec (be_id e)" using mirrorD(4) [OF assms(2)] by blast
    with e assms(1) have "be_id e = ai_id it" by (simp add: inj_eq)
    with e(1) rm assms(8) show False by metis
  qed
  ultimately have "spec (ai_id it) \<in> kernel_elements fw'" using remove_entries_frame [OF remove] by blast
  with gone show ?thesis by (simp add: thas_def handle_remove_def)
qed

text \<open>The agent's external address moves into a blocked range; the server sends its list again.\<close>

definition demo_moved :: firewall where
  "demo_moved = set_external_ip (Some (V4 198 51 100 7)) demo_blocked"

lemma sync_failure_leaks_block_witness:
  "\<exists>reply fw'. handle_sync demo_nets [demo_entry] demo_moved = Some (reply, fw') \<and>
     demo_spec ''198.51.100.0/24'' \<in> kernel_elements fw' \<and>
     fst (handle_remove ''198.51.100.0/24'' fw') = BlocklistAck [item ''198.51.100.0/24'' Absent None]"
proof -
  let ?it = "item ''198.51.100.0/24'' FailedState
    (Some (ReasonGuardrail (RangeContainsOwnIp (V4 198 51 100 7))))"
  let ?fw = "snd (the (handle_sync demo_nets [demo_entry] demo_moved))"
  have "handle_sync demo_nets [demo_entry] demo_moved = Some (BlocklistAck [?it], ?fw)" by code_simp
  then obtain fw' where run: "handle_sync demo_nets [demo_entry] demo_moved = Some (BlocklistAck [?it], fw')"
    by blast
  have "mirror demo_spec demo_blocked"
  proof -
    have "handle_add demo_nets demo_entry (new_firewall\<lparr>fw_listings := [Inr []]\<rparr>) =
        Some (BlocklistAck [item (be_id demo_entry) Present None], demo_blocked)" by code_simp
    from handle_add_mirror [OF demo_spec_inj _ this _ demo_spec_apart demo_blocked_true] show ?thesis
      by (simp add: mirror_def new_firewall_def held_def thas_def kernel_elements_def
          demo_entry_def demo_spec_def element_of_def set_of_entry_def)
  qed
  note mirror_same [OF this, of demo_moved]
  then have m: "mirror demo_spec demo_moved"
    by (simp add: demo_moved_def set_external_ip_def kernel_elements_def)
  have "fw_nft_ready demo_moved" "thas (fw_desired demo_moved) (ai_id ?it)" by code_simp+
  note state = this
  have entries: "entries_follow demo_spec [demo_entry]" "ai_id ?it \<in> be_id ` set [demo_entry]"
    by (simp_all add: entries_follow_def demo_entry_def demo_spec_def element_of_def set_of_entry_def)
  have failed: "?it \<in> set [?it]" "ai_state ?it = FailedState" by simp_all
  note leak = sync_failure_leaks_block [OF demo_spec_inj m state(1) entries(1) run failed entries(2) state(2)]
  have "fw'\<lparr>fw_answers := fw_answers fw'\<rparr> = fw'" by simp
  with leak run show ?thesis unfolding item_simps by (metis fst_conv)
qed

end
