(* ===== verification/Alert_Rules.thy ===== *)
theory Alert_Rules
  imports App_Error
begin

text \<open>
  Alert rules (the first half of \<open>crates/server/src/service/alert.rs\<close>): their items and actions,
  the validation of both, coverage of servers, and the create and update operations on the rule
  table (deletion, which also touches the states, is in \<open>Alert_State\<close>).

  Parameters: the JSON codecs of items, actions and server lists (record \<open>rule_codec\<close>).  Bounds
  of metric items are of an opaque type, as nothing here compares them.  Whether
  the final write works is an argument.
\<close>

section \<open>Items, actions, rules\<close>

definition EVENT_DRIVEN_RULE_TYPES :: "string list" where
  "EVENT_DRIVEN_RULE_TYPES = [''ip_changed'', ''ssh_brute_force_detected'', ''ssh_new_ip_login'',
     ''port_scan_detected'', ''capability_grant_detected'']"

definition SECURITY_RULE_TYPES :: "string list" where
  "SECURITY_RULE_TYPES = [''ssh_brute_force_detected'', ''ssh_new_ip_login'', ''port_scan_detected'']"

definition SOURCE_IP_RULE_TYPES :: "string list" where
  "SOURCE_IP_RULE_TYPES = [''ssh_brute_force_detected'', ''port_scan_detected'']"

definition VALID_COVER_TYPES :: "string list" where
  "VALID_COVER_TYPES = [''all'', ''include'', ''exclude'']"

record security_rule_params =
  sp_min_failed_count :: "u32 option"
  sp_min_distinct_ports :: "u32 option"
  sp_exclude_users :: "string list"
  sp_exclude_cidrs :: "string list"
  sp_dedupe_window_seconds :: u32

record 'f alert_rule_item =
  ri_rule_type :: string
  ri_min :: "'f option"
  ri_max :: "'f option"
  ri_duration :: "u32 option"
  ri_cycle_interval :: "string option"
  ri_cycle_limit :: "int option"
  ri_security :: "security_rule_params option"

text \<open>The one action, \<open>block_source_ip\<close>.\<close>

record block_action =
  ba_cover_type :: string
  ba_server_ids_json :: "string option"
  ba_comment :: "string option"

record alert_rule =
  ru_id :: string
  ru_name :: string
  ru_enabled :: bool
  ru_rules_json :: string
  ru_trigger_mode :: string
  ru_notification_group_id :: "string option"
  ru_cover_type :: string
  ru_server_ids_json :: "string option"
  ru_actions_json :: "string option"
  ru_updated_at :: datetime

record 'f rule_codec =
  rk_print_items :: "'f alert_rule_item list \<Rightarrow> string"
  rk_parse_items :: "string \<Rightarrow> 'f alert_rule_item list option"
  rk_print_actions :: "block_action list \<Rightarrow> string"
  rk_parse_actions :: "string \<Rightarrow> block_action list option"
  rk_print_ids :: "string list \<Rightarrow> string"
  rk_parse_ids :: "string \<Rightarrow> string list option"

definition items_of :: "'f rule_codec \<Rightarrow> alert_rule \<Rightarrow> 'f alert_rule_item list" where
  "items_of rk r = (case rk_parse_items rk (ru_rules_json r) of Some items \<Rightarrow> items | None \<Rightarrow> [])"

definition actions_of :: "'f rule_codec \<Rightarrow> alert_rule \<Rightarrow> block_action list" where
  "actions_of rk r =
     (case ru_actions_json r of
        None \<Rightarrow> []
      | Some s \<Rightarrow> (case rk_parse_actions rk s of Some as \<Rightarrow> as | None \<Rightarrow> []))"

text \<open>\<open>rule_covers_server\<close>, with the parser of the stored list.\<close>

definition rule_covers_server ::
  "(string \<Rightarrow> string list option) \<Rightarrow> string \<Rightarrow> string option \<Rightarrow> string \<Rightarrow> bool" where
  "rule_covers_server parse_ids cover_type server_ids_json server_id =
     (let ids = (case server_ids_json of
                   None \<Rightarrow> []
                 | Some s \<Rightarrow> (case parse_ids s of None \<Rightarrow> [] | Some ids \<Rightarrow> ids))
      in if cover_type = ''include'' then server_id \<in> set ids
         else if cover_type = ''exclude'' then server_id \<notin> set ids
         else True)"

section \<open>Validation\<close>

definition validate_alert_rule_items :: "'f alert_rule_item list \<Rightarrow> app_error + unit" where
  "validate_alert_rule_items items =
     (let security_count = length (filter (\<lambda>i. ri_rule_type i \<in> set SECURITY_RULE_TYPES) items);
          non_security_count = length items - security_count
      in if 0 < security_count \<and> 0 < non_security_count
         then Inl (BadRequest ''cannot mix security rule types with other items'')
         else if 1 < security_count
         then Inl (BadRequest ''only one security item per alert_rule is supported'')
         else Inr ())"

definition validate_actions ::
  "'f alert_rule_item list \<Rightarrow> block_action list \<Rightarrow> app_error + unit" where
  "validate_actions rules actions =
     (case actions of
        [] \<Rightarrow> Inr ()
      | [a] \<Rightarrow>
          if ba_cover_type a \<notin> set VALID_COVER_TYPES
          then Inl (Validation (''invalid cover_type '' @ [CHR 0x27] @ ba_cover_type a @ [CHR 0x27] @ '' on action''))
          else if rules = [] \<or> \<not> list_all (\<lambda>r. ri_rule_type r \<in> set SOURCE_IP_RULE_TYPES) rules
          then Inl (Validation ''block_source_ip is only allowed on ssh_brute_force_detected / port_scan_detected rules'')
          else Inr ()
      | _ \<Rightarrow> Inl (Validation ''at most one action per alert_rule''))"

definition validate_cover_type :: "string \<Rightarrow> app_error + unit" where
  "validate_cover_type cover_type =
     (if cover_type \<in> set VALID_COVER_TYPES then Inr ()
      else Inl (Validation (''Invalid cover_type '' @ [CHR 0x27] @ cover_type @ [CHR 0x27] @
        '': must be one of '' @ [CHR 0x27] @ ''all'' @ [CHR 0x27] @ '', '' @ [CHR 0x27] @ ''include'' @
        [CHR 0x27] @ '', '' @ [CHR 0x27] @ ''exclude'' @ [CHR 0x27])))"

section \<open>Operations on the tables\<close>

record 'f create_rule_input =
  cr_name :: string
  cr_rules :: "'f alert_rule_item list"
  cr_trigger_mode :: string
  cr_notification_group_id :: "string option"
  cr_cover_type :: string
  cr_server_ids :: "string list option"
  cr_enabled :: bool
  cr_actions :: "block_action list"

record 'f update_rule_input =
  up_name :: "string option"
  up_rules :: "'f alert_rule_item list option"
  up_trigger_mode :: "string option"
  up_notification_group_id :: "string option option"
  up_cover_type :: "string option"
  up_server_ids :: "string list option option"
  up_enabled :: "bool option"
  up_actions :: "block_action list option"

text \<open>\<open>stored\<close>: whether the insert works.\<close>

definition create_alert_rule ::
  "'f rule_codec \<Rightarrow> 'f create_rule_input \<Rightarrow> string \<Rightarrow> datetime \<Rightarrow> bool \<Rightarrow> app_error \<Rightarrow> alert_rule list \<Rightarrow>
   (app_error + alert_rule) \<times> alert_rule list" where
  "create_alert_rule rk input uuid now stored err rules =
     (case try_bind (validate_cover_type (cr_cover_type input)) (\<lambda>_.
           try_bind (validate_alert_rule_items (cr_rules input)) (\<lambda>_.
           validate_actions (cr_rules input) (cr_actions input))) of
        Inl e \<Rightarrow> (Inl e, rules)
      | Inr _ \<Rightarrow>
          let model = \<lparr>ru_id = uuid, ru_name = cr_name input, ru_enabled = cr_enabled input,
                ru_rules_json = rk_print_items rk (cr_rules input), ru_trigger_mode = cr_trigger_mode input,
                ru_notification_group_id = cr_notification_group_id input,
                ru_cover_type = cr_cover_type input,
                ru_server_ids_json = map_option (rk_print_ids rk) (cr_server_ids input),
                ru_actions_json = (if cr_actions input = [] then None
                  else Some (rk_print_actions rk (cr_actions input))),
                ru_updated_at = now\<rparr>
          in if stored then (Inr model, rules @ [model]) else (Inl err, rules))"

text \<open>The fields of the update in the order of the code; the first invalid one aborts.\<close>

definition updated_rule ::
  "'f rule_codec \<Rightarrow> 'f update_rule_input \<Rightarrow> datetime \<Rightarrow> alert_rule \<Rightarrow> app_error + alert_rule" where
  "updated_rule rk input now existing =
     (let model = (case up_name input of Some n \<Rightarrow> existing\<lparr>ru_name := n\<rparr> | None \<Rightarrow> existing) in
      try_bind (case up_rules input of
          Some rules \<Rightarrow> try_bind (validate_alert_rule_items rules) (\<lambda>_.
            Inr (rules, model\<lparr>ru_rules_json := rk_print_items rk rules\<rparr>))
        | None \<Rightarrow> Inr (items_of rk existing, model)) (\<lambda>(effective_rules, model).
      let model = (case up_trigger_mode input of Some m \<Rightarrow> model\<lparr>ru_trigger_mode := m\<rparr> | None \<Rightarrow> model);
          model = (case up_notification_group_id input of
            Some g \<Rightarrow> model\<lparr>ru_notification_group_id := g\<rparr> | None \<Rightarrow> model) in
      try_bind (case up_cover_type input of
          Some c \<Rightarrow> try_bind (validate_cover_type c) (\<lambda>_. Inr (model\<lparr>ru_cover_type := c\<rparr>))
        | None \<Rightarrow> Inr model) (\<lambda>model.
      let model = (case up_server_ids input of
            Some ids \<Rightarrow> model\<lparr>ru_server_ids_json := map_option (rk_print_ids rk) ids\<rparr> | None \<Rightarrow> model);
          model = (case up_enabled input of Some e \<Rightarrow> model\<lparr>ru_enabled := e\<rparr> | None \<Rightarrow> model) in
      try_bind (case up_actions input of
          Some actions \<Rightarrow> try_bind (validate_actions effective_rules actions) (\<lambda>_.
            Inr (model\<lparr>ru_actions_json :=
              (if actions = [] then None else Some (rk_print_actions rk actions))\<rparr>))
        | None \<Rightarrow> Inr model) (\<lambda>model.
      Inr (model\<lparr>ru_updated_at := now\<rparr>)))))"

definition update_alert_rule ::
  "'f rule_codec \<Rightarrow> string \<Rightarrow> 'f update_rule_input \<Rightarrow> datetime \<Rightarrow> bool \<Rightarrow> app_error \<Rightarrow> alert_rule list \<Rightarrow>
   (app_error + alert_rule) \<times> alert_rule list" where
  "update_alert_rule rk i input now stored err rules =
     (case find (\<lambda>r. ru_id r = i) rules of
        None \<Rightarrow> (Inl (NotFound (''Alert rule '' @ i @ '' not found'')), rules)
      | Some existing \<Rightarrow>
          (case updated_rule rk input now existing of
             Inl e \<Rightarrow> (Inl e, rules)
           | Inr model \<Rightarrow>
               if stored then (Inr model, map (\<lambda>r. if ru_id r = i then model else r) rules)
               else (Inl err, rules)))"

section \<open>What validation guarantees\<close>

text \<open>
  The rule the comments state: security items stand alone, and a blocking action only sits on
  rules whose events carry the address to block.
\<close>

definition rule_sound :: "'f rule_codec \<Rightarrow> alert_rule \<Rightarrow> bool" where
  "rule_sound rk r \<longleftrightarrow>
     ru_cover_type r \<in> set VALID_COVER_TYPES \<and>
     (list_ex (\<lambda>i. ri_rule_type i \<in> set SECURITY_RULE_TYPES) (items_of rk r) \<longrightarrow> length (items_of rk r) = 1) \<and>
     length (actions_of rk r) \<le> 1 \<and>
     (actions_of rk r \<noteq> [] \<longrightarrow>
        items_of rk r \<noteq> [] \<and> list_all (\<lambda>i. ri_rule_type i \<in> set SOURCE_IP_RULE_TYPES) (items_of rk r))"

text \<open>The codecs read back what is written here.\<close>

definition codec_ok :: "'f rule_codec \<Rightarrow> 'f alert_rule_item list \<Rightarrow> block_action list \<Rightarrow> bool" where
  "codec_ok rk items actions \<longleftrightarrow>
     rk_parse_items rk (rk_print_items rk items) = Some items \<and>
     rk_parse_actions rk (rk_print_actions rk actions) = Some actions"

lemma valid_items_alone:
  assumes "validate_alert_rule_items items = Inr u"
    and "list_ex (\<lambda>i. ri_rule_type i \<in> set SECURITY_RULE_TYPES) items"
  shows "length items = 1"
proof -
  let ?s = "filter (\<lambda>i. ri_rule_type i \<in> set SECURITY_RULE_TYPES) items"
  from assms(2) have "?s \<noteq> []" by (auto simp: list_ex_iff filter_empty_conv)
  then have "0 < length ?s" by simp
  moreover from assms(1) have "\<not> (0 < length ?s \<and> 0 < length items - length ?s)" "\<not> 1 < length ?s"
    by (auto simp: validate_alert_rule_items_def Let_def split: if_splits)
  moreover have "length ?s \<le> length items" by simp
  ultimately show ?thesis by linarith
qed

lemma valid_actions_sound:
  assumes "validate_actions rules actions = Inr u"
  shows "length actions \<le> 1 \<and> (actions \<noteq> [] \<longrightarrow>
    rules \<noteq> [] \<and> list_all (\<lambda>i. ri_rule_type i \<in> set SOURCE_IP_RULE_TYPES) rules)"
  using assms by (auto simp: validate_actions_def split: list.splits if_splits)

text \<open>
  Claim C39: a rule that is created is sound: a known cover type, a security item alone, and a
  blocking action only on items whose events carry the address to block.
\<close>

theorem created_rule_sound:
  assumes "codec_ok rk (cr_rules input) (cr_actions input)" and "create_alert_rule rk input uuid now stored err rules = (Inr r, rules')"
  shows "rule_sound rk r"
proof -
  from assms(2) have valid: "validate_cover_type (cr_cover_type input) = Inr ()"
    "validate_alert_rule_items (cr_rules input) = Inr ()"
    "validate_actions (cr_rules input) (cr_actions input) = Inr ()"
    by (auto simp: create_alert_rule_def try_bind_def Let_def split: sum.splits if_splits)
  with assms(2) have r: "items_of rk r = cr_rules input" "actions_of rk r = cr_actions input"
    "ru_cover_type r = cr_cover_type input"
    using assms(1)
    by (auto simp: create_alert_rule_def try_bind_def Let_def items_of_def actions_of_def codec_ok_def
        split: if_splits)
  show ?thesis
    using valid_items_alone [OF valid(2)] valid_actions_sound [OF valid(3)] valid(1)
    by (auto simp: rule_sound_def r validate_cover_type_def split: if_splits)
qed

definition ssh_item :: "unit alert_rule_item" where
  "ssh_item = \<lparr>ri_rule_type = ''ssh_brute_force_detected'', ri_min = None, ri_max = None, ri_duration = None,
     ri_cycle_interval = None, ri_cycle_limit = None, ri_security = None\<rparr>"

definition block_all :: block_action where
  "block_all = \<lparr>ba_cover_type = ''all'', ba_server_ids_json = None, ba_comment = None\<rparr>"

definition ssh_codec :: "unit rule_codec" where
  "ssh_codec = \<lparr>rk_print_items = (\<lambda>_. ''[ssh]''), rk_parse_items = (\<lambda>s. if s = ''[ssh]'' then Some [ssh_item] else None),
     rk_print_actions = (\<lambda>_. ''[block]''), rk_parse_actions = (\<lambda>s. if s = ''[block]'' then Some [block_all] else None),
     rk_print_ids = (\<lambda>_. ''[]''), rk_parse_ids = (\<lambda>_. Some [])\<rparr>"

definition ssh_input :: "unit create_rule_input" where
  "ssh_input = \<lparr>cr_name = ''n'', cr_rules = [ssh_item], cr_trigger_mode = ''always'', cr_notification_group_id = None,
     cr_cover_type = ''all'', cr_server_ids = None, cr_enabled = True, cr_actions = [block_all]\<rparr>"

theorem created_rule_sound_witness:
  "\<exists>r rules'. create_alert_rule ssh_codec ssh_input ''id'' 0 True Unauthorized [] = (Inr r, rules') \<and>
     rule_sound ssh_codec r \<and> actions_of ssh_codec r = [block_all]"
proof -
  have "case fst (create_alert_rule ssh_codec ssh_input ''id'' 0 True Unauthorized []) of
      Inl e \<Rightarrow> False | Inr r \<Rightarrow> actions_of ssh_codec r = [block_all]"
    by code_simp
  then obtain r rules' where run: "create_alert_rule ssh_codec ssh_input ''id'' 0 True Unauthorized [] = (Inr r, rules')"
    and "actions_of ssh_codec r = [block_all]"
    by (cases "create_alert_rule ssh_codec ssh_input ''id'' 0 True Unauthorized []") (auto split: sum.splits)
  moreover have "rule_sound ssh_codec r"
    by (rule created_rule_sound [OF _ run]) (simp add: codec_ok_def ssh_codec_def ssh_input_def)
  ultimately show ?thesis by blast
qed

text \<open>
  An update that changes the items and not the actions leaves the actions unchecked: a blocking
  action stays on items whose events name no address to block.
\<close>

lemma update_keeps_stale_action:
  assumes codec: "rk_parse_items rk (rk_print_items rk items) = Some items" and row: "find (\<lambda>r. ru_id r = i) rules = Some existing"
    and action: "actions_of rk existing = [a]"
    and input: "up_rules input = Some items" "up_cover_type input = None" "up_actions input = None"
    and items: "validate_alert_rule_items items = Inr ()"
      "\<not> list_all (\<lambda>i. ri_rule_type i \<in> set SOURCE_IP_RULE_TYPES) items"
  shows "\<exists>r. fst (update_alert_rule rk i input now True err rules) = Inr r \<and> actions_of rk r = [a] \<and> \<not> rule_sound rk r"
proof -
  from input items obtain r where r: "updated_rule rk input now existing = Inr r"
    and same: "ru_actions_json r = ru_actions_json existing" "ru_rules_json r = rk_print_items rk items"
    by (cases "up_name input"; cases "up_trigger_mode input"; cases "up_notification_group_id input";
        cases "up_server_ids input"; cases "up_enabled input") (simp_all add: updated_rule_def Let_def)
  from same action have "actions_of rk r = [a]" by (simp add: actions_of_def)
  moreover from same codec have "items_of rk r = items" by (simp add: items_of_def)
  moreover have "fst (update_alert_rule rk i input now True err rules) = Inr r"
    by (simp add: update_alert_rule_def row r)
  ultimately show ?thesis using items(2) by (auto simp: rule_sound_def)
qed

end
