(* ===== verification/Block_List.thy ===== *)
theory Block_List
  imports Agent_Firewall Capability_Gate Alert_Rules
begin

text \<open>
  The server's block list (\<open>crates/server/src/service/firewall.rs\<close>), its HTTP handlers
  (\<open>crates/server/src/router/api/firewall.rs\<close>), the coverage of a row
  (\<open>rule_covers_server\<close> of \<open>service/alert.rs\<close>) and the repair of an agent
  (\<open>send_firewall\<close> of \<open>service/agent_reconcile.rs\<close>).

  Parameters (record \<open>block_env\<close>): the \<open>ipnet\<close> library, the parsers and printers of addresses,
  JSON and time stamps, and the configuration.  Each database statement takes its outcome from
  \<open>fs_faults\<close> (\<open>True\<close>: it fails and changes nothing).  Messages are appended to \<open>fs_sent\<close> with the
  channel they go to.  Identifiers and clock readings are arguments.
\<close>

section \<open>State\<close>

record 'n block_env =
  bn_ops :: "'n net_ops"
  bn_protected :: "'n list"
  bn_trunc :: "'n \<Rightarrow> 'n"
  bn_print :: "'n \<Rightarrow> string"
  bn_is_v4 :: "'n \<Rightarrow> bool"
  bn_parse_addr :: "string \<Rightarrow> ip_addr option"
  bn_print_addr :: "ip_addr \<Rightarrow> string"
  bn_parse_ids :: "string \<Rightarrow> string list option"
  bn_print_ids :: "string list \<Rightarrow> string"
  bn_allow_list :: "string list"
  bn_trusted_proxies :: "'n list"

record block_row =
  br_id :: string
  br_target :: string
  br_family :: int
  br_cover_type :: string
  br_server_ids_json :: "string option"
  br_comment :: "string option"
  br_origin :: string
  br_origin_event_id :: "string option"
  br_origin_rule_id :: "string option"
  br_created_by :: "string option"
  br_created_at :: datetime

record apply_state =
  as_entry_state :: entry_state
  as_reason :: "ack_reason option"
  as_at :: datetime

datatype firewall_browser_message =
  BlocklistCreated string string
| BlocklistDeleted string string
| FirewallApplyStateChanged string string entry_state "ack_reason option"

record firewall_audit =
  fa_user :: string
  fa_action :: string
  fa_detail :: "(string \<times> string) list"

record firewall_service =
  fs_rows :: "block_row list"
  fs_apply :: "(string \<times> string, apply_state) table"
  fs_external_ips :: "(string, ip_addr) table"
  fs_browser :: "firewall_browser_message list"
  fs_sent :: "(channel \<times> server_message) list"
  fs_audit :: "firewall_audit list"
  fs_faults :: "bool list"

definition new_service :: firewall_service where
  "new_service = \<lparr>fs_rows = [], fs_apply = [], fs_external_ips = [], fs_browser = [], fs_sent = [],
     fs_audit = [], fs_faults = []\<rparr>"

definition FIREWALL_MIN_PROTOCOL :: nat where "FIREWALL_MIN_PROTOCOL = 2"

definition ORIGIN_MANUAL :: string where "ORIGIN_MANUAL = ''manual''"
definition ORIGIN_AUTO :: string where "ORIGIN_AUTO = ''auto''"

section \<open>Targets\<close>

fun is_ipv4 :: "ip_addr \<Rightarrow> bool" where
  "is_ipv4 (V4 _ _ _ _) = True"
| "is_ipv4 (V6 _ _ _ _ _ _ _ _) = False"

definition canonicalize_target :: "'n block_env \<Rightarrow> string \<Rightarrow> app_error + string \<times> u8" where
  "canonicalize_target en input =
     (case bn_parse_addr en input of
        Some addr \<Rightarrow>
          let net = no_host (bn_ops en) addr
          in Inr (bn_print en net, if is_ipv4 addr then 4 else 6)
      | None \<Rightarrow>
          (case no_parse (bn_ops en) input of
             None \<Rightarrow> Inl (BadRequest (''invalid IP or CIDR: '' @ input))
           | Some net \<Rightarrow>
               let canonical = bn_trunc en net
               in Inr (bn_print en canonical, if bn_is_v4 en canonical then 4 else 6)))"

definition overlaps :: "'n net_ops \<Rightarrow> 'n \<Rightarrow> 'n \<Rightarrow> bool" where
  "overlaps ops a b \<longleftrightarrow> no_contains ops a (no_network ops b) \<or> no_contains ops b (no_network ops a)"

definition hits_allow :: "'n block_env \<Rightarrow> 'n \<Rightarrow> string \<Rightarrow> bool" where
  "hits_allow en target raw \<longleftrightarrow>
     (case no_parse (bn_ops en) raw of
        Some prot \<Rightarrow> overlaps (bn_ops en) target prot | None \<Rightarrow> False) \<or>
     (case bn_parse_addr en raw of
        Some addr \<Rightarrow> overlaps (bn_ops en) target (no_host (bn_ops en) addr) | None \<Rightarrow> False)"

definition is_protected :: "'n block_env \<Rightarrow> string \<Rightarrow> string list \<Rightarrow> string option" where
  "is_protected en target_cidr extra_allow =
     (case no_parse (bn_ops en) target_cidr of
        None \<Rightarrow> Some ''invalid CIDR''
      | Some target \<Rightarrow>
          (case find (overlaps (bn_ops en) target) (bn_protected en) of
             Some prot \<Rightarrow> Some (''hits hard-coded guardrail: '' @ bn_print en prot)
           | None \<Rightarrow>
               map_option (\<lambda>raw. ''hits allow_list: '' @ raw) (find (hits_allow en target) extra_allow)))"

definition collect_dynamic_allow :: "'n block_env \<Rightarrow> firewall_service \<Rightarrow> string list" where
  "collect_dynamic_allow en fs =
     map (bn_print en) (bn_trusted_proxies en) @
     map (\<lambda>(_, ip). bn_print_addr en ip) (fs_external_ips fs)"

definition note_agent_external_ip ::
  "string \<Rightarrow> ip_addr option \<Rightarrow> firewall_service \<Rightarrow> firewall_service" where
  "note_agent_external_ip server_id ip fs =
     (case ip of
        Some ip \<Rightarrow> fs\<lparr>fs_external_ips := tput server_id ip (fs_external_ips fs)\<rparr>
      | None \<Rightarrow> fs\<lparr>fs_external_ips := tdel server_id (fs_external_ips fs)\<rparr>)"

abbreviation row_covers :: "'n block_env \<Rightarrow> string \<Rightarrow> block_row \<Rightarrow> bool" where
  "row_covers en server_id r \<equiv> rule_covers_server (bn_parse_ids en) (br_cover_type r) (br_server_ids_json r) server_id"

section \<open>Statements\<close>

definition fs_statement :: "firewall_service \<Rightarrow> bool \<times> firewall_service" where
  "fs_statement fs =
     (case fs_faults fs of [] \<Rightarrow> (True, fs) | b # bs \<Rightarrow> (\<not> b, fs\<lparr>fs_faults := bs\<rparr>))"

text \<open>\<open>AuditService::log(..).await.ok()\<close>\<close>

definition firewall_log ::
  "string \<Rightarrow> string \<Rightarrow> (string \<times> string) list \<Rightarrow> firewall_service \<Rightarrow> firewall_service" where
  "firewall_log user action detail fs =
     (case fs_statement fs of
        (True, fs) \<Rightarrow> fs\<lparr>fs_audit := fs_audit fs @ [\<lparr>fa_user = user, fa_action = action, fa_detail = detail\<rparr>]\<rparr>
      | (False, fs) \<Rightarrow> fs)"

definition find_block :: "(block_row \<Rightarrow> bool) \<Rightarrow> firewall_service \<Rightarrow> (app_error + block_row option) \<times> firewall_service" where
  "find_block P fs =
     (case fs_statement fs of
        (True, fs) \<Rightarrow> (Inr (find P (fs_rows fs)), fs)
      | (False, fs) \<Rightarrow> (Inl db_error, fs))"

text \<open>The primary key and the unique index of the migration; \<open>Inl True\<close> is a unique violation.\<close>

definition insert_block :: "block_row \<Rightarrow> firewall_service \<Rightarrow> (bool + unit) \<times> firewall_service" where
  "insert_block r fs =
     (case fs_statement fs of
        (False, fs) \<Rightarrow> (Inl False, fs)
      | (True, fs) \<Rightarrow>
          if list_ex (\<lambda>r'. br_id r' = br_id r \<or> br_target r' = br_target r) (fs_rows fs)
          then (Inl True, fs)
          else (Inr (), fs\<lparr>fs_rows := fs_rows fs @ [r]\<rparr>))"

definition delete_row :: "string \<Rightarrow> firewall_service \<Rightarrow> (app_error + unit) \<times> firewall_service" where
  "delete_row i fs =
     (case fs_statement fs of
        (False, fs) \<Rightarrow> (Inl db_error, fs)
      | (True, fs) \<Rightarrow> (Inr (), fs\<lparr>fs_rows := filter (\<lambda>r. br_id r \<noteq> i) (fs_rows fs)\<rparr>))"

section \<open>Messages to the agents\<close>

definition entry_of_row :: "block_row \<Rightarrow> block_entry" where
  "entry_of_row r = \<lparr>be_id = br_id r, be_target = br_target r, be_family = word_of_int (br_family r)\<rparr>"

definition send_to :: "string \<Rightarrow> server_message \<Rightarrow> agent_manager \<Rightarrow> firewall_service \<Rightarrow> firewall_service" where
  "send_to server_id msg am fs =
     (case get_sender server_id am of
        None \<Rightarrow> fs
      | Some tx \<Rightarrow> fs\<lparr>fs_sent := fs_sent fs @ [(tx, msg)]\<rparr>)"

text \<open>The filters of both push loops.\<close>

definition push_wanted :: "'n block_env \<Rightarrow> block_row \<Rightarrow> agent_manager \<Rightarrow> string \<times> nat \<Rightarrow> bool" where
  "push_wanted en row am = (\<lambda>(server_id, protocol_version).
     row_covers en server_id row \<and>
     has_capability (case get_effective_capabilities server_id am of Some caps \<Rightarrow> caps | None \<Rightarrow> 0)
       CAP_FIREWALL_BLOCK \<and>
     FIREWALL_MIN_PROTOCOL \<le> protocol_version)"

definition push_to_covered ::
  "'n block_env \<Rightarrow> block_row \<Rightarrow> server_message \<Rightarrow> agent_manager \<Rightarrow> firewall_service \<Rightarrow> firewall_service" where
  "push_to_covered en row msg am fs =
     fold (\<lambda>(server_id, _). send_to server_id msg am) (filter (push_wanted en row am) (online_agents am)) fs"

definition push_add_to_covered_agents ::
  "'n block_env \<Rightarrow> block_row \<Rightarrow> agent_manager \<Rightarrow> firewall_service \<Rightarrow> firewall_service" where
  "push_add_to_covered_agents en row = push_to_covered en row (BlocklistAdd (entry_of_row row))"

definition push_remove_to_covered_agents ::
  "'n block_env \<Rightarrow> block_row \<Rightarrow> agent_manager \<Rightarrow> firewall_service \<Rightarrow> firewall_service" where
  "push_remove_to_covered_agents en row = push_to_covered en row (BlocklistRemove (br_id row))"

text \<open>\<open>ORDER BY created_at\<close>, equal times in table order.\<close>

definition covering_entries :: "'n block_env \<Rightarrow> string \<Rightarrow> block_row list \<Rightarrow> block_entry list" where
  "covering_entries en server_id rows =
     map entry_of_row (filter (row_covers en server_id) (sort_key br_created_at rows))"

definition list_for_server ::
  "'n block_env \<Rightarrow> string \<Rightarrow> firewall_service \<Rightarrow> (app_error + block_entry list) \<times> firewall_service" where
  "list_for_server en server_id fs =
     (case fs_statement fs of
        (False, fs) \<Rightarrow> (Inl db_error, fs)
      | (True, fs) \<Rightarrow> (Inr (covering_entries en server_id (fs_rows fs)), fs))"

text \<open>\<open>push_sync_to\<close> in its two halves: the read, and the send that may come later.\<close>

definition push_sync_send ::
  "string \<Rightarrow> block_entry list \<Rightarrow> agent_manager \<Rightarrow> firewall_service \<Rightarrow> firewall_service" where
  "push_sync_send server_id entries = send_to server_id (BlocklistSync entries)"

definition push_sync_to ::
  "'n block_env \<Rightarrow> string \<Rightarrow> agent_manager \<Rightarrow> firewall_service \<Rightarrow> (app_error + unit) \<times> firewall_service" where
  "push_sync_to en server_id am fs =
     (case list_for_server en server_id fs of
        (Inl e, fs) \<Rightarrow> (Inl e, fs)
      | (Inr entries, fs) \<Rightarrow> (Inr (), push_sync_send server_id entries am fs))"

definition push_reset_to :: "string \<Rightarrow> agent_manager \<Rightarrow> firewall_service \<Rightarrow> firewall_service" where
  "push_reset_to server_id = send_to server_id BlocklistReset"

section \<open>Acknowledgements\<close>

fun ack_action :: "entry_state \<Rightarrow> string" where
  "ack_action Present = ''firewall_block_applied_agent''"
| "ack_action Absent = ''firewall_block_removed_agent''"
| "ack_action FailedState = ''firewall_block_rejected_agent''"

definition record_ack :: "string \<Rightarrow> ack_item \<Rightarrow> datetime \<Rightarrow> firewall_service \<Rightarrow> firewall_service" where
  "record_ack server_id it now fs =
     (let st = \<lparr>as_entry_state = ai_state it, as_reason = ai_reason it, as_at = now\<rparr>;
          fs = fs\<lparr>fs_apply := tput (ai_id it, server_id) st (fs_apply fs)\<rparr>;
          fs = firewall_log ''system'' (ack_action (ai_state it))
            [(''block_id'', ai_id it), (''server_id'', server_id)] fs
      in fs\<lparr>fs_browser := fs_browser fs @
           [FirewallApplyStateChanged (ai_id it) server_id (ai_state it) (ai_reason it)]\<rparr>)"

definition record_reset_ack :: "string \<Rightarrow> bool \<Rightarrow> firewall_service \<Rightarrow> firewall_service" where
  "record_reset_ack server_id ok fs =
     (let fs = (if ok then fs\<lparr>fs_apply := tretain (\<lambda>(_, srv) _. srv \<noteq> server_id) (fs_apply fs)\<rparr> else fs)
      in firewall_log ''system'' (if ok then ''firewall_reset_acked'' else ''firewall_reset_failed_agent'')
           [(''server_id'', server_id)] fs)"

text \<open>The handlers of the agent's frames (\<open>router/ws/agent/security.rs\<close>).\<close>

definition on_blocklist_ack :: "string \<Rightarrow> ack_item list \<Rightarrow> datetime \<Rightarrow> firewall_service \<Rightarrow> firewall_service" where
  "on_blocklist_ack server_id results now fs = fold (\<lambda>it. record_ack server_id it now) results fs"

definition on_blocklist_reset_ack :: "string \<Rightarrow> bool \<Rightarrow> firewall_service \<Rightarrow> firewall_service" where
  "on_blocklist_reset_ack server_id ok = record_reset_ack server_id ok"

section \<open>Creating and deleting rows\<close>

definition effective_allow :: "'n block_env \<Rightarrow> firewall_service \<Rightarrow> string list" where
  "effective_allow en fs = bn_allow_list en @ collect_dynamic_allow en fs"

definition announce_block ::
  "'n block_env \<Rightarrow> block_row \<Rightarrow> agent_manager \<Rightarrow> firewall_service \<Rightarrow> firewall_service" where
  "announce_block en row am fs =
     push_add_to_covered_agents en row am
       (fs\<lparr>fs_browser := fs_browser fs @ [BlocklistCreated (br_id row) (br_target row)]\<rparr>)"

record create_block_req =
  cb_target :: string
  cb_cover_type :: string
  cb_server_ids :: "string list option"
  cb_comment :: "string option"

definition create_block ::
  "'n block_env \<Rightarrow> string \<Rightarrow> create_block_req \<Rightarrow> string \<Rightarrow> datetime \<Rightarrow> agent_manager \<Rightarrow> firewall_service \<Rightarrow>
   (app_error + block_row) \<times> firewall_service" where
  "create_block en user req uuid now am fs =
     (case canonicalize_target en (cb_target req) of
        Inl e \<Rightarrow> (Inl e, fs)
      | Inr (target, family) \<Rightarrow>
          (case is_protected en target (effective_allow en fs) of
             Some reason \<Rightarrow>
               (Inl (Conflict reason),
                firewall_log user ''firewall_block_rejected_server''
                  [(''target'', target), (''reason'', reason)] fs)
           | None \<Rightarrow>
               let row = \<lparr>br_id = uuid, br_target = target, br_family = uint family,
                     br_cover_type = cb_cover_type req,
                     br_server_ids_json = map_option (bn_print_ids en) (cb_server_ids req),
                     br_comment = cb_comment req, br_origin = ORIGIN_MANUAL, br_origin_event_id = None,
                     br_origin_rule_id = None, br_created_by = Some user, br_created_at = now\<rparr>
               in case insert_block row fs of
                    (Inl True, fs) \<Rightarrow> (Inl (Conflict (''target '' @ target @ '' already blocked'')), fs)
                  | (Inl False, fs) \<Rightarrow> (Inl db_error, fs)
                  | (Inr _, fs) \<Rightarrow>
                      let fs = firewall_log user ''firewall_block_created''
                            [(''id'', uuid), (''target'', target), (''origin'', ORIGIN_MANUAL)] fs
                      in (Inr row, announce_block en row am fs)))"

text \<open>\<open>str::replace\<close> with a pattern that is not empty.\<close>

fun replace_from :: "nat \<Rightarrow> string \<Rightarrow> string \<Rightarrow> string \<Rightarrow> string" where
  "replace_from k pat rep [] = []"
| "replace_from (Suc k) pat rep (c # s) = replace_from k pat rep s"
| "replace_from 0 pat rep (c # s) =
     (if starts_with (c # s) pat then rep @ replace_from (length pat - 1) pat rep s
      else c # replace_from 0 pat rep s)"

definition str_replace :: "string \<Rightarrow> string \<Rightarrow> string \<Rightarrow> string" where
  "str_replace pat rep s = replace_from 0 pat rep s"

text \<open>The event that matched a security rule, and the rule's \<open>block_source_ip\<close> action.\<close>

record security_match =
  sm_server_id :: string
  sm_rule_id :: string
  sm_rule_name :: string
  sm_source_ip :: string
  sm_event_type :: string
  sm_severity :: string
  sm_event_id :: string

definition auto_comment :: "security_match \<Rightarrow> block_action \<Rightarrow> string" where
  "auto_comment m action =
     (case ba_comment action of
        Some t \<Rightarrow> str_replace ''{severity}'' (sm_severity m)
                  (str_replace ''{event_type}'' (sm_event_type m)
                  (str_replace ''{rule_name}'' (sm_rule_name m) t))
      | None \<Rightarrow> ''Auto-block from '' @ sm_rule_name m)"

definition auto_block ::
  "'n block_env \<Rightarrow> security_match \<Rightarrow> block_action \<Rightarrow> string \<Rightarrow> datetime \<Rightarrow> agent_manager \<Rightarrow> firewall_service \<Rightarrow>
   (app_error + string option) \<times> firewall_service" where
  "auto_block en m action uuid now am fs =
     (case canonicalize_target en (sm_source_ip m) of
        Inl e \<Rightarrow> (Inl e, fs)
      | Inr (target, family) \<Rightarrow>
          (case find_block (\<lambda>r. br_target r = target) fs of
             (Inl e, fs) \<Rightarrow> (Inl e, fs)
           | (Inr (Some existing), fs) \<Rightarrow>
               (Inr None,
                if row_covers en (sm_server_id m) existing then fs
                else firewall_log ''system'' ''firewall_auto_block_skipped_conflict''
                  [(''target'', target), (''existing_id'', br_id existing),
                   (''current_server_id'', sm_server_id m), (''rule_id'', sm_rule_id m),
                   (''event_id'', sm_event_id m)] fs)
           | (Inr None, fs) \<Rightarrow>
               (case is_protected en target (effective_allow en fs) of
                  Some reason \<Rightarrow>
                    (Inr None,
                     firewall_log ''system'' ''firewall_block_rejected_server''
                       [(''target'', target), (''reason'', reason), (''rule_id'', sm_rule_id m),
                        (''event_id'', sm_event_id m)] fs)
                | None \<Rightarrow>
                    let row = \<lparr>br_id = uuid, br_target = target, br_family = uint family,
                          br_cover_type = ba_cover_type action,
                          br_server_ids_json = ba_server_ids_json action,
                          br_comment = Some (auto_comment m action), br_origin = ORIGIN_AUTO,
                          br_origin_event_id = Some (sm_event_id m), br_origin_rule_id = Some (sm_rule_id m),
                          br_created_by = None, br_created_at = now\<rparr>
                    in case insert_block row fs of
                         (Inl _, fs) \<Rightarrow> (Inl db_error, fs)
                       | (Inr _, fs) \<Rightarrow>
                           let fs = firewall_log ''system'' ''firewall_block_created''
                                 [(''id'', uuid), (''target'', target), (''origin'', ORIGIN_AUTO),
                                  (''rule_id'', sm_rule_id m), (''event_id'', sm_event_id m)] fs
                           in (Inr (Some uuid), announce_block en row am fs))))"

definition delete_block ::
  "'n block_env \<Rightarrow> string \<Rightarrow> string \<Rightarrow> agent_manager \<Rightarrow> firewall_service \<Rightarrow>
   (app_error + bool) \<times> firewall_service" where
  "delete_block en user i am fs =
     (case find_block (\<lambda>r. br_id r = i) fs of
        (Inl e, fs) \<Rightarrow> (Inl e, fs)
      | (Inr None, fs) \<Rightarrow> (Inl (NotFound (''block '' @ i @ '' not found'')), fs)
      | (Inr (Some row), fs) \<Rightarrow>
          (case delete_row i fs of
             (Inl e, fs) \<Rightarrow> (Inl e, fs)
           | (Inr _, fs) \<Rightarrow>
               let fs = firewall_log user ''firewall_block_deleted'' [(''id'', i), (''target'', br_target row)] fs;
                   fs = fs\<lparr>fs_browser := fs_browser fs @ [BlocklistDeleted (br_id row) (br_target row)]\<rparr>
               in (Inr True, push_remove_to_covered_agents en row am fs)))"

section \<open>Repairing an agent\<close>

text \<open>\<open>capabilities_for_agent\<close>: the live mask, else the mirrored column, else the default.\<close>

definition u32_try_from :: "int \<Rightarrow> u32 option" where
  "u32_try_from i = (if 0 \<le> i \<and> i < 2 ^ 32 then Some (word_of_int i) else None)"

definition capabilities_for_agent ::
  "db option \<Rightarrow> agent_manager \<Rightarrow> string \<Rightarrow> app_error + u32" where
  "capabilities_for_agent d am server_id =
     (case get_effective_capabilities server_id am of
        Some caps \<Rightarrow> Inr caps
      | None \<Rightarrow>
          (case d of
             None \<Rightarrow> Inl db_error
           | Some d \<Rightarrow>
               Inr (case find_server server_id d of
                      None \<Rightarrow> CAP_DEFAULT
                    | Some model \<Rightarrow>
                        (case u32_try_from (sv_capabilities model) of Some c \<Rightarrow> c | None \<Rightarrow> CAP_DEFAULT))))"

definition send_firewall ::
  "'n block_env \<Rightarrow> db option \<Rightarrow> string \<Rightarrow> agent_manager \<Rightarrow> firewall_service \<Rightarrow>
   (app_error + unit) \<times> firewall_service" where
  "send_firewall en d server_id am fs =
     (if (case get_protocol_version server_id am of Some v \<Rightarrow> v | None \<Rightarrow> 0) < FIREWALL_MIN_PROTOCOL
      then (Inr (), fs)
      else
        let fs = push_reset_to server_id am fs in
        (case capabilities_for_agent d am server_id of
           Inl e \<Rightarrow> (Inl e, fs)
         | Inr caps \<Rightarrow>
             if has_capability caps CAP_FIREWALL_BLOCK then push_sync_to en server_id am fs
             else (Inr (), fs)))"

end
