(* ===== verification/Block_Safety.thy ===== *)
theory Block_Safety
  imports Block_List "HOL-Library.Multiset"
begin

text \<open>
  What the block list guarantees: the rows any run of its operations leaves, the repair of an
  agent's kernel by a reset and a full sync, and the addition a concurrent sync undoes.
\<close>

section \<open>What the library promises\<close>

definition block_laws :: "'n block_env \<Rightarrow> bool" where
  "block_laws en \<longleftrightarrow>
     net_laws (bn_ops en) \<and>
     map (no_parse (bn_ops en)) PROTECTED_CIDRS = map Some (bn_protected en) \<and>
     (\<forall>s n. no_parse (bn_ops en) s = Some n \<longrightarrow>
        no_parse (bn_ops en) (bn_print en (bn_trunc en n)) = Some (bn_trunc en n)) \<and>
     (\<forall>s a. bn_parse_addr en s = Some a \<longrightarrow>
        no_parse (bn_ops en) (bn_print en (no_host (bn_ops en) a)) = Some (no_host (bn_ops en) a) \<and>
        bn_is_v4 en (no_host (bn_ops en) a) = is_ipv4 a) \<and>
     (\<forall>a. no_network (bn_ops en) (no_host (bn_ops en) a) = a)"

lemma overlaps_disjoint:
  assumes "net_laws ops" and "\<not> overlaps ops a b" and "no_contains ops a x"
  shows "\<not> no_contains ops b x"
  using assms unfolding net_laws_def overlaps_def by blast

section \<open>The rows\<close>

text \<open>A row whose target is printed from a block that meets nothing protected or allowed.\<close>

definition row_safe :: "'n block_env \<Rightarrow> block_row \<Rightarrow> bool" where
  "row_safe en r \<longleftrightarrow>
     (\<exists>n. no_parse (bn_ops en) (br_target r) = Some n \<and> br_target r = bn_print en n \<and>
        br_family r = (if bn_is_v4 en n then 4 else 6) \<and>
        list_all (\<lambda>p. \<not> overlaps (bn_ops en) n p) (bn_protected en) \<and>
        list_all (\<lambda>raw. \<not> hits_allow en n raw)
          (bn_allow_list en @ map (bn_print en) (bn_trusted_proxies en)))"

definition rows_safe :: "'n block_env \<Rightarrow> block_row list \<Rightarrow> bool" where
  "rows_safe en rows \<longleftrightarrow>
     distinct (map br_id rows) \<and> distinct (map br_target rows) \<and> list_all (row_safe en) rows"

named_theorems block_frames "which fields an operation leaves alone"

lemma fs_statement_frames [block_frames]:
  "fs_rows (snd (fs_statement fs)) = fs_rows fs" "fs_sent (snd (fs_statement fs)) = fs_sent fs"
  "fs_apply (snd (fs_statement fs)) = fs_apply fs"
  "fs_external_ips (snd (fs_statement fs)) = fs_external_ips fs"
  by (simp_all add: fs_statement_def split: list.split)

lemma fs_statement_cases:
  obtains fs' where "fs_statement fs = (True, fs')" "fs_rows fs' = fs_rows fs" "fs_sent fs' = fs_sent fs"
      "fs_apply fs' = fs_apply fs" "fs_external_ips fs' = fs_external_ips fs"
  | fs' where "fs_statement fs = (False, fs')" "fs_rows fs' = fs_rows fs" "fs_sent fs' = fs_sent fs"
      "fs_apply fs' = fs_apply fs" "fs_external_ips fs' = fs_external_ips fs"
  using fs_statement_frames [of fs] by (cases "fs_statement fs"; cases "fst (fs_statement fs)") auto

lemma firewall_log_frames [block_frames]:
  "fs_rows (firewall_log u a d fs) = fs_rows fs" "fs_sent (firewall_log u a d fs) = fs_sent fs"
  "fs_apply (firewall_log u a d fs) = fs_apply fs"
  "fs_external_ips (firewall_log u a d fs) = fs_external_ips fs"
  by (cases fs rule: fs_statement_cases; simp add: firewall_log_def)+

lemma send_to_frames [block_frames]:
  "fs_rows (send_to s m am fs) = fs_rows fs" "fs_apply (send_to s m am fs) = fs_apply fs"
  "fs_external_ips (send_to s m am fs) = fs_external_ips fs" "fs_faults (send_to s m am fs) = fs_faults fs"
  by (simp_all add: send_to_def split: option.split)

lemma push_frames [block_frames]:
  "fs_rows (push_to_covered en row msg am fs) = fs_rows fs"
  "fs_apply (push_to_covered en row msg am fs) = fs_apply fs"
  "fs_external_ips (push_to_covered en row msg am fs) = fs_external_ips fs"
proof -
  have "fs_rows (fold (\<lambda>(s, _). send_to s msg am) xs fs) = fs_rows fs \<and>
      fs_apply (fold (\<lambda>(s, _). send_to s msg am) xs fs) = fs_apply fs \<and>
      fs_external_ips (fold (\<lambda>(s, _). send_to s msg am) xs fs) = fs_external_ips fs" for xs :: "(string \<times> nat) list"
    by (induction xs arbitrary: fs) (auto simp: block_frames)
  then show "fs_rows (push_to_covered en row msg am fs) = fs_rows fs"
    "fs_apply (push_to_covered en row msg am fs) = fs_apply fs"
    "fs_external_ips (push_to_covered en row msg am fs) = fs_external_ips fs"
    by (simp_all add: push_to_covered_def)
qed

lemma announce_frames [block_frames]: "fs_rows (announce_block en row am fs) = fs_rows fs"
  by (simp add: announce_block_def push_add_to_covered_agents_def block_frames)

lemma record_ack_frames [block_frames]: "fs_rows (record_ack s it now fs) = fs_rows fs"
  by (simp add: record_ack_def Let_def block_frames)

lemma record_reset_ack_frames [block_frames]: "fs_rows (record_reset_ack s ok fs) = fs_rows fs"
  by (simp add: record_reset_ack_def Let_def block_frames)

lemma push_sync_frames [block_frames]: "fs_rows (snd (push_sync_to en s am fs)) = fs_rows fs"
  by (cases fs rule: fs_statement_cases)
    (simp_all add: push_sync_to_def list_for_server_def push_sync_send_def block_frames)

lemma send_firewall_frames [block_frames]: "fs_rows (snd (send_firewall en d s am fs)) = fs_rows fs"
  by (simp add: send_firewall_def Let_def push_reset_to_def block_frames split: sum.split)

text \<open>An inserted row is new in both keys.\<close>

lemma insert_block_rows:
  "insert_block r fs = (res, fs') \<Longrightarrow>
   (case res of
      Inl _ \<Rightarrow> fs_rows fs' = fs_rows fs
    | Inr _ \<Rightarrow> fs_rows fs' = fs_rows fs @ [r] \<and>
        br_id r \<notin> br_id ` set (fs_rows fs) \<and> br_target r \<notin> br_target ` set (fs_rows fs))"
  by (cases fs rule: fs_statement_cases) (fastforce simp: insert_block_def list_ex_iff split: if_splits)+

lemma find_block_frames: "find_block P fs = (res, fs') \<Longrightarrow> fs_rows fs' = fs_rows fs"
  by (cases fs rule: fs_statement_cases) (auto simp: find_block_def)

lemma canonical_target_block:
  assumes "block_laws en" and "canonicalize_target en input = Inr (target, family)"
  shows "\<exists>n. no_parse (bn_ops en) target = Some n \<and> target = bn_print en n \<and>
    uint family = (if bn_is_v4 en n then 4 else 6)"
  using assms by (auto simp: canonicalize_target_def block_laws_def Let_def split: option.splits)

lemma not_protected_safe:
  assumes "is_protected en target allow = None" and "no_parse (bn_ops en) target = Some n"
  shows "list_all (\<lambda>p. \<not> overlaps (bn_ops en) n p) (bn_protected en) \<and> list_all (\<lambda>raw. \<not> hits_allow en n raw) allow"
  using assms by (auto simp: is_protected_def find_None_iff list_all_iff split: option.splits)

lemma accepted_row_safe:
  assumes "block_laws en" and "canonicalize_target en input = Inr (br_target r, family)"
    and "br_family r = uint family" and "is_protected en (br_target r) (effective_allow en fs) = None"
  shows "row_safe en r"
proof -
  from canonical_target_block [OF assms(1,2)] obtain n where
    n: "no_parse (bn_ops en) (br_target r) = Some n" "br_target r = bn_print en n"
      "uint family = (if bn_is_v4 en n then 4 else 6)" by blast
  from not_protected_safe [OF assms(4) n(1)] n assms(3) show ?thesis
    by (auto simp: row_safe_def effective_allow_def collect_dynamic_allow_def)
qed

section \<open>Runs\<close>

datatype block_op =
  CreateBlock string create_block_req string datetime
| AutoBlock security_match block_action string datetime
| DeleteBlock string string
| NoteExternalIp string "ip_addr option"
| AckReceived string "ack_item list" datetime
| ResetAckReceived string bool
| RepairAgent "db option" string
| Faults "bool list"

fun block_step :: "'n block_env \<Rightarrow> block_op \<times> agent_manager \<Rightarrow> firewall_service \<Rightarrow> firewall_service" where
  "block_step en (CreateBlock user req uuid now, am) fs = snd (create_block en user req uuid now am fs)"
| "block_step en (AutoBlock m action uuid now, am) fs = snd (auto_block en m action uuid now am fs)"
| "block_step en (DeleteBlock user i, am) fs = snd (delete_block en user i am fs)"
| "block_step en (NoteExternalIp server_id ip, am) fs = note_agent_external_ip server_id ip fs"
| "block_step en (AckReceived server_id items now, am) fs = on_blocklist_ack server_id items now fs"
| "block_step en (ResetAckReceived server_id ok, am) fs = on_blocklist_reset_ack server_id ok fs"
| "block_step en (RepairAgent d server_id, am) fs = snd (send_firewall en d server_id am fs)"
| "block_step en (Faults bs, am) fs = fs\<lparr>fs_faults := bs\<rparr>"

definition block_run :: "'n block_env \<Rightarrow> (block_op \<times> agent_manager) list \<Rightarrow> firewall_service \<Rightarrow> firewall_service" where
  "block_run en ops fs = fold (block_step en) ops fs"

lemma on_blocklist_ack_frames [block_frames]: "fs_rows (on_blocklist_ack s its now fs) = fs_rows fs"
proof -
  have "fs_rows (fold (\<lambda>it. record_ack s it now) its fs) = fs_rows fs"
    by (induction its arbitrary: fs) (simp_all add: block_frames)
  then show ?thesis by (simp add: on_blocklist_ack_def)
qed

lemma create_block_rows:
  assumes "block_laws en"
  shows "(case create_block en user req uuid now am fs of
      (Inl _, fs') \<Rightarrow> fs_rows fs' = fs_rows fs
    | (Inr r, fs') \<Rightarrow> fs_rows fs' = fs_rows fs @ [r] \<and> row_safe en r \<and> br_id r = uuid \<and>
        br_id r \<notin> br_id ` set (fs_rows fs) \<and> br_target r \<notin> br_target ` set (fs_rows fs))"
proof (cases "canonicalize_target en (cb_target req)")
  case (Inl e)
  then show ?thesis by (simp add: create_block_def)
next
  case (Inr tf)
  obtain target family where tf: "tf = (target, family)" by (cases tf)
  show ?thesis
  proof (cases "is_protected en target (effective_allow en fs)")
    case (Some reason)
    with Inr tf show ?thesis by (simp add: create_block_def block_frames)
  next
    case None
    let ?row = "\<lparr>br_id = uuid, br_target = target, br_family = uint family,
      br_cover_type = cb_cover_type req, br_server_ids_json = map_option (bn_print_ids en) (cb_server_ids req),
      br_comment = cb_comment req, br_origin = ORIGIN_MANUAL, br_origin_event_id = None,
      br_origin_rule_id = None, br_created_by = Some user, br_created_at = now\<rparr>"
    have safe: "row_safe en ?row"
      using accepted_row_safe [OF assms, of "cb_target req" ?row family fs] Inr tf None by simp
    obtain res fs1 where ins: "insert_block ?row fs = (res, fs1)" by (cases "insert_block ?row fs")
    from insert_block_rows [OF ins] Inr tf None ins safe show ?thesis
      by (cases res; cases "projl res") (auto simp: create_block_def Let_def block_frames)
  qed
qed

lemma auto_block_rows:
  assumes "block_laws en"
  shows "(\<exists>r. fs_rows (snd (auto_block en m action uuid now am fs)) = fs_rows fs @ [r] \<and> row_safe en r \<and>
      br_id r \<notin> br_id ` set (fs_rows fs) \<and> br_target r \<notin> br_target ` set (fs_rows fs)) \<or>
    fs_rows (snd (auto_block en m action uuid now am fs)) = fs_rows fs"
proof (cases "canonicalize_target en (sm_source_ip m)")
  case (Inl e)
  then show ?thesis by (simp add: auto_block_def)
next
  case (Inr tf)
  obtain target family where tf: "tf = (target, family)" by (cases tf)
  obtain fd fs1 where find: "find_block (\<lambda>r. br_target r = target) fs = (fd, fs1)"
    by (cases "find_block (\<lambda>r. br_target r = target) fs")
  note rows1 = find_block_frames [OF find]
  show ?thesis
  proof (cases "fd = Inr None \<and> is_protected en target (effective_allow en fs1) = None")
    case False
    then show ?thesis using Inr tf find rows1
      by (cases fd; cases "projr fd") (auto simp: auto_block_def block_frames split: option.split)
  next
    case True
    let ?row = "\<lparr>br_id = uuid, br_target = target, br_family = uint family,
      br_cover_type = ba_cover_type action, br_server_ids_json = ba_server_ids_json action,
      br_comment = Some (auto_comment m action), br_origin = ORIGIN_AUTO,
      br_origin_event_id = Some (sm_event_id m), br_origin_rule_id = Some (sm_rule_id m),
      br_created_by = None, br_created_at = now\<rparr>"
    have safe: "row_safe en ?row"
      using accepted_row_safe [OF assms, of "sm_source_ip m" ?row family fs1] Inr tf True by simp
    obtain res fs2 where ins: "insert_block ?row fs1 = (res, fs2)" by (cases "insert_block ?row fs1")
    from insert_block_rows [OF ins] Inr tf True find ins safe rows1 show ?thesis
      by (cases res) (auto simp: auto_block_def Let_def block_frames)
  qed
qed

lemma delete_block_rows:
  "fs_rows (snd (delete_block en user i am fs)) = fs_rows fs \<or>
   fs_rows (snd (delete_block en user i am fs)) = filter (\<lambda>r. br_id r \<noteq> i) (fs_rows fs)"
proof -
  obtain fd fs1 where find: "find_block (\<lambda>r. br_id r = i) fs = (fd, fs1)"
    by (cases "find_block (\<lambda>r. br_id r = i) fs")
  note rows1 = find_block_frames [OF find]
  show ?thesis
    using find rows1
    by (cases fd; cases "projr fd"; cases fs1 rule: fs_statement_cases)
      (auto simp: delete_block_def delete_row_def Let_def block_frames push_remove_to_covered_agents_def)
qed

lemma rows_safe_append:
  "rows_safe en rows \<Longrightarrow> row_safe en r \<Longrightarrow> br_id r \<notin> br_id ` set rows \<Longrightarrow>
   br_target r \<notin> br_target ` set rows \<Longrightarrow> rows_safe en (rows @ [r])"
  by (simp add: rows_safe_def)

lemma rows_safe_filter: "rows_safe en rows \<Longrightarrow> rows_safe en (filter P rows)"
  by (auto simp: rows_safe_def distinct_map_filter list_all_iff)

lemma block_step_safe:
  assumes "block_laws en" and "rows_safe en (fs_rows fs)"
  shows "rows_safe en (fs_rows (block_step en opam fs))"
proof (cases "(en, opam, fs)" rule: block_step.cases)
  case (1 en' user req uuid now am fs')
  then show ?thesis using create_block_rows [OF assms(1), where user = user and req = req and uuid = uuid and now = now and am = am and fs = fs] assms(2)
    by (auto simp: rows_safe_append split: prod.splits sum.splits)
next
  case (2 en' m action uuid now am fs')
  then show ?thesis using auto_block_rows [OF assms(1), where m = m and action = action and uuid = uuid and now = now and am = am and fs = fs] assms(2)
    by (auto simp: rows_safe_append)
next
  case (3 en' user i am fs')
  then show ?thesis using delete_block_rows [where en = en and user = user and i = i and am = am and fs = fs] assms(2) rows_safe_filter
    by (auto simp del: filter.simps)
qed (use assms(2) in \<open>auto simp: block_frames note_agent_external_ip_def on_blocklist_reset_ack_def split: option.split\<close>)

lemma block_run_safe:
  "block_laws en \<Longrightarrow> rows_safe en (fs_rows fs) \<Longrightarrow> rows_safe en (fs_rows (block_run en ops fs))"
  unfolding block_run_def by (induction ops arbitrary: fs) (auto simp: block_step_safe)

text \<open>
  Claim C18: nothing protected is ever blocked.  After any run of requests, automatic blocks,
  deletions, acknowledgements and repairs, with any failing statements, each block has its own
  target, and no address of a stored target lies in a protected range, lies in a range of the
  configured allow list or is an address of it.
\<close>

theorem stored_blocks_spare_protected:
  assumes "block_laws en" and "r \<in> set (fs_rows (block_run en ops new_service))"
  shows "\<exists>n. no_parse (bn_ops en) (br_target r) = Some n \<and>
    (\<forall>a p prot. no_contains (bn_ops en) n a \<longrightarrow> p \<in> set (PROTECTED_CIDRS @ bn_allow_list en) \<longrightarrow>
       no_parse (bn_ops en) p = Some prot \<longrightarrow> \<not> no_contains (bn_ops en) prot a) \<and>
    (\<forall>raw a. raw \<in> set (bn_allow_list en) \<longrightarrow> bn_parse_addr en raw = Some a \<longrightarrow> \<not> no_contains (bn_ops en) n a) \<and>
    (\<forall>r' \<in> set (fs_rows (block_run en ops new_service)). br_target r' = br_target r \<longrightarrow> r' = r)"
proof -
  have safe: "rows_safe en (fs_rows (block_run en ops new_service))"
    by (rule block_run_safe [OF assms(1)]) (simp add: new_service_def rows_safe_def)
  with assms(2) obtain n where n: "no_parse (bn_ops en) (br_target r) = Some n"
    "\<And>p. p \<in> set (bn_protected en) \<Longrightarrow> \<not> overlaps (bn_ops en) n p"
    "\<And>raw. raw \<in> set (bn_allow_list en) \<Longrightarrow> \<not> hits_allow en n raw"
    by (auto simp: rows_safe_def row_safe_def list_all_iff)
  have laws: "net_laws (bn_ops en)"
    "map (no_parse (bn_ops en)) PROTECTED_CIDRS = map Some (bn_protected en)"
    using assms(1) by (simp_all add: block_laws_def)
  have "\<not> no_contains (bn_ops en) prot a"
    if "no_contains (bn_ops en) n a" "p \<in> set (PROTECTED_CIDRS @ bn_allow_list en)"
      "no_parse (bn_ops en) p = Some prot" for a p prot
  proof -
    have "\<not> overlaps (bn_ops en) n prot"
    proof (cases "p \<in> set PROTECTED_CIDRS")
      case True
      then have "Some prot \<in> set (map (no_parse (bn_ops en)) PROTECTED_CIDRS)" using that(3) by force
      then have "prot \<in> set (bn_protected en)" unfolding laws(2) by auto
      then show ?thesis by (rule n(2))
    next
      case False
      with that(2) n(3) have "\<not> hits_allow en n p" by simp
      with that(3) show ?thesis by (simp add: hits_allow_def)
    qed
    from overlaps_disjoint [OF laws(1) this that(1)] show ?thesis .
  qed
  moreover have "\<not> no_contains (bn_ops en) n a" if "raw \<in> set (bn_allow_list en)" "bn_parse_addr en raw = Some a" for raw a
  proof -
    from n(3) [OF that(1)] that(2) have "\<not> overlaps (bn_ops en) n (no_host (bn_ops en) a)"
      by (simp add: hits_allow_def)
    then show ?thesis using assms(1) by (simp add: overlaps_def block_laws_def)
  qed
  moreover have "r' = r" if "r' \<in> set (fs_rows (block_run en ops new_service))" "br_target r' = br_target r" for r'
    using safe assms(2) that by (auto simp: rows_safe_def distinct_map inj_on_def)
  ultimately show ?thesis using n(1) by blast
qed

section \<open>An agent whose \<open>nft\<close> does what it is told\<close>

definition obedient :: "firewall \<Rightarrow> bool" where
  "obedient fw \<longleftrightarrow> fw_answers fw = [] \<and> fw_listings fw = []"

fun agent_run ::
  "'n net_ops \<Rightarrow> server_message list \<Rightarrow> firewall \<Rightarrow> (agent_reply option list \<times> firewall) option" where
  "agent_run ops [] fw = Some ([], fw)"
| "agent_run ops (m # ms) fw =
     (case firewall_handle ops m fw of
        None \<Rightarrow> None
      | Some (reply, fw) \<Rightarrow> map_option (apfst ((#) reply)) (agent_run ops ms fw))"

lemma nft_run_obedient:
  "obedient fw \<Longrightarrow> nft_run cmd fw = (Inr (), fw\<lparr>fw_log := fw_log fw @ [(cmd, Exited True [])]\<rparr>)"
  by (cases fw) (simp add: obedient_def nft_run_def cli_result_def)

lemma obedient_fields [simp]:
  "obedient (fw\<lparr>fw_log := l\<rparr>) = obedient fw" "obedient (fw\<lparr>fw_desired := d\<rparr>) = obedient fw"
  "obedient (fw\<lparr>fw_nft_ready := b\<rparr>) = obedient fw"
  by (simp_all add: obedient_def)

lemma ensure_ready_obedient:
  assumes "obedient fw"
  shows "\<exists>fr. ensure_ready fw = (Inr (), fr) \<and> obedient fr \<and> fw_nft_ready fr"
proof -
  have list: "list_chain fw = (Inr [], fw)" if "obedient fw" for fw
    using that by (simp add: list_chain_def obedient_def)
  show ?thesis
    using assms
    by (simp add: ensure_ready_def ensure_resources_def and_then_def nft_run_obedient list)
qed

lemma handle_reset_obedient:
  assumes "obedient fw"
  shows "\<exists>fr. handle_reset fw = (BlocklistResetAck True None, fr) \<and> obedient fr \<and>
    fw_desired fr = [] \<and> kernel_elements fr = {} \<and> fw_external_ip fr = fw_external_ip fw"
proof -
  obtain r fd where wipe: "unconditional_wipe fw = (r, fd)" by (cases "unconditional_wipe fw")
  with assms have ok: "r = Inr ()" "obedient fd" "fw_external_ip fd = fw_external_ip fw"
    by (auto simp: unconditional_wipe_def Let_def nft_run_obedient)
  moreover have "kernel_elements fd = {}"
    using wipe assms by (auto simp: unconditional_wipe_def Let_def nft_run_obedient kernel_elements_def)
  ultimately show ?thesis using wipe by (simp add: handle_reset_def)
qed

lemma sync_entries_obedient:
  "obedient fw \<Longrightarrow> list_all (\<lambda>e. guardrail_check ops (be_target e) own = Some (Inr ())) es \<Longrightarrow>
   \<exists>fs. sync_entries ops own es fw = Some (map (\<lambda>e. item (be_id e) Present None) es, fs) \<and> obedient fs \<and>
     kernel_elements fs = kernel_elements fw \<union> element_of ` set es"
proof (induction es arbitrary: fw)
  case Nil
  then show ?case by simp
next
  case (Cons e es)
  have add: "add_element e fw = (Inr (), fw\<lparr>fw_log := fw_log fw @
      [(AddElement (set_of_entry e) (be_target e), Exited True [])]\<rparr>)"
    using Cons.prems(1) by (simp add: add_element_def nft_run_obedient)
  let ?fw = "fw\<lparr>fw_log := fw_log fw @ [(AddElement (set_of_entry e) (be_target e), Exited True [])],
    fw_desired := tput (be_id e) e (fw_desired fw)\<rparr>"
  have "obedient ?fw" using Cons.prems(1) by simp
  from Cons.IH [OF this] Cons.prems(2) obtain fs where
    "sync_entries ops own es ?fw = Some (map (\<lambda>e. item (be_id e) Present None) es, fs)" "obedient fs"
    "kernel_elements fs = kernel_elements ?fw \<union> element_of ` set es" by auto
  moreover have "kernel_elements ?fw = insert (element_of e) (kernel_elements fw)"
    by (simp add: element_of_def)
  ultimately show ?case using Cons.prems(2) add by (simp add: element_of_def)
qed

lemma remove_entries_obedient:
  "obedient fw \<Longrightarrow>
   \<exists>fs. remove_entries es fw = (map (\<lambda>e. item (be_id e) Absent None) es, fs) \<and> obedient fs \<and>
     kernel_elements fs = kernel_elements fw - element_of ` set es"
proof (induction es arbitrary: fw)
  case Nil
  then show ?case by simp
next
  case (Cons e es)
  have del: "delete_element e fw = (Inr (), fw\<lparr>fw_log := fw_log fw @
      [(DeleteElement (set_of_entry e) (be_target e), Exited True [])]\<rparr>)"
    using Cons.prems(1) by (simp add: delete_element_def nft_run_obedient)
  let ?fw = "fw\<lparr>fw_log := fw_log fw @ [(DeleteElement (set_of_entry e) (be_target e), Exited True [])],
    fw_desired := tdel (be_id e) (fw_desired fw)\<rparr>"
  have "obedient ?fw" using Cons.prems(1) by simp
  from Cons.IH [OF this] obtain fs where
    "remove_entries es ?fw = (map (\<lambda>e. item (be_id e) Absent None) es, fs)" "obedient fs"
    "kernel_elements fs = kernel_elements ?fw - element_of ` set es" by auto
  moreover have "kernel_elements ?fw = kernel_elements fw - {element_of e}"
    by (simp add: element_of_def)
  ultimately show ?case using del by (auto simp: Let_def)
qed

lemma foldl_tput_new:
  fixes es :: "block_entry list"
  shows "distinct (map be_id es) \<Longrightarrow> be_id ` set es \<inter> set (keys t) = {} \<Longrightarrow>
   foldl (\<lambda>t e. tput (be_id e) e t) t es = t @ map (\<lambda>e. (be_id e, e)) es"
proof (induction es arbitrary: t)
  case Nil
  then show ?case by simp
next
  case (Cons e es)
  have "AList.update k v t = t @ [(k, v)]" if "k \<notin> set (keys t)" for k :: string and v :: block_entry and t
    using that by (induction t) auto
  then have "tput (be_id e) e t = t @ [(be_id e, e)]" using Cons.prems(2) by (simp add: tput_def)
  with Cons.IH [of "t @ [(be_id e, e)]"] Cons.prems show ?case by auto
qed

lemma handle_sync_obedient:
  assumes "obedient fw" and "distinct (map be_id es)"
    and "list_all (\<lambda>e. guardrail_check ops (be_target e) (fw_external_ip fw) = Some (Inr ())) es"
  shows "\<exists>fz. handle_sync ops es fw = Some (BlocklistAck (map (\<lambda>e. item (be_id e) Present None) es @
      map (\<lambda>e. item (be_id e) Absent None)
        (filter (\<lambda>e. be_id e \<notin> be_id ` set es) (map snd (fw_desired fw)))), fz) \<and> obedient fz \<and>
    kernel_elements fz = (kernel_elements fw \<union> element_of ` set es) -
      element_of ` {e \<in> snd ` set (fw_desired fw). be_id e \<notin> be_id ` set es}"
proof -
  obtain fr where ready: "ensure_ready fw = (Inr (), fr)" and fr: "obedient fr"
    using ensure_ready_obedient [OF assms(1)] by blast
  have same: "fw_desired fr = fw_desired fw" "kernel_elements fr = kernel_elements fw"
    "fw_external_ip fr = fw_external_ip fw" using ensure_ready_same [OF ready] by simp_all
  let ?t = "foldl (\<lambda>t e. tput (be_id e) e t) [] es"
  let ?rm = "filter (\<lambda>e. be_id e \<notin> be_id ` set es) (map snd (fw_desired fw))"
  have t: "?t = map (\<lambda>e. (be_id e, e)) es" using foldl_tput_new [OF assms(2), of "[]"] by simp
  have vals: "map snd ?t = es" unfolding t by (simp add: comp_def)
  have "thas ?t i \<longleftrightarrow> i \<in> be_id ` set es" for i
    unfolding t by (simp add: thas_def tget_def map_of_eq_None_iff image_image)
  then have rm: "filter (\<lambda>e. \<not> thas ?t (be_id e)) (map snd (fw_desired fr)) = ?rm"
    unfolding same by simp
  from sync_entries_obedient [OF fr, of ops "fw_external_ip fw" es] assms(3) obtain fs where
    fs: "sync_entries ops (fw_external_ip fr) es fr = Some (map (\<lambda>e. item (be_id e) Present None) es, fs)"
      "obedient fs" "kernel_elements fs = kernel_elements fw \<union> element_of ` set es"
    unfolding same by blast
  from remove_entries_obedient [OF fs(2), of ?rm] obtain fz where
    fz: "remove_entries ?rm fs = (map (\<lambda>e. item (be_id e) Absent None) ?rm, fz)" "obedient fz"
      "kernel_elements fz = kernel_elements fs - element_of ` set ?rm" by blast
  have "set ?rm = {e \<in> snd ` set (fw_desired fw). be_id e \<notin> be_id ` set es}" by auto
  with fs fz ready show ?thesis
    by (simp only: handle_sync_def Let_def prod.case sum.case rm vals option.map) simp
qed

section \<open>Repair\<close>

text \<open>Every stored row passes the agent's guardrail unless it covers the agent's own address.\<close>

lemma check_protected_pass:
  "map (no_parse ops) ps = map Some nets \<Longrightarrow> list_all (\<lambda>p. \<not> overlaps ops n p) nets \<Longrightarrow>
   check_protected ops n ps = Some (Inr ())"
  by (induction ps arbitrary: nets) (auto simp: overlaps_def)

lemma row_passes_guardrail:
  assumes "block_laws en" and "row_safe en r"
    and "no_parse (bn_ops en) (br_target r) = Some n"
    and "case own of None \<Rightarrow> True | Some ip \<Rightarrow> \<not> no_contains (bn_ops en) n ip"
  shows "guardrail_check (bn_ops en) (br_target r) own = Some (Inr ())"
proof -
  have nets: "map (no_parse (bn_ops en)) PROTECTED_CIDRS = map Some (bn_protected en)"
    and contains: "\<And>n. no_contains (bn_ops en) n (no_network (bn_ops en) n)"
    and host: "\<And>a. no_network (bn_ops en) (no_host (bn_ops en) a) = a"
    using assms(1) by (simp_all add: block_laws_def net_laws_def)
  have "list_all (\<lambda>p. \<not> overlaps (bn_ops en) n p) (bn_protected en)"
    using assms(2,3) by (auto simp: row_safe_def)
  from check_protected_pass [OF nets this]
  have "check_protected (bn_ops en) n PROTECTED_CIDRS = Some (Inr ())" .
  moreover have "no_network (bn_ops en) n \<noteq> ip" if "own = Some ip" for ip
    using assms(4) that contains [of n] by auto
  ultimately show ?thesis
    using assms(3,4) host by (auto simp: guardrail_check_def Let_def split: option.splits)
qed

definition repair_ready :: "db option \<Rightarrow> string \<Rightarrow> agent_manager \<Rightarrow> channel \<Rightarrow> bool" where
  "repair_ready d server_id am tx \<longleftrightarrow>
     get_sender server_id am = Some tx \<and>
     (case get_protocol_version server_id am of Some v \<Rightarrow> FIREWALL_MIN_PROTOCOL \<le> v | None \<Rightarrow> False) \<and>
     (case capabilities_for_agent d am server_id of
        Inr caps \<Rightarrow> has_capability caps CAP_FIREWALL_BLOCK | Inl _ \<Rightarrow> False)"

definition spares_own_address :: "'n block_env \<Rightarrow> ip_addr option \<Rightarrow> block_row list \<Rightarrow> bool" where
  "spares_own_address en own rows \<longleftrightarrow>
     (\<forall>ip. own = Some ip \<longrightarrow> list_all (\<lambda>r. \<forall>n. no_parse (bn_ops en) (br_target r) = Some n \<longrightarrow>
        \<not> no_contains (bn_ops en) n ip) rows)"

lemma send_firewall_messages:
  assumes "repair_ready d server_id am tx" and "fs_faults fs = []"
  shows "\<exists>fs'. send_firewall en d server_id am fs = (Inr (), fs') \<and> fs_rows fs' = fs_rows fs \<and>
    fs_apply fs' = fs_apply fs \<and> fs_faults fs' = [] \<and>
    fs_sent fs' = fs_sent fs @ [(tx, BlocklistReset), (tx, BlocklistSync (covering_entries en server_id (fs_rows fs)))]"
  using assms
  by (auto simp: repair_ready_def send_firewall_def push_reset_to_def send_to_def push_sync_to_def
      list_for_server_def fs_statement_def push_sync_send_def split: option.splits sum.splits)

lemma covering_entries_set:
  "set (covering_entries en server_id rows) = entry_of_row ` {r \<in> set rows. row_covers en server_id r}"
  by (auto simp: covering_entries_def)

lemma entry_of_row_simps [simp]:
  "be_id (entry_of_row r) = br_id r" "be_target (entry_of_row r) = br_target r"
  by (simp_all add: entry_of_row_def)

lemma covering_entries_distinct:
  assumes "rows_safe en rows"
  shows "distinct (map be_id (covering_entries en server_id rows))"
proof -
  have "distinct (map br_id (sort_key br_created_at rows))"
  proof -
    have "mset (map br_id (sort_key br_created_at rows)) = mset (map br_id rows)" by simp
    then show ?thesis using assms by (metis mset_eq_imp_distinct_iff rows_safe_def)
  qed
  then show ?thesis by (simp add: covering_entries_def comp_def distinct_map_filter)
qed

lemma covering_entries_pass:
  assumes "block_laws en" and "rows_safe en rows" and "spares_own_address en own rows"
  shows "list_all (\<lambda>e. guardrail_check (bn_ops en) (be_target e) own = Some (Inr ()))
    (covering_entries en server_id rows)"
proof -
  have "guardrail_check (bn_ops en) (br_target r) own = Some (Inr ())" if "r \<in> set rows" for r
  proof -
    have safe: "row_safe en r" using assms(2) that by (simp add: rows_safe_def list_all_iff)
    then obtain n where n: "no_parse (bn_ops en) (br_target r) = Some n" by (auto simp: row_safe_def)
    moreover have "case own of None \<Rightarrow> True | Some ip \<Rightarrow> \<not> no_contains (bn_ops en) n ip"
      using assms(3) that n by (auto simp: spares_own_address_def list_all_iff split: option.split)
    ultimately show ?thesis by (rule row_passes_guardrail [OF assms(1) safe])
  qed
  then show ?thesis by (auto simp: list_all_iff covering_entries_set)
qed

text \<open>What the server records of a reply.\<close>

fun server_receives :: "string \<Rightarrow> datetime \<Rightarrow> agent_reply option \<Rightarrow> firewall_service \<Rightarrow> firewall_service" where
  "server_receives server_id now (Some (BlocklistAck items)) fs = on_blocklist_ack server_id items now fs"
| "server_receives server_id now (Some (BlocklistResetAck ok _)) fs = on_blocklist_reset_ack server_id ok fs"
| "server_receives server_id now None fs = fs"

lemma on_blocklist_ack_present:
  "(\<forall>it \<in> set items. ai_state it = Present) \<Longrightarrow>
   map_option as_entry_state (tget (fs_apply (on_blocklist_ack server_id items now fs)) (i, server_id)) =
     (if i \<in> ai_id ` set items then Some Present
      else map_option as_entry_state (tget (fs_apply fs) (i, server_id)))"
  unfolding on_blocklist_ack_def
proof (induction items arbitrary: fs)
  case Nil
  then show ?case by simp
next
  case (Cons it items)
  have "tget (fs_apply (record_ack server_id it now fs)) (i, server_id) =
      (if i = ai_id it then Some \<lparr>as_entry_state = ai_state it, as_reason = ai_reason it, as_at = now\<rparr>
       else tget (fs_apply fs) (i, server_id))"
    by (simp add: record_ack_def Let_def block_frames table_simps)
  with Cons.IH [of "record_ack server_id it now fs"] Cons.prems show ?case by auto
qed

lemma reset_sync_obedient:
  assumes "obedient fw" and "distinct (map be_id es)"
    and "list_all (\<lambda>e. guardrail_check ops (be_target e) (fw_external_ip fw) = Some (Inr ())) es"
  shows "\<exists>fz. agent_run ops [BlocklistReset, BlocklistSync es] fw =
      Some ([Some (BlocklistResetAck True None), Some (BlocklistAck (map (\<lambda>e. item (be_id e) Present None) es))], fz) \<and>
    kernel_elements fz = element_of ` set es"
proof -
  from handle_reset_obedient [OF assms(1)] obtain fr where
    fr: "handle_reset fw = (BlocklistResetAck True None, fr)" "obedient fr" "fw_desired fr = []"
      "kernel_elements fr = {}" "fw_external_ip fr = fw_external_ip fw" by blast
  have "list_all (\<lambda>e. guardrail_check ops (be_target e) (fw_external_ip fr) = Some (Inr ())) es"
    unfolding fr(5) by (rule assms(3))
  from handle_sync_obedient [OF fr(2) assms(2) this] fr(3,4) obtain fz where
    "handle_sync ops es fr = Some (BlocklistAck (map (\<lambda>e. item (be_id e) Present None) es), fz)"
    "kernel_elements fz = element_of ` set es" by auto
  with fr(1) show ?thesis by (simp add: firewall_handle_def)
qed

text \<open>
  Claim C5: a repair brings the kernel to exactly the stored blocks.  When an online agent that may
  block is repaired after any run of the server, no statement of the repair fails, no row contains
  the agent's own address (the agent refuses such an entry and answers that it failed) and its
  \<open>nft\<close> carries out every command, then whatever its kernel and its table held before, the kernel
  ends up with exactly the targets of the rows that cover it, and the acknowledgements make the
  server show every one of them as present.
\<close>

theorem firewall_repair_converges:
  assumes "block_laws en" and "fs = block_run en ops new_service" and "fs_faults fs = []"
    and "repair_ready d server_id am tx" and "obedient fw"
    and "spares_own_address en (fw_external_ip fw) (fs_rows fs)"
  shows "\<exists>fs' msgs replies fw'. send_firewall en d server_id am fs = (Inr (), fs') \<and>
    fs_sent fs' = fs_sent fs @ map (Pair tx) msgs \<and>
    agent_run (bn_ops en) msgs fw = Some (replies, fw') \<and>
    kernel_elements fw' = element_of ` entry_of_row ` {r \<in> set (fs_rows fs). row_covers en server_id r} \<and>
    list_all (\<lambda>r. row_covers en server_id r \<longrightarrow>
      map_option as_entry_state (tget (fs_apply (fold (server_receives server_id now) replies fs')) (br_id r, server_id))
        = Some Present) (fs_rows fs)"
proof -
  let ?es = "covering_entries en server_id (fs_rows fs)"
  have safe: "rows_safe en (fs_rows fs)"
    unfolding assms(2) by (rule block_run_safe [OF assms(1)]) (simp add: new_service_def rows_safe_def)
  obtain fs' where sent: "send_firewall en d server_id am fs = (Inr (), fs')"
    "fs_sent fs' = fs_sent fs @ [(tx, BlocklistReset), (tx, BlocklistSync ?es)]"
    using send_firewall_messages [OF assms(4,3), of en] by blast
  obtain fw' where run: "agent_run (bn_ops en) [BlocklistReset, BlocklistSync ?es] fw =
      Some ([Some (BlocklistResetAck True None), Some (BlocklistAck (map (\<lambda>e. item (be_id e) Present None) ?es))], fw')"
    "kernel_elements fw' = element_of ` set ?es"
    using reset_sync_obedient [OF assms(5) covering_entries_distinct [OF safe]
        covering_entries_pass [OF assms(1) safe assms(6)]] by blast
  have "map_option as_entry_state (tget (fs_apply (fold (server_receives server_id now)
      [Some (BlocklistResetAck True None), Some (BlocklistAck (map (\<lambda>e. item (be_id e) Present None) ?es))] fs'))
      (br_id r, server_id)) = Some Present" if "r \<in> set (fs_rows fs)" "row_covers en server_id r" for r
  proof -
    have "br_id r \<in> ai_id ` set (map (\<lambda>e. item (be_id e) Present None) ?es)"
      using that by (force simp: covering_entries_set)
    then show ?thesis by (simp add: on_blocklist_ack_present)
  qed
  moreover have "fs_sent fs' = fs_sent fs @ map (Pair tx) [BlocklistReset, BlocklistSync ?es]"
    using sent(2) by simp
  ultimately show ?thesis
    by (intro exI [of _ fs'] exI [of _ "[BlocklistReset, BlocklistSync ?es]"]
        exI [of _ "[Some (BlocklistResetAck True None), Some (BlocklistAck (map (\<lambda>e. item (be_id e) Present None) ?es))]"]
        exI [of _ fw'] conjI sent(1) run)
      (simp_all only: run(2) covering_entries_set list_all_iff Ball_def, blast)
qed

section \<open>A sync that read too early\<close>

definition sent_to :: "channel \<Rightarrow> firewall_service \<Rightarrow> server_message list" where
  "sent_to tx fs = map snd (filter (\<lambda>(c, _). c = tx) (fs_sent fs))"

lemma sent_to_send:
  "sent_to tx (send_to s msg am fs) = sent_to tx fs @ (if get_sender s am = Some tx then [msg] else [])"
  by (auto simp: sent_to_def send_to_def split: option.split)

lemma sent_to_fold:
  assumes "\<And>s. get_sender s am = Some tx \<longleftrightarrow> s = server_id"
  shows "distinct (map fst xs) \<Longrightarrow>
    sent_to tx (fold (\<lambda>(s, _). send_to s msg am) xs fs) =
      sent_to tx fs @ (if server_id \<in> fst ` set xs then [msg] else [])"
proof (induction xs arbitrary: fs)
  case Nil
  then show ?case by simp
next
  case (Cons x xs)
  then show ?case using assms by (cases x) (auto simp: sent_to_send)
qed

lemma sent_to_push:
  assumes "\<And>s. get_sender s am = Some tx \<longleftrightarrow> s = server_id" and "table_ok (am_connections am)"
    and "(server_id, v) \<in> set (online_agents am)" and "push_wanted en row am (server_id, v)"
  shows "sent_to tx (push_to_covered en row msg am fs) = sent_to tx fs @ [msg]"
proof -
  have "distinct (map fst (filter (push_wanted en row am) (online_agents am)))"
  proof -
    have "map fst (online_agents am) = keys (am_connections am)" by (auto simp: online_agents_def)
    then have "distinct (map fst (online_agents am))" using assms(2) by (simp add: table_ok_def)
    then show ?thesis by (rule distinct_map_filter)
  qed
  moreover have "server_id \<in> fst ` set (filter (push_wanted en row am) (online_agents am))"
    using assms(3,4) by force
  ultimately show ?thesis
    unfolding push_to_covered_def
    by (subst sent_to_fold [OF assms(1)]) (simp_all del: set_filter)
qed

lemma sent_to_log [simp]: "sent_to tx (firewall_log u a d fs) = sent_to tx fs"
  by (simp add: sent_to_def block_frames)

lemma insert_block_sent: "insert_block r fs = (res, fs') \<Longrightarrow> sent_to tx fs' = sent_to tx fs"
  by (cases fs rule: fs_statement_cases) (auto simp: insert_block_def sent_to_def split: if_splits)

lemma create_block_sent:
  assumes "create_block en user req uuid now am fs = (Inr row, fs')"
    and "\<And>s. get_sender s am = Some tx \<longleftrightarrow> s = server_id" and "table_ok (am_connections am)"
    and "(server_id, v) \<in> set (online_agents am)" and "push_wanted en row am (server_id, v)"
  shows "sent_to tx fs' = sent_to tx fs @ [BlocklistAdd (entry_of_row row)]"
proof -
  from assms(1) obtain target family fs1 log where
    "insert_block row fs = (Inr (), fs1)" "fs' = announce_block en row am log" "sent_to tx log = sent_to tx fs1"
    by (auto simp: create_block_def Let_def split: sum.splits option.splits prod.splits bool.splits)
  moreover from this(1) have "sent_to tx fs1 = sent_to tx fs" by (rule insert_block_sent)
  moreover have "sent_to tx (announce_block en row am log) = sent_to tx log @ [BlocklistAdd (entry_of_row row)]"
    unfolding announce_block_def push_add_to_covered_agents_def
    by (simp add: sent_to_push [OF assms(2-5)]) (simp add: sent_to_def)
  ultimately show ?thesis by simp
qed

lemma handle_add_obedient:
  assumes "obedient fw" and "guardrail_check ops (be_target e) (fw_external_ip fw) = Some (Inr ())"
  shows "\<exists>fz. handle_add ops e fw = Some (BlocklistAck [item (be_id e) Present None], fz) \<and> obedient fz \<and>
    fw_desired fz = tput (be_id e) e (fw_desired fw) \<and>
    kernel_elements fz = insert (element_of e) (kernel_elements fw) \<and> fw_external_ip fz = fw_external_ip fw"
proof -
  obtain fr where fr: "ensure_ready fw = (Inr (), fr)" "obedient fr"
    using ensure_ready_obedient [OF assms(1)] by blast
  with ensure_ready_same [OF fr(1)] assms(2) show ?thesis
    by (simp add: handle_add_def add_element_def nft_run_obedient element_of_def)
qed

text \<open>
  Claim C37: a repair that overlaps a new block takes the block away again.  The repair has reset
  the agent and read the rows; before it sends them a block is created and pushed to the agent.
  The sync with the earlier rows then arrives last: the agent's kernel does not hold the new block
  although the row is stored, covers the server and was pushed to it.
\<close>

theorem stale_sync_undoes_block:
  assumes "block_laws en" and "fs = block_run en ops new_service"
    and "push_reset_to server_id am fs = fs1" and "list_for_server en server_id fs1 = (Inr es, fs2)"
    and "create_block en user req uuid now am fs2 = (Inr row, fs3)"
    and "push_sync_send server_id es am fs3 = fs4"
    and "\<And>s. get_sender s am = Some tx \<longleftrightarrow> s = server_id" and "table_ok (am_connections am)"
    and "(server_id, v) \<in> set (online_agents am)" and "push_wanted en row am (server_id, v)"
    and "obedient fw" and "spares_own_address en (fw_external_ip fw) (fs_rows fs4)"
  shows "row \<in> set (fs_rows fs4) \<and> row_covers en server_id row \<and>
    (\<exists>msgs replies fw'. sent_to tx fs4 = sent_to tx fs @ msgs \<and>
       agent_run (bn_ops en) msgs fw = Some (replies, fw') \<and>
       element_of (entry_of_row row) \<notin> kernel_elements fw')"
proof -
  have safe: "rows_safe en (fs_rows fs)"
    unfolding assms(2) by (rule block_run_safe [OF assms(1)]) (simp add: new_service_def rows_safe_def)
  have fs1: "fs_rows fs1 = fs_rows fs" using assms(3) by (auto simp: push_reset_to_def block_frames)
  have fs2: "fs_rows fs2 = fs_rows fs" "es = covering_entries en server_id (fs_rows fs)"
    "sent_to tx fs2 = sent_to tx fs1"
    using assms(4) fs1
    by (cases fs1 rule: fs_statement_cases; auto simp: list_for_server_def sent_to_def)+
  have fs3: "fs_rows fs3 = fs_rows fs @ [row]" "row_safe en row"
      "br_id row \<notin> br_id ` set (fs_rows fs)" "br_target row \<notin> br_target ` set (fs_rows fs)"
    using create_block_rows [OF assms(1), where user = user and req = req and uuid = uuid and now = now and am = am and fs = fs2]
      assms(5) fs2(1) by auto
  have fs4: "fs_rows fs4 = fs_rows fs @ [row]" using assms(6) fs3(1) by (auto simp: push_sync_send_def block_frames)
  have sent: "sent_to tx fs4 = sent_to tx fs @ [BlocklistReset, BlocklistAdd (entry_of_row row), BlocklistSync es]"
  proof -
    have "sent_to tx fs1 = sent_to tx fs @ [BlocklistReset]"
      using sent_to_send [of tx server_id BlocklistReset am fs] assms(7) [of server_id]
      unfolding assms(3) [unfolded push_reset_to_def] by simp
    moreover have "sent_to tx fs4 = sent_to tx fs3 @ [BlocklistSync es]"
      using sent_to_send [of tx server_id "BlocklistSync es" am fs3] assms(7) [of server_id]
      unfolding assms(6) [unfolded push_sync_send_def] by simp
    ultimately show ?thesis using create_block_sent [OF assms(5,7-10)] fs2(3) by simp
  qed
  have all: "rows_safe en (fs_rows fs4)" unfolding fs4 using safe fs3 by (simp add: rows_safe_append)
  note pass = covering_entries_pass [OF assms(1) all assms(12), unfolded list_all_iff covering_entries_set]
  have own: "spares_own_address en (fw_external_ip fw) (fs_rows fs)"
    using assms(12) unfolding spares_own_address_def fs4 by simp
  have covers: "row_covers en server_id row" using assms(10) by (simp add: push_wanted_def)
  obtain f1 where f1: "handle_reset fw = (BlocklistResetAck True None, f1)" "obedient f1" "fw_desired f1 = []"
      "kernel_elements f1 = {}" "fw_external_ip f1 = fw_external_ip fw"
    using handle_reset_obedient [OF assms(11)] by blast
  have "guardrail_check (bn_ops en) (be_target (entry_of_row row)) (fw_external_ip f1) = Some (Inr ())"
    using pass covers fs4 f1(5) by auto
  from handle_add_obedient [OF f1(2) this] f1 obtain f2 where
    f2: "handle_add (bn_ops en) (entry_of_row row) f1 = Some (BlocklistAck [item (br_id row) Present None], f2)"
      "obedient f2" "fw_desired f2 = [(br_id row, entry_of_row row)]" "fw_external_ip f2 = fw_external_ip fw"
      "kernel_elements f2 = {element_of (entry_of_row row)}"
    by (auto simp: tput_def)
  have ids: "distinct (map be_id es)" unfolding fs2(2) by (rule covering_entries_distinct [OF safe])
  have pass_es: "list_all (\<lambda>e. guardrail_check (bn_ops en) (be_target e) (fw_external_ip f2) = Some (Inr ())) es"
    unfolding fs2(2) f2(4) by (rule covering_entries_pass [OF assms(1) safe own])
  from handle_sync_obedient [OF f2(2) ids pass_es] obtain reply f3 where
    f3: "handle_sync (bn_ops en) es f2 = Some (reply, f3)"
      "kernel_elements f3 = (kernel_elements f2 \<union> element_of ` set es) -
        element_of ` {e \<in> snd ` set (fw_desired f2). be_id e \<notin> be_id ` set es}" by blast
  have "br_id row \<notin> be_id ` set es" using fs3(3) by (auto simp: fs2(2) covering_entries_set)
  then have "element_of (entry_of_row row) \<notin> kernel_elements f3" unfolding f3(2) f2(3) by auto
  moreover have "agent_run (bn_ops en) [BlocklistReset, BlocklistAdd (entry_of_row row), BlocklistSync es] fw =
      Some ([Some (BlocklistResetAck True None), Some (BlocklistAck [item (br_id row) Present None]), Some reply], f3)"
    using f1(1) f2(1) f3(1) by (simp add: firewall_handle_def)
  ultimately show ?thesis using covers sent fs4 by auto
qed

section \<open>Concrete runs\<close>

definition demo_env :: "(ip_addr \<times> nat) block_env" where
  "demo_env = \<lparr>bn_ops = demo_nets, bn_protected = map (\<lambda>p. the (map_of demo_blocks p)) PROTECTED_CIDRS,
     bn_trunc = id,
     bn_print = (\<lambda>n. case find (\<lambda>(_, m). m = n) demo_blocks of Some (s, _) \<Rightarrow> s | None \<Rightarrow> []),
     bn_is_v4 = (\<lambda>n. is_ipv4 (fst n)),
     bn_parse_addr = map_of [(''::1'', V6 0 0 0 0 0 0 0 1), (''::'', V6 0 0 0 0 0 0 0 0)],
     bn_print_addr = (\<lambda>_. ''::''), bn_parse_ids = (\<lambda>s. Some [s]), bn_print_ids = concat,
     bn_allow_list = [''::1''], bn_trusted_proxies = []\<rparr>"

lemma demo_env_laws: "block_laws demo_env"
proof -
  have protected: "map (no_parse demo_nets) PROTECTED_CIDRS = map Some (bn_protected demo_env)" by code_simp
  have "list_all (\<lambda>(s, n). map_of demo_blocks (bn_print demo_env n) = Some n) demo_blocks" by code_simp
  then have round: "no_parse demo_nets (bn_print demo_env (bn_trunc demo_env n)) = Some (bn_trunc demo_env n)"
    if "no_parse demo_nets s = Some n" for s n
    using that map_of_SomeD [of demo_blocks s n] by (auto simp: demo_nets_def demo_env_def list_all_iff)
  have hosts: "no_parse demo_nets (bn_print demo_env (no_host demo_nets a)) = Some (no_host demo_nets a)"
    if "bn_parse_addr demo_env s = Some a" for s a
  proof -
    have "a = V6 0 0 0 0 0 0 0 1 \<or> a = V6 0 0 0 0 0 0 0 0"
      using that by (auto simp: demo_env_def split: if_splits)
    moreover have "no_parse demo_nets (bn_print demo_env (no_host demo_nets (V6 0 0 0 0 0 0 0 1))) =
        Some (no_host demo_nets (V6 0 0 0 0 0 0 0 1))"
      "no_parse demo_nets (bn_print demo_env (no_host demo_nets (V6 0 0 0 0 0 0 0 0))) =
        Some (no_host demo_nets (V6 0 0 0 0 0 0 0 0))" by code_simp+
    ultimately show ?thesis by blast
  qed
  have ops: "bn_ops demo_env = demo_nets" by (simp add: demo_env_def)
  have hostv4: "bn_is_v4 demo_env (no_host demo_nets a) = is_ipv4 a" "no_network demo_nets (no_host demo_nets a) = a" for a
    by (simp_all add: demo_env_def demo_nets_def)
  show ?thesis
    unfolding block_laws_def ops using demo_net_laws protected round hosts hostv4 by blast
qed

text \<open>One agent that may block, on channel 9.\<close>

definition demo_fleet :: agent_manager where
  "demo_fleet = new_manager
     \<lparr>am_connections := [(''srv'', \<lparr>ac_connection_id = 1, ac_authority_fingerprint = None,
        ac_server_name = ''srv'', ac_tx = 9, ac_last_report_at = 0, ac_remote_addr = [],
        ac_protocol_version = 2\<rparr>)],
      am_agent_local_capabilities := [(''srv'', CAP_FIREWALL_BLOCK)]\<rparr>"

definition demo_req :: create_block_req where
  "demo_req = \<lparr>cb_target = ''198.51.100.0/24'', cb_cover_type = ''all'', cb_server_ids = None, cb_comment = None\<rparr>"

definition demo_ops :: "(block_op \<times> agent_manager) list" where
  "demo_ops = [(CreateBlock ''admin'' demo_req ''u1'' 7, demo_fleet)]"

lemma demo_fleet_sender: "get_sender s demo_fleet = Some 9 \<longleftrightarrow> s = ''srv''"
  by (simp add: get_sender_def demo_fleet_def new_manager_def tget_def)

lemma demo_no_own [simp]: "spares_own_address en (fw_external_ip new_firewall) rows" "obedient new_firewall"
  by (simp_all add: spares_own_address_def new_firewall_def obedient_def)

theorem stored_blocks_spare_protected_witness:
  "\<exists>n. no_parse demo_nets ''198.51.100.0/24'' = Some n \<and> \<not> no_contains demo_nets n (V6 0 0 0 0 0 0 0 1)"
proof -
  have "list_ex (\<lambda>r. br_target r = ''198.51.100.0/24'') (fs_rows (block_run demo_env demo_ops new_service))"
    by code_simp
  then obtain r where r: "r \<in> set (fs_rows (block_run demo_env demo_ops new_service))"
    "br_target r = ''198.51.100.0/24''" by (auto simp: list_ex_iff)
  have "''::1'' \<in> set (bn_allow_list demo_env)" "bn_parse_addr demo_env ''::1'' = Some (V6 0 0 0 0 0 0 0 1)"
    "bn_ops demo_env = demo_nets" by (simp_all add: demo_env_def)
  with stored_blocks_spare_protected [OF demo_env_laws r(1)] show ?thesis unfolding r(2) by metis
qed

theorem firewall_repair_converges_witness:
  "\<exists>msgs replies fw'. agent_run demo_nets msgs new_firewall = Some (replies, fw') \<and>
     (''block_v4'', ''198.51.100.0/24'') \<in> kernel_elements fw'"
proof -
  let ?fs = "block_run demo_env demo_ops new_service"
  have facts: "fs_faults ?fs = []" "repair_ready None ''srv'' demo_fleet 9" by code_simp+
  have "list_ex (\<lambda>r. row_covers demo_env ''srv'' r \<and> element_of (entry_of_row r) = (''block_v4'', ''198.51.100.0/24''))
      (fs_rows ?fs)" by code_simp
  then have el: "(''block_v4'', ''198.51.100.0/24'') \<in>
      element_of ` entry_of_row ` {r \<in> set (fs_rows ?fs). row_covers demo_env ''srv'' r}"
    by (force simp: list_ex_iff)
  have ops: "bn_ops demo_env = demo_nets" by (simp add: demo_env_def)
  from firewall_repair_converges [OF demo_env_laws refl facts demo_no_own(2,1), of 0, unfolded ops]
  obtain msgs replies fw' where "agent_run demo_nets msgs new_firewall = Some (replies, fw')"
    "kernel_elements fw' = element_of ` entry_of_row ` {r \<in> set (fs_rows ?fs). row_covers demo_env ''srv'' r}"
    by blast
  with el show ?thesis by (intro exI [of _ msgs] exI [of _ replies] exI [of _ fw']) simp
qed

theorem stale_sync_undoes_block_witness:
  "\<exists>fs4 msgs replies fw'. list_ex (\<lambda>r. br_id r = ''u1'') (fs_rows fs4) \<and> sent_to 9 fs4 = msgs \<and>
     agent_run demo_nets msgs new_firewall = Some (replies, fw') \<and>
     (''block_v4'', ''198.51.100.0/24'') \<notin> kernel_elements fw'"
proof -
  let ?fs1 = "push_reset_to ''srv'' demo_fleet new_service"
  let ?made = "create_block demo_env ''admin'' demo_req ''u1'' 7 demo_fleet ?fs1"
  let ?row = "projr (fst ?made)"
  have read: "list_for_server demo_env ''srv'' ?fs1 = (Inr [], ?fs1)" by code_simp
  have "isl (fst ?made) = False" by code_simp
  then have made: "?made = (Inr ?row, snd ?made)" by (cases "fst ?made"; cases ?made) auto
  have facts: "table_ok (am_connections demo_fleet)" "(''srv'', 2) \<in> set (online_agents demo_fleet)"
    "push_wanted demo_env ?row demo_fleet (''srv'', 2)" by code_simp+
  have row: "br_id ?row = ''u1''" "element_of (entry_of_row ?row) = (''block_v4'', ''198.51.100.0/24'')" by code_simp+
  have start: "new_service = block_run demo_env [] new_service" "sent_to 9 new_service = []"
    by (simp_all add: block_run_def sent_to_def new_service_def)
  have ops: "bn_ops demo_env = demo_nets" by (simp add: demo_env_def)
  let ?fs4 = "push_sync_send ''srv'' [] demo_fleet (snd ?made)"
  from stale_sync_undoes_block [OF demo_env_laws start(1) refl read made refl demo_fleet_sender facts
      demo_no_own(2,1), unfolded ops]
  obtain msgs replies fw' where leak: "?row \<in> set (fs_rows ?fs4)" "sent_to 9 ?fs4 = msgs"
    "agent_run demo_nets msgs new_firewall = Some (replies, fw')"
    "element_of (entry_of_row ?row) \<notin> kernel_elements fw'"
    unfolding start(2) append_Nil by blast
  have "list_ex (\<lambda>r. br_id r = ''u1'') (fs_rows ?fs4)" using leak(1) row(1) by (auto simp: list_ex_iff)
  with leak(2-) show ?thesis unfolding row(2) by blast
qed

end
