(* ===== verification/Block_Pages.thy ===== *)
theory Block_Pages
  imports Block_List "HOL-Library.Product_Lexorder" "HOL-Library.Multiset"
begin

text \<open>
  The paged listing of the block list (\<open>list_blocks\<close>, \<open>encode_cursor\<close> and \<open>decode_cursor\<close> of
  \<open>crates/server/src/router/api/firewall.rs\<close>) and the client's walk along its cursors.  The
  base64 and RFC 3339 codecs are parameters.
\<close>

record cursor_codec =
  cc_rfc3339 :: "datetime \<Rightarrow> string"
  cc_parse_rfc3339 :: "string \<Rightarrow> datetime option"
  cc_encode :: "string \<Rightarrow> string"
  cc_decode :: "string \<Rightarrow> string option"
  cc_from_utf8 :: "string \<Rightarrow> string option"

definition DEFAULT_LIMIT :: nat where "DEFAULT_LIMIT = 50"
definition MAX_LIMIT :: nat where "MAX_LIMIT = 200"

record list_query =
  lq_cursor :: "string option"
  lq_origin :: "string option"
  lq_target_q :: "string option"
  lq_limit :: "nat option"

definition encode_cursor :: "cursor_codec \<Rightarrow> datetime \<Rightarrow> string \<Rightarrow> string" where
  "encode_cursor co created_at i = cc_encode co (cc_rfc3339 co created_at @ ''|'' @ i)"

definition decode_cursor :: "cursor_codec \<Rightarrow> string \<Rightarrow> app_error + datetime \<times> string" where
  "decode_cursor co cursor =
     try_bind (ok_or (BadRequest ''invalid cursor'') (cc_decode co cursor)) (\<lambda>raw.
     try_bind (ok_or (BadRequest ''invalid cursor'') (cc_from_utf8 co raw)) (\<lambda>decoded.
     try_bind (ok_or (BadRequest ''invalid cursor'') (split_once decoded ''|'')) (\<lambda>(timestamp, i).
     try_bind (ok_or (BadRequest ''invalid cursor timestamp'') (cc_parse_rfc3339 co timestamp)) (\<lambda>created_at.
     Inr (created_at, i)))))"

definition page_key :: "block_row \<Rightarrow> datetime \<times> string" where
  "page_key r = (br_created_at r, br_id r)"

definition page_limit :: "list_query \<Rightarrow> nat" where
  "page_limit q = min (case lq_limit q of Some l \<Rightarrow> l | None \<Rightarrow> DEFAULT_LIMIT) MAX_LIMIT"

text \<open>
  \<open>text LIKE pattern\<close> of SQLite: \<open>%\<close> stands for any text and \<open>_\<close> for one character, and ASCII letters
  match in either case.  The stored targets are ASCII, so a character of the text is a byte.
\<close>

fun sql_like :: "string \<Rightarrow> string \<Rightarrow> bool" where
  "sql_like [] t \<longleftrightarrow> t = []"
| "sql_like (p # ps) [] \<longleftrightarrow> p = CHR ''%'' \<and> sql_like ps []"
| "sql_like (p # ps) (c # t) \<longleftrightarrow>
     (if p = CHR ''%'' then sql_like ps (c # t) \<or> sql_like (p # ps) t
      else (p = CHR ''_'' \<or> ascii_lower p = ascii_lower c) \<and> sql_like ps t)"

text \<open>The column filters; \<open>Column::contains\<close> puts the text between two \<open>%\<close> and does not escape it.\<close>

definition column_contains :: "string \<Rightarrow> string \<Rightarrow> bool" where
  "column_contains value text \<longleftrightarrow> sql_like (''%'' @ text @ ''%'') value"

definition query_matches :: "list_query \<Rightarrow> block_row \<Rightarrow> bool" where
  "query_matches q r \<longleftrightarrow>
     (case lq_origin q of None \<Rightarrow> True | Some o' \<Rightarrow> br_origin r = o') \<and>
     (case lq_target_q q of None \<Rightarrow> True | Some tq \<Rightarrow> column_contains (br_target r) tq)"

definition before_cursor :: "datetime \<times> string \<Rightarrow> block_row \<Rightarrow> bool" where
  "before_cursor c r \<longleftrightarrow>
     br_created_at r < fst c \<or> br_created_at r = fst c \<and> br_id r < snd c"

text \<open>\<open>ORDER BY created_at DESC, id DESC\<close>\<close>

definition newest_first :: "block_row list \<Rightarrow> block_row list" where
  "newest_first rows = rev (sort_key page_key rows)"

definition list_blocks ::
  "cursor_codec \<Rightarrow> list_query \<Rightarrow> firewall_service \<Rightarrow>
   (app_error + block_row list \<times> string option) \<times> firewall_service" where
  "list_blocks co q fs =
     (let limit = page_limit q in
      case (case lq_cursor q of None \<Rightarrow> Inr None | Some c \<Rightarrow> map_sum id Some (decode_cursor co c)) of
        Inl e \<Rightarrow> (Inl e, fs)
      | Inr cursor \<Rightarrow>
          (case fs_statement fs of
             (False, fs) \<Rightarrow> (Inl db_error, fs)
           | (True, fs) \<Rightarrow>
               let found = filter (query_matches q) (fs_rows fs);
                   found = (case cursor of None \<Rightarrow> found | Some c \<Rightarrow> filter (before_cursor c) found);
                   items = take (limit + 1) (newest_first found)
               in if limit < length items
                  then let items = take limit items in
                    (Inr (items, if items = [] then None
                       else Some (encode_cursor co (br_created_at (last items)) (br_id (last items)))), fs)
                  else (Inr (items, None), fs)))"

text \<open>A client that asks for page after page; \<open>None\<close> when it gives up or a request fails.\<close>

fun walk_pages ::
  "cursor_codec \<Rightarrow> list_query \<Rightarrow> firewall_service \<Rightarrow> nat \<Rightarrow> string option \<Rightarrow> block_row list option" where
  "walk_pages co q fs 0 c = None"
| "walk_pages co q fs (Suc n) c =
     (case list_blocks co (q\<lparr>lq_cursor := c\<rparr>) fs of
        (Inl _, _) \<Rightarrow> None
      | (Inr (items, None), _) \<Rightarrow> Some items
      | (Inr (items, Some c'), fs) \<Rightarrow> map_option ((@) items) (walk_pages co q fs n (Some c')))"

section \<open>The filter\<close>

lemma sql_like_any: "sql_like (CHR ''%'' # ps) t \<longleftrightarrow> (\<exists>a b. t = a @ b \<and> sql_like ps b)"
proof (induction t)
  case Nil
  show ?case by simp
next
  case (Cons c t)
  have "(\<exists>a b. c # t = a @ b \<and> sql_like ps b) \<longleftrightarrow> sql_like ps (c # t) \<or> (\<exists>a b. t = a @ b \<and> sql_like ps b)"
    by (metis append_Cons append_Nil append_eq_Cons_conv)
  with Cons.IH show ?case by simp
qed

lemma sql_like_literal:
  "set p \<inter> {CHR ''%'', CHR ''_''} = {} \<Longrightarrow>
   sql_like (p @ ''%'') t \<longleftrightarrow> (\<exists>a b. t = a @ b \<and> eq_ignore_ascii_case a p)"
proof (induction p arbitrary: t)
  case Nil
  have "sql_like ''%'' t" for t by (induction t) simp_all
  then show ?case by (auto simp: eq_ignore_ascii_case_def)
next
  case (Cons x p)
  show ?case
  proof (cases t)
    case Nil
    with Cons.prems show ?thesis by (auto simp: eq_ignore_ascii_case_def)
  next
    case (Cons c t')
    have "(\<exists>a b. c # t' = a @ b \<and> eq_ignore_ascii_case a (x # p)) \<longleftrightarrow>
        ascii_lower x = ascii_lower c \<and> (\<exists>a b. t' = a @ b \<and> eq_ignore_ascii_case a p)"
      by (auto simp: eq_ignore_ascii_case_def Cons_eq_append_conv map_eq_Cons_conv) metis+
    with Cons Cons.IH [of t'] Cons.prems show ?thesis by auto
  qed
qed

text \<open>A text without wildcards is looked for as it is, apart from the case of letters.\<close>

lemma column_contains_literal:
  assumes "set text \<inter> {CHR ''%'', CHR ''_''} = {}"
  shows "column_contains value text \<longleftrightarrow> (\<exists>a b c. value = a @ b @ c \<and> eq_ignore_ascii_case b text)"
  using sql_like_literal [OF assms] by (auto simp: column_contains_def sql_like_any)

lemma column_contains_wildcards:
  "column_contains ''2001:db8::/32'' ''DB8''" "column_contains ''198.51.100.7/32'' ''1_8%7''"
  by code_simp+

section \<open>The cursor\<close>

text \<open>
  Base64 and RFC 3339 round-trip, a time stamp has no \<open>|\<close>, and the identifiers are texts.
\<close>

definition codec_laws :: "cursor_codec \<Rightarrow> string set \<Rightarrow> bool" where
  "codec_laws co ids \<longleftrightarrow>
     (\<forall>s. cc_decode co (cc_encode co s) = Some s) \<and>
     (\<forall>t. \<forall>i \<in> ids. cc_from_utf8 co (cc_rfc3339 co t @ ''|'' @ i) = Some (cc_rfc3339 co t @ ''|'' @ i)) \<and>
     (\<forall>t. cc_parse_rfc3339 co (cc_rfc3339 co t) = Some t) \<and>
     (\<forall>t. CHR ''|'' \<notin> set (cc_rfc3339 co t))"

lemma split_once_bar: "CHR ''|'' \<notin> set a \<Longrightarrow> split_once (a @ ''|'' @ b) ''|'' = Some (a, b)"
  by (induction a) (auto simp: strip_prefix_def starts_with_def)

lemma decode_encode_cursor:
  "codec_laws co ids \<Longrightarrow> i \<in> ids \<Longrightarrow> decode_cursor co (encode_cursor co t i) = Inr (t, i)"
  unfolding codec_laws_def decode_cursor_def encode_cursor_def
  by (simp add: split_once_bar [simplified] try_bind_def ok_or_def)

section \<open>The walk\<close>

lemma before_cursor_key: "before_cursor (page_key y) r \<longleftrightarrow> page_key r < page_key y"
  by (auto simp: before_cursor_def page_key_def less_prod_def')

lemma newest_first_filter: "newest_first (filter P rows) = filter P (newest_first rows)"
  by (simp add: newest_first_def filter_sort [symmetric] rev_filter)

lemma newest_first_desc:
  assumes "distinct (map br_id rows)"
  shows "sorted_wrt (\<lambda>a b. page_key b < page_key a) (newest_first rows)"
proof -
  have inj: "inj_on page_key (set rows)"
    using assms by (auto simp: inj_on_def page_key_def distinct_map)
  have d: "distinct (map page_key (sort_key page_key rows))"
  proof -
    have "distinct rows" using assms by (simp add: distinct_map)
    then show ?thesis using inj by (simp add: distinct_map)
  qed
  have "sorted (map page_key (sort_key page_key rows))" by simp
  with d have "sorted_wrt (<) (map page_key (sort_key page_key rows))" by (simp add: strict_sorted_iff)
  then show ?thesis by (simp add: newest_first_def sorted_wrt_rev sorted_wrt_map)
qed

lemma filter_after:
  assumes "sorted_wrt (\<lambda>a b. page_key b < page_key a) (xs @ y # ys)"
  shows "filter (before_cursor (page_key y)) (xs @ y # ys) = ys"
proof -
  have "filter (before_cursor (page_key y)) xs = []"
    using assms by (auto simp: before_cursor_key filter_empty_conv sorted_wrt_append)
  moreover have "filter (before_cursor (page_key y)) ys = ys"
    using assms by (intro filter_True) (auto simp: before_cursor_key sorted_wrt_append)
  ultimately show ?thesis by (simp add: before_cursor_key)
qed

abbreviation matching :: "list_query \<Rightarrow> firewall_service \<Rightarrow> block_row list" where
  "matching q fs \<equiv> newest_first (filter (query_matches q) (fs_rows fs))"

lemma set_newest_first [simp]: "set (newest_first rows) = set rows"
  by (simp add: newest_first_def)

lemma query_cursor [simp]:
  "page_limit (q\<lparr>lq_cursor := c\<rparr>) = page_limit q" "query_matches (q\<lparr>lq_cursor := c\<rparr>) = query_matches q"
  by (simp_all add: page_limit_def query_matches_def fun_eq_iff)

text \<open>One page of what is left, and the cursor after it.\<close>

definition page_of :: "cursor_codec \<Rightarrow> nat \<Rightarrow> block_row list \<Rightarrow> block_row list \<times> string option" where
  "page_of co limit rest =
     (if limit < length rest
      then (take limit rest,
            Some (encode_cursor co (br_created_at (last (take limit rest))) (br_id (last (take limit rest)))))
      else (rest, None))"

lemma list_blocks_page:
  assumes "codec_laws co (br_id ` set (fs_rows fs))" and "distinct (map br_id (fs_rows fs))"
    and "fs_faults fs = []" and "0 < page_limit q" and "matching q fs = seen @ rest"
    and "c = (if seen = [] then None else Some (encode_cursor co (br_created_at (last seen)) (br_id (last seen))))"
  shows "list_blocks co (q\<lparr>lq_cursor := c\<rparr>) fs = (Inr (page_of co (page_limit q) rest), fs)"
proof -
  have desc: "sorted_wrt (\<lambda>a b. page_key b < page_key a) (matching q fs)"
    by (intro newest_first_desc) (simp add: distinct_map_filter assms(2))
  show ?thesis
  proof (cases "seen = []")
    case True
    with assms(3-6) show ?thesis by (auto simp: list_blocks_def fs_statement_def Let_def page_of_def)
  next
    case False
    then obtain xs y where d: "seen = xs @ [y]" by (metis append_butlast_last_id)
    have "y \<in> set (matching q fs)" unfolding assms(5) d by simp
    then have "br_id y \<in> br_id ` set (fs_rows fs)" by auto
    with decode_encode_cursor [OF assms(1)]
    have dec: "decode_cursor co (encode_cursor co (br_created_at y) (br_id y)) = Inr (page_key y)"
      by (simp add: page_key_def)
    have "newest_first (filter (before_cursor (page_key y)) (filter (query_matches q) (fs_rows fs))) =
        filter (before_cursor (page_key y)) (matching q fs)"
      by (simp add: newest_first_filter [symmetric])
    also have "\<dots> = rest"
      using filter_after [of xs y rest] desc assms(5) d by simp
    finally show ?thesis
      using assms(3,4,6) False d dec by (auto simp: list_blocks_def fs_statement_def Let_def page_of_def)
  qed
qed

lemma walk_rest:
  assumes "codec_laws co (br_id ` set (fs_rows fs))" and "distinct (map br_id (fs_rows fs))"
    and "fs_faults fs = []" and "0 < page_limit q"
  shows "matching q fs = seen @ rest \<Longrightarrow> length rest div page_limit q < n \<Longrightarrow>
    c = (if seen = [] then None else Some (encode_cursor co (br_created_at (last seen)) (br_id (last seen)))) \<Longrightarrow>
    walk_pages co q fs n c = Some rest"
proof (induction n arbitrary: seen rest c)
  case 0
  then show ?case by simp
next
  case (Suc n)
  note page = list_blocks_page [OF assms Suc.prems(1,3)]
  show ?case
  proof (cases "page_limit q < length rest")
    case False
    then show ?thesis by (simp add: page page_of_def)
  next
    case True
    let ?page = "take (page_limit q) rest" and ?rest = "drop (page_limit q) rest"
    have ne: "?page \<noteq> []" using True assms(4) by auto
    have "length rest div page_limit q = Suc (length ?rest div page_limit q)"
      using True assms(4) by (simp add: le_div_geq)
    then have "length ?rest div page_limit q < n" using Suc.prems(2) by simp
    from Suc.IH [of "seen @ ?page" ?rest, OF _ this refl] Suc.prems(1) ne
    have "walk_pages co q fs n (Some (encode_cursor co (br_created_at (last ?page)) (br_id (last ?page)))) = Some ?rest"
      by simp
    with True show ?thesis by (simp add: page page_of_def)
  qed
qed

text \<open>A limit of zero ends the listing at once, whatever matches.\<close>

lemma zero_limit_shows_nothing:
  assumes "lq_limit q = Some 0" and "fs_faults fs = []"
  shows "walk_pages co q fs (Suc n) None = Some []"
  using assms by (simp add: list_blocks_def page_limit_def fs_statement_def Let_def)

text \<open>
  Claim C38: walking the pages shows every block exactly once.  While the table does not change and
  no query fails, a client that asks for at least one row a page, starts without a cursor and
  follows the cursors it is given reaches a page without
  one after at most one page more than full pages fit, and the pages together are the rows that
  match its filters (the origin equal, the target \<open>LIKE\<close> the text), each once, newest first.
\<close>

theorem block_pages_complete:
  assumes "codec_laws co (br_id ` set (fs_rows fs))" and "distinct (map br_id (fs_rows fs))"
    and "fs_faults fs = []" and "lq_limit q \<noteq> Some 0"
    and "length (filter (query_matches q) (fs_rows fs)) div page_limit q < n"
  shows "\<exists>rows. walk_pages co q fs n None = Some rows \<and>
    mset rows = mset (filter (query_matches q) (fs_rows fs)) \<and>
    sorted_wrt (\<lambda>a b. page_key b < page_key a) rows"
proof -
  have pos: "0 < page_limit q"
    using assms(4) by (auto simp: page_limit_def DEFAULT_LIMIT_def MAX_LIMIT_def split: option.splits)
  have "walk_pages co q fs n None = Some (matching q fs)"
    using assms(5) by (intro walk_rest [OF assms(1-3) pos, of "[]"]) (simp_all add: newest_first_def)
  moreover have "sorted_wrt (\<lambda>a b. page_key b < page_key a) (matching q fs)"
    by (intro newest_first_desc) (simp add: distinct_map_filter assms(2))
  ultimately show ?thesis by (simp add: newest_first_def)
qed

text \<open>A codec with the laws, and three rows read two at a time.\<close>

definition demo_codec :: cursor_codec where
  "demo_codec = \<lparr>cc_rfc3339 = (\<lambda>t. (if t < 0 then ''-'' else []) @ replicate (nat \<bar>t\<bar>) CHR ''i''),
     cc_parse_rfc3339 = (\<lambda>s. Some (case s of [] \<Rightarrow> 0
       | c # cs \<Rightarrow> if c = CHR ''-'' then - int (length cs) else int (length s))),
     cc_encode = id, cc_decode = Some, cc_from_utf8 = Some\<rparr>"

lemma demo_codec_laws: "codec_laws demo_codec ids"
proof -
  have "cc_parse_rfc3339 demo_codec (cc_rfc3339 demo_codec t) = Some t" for t
    by (cases "t < 0"; cases "nat \<bar>t\<bar>") (auto simp: demo_codec_def)
  then show ?thesis by (auto simp: codec_laws_def demo_codec_def)
qed

definition demo_row :: "string \<Rightarrow> datetime \<Rightarrow> block_row" where
  "demo_row i t = \<lparr>br_id = i, br_target = i, br_family = 4, br_cover_type = ''all'',
     br_server_ids_json = None, br_comment = None, br_origin = ORIGIN_MANUAL, br_origin_event_id = None,
     br_origin_rule_id = None, br_created_by = None, br_created_at = t\<rparr>"

theorem block_pages_complete_witness:
  "\<exists>rows. walk_pages demo_codec \<lparr>lq_cursor = None, lq_origin = Some ORIGIN_MANUAL, lq_target_q = None, lq_limit = Some 2\<rparr>
       (new_service\<lparr>fs_rows := [demo_row ''a'' 5, demo_row ''b'' 5, demo_row ''c'' 3]\<rparr>) 2 None = Some rows \<and>
     length rows = 3"
proof -
  let ?q = "\<lparr>lq_cursor = None, lq_origin = Some ORIGIN_MANUAL, lq_target_q = None, lq_limit = Some 2\<rparr>"
  let ?fs = "new_service\<lparr>fs_rows := [demo_row ''a'' 5, demo_row ''b'' 5, demo_row ''c'' 3]\<rparr>"
  have m: "filter (query_matches ?q) (fs_rows ?fs) = fs_rows ?fs"
    by (simp add: query_matches_def demo_row_def)
  have d: "distinct (map br_id (fs_rows ?fs))" by (simp add: demo_row_def)
  have "\<exists>rows. walk_pages demo_codec ?q ?fs 2 None = Some rows \<and> mset rows = mset (fs_rows ?fs) \<and>
      sorted_wrt (\<lambda>a b. page_key b < page_key a) rows"
    using block_pages_complete [OF demo_codec_laws d, of ?q 2, unfolded m]
    by (simp add: new_service_def page_limit_def MAX_LIMIT_def)
  then obtain rows where "walk_pages demo_codec ?q ?fs 2 None = Some rows" "mset rows = mset (fs_rows ?fs)"
    by blast
  moreover from this(2) have "length rows = length (fs_rows ?fs)" by (rule mset_eq_length)
  ultimately show ?thesis by auto
qed

end
