(* ===== verification/Agent_Reconcile.thy ===== *)
theory Agent_Reconcile
  imports Block_List
begin

text \<open>
  The desired state the server pushes to agents (\<open>crates/server/src/service/agent_reconcile.rs\<close>):
  ping tasks, network probes, unlock services and the firewall, each read from the database,
  filtered for the agent and sent; with the two reads it relies on from
  \<open>service/network_probe.rs\<close> and \<open>service/ip_quality.rs\<close>.

  The parameters are the JSON parser of stored server lists and the table of preset targets.  A
  read takes its outcome from \<open>rc_faults\<close>.  Unlock services are opaque texts.
\<close>

datatype desired_state_domain = PingTasks | NetworkProbes | IpQuality | FirewallDomain

record ping_task =
  pt_id :: string
  pt_probe_type :: string
  pt_target :: string
  pt_interval :: int
  pt_server_ids_json :: string
  pt_enabled :: bool

record ping_config =
  pc_task_id :: string
  pc_probe_type :: string
  pc_target :: string
  pc_interval :: u32

record probe_setting =
  ps_interval :: u32
  ps_packet_count :: u32
  ps_default_target_ids :: "string list"

record target_dto =
  td_id :: string
  td_name :: string
  td_target :: string
  td_probe_type :: string

record probe_target =
  nt_target_id :: string
  nt_name :: string
  nt_target :: string
  nt_probe_type :: string

datatype desired_message =
  PingTasksSync "ping_config list"
| NetworkProbeSync "probe_target list" u32 u32
| IpQualitySync "string list" u32

record reconcile_db =
  rd_ping_tasks :: "ping_task list"
  rd_servers :: db
  rd_probe_setting :: "probe_setting option"
  rd_probe_configs :: "(string \<times> string) list"
  rd_probe_targets :: "target_dto list"
  rd_unlock_services :: "(string \<times> bool) list"
  rd_check_interval_hours :: "int option"

record reconcile_env =
  re_parse_ids :: "string \<Rightarrow> string list option"
  re_presets :: "(string, target_dto) table"

section \<open>Projections\<close>

definition ping_config_for_agent ::
  "reconcile_env \<Rightarrow> string \<Rightarrow> u32 \<Rightarrow> ping_task \<Rightarrow> ping_config option" where
  "ping_config_for_agent en server_id capabilities task =
     (case re_parse_ids en (pt_server_ids_json task) of
        None \<Rightarrow> None
      | Some server_ids \<Rightarrow>
          if server_ids \<noteq> [] \<and> server_id \<notin> set server_ids then None
          else case probe_type_to_cap (pt_probe_type task) of
            None \<Rightarrow> None
          | Some capability \<Rightarrow>
              if \<not> has_capability capabilities capability then None
              else case u32_try_from (pt_interval task) of
                None \<Rightarrow> None
              | Some interval \<Rightarrow> Some \<lparr>pc_task_id = pt_id task, pc_probe_type = pt_probe_type task,
                  pc_target = pt_target task, pc_interval = interval\<rparr>)"

definition ping_configs_for_agent ::
  "reconcile_env \<Rightarrow> ping_task list \<Rightarrow> string \<Rightarrow> u32 \<Rightarrow> ping_config list" where
  "ping_configs_for_agent en tasks server_id capabilities =
     List.map_filter (ping_config_for_agent en server_id capabilities) tasks"

definition network_targets_for_agent :: "target_dto list \<Rightarrow> probe_target list" where
  "network_targets_for_agent targets = map (\<lambda>t. \<lparr>nt_target_id = td_id t, nt_name = td_name t,
     nt_target = td_target t, nt_probe_type = td_probe_type t\<rparr>) targets"

definition ip_quality_interval_hours :: "int \<Rightarrow> app_error + u32" where
  "ip_quality_interval_hours v = ok_or (Internal ''Invalid persisted IP quality setting'') (u32_try_from v)"

section \<open>Reads\<close>

type_synonym 'a read = "(app_error + 'a)"

record reconciler =
  rc_db :: reconcile_db
  rc_am :: agent_manager
  rc_fw :: firewall_service
  rc_sent :: "(channel \<times> desired_message) list"
  rc_faults :: "bool list"

definition rc_read :: "(reconcile_db \<Rightarrow> 'a) \<Rightarrow> reconciler \<Rightarrow> (app_error + 'a) \<times> reconciler" where
  "rc_read f rc =
     (case rc_faults rc of
        [] \<Rightarrow> (Inr (f (rc_db rc)), rc)
      | True # bs \<Rightarrow> (Inl db_error, rc\<lparr>rc_faults := bs\<rparr>)
      | False # bs \<Rightarrow> (Inr (f (rc_db rc)), rc\<lparr>rc_faults := bs\<rparr>))"

definition rc_bind ::
  "(app_error + 'a) \<times> reconciler \<Rightarrow> ('a \<Rightarrow> reconciler \<Rightarrow> (app_error + 'b) \<times> reconciler) \<Rightarrow>
   (app_error + 'b) \<times> reconciler" where
  "rc_bind r k = (case r of (Inl e, rc) \<Rightarrow> (Inl e, rc) | (Inr a, rc) \<Rightarrow> k a rc)"

definition load_ping_tasks :: "reconciler \<Rightarrow> (app_error + ping_task list) \<times> reconciler" where
  "load_ping_tasks = rc_read (\<lambda>d. filter pt_enabled (rd_ping_tasks d))"

definition default_probe_setting :: probe_setting where
  "default_probe_setting = \<lparr>ps_interval = 60, ps_packet_count = 10, ps_default_target_ids = []\<rparr>"

definition get_probe_setting :: "reconciler \<Rightarrow> (app_error + probe_setting) \<times> reconciler" where
  "get_probe_setting =
     rc_read (\<lambda>d. case rd_probe_setting d of Some s \<Rightarrow> s | None \<Rightarrow> default_probe_setting)"

text \<open>\<open>get_server_targets\<close>: presets first, then the rows of the table in one more query.\<close>

definition get_server_targets ::
  "reconcile_env \<Rightarrow> string \<Rightarrow> reconciler \<Rightarrow> (app_error + target_dto list) \<times> reconciler" where
  "get_server_targets en server_id rc =
     rc_bind (rc_read (\<lambda>d. map snd (filter (\<lambda>(s, _). s = server_id) (rd_probe_configs d))) rc)
       (\<lambda>target_ids rc.
          if target_ids = [] then (Inr [], rc)
          else
            let targets = List.map_filter (tget (re_presets en)) target_ids;
                db_ids = filter (\<lambda>i. \<not> thas (re_presets en) i) target_ids
            in if db_ids = [] then (Inr targets, rc)
               else rc_bind (rc_read (\<lambda>d. filter (\<lambda>t. td_id t \<in> set db_ids) (rd_probe_targets d)) rc)
                 (\<lambda>db_targets rc. (Inr (targets @ db_targets), rc)))"

definition load_ip_quality :: "reconciler \<Rightarrow> (app_error + string list \<times> u32) \<times> reconciler" where
  "load_ip_quality rc =
     rc_bind (rc_read (\<lambda>d. map fst (filter snd (rd_unlock_services d))) rc) (\<lambda>services rc.
     rc_bind (rc_read (\<lambda>d. case rd_check_interval_hours d of Some h \<Rightarrow> h | None \<Rightarrow> 12) rc) (\<lambda>hours rc.
       (map_sum id (Pair services) (ip_quality_interval_hours hours), rc)))"

text \<open>\<open>capabilities_for_agent\<close> queries only when the agent has not reported.\<close>

definition rc_capabilities_for_agent :: "string \<Rightarrow> reconciler \<Rightarrow> (app_error + u32) \<times> reconciler" where
  "rc_capabilities_for_agent server_id rc =
     (case get_effective_capabilities server_id (rc_am rc) of
        Some caps \<Rightarrow> (Inr caps, rc)
      | None \<Rightarrow>
          rc_bind (rc_read (\<lambda>d. rd_servers d) rc) (\<lambda>d rc.
            (capabilities_for_agent (Some d) (rc_am rc) server_id, rc)))"

definition capabilities_for_agents ::
  "string list \<Rightarrow> reconciler \<Rightarrow> (app_error + (string \<times> u32) list) \<times> reconciler" where
  "capabilities_for_agents server_ids rc =
     (if server_ids = [] then (Inr [], rc)
      else rc_bind (rc_read (\<lambda>d. rd_servers d) rc) (\<lambda>d rc.
        (Inr (map (\<lambda>s. (s, case capabilities_for_agent (Some d) (rc_am rc) s of
           Inr caps \<Rightarrow> caps | Inl _ \<Rightarrow> CAP_DEFAULT)) server_ids), rc)))"

section \<open>Sending\<close>

definition send_if_online :: "string \<Rightarrow> desired_message \<Rightarrow> reconciler \<Rightarrow> reconciler" where
  "send_if_online server_id message rc =
     (case get_sender server_id (rc_am rc) of
        None \<Rightarrow> rc
      | Some tx \<Rightarrow> rc\<lparr>rc_sent := rc_sent rc @ [(tx, message)]\<rparr>)"

definition send_ping_tasks ::
  "reconcile_env \<Rightarrow> string \<Rightarrow> ping_task list \<Rightarrow> u32 \<Rightarrow> reconciler \<Rightarrow> reconciler" where
  "send_ping_tasks en server_id tasks capabilities =
     send_if_online server_id (PingTasksSync (ping_configs_for_agent en tasks server_id capabilities))"

definition send_network_probes ::
  "reconcile_env \<Rightarrow> string \<Rightarrow> probe_setting \<Rightarrow> reconciler \<Rightarrow> (app_error + unit) \<times> reconciler" where
  "send_network_probes en server_id setting rc =
     rc_bind (get_server_targets en server_id rc) (\<lambda>targets rc.
       (Inr (), send_if_online server_id
          (NetworkProbeSync (network_targets_for_agent targets) (ps_interval setting) (ps_packet_count setting)) rc))"

definition send_ip_quality :: "string \<Rightarrow> reconciler \<Rightarrow> (app_error + unit) \<times> reconciler" where
  "send_ip_quality server_id rc =
     rc_bind (load_ip_quality rc) (\<lambda>(services, hours) rc.
       (Inr (), send_if_online server_id (IpQualitySync services hours) rc))"

definition rc_send_firewall ::
  "'n block_env \<Rightarrow> string \<Rightarrow> reconciler \<Rightarrow> (app_error + unit) \<times> reconciler" where
  "rc_send_firewall bn server_id rc =
     (case send_firewall bn (Some (rd_servers (rc_db rc))) server_id (rc_am rc) (rc_fw rc) of
        (r, fw) \<Rightarrow> (r, rc\<lparr>rc_fw := fw\<rparr>))"

definition reconcile_agent ::
  "reconcile_env \<Rightarrow> 'n block_env \<Rightarrow> string \<Rightarrow> desired_state_domain \<Rightarrow> reconciler \<Rightarrow>
   (app_error + unit) \<times> reconciler" where
  "reconcile_agent en bn server_id domain rc =
     (case domain of
        PingTasks \<Rightarrow>
          rc_bind (load_ping_tasks rc) (\<lambda>tasks rc.
          rc_bind (rc_capabilities_for_agent server_id rc) (\<lambda>capabilities rc.
            (Inr (), send_ping_tasks en server_id tasks capabilities rc)))
      | NetworkProbes \<Rightarrow>
          rc_bind (get_probe_setting rc) (\<lambda>setting rc. send_network_probes en server_id setting rc)
      | IpQuality \<Rightarrow> send_ip_quality server_id rc
      | FirewallDomain \<Rightarrow> rc_send_firewall bn server_id rc)"

text \<open>Every server is tried; the first error is kept.\<close>

fun for_each_server ::
  "(string \<Rightarrow> reconciler \<Rightarrow> (app_error + unit) \<times> reconciler) \<Rightarrow> string list \<Rightarrow> reconciler \<Rightarrow>
   (app_error + unit) \<times> reconciler" where
  "for_each_server f [] rc = (Inr (), rc)"
| "for_each_server f (s # ss) rc =
     (case f s rc of
        (Inr _, rc) \<Rightarrow> for_each_server f ss rc
      | (Inl e, rc) \<Rightarrow> (Inl e, snd (for_each_server f ss rc)))"

definition reconcile_connected_ping_tasks ::
  "reconcile_env \<Rightarrow> reconciler \<Rightarrow> (app_error + unit) \<times> reconciler" where
  "reconcile_connected_ping_tasks en rc =
     (let server_ids = connected_server_ids (rc_am rc) in
      rc_bind (load_ping_tasks rc) (\<lambda>tasks rc.
      rc_bind (capabilities_for_agents server_ids rc) (\<lambda>capabilities rc.
        (Inr (), fold (\<lambda>s. send_ping_tasks en s tasks
           (case map_of capabilities s of Some c \<Rightarrow> c | None \<Rightarrow> CAP_DEFAULT)) server_ids rc))))"

definition reconcile_connected ::
  "reconcile_env \<Rightarrow> 'n block_env \<Rightarrow> desired_state_domain \<Rightarrow> reconciler \<Rightarrow> (app_error + unit) \<times> reconciler" where
  "reconcile_connected en bn domain rc =
     (let server_ids = connected_server_ids (rc_am rc) in
      case domain of
        PingTasks \<Rightarrow> reconcile_connected_ping_tasks en rc
      | NetworkProbes \<Rightarrow>
          rc_bind (get_probe_setting rc) (\<lambda>setting.
            for_each_server (\<lambda>s. send_network_probes en s setting) server_ids)
      | IpQuality \<Rightarrow>
          rc_bind (load_ip_quality rc) (\<lambda>(services, hours) rc.
            (Inr (), fold (\<lambda>s. send_if_online s (IpQualitySync services hours)) server_ids rc))
      | FirewallDomain \<Rightarrow> for_each_server (rc_send_firewall bn) server_ids rc)"

text \<open>All domains of a new connection are tried; the first error is kept.\<close>

definition all_domains :: "desired_state_domain list" where
  "all_domains = [PingTasks, NetworkProbes, IpQuality, FirewallDomain]"

definition reconcile_connection ::
  "reconcile_env \<Rightarrow> 'n block_env \<Rightarrow> string \<Rightarrow> reconciler \<Rightarrow> (app_error + unit) \<times> reconciler" where
  "reconcile_connection en bn server_id rc =
     fold (\<lambda>domain (res, rc).
       case reconcile_agent en bn server_id domain rc of
         (Inr _, rc) \<Rightarrow> (res, rc)
       | (Inl e, rc) \<Rightarrow> ((case res of Inr _ \<Rightarrow> Inl e | Inl e' \<Rightarrow> Inl e'), rc)) all_domains (Inr (), rc)"

end
