(* ===== verification/Reconcile_Order.thy ===== *)
theory Reconcile_Order
  imports Agent_Reconcile
begin

text \<open>
  Interleaving of reconciliations of one provider (\<open>ProviderLocks\<close>, \<open>reconcile_connected\<close> and
  \<open>reconcile_agent\<close> of \<open>crates/server/src/service/agent_reconcile.rs\<close>).  Requests mutate the
  database and then ask for a reconciliation of everyone; an agent connects (its capabilities are seeded
  from the mirror), reports its capabilities, at first and whenever they change, upon which it is
  reconciled, and disconnects.  A
  reconciliation takes the provider's lock, lists the servers, reads the database, reads the
  capabilities of one agent after the other, sends to one agent after the other and releases the
  lock.  All of it interleaves freely.

  Each database state and each agent's capabilities carry a version number, so that the order of
  snapshots can be stated.
\<close>

section \<open>States and steps\<close>

datatype scope = Everyone | One string

text \<open>Capabilities read: the agent, their version, the bits.\<close>

type_synonym caps_entry = "string \<times> nat \<times> u32"

datatype 'd task =
  Idle
| Waiting scope
| Listed "string list"
| Reading nat 'd "caps_entry list" "string list"
| Sending nat 'd "caps_entry list"

text \<open>A message carries the versions of the database and of the capabilities it was made from.\<close>

record ('d, 'm) order_state =
  os_db :: 'd
  os_version :: nat
  os_caps :: "string \<Rightarrow> nat \<times> u32"
  os_connected :: "string set"
  os_reported :: "string set"
  os_tasks :: "nat \<Rightarrow> 'd task"
  os_sent :: "string \<Rightarrow> (nat \<times> nat \<times> 'm) list"
  os_failed :: bool

definition new_caps :: "string \<Rightarrow> u32 \<Rightarrow> ('d, 'm) order_state \<Rightarrow> ('d, 'm) order_state" where
  "new_caps s c st = st\<lparr>os_caps := (os_caps st)(s := (Suc (fst (os_caps st s)), c))\<rparr>"

fun holds_lock :: "'d task \<Rightarrow> bool" where
  "holds_lock (Listed _) = True"
| "holds_lock (Reading _ _ _ _) = True"
| "holds_lock (Sending _ _ _) = True"
| "holds_lock _ = False"

fun lists_servers :: "scope \<Rightarrow> string set \<Rightarrow> string list \<Rightarrow> bool" where
  "lists_servers Everyone conn ids \<longleftrightarrow> set ids = conn \<and> distinct ids"
| "lists_servers (One s) conn ids \<longleftrightarrow> ids = [s]"

inductive order_step ::
  "('d \<Rightarrow> u32 \<Rightarrow> string \<Rightarrow> 'm) \<Rightarrow> ('d, 'm) order_state \<Rightarrow> ('d, 'm) order_state \<Rightarrow> bool"
  for project :: "'d \<Rightarrow> u32 \<Rightarrow> string \<Rightarrow> 'm"
where
  mutate: "os_tasks st t = Idle \<Longrightarrow>
    order_step project st (st\<lparr>os_db := d, os_version := Suc (os_version st),
      os_tasks := (os_tasks st)(t := Waiting Everyone)\<rparr>)"
| connects: "s \<notin> os_connected st \<Longrightarrow>
    order_step project st ((new_caps s c st)\<lparr>os_connected := insert s (os_connected st),
      os_reported := os_reported st - {s}, os_sent := (os_sent st)(s := [])\<rparr>)"
| reports: "os_tasks st t = Idle \<Longrightarrow> s \<in> os_connected st \<Longrightarrow>
    order_step project st ((new_caps s c st)\<lparr>os_reported := insert s (os_reported st),
      os_tasks := (os_tasks st)(t := Waiting (One s))\<rparr>)"
| disconnects: "order_step project st (st\<lparr>os_connected := os_connected st - {s}\<rparr>)"
| lock: "os_tasks st t = Waiting sc \<Longrightarrow> (\<And>t'. \<not> holds_lock (os_tasks st t')) \<Longrightarrow>
    lists_servers sc (os_connected st) ids \<Longrightarrow>
    order_step project st (st\<lparr>os_tasks := (os_tasks st)(t := Listed ids)\<rparr>)"
| read: "os_tasks st t = Listed ids \<Longrightarrow>
    order_step project st (st\<lparr>os_tasks := (os_tasks st)(t := Reading (os_version st) (os_db st) [] ids)\<rparr>)"
| read_fails: "os_tasks st t = Listed ids \<Longrightarrow>
    order_step project st (st\<lparr>os_tasks := (os_tasks st)(t := Idle), os_failed := True\<rparr>)"
| read_caps: "os_tasks st t = Reading v d got (s # ids) \<Longrightarrow>
    order_step project st (st\<lparr>os_tasks := (os_tasks st)(t := Reading v d (got @ [(s, os_caps st s)]) ids)\<rparr>)"
| read_caps_fails: "os_tasks st t = Reading v d got ids \<Longrightarrow>
    order_step project st (st\<lparr>os_tasks := (os_tasks st)(t := Idle), os_failed := True\<rparr>)"
| all_read: "os_tasks st t = Reading v d got [] \<Longrightarrow>
    order_step project st (st\<lparr>os_tasks := (os_tasks st)(t := Sending v d got)\<rparr>)"
| send: "os_tasks st t = Sending v d ((s, k, c) # xs) \<Longrightarrow> s \<in> os_connected st \<Longrightarrow>
    order_step project st (st\<lparr>os_tasks := (os_tasks st)(t := Sending v d xs),
      os_sent := (os_sent st)(s := os_sent st s @ [(v, k, project d c s)])\<rparr>)"
| skip: "os_tasks st t = Sending v d ((s, k, c) # xs) \<Longrightarrow> s \<notin> os_connected st \<Longrightarrow>
    order_step project st (st\<lparr>os_tasks := (os_tasks st)(t := Sending v d xs)\<rparr>)"
| release: "os_tasks st t = Sending v d [] \<Longrightarrow>
    order_step project st (st\<lparr>os_tasks := (os_tasks st)(t := Idle)\<rparr>)"

definition order_start :: "'d \<Rightarrow> ('d, 'm) order_state" where
  "order_start d = \<lparr>os_db = d, os_version = 0, os_caps = (\<lambda>_. (0, 0)), os_connected = {}, os_reported = {},
     os_tasks = (\<lambda>_. Idle), os_sent = (\<lambda>_. []), os_failed = False\<rparr>"

inductive order_reachable :: "('d \<Rightarrow> u32 \<Rightarrow> string \<Rightarrow> 'm) \<Rightarrow> ('d, 'm) order_state \<Rightarrow> bool"
  for project :: "'d \<Rightarrow> u32 \<Rightarrow> string \<Rightarrow> 'm"
where
  start: "order_reachable project (order_start d)"
| step: "order_reachable project st \<Longrightarrow> order_step project st st' \<Longrightarrow> order_reachable project st'"

lemma new_caps_simps [simp]:
  "os_db (new_caps s c st) = os_db st" "os_version (new_caps s c st) = os_version st"
  "os_connected (new_caps s c st) = os_connected st" "os_tasks (new_caps s c st) = os_tasks st"
  "os_reported (new_caps s c st) = os_reported st"
  "os_sent (new_caps s c st) = os_sent st" "os_failed (new_caps s c st) = os_failed st"
  "os_caps (new_caps s c st) = (os_caps st)(s := (Suc (fst (os_caps st s)), c))"
  by (simp_all add: new_caps_def)

section \<open>The invariant\<close>

text \<open>One lock; snapshots and messages no newer than the state; nothing newer than the holder's.\<close>

definition lock_inv :: "('d, 'm) order_state \<Rightarrow> bool" where
  "lock_inv st \<longleftrightarrow>
     (\<forall>t t'. holds_lock (os_tasks st t) \<longrightarrow> holds_lock (os_tasks st t') \<longrightarrow> t = t')"

text \<open>What a task has read, and the agents whose capabilities it has not.\<close>

fun snapshot_of :: "'d task \<Rightarrow> (nat \<times> 'd \<times> caps_entry list \<times> string list) option" where
  "snapshot_of (Reading v d got ids) = Some (v, d, got, ids)"
| "snapshot_of (Sending v d xs) = Some (v, d, xs, [])"
| "snapshot_of _ = None"

definition entry_ok :: "('d, 'm) order_state \<Rightarrow> caps_entry \<Rightarrow> bool" where
  "entry_ok st = (\<lambda>(s, k, c). k \<le> fst (os_caps st s) \<and> (k = fst (os_caps st s) \<longrightarrow> c = snd (os_caps st s)) \<and>
     (\<forall>x \<in> set (os_sent st s). fst (snd x) \<le> k))"

definition snapshot_ok :: "('d, 'm) order_state \<Rightarrow> nat \<times> 'd \<times> caps_entry list \<times> string list \<Rightarrow> bool" where
  "snapshot_ok st = (\<lambda>(v, d, xs, ids).
     v \<le> os_version st \<and> (v = os_version st \<longrightarrow> d = os_db st) \<and>
     (\<forall>s. \<forall>x \<in> set (os_sent st s). fst x \<le> v) \<and> (\<forall>e \<in> set xs. entry_ok st e) \<and> distinct (map fst xs @ ids))"

definition snapshot_inv :: "('d, 'm) order_state \<Rightarrow> bool" where
  "snapshot_inv st \<longleftrightarrow>
     (\<forall>t. (\<forall>p. snapshot_of (os_tasks st t) = Some p \<longrightarrow> snapshot_ok st p) \<and>
        (\<forall>ids. os_tasks st t = Listed ids \<longrightarrow> distinct ids))"

definition sent_inv :: "('d \<Rightarrow> u32 \<Rightarrow> string \<Rightarrow> 'm) \<Rightarrow> ('d, 'm) order_state \<Rightarrow> bool" where
  "sent_inv project st \<longleftrightarrow>
     (\<forall>s. sorted (map fst (os_sent st s)) \<and> sorted (map (fst \<circ> snd) (os_sent st s)) \<and>
        (\<forall>x \<in> set (os_sent st s). fst x \<le> os_version st \<and> fst (snd x) \<le> fst (os_caps st s) \<and>
           (fst x = os_version st \<longrightarrow> fst (snd x) = fst (os_caps st s) \<longrightarrow>
            snd (snd x) = project (os_db st) (snd (os_caps st s)) s)))"

fun will_reach :: "nat \<Rightarrow> nat \<Rightarrow> string \<Rightarrow> 'd task \<Rightarrow> bool" where
  "will_reach cur k s Idle = False"
| "will_reach cur k s (Waiting Everyone) = True"
| "will_reach cur k s (Waiting (One s')) \<longleftrightarrow> s' = s"
| "will_reach cur k s (Listed ids) \<longleftrightarrow> s \<in> set ids"
| "will_reach cur k s (Reading v d got ids) \<longleftrightarrow> v = cur \<and> (s \<in> set ids \<or> (\<exists>c. (s, k, c) \<in> set got))"
| "will_reach cur k s (Sending v d xs) \<longleftrightarrow> v = cur \<and> (\<exists>c. (s, k, c) \<in> set xs)"

definition reached :: "('d, 'm) order_state \<Rightarrow> string \<Rightarrow> bool" where
  "reached st s \<longleftrightarrow> (\<exists>t. will_reach (os_version st) (fst (os_caps st s)) s (os_tasks st t))"

definition up_to_date :: "('d, 'm) order_state \<Rightarrow> string \<Rightarrow> bool" where
  "up_to_date st s \<longleftrightarrow> os_sent st s \<noteq> [] \<and> fst (last (os_sent st s)) = os_version st \<and>
     fst (snd (last (os_sent st s))) = fst (os_caps st s)"

definition delivery_inv :: "('d, 'm) order_state \<Rightarrow> bool" where
  "delivery_inv st \<longleftrightarrow>
     os_failed st \<or> (\<forall>s \<in> os_connected st \<inter> os_reported st. up_to_date st s \<or> reached st s)"

lemma reachedI: "will_reach (os_version st) (fst (os_caps st s)) s (os_tasks st t) \<Longrightarrow> reached st s"
  by (auto simp: reached_def)

lemma snapshotD: "snapshot_inv st \<Longrightarrow> snapshot_of (os_tasks st t) = Some p \<Longrightarrow> snapshot_ok st p"
  unfolding snapshot_inv_def by blast

text \<open>A step of one task that leaves the rest alone delivers no less than before.\<close>

lemma delivery_moved:
  assumes "delivery_inv st" and "st' = st\<lparr>os_tasks := (os_tasks st)(t := new)\<rparr>"
    and "\<And>s. s \<in> os_connected st \<Longrightarrow> will_reach (os_version st) (fst (os_caps st s)) s (os_tasks st t) \<Longrightarrow>
      will_reach (os_version st) (fst (os_caps st s)) s new"
  shows "delivery_inv st'"
proof -
  have "reached st' s" if "reached st s" "s \<in> os_connected st" for s
  proof -
    from that(1) obtain u where u: "will_reach (os_version st) (fst (os_caps st s)) s (os_tasks st u)"
      by (auto simp: reached_def)
    have "will_reach (os_version st') (fst (os_caps st' s)) s (os_tasks st' u)"
      using u assms(3) [OF that(2)] by (cases "u = t") (simp_all add: assms(2))
    then show ?thesis by (rule reachedI)
  qed
  moreover have "up_to_date st' s = up_to_date st s" for s by (simp add: assms(2) up_to_date_def)
  ultimately show ?thesis using assms(1,2) by (auto simp: delivery_inv_def)
qed

lemma delivery_step:
  assumes "order_step project st st'" and "delivery_inv st" and "snapshot_inv st"
  shows "delivery_inv st'"
  using assms(1)
proof (cases rule: order_step.cases)
  case (mutate t d)
  have "reached st' s" for s by (rule reachedI [of _ _ t]) (simp add: mutate)
  then show ?thesis by (simp add: delivery_inv_def)
next
  case (connects s c)
  have "up_to_date st' x \<or> reached st' x" if "x \<in> os_connected st' \<inter> os_reported st'" "\<not> os_failed st" for x
    using that assms(2) connects by (auto simp: delivery_inv_def up_to_date_def reached_def)
  then show ?thesis using connects by (auto simp: delivery_inv_def)
next
  case (reports t s c)
  have "up_to_date st' x \<or> reached st' x" if x: "x \<in> os_connected st' \<inter> os_reported st'" "\<not> os_failed st" for x
  proof (cases "x = s")
    case True
    then have "reached st' x" by (intro reachedI [of _ _ t]) (simp add: reports)
    then show ?thesis by simp
  next
    case False
    with x assms(2) reports consider "up_to_date st x" | "reached st x" by (auto simp: delivery_inv_def)
    then show ?thesis
    proof cases
      case 1
      with False reports(1) show ?thesis by (simp add: up_to_date_def)
    next
      case 2
      then obtain u where u: "will_reach (os_version st) (fst (os_caps st x)) x (os_tasks st u)"
        by (auto simp: reached_def)
      with reports(2) have "u \<noteq> t" by auto
      with u False reports(1) have "reached st' x" by (intro reachedI [of _ _ u]) simp
      then show ?thesis by simp
    qed
  qed
  then show ?thesis using reports by (auto simp: delivery_inv_def)
next
  case (disconnects s)
  then show ?thesis using assms(2) by (auto simp: delivery_inv_def up_to_date_def reached_def)
next
  case (lock t sc ids)
  have "will_reach cur k s (Listed ids)"
    if "will_reach cur k s (Waiting sc)" "s \<in> os_connected st" for cur k s
    using that lock(4) by (cases sc) auto
  with lock(2) show ?thesis by (intro delivery_moved [OF assms(2) lock(1)]) auto
next
  case (read t ids)
  then show ?thesis by (intro delivery_moved [OF assms(2) read(1)]) auto
next
  case (read_fails t ids)
  then show ?thesis by (simp add: delivery_inv_def)
next
  case (read_caps t v d got s ids)
  then show ?thesis by (intro delivery_moved [OF assms(2) read_caps(1)]) (auto simp: prod_eq_iff)
next
  case (read_caps_fails t v d got ids)
  then show ?thesis by (simp add: delivery_inv_def)
next
  case (all_read t v d got)
  then show ?thesis by (intro delivery_moved [OF assms(2) all_read(1)]) auto
next
  case (send t v d s k c xs)
  have snap: "snapshot_ok st (v, d, (s, k, c) # xs, [])" using snapshotD [OF assms(3), of t] send(2) by simp
  then have v: "v \<le> os_version st" "\<And>x y. y \<in> set (os_sent st x) \<Longrightarrow> fst y \<le> v"
    and k: "k \<le> fst (os_caps st s)" "\<And>y. y \<in> set (os_sent st s) \<Longrightarrow> fst (snd y) \<le> k"
    by (auto simp: snapshot_ok_def entry_ok_def)
  have now: "up_to_date st' s" if "v = os_version st" "k = fst (os_caps st s)"
    using send(1) that by (simp add: up_to_date_def)
  have "up_to_date st' x" if "up_to_date st x" for x
  proof (cases "x = s")
    case True
    with that have "last (os_sent st s) \<in> set (os_sent st s)" "fst (last (os_sent st s)) = os_version st"
      "fst (snd (last (os_sent st s))) = fst (os_caps st s)" by (auto simp: up_to_date_def)
    with v k True now show ?thesis by (metis le_antisym)
  next
    case False
    with that send(1) show ?thesis by (simp add: up_to_date_def)
  qed
  moreover have "up_to_date st' x \<or> reached st' x" if "reached st x" for x
  proof -
    from that obtain u where u: "will_reach (os_version st) (fst (os_caps st x)) x (os_tasks st u)"
      by (auto simp: reached_def)
    show ?thesis
    proof (cases "u = t \<and> x = s \<and> v = os_version st \<and> k = fst (os_caps st s)")
      case True
      then show ?thesis using now by simp
    next
      case False
      have "will_reach (os_version st') (fst (os_caps st' x)) x (os_tasks st' u)"
        using False u send(1,2) by (cases "u = t") auto
      then show ?thesis using reachedI by blast
    qed
  qed
  ultimately show ?thesis using assms(2) send(1) by (auto simp: delivery_inv_def)
next
  case (skip t v d s k c xs)
  then show ?thesis by (intro delivery_moved [OF assms(2) skip(1)]) auto
next
  case (release t v d)
  then show ?thesis by (intro delivery_moved [OF assms(2) release(1)]) auto
qed

lemma lock_inv_moved:
  "lock_inv st \<Longrightarrow> holds_lock (os_tasks st t) \<or> \<not> holds_lock new \<Longrightarrow>
   lock_inv (st\<lparr>os_tasks := (os_tasks st)(t := new)\<rparr>)"
  by (auto simp: lock_inv_def)

lemma lock_inv_cong: "os_tasks st' = os_tasks st \<Longrightarrow> lock_inv st' = lock_inv st"
  by (simp add: lock_inv_def)

lemma lock_step:
  assumes "order_step project st st'" and "lock_inv st"
  shows "lock_inv st'"
proof -
  have moved: ?thesis if "os_tasks st' = (os_tasks st)(t := new)" "holds_lock (os_tasks st t) \<or> \<not> holds_lock new" for t new
    using lock_inv_moved [OF assms(2) that(2)] that(1) lock_inv_cong [of st' "st\<lparr>os_tasks := (os_tasks st)(t := new)\<rparr>"]
    by simp
  show ?thesis
    using assms(1)
  proof (cases rule: order_step.cases)
    case (lock t sc ids)
    then show ?thesis by (auto simp: lock_inv_def)
  next
    case (connects s c)
    with assms(2) show ?thesis by (simp add: lock_inv_def)
  next
    case (disconnects s)
    with assms(2) show ?thesis by (simp add: lock_inv_def)
  qed (rule moved, simp, simp)+
qed

lemma lock_alone: "lock_inv st \<Longrightarrow> holds_lock (os_tasks st t) \<Longrightarrow> holds_lock (os_tasks st t') \<Longrightarrow> t' = t"
  unfolding lock_inv_def by blast

lemma snapshot_holds: "snapshot_of x = Some p \<Longrightarrow> holds_lock x"
  by (cases x) auto

text \<open>A task that moves while it holds the lock, or without having read, keeps the snapshots.\<close>

lemma snapshot_moved:
  assumes "snapshot_inv st" and "st' = st\<lparr>os_tasks := (os_tasks st)(t := new)\<rparr>"
    and "\<And>p. snapshot_of new = Some p \<Longrightarrow> snapshot_ok st p" and "\<And>ids. new = Listed ids \<Longrightarrow> distinct ids"
  shows "snapshot_inv st'"
proof -
  have "snapshot_ok st' p = snapshot_ok st p" for p
    by (cases p) (simp add: assms(2) snapshot_ok_def entry_ok_def)
  with assms show ?thesis by (auto simp: snapshot_inv_def split: if_splits)
qed

lemma snapshot_idle:
  assumes "snapshot_inv st" and "st' = st\<lparr>os_tasks := (os_tasks st)(t := Idle), os_failed := b\<rparr>"
  shows "snapshot_inv st'"
proof -
  have "snapshot_ok st' p = snapshot_ok st p" for p
    by (cases p) (simp add: assms(2) snapshot_ok_def entry_ok_def)
  with assms show ?thesis by (auto simp: snapshot_inv_def split: if_splits)
qed

lemma snapshot_kept:
  assumes "snapshot_inv st" and "\<And>p. snapshot_ok st p \<Longrightarrow> snapshot_ok st' p"
    and "\<And>u. os_tasks st' u = os_tasks st u \<or> (\<exists>sc. os_tasks st' u = Waiting sc)"
  shows "snapshot_inv st'"
  unfolding snapshot_inv_def
proof (intro allI conjI impI)
  fix u p assume "snapshot_of (os_tasks st' u) = Some p"
  with assms(3) [of u] have "snapshot_of (os_tasks st u) = Some p" by auto
  then show "snapshot_ok st' p" by (intro assms(2) snapshotD [OF assms(1)])
next
  fix u ids assume "os_tasks st' u = Listed ids"
  with assms(3) [of u] have "os_tasks st u = Listed ids" by auto
  with assms(1) show "distinct ids" by (simp add: snapshot_inv_def)
qed

lemma snapshot_ok_caps:
  assumes "snapshot_ok st p" and "os_db st' = os_db st" "os_version st' = os_version st"
    and "os_caps st' = (os_caps st)(s := (Suc (fst (os_caps st s)), c))"
    and "\<And>x. os_sent st' x = os_sent st x \<or> os_sent st' x = []"
  shows "snapshot_ok st' p"
proof -
  have sent: "y \<in> set (os_sent st x)" if "y \<in> set (os_sent st' x)" for x y using assms(5) [of x] that by auto
  obtain v d xs ids where p: "p = (v, d, xs, ids)" by (cases p)
  have "entry_ok st' e" if "entry_ok st e" for e
    using that sent by (cases e) (auto simp: entry_ok_def assms(4))
  moreover have "fst y \<le> v" if "y \<in> set (os_sent st' x)" for x y
    using sent [OF that] assms(1) by (auto simp: snapshot_ok_def p)
  ultimately show ?thesis using assms(1-3) by (simp add: snapshot_ok_def p)
qed

lemma snapshot_step:
  assumes "order_step project st st'" and "lock_inv st" and "sent_inv project st" and inv: "snapshot_inv st"
  shows "snapshot_inv st'"
  using assms(1)
proof (cases rule: order_step.cases)
  case (mutate t d)
  then show ?thesis
    by (intro snapshot_kept [OF inv]) (auto simp: snapshot_ok_def entry_ok_def)
next
  case (connects s c)
  have "snapshot_ok st' p" if "snapshot_ok st p" for p
    by (rule snapshot_ok_caps [OF that, where s = s and c = c]) (simp_all add: connects(1))
  then show ?thesis by (rule snapshot_kept [OF inv]) (simp_all add: connects(1))
next
  case (reports t s c)
  have "snapshot_ok st' p" if "snapshot_ok st p" for p
    by (rule snapshot_ok_caps [OF that, where s = s and c = c]) (simp_all add: reports(1))
  then show ?thesis by (rule snapshot_kept [OF inv]) (simp_all add: reports(1))
next
  case (disconnects s)
  then show ?thesis by (intro snapshot_kept [OF inv]) (auto simp: snapshot_ok_def entry_ok_def)
next
  case (lock t sc ids)
  have "distinct ids" using lock(4) by (cases sc) auto
  then show ?thesis by (intro snapshot_moved [OF inv lock(1)]) simp_all
next
  case (read t ids)
  have "distinct ids" using inv read(2) by (simp add: snapshot_inv_def)
  with assms(3) show ?thesis
    by (intro snapshot_moved [OF inv read(1)]) (auto simp: snapshot_ok_def sent_inv_def)
next
  case (read_fails t ids)
  show ?thesis by (rule snapshot_idle [OF inv read_fails(1)])
next
  case (read_caps t v d got s ids)
  have old: "snapshot_ok st (v, d, got, s # ids)" using snapshotD [OF inv, of t] read_caps(2) by simp
  have "fst (snd x) \<le> fst (os_caps st s)" if "x \<in> set (os_sent st s)" for x
    using assms(3) that by (simp add: sent_inv_def)
  then have "entry_ok st (s, os_caps st s)" by (simp add: entry_ok_def case_prod_beta)
  with old have "snapshot_ok st (v, d, got @ [(s, os_caps st s)], ids)" by (auto simp: snapshot_ok_def)
  then show ?thesis by (intro snapshot_moved [OF inv read_caps(1)]) simp_all
next
  case (read_caps_fails t v d got ids)
  show ?thesis by (rule snapshot_idle [OF inv read_caps_fails(1)])
next
  case (all_read t v d got)
  have "snapshot_ok st (v, d, got, [])" using snapshotD [OF inv, of t] all_read(2) by simp
  then show ?thesis by (intro snapshot_moved [OF inv all_read(1)]) auto
next
  case (send t v d s k c xs)
  have mine: "snapshot_ok st (v, d, (s, k, c) # xs, [])" using snapshotD [OF inv, of t] send(2) by simp
  have "entry_ok st' e" if "e \<in> set xs" for e
  proof -
    obtain s' k' c' where e: "e = (s', k', c')" by (cases e) auto
    with mine that have "s' \<noteq> s" by (force simp: snapshot_ok_def)
    with mine that send(1) show ?thesis by (auto simp: snapshot_ok_def entry_ok_def e)
  qed
  then have new: "snapshot_ok st' (v, d, xs, [])"
    using mine send(1) by (auto simp: snapshot_ok_def)
  show ?thesis
    unfolding snapshot_inv_def
  proof (intro allI conjI impI)
    fix u p assume p: "snapshot_of (os_tasks st' u) = Some p"
    have "u = t"
    proof (rule ccontr)
      assume "u \<noteq> t"
      with p send(1) have "holds_lock (os_tasks st u)" by (auto dest: snapshot_holds)
      with lock_alone [OF assms(2), of t u] send(2) \<open>u \<noteq> t\<close> show False by simp
    qed
    with p send(1) new show "snapshot_ok st' p" by simp
  next
    fix u ids assume "os_tasks st' u = Listed ids"
    with send(1) inv show "distinct ids" by (auto simp: snapshot_inv_def split: if_splits)
  qed
next
  case (skip t v d s k c xs)
  have "snapshot_ok st (v, d, (s, k, c) # xs, [])" using snapshotD [OF inv, of t] skip(2) by simp
  then show ?thesis by (intro snapshot_moved [OF inv skip(1)]) (auto simp: snapshot_ok_def)
next
  case (release t v d)
  then show ?thesis by (intro snapshot_moved [OF inv release(1)]) auto
qed

lemma sent_step:
  assumes "order_step project st st'" and "snapshot_inv st" and inv: "sent_inv project st"
  shows "sent_inv project st'"
  using assms(1)
proof (cases rule: order_step.cases)
  case (mutate t d)
  with inv show ?thesis by (fastforce simp: sent_inv_def)
next
  case (connects s c)
  with inv show ?thesis by (auto simp: sent_inv_def)
next
  case (reports t s c)
  with inv show ?thesis by (fastforce simp: sent_inv_def)
next
  case (send t v d s k c xs)
  have "snapshot_ok st (v, d, (s, k, c) # xs, [])" using snapshotD [OF assms(2), of t] send(2) by simp
  with inv send(1) show ?thesis
    by (auto simp: sent_inv_def snapshot_ok_def entry_ok_def sorted_append)
qed (use inv in \<open>auto simp: sent_inv_def\<close>)

lemma order_reachable_inv:
  "order_reachable project st \<Longrightarrow> lock_inv st \<and> snapshot_inv st \<and> sent_inv project st \<and> delivery_inv st"
proof (induction rule: order_reachable.induct)
  case (start d)
  then show ?case
    by (simp add: order_start_def lock_inv_def snapshot_inv_def sent_inv_def delivery_inv_def)
next
  case (step st st')
  then show ?case using lock_step snapshot_step sent_step delivery_step by metis
qed

section \<open>What agents end up with\<close>

text \<open>The ping tasks an agent is sent for a state of the database and its capabilities.\<close>

definition ping_projection ::
  "reconcile_env \<Rightarrow> reconcile_db \<Rightarrow> u32 \<Rightarrow> string \<Rightarrow> desired_message" where
  "ping_projection en d caps server_id =
     PingTasksSync (ping_configs_for_agent en (filter pt_enabled (rd_ping_tasks d)) server_id caps)"

text \<open>
  Claim C17: reconciliation of the ping tasks converges and never goes back.  Under any interleaving of
  mutations, connections, reports of capabilities, disconnections and reconciliations, the database states and the
  capabilities behind the messages sent over one connection never
  get older; and once every reconciliation has finished and no read has failed, the last message
  every connected agent that reported its capabilities received is the one for the current database and
  its current capabilities.
\<close>

theorem reconciliation_converges:
  assumes "order_reachable (ping_projection en) st"
  shows "sorted (map fst (os_sent st s)) \<and> sorted (map (fst \<circ> snd) (os_sent st s)) \<and>
    ((\<forall>t. os_tasks st t = Idle) \<longrightarrow> \<not> os_failed st \<longrightarrow> s \<in> os_connected st \<longrightarrow> s \<in> os_reported st \<longrightarrow>
       os_sent st s \<noteq> [] \<and>
       snd (snd (last (os_sent st s))) = ping_projection en (os_db st) (snd (os_caps st s)) s)"
proof (intro conjI impI)
  note inv = order_reachable_inv [OF assms]
  show "sorted (map fst (os_sent st s))" "sorted (map (fst \<circ> snd) (os_sent st s))"
    using inv by (auto simp: sent_inv_def)
  assume idle: "\<forall>t. os_tasks st t = Idle" and ok: "\<not> os_failed st" and s: "s \<in> os_connected st" "s \<in> os_reported st"
  have now: "up_to_date st s" using inv idle ok s by (auto simp: delivery_inv_def reached_def)
  then show "os_sent st s \<noteq> []" by (simp add: up_to_date_def)
  from now have "last (os_sent st s) \<in> set (os_sent st s)" "fst (last (os_sent st s)) = os_version st"
    "fst (snd (last (os_sent st s))) = fst (os_caps st s)"
    by (auto simp: up_to_date_def)
  with inv show "snd (snd (last (os_sent st s))) = ping_projection en (os_db st) (snd (os_caps st s)) s"
    unfolding sent_inv_def by blast
qed

text \<open>
  An agent connects and reports; a task is added; the reconciliation of the report has read the old
  database when the capabilities change; both further reconciliations follow.
\<close>

definition demo_ping_db :: reconcile_db where
  "demo_ping_db = \<lparr>rd_ping_tasks = [\<lparr>pt_id = ''p'', pt_probe_type = ''tcp'', pt_target = ''host:80'',
     pt_interval = 30, pt_server_ids_json = [], pt_enabled = True\<rparr>],
     rd_servers = \<lparr>db_servers = [], db_offers = [], db_events = []\<rparr>, rd_probe_setting = None,
     rd_probe_configs = [], rd_probe_targets = [], rd_unlock_services = [], rd_check_interval_hours = None\<rparr>"

definition demo_reconcile_env :: reconcile_env where
  "demo_reconcile_env = \<lparr>re_parse_ids = (\<lambda>_. Some []), re_presets = []\<rparr>"

theorem reconciliation_converges_witness:
  "\<exists>st :: (reconcile_db, desired_message) order_state. os_connected st = {''s''} \<and> snd (os_caps st ''s'') = CAP_PING_TCP \<and>
     snd (snd (last (os_sent st ''s''))) = PingTasksSync [\<lparr>pc_task_id = ''p'', pc_probe_type = ''tcp'',
       pc_target = ''host:80'', pc_interval = 30\<rparr>]"
proof -
  let ?P = "ping_projection demo_reconcile_env"
  let ?d0 = "demo_ping_db\<lparr>rd_ping_tasks := []\<rparr>" and ?d = demo_ping_db
  let ?n = "(1, 2, ?P ?d 0 ''s'')" and ?m = "(1, 3, ?P ?d CAP_PING_TCP ''s'')"
  let ?st = "\<lambda>d v k c rep (a :: reconcile_db task) b sent. \<lparr>os_db = d, os_version = v, os_caps = (\<lambda>_. (0, 0))(''s'' := (k, c)),
    os_connected = {''s''}, os_reported = rep,
    os_tasks = (\<lambda>_. Idle)(5 := a, 6 := b), os_sent = (\<lambda>_. [])(''s'' := sent), os_failed = False\<rparr>"
  have upd: "(f :: nat \<Rightarrow> reconcile_db task)(5 := a, 6 := b, 5 := a') = f(5 := a', 6 := b)" for f a b a'
    by (simp add: fun_upd_twist)
  have idle: "(\<lambda>_. Idle :: reconcile_db task)(5 := Idle, 6 := Idle) = (\<lambda>_. Idle)"
    and none: "(\<lambda>_. [])(''s'' := []) = (\<lambda>_. [])" by auto
  note go = order_reachable.step
  have free: "\<not> holds_lock (os_tasks (?st d v k c rep (Waiting sc) b sent) t)" if "\<not> holds_lock b" for d v k c rep sc b sent t
    using that by simp
  have "order_reachable ?P (?st ?d0 0 1 0 {} Idle Idle [])"
    using go [OF order_reachable.start order_step.connects [where st = "order_start ?d0" and s = "''s''" and c = 0]]
    by (simp add: order_start_def new_caps_def idle)
  from go [OF this order_step.reports [where t = 5 and s = "''s''" and c = 0]]
  have "order_reachable ?P (?st ?d0 0 2 0 {''s''} (Waiting (One ''s'')) Idle [])"
    by (simp add: new_caps_def upd numeral_2_eq_2)
  from go [OF this order_step.mutate [where t = 6 and d = ?d]]
  have "order_reachable ?P (?st ?d 1 2 0 {''s''} (Waiting (One ''s'')) (Waiting Everyone) [])" by simp
  from go [OF this order_step.lock [where t = 6 and sc = Everyone and ids = "[''s'']", OF _ free]]
  have "order_reachable ?P (?st ?d 1 2 0 {''s''} (Waiting (One ''s'')) (Listed [''s'']) [])" by simp
  from go [OF this order_step.read [where t = 6 and ids = "[''s'']"]]
  have "order_reachable ?P (?st ?d 1 2 0 {''s''} (Waiting (One ''s'')) (Reading 1 ?d [] [''s'']) [])" by simp
  from go [OF this order_step.read_caps [where t = 6 and v = 1 and d = ?d and got = "[]" and s = "''s''" and ids = "[]"]]
  have "order_reachable ?P (?st ?d 1 2 0 {''s''} (Waiting (One ''s'')) (Reading 1 ?d [(''s'', 2, 0)] []) [])" by simp
  from go [OF this order_step.all_read [where t = 6 and v = 1 and d = ?d and got = "[(''s'', 2, 0)]"]]
  have "order_reachable ?P (?st ?d 1 2 0 {''s''} (Waiting (One ''s'')) (Sending 1 ?d [(''s'', 2, 0)]) [])" by simp
  from go [OF this order_step.send [where t = 6 and v = 1 and d = ?d and s = "''s''" and k = 2 and c = 0 and xs = "[]"]]
  have "order_reachable ?P (?st ?d 1 2 0 {''s''} (Waiting (One ''s'')) (Sending 1 ?d []) [?n])" by simp
  from go [OF this order_step.release [where t = 6 and v = 1 and d = ?d]]
  have "order_reachable ?P (?st ?d 1 2 0 {''s''} (Waiting (One ''s'')) Idle [?n])" by simp
  from go [OF this order_step.reports [where t = 6 and s = "''s''" and c = CAP_PING_TCP]]
  have "order_reachable ?P (?st ?d 1 3 CAP_PING_TCP {''s''} (Waiting (One ''s'')) (Waiting (One ''s'')) [?n])"
    by (simp add: new_caps_def numeral_3_eq_3 numeral_2_eq_2)
  from go [OF this order_step.lock [where t = 5 and sc = "One ''s''" and ids = "[''s'']", OF _ free]]
  have "order_reachable ?P (?st ?d 1 3 CAP_PING_TCP {''s''} (Listed [''s'']) (Waiting (One ''s'')) [?n])" by (simp add: upd)
  from go [OF this order_step.read [where t = 5 and ids = "[''s'']"]]
  have "order_reachable ?P (?st ?d 1 3 CAP_PING_TCP {''s''} (Reading 1 ?d [] [''s'']) (Waiting (One ''s'')) [?n])" by (simp add: upd)
  from go [OF this order_step.read_caps [where t = 5 and v = 1 and d = ?d and got = "[]" and s = "''s''" and ids = "[]"]]
  have "order_reachable ?P (?st ?d 1 3 CAP_PING_TCP {''s''} (Reading 1 ?d [(''s'', 3, CAP_PING_TCP)] []) (Waiting (One ''s'')) [?n])"
    by (simp add: upd)
  from go [OF this order_step.all_read [where t = 5 and v = 1 and d = ?d and got = "[(''s'', 3, CAP_PING_TCP)]"]]
  have "order_reachable ?P (?st ?d 1 3 CAP_PING_TCP {''s''} (Sending 1 ?d [(''s'', 3, CAP_PING_TCP)]) (Waiting (One ''s'')) [?n])"
    by (simp add: upd)
  from go [OF this order_step.send [where t = 5 and v = 1 and d = ?d and s = "''s''" and k = 3 and c = CAP_PING_TCP and xs = "[]"]]
  have "order_reachable ?P (?st ?d 1 3 CAP_PING_TCP {''s''} (Sending 1 ?d []) (Waiting (One ''s'')) [?n, ?m])" by (simp add: upd)
  from go [OF this order_step.release [where t = 5 and v = 1 and d = ?d]]
  have "order_reachable ?P (?st ?d 1 3 CAP_PING_TCP {''s''} Idle (Waiting (One ''s'')) [?n, ?m])" by (simp add: upd)
  from go [OF this order_step.lock [where t = 6 and sc = "One ''s''" and ids = "[''s'']"]]
  have "order_reachable ?P (?st ?d 1 3 CAP_PING_TCP {''s''} Idle (Listed [''s'']) [?n, ?m])" by simp
  from go [OF this order_step.read [where t = 6 and ids = "[''s'']"]]
  have "order_reachable ?P (?st ?d 1 3 CAP_PING_TCP {''s''} Idle (Reading 1 ?d [] [''s'']) [?n, ?m])" by simp
  from go [OF this order_step.read_caps [where t = 6 and v = 1 and d = ?d and got = "[]" and s = "''s''" and ids = "[]"]]
  have "order_reachable ?P (?st ?d 1 3 CAP_PING_TCP {''s''} Idle (Reading 1 ?d [(''s'', 3, CAP_PING_TCP)] []) [?n, ?m])" by simp
  from go [OF this order_step.all_read [where t = 6 and v = 1 and d = ?d and got = "[(''s'', 3, CAP_PING_TCP)]"]]
  have "order_reachable ?P (?st ?d 1 3 CAP_PING_TCP {''s''} Idle (Sending 1 ?d [(''s'', 3, CAP_PING_TCP)]) [?n, ?m])" by simp
  from go [OF this order_step.send [where t = 6 and v = 1 and d = ?d and s = "''s''" and k = 3 and c = CAP_PING_TCP and xs = "[]"]]
  have "order_reachable ?P (?st ?d 1 3 CAP_PING_TCP {''s''} Idle (Sending 1 ?d []) [?n, ?m, ?m])" by simp
  from go [OF this order_step.release [where t = 6 and v = 1 and d = ?d]]
  have "order_reachable ?P (?st ?d 1 3 CAP_PING_TCP {''s''} Idle Idle [?n, ?m, ?m])" by simp
  from reconciliation_converges [OF this, of "''s''"]
  have "snd (snd (last (os_sent (?st ?d 1 3 CAP_PING_TCP {''s''} Idle Idle [?n, ?m, ?m]) ''s''))) = ?P ?d CAP_PING_TCP ''s''" by simp
  moreover have "?P ?d CAP_PING_TCP ''s'' = PingTasksSync [\<lparr>pc_task_id = ''p'', pc_probe_type = ''tcp'',
       pc_target = ''host:80'', pc_interval = 30\<rparr>]" by code_simp
  ultimately show ?thesis by (intro exI [of _ "?st ?d 1 3 CAP_PING_TCP {''s''} Idle Idle [?n, ?m, ?m]"]) simp
qed

end
