(* ===== verification/Transactions.thy ===== *)
theory Transactions
  imports App_Error
begin

text \<open>
  Database transactions that may fail, shared by the services that keep their state in tables.  A
  transaction is a function on the tables and a list of faults, of which each statement takes one
  (\<open>True\<close>: it fails, and so does the transaction; the empty list has no faults).  When it fails the tables stay as they
  were.  What succeeds does what it does without faults (\<open>fault_blind\<close>), so proofs about
  successful transactions are about plain functions of the tables.
\<close>

section \<open>Transactions\<close>

type_synonym ('d, 'a) tx = "'d \<times> bool list \<Rightarrow> (app_error + 'a) \<times> 'd \<times> bool list"

definition tx_return :: "'a \<Rightarrow> ('d, 'a) tx" where
  "tx_return x = (\<lambda>(db, fs). (Inr x, db, fs))"

definition tx_fail :: "app_error \<Rightarrow> ('d, 'a) tx" where
  "tx_fail e = (\<lambda>(db, fs). (Inl e, db, fs))"

text \<open>One statement: its answer and the tables after it, if it does not fail.\<close>

definition tx_statement :: "('d \<Rightarrow> 'a \<times> 'd) \<Rightarrow> ('d, 'a) tx" where
  "tx_statement f = (\<lambda>(db, fs).
     (case fs of
        [] \<Rightarrow> (Inr (fst (f db)), snd (f db), [])
      | b # bs \<Rightarrow> if b then (Inl db_error, db, bs) else (Inr (fst (f db)), snd (f db), bs)))"

definition tx_query :: "('d \<Rightarrow> 'a) \<Rightarrow> ('d, 'a) tx" where
  "tx_query f = tx_statement (\<lambda>db. (f db, db))"

definition tx_exec :: "('d \<Rightarrow> 'd) \<Rightarrow> ('d, unit) tx" where
  "tx_exec f = tx_statement (\<lambda>db. ((), f db))"

definition tx_bind :: "('d, 'a) tx \<Rightarrow> ('a \<Rightarrow> ('d, 'b) tx) \<Rightarrow> ('d, 'b) tx" where
  "tx_bind m f = (\<lambda>s. case m s of (Inl e, s) \<Rightarrow> (Inl e, s) | (Inr x, s) \<Rightarrow> f x s)"

text \<open>\<open>db.begin()\<close>, the body, \<open>txn.commit()\<close>; an error on the way rolls back.\<close>

definition run_tx :: "('d, 'a) tx \<Rightarrow> ('d, 'a) tx" where
  "run_tx m = (\<lambda>(db, fs).
     (case tx_bind (tx_query (\<lambda>_. ())) (\<lambda>_. tx_bind m (\<lambda>x. tx_query (\<lambda>_. x))) (db, fs) of
        (Inl e, _, fs) \<Rightarrow> (Inl e, db, fs)
      | (Inr x, s) \<Rightarrow> (Inr x, s)))"

text \<open>A transaction that succeeds does what it does when nothing fails.\<close>

definition fault_blind :: "('d, 'a) tx \<Rightarrow> bool" where
  "fault_blind m \<longleftrightarrow>
     (\<forall>db fs x db' fs'. m (db, fs) = (Inr x, db', fs') \<longrightarrow> m (db, []) = (Inr x, db', []))"

lemma fault_blindD: "fault_blind m \<Longrightarrow> m (db, fs) = (Inr x, db', fs') \<Longrightarrow> m (db, []) = (Inr x, db', [])"
  unfolding fault_blind_def by blast

named_theorems fault_blind_intros "transactions whose success does not depend on the faults"

lemma fault_blind_return [fault_blind_intros]: "fault_blind (tx_return x)"
  by (simp add: fault_blind_def tx_return_def)

lemma fault_blind_fail [fault_blind_intros]: "fault_blind (tx_fail e)"
  by (simp add: fault_blind_def tx_fail_def)

lemma fault_blind_statement: "fault_blind (tx_statement f)"
  by (auto simp: fault_blind_def tx_statement_def split: list.splits if_splits)

lemma fault_blind_query [fault_blind_intros]: "fault_blind (tx_query f)"
  by (simp add: tx_query_def fault_blind_statement)

lemma fault_blind_exec [fault_blind_intros]: "fault_blind (tx_exec f)"
  by (simp add: tx_exec_def fault_blind_statement)

lemma fault_blind_bind [fault_blind_intros]:
  assumes m: "fault_blind m" and f: "\<And>x. fault_blind (f x)"
  shows "fault_blind (tx_bind m f)"
  unfolding fault_blind_def
proof (intro allI impI)
  fix db fs y db' fs'
  assume run: "tx_bind m f (db, fs) = (Inr y, db', fs')"
  obtain r d fs1 where r: "m (db, fs) = (r, d, fs1)" by (cases "m (db, fs)") auto
  with run obtain x where x: "r = Inr x" by (cases r) (auto simp: tx_bind_def)
  from r x have "m (db, []) = (Inr x, d, [])" using fault_blindD [OF m] by simp
  moreover from run r x have "f x (d, fs1) = (Inr y, db', fs')" by (simp add: tx_bind_def)
  then have "f x (d, []) = (Inr y, db', [])" by (rule fault_blindD [OF f])
  ultimately show "tx_bind m f (db, []) = (Inr y, db', [])" by (simp add: tx_bind_def)
qed

lemma fault_blind_if [fault_blind_intros]:
  "fault_blind m \<Longrightarrow> fault_blind n \<Longrightarrow> fault_blind (if b then m else n)"
  by simp

lemma fault_blind_option [fault_blind_intros]:
  "fault_blind m \<Longrightarrow> (\<And>x. fault_blind (f x)) \<Longrightarrow> fault_blind (case x of None \<Rightarrow> m | Some y \<Rightarrow> f y)"
  by (simp split: option.split)

lemma run_tx_error: "run_tx m (db, fs) = (Inl e, db', fs') \<Longrightarrow> db' = db"
  by (auto simp: run_tx_def split: prod.splits sum.splits)

lemma run_tx_success:
  assumes "run_tx m (db, fs) = (Inr x, db', fs')" and "fault_blind m"
  shows "m (db, []) = (Inr x, db', [])"
proof -
  from assms(1) obtain fs1 fs2 where "m (db, fs1) = (Inr x, db', fs2)"
    by (auto simp: run_tx_def tx_bind_def tx_query_def tx_statement_def
        split: prod.splits sum.splits list.splits if_splits)
  from fault_blindD [OF assms(2) this] show ?thesis .
qed

text \<open>Without faults statements are plain functions of the tables.\<close>

lemma tx_pure:
  "tx_query f (db, []) = (Inr (f db), db, [])"
  "tx_exec g (db, []) = (Inr (), g db, [])"
  "tx_return x s = (Inr x, s)"
  "tx_fail e (db, []) = (Inl e, db, [])"
  by (simp_all add: tx_query_def tx_exec_def tx_statement_def tx_return_def tx_fail_def split_def)

lemma tx_bind_pure: "m s = (Inr x, s') \<Longrightarrow> tx_bind m f s = f x s'"
  by (simp add: tx_bind_def)

section \<open>Parts of larger tables\<close>

text \<open>A transaction on a part of the tables.\<close>

definition tx_at :: "('s \<Rightarrow> 'd) \<Rightarrow> ('d \<Rightarrow> 's \<Rightarrow> 's) \<Rightarrow> ('d, 'a) tx \<Rightarrow> ('s, 'a) tx" where
  "tx_at get put m = (\<lambda>(s, fs). case m (get s, fs) of (r, d, fs) \<Rightarrow> (r, put d s, fs))"

text \<open>\<open>.ok()\<close>: a failure of the body is an answer.\<close>

definition tx_try :: "('d, 'a) tx \<Rightarrow> ('d, 'a option) tx" where
  "tx_try m = (\<lambda>s. case m s of (Inl _, s) \<Rightarrow> (Inr None, s) | (Inr x, s) \<Rightarrow> (Inr (Some x), s))"

lemma fault_blind_at [fault_blind_intros]:
  assumes "fault_blind m"
  shows "fault_blind (tx_at get put m)"
  unfolding fault_blind_def
proof (intro allI impI)
  fix s fs x s' fs'
  assume run: "tx_at get put m (s, fs) = (Inr x, s', fs')"
  obtain r d fs1 where r: "m (get s, fs) = (r, d, fs1)" by (cases "m (get s, fs)") auto
  with run have eqs: "r = Inr x" "s' = put d s" by (simp_all add: tx_at_def)
  with r have "m (get s, []) = (Inr x, d, [])" using fault_blindD [OF assms] by simp
  with eqs show "tx_at get put m (s, []) = (Inr x, s', [])" by (simp add: tx_at_def)
qed

lemma tx_at_pure: "m (get s, []) = (r, d, []) \<Longrightarrow> tx_at get put m (s, []) = (r, put d s, [])"
  by (simp add: tx_at_def)

end
