(* ===== verification/Alert_State.thy ===== *)
theory Alert_State
  imports Alert_Rules Transactions
begin

text \<open>
  The state of alerts: admission of a poll (\<open>admit_alert_transition\<close>, \<open>handle_triggered\<close>,
  \<open>handle_resolved\<close> of \<open>service/alert.rs\<close>), capture and replay of one-shot events
  (\<open>service/alert_event_intents.rs\<close>), the push jobs both write
  (\<open>service/mobile_alert_push.rs\<close>) and maintenance windows (\<open>service/maintenance.rs\<close>).

  The row of a push job is
  its identity (what the code hashes) and its installation: the encrypted envelope is left out,
  and \<open>adb_recipients\<close> are the installations that pass \<open>eligible\<close> and the encryption.
  Notification texts are left out.  Clock readings are arguments.
\<close>

section \<open>Tables\<close>

type_synonym alert_dim = "string \<times> string \<times> string"

record alert_state =
  st_first_triggered_at :: datetime
  st_last_notified_at :: datetime
  st_count :: int
  st_resolved :: bool
  st_resolved_at :: "datetime option"
  st_updated_at :: datetime

record event_intent =
  ei_id :: nat
  ei_rule_id :: string
  ei_server_id :: string
  ei_event_type :: string
  ei_trigger_mode :: string
  ei_first_triggered_at :: datetime
  ei_occurred_at :: datetime
  ei_count :: int
  ei_should_notify :: bool

record maintenance =
  mt_active :: bool
  mt_start_at :: datetime
  mt_end_at :: datetime
  mt_server_ids_json :: "string option"

record push_identity =
  pi_dim :: alert_dim
  pi_first_triggered_at :: datetime
  pi_status :: string
  pi_repeat :: "datetime option"

text \<open>\<open>adb_states\<close> is keyed by the columns of its unique index: rule, server and event key.\<close>

record alert_db =
  adb_rules :: "alert_rule list"
  adb_servers :: "(string \<times> string) list"
  adb_states :: "(alert_dim, alert_state) table"
  adb_intents :: "event_intent list"
  adb_next_intent :: nat
  adb_maintenance :: "maintenance list"
  adb_recipients :: "string list"
  adb_outbox :: "(push_identity \<times> string) list"

record triggered_info =
  tr_first_triggered_at :: datetime
  tr_last_notified_at :: datetime
  tr_count :: u32

datatype notification = Notified string string string datetime

record alert_world =
  aw_db :: alert_db
  aw_triggered :: "(alert_dim, triggered_info) table"
  aw_sent :: "notification list"
  aw_faults :: "bool list"

definition saturating_succ_i32 :: "int \<Rightarrow> int" where
  "saturating_succ_i32 c = min (c + 1) (2 ^ 31 - 1)"

definition five_minutes :: int where "five_minutes = seconds 300"

text \<open>A transaction on the tables of the world.\<close>

definition transaction :: "(alert_db, 'a) tx \<Rightarrow> alert_world \<Rightarrow> (app_error + 'a) \<times> alert_world" where
  "transaction m w =
     (case run_tx m (aw_db w, aw_faults w) of (r, db, fs) \<Rightarrow> (r, w\<lparr>aw_db := db, aw_faults := fs\<rparr>))"

lemma transaction_error: "transaction m w = (Inl e, w') \<Longrightarrow> w' = w\<lparr>aw_faults := aw_faults w'\<rparr>"
  by (auto simp: transaction_def split: prod.splits dest: run_tx_error)

lemma transaction_success:
  assumes "transaction m w = (Inr x, w')" and "fault_blind m"
  shows "w' = w\<lparr>aw_db := aw_db w', aw_faults := aw_faults w'\<rparr> \<and> m (aw_db w, []) = (Inr x, aw_db w', [])"
  using assms by (auto simp: transaction_def split: prod.splits dest: run_tx_success)

section \<open>Push jobs\<close>

definition set_state :: "alert_dim \<Rightarrow> alert_state \<Rightarrow> alert_db \<Rightarrow> alert_db" where
  "set_state k st db = db\<lparr>adb_states := tput k st (adb_states db)\<rparr>"

definition alert_status :: "alert_dim \<Rightarrow> alert_state \<Rightarrow> string" where
  "alert_status k st =
     (if st_resolved st \<and> st_resolved_at st = None \<and> starts_with (snd (snd k)) ''renewal:''
      then ''superseded''
      else if st_resolved st then ''resolved'' else ''firing'')"

definition job_identity :: "alert_rule \<Rightarrow> alert_dim \<Rightarrow> alert_state \<Rightarrow> datetime \<Rightarrow> push_identity" where
  "job_identity rule k st occurred =
     \<lparr>pi_dim = k, pi_first_triggered_at = st_first_triggered_at st,
      pi_status = (if st_resolved st then ''resolved'' else ''firing''),
      pi_repeat = (if \<not> st_resolved st \<and> ru_trigger_mode rule \<noteq> ''once'' then Some occurred else None)\<rparr>"

fun enqueue_rows :: "push_identity \<Rightarrow> string list \<Rightarrow> (alert_db, unit) tx" where
  "enqueue_rows event_id [] = tx_return ()"
| "enqueue_rows event_id (row # rows) =
     tx_bind (tx_query (\<lambda>db. (event_id, row) \<in> set (adb_outbox db))) (\<lambda>known.
     if known then enqueue_rows event_id rows
     else tx_bind (tx_exec (\<lambda>db. db\<lparr>adb_outbox := adb_outbox db @ [(event_id, row)]\<rparr>)) (\<lambda>_.
            enqueue_rows event_id rows))"

definition enqueue ::
  "'f rule_codec \<Rightarrow> alert_rule \<Rightarrow> alert_dim \<Rightarrow> alert_state \<Rightarrow> datetime \<Rightarrow> (alert_db, unit) tx" where
  "enqueue rk rule k st now =
     (case rk_parse_items rk (ru_rules_json rule) of
        None \<Rightarrow> tx_fail (Internal ''Invalid persisted alert rule'')
      | Some items \<Rightarrow>
          if \<not> ru_enabled rule \<or> list_ex (\<lambda>i. ri_rule_type i \<in> set SECURITY_RULE_TYPES) items
          then tx_return ()
          else
            let occurred = (if st_resolved st
                  then (case st_resolved_at st of Some t \<Rightarrow> t | None \<Rightarrow> st_updated_at st)
                  else st_last_notified_at st)
            in if as_secs occurred + 1800 \<le> as_secs now then tx_return ()
               else tx_bind (tx_query adb_recipients) (enqueue_rows (job_identity rule k st occurred)))"

section \<open>Polled alerts\<close>

definition publish_state :: "alert_dim \<Rightarrow> alert_state \<Rightarrow> alert_world \<Rightarrow> alert_world" where
  "publish_state k st w =
     (if st_resolved st then w\<lparr>aw_triggered := tdel k (aw_triggered w)\<rparr>
      else w\<lparr>aw_triggered := tput k
        \<lparr>tr_first_triggered_at = st_first_triggered_at st, tr_last_notified_at = st_last_notified_at st,
         tr_count = word_of_int (st_count st)\<rparr> (aw_triggered w)\<rparr>)"

definition load_from_db :: "alert_world \<Rightarrow> alert_world" where
  "load_from_db w = w\<lparr>aw_triggered := map (\<lambda>(k, st). (k,
       \<lparr>tr_first_triggered_at = st_first_triggered_at st, tr_last_notified_at = st_last_notified_at st,
        tr_count = word_of_int (st_count st)\<rparr>))
     (filter (\<lambda>(_, st). \<not> st_resolved st) (adb_states (aw_db w)))\<rparr>"

text \<open>The cache entry of a committed match never falls back behind a later one.\<close>

definition committed_match ::
  "alert_dim \<Rightarrow> alert_state \<Rightarrow> (alert_dim, triggered_info) table \<Rightarrow> (alert_dim, triggered_info) table" where
  "committed_match k row t =
     (let committed = \<lparr>tr_first_triggered_at = st_first_triggered_at row,
            tr_last_notified_at = st_last_notified_at row, tr_count = word_of_int (st_count row)\<rparr>
      in case tget t k of
           None \<Rightarrow> tput k committed t
         | Some current \<Rightarrow>
             if tr_last_notified_at current < tr_last_notified_at committed \<or>
                (tr_last_notified_at committed = tr_last_notified_at current \<and>
                 tr_count current \<le> tr_count committed)
             then tput k committed t else t)"

definition publish_committed_security_match :: "alert_dim \<Rightarrow> alert_state \<Rightarrow> alert_world \<Rightarrow> alert_world" where
  "publish_committed_security_match k row w = w\<lparr>aw_triggered := committed_match k row (aw_triggered w)\<rparr>"

definition poll_notifies :: "string \<Rightarrow> bool \<Rightarrow> alert_state option \<Rightarrow> datetime \<Rightarrow> bool" where
  "poll_notifies trigger_mode resolved firing now \<longleftrightarrow>
     resolved \<or>
     (if trigger_mode = ''once'' then firing = None
      else case firing of None \<Rightarrow> True | Some st \<Rightarrow> five_minutes \<le> now - st_last_notified_at st)"

definition next_state :: "alert_state option \<Rightarrow> bool \<Rightarrow> bool \<Rightarrow> datetime \<Rightarrow> alert_state" where
  "next_state existing resolved should_notify now =
     (case existing of
        Some st \<Rightarrow>
          let st' = st\<lparr>st_updated_at := now\<rparr>; rearm = st_resolved st
          in if resolved then st'\<lparr>st_resolved := True, st_resolved_at := Some now\<rparr>
             else let st' = st'\<lparr>st_count := (if rearm then 1 else saturating_succ_i32 (st_count st))\<rparr>;
                      st' = (if should_notify then st'\<lparr>st_last_notified_at := now\<rparr> else st')
                  in if rearm then st'\<lparr>st_first_triggered_at := now, st_resolved := False, st_resolved_at := None\<rparr>
                     else st'
      | None \<Rightarrow> \<lparr>st_first_triggered_at = now, st_last_notified_at = now, st_count = 1,
          st_resolved = False, st_resolved_at = None, st_updated_at = now\<rparr>)"

text \<open>The body of the transaction: \<open>None\<close> is the early commit of an alert that is not firing.\<close>

definition admit_body ::
  "'f rule_codec \<Rightarrow> alert_rule \<Rightarrow> string \<Rightarrow> bool \<Rightarrow> datetime \<Rightarrow> (alert_db, (bool \<times> alert_state) option) tx" where
  "admit_body rk rule server_id resolved now =
     (let k = (ru_id rule, server_id, '''') in
      tx_bind (tx_exec (\<lambda>db. db)) (\<lambda>_.
      tx_bind (tx_query (\<lambda>db. tget (adb_states db) k)) (\<lambda>existing.
      if resolved \<and> (case existing of None \<Rightarrow> True | Some st \<Rightarrow> st_resolved st) then tx_return None
      else
        let firing = (case existing of Some st \<Rightarrow> if st_resolved st then None else Some st | None \<Rightarrow> None);
            should_notify = poll_notifies (ru_trigger_mode rule) resolved firing now;
            st = next_state existing resolved should_notify now
        in tx_bind (tx_exec (set_state k st)) (\<lambda>_.
           tx_bind (if should_notify then enqueue rk rule k st now else tx_return ()) (\<lambda>_.
           tx_return (Some (should_notify, st)))))))"

definition admit_alert_transition ::
  "'f rule_codec \<Rightarrow> alert_rule \<Rightarrow> string \<Rightarrow> bool \<Rightarrow> datetime \<Rightarrow> alert_world \<Rightarrow> (app_error + bool) \<times> alert_world" where
  "admit_alert_transition rk rule server_id resolved now w =
     (let k = (ru_id rule, server_id, '''') in
      case transaction (admit_body rk rule server_id resolved now) w of
        (Inl e, w) \<Rightarrow> (Inl e, w)
      | (Inr None, w) \<Rightarrow> (Inr False, w\<lparr>aw_triggered := tdel k (aw_triggered w)\<rparr>)
      | (Inr (Some (should_notify, st)), w) \<Rightarrow> (Inr should_notify, publish_state k st w))"

text \<open>\<open>notify_triggered\<close> and \<open>handle_resolved\<close>: at most one attempt, whose failure is logged.\<close>

definition notify_group :: "string \<Rightarrow> alert_rule \<Rightarrow> string \<Rightarrow> datetime \<Rightarrow> alert_world \<Rightarrow> alert_world" where
  "notify_group event rule server_id t w =
     (case ru_notification_group_id rule of
        None \<Rightarrow> w
      | Some g \<Rightarrow> w\<lparr>aw_sent := aw_sent w @ [Notified (ru_id rule) server_id event t]\<rparr>)"

definition handle_triggered ::
  "'f rule_codec \<Rightarrow> alert_rule \<Rightarrow> string \<Rightarrow> datetime \<Rightarrow> alert_world \<Rightarrow> (app_error + unit) \<times> alert_world" where
  "handle_triggered rk rule server_id now w =
     (case admit_alert_transition rk rule server_id False now w of
        (Inl e, w) \<Rightarrow> (Inl e, w)
      | (Inr should_notify, w) \<Rightarrow>
          (Inr (), if should_notify then notify_group ''triggered'' rule server_id now w else w))"

section \<open>Maintenance\<close>

definition is_in_maintenance_at :: "'f rule_codec \<Rightarrow> maintenance list \<Rightarrow> string \<Rightarrow> datetime \<Rightarrow> bool" where
  "is_in_maintenance_at rk ms server_id now \<longleftrightarrow>
     list_ex (\<lambda>m. mt_active m \<and> mt_start_at m \<le> now \<and> now \<le> mt_end_at m \<and>
       (case mt_server_ids_json m of
          None \<Rightarrow> True
        | Some json \<Rightarrow>
            let ids = (case rk_parse_ids rk json of Some ids \<Rightarrow> ids | None \<Rightarrow> [])
            in ids = [] \<or> server_id \<in> set ids)) ms"

text \<open>
  One server in the loop of \<open>evaluate_rule\<close>, after \<open>check_server\<close> said \<open>triggered\<close>; an error of
  the maintenance query counts as no maintenance.
\<close>

definition evaluate_server ::
  "'f rule_codec \<Rightarrow> alert_rule \<Rightarrow> string \<Rightarrow> bool \<Rightarrow> datetime \<Rightarrow> alert_world \<Rightarrow> (app_error + unit) \<times> alert_world" where
  "evaluate_server rk rule server_id triggered now w =
     (if triggered
      then (case tx_query (\<lambda>db. is_in_maintenance_at rk (adb_maintenance db) server_id now) (aw_db w, aw_faults w) of
              (Inr True, _, fs) \<Rightarrow> (Inr (), w\<lparr>aw_faults := fs\<rparr>)
            | (_, _, fs) \<Rightarrow> handle_triggered rk rule server_id now (w\<lparr>aw_faults := fs\<rparr>))
      else (case admit_alert_transition rk rule server_id True now w of
              (Inl e, w) \<Rightarrow> (Inl e, w)
            | (Inr resolved, w) \<Rightarrow>
                (Inr (), if resolved then notify_group ''resolved'' rule server_id now w else w)))"

section \<open>One-shot events\<close>

definition pending_for :: "string \<Rightarrow> string \<Rightarrow> event_intent list \<Rightarrow> event_intent list" where
  "pending_for rule_id server_id = filter (\<lambda>i. ei_rule_id i = rule_id \<and> ei_server_id i = server_id)"

text \<open>Whether a captured event of this type concerns the rule.\<close>

definition event_applies ::
  "'f rule_codec \<Rightarrow> alert_rule \<Rightarrow> 'f alert_rule_item list \<Rightarrow> string \<Rightarrow> string \<Rightarrow> bool" where
  "event_applies rk rule items server_id event_type \<longleftrightarrow>
     list_ex (\<lambda>i. ri_rule_type i = event_type) items \<and>
     \<not> list_ex (\<lambda>i. ri_rule_type i \<in> set SECURITY_RULE_TYPES) items \<and>
     rule_covers_server (rk_parse_ids rk) (ru_cover_type rule) (ru_server_ids_json rule) server_id"

text \<open>First trigger, last notification and count: of the last pending intent, or of the state.\<close>

definition previous_of ::
  "event_intent option \<Rightarrow> alert_state option \<Rightarrow> (datetime \<times> datetime \<times> int) option" where
  "previous_of pending persisted =
     (case pending of
        Some i \<Rightarrow> Some (ei_first_triggered_at i, ei_occurred_at i, ei_count i)
      | None \<Rightarrow> map_option (\<lambda>st. (st_first_triggered_at st, st_last_notified_at st, st_count st)) persisted)"

definition event_notifies :: "string \<Rightarrow> (datetime \<times> datetime \<times> int) option \<Rightarrow> datetime \<Rightarrow> bool" where
  "event_notifies trigger_mode previous occurred_at \<longleftrightarrow>
     (case previous of
        None \<Rightarrow> True
      | Some (_, latest, _) \<Rightarrow> trigger_mode \<noteq> ''once'' \<and> five_minutes \<le> occurred_at - latest)"

definition new_intent ::
  "nat \<Rightarrow> alert_rule \<Rightarrow> string \<Rightarrow> string \<Rightarrow> (datetime \<times> datetime \<times> int) option \<Rightarrow> datetime \<Rightarrow> event_intent" where
  "new_intent i rule server_id event_type previous occurred_at =
     \<lparr>ei_id = i, ei_rule_id = ru_id rule, ei_server_id = server_id, ei_event_type = event_type,
      ei_trigger_mode = ru_trigger_mode rule,
      ei_first_triggered_at = (case previous of None \<Rightarrow> occurred_at | Some (first, _, _) \<Rightarrow> first),
      ei_occurred_at = occurred_at,
      ei_count = (case previous of None \<Rightarrow> 1 | Some (_, _, c) \<Rightarrow> saturating_succ_i32 c),
      ei_should_notify = event_notifies (ru_trigger_mode rule) previous occurred_at\<rparr>"

definition append_intent :: "(nat \<Rightarrow> event_intent) \<Rightarrow> alert_db \<Rightarrow> alert_db" where
  "append_intent f db =
     db\<lparr>adb_intents := adb_intents db @ [f (adb_next_intent db)], adb_next_intent := adb_next_intent db + 1\<rparr>"

fun capture_rules ::
  "'f rule_codec \<Rightarrow> string \<Rightarrow> string \<Rightarrow> datetime \<Rightarrow> alert_rule list \<Rightarrow> (alert_db, unit) tx" where
  "capture_rules rk server_id event_type occurred_at [] = tx_return ()"
| "capture_rules rk server_id event_type occurred_at (rule # rules) =
     (case rk_parse_items rk (ru_rules_json rule) of
        None \<Rightarrow> tx_fail (Internal ''Invalid persisted event alert rule'')
      | Some items \<Rightarrow>
          if \<not> event_applies rk rule items server_id event_type
          then capture_rules rk server_id event_type occurred_at rules
          else
            tx_bind (tx_query (\<lambda>db. pending_for (ru_id rule) server_id (adb_intents db))) (\<lambda>pending.
            tx_bind (tx_query (\<lambda>db. tget (adb_states db) (ru_id rule, server_id, ''''))) (\<lambda>row.
            let persisted = (case row of Some st \<Rightarrow> if st_resolved st then None else Some st | None \<Rightarrow> None);
                previous = previous_of (if pending = [] then None else Some (last pending)) persisted
            in tx_bind (tx_exec (append_intent (\<lambda>i.
                   new_intent i rule server_id event_type previous occurred_at))) (\<lambda>_.
               capture_rules rk server_id event_type occurred_at rules))))"

definition capture :: "'f rule_codec \<Rightarrow> string \<Rightarrow> string \<Rightarrow> datetime \<Rightarrow> datetime \<Rightarrow> (alert_db, unit) tx" where
  "capture rk server_id event_type occurred_at now =
     tx_bind (tx_query (\<lambda>db. is_in_maintenance_at rk (adb_maintenance db) server_id now)) (\<lambda>maintained.
     if maintained then tx_return ()
     else tx_bind (tx_query (\<lambda>db. filter ru_enabled (adb_rules db)))
            (capture_rules rk server_id event_type occurred_at))"

definition event_state :: "alert_state option \<Rightarrow> event_intent \<Rightarrow> alert_state" where
  "event_state existing i =
     \<lparr>st_first_triggered_at = ei_first_triggered_at i, st_last_notified_at = ei_occurred_at i,
      st_count = ei_count i, st_resolved = False, st_resolved_at = None, st_updated_at = ei_occurred_at i\<rparr>"

definition delete_intent :: "nat \<Rightarrow> alert_db \<Rightarrow> alert_db" where
  "delete_intent i db = db\<lparr>adb_intents := filter (\<lambda>x. ei_id x \<noteq> i) (adb_intents db)\<rparr>"

definition replay_body ::
  "'f rule_codec \<Rightarrow> nat \<Rightarrow> datetime \<Rightarrow> (alert_db, (alert_rule \<times> event_intent \<times> alert_state) option) tx" where
  "replay_body rk i now =
     tx_bind (tx_exec (\<lambda>db. db)) (\<lambda>_.
     tx_bind (tx_query (\<lambda>db. find (\<lambda>x. ei_id x = i) (adb_intents db))) (\<lambda>item.
     case item of None \<Rightarrow> tx_return None
     | Some item \<Rightarrow>
       tx_bind (tx_query (\<lambda>db. find (\<lambda>r. ru_id r = ei_rule_id item) (adb_rules db))) (\<lambda>rule.
       tx_bind (tx_query (\<lambda>db. tget (adb_servers db) (ei_server_id item))) (\<lambda>srv.
       case (if srv = None then None
             else case rule of Some r \<Rightarrow> if ru_enabled r then Some r else None | None \<Rightarrow> None) of
         None \<Rightarrow> tx_bind (tx_exec (delete_intent i)) (\<lambda>_. tx_return None)
       | Some rule \<Rightarrow>
           let k = (ei_rule_id item, ei_server_id item, '''') in
           tx_bind (tx_query (\<lambda>db. tget (adb_states db) k)) (\<lambda>existing.
           let st = event_state existing item;
               rule = rule\<lparr>ru_trigger_mode := ei_trigger_mode item\<rparr>
           in tx_bind (tx_exec (set_state k st)) (\<lambda>_.
              tx_bind (if ei_should_notify item then enqueue rk rule k st now else tx_return ()) (\<lambda>_.
              tx_bind (tx_exec (delete_intent i)) (\<lambda>_.
              tx_return (Some (rule, item, st))))))))))"

text \<open>
  \<open>replay_one\<close> up to the release of the admission lock; what is left is the notification to attempt.
\<close>

definition replay_begin ::
  "'f rule_codec \<Rightarrow> nat \<Rightarrow> datetime \<Rightarrow> alert_world \<Rightarrow>
   (app_error + (alert_rule \<times> event_intent) option) \<times> alert_world" where
  "replay_begin rk i now w =
     (case transaction (replay_body rk i now) w of
        (Inl e, w) \<Rightarrow> (Inl e, w)
      | (Inr None, w) \<Rightarrow> (Inr None, w)
      | (Inr (Some (rule, item, st)), w) \<Rightarrow>
          (Inr (if ei_should_notify item then Some (rule, item) else None),
           publish_state (ei_rule_id item, ei_server_id item, '''') st w))"

text \<open>The rest of it, without the lock.\<close>

definition replay_notify :: "(alert_rule \<times> event_intent) option \<Rightarrow> alert_world \<Rightarrow> alert_world" where
  "replay_notify task w =
     (case task of
        None \<Rightarrow> w
      | Some (rule, item) \<Rightarrow> notify_group ''triggered'' rule (ei_server_id item) (ei_occurred_at item) w)"

text \<open>One item of a pass up to its notification, with the dimensions that failed before in the pass.\<close>

definition replay_item ::
  "'f rule_codec \<Rightarrow> datetime \<Rightarrow> event_intent \<Rightarrow> (string \<times> string) list \<times> alert_world \<Rightarrow>
   (string \<times> string) list \<times> (alert_rule \<times> event_intent) option \<times> alert_world" where
  "replay_item rk now i = (\<lambda>(failed, w).
     if (ei_rule_id i, ei_server_id i) \<in> set failed then (failed, None, w)
     else case replay_begin rk (ei_id i) now w of
        (Inl e, w) \<Rightarrow> ((ei_rule_id i, ei_server_id i) # failed, None, w)
      | (Inr task, w) \<Rightarrow> (failed, task, w))"

text \<open>Identifiers grow with insertion, so table order is the order of identifiers.\<close>

definition replay_snapshot :: "(alert_db, event_intent list) tx" where
  "replay_snapshot = tx_query (\<lambda>db. take 100 (adb_intents db))"

definition replay :: "'f rule_codec \<Rightarrow> datetime \<Rightarrow> alert_world \<Rightarrow> (app_error + unit) \<times> alert_world" where
  "replay rk now w =
     (case replay_snapshot (aw_db w, aw_faults w) of
        (Inl e, _, fs) \<Rightarrow> (Inl e, w\<lparr>aw_faults := fs\<rparr>)
      | (Inr pending, _, fs) \<Rightarrow>
          (Inr (), snd (fold (\<lambda>i (failed, w). case replay_item rk now i (failed, w) of
             (failed, task, w) \<Rightarrow> (failed, replay_notify task w)) pending ([], w\<lparr>aw_faults := fs\<rparr>))))"

definition check_event_rules ::
  "'f rule_codec \<Rightarrow> string \<Rightarrow> string \<Rightarrow> datetime \<Rightarrow> alert_world \<Rightarrow> (app_error + unit) \<times> alert_world" where
  "check_event_rules rk server_id event_type now w =
     (case transaction (tx_bind (tx_exec (\<lambda>db. db)) (\<lambda>_. capture rk server_id event_type now now)) w of
        (Inl e, w) \<Rightarrow> (Inl e, w)
      | (Inr _, w) \<Rightarrow> replay rk now w)"

definition delete_alert_rule :: "string \<Rightarrow> alert_world \<Rightarrow> (app_error + unit) \<times> alert_world" where
  "delete_alert_rule i w =
     (case tx_statement (\<lambda>db. (list_ex (\<lambda>r. ru_id r = i) (adb_rules db),
             db\<lparr>adb_rules := filter (\<lambda>r. ru_id r \<noteq> i) (adb_rules db)\<rparr>)) (aw_db w, aw_faults w) of
        (Inl e, db, fs) \<Rightarrow> (Inl e, w\<lparr>aw_db := db, aw_faults := fs\<rparr>)
      | (Inr False, db, fs) \<Rightarrow>
          (Inl (NotFound (''Alert rule '' @ i @ '' not found'')), w\<lparr>aw_db := db, aw_faults := fs\<rparr>)
      | (Inr True, db, fs) \<Rightarrow>
          (case tx_exec (\<lambda>db. db\<lparr>adb_states := tretain (\<lambda>(rule, _, _) _. rule \<noteq> i) (adb_states db)\<rparr>) (db, fs) of
             (Inl e, db, fs) \<Rightarrow> (Inl e, w\<lparr>aw_db := db, aw_faults := fs\<rparr>)
           | (Inr _, db, fs) \<Rightarrow> (Inr (), w\<lparr>aw_db := db, aw_faults := fs\<rparr>)))"

end
