(* ===== verification/Alert_Admission.thy ===== *)
theory Alert_Admission
  imports Alert_State
begin

text \<open>
  What a sequence of polls of one rule on one server comes to when any statement may fail: the
  decisions are those of a two-phase machine over the polls that were admitted, and each decision
  to notify leaves exactly one job per recipient.
\<close>

section \<open>The phases of an alert\<close>

datatype alert_phase = Quiet | Firing datetime datetime int

definition phase_of :: "alert_dim \<Rightarrow> alert_world \<Rightarrow> alert_phase" where
  "phase_of k w =
     (case tget (adb_states (aw_db w)) k of
        None \<Rightarrow> Quiet
      | Some st \<Rightarrow> if st_resolved st then Quiet
          else Firing (st_first_triggered_at st) (st_last_notified_at st) (st_count st))"

fun phase_poll :: "string \<Rightarrow> bool \<times> datetime \<Rightarrow> alert_phase \<Rightarrow> bool \<times> alert_phase" where
  "phase_poll mode (resolved, now) Quiet = (\<not> resolved, if resolved then Quiet else Firing now now 1)"
| "phase_poll mode (resolved, now) (Firing first latest c) =
     (if resolved then (True, Quiet)
      else if mode \<noteq> ''once'' \<and> five_minutes \<le> now - latest then (True, Firing first now (saturating_succ_i32 c))
      else (False, Firing first latest (saturating_succ_i32 c)))"

fun phase_run :: "string \<Rightarrow> (bool \<times> datetime) list \<Rightarrow> alert_phase \<Rightarrow> bool list \<times> alert_phase" where
  "phase_run mode [] ph = ([], ph)"
| "phase_run mode (p # ps) ph =
     (let (b, ph) = phase_poll mode p ph; (bs, ph) = phase_run mode ps ph in (b # bs, ph))"

fun poll_run ::
  "'f rule_codec \<Rightarrow> alert_rule \<Rightarrow> string \<Rightarrow> (bool \<times> datetime) list \<Rightarrow> alert_world \<Rightarrow>
   (app_error + bool) list \<times> alert_world" where
  "poll_run rk rule server_id [] w = ([], w)"
| "poll_run rk rule server_id ((resolved, now) # ps) w =
     (let (r, w) = admit_alert_transition rk rule server_id resolved now w;
          (rs, w) = poll_run rk rule server_id ps w
      in (r # rs, w))"

text \<open>The polls that were admitted, and their decisions.\<close>

definition admitted_polls :: "'a list \<Rightarrow> ('e + 'b) list \<Rightarrow> 'a list" where
  "admitted_polls ps rs = map fst (filter (\<lambda>(_, r). \<not> isl r) (zip ps rs))"

definition decisions :: "('e + 'b) list \<Rightarrow> 'b list" where
  "decisions rs = map projr (filter (\<lambda>r. \<not> isl r) rs)"

lemma admitted_polls_Cons [simp]:
  "admitted_polls (p # ps) (Inl e # rs) = admitted_polls ps rs"
  "admitted_polls (p # ps) (Inr x # rs) = p # admitted_polls ps rs"
  by (simp_all add: admitted_polls_def)

lemma decisions_Cons [simp]:
  "decisions (Inl e # rs) = decisions rs"
  "decisions (Inr x # rs) = x # decisions rs"
  by (simp_all add: decisions_def)

section \<open>One admission\<close>

lemma fault_blind_enqueue_rows [fault_blind_intros]: "fault_blind (enqueue_rows event_id rows)"
  by (induction rows) (simp_all add: fault_blind_intros)

lemma fault_blind_enqueue [fault_blind_intros]: "fault_blind (enqueue rk rule k st now)"
  unfolding enqueue_def Let_def by (intro fault_blind_intros)

lemma fault_blind_admit_body [fault_blind_intros]: "fault_blind (admit_body rk rule server_id resolved now)"
  unfolding admit_body_def Let_def by (intro fault_blind_intros)

definition add_jobs :: "push_identity \<Rightarrow> string list \<Rightarrow> alert_db \<Rightarrow> alert_db" where
  "add_jobs i rows db = db\<lparr>adb_outbox := adb_outbox db @ map (Pair i) rows\<rparr>"

lemma enqueue_rows_pure:
  "\<exists>rows'. enqueue_rows i rows (db, []) = (Inr (), add_jobs i rows' db, []) \<and>
     set rows' \<subseteq> set rows \<and> (\<forall>r \<in> set rows. (i, r) \<in> set (adb_outbox db) \<or> r \<in> set rows') \<and>
     (distinct rows \<and> (\<forall>r \<in> set rows. (i, r) \<notin> set (adb_outbox db)) \<longrightarrow> rows' = rows)"
proof (induction rows arbitrary: db)
  case Nil
  show ?case by (intro exI [of _ "[]"]) (simp add: tx_pure add_jobs_def)
next
  case (Cons r rows)
  show ?case
  proof (cases "(i, r) \<in> set (adb_outbox db)")
    case True
    then have "enqueue_rows i (r # rows) (db, []) = enqueue_rows i rows (db, [])"
      by (simp add: tx_bind_def tx_pure)
    moreover obtain rows' where "enqueue_rows i rows (db, []) = (Inr (), add_jobs i rows' db, [])"
      "set rows' \<subseteq> set rows" "\<forall>r \<in> set rows. (i, r) \<in> set (adb_outbox db) \<or> r \<in> set rows'"
      using Cons.IH [of db] by blast
    ultimately show ?thesis using True by (intro exI [of _ rows']) auto
  next
    case False
    let ?db = "add_jobs i [r] db"
    from False have "enqueue_rows i (r # rows) (db, []) = enqueue_rows i rows (?db, [])"
      by (simp add: tx_bind_def tx_pure add_jobs_def)
    moreover obtain rows' where rows': "enqueue_rows i rows (?db, []) = (Inr (), add_jobs i rows' ?db, [])"
      "set rows' \<subseteq> set rows" "\<forall>r \<in> set rows. (i, r) \<in> set (adb_outbox ?db) \<or> r \<in> set rows'"
      "distinct rows \<and> (\<forall>r \<in> set rows. (i, r) \<notin> set (adb_outbox ?db)) \<longrightarrow> rows' = rows"
      using Cons.IH [of ?db] by blast
    moreover have "add_jobs i rows' ?db = add_jobs i (r # rows') db" by (simp add: add_jobs_def)
    ultimately show ?thesis using False
      by (intro exI [of _ "r # rows'"]) (auto simp: add_jobs_def)
  qed
qed

definition ordinary_rule :: "'f rule_codec \<Rightarrow> alert_rule \<Rightarrow> bool" where
  "ordinary_rule rk rule \<longleftrightarrow>
     ru_enabled rule \<and>
     (case rk_parse_items rk (ru_rules_json rule) of
        None \<Rightarrow> False
      | Some items \<Rightarrow> \<not> list_ex (\<lambda>i. ri_rule_type i \<in> set SECURITY_RULE_TYPES) items)"

definition occurred_at :: "alert_state \<Rightarrow> datetime" where
  "occurred_at st =
     (if st_resolved st then (case st_resolved_at st of Some t \<Rightarrow> t | None \<Rightarrow> st_updated_at st)
      else st_last_notified_at st)"

lemma enqueue_pure:
  assumes "ordinary_rule rk rule" and "occurred_at st = now"
  shows "enqueue rk rule k st now (db, []) =
    enqueue_rows (job_identity rule k st now) (adb_recipients db) (db, [])"
proof -
  have "\<not> as_secs now + 1800 \<le> as_secs now" by simp
  with assms show ?thesis
    by (auto simp: enqueue_def ordinary_rule_def occurred_at_def Let_def tx_bind_def tx_pure split: option.splits)
qed

lemma enqueue_keeps_states:
  assumes "enqueue rk rule k st now (db, []) = (Inr (), db', [])"
  shows "\<exists>i rows. db' = add_jobs i rows db"
proof -
  have "db = add_jobs undefined [] db" by (simp add: add_jobs_def)
  with assms show ?thesis
    by (auto simp: enqueue_def Let_def tx_bind_def tx_pure split: option.splits if_splits)
      (metis enqueue_rows_pure prod.inject)+
qed

text \<open>An admission that succeeds takes one of these two ways; one that fails changes no table.\<close>

lemma poll_admit_success:
  assumes "admit_alert_transition rk rule server_id resolved now w = (Inr n, w')"
  defines "k \<equiv> (ru_id rule, server_id, '''')"
  defines "existing \<equiv> tget (adb_states (aw_db w)) k"
  defines "firing \<equiv> (case existing of Some st \<Rightarrow> if st_resolved st then None else Some st | None \<Rightarrow> None)"
  shows "resolved \<and> firing = None \<and> \<not> n \<and> aw_db w' = aw_db w \<or>
    (resolved \<longrightarrow> firing \<noteq> None) \<and> n = poll_notifies (ru_trigger_mode rule) resolved firing now \<and>
    (let st = next_state existing resolved n now in
     (if n then enqueue rk rule k st now else tx_return ()) (set_state k st (aw_db w), []) = (Inr (), aw_db w', []))"
proof -
  let ?b = "admit_body rk rule server_id resolved now"
  from assms(1) obtain o' w1 where t: "transaction ?b w = (Inr o', w1)" and db: "aw_db w' = aw_db w1"
    and n: "n = (case o' of None \<Rightarrow> False | Some (b, _) \<Rightarrow> b)"
    by (auto simp: admit_alert_transition_def publish_state_def Let_def split: prod.splits sum.splits option.splits if_splits)
  from transaction_success [OF t] have "?b (aw_db w, []) = (Inr o', aw_db w1, [])"
    by (simp add: fault_blind_intros)
  with db n show ?thesis
    unfolding admit_body_def k_def existing_def firing_def Let_def
    by (auto simp: tx_bind_def tx_pure split: option.splits if_splits prod.splits sum.splits)
qed

lemma poll_admit_failure:
  assumes "admit_alert_transition rk rule server_id resolved now w = (Inl e, w')"
  shows "aw_db w' = aw_db w"
proof -
  from assms obtain w1 where "transaction (admit_body rk rule server_id resolved now) w = (Inl e, w1)" "w' = w1"
    by (auto simp: admit_alert_transition_def Let_def split: prod.splits sum.splits option.splits)
  then show ?thesis using transaction_error by (metis alert_world.select_convs(1) alert_world.surjective alert_world.update_convs(4))
qed

lemma states_after_jobs:
  assumes "(if n then enqueue rk rule k st now else tx_return ()) (set_state k st db, []) = (Inr (), db', [])"
  shows "adb_states db' = tput k st (adb_states db)"
  using assms by (auto simp: tx_pure set_state_def add_jobs_def split: if_splits dest!: enqueue_keeps_states)

lemma admit_phase:
  assumes "admit_alert_transition rk rule server_id resolved now w = (Inr n, w')"
  defines "k \<equiv> (ru_id rule, server_id, '''')"
  shows "phase_poll (ru_trigger_mode rule) (resolved, now) (phase_of k w) = (n, phase_of k w')"
proof (cases "aw_db w' = aw_db w \<and> resolved \<and> \<not> n \<and> phase_of k w = Quiet")
  case True
  then show ?thesis by (simp add: phase_of_def)
next
  case False
  let ?ex = "tget (adb_states (aw_db w)) k"
  let ?firing = "case ?ex of Some st \<Rightarrow> if st_resolved st then None else Some st | None \<Rightarrow> None"
  from poll_admit_success [OF assms(1)] False
  have new: "resolved \<longrightarrow> ?firing \<noteq> None" "n = poll_notifies (ru_trigger_mode rule) resolved ?firing now"
    and db: "(if n then enqueue rk rule k (next_state ?ex resolved n now) now else tx_return ())
      (set_state k (next_state ?ex resolved n now) (aw_db w), []) = (Inr (), aw_db w', [])"
    by (cases ?ex; cases "st_resolved (the ?ex)"; auto simp: k_def phase_of_def Let_def)+
  from states_after_jobs [OF db]
  have "tget (adb_states (aw_db w')) k = Some (next_state ?ex resolved n now)"
    by (simp add: tget_tput)
  with new show ?thesis
    by (auto simp: phase_of_def poll_notifies_def next_state_def Let_def split: option.splits if_splits)
qed

section \<open>A sample\<close>

definition sample_codec :: "unit rule_codec" where
  "sample_codec = \<lparr>rk_print_items = (\<lambda>_. ''i''),
     rk_parse_items = (\<lambda>s. if s = ''i''
       then Some [\<lparr>ri_rule_type = ''cpu'', ri_min = None, ri_max = None, ri_duration = None,
         ri_cycle_interval = None, ri_cycle_limit = None, ri_security = None\<rparr>] else None),
     rk_print_actions = (\<lambda>_. []), rk_parse_actions = (\<lambda>_. None),
     rk_print_ids = (\<lambda>_. []), rk_parse_ids = (\<lambda>_. None)\<rparr>"

definition sample_rule :: alert_rule where
  "sample_rule = \<lparr>ru_id = ''r'', ru_name = ''cpu'', ru_enabled = True, ru_rules_json = ''i'',
     ru_trigger_mode = ''always'', ru_notification_group_id = Some ''g'', ru_cover_type = ''all'',
     ru_server_ids_json = None, ru_actions_json = None, ru_updated_at = 0\<rparr>"

definition sample_world :: "bool list \<Rightarrow> alert_world" where
  "sample_world faults = \<lparr>aw_db = \<lparr>adb_rules = [sample_rule], adb_servers = [(''s'', ''web'')], adb_states = [],
       adb_intents = [], adb_next_intent = 0, adb_maintenance = [], adb_recipients = [''phone''],
       adb_outbox = []\<rparr>,
     aw_triggered = [], aw_sent = [], aw_faults = faults\<rparr>"

section \<open>Jobs\<close>

text \<open>Jobs of the alert are of the past, and those of the running cycle announce its firing.\<close>

definition jobs_before :: "alert_dim \<Rightarrow> datetime \<Rightarrow> alert_world \<Rightarrow> bool" where
  "jobs_before k t w \<longleftrightarrow>
     (\<forall>f l c. phase_of k w = Firing f l c \<longrightarrow> f \<le> t) \<and>
     (\<forall>j \<in> set (adb_outbox (aw_db w)). pi_dim (fst j) = k \<longrightarrow>
        pi_first_triggered_at (fst j) \<le> t \<and> (\<forall>s. pi_repeat (fst j) = Some s \<longrightarrow> s \<le> t) \<and>
        (\<forall>f l c. phase_of k w = Firing f l c \<and> pi_first_triggered_at (fst j) = f \<longrightarrow>
           pi_status (fst j) = ''firing''))"

lemma jobs_beforeD:
  assumes "jobs_before k t w" "(i, r) \<in> set (adb_outbox (aw_db w))" "pi_dim i = k"
  shows "pi_first_triggered_at i \<le> t" "pi_repeat i = Some s \<Longrightarrow> s \<le> t"
    "phase_of k w = Firing (pi_first_triggered_at i) l c \<Longrightarrow> pi_status i = ''firing''"
  using assms by (auto simp: jobs_before_def)

lemma jobs_before_mono: "jobs_before k t w \<Longrightarrow> t \<le> t' \<Longrightarrow> jobs_before k t' w"
  by (fastforce simp: jobs_before_def)

lemma phase_poll_first:
  assumes "phase_poll mode (resolved, now) ph = (n, Firing f l c)"
  shows "f = now \<and> ph = Quiet \<or> (\<exists>l c. ph = Firing f l c)"
  using assms by (cases ph) (auto split: if_splits)

text \<open>The job of a decision: never one the outbox already has.\<close>

lemma admit_jobs:
  assumes adm: "admit_alert_transition rk rule server_id resolved now w = (Inr n, w')"
    and rule: "ordinary_rule rk rule" and distinct: "distinct (adb_recipients (aw_db w))"
  defines "k \<equiv> (ru_id rule, server_id, '''')"
  assumes before: "jobs_before k t w" "t < now"
  shows "adb_recipients (aw_db w') = adb_recipients (aw_db w) \<and> jobs_before k now w' \<and>
    (if n then \<exists>i. pi_dim i = k \<and> (\<forall>r. (i, r) \<notin> set (adb_outbox (aw_db w))) \<and>
         adb_outbox (aw_db w') = adb_outbox (aw_db w) @ map (Pair i) (adb_recipients (aw_db w))
     else adb_outbox (aw_db w') = adb_outbox (aw_db w))"
proof -
  let ?ex = "tget (adb_states (aw_db w)) k"
  let ?st = "next_state ?ex resolved n now"
  let ?job = "job_identity rule k ?st now"
  have phase: "phase_poll (ru_trigger_mode rule) (resolved, now) (phase_of k w) = (n, phase_of k w')"
    using admit_phase [OF adm] by (simp add: k_def)
  have first: "f = now \<or> (\<exists>l c. phase_of k w = Firing f l c)" if "phase_of k w' = Firing f l c" for f l c
    using phase_poll_first [OF phase [unfolded that]] by auto
  have old: "jobs_before k now w'" if "adb_outbox (aw_db w') = adb_outbox (aw_db w)"
    using before that first unfolding jobs_before_def by fastforce
  show ?thesis
  proof (cases n)
    case False
    with poll_admit_success [OF adm]
    have "adb_recipients (aw_db w') = adb_recipients (aw_db w) \<and> adb_outbox (aw_db w') = adb_outbox (aw_db w)"
      by (auto simp: tx_pure set_state_def Let_def dest: sym [of _ "aw_db w'"])
    with False old show ?thesis by simp
  next
    case True
    from poll_admit_success [OF adm] True
    have enq: "enqueue rk rule k ?st now (set_state k ?st (aw_db w), []) = (Inr (), aw_db w', [])"
      by (simp add: k_def Let_def)
    have occ: "occurred_at ?st = now" using phase True
      by (auto simp: occurred_at_def next_state_def Let_def phase_of_def split: option.splits if_splits)
    have st_first: "st_first_triggered_at ?st = (case phase_of k w of Quiet \<Rightarrow> now | Firing f _ _ \<Rightarrow> f)"
      using phase True by (auto simp: next_state_def Let_def phase_of_def split: option.splits if_splits)
    have fresh: "(?job, r) \<notin> set (adb_outbox (aw_db w))" for r
    proof
      assume in_box: "(?job, r) \<in> set (adb_outbox (aw_db w))"
      have dim: "pi_dim ?job = k" by (simp add: job_identity_def)
      note past = jobs_beforeD [OF before(1) in_box dim]
      show False
      proof (cases "phase_of k w")
        case Quiet
        with st_first past(1) before(2) show False by (simp add: job_identity_def)
      next
        case (Firing f l c)
        then have st: "?ex = Some st \<Longrightarrow> st_first_triggered_at st = f \<and> \<not> st_resolved st" "?ex \<noteq> None" for st
          by (auto simp: phase_of_def split: option.splits if_splits)
        show False
        proof (cases resolved)
          case True
          with st Firing past(3) show False
            by (auto simp: next_state_def Let_def job_identity_def)
        next
          case False
          with phase Firing \<open>n\<close> have "ru_trigger_mode rule \<noteq> ''once''" by (auto split: if_splits)
          with False \<open>n\<close> st past(2) [of now] before(2) show False
            by (auto simp: next_state_def Let_def job_identity_def)
        qed
      qed
    qed
    let ?db = "set_state k ?st (aw_db w)"
    from enqueue_pure [OF rule occ] enq
    have rows: "enqueue_rows ?job (adb_recipients ?db) (?db, []) = (Inr (), aw_db w', [])" by simp
    have same: "adb_recipients ?db = adb_recipients (aw_db w)" "adb_outbox ?db = adb_outbox (aw_db w)"
      by (simp_all add: set_state_def)
    from enqueue_rows_pure [of ?job "adb_recipients ?db" ?db] rows same distinct fresh
    have db: "aw_db w' = add_jobs ?job (adb_recipients (aw_db w)) ?db" by auto
    from db have now_state: "tget (adb_states (aw_db w')) k = Some ?st"
      by (simp add: add_jobs_def set_state_def tget_tput)
    have first_le: "f \<le> now" if "phase_of k w' = Firing f l c" for f l c
      using first [OF that] before by (auto simp: jobs_before_def)
    have "jobs_before k now w'"
      unfolding jobs_before_def
    proof (rule conjI; intro ballI impI allI)
      fix f l c assume "phase_of k w' = Firing f l c"
      then show "f \<le> now" by (rule first_le)
    next
      fix j assume j: "j \<in> set (adb_outbox (aw_db w'))" "pi_dim (fst j) = k"
      obtain i r where ir: "j = (i, r)" by (cases j)
      from j ir db same have "(i, r) \<in> set (adb_outbox (aw_db w)) \<or> i = ?job" by (auto simp: add_jobs_def)
      then show "pi_first_triggered_at (fst j) \<le> now \<and> (\<forall>s. pi_repeat (fst j) = Some s \<longrightarrow> s \<le> now) \<and>
        (\<forall>f l c. phase_of k w' = Firing f l c \<and> pi_first_triggered_at (fst j) = f \<longrightarrow> pi_status (fst j) = ''firing'')"
      proof
        assume "(i, r) \<in> set (adb_outbox (aw_db w))"
        from jobs_beforeD [OF before(1) this] j(2) ir before(2) first show ?thesis by fastforce
      next
        assume i: "i = ?job"
        from st_first before have "st_first_triggered_at ?st \<le> now"
          by (auto simp: jobs_before_def split: alert_phase.splits)
        with i ir now_state show ?thesis by (auto simp: job_identity_def phase_of_def)
      qed
    qed
    moreover have "pi_dim ?job = k" by (simp add: job_identity_def)
    ultimately show ?thesis using True db fresh by (auto simp: add_jobs_def set_state_def)
  qed
qed

section \<open>Properties\<close>

text \<open>
  Claim C20: over any sequence of polls of a rule on a server with failing statements, the
  decisions to notify and the state after it are those of the two-phase machine over the polls
  that were admitted; a poll that reports an error counts for nothing.
\<close>

theorem alert_polls_refine_phases:
  assumes "poll_run rk rule server_id polls w = (rs, w')"
  shows "phase_run (ru_trigger_mode rule) (admitted_polls polls rs) (phase_of (ru_id rule, server_id, '''') w) =
    (decisions rs, phase_of (ru_id rule, server_id, '''') w')"
  using assms
proof (induction polls arbitrary: rs w)
  case Nil
  then show ?case by (simp add: admitted_polls_def decisions_def)
next
  case (Cons p polls)
  obtain resolved now where p: "p = (resolved, now)" by (cases p)
  obtain r w1 where r: "admit_alert_transition rk rule server_id resolved now w = (r, w1)" by fastforce
  obtain rs1 w2 where rest: "poll_run rk rule server_id polls w1 = (rs1, w2)" by fastforce
  from Cons.prems p r rest have rs: "rs = r # rs1" "w' = w2" by auto
  note IH = Cons.IH [OF rest [folded rs(2)]]
  show ?case
  proof (cases r)
    case (Inl e)
    with r have "aw_db w1 = aw_db w" by (simp add: poll_admit_failure)
    with IH rs Inl show ?thesis by (simp add: phase_of_def)
  next
    case (Inr n)
    with r have "phase_poll (ru_trigger_mode rule) (resolved, now) (phase_of (ru_id rule, server_id, '''') w) =
        (n, phase_of (ru_id rule, server_id, '''') w1)" using admit_phase by simp
    with IH rs Inr p show ?thesis by simp
  qed
qed

lemma poll_jobs:
  assumes "poll_run rk rule server_id polls w = (rs, w')"
    and "ordinary_rule rk rule" and "distinct (adb_recipients (aw_db w))"
    and "adb_recipients (aw_db w) \<noteq> []" and "jobs_before (ru_id rule, server_id, '''') t w" and "sorted_wrt (<) (t # map snd polls)"
  shows "\<exists>ids. distinct ids \<and> length ids = length (filter (\<lambda>b. b) (decisions rs)) \<and>
    (\<forall>i \<in> set ids. \<forall>r. pi_dim i = (ru_id rule, server_id, '''') \<and> (i, r) \<notin> set (adb_outbox (aw_db w))) \<and>
    adb_outbox (aw_db w') = adb_outbox (aw_db w) @ concat (map (\<lambda>i. map (Pair i) (adb_recipients (aw_db w))) ids)"
  using assms
proof (induction polls arbitrary: rs w t)
  case Nil
  then show ?case by (intro exI [of _ "[]"]) (simp add: decisions_def)
next
  case (Cons p polls)
  let ?k = "(ru_id rule, server_id, '''')"
  obtain resolved now where p: "p = (resolved, now)" by (cases p)
  obtain r w1 where r: "admit_alert_transition rk rule server_id resolved now w = (r, w1)" by fastforce
  obtain rs1 where rest: "poll_run rk rule server_id polls w1 = (rs1, w')" and rs: "rs = r # rs1"
    using Cons.prems(1) p r by (auto split: prod.splits)
  from Cons.prems(6) p have t: "t < now" "sorted_wrt (<) (now # map snd polls)" by auto
  show ?case
  proof (cases r)
    case (Inl e)
    with r have "aw_db w1 = aw_db w" by (simp add: poll_admit_failure)
    moreover from this Cons.prems(5) have "jobs_before ?k t w1"
      by (simp add: jobs_before_def phase_of_def)
    moreover have "sorted_wrt (<) (t # map snd polls)" using t by fastforce
    ultimately show ?thesis using Cons.IH [OF rest] Cons.prems(2-4) rs Inl by simp
  next
    case (Inr n)
    note adm = admit_jobs [OF r [unfolded Inr] Cons.prems(2,3,5) t(1)]
    let ?recs = "adb_recipients (aw_db w)"
    from adm Cons.prems(3,4) have "distinct (adb_recipients (aw_db w1))" "adb_recipients (aw_db w1) \<noteq> []" "jobs_before ?k now w1"
      and same: "adb_recipients (aw_db w1) = ?recs" by auto
    from Cons.IH [OF rest Cons.prems(2) this(1-3) t(2)] same obtain ids where ids: "distinct ids"
      "length ids = length (filter (\<lambda>b. b) (decisions rs1))"
      "\<forall>i \<in> set ids. \<forall>r. pi_dim i = ?k \<and> (i, r) \<notin> set (adb_outbox (aw_db w1))"
      "adb_outbox (aw_db w') = adb_outbox (aw_db w1) @ concat (map (\<lambda>i. map (Pair i) ?recs) ids)"
      by auto
    show ?thesis
    proof (cases n)
      case False
      with adm ids rs Inr show ?thesis by (intro exI [of _ ids]) auto
    next
      case True
      with adm obtain i where i: "pi_dim i = ?k" "\<forall>r. (i, r) \<notin> set (adb_outbox (aw_db w))"
        "adb_outbox (aw_db w1) = adb_outbox (aw_db w) @ map (Pair i) ?recs" by auto
      from ids i Cons.prems(4) have "i \<notin> set ids" by (fastforce simp: neq_Nil_conv)
      with ids i rs Inr \<open>n\<close> show ?thesis by (intro exI [of _ "i # ids"]) auto
    qed
  qed
qed

theorem alert_polls_refine_phases_witness:
  "\<exists>w'. poll_run sample_codec sample_rule ''s'' [(False, seconds 10), (False, seconds 70), (False, seconds 400), (True, seconds 460)]
       (sample_world (replicate 10 False @ [True])) = ([Inr True, Inl db_error, Inr True, Inr True], w') \<and>
     phase_run ''always'' [(False, seconds 10), (False, seconds 400), (True, seconds 460)] Quiet = ([True, True, True], phase_of (''r'', ''s'', '''') w')"
proof -
  let ?run = "poll_run sample_codec sample_rule ''s'' [(False, seconds 10), (False, seconds 70), (False, seconds 400), (True, seconds 460)]
       (sample_world (replicate 10 False @ [True]))"
  have rs: "fst ?run = [Inr True, Inl db_error, Inr True, Inr True]"
    by code_simp
  then have run: "?run = ([Inr True, Inl db_error, Inr True, Inr True], snd ?run)"
    by (metis prod.collapse)
  from alert_polls_refine_phases [OF run] run show ?thesis
    by (intro exI [of _ "snd ?run"]) (simp add: sample_rule_def phase_of_def sample_world_def decisions_def admitted_polls_def)
qed

text \<open>
  Claim C19: on a clock that moves forward, each decision of a run of polls leaves exactly one new
  job for each recipient, all of one decision with one identity, and nothing else does, whatever
  statements fail in between.
\<close>

theorem alert_jobs_exactly_once:
  assumes "poll_run rk rule server_id polls w = (rs, w')" and "ordinary_rule rk rule"
    and "distinct (adb_recipients (aw_db w))" and "adb_recipients (aw_db w) \<noteq> []"
    and "phase_of (ru_id rule, server_id, '''') w = Quiet"
    and "list_all (\<lambda>j. pi_dim (fst j) \<noteq> (ru_id rule, server_id, '''')) (adb_outbox (aw_db w))"
    and "sorted_wrt (<) (map snd polls)"
  shows "\<exists>ids. distinct ids \<and> length ids = length (filter (\<lambda>b. b) (decisions rs)) \<and>
    (\<forall>i \<in> set ids. pi_dim i = (ru_id rule, server_id, '''')) \<and>
    adb_outbox (aw_db w') = adb_outbox (aw_db w) @ concat (map (\<lambda>i. map (Pair i) (adb_recipients (aw_db w))) ids)"
proof -
  obtain t where "sorted_wrt (<) (t # map snd polls)"
  proof (cases polls)
    case Nil
    then show ?thesis by (intro that [of 0]) simp
  next
    case (Cons p ps)
    with assms(7) show ?thesis by (intro that [of "snd p - 1"]) fastforce
  qed
  moreover from assms(5,6) have "jobs_before (ru_id rule, server_id, '''') t w"
    by (auto simp: jobs_before_def list_all_iff)
  ultimately show ?thesis using poll_jobs [OF assms(1-4)] by blast
qed

theorem alert_jobs_exactly_once_witness:
  "\<exists>rs w'. poll_run sample_codec sample_rule ''s'' [(False, seconds 10), (False, seconds 70), (True, seconds 400)]
       (sample_world [False, True]) = (rs, w') \<and>
     (\<exists>ids. distinct ids \<and> length ids = length (filter (\<lambda>b. b) (decisions rs)) \<and>
       adb_outbox (aw_db w') = concat (map (\<lambda>i. [(i, ''phone'')]) ids))"
proof -
  let ?run = "poll_run sample_codec sample_rule ''s'' [(False, seconds 10), (False, seconds 70), (True, seconds 400)]
       (sample_world [False, True])"
  obtain rs w' where run: "?run = (rs, w')" by fastforce
  from alert_jobs_exactly_once [OF run] run show ?thesis
    by (auto simp: ordinary_rule_def sample_codec_def sample_rule_def sample_world_def phase_of_def
        SECURITY_RULE_TYPES_def)
qed

end
