(* ===== verification/Alert_Events.thy ===== *)
theory Alert_Events
  imports Alert_Admission "HOL-Library.Multiset"
begin

text \<open>
  One-shot events between their capture and their replay: any number of replay passes (the
  handlers' and the evaluator's) interleave with captures, every statement may fail, and the server may
  crash.  What is decided for an event depends only on the events before it, and no decision is lost
  or repeated, except that a crash takes the notifications that are being attempted with it.
\<close>

section \<open>Passes and captures\<close>

text \<open>
  A pass owns the snapshot it read, less what it processed, and the dimensions that failed in it.
  It commits an item under the admission lock and notifies after releasing it, so other passes run in
  between; the notification under way is kept apart.  Three logs: the intents captured, the
  notifications begun (in the order of the commits), and those a crash took away.
\<close>

record event_world =
  ew_world :: alert_world
  ew_passes :: "(nat, event_intent list \<times> (string \<times> string) list) table"
  ew_in_flight :: "(nat, alert_rule \<times> event_intent) table"
  ew_log :: "event_intent list"
  ew_begun :: "(alert_rule \<times> event_intent) list"
  ew_lost :: "(alert_rule \<times> event_intent) list"

datatype event_move =
  CaptureEvent string string datetime datetime
| PassBegin nat
| PassNext nat datetime
| PassNotify nat
| Crash

definition captured :: "alert_world \<Rightarrow> alert_world \<Rightarrow> event_intent list" where
  "captured w w' = drop (length (adb_intents (aw_db w))) (adb_intents (aw_db w'))"

fun event_step :: "'f rule_codec \<Rightarrow> event_move \<Rightarrow> event_world \<Rightarrow> event_world" where
  "event_step rk (CaptureEvent server_id event_type occurred now) ew =
     (let w' = snd (transaction (capture rk server_id event_type occurred now) (ew_world ew))
      in ew\<lparr>ew_world := w', ew_log := ew_log ew @ captured (ew_world ew) w'\<rparr>)"
| "event_step rk (PassBegin p) ew =
     (if thas (ew_in_flight ew) p then ew
      else case replay_snapshot (aw_db (ew_world ew), aw_faults (ew_world ew)) of
        (Inl e, _, fs) \<Rightarrow> ew\<lparr>ew_world := (ew_world ew)\<lparr>aw_faults := fs\<rparr>\<rparr>
      | (Inr items, _, fs) \<Rightarrow> ew\<lparr>ew_world := (ew_world ew)\<lparr>aw_faults := fs\<rparr>,
          ew_passes := tput p (items, []) (ew_passes ew)\<rparr>)"
| "event_step rk (PassNext p now) ew =
     (if thas (ew_in_flight ew) p then ew
      else case tget (ew_passes ew) p of
        Some (i # items, failed) \<Rightarrow>
          let (failed', task, w') = replay_item rk now i (failed, ew_world ew);
              ew' = ew\<lparr>ew_world := w', ew_passes := tput p (items, failed') (ew_passes ew)\<rparr>
          in (case task of
                None \<Rightarrow> ew'
              | Some t \<Rightarrow> ew'\<lparr>ew_in_flight := tput p t (ew_in_flight ew), ew_begun := ew_begun ew @ [t]\<rparr>)
      | _ \<Rightarrow> ew)"
| "event_step rk (PassNotify p) ew =
     (case tget (ew_in_flight ew) p of
        None \<Rightarrow> ew
      | Some t \<Rightarrow> ew\<lparr>ew_world := replay_notify (Some t) (ew_world ew), ew_in_flight := tdel p (ew_in_flight ew)\<rparr>)"
| "event_step rk Crash ew =
     ew\<lparr>ew_world := load_from_db ((ew_world ew)\<lparr>aw_triggered := []\<rparr>), ew_passes := [], ew_in_flight := [],
       ew_lost := ew_lost ew @ map snd (ew_in_flight ew)\<rparr>"

text \<open>From a world in which no pass runs.\<close>

definition at_rest :: "alert_world \<Rightarrow> event_world" where
  "at_rest w = \<lparr>ew_world = w, ew_passes = [], ew_in_flight = [], ew_log = [], ew_begun = [], ew_lost = []\<rparr>"

definition event_run :: "'f rule_codec \<Rightarrow> event_move list \<Rightarrow> event_world \<Rightarrow> event_world" where
  "event_run rk steps ew = fold (event_step rk) steps ew"

section \<open>The reference\<close>

text \<open>The decisions for events at given times: each looks at the one before.\<close>

fun ref_events ::
  "string \<Rightarrow> (datetime \<times> datetime \<times> int) option \<Rightarrow> datetime list \<Rightarrow> (datetime \<times> datetime \<times> int \<times> bool) list" where
  "ref_events mode previous [] = []"
| "ref_events mode previous (t # ts) =
     (let first = (case previous of None \<Rightarrow> t | Some (first, _, _) \<Rightarrow> first);
          c = (case previous of None \<Rightarrow> 1 | Some (_, _, c) \<Rightarrow> saturating_succ_i32 c)
      in (first, t, c, event_notifies mode previous t) # ref_events mode (Some (first, t, c)) ts)"

definition decision_of :: "event_intent \<Rightarrow> datetime \<times> datetime \<times> int \<times> bool" where
  "decision_of i = (ei_first_triggered_at i, ei_occurred_at i, ei_count i, ei_should_notify i)"

section \<open>Capture\<close>

definition open_state :: "string \<Rightarrow> string \<Rightarrow> alert_db \<Rightarrow> alert_state option" where
  "open_state rid sid db =
     (case tget (adb_states db) (rid, sid, '''') of
        Some st \<Rightarrow> if st_resolved st then None else Some st | None \<Rightarrow> None)"

definition pending_of :: "string \<Rightarrow> string \<Rightarrow> alert_db \<Rightarrow> event_intent list" where
  "pending_of rid sid db = pending_for rid sid (adb_intents db)"

text \<open>What the next capture will look at.\<close>

definition previous_in :: "string \<Rightarrow> string \<Rightarrow> alert_db \<Rightarrow> (datetime \<times> datetime \<times> int) option" where
  "previous_in rid sid db =
     previous_of (if pending_of rid sid db = [] then None else Some (last (pending_of rid sid db)))
       (open_state rid sid db)"

lemma fault_blind_capture_rules [fault_blind_intros]: "fault_blind (capture_rules rk server_id event_type t rules)"
  by (induction rules) (simp_all add: fault_blind_intros Let_def split: option.split)

lemma fault_blind_capture [fault_blind_intros]: "fault_blind (capture rk server_id event_type t now)"
  unfolding capture_def by (intro fault_blind_intros)

lemma fault_blind_replay_body [fault_blind_intros]: "fault_blind (replay_body rk i now)"
  unfolding replay_body_def Let_def by (intro fault_blind_intros)

definition fresh_intents :: "alert_db \<Rightarrow> event_intent list \<Rightarrow> bool" where
  "fresh_intents db xs \<longleftrightarrow>
     map ei_id xs = [adb_next_intent db ..< adb_next_intent db + length xs]"

text \<open>
  A capture appends intents with the next identifiers; for one rule and server it appends at most
  one, which decides on what was there before.
\<close>

lemma capture_rules_pure:
  assumes "capture_rules rk server_id event_type t rules (db, []) = (Inr (), db', [])"
    and "distinct (map ru_id rules)"
  shows "\<exists>xs. db' = db\<lparr>adb_intents := adb_intents db @ xs, adb_next_intent := adb_next_intent db + length xs\<rparr> \<and>
    fresh_intents db xs \<and>
    (\<forall>rid. pending_for rid server_id xs = [] \<or>
       (\<exists>r \<in> set rules. ru_id r = rid \<and> (\<exists>n. pending_for rid server_id xs =
          [new_intent n r server_id event_type (previous_in rid server_id db) t]))) \<and>
    (\<forall>i \<in> set xs. ei_server_id i = server_id \<and> ei_rule_id i \<in> ru_id ` set rules)"
  using assms
proof (induction rules arbitrary: db)
  case Nil
  then show ?case by (intro exI [of _ "[]"]) (simp add: tx_pure fresh_intents_def pending_for_def)
next
  case (Cons rule rules)
  then obtain items where items: "rk_parse_items rk (ru_rules_json rule) = Some items"
    by (auto simp: tx_pure split: option.splits)
  show ?case
  proof (cases "event_applies rk rule items server_id event_type")
    case False
    with Cons.prems items have "capture_rules rk server_id event_type t rules (db, []) = (Inr (), db', [])"
      by simp
    from Cons.IH [OF this] Cons.prems(2) show ?thesis by fastforce
  next
    case True
    let ?rid = "ru_id rule"
    let ?i = "new_intent (adb_next_intent db) rule server_id event_type (previous_in ?rid server_id db) t"
    let ?db = "db\<lparr>adb_intents := adb_intents db @ [?i], adb_next_intent := adb_next_intent db + 1\<rparr>"
    from True Cons.prems items have "capture_rules rk server_id event_type t rules (?db, []) = (Inr (), db', [])"
      by (simp add: tx_bind_def tx_pure append_intent_def previous_in_def pending_of_def open_state_def Let_def
          cong: if_cong)
    from Cons.IH [OF this] Cons.prems(2) obtain xs where
      xs: "db' = ?db\<lparr>adb_intents := adb_intents ?db @ xs, adb_next_intent := adb_next_intent ?db + length xs\<rparr>"
        "fresh_intents ?db xs"
      and one: "\<And>rid. pending_for rid server_id xs = [] \<or>
       (\<exists>r \<in> set rules. ru_id r = rid \<and> (\<exists>n. pending_for rid server_id xs =
          [new_intent n r server_id event_type (previous_in rid server_id ?db) t]))"
      and dims: "\<forall>i \<in> set xs. ei_server_id i = server_id \<and> ei_rule_id i \<in> ru_id ` set rules"
      by auto
    have i: "ei_rule_id ?i = ?rid" "ei_server_id ?i = server_id" "ei_id ?i = adb_next_intent db"
      by (simp_all add: new_intent_def)
    have other: "previous_in rid server_id ?db = previous_in rid server_id db" if "rid \<noteq> ?rid" for rid
      using that i by (simp add: previous_in_def pending_of_def pending_for_def open_state_def)
    have none: "pending_for ?rid server_id xs = []"
    proof -
      have "ei_rule_id x \<noteq> ?rid" if "x \<in> set xs" for x
        using dims that Cons.prems(2) by (metis distinct.simps(2) list.simps(9) set_map)
      then show ?thesis by (auto simp: pending_for_def filter_empty_conv)
    qed
    have "pending_for rid server_id (?i # xs) = [] \<or>
       (\<exists>r \<in> set (rule # rules). ru_id r = rid \<and> (\<exists>n. pending_for rid server_id (?i # xs) =
          [new_intent n r server_id event_type (previous_in rid server_id db) t]))" for rid
    proof (cases "rid = ?rid")
      case True
      with none i show ?thesis by (auto simp: pending_for_def)
    next
      case False
      with one [of rid] i other [OF False] show ?thesis by (auto simp: pending_for_def)
    qed
    moreover have "fresh_intents db (?i # xs)"
      using xs(2) i by (simp add: fresh_intents_def upt_conv_Cons del: upt_Suc)
    ultimately show ?thesis using xs(1) dims i
      by (intro exI [of _ "?i # xs"]) auto
  qed
qed

lemma capture_pure:
  assumes "capture rk server_id event_type t now (db, []) = (Inr (), db', [])"
    and "distinct (map ru_id (adb_rules db))"
  shows "\<exists>xs. db' = db\<lparr>adb_intents := adb_intents db @ xs, adb_next_intent := adb_next_intent db + length xs\<rparr> \<and>
    fresh_intents db xs \<and>
    (\<forall>rid. pending_for rid server_id xs = [] \<or>
       (\<exists>r \<in> set (adb_rules db). ru_id r = rid \<and> (\<exists>n. pending_for rid server_id xs =
          [new_intent n r server_id event_type (previous_in rid server_id db) t]))) \<and>
    (\<forall>i \<in> set xs. ei_server_id i = server_id)"
proof (cases "is_in_maintenance_at rk (adb_maintenance db) server_id now")
  case True
  with assms show ?thesis
    by (intro exI [of _ "[]"]) (simp add: capture_def tx_bind_def tx_pure fresh_intents_def pending_for_def)
next
  case False
  with assms(1) have "capture_rules rk server_id event_type t (filter ru_enabled (adb_rules db)) (db, []) = (Inr (), db', [])"
    by (simp add: capture_def tx_bind_def tx_pure)
  from capture_rules_pure [OF this distinct_map_filter [OF assms(2)]] show ?thesis by fastforce
qed

section \<open>Replay\<close>

definition same_config :: "alert_db \<Rightarrow> alert_db \<Rightarrow> bool" where
  "same_config db db' \<longleftrightarrow> adb_rules db' = adb_rules db \<and> adb_servers db' = adb_servers db \<and>
     adb_next_intent db' = adb_next_intent db"

text \<open>The times of the notifications attempted for a rule and server.\<close>

fun notified_at :: "string \<Rightarrow> string \<Rightarrow> notification \<Rightarrow> datetime list" where
  "notified_at rid sid (Notified r s e t) = (if r = rid \<and> s = sid \<and> e = ''triggered'' then [t] else [])"

definition sent_times :: "string \<Rightarrow> string \<Rightarrow> alert_world \<Rightarrow> datetime list" where
  "sent_times rid sid w = concat (map (notified_at rid sid) (aw_sent w))"

text \<open>The same of the notifications begun.\<close>

definition task_times :: "string \<Rightarrow> string \<Rightarrow> alert_rule \<times> event_intent \<Rightarrow> datetime list" where
  "task_times rid sid = (\<lambda>(rule, item).
     if ru_id rule = rid \<and> ei_server_id item = sid \<and> ru_notification_group_id rule \<noteq> None
     then [ei_occurred_at item] else [])"

definition begun_times :: "string \<Rightarrow> string \<Rightarrow> (alert_rule \<times> event_intent) list \<Rightarrow> datetime list" where
  "begun_times rid sid ts = concat (map (task_times rid sid) ts)"

definition option_times :: "string \<Rightarrow> string \<Rightarrow> (alert_rule \<times> event_intent) option \<Rightarrow> datetime list" where
  "option_times rid sid t = (case t of None \<Rightarrow> [] | Some t \<Rightarrow> task_times rid sid t)"

definition known_rule :: "alert_rule \<Rightarrow> string \<Rightarrow> alert_db \<Rightarrow> bool" where
  "known_rule rule sid db \<longleftrightarrow>
     distinct (map ru_id (adb_rules db)) \<and> rule \<in> set (adb_rules db) \<and> ru_enabled rule \<and>
     ru_notification_group_id rule \<noteq> None \<and> tget (adb_servers db) sid \<noteq> None"

lemma known_rule_find:
  assumes "known_rule rule sid db"
  shows "find (\<lambda>r. ru_id r = ru_id rule) (adb_rules db) = Some rule"
proof -
  from assms have "find (\<lambda>r. ru_id r = ru_id rule) (adb_rules db) \<noteq> None"
    by (auto simp: known_rule_def find_None_iff)
  then obtain r where "find (\<lambda>r. ru_id r = ru_id rule) (adb_rules db) = Some r" by blast
  moreover from this have "r \<in> set (adb_rules db)" "ru_id r = ru_id rule"
    by (auto simp: find_Some_iff)
  ultimately show ?thesis using assms by (auto simp: known_rule_def distinct_map dest: inj_onD)
qed

lemma replay_begin_error:
  assumes "replay_begin rk i now w = (Inl e, w')"
  shows "aw_db w' = aw_db w"
proof -
  from assms have "transaction (replay_body rk i now) w = (Inl e, w')"
    by (auto simp: replay_begin_def split: prod.splits sum.splits option.splits)
  from transaction_error [OF this] show ?thesis by (metis alert_world.select_convs(1) alert_world.surjective alert_world.update_convs(4))
qed

lemma transaction_sent: "transaction m w = (r, w') \<Longrightarrow> aw_sent w' = aw_sent w"
  by (auto simp: transaction_def split: prod.splits sum.splits)

lemma enqueue_no_faults:
  assumes "enqueue rk rule k st now (db, []) = (Inr u, db', fs)"
  shows "fs = []"
proof -
  have "fs = []" if "enqueue_rows j rows (db, []) = (Inr u, db', fs)" for j rows
    using enqueue_rows_pure [of j rows db] that by auto
  with assms show ?thesis
    by (auto simp: enqueue_def Let_def tx_bind_def tx_pure split: option.splits if_splits)
qed

text \<open>What a successful replay of a pending intent leaves.\<close>

lemma replay_begin_pending:
  assumes "replay_begin rk (ei_id i) now w = (Inr task, w')"
    and "find (\<lambda>x. ei_id x = ei_id i) (adb_intents (aw_db w)) = Some i"
  shows "same_config (aw_db w) (aw_db w') \<and>
    adb_intents (aw_db w') = filter (\<lambda>x. ei_id x \<noteq> ei_id i) (adb_intents (aw_db w)) \<and>
    (\<forall>rid sid. (rid, sid) \<noteq> (ei_rule_id i, ei_server_id i) \<longrightarrow>
       open_state rid sid (aw_db w') = open_state rid sid (aw_db w) \<and> option_times rid sid task = []) \<and>
    (\<forall>rule. known_rule rule (ei_server_id i) (aw_db w) \<and> ru_id rule = ei_rule_id i \<longrightarrow>
       open_state (ru_id rule) (ei_server_id i) (aw_db w') = Some (event_state None i) \<and>
       option_times (ru_id rule) (ei_server_id i) task = (if ei_should_notify i then [ei_occurred_at i] else []))"
proof -
  let ?b = "replay_body rk (ei_id i) now" and ?k = "(ei_rule_id i, ei_server_id i, '''')"
  obtain r w1 where t: "transaction ?b w = (Inr r, w1)"
    using assms(1) by (auto simp: replay_begin_def split: prod.splits sum.splits)
  have task: "task = (case r of None \<Rightarrow> None | Some (rule, item, st) \<Rightarrow> if ei_should_notify item then Some (rule, item) else None)"
    using assms(1) t by (auto simp: replay_begin_def split: option.splits prod.splits)
  have db: "aw_db w' = aw_db w1"
    using assms(1) t by (auto simp: replay_begin_def publish_state_def Let_def split: option.splits prod.splits)
  have run: "?b (aw_db w, []) = (Inr r, aw_db w1, [])"
    using transaction_success [OF t] by (simp add: fault_blind_intros)
  let ?rule = "case find (\<lambda>r. ru_id r = ei_rule_id i) (adb_rules (aw_db w)) of
      Some r \<Rightarrow> if ru_enabled r then Some r else None | None \<Rightarrow> None"
  show ?thesis
  proof (cases "tget (adb_servers (aw_db w)) (ei_server_id i) = None \<or> ?rule = None")
    case True
    with run assms(2) have "r = None" "aw_db w1 = delete_intent (ei_id i) (aw_db w)"
      by (auto simp: replay_body_def tx_bind_def tx_pure Let_def split: option.splits if_splits)
    moreover have "\<not> known_rule rule (ei_server_id i) (aw_db w)" if "ru_id rule = ei_rule_id i" for rule
    proof
      assume known: "known_rule rule (ei_server_id i) (aw_db w)"
      from known_rule_find [OF this] that known True show False by (simp add: known_rule_def)
    qed
    ultimately show ?thesis using task db
      by (auto simp: delete_intent_def same_config_def open_state_def option_times_def)
  next
    case False
    then obtain rule where rule: "?rule = Some rule" by auto
    let ?st = "event_state (tget (adb_states (aw_db w)) ?k) i"
    let ?rule' = "rule\<lparr>ru_trigger_mode := ei_trigger_mode i\<rparr>"
    from run assms(2) False rule obtain db2 where
      enq: "(if ei_should_notify i then enqueue rk ?rule' ?k ?st now else tx_return ()) (set_state ?k ?st (aw_db w), []) = (Inr (), db2, [])"
      and db2: "aw_db w1 = delete_intent (ei_id i) db2" and r: "r = Some (?rule', i, ?st)"
      by (auto simp: replay_body_def tx_bind_def tx_pure Let_def dest: enqueue_no_faults
          split: if_splits prod.splits sum.splits)
    have "\<exists>j rows. db2 = add_jobs j rows (set_state ?k ?st (aw_db w))"
    proof (cases "ei_should_notify i")
      case True
      with enq show ?thesis using enqueue_keeps_states by simp
    next
      case False
      with enq show ?thesis by (intro exI [of _ undefined] exI [of _ "[]"]) (simp add: tx_pure add_jobs_def)
    qed
    with db db2 have tables: "adb_intents (aw_db w') = filter (\<lambda>x. ei_id x \<noteq> ei_id i) (adb_intents (aw_db w))"
      "adb_states (aw_db w') = tput ?k ?st (adb_states (aw_db w))" "same_config (aw_db w) (aw_db w')"
      by (auto simp: add_jobs_def set_state_def delete_intent_def same_config_def)
    have times: "option_times rid sid task =
        (if ru_notification_group_id rule \<noteq> None \<and> ei_should_notify i \<and> rid = ru_id rule \<and> sid = ei_server_id i
         then [ei_occurred_at i] else [])" for rid sid
      using task r by (auto simp: option_times_def task_times_def)
    have id: "ru_id rule = ei_rule_id i" using rule by (auto simp: find_Some_iff split: option.splits if_splits)
    have same: "rule' = rule" if "known_rule rule' (ei_server_id i) (aw_db w)" "ru_id rule' = ei_rule_id i" for rule'
      using known_rule_find [OF that(1)] that(2) rule by (auto split: if_splits)
    have own: "open_state (ru_id rule2) (ei_server_id i) (aw_db w') = Some (event_state None i) \<and>
       option_times (ru_id rule2) (ei_server_id i) task = (if ei_should_notify i then [ei_occurred_at i] else [])"
      if "known_rule rule2 (ei_server_id i) (aw_db w)" "ru_id rule2 = ei_rule_id i" for rule2
    proof -
      from same [OF that] that(1) have "rule2 = rule" "ru_notification_group_id rule \<noteq> None"
        by (auto simp: known_rule_def)
      with tables times [of "ru_id rule" "ei_server_id i"] id show ?thesis
        by (simp add: open_state_def tget_tput event_state_def)
    qed
    have "open_state rid sid (aw_db w') = open_state rid sid (aw_db w) \<and> option_times rid sid task = []"
      if "(rid, sid) \<noteq> (ei_rule_id i, ei_server_id i)" for rid sid
      using that tables times [of rid sid] id by (auto simp: open_state_def tget_tput)
    with own tables show ?thesis by blast
  qed
qed

section \<open>The invariant of captures and passes\<close>

definition ids_ok :: "alert_db \<Rightarrow> bool" where
  "ids_ok db \<longleftrightarrow> sorted_wrt (<) (map ei_id (adb_intents db)) \<and> (\<forall>i \<in> set (adb_intents db). ei_id i < adb_next_intent db)"

text \<open>
  The items left of a pass are pending as they were read or gone, and unless a dimension failed
  in it, the pass still holds everything pending before its items.
\<close>

definition pass_ok :: "string \<Rightarrow> string \<Rightarrow> alert_db \<Rightarrow> event_intent list \<times> (string \<times> string) list \<Rightarrow> bool" where
  "pass_ok rid sid db = (\<lambda>(items, failed).
     sorted_wrt (<) (map ei_id items) \<and> (\<forall>x \<in> set items. ei_id x < adb_next_intent db) \<and>
     (\<forall>x \<in> set items. \<forall>y \<in> set (adb_intents db). ei_id y = ei_id x \<longrightarrow> y = x) \<and>
     ((rid, sid) \<in> set failed \<or>
      (\<forall>x \<in> set items. \<forall>y \<in> set (pending_of rid sid db).
         ei_rule_id x = rid \<and> ei_server_id x = sid \<and> ei_id y < ei_id x \<longrightarrow> y \<in> set items)))"

lemma ids_ok_distinct: "ids_ok db \<Longrightarrow> i \<in> set (adb_intents db) \<Longrightarrow> j \<in> set (adb_intents db) \<Longrightarrow> ei_id i = ei_id j \<Longrightarrow> i = j"
  by (auto simp: ids_ok_def strict_sorted_iff distinct_map dest: inj_onD)

lemma ids_ok_find:
  "ids_ok db \<Longrightarrow> i \<in> set (adb_intents db) \<Longrightarrow> find (\<lambda>x. ei_id x = ei_id i) (adb_intents db) = Some i"
proof -
  assume ok: "ids_ok db" and i: "i \<in> set (adb_intents db)"
  then obtain x where "find (\<lambda>x. ei_id x = ei_id i) (adb_intents db) = Some x"
    by (metis (mono_tags, lifting) find_None_iff not_None_eq)
  moreover from this have "x \<in> set (adb_intents db)" "ei_id x = ei_id i" by (auto simp: find_Some_iff)
  ultimately show ?thesis using ids_ok_distinct [OF ok] i by metis
qed

lemma ids_ok_filter: "ids_ok db \<Longrightarrow> sorted_wrt (<) (map ei_id (filter P (adb_intents db)))"
  by (auto simp: ids_ok_def sorted_wrt_map intro: sorted_wrt_filter)

text \<open>Deleting an intent keeps both.\<close>

lemma ids_ok_delete:
  assumes "ids_ok db" "same_config db db'" "adb_intents db' = filter P (adb_intents db)"
  shows "ids_ok db'"
  using assms ids_ok_filter [OF assms(1), of P] by (auto simp: ids_ok_def same_config_def)

lemma pass_ok_delete:
  assumes "pass_ok rid sid db pass" "same_config db db'" "adb_intents db' = filter P (adb_intents db)"
  shows "pass_ok rid sid db' pass"
  using assms by (cases pass) (auto simp: pass_ok_def same_config_def pending_of_def pending_for_def)

text \<open>So does appending fresh ones.\<close>

lemma fresh_ge: "fresh_intents db xs \<Longrightarrow> x \<in> set xs \<Longrightarrow> adb_next_intent db \<le> ei_id x \<and> ei_id x < adb_next_intent db + length xs"
proof -
  assume "fresh_intents db xs" "x \<in> set xs"
  then have "ei_id x \<in> set [adb_next_intent db ..< adb_next_intent db + length xs]"
    by (metis fresh_intents_def image_eqI set_map)
  then show ?thesis by simp
qed

lemma ids_ok_append:
  assumes "ids_ok db" "fresh_intents db xs"
  shows "ids_ok (db\<lparr>adb_intents := adb_intents db @ xs, adb_next_intent := adb_next_intent db + length xs\<rparr>)"
proof -
  have "sorted_wrt (<) (map ei_id xs)" using assms(2) by (simp add: fresh_intents_def sorted_wrt_upt)
  with assms fresh_ge [OF assms(2)] show ?thesis
    by (fastforce simp: ids_ok_def sorted_wrt_append)
qed

lemma pass_ok_append:
  assumes "pass_ok rid sid db pass" "fresh_intents db xs"
  shows "pass_ok rid sid (db\<lparr>adb_intents := adb_intents db @ xs, adb_next_intent := adb_next_intent db + length xs\<rparr>) pass"
proof -
  obtain items failed where pass: "pass = (items, failed)" by (cases pass)
  have old: "ei_id x < ei_id y" if "x \<in> set items" "y \<in> set xs" for x y
  proof -
    from assms(1) pass that(1) have "ei_id x < adb_next_intent db" by (simp add: pass_ok_def)
    with fresh_ge [OF assms(2) that(2)] show ?thesis by simp
  qed
  have 1: "sorted_wrt (<) (map ei_id items)" and 2: "\<forall>x \<in> set items. ei_id x < adb_next_intent db"
    and 3: "\<forall>x \<in> set items. \<forall>y \<in> set (adb_intents db). ei_id y = ei_id x \<longrightarrow> y = x"
    and 4: "(rid, sid) \<in> set failed \<or> (\<forall>x \<in> set items. \<forall>y \<in> set (pending_of rid sid db).
         ei_rule_id x = rid \<and> ei_server_id x = sid \<and> ei_id y < ei_id x \<longrightarrow> y \<in> set items)"
    using assms(1) unfolding pass_ok_def pass by simp_all
  let ?db = "db\<lparr>adb_intents := adb_intents db @ xs, adb_next_intent := adb_next_intent db + length xs\<rparr>"
  have "\<forall>x \<in> set items. \<forall>y \<in> set (adb_intents ?db). ei_id y = ei_id x \<longrightarrow> y = x"
    using 3 old by fastforce
  moreover have "(rid, sid) \<in> set failed \<or> (\<forall>x \<in> set items. \<forall>y \<in> set (pending_of rid sid ?db).
         ei_rule_id x = rid \<and> ei_server_id x = sid \<and> ei_id y < ei_id x \<longrightarrow> y \<in> set items)"
  proof (cases "(rid, sid) \<in> set failed")
    case False
    have "y \<in> set items" if "x \<in> set items" "y \<in> set (pending_of rid sid ?db)"
      "ei_rule_id x = rid" "ei_server_id x = sid" "ei_id y < ei_id x" for x y
    proof -
      from that(2) have "y \<in> set (pending_of rid sid db) \<or> y \<in> set xs"
        by (auto simp: pending_of_def pending_for_def)
      with old [OF that(1)] 4 False that show ?thesis by fastforce
    qed
    then show ?thesis by blast
  qed simp
  ultimately show ?thesis using 1 2 unfolding pass_ok_def pass by auto
qed

lemma pass_ok_begin:
  assumes "ids_ok db"
  shows "pass_ok rid sid db (take n (adb_intents db), [])"
proof -
  have "y \<in> set (take n (adb_intents db))"
    if "x \<in> set (take n (adb_intents db))" "y \<in> set (adb_intents db)" "ei_id y < ei_id x" for x y
  proof (rule ccontr)
    assume "y \<notin> set (take n (adb_intents db))"
    with that(2) have "y \<in> set (drop n (adb_intents db))" by (metis Un_iff append_take_drop_id set_append)
    moreover have "sorted_wrt (<) (map ei_id (take n (adb_intents db)) @ map ei_id (drop n (adb_intents db)))"
      using assms by (simp add: ids_ok_def flip: map_append)
    ultimately show False using that(1,3) by (fastforce simp: sorted_wrt_append)
  qed
  moreover have "sorted_wrt (<) (map ei_id (take n (adb_intents db)))"
    using assms by (simp add: ids_ok_def sorted_wrt_take flip: take_map)
  moreover have "\<forall>x \<in> set (take n (adb_intents db)). ei_id x < adb_next_intent db"
    using assms by (auto simp: ids_ok_def dest: in_set_takeD)
  moreover have "\<forall>x \<in> set (take n (adb_intents db)). \<forall>y \<in> set (adb_intents db). ei_id y = ei_id x \<longrightarrow> y = x"
    using ids_ok_distinct [OF assms] by (blast dest: in_set_takeD)
  moreover have "set (pending_of rid sid db) \<subseteq> set (adb_intents db)"
    by (auto simp: pending_of_def pending_for_def)
  ultimately show ?thesis unfolding pass_ok_def prod.case by blast
qed

definition after_events ::
  "(datetime \<times> datetime \<times> int) option \<Rightarrow> (datetime \<times> datetime \<times> int \<times> bool) list \<Rightarrow> (datetime \<times> datetime \<times> int) option" where
  "after_events previous ds = (if ds = [] then previous else (case last ds of (f, t, c, _) \<Rightarrow> Some (f, t, c)))"

lemma ref_events_snoc:
  "ref_events mode previous (ts @ [t]) =
   ref_events mode previous ts @ ref_events mode (after_events previous (ref_events mode previous ts)) [t]"
  by (induction ts arbitrary: previous) (auto simp: after_events_def Let_def)

lemma after_events_snoc: "after_events previous (ds @ [(f, t, c, b)]) = Some (f, t, c)"
  by (simp add: after_events_def)

definition notifying :: "event_intent list \<Rightarrow> datetime list" where
  "notifying xs = map ei_occurred_at (filter ei_should_notify xs)"

lemma notifying_Nil [simp]: "notifying [] = []"
  by (simp add: notifying_def)

lemma notifying_append [simp]: "notifying (xs @ ys) = notifying xs @ notifying ys"
  by (simp add: notifying_def)

lemma pending_for_append [simp]: "pending_for rid sid (xs @ ys) = pending_for rid sid xs @ pending_for rid sid ys"
  by (simp add: pending_for_def)

record event_base =
  eb_previous :: "(datetime \<times> datetime \<times> int) option"
  eb_times :: "datetime list"

definition event_inv :: "alert_rule \<Rightarrow> string \<Rightarrow> event_base \<Rightarrow> event_world \<Rightarrow> bool" where
  "event_inv rule sid base ew \<longleftrightarrow>
     (let db = aw_db (ew_world ew); rid = ru_id rule; log = pending_for rid sid (ew_log ew) in
      known_rule rule sid db \<and> ids_ok db \<and>
      (\<forall>p v. tget (ew_passes ew) p = Some v \<longrightarrow> pass_ok rid sid db v) \<and>
      map decision_of log = ref_events (ru_trigger_mode rule) (eb_previous base) (map ei_occurred_at log) \<and>
      previous_in rid sid db = after_events (eb_previous base) (map decision_of log) \<and>
      begun_times rid sid (ew_begun ew) @ notifying (pending_of rid sid db) = eb_times base @ notifying log)"

lemma event_inv_same:
  assumes "event_inv rule sid base ew" "aw_db (ew_world ew') = aw_db (ew_world ew)"
    "ew_begun ew' = ew_begun ew" "ew_log ew' = ew_log ew"
    "\<And>p v. tget (ew_passes ew') p = Some v \<Longrightarrow> pass_ok (ru_id rule) sid (aw_db (ew_world ew)) v"
  shows "event_inv rule sid base ew'"
  using assms by (simp add: event_inv_def Let_def)

lemma decision_of_new_intent:
  "ref_events (ru_trigger_mode r) previous [t] = [decision_of (new_intent n r server_id event_type previous t)]"
  by (auto simp: decision_of_def new_intent_def Let_def split: option.splits)

lemma event_inv_capture:
  assumes inv: "event_inv rule sid base ew"
    and db': "adb_intents db' = adb_intents (aw_db (ew_world ew)) @ xs"
      "adb_rules db' = adb_rules (aw_db (ew_world ew))" "adb_servers db' = adb_servers (aw_db (ew_world ew))"
      "adb_states db' = adb_states (aw_db (ew_world ew))"
      "adb_next_intent db' = adb_next_intent (aw_db (ew_world ew)) + length xs"
    and fresh: "fresh_intents (aw_db (ew_world ew)) xs"
    and one: "pending_for (ru_id rule) sid xs = [] \<or>
      (\<exists>n event_type. pending_for (ru_id rule) sid xs =
        [new_intent n rule sid event_type (previous_in (ru_id rule) sid (aw_db (ew_world ew))) t])"
    and ew': "aw_db (ew_world ew') = db'" "ew_begun ew' = ew_begun ew"
      "ew_log ew' = ew_log ew @ xs" "ew_passes ew' = ew_passes ew"
  shows "event_inv rule sid base ew'"
proof -
  let ?db = "aw_db (ew_world ew)" and ?rid = "ru_id rule"
  let ?db2 = "?db\<lparr>adb_intents := adb_intents ?db @ xs, adb_next_intent := adb_next_intent ?db + length xs\<rparr>"
  let ?log = "pending_for ?rid sid (ew_log ew)"
  note parts = inv [unfolded event_inv_def Let_def]
  have ids: "ids_ok db'"
    using ids_ok_append [OF _ fresh] parts db' by (simp add: ids_ok_def)
  have passes: "pass_ok ?rid sid db' v" if "tget (ew_passes ew') p = Some v" for p v
    using pass_ok_append [OF _ fresh, of ?rid sid v] that parts ew' db'
    by (cases v) (simp add: pass_ok_def pending_of_def)
  have known: "known_rule rule sid db'" using parts db' by (simp add: known_rule_def)
  have open': "open_state ?rid sid db' = open_state ?rid sid ?db" using db' by (simp add: open_state_def)
  have pend: "pending_of ?rid sid db' = pending_of ?rid sid ?db @ pending_for ?rid sid xs"
    using db' by (simp add: pending_of_def)
  from one show ?thesis
  proof
    assume none: "pending_for ?rid sid xs = []"
    then have "previous_in ?rid sid db' = previous_in ?rid sid ?db"
      using open' pend by (simp add: previous_in_def)
    with parts none known ids passes pend ew' show ?thesis
      by (simp add: event_inv_def Let_def)
  next
    assume "\<exists>n event_type. pending_for ?rid sid xs = [new_intent n rule sid event_type (previous_in ?rid sid ?db) t]"
    then obtain n et where new: "pending_for ?rid sid xs = [new_intent n rule sid et (previous_in ?rid sid ?db) t]" by blast
    let ?i = "new_intent n rule sid et (previous_in ?rid sid ?db) t"
    have occ: "ei_occurred_at ?i = t" by (simp add: new_intent_def)
    from parts have "ref_events (ru_trigger_mode rule) (eb_previous base) (map ei_occurred_at ?log @ [t]) =
        map decision_of ?log @ [decision_of ?i]"
      using ref_events_snoc [of "ru_trigger_mode rule" "eb_previous base" "map ei_occurred_at ?log" t]
        decision_of_new_intent [of rule "previous_in ?rid sid ?db" t n sid et] by simp
    moreover have "previous_in ?rid sid db' = Some (ei_first_triggered_at ?i, ei_occurred_at ?i, ei_count ?i)"
      using pend new by (simp add: previous_in_def previous_of_def)
    moreover have "after_events (eb_previous base) (map decision_of (?log @ [?i])) =
        Some (ei_first_triggered_at ?i, ei_occurred_at ?i, ei_count ?i)"
      by (simp add: after_events_def decision_of_def)
    ultimately show ?thesis using parts new known ids passes pend ew' occ
      by (simp add: event_inv_def Let_def)
  qed
qed

lemma pass_ok_tail:
  assumes "pass_ok rid sid db (i # items, failed)" "set failed \<subseteq> set failed'"
    and "(rid, sid) \<in> set failed' \<or> (rid, sid) \<noteq> (ei_rule_id i, ei_server_id i) \<or> i \<notin> set (adb_intents db)"
  shows "pass_ok rid sid db (items, failed')"
proof -
  have "y \<noteq> i" if "y \<in> set (pending_of rid sid db)" "(rid, sid) \<notin> set failed'" for y
    using that assms(3) by (auto simp: pending_of_def pending_for_def)
  with assms(1,2) show ?thesis unfolding pass_ok_def prod.case by fastforce
qed

lemma pending_first:
  assumes ids: "ids_ok db" and pass: "pass_ok rid sid db (i # items, failed)" and failed: "(rid, sid) \<notin> set failed"
    and i: "i \<in> set (adb_intents db)" "ei_rule_id i = rid" "ei_server_id i = sid"
  shows "\<exists>rest. pending_of rid sid db = i # rest \<and> filter (\<lambda>x. ei_id x \<noteq> ei_id i) rest = rest"
proof -
  have sorted: "sorted_wrt (<) (map ei_id (pending_of rid sid db))"
    using ids_ok_filter [OF ids] by (simp add: pending_of_def pending_for_def)
  have mem: "i \<in> set (pending_of rid sid db)" using i by (simp add: pending_of_def pending_for_def)
  then obtain y ys where ys: "pending_of rid sid db = y # ys" by (cases "pending_of rid sid db") auto
  have "y = i"
  proof (rule ccontr)
    assume "y \<noteq> i"
    with mem ys sorted have less: "ei_id y < ei_id i" by auto
    moreover have "y \<in> set (pending_of rid sid db)" using ys by simp
    ultimately have "y \<in> set (i # items)" using pass failed i unfolding pass_ok_def prod.case by auto
    with \<open>y \<noteq> i\<close> have "ei_id i < ei_id y" using pass by (auto simp: pass_ok_def)
    with less show False by simp
  qed
  moreover have "filter (\<lambda>x. ei_id x \<noteq> ei_id i) ys = ys"
    using sorted ys \<open>y = i\<close> by (auto simp: filter_id_conv)
  ultimately show ?thesis using ys by blast
qed

lemma replay_begin_gone:
  assumes "replay_begin rk n now w = (Inr task, w')" "find (\<lambda>x. ei_id x = n) (adb_intents (aw_db w)) = None"
  shows "aw_db w' = aw_db w \<and> task = None"
proof -
  obtain r w1 where t: "transaction (replay_body rk n now) w = (Inr r, w1)"
    using assms(1) by (auto simp: replay_begin_def split: prod.splits sum.splits)
  from transaction_success [OF t] have "replay_body rk n now (aw_db w, []) = (Inr r, aw_db w1, [])"
    by (simp add: fault_blind_intros)
  with assms(2) have "r = None" "aw_db w1 = aw_db w"
    by (auto simp: replay_body_def tx_bind_def tx_pure)
  with assms(1) t show ?thesis by (auto simp: replay_begin_def)
qed

lemma begun_times_snoc:
  "begun_times rid sid (ts @ (case task of None \<Rightarrow> [] | Some t \<Rightarrow> [t])) = begun_times rid sid ts @ option_times rid sid task"
  by (simp add: begun_times_def option_times_def split: option.split)

lemma event_inv_replayed:
  assumes inv: "event_inv rule sid base ew"
    and pass: "tget (ew_passes ew) p = Some (i # items, failed)"
    and go: "(ei_rule_id i, ei_server_id i) \<notin> set failed"
    and run: "replay_begin rk (ei_id i) now (ew_world ew) = (Inr task, w')"
    and i: "i \<in> set (adb_intents (aw_db (ew_world ew)))"
    and ew': "ew_world ew' = w'" "ew_passes ew' = tput p (items, failed) (ew_passes ew)" "ew_log ew' = ew_log ew"
      "ew_begun ew' = ew_begun ew @ (case task of None \<Rightarrow> [] | Some t \<Rightarrow> [t])"
  shows "event_inv rule sid base ew'"
proof -
  let ?db = "aw_db (ew_world ew)" and ?rid = "ru_id rule"
  let ?P = "\<lambda>x. ei_id x \<noteq> ei_id i"
  note parts = inv [unfolded event_inv_def Let_def]
  then have ids: "ids_ok ?db" and known: "known_rule rule sid ?db" by blast+
  from parts pass have pass_i: "pass_ok ?rid sid ?db (i # items, failed)" by blast
  note eff = replay_begin_pending [OF run ids_ok_find [OF ids i]]
  then have conf: "same_config ?db (aw_db w')" and intents: "adb_intents (aw_db w') = filter ?P (adb_intents ?db)"
    by blast+
  have gone: "i \<notin> set (adb_intents (aw_db w'))" using intents by simp
  have passes: "pass_ok ?rid sid (aw_db w') v" if "tget (tput p (items, failed) (ew_passes ew)) q = Some v" for q v
  proof (cases "q = p")
    case True
    with that have "v = (items, failed)" by (simp add: tget_tput)
    with pass_ok_tail [OF pass_ok_delete [OF pass_i conf intents]] gone show ?thesis by blast
  next
    case False
    with that have "tget (ew_passes ew) q = Some v" by (simp add: tget_tput)
    with parts have "pass_ok ?rid sid ?db v" by blast
    from pass_ok_delete [OF this conf intents] show ?thesis .
  qed
  have pend': "pending_of ?rid sid (aw_db w') = filter ?P (pending_of ?rid sid ?db)"
    using intents by (simp add: pending_of_def pending_for_def conj_commute)
  have begun: "begun_times ?rid sid (ew_begun ew') = begun_times ?rid sid (ew_begun ew) @ option_times ?rid sid task"
    unfolding ew'(4) by (rule begun_times_snoc)
  have "previous_in ?rid sid (aw_db w') = previous_in ?rid sid ?db \<and>
    begun_times ?rid sid (ew_begun ew') @ notifying (pending_of ?rid sid (aw_db w')) =
    begun_times ?rid sid (ew_begun ew) @ notifying (pending_of ?rid sid ?db)"
  proof (cases "(?rid, sid) = (ei_rule_id i, ei_server_id i)")
    case False
    have "?P y" if "y \<in> set (pending_of ?rid sid ?db)" for y
      using that False ids_ok_distinct [OF ids _ i, of y] by (auto simp: pending_of_def pending_for_def)
    then have "filter ?P (pending_of ?rid sid ?db) = pending_of ?rid sid ?db"
      unfolding filter_id_conv by blast
    with False eff pend' begun show ?thesis by (simp add: previous_in_def)
  next
    case True
    then have dim: "ei_rule_id i = ?rid" "ei_server_id i = sid" by simp_all
    from pending_first [OF ids pass_i _ i dim] go dim obtain rest where
      rest: "pending_of ?rid sid ?db = i # rest" "filter ?P rest = rest" by auto
    from eff known dim have "open_state ?rid sid (aw_db w') = Some (event_state None i)"
      "option_times ?rid sid task = (if ei_should_notify i then [ei_occurred_at i] else [])"
      by auto
    with rest pend' begun show ?thesis
      by (simp add: previous_in_def previous_of_def event_state_def notifying_def)
  qed
  moreover have "known_rule rule sid (aw_db w')" using known conf by (simp add: known_rule_def same_config_def)
  moreover have "ids_ok (aw_db w')" by (rule ids_ok_delete [OF ids conf intents])
  ultimately show ?thesis using parts passes ew' by (simp add: event_inv_def Let_def)
qed

lemma event_inv_capture_step:
  assumes inv: "event_inv rule sid base ew"
  shows "event_inv rule sid base (event_step rk (CaptureEvent server_id event_type t now) ew)"
proof -
  let ?w = "ew_world ew"
  obtain r w' where run: "transaction (capture rk server_id event_type t now) ?w = (r, w')" by fastforce
  have passes: "\<And>p v. tget (ew_passes ew) p = Some v \<Longrightarrow> pass_ok (ru_id rule) sid (aw_db ?w) v"
    and known: "known_rule rule sid (aw_db ?w)"
    using inv by (auto simp: event_inv_def Let_def)
  show ?thesis
  proof (cases r)
    case (Inl e)
    with run have "w' = ?w\<lparr>aw_faults := aw_faults w'\<rparr>" using transaction_error by simp
    then have "aw_db w' = aw_db ?w"
      by (metis alert_world.select_convs(1) alert_world.surjective alert_world.update_convs(4))
    with run passes show ?thesis
      by (intro event_inv_same [OF inv]) (simp_all add: captured_def)
  next
    case (Inr u)
    from transaction_success [OF run [unfolded Inr]]
    have "capture rk server_id event_type t now (aw_db ?w, []) = (Inr (), aw_db w', [])"
      by (simp add: fault_blind_intros)
    from capture_pure [OF this] known obtain xs where
      db': "aw_db w' = (aw_db ?w)\<lparr>adb_intents := adb_intents (aw_db ?w) @ xs,
        adb_next_intent := adb_next_intent (aw_db ?w) + length xs\<rparr>"
      and fresh: "fresh_intents (aw_db ?w) xs"
      and one: "pending_for (ru_id rule) server_id xs = [] \<or>
       (\<exists>r \<in> set (adb_rules (aw_db ?w)). ru_id r = ru_id rule \<and> (\<exists>n. pending_for (ru_id rule) server_id xs =
          [new_intent n r server_id event_type (previous_in (ru_id rule) server_id (aw_db ?w)) t]))"
      and srv: "\<forall>i \<in> set xs. ei_server_id i = server_id"
      by (auto simp: known_rule_def)
    have "pending_for (ru_id rule) sid xs = [] \<or>
      (\<exists>n event_type. pending_for (ru_id rule) sid xs =
        [new_intent n rule sid event_type (previous_in (ru_id rule) sid (aw_db ?w)) t])"
    proof (cases "server_id = sid")
      case True
      have "r = rule" if "r \<in> set (adb_rules (aw_db ?w))" "ru_id r = ru_id rule" for r
        using that known by (auto simp: known_rule_def distinct_map dest: inj_onD)
      with one True show ?thesis by blast
    next
      case False
      with srv show ?thesis by (auto simp: pending_for_def filter_empty_conv)
    qed
    from event_inv_capture [OF inv _ _ _ _ _ fresh this, of "aw_db w'"] db' run
    show ?thesis by (simp add: captured_def)
  qed
qed

lemma event_inv_next_step:
  assumes inv: "event_inv rule sid base ew"
  shows "event_inv rule sid base (event_step rk (PassNext p now) ew)"
proof (cases "\<not> thas (ew_in_flight ew) p \<and> (\<exists>i items failed. tget (ew_passes ew) p = Some (i # items, failed))")
  case False
  then have "event_step rk (PassNext p now) ew = ew" by (auto split: option.split prod.split list.split)
  with inv show ?thesis by simp
next
  case True
  then obtain i items failed where pass: "tget (ew_passes ew) p = Some (i # items, failed)" by blast
  let ?w = "ew_world ew" and ?rid = "ru_id rule" and ?d = "(ei_rule_id i, ei_server_id i)"
  let ?ew = "event_step rk (PassNext p now) ew"
  obtain failed' task w' where item: "replay_item rk now i (failed, ?w) = (failed', task, w')"
    by (cases "replay_item rk now i (failed, ?w)") auto
  with pass True have step: "ew_world ?ew = w'" "ew_passes ?ew = tput p (items, failed') (ew_passes ew)"
    "ew_log ?ew = ew_log ew" "ew_begun ?ew = ew_begun ew @ (case task of None \<Rightarrow> [] | Some t \<Rightarrow> [t])"
    by (simp_all add: Let_def split: option.split)
  have passes: "pass_ok ?rid sid (aw_db ?w) v" if "tget (ew_passes ew) q = Some v" for q v
    using inv that unfolding event_inv_def Let_def by blast
  show ?thesis
  proof (cases "?d \<notin> set failed \<and> i \<in> set (adb_intents (aw_db ?w)) \<and> (\<exists>u. fst (replay_begin rk (ei_id i) now ?w) = Inr u)")
    case True
    then obtain u w1 where run: "replay_begin rk (ei_id i) now ?w = (Inr u, w1)" by (metis prod.collapse)
    with True item have "failed' = failed" "task = u" "w' = w1" by (simp_all add: replay_item_def)
    with event_inv_replayed [where ew' = ?ew, OF inv pass _ run] True step show ?thesis by simp
  next
    case False
    have quiet: "aw_db w' = aw_db ?w \<and> task = None \<and> set failed \<subseteq> set failed' \<and>
        (?d \<in> set failed' \<or> i \<notin> set (adb_intents (aw_db ?w)))"
    proof (cases "?d \<in> set failed")
      case True
      with item show ?thesis by (auto simp: replay_item_def)
    next
      case fresh: False
      obtain r w1 where r: "replay_begin rk (ei_id i) now ?w = (r, w1)" by fastforce
      show ?thesis
      proof (cases r)
        case (Inl e)
        with fresh item r replay_begin_error [OF r [unfolded Inl]] show ?thesis by (auto simp: replay_item_def)
      next
        case (Inr u)
        with False fresh r have gone: "i \<notin> set (adb_intents (aw_db ?w))" by auto
        have "find (\<lambda>x. ei_id x = ei_id i) (adb_intents (aw_db ?w)) = None"
          using gone passes [OF pass] unfolding find_None_iff pass_ok_def by fastforce
        with fresh item r Inr gone replay_begin_gone [OF r [unfolded Inr]] show ?thesis by (auto simp: replay_item_def)
      qed
    qed
    show ?thesis
    proof (rule event_inv_same [OF inv])
      fix q v assume q: "tget (ew_passes ?ew) q = Some v"
      show "pass_ok ?rid sid (aw_db ?w) v"
      proof (cases "q = p")
        case True
        with q have "v = (items, failed')" unfolding step by (simp add: tget_tput)
        with pass_ok_tail [OF passes [OF pass]] quiet show ?thesis by auto
      next
        case False
        with q show ?thesis unfolding step by (intro passes [of q]) (simp add: tget_tput)
      qed
    qed (use quiet step in simp_all)
  qed
qed

lemma event_inv_step:
  assumes inv: "event_inv rule sid base ew"
  shows "event_inv rule sid base (event_step rk move ew)"
proof (cases move)
  case (CaptureEvent server_id event_type t now)
  with event_inv_capture_step [OF inv] show ?thesis by simp
next
  case (PassNext p now)
  show ?thesis unfolding PassNext by (rule event_inv_next_step [OF inv])
next
  case (PassNotify p)
  have passes: "pass_ok (ru_id rule) sid (aw_db (ew_world ew)) v" if "tget (ew_passes ew) q = Some v" for q v
    using inv that unfolding event_inv_def Let_def by blast
  show ?thesis unfolding PassNotify
    by (rule event_inv_same [OF inv])
      (auto simp: replay_notify_def notify_group_def passes split: option.splits prod.splits)
next
  case Crash
  show ?thesis unfolding Crash by (rule event_inv_same [OF inv]) (simp_all add: load_from_db_def)
next
  case (PassBegin p)
  have passes: "pass_ok (ru_id rule) sid (aw_db (ew_world ew)) v" if "tget (ew_passes ew) q = Some v" for q v
    using inv that unfolding event_inv_def Let_def by blast
  have ids: "ids_ok (aw_db (ew_world ew))" using inv unfolding event_inv_def Let_def by blast
  show ?thesis
    unfolding PassBegin
    by (rule event_inv_same [OF inv])
      (auto simp: replay_snapshot_def tx_query_def tx_statement_def tget_tput passes pass_ok_begin [OF ids]
        split: list.splits if_splits sum.splits prod.splits)
qed

lemma event_inv_run: "event_inv rule sid base ew \<Longrightarrow> event_inv rule sid base (event_run rk moves ew)"
  unfolding event_run_def by (induction moves arbitrary: ew) (simp_all add: event_inv_step)

lemma event_inv_start:
  assumes "known_rule rule sid (aw_db w)" "ids_ok (aw_db w)"
  shows "event_inv rule sid \<lparr>eb_previous = previous_in (ru_id rule) sid (aw_db w),
      eb_times = notifying (pending_of (ru_id rule) sid (aw_db w))\<rparr> (at_rest w)"
  using assms by (simp add: event_inv_def Let_def pending_for_def after_events_def at_rest_def begun_times_def)

section \<open>Notifications under way\<close>

lemma table_values_del:
  "table_ok t \<Longrightarrow> tget t k = Some v \<Longrightarrow> mset (map snd t) = add_mset v (mset (map snd (tdel k t)))"
proof (induction t)
  case Nil
  then show ?case by simp
next
  case (Cons x t)
  obtain j u where x: "x = (j, u)" by (cases x)
  show ?case
  proof (cases "j = k")
    case True
    with Cons.prems(1) x have "tget t k = None" by (auto simp: table_ok_def tget_def map_of_eq_None_iff)
    then have "tdel k t = t" by (induction t) (auto simp: tdel_def tget_def split: if_splits)
    with True Cons.prems x show ?thesis by (simp add: tdel_def tget_def)
  next
    case False
    with Cons x show ?thesis by (simp add: tdel_def tget_def table_ok_def)
  qed
qed

lemma table_values_new: "\<not> thas t k \<Longrightarrow> mset (map snd (tput k v t)) = add_mset v (mset (map snd t))"
  by (induction t) (auto simp: tput_def thas_def tget_def split: if_splits)

lemma replay_item_sent: "replay_item rk now i (failed, w) = (failed', task, w') \<Longrightarrow> aw_sent w' = aw_sent w"
  by (auto simp: replay_item_def replay_begin_def publish_state_def Let_def
      split: if_splits prod.splits sum.splits option.splits dest!: transaction_sent)

text \<open>Every notification begun is attempted once, under way, or lost in a crash.\<close>

definition flight_inv :: "string \<Rightarrow> string \<Rightarrow> datetime list \<Rightarrow> event_world \<Rightarrow> bool" where
  "flight_inv rid sid start ew \<longleftrightarrow>
     table_ok (ew_in_flight ew) \<and>
     mset (sent_times rid sid (ew_world ew)) + mset (begun_times rid sid (map snd (ew_in_flight ew))) +
       mset (begun_times rid sid (ew_lost ew)) = mset start + mset (begun_times rid sid (ew_begun ew))"

lemma begun_times_mset:
  "mset (begun_times rid sid ts) = (\<Sum>t \<in># mset ts. mset (task_times rid sid t))"
  by (induction ts) (simp_all add: begun_times_def)

lemma sent_times_notify:
  "sent_times rid sid (replay_notify (Some t) w) = sent_times rid sid w @ task_times rid sid t"
  by (cases t) (auto simp: replay_notify_def notify_group_def sent_times_def task_times_def split: option.split)

lemma flight_inv_step:
  assumes inv: "flight_inv rid sid start ew"
  shows "flight_inv rid sid start (event_step rk move ew)"
proof (cases move)
  case (CaptureEvent server_id event_type t now)
  obtain r w' where run: "transaction (capture rk server_id event_type t now) (ew_world ew) = (r, w')" by fastforce
  from transaction_sent [OF run] inv run show ?thesis
    by (simp add: CaptureEvent flight_inv_def sent_times_def)
next
  case (PassBegin p)
  with inv show ?thesis
    by (auto simp: flight_inv_def sent_times_def split: sum.split prod.split)
next
  case (PassNext p now)
  show ?thesis
  proof (cases "\<not> thas (ew_in_flight ew) p \<and> (\<exists>i items failed. tget (ew_passes ew) p = Some (i # items, failed))")
    case False
    then have "event_step rk (PassNext p now) ew = ew" by (auto split: option.split prod.split list.split)
    with inv PassNext show ?thesis by simp
  next
    case True
    then obtain i items failed where pass: "tget (ew_passes ew) p = Some (i # items, failed)" by blast
    obtain failed' task w' where item: "replay_item rk now i (failed, ew_world ew) = (failed', task, w')"
      by (cases "replay_item rk now i (failed, ew_world ew)") auto
    from replay_item_sent [OF item] pass item True inv show ?thesis
      by (cases task) (simp_all add: PassNext flight_inv_def sent_times_def begun_times_mset table_values_new
          ac_simps del: mset_map)
  qed
next
  case (PassNotify p)
  show ?thesis
  proof (cases "tget (ew_in_flight ew) p")
    case None
    with inv PassNotify show ?thesis by simp
  next
    case (Some t)
    with inv table_values_del [OF _ Some] show ?thesis
      by (simp add: PassNotify flight_inv_def sent_times_notify begun_times_mset ac_simps del: mset_map)
  qed
next
  case Crash
  with inv show ?thesis
    by (simp add: flight_inv_def sent_times_def load_from_db_def begun_times_mset ac_simps)
qed

lemma flight_inv_run: "flight_inv rid sid start ew \<Longrightarrow> flight_inv rid sid start (event_run rk moves ew)"
  unfolding event_run_def by (induction moves arbitrary: ew) (simp_all add: flight_inv_step)

lemma no_crash_no_loss: "Crash \<notin> set moves \<Longrightarrow> ew_lost (event_run rk moves ew) = ew_lost ew"
proof (induction moves arbitrary: ew)
  case Nil
  then show ?case by (simp add: event_run_def)
next
  case (Cons move moves)
  have "ew_lost (event_step rk move ew) = ew_lost ew"
    using Cons.prems by (cases move) (auto simp: Let_def split: option.split prod.split sum.split list.split)
  with Cons show ?case by (simp add: event_run_def)
qed

section \<open>A sample\<close>

definition event_codec :: "unit rule_codec" where
  "event_codec = sample_codec\<lparr>rk_parse_items := (\<lambda>s. if s = ''i''
       then Some [\<lparr>ri_rule_type = ''ip_changed'', ri_min = None, ri_max = None, ri_duration = None,
         ri_cycle_interval = None, ri_cycle_limit = None, ri_security = None\<rparr>] else None)\<rparr>"

text \<open>Four events four minutes apart; the first replay fails, the passes overlap.\<close>

definition sample_moves :: "event_move list" where
  "sample_moves = [CaptureEvent ''s'' ''ip_changed'' 0 0, PassBegin 2, CaptureEvent ''s'' ''ip_changed'' (seconds 240) (seconds 240),
     PassBegin 3, PassNext 2 (seconds 240), PassNext 3 (seconds 240), PassNext 3 (seconds 240), PassNotify 3,
     CaptureEvent ''s'' ''ip_changed'' (seconds 480) (seconds 480),
     CaptureEvent ''s'' ''ip_changed'' (seconds 720) (seconds 720)]"

definition sample_run :: event_world where
  "sample_run = event_run event_codec sample_moves (at_rest (sample_world (replicate 19 False @ [True])))"

lemma sample_start:
  "known_rule sample_rule ''s'' (aw_db (sample_world fs))" "ids_ok (aw_db (sample_world fs))"
  "previous_in ''r'' ''s'' (aw_db (sample_world fs)) = None" "ru_id sample_rule = ''r''"
  "sent_times ''r'' ''s'' (sample_world fs) = []" "pending_of ''r'' ''s'' (aw_db (sample_world fs)) = []"
  by (simp_all add: known_rule_def ids_ok_def sample_world_def sample_rule_def previous_in_def pending_of_def
      pending_for_def open_state_def previous_of_def sent_times_def tget_def)

lemma sample_log:
  "map decision_of (pending_for ''r'' ''s'' (ew_log sample_run)) =
     [(0, 0, 1, True), (0, seconds 240, 2, False), (0, seconds 480, 3, False), (0, seconds 720, 4, False)]"
  by code_simp

lemma sample_log_length: "length (pending_for ''r'' ''s'' (ew_log sample_run)) = 4"
  by code_simp

section \<open>Properties\<close>

text \<open>
  Claim C21: however captures, replay passes and failing statements interleave, what is decided for
  the events of a rule and server (first trigger, count, whether to notify) is what the reference
  decides from their times alone, starting from what was stored before.
\<close>

theorem event_decisions_replay_independent:
  assumes "known_rule rule sid (aw_db w)" and "ids_ok (aw_db w)"
    and "ew' = event_run rk moves (at_rest w)"
  shows "map decision_of (pending_for (ru_id rule) sid (ew_log ew')) =
    ref_events (ru_trigger_mode rule) (previous_in (ru_id rule) sid (aw_db w))
      (map ei_occurred_at (pending_for (ru_id rule) sid (ew_log ew')))"
  using event_inv_run [OF event_inv_start [OF assms(1,2)], of rk moves]
  unfolding assms(3) [symmetric] by (simp add: event_inv_def Let_def)

theorem event_decisions_replay_independent_witness:
  "map decision_of (pending_for ''r'' ''s'' (ew_log sample_run)) =
     ref_events ''always'' None (map ei_occurred_at (pending_for ''r'' ''s'' (ew_log sample_run))) \<and>
   length (pending_for ''r'' ''s'' (ew_log sample_run)) = 4"
  using event_decisions_replay_independent [OF sample_start(1,2) sample_run_def] sample_start(3,4) sample_log_length
  by (simp add: sample_rule_def)

text \<open>
  Claim C10: no notification of a one-shot event is lost or repeated short of a crash.  However
  captures, passes and failing statements interleave (a pass notifies after it has released the
  admission lock), the notifications attempted for an enabled rule with a notification group and a server that
  stay as they are, those under way, those a crash took
  away while they were under way and those still pending are together exactly those attempted and pending at the
  start and those decided by the captures since, each as often; without a crash none is lost; and
  they are begun in the order in which they were decided (attempts of different passes may
  still overtake each other).
\<close>

theorem event_notifications_conserved:
  assumes "known_rule rule sid (aw_db w)" and "ids_ok (aw_db w)"
    and "ew' = event_run rk moves (at_rest w)"
  shows "mset (sent_times (ru_id rule) sid (ew_world ew')) +
      mset (begun_times (ru_id rule) sid (map snd (ew_in_flight ew'))) +
      mset (begun_times (ru_id rule) sid (ew_lost ew')) +
      mset (notifying (pending_of (ru_id rule) sid (aw_db (ew_world ew')))) =
    mset (sent_times (ru_id rule) sid w) + mset (notifying (pending_of (ru_id rule) sid (aw_db w))) +
      mset (notifying (pending_for (ru_id rule) sid (ew_log ew'))) \<and>
    (Crash \<notin> set moves \<longrightarrow> ew_lost ew' = []) \<and>
    begun_times (ru_id rule) sid (ew_begun ew') @ notifying (pending_of (ru_id rule) sid (aw_db (ew_world ew'))) =
      notifying (pending_of (ru_id rule) sid (aw_db w)) @ notifying (pending_for (ru_id rule) sid (ew_log ew'))"
proof (intro conjI impI)
  show order: "begun_times (ru_id rule) sid (ew_begun ew') @ notifying (pending_of (ru_id rule) sid (aw_db (ew_world ew'))) =
      notifying (pending_of (ru_id rule) sid (aw_db w)) @ notifying (pending_for (ru_id rule) sid (ew_log ew'))"
    using event_inv_run [OF event_inv_start [OF assms(1,2)], of rk moves]
    unfolding assms(3) [symmetric] by (simp add: event_inv_def Let_def)
  have "flight_inv (ru_id rule) sid (sent_times (ru_id rule) sid w) (at_rest w)"
    by (simp add: flight_inv_def at_rest_def begun_times_def)
  from flight_inv_run [OF this, of rk moves] arg_cong [OF order, of mset]
  show "mset (sent_times (ru_id rule) sid (ew_world ew')) +
      mset (begun_times (ru_id rule) sid (map snd (ew_in_flight ew'))) +
      mset (begun_times (ru_id rule) sid (ew_lost ew')) +
      mset (notifying (pending_of (ru_id rule) sid (aw_db (ew_world ew')))) =
    mset (sent_times (ru_id rule) sid w) + mset (notifying (pending_of (ru_id rule) sid (aw_db w))) +
      mset (notifying (pending_for (ru_id rule) sid (ew_log ew')))"
    unfolding assms(3) [symmetric] flight_inv_def by (simp add: ac_simps)
  show "ew_lost ew' = []" if "Crash \<notin> set moves"
    using that unfolding assms(3) by (simp add: no_crash_no_loss at_rest_def)
qed

theorem event_notifications_conserved_witness:
  "mset (sent_times ''r'' ''s'' (ew_world sample_run)) + mset (begun_times ''r'' ''s'' (map snd (ew_in_flight sample_run))) +
     mset (notifying (pending_of ''r'' ''s'' (aw_db (ew_world sample_run)))) = {#0#} \<and>
   begun_times ''r'' ''s'' (ew_begun sample_run) @ notifying (pending_of ''r'' ''s'' (aw_db (ew_world sample_run))) = [0]"
proof -
  have log: "notifying (pending_for ''r'' ''s'' (ew_log sample_run)) = [0]"
    by code_simp
  have "Crash \<notin> set sample_moves" by (simp add: sample_moves_def)
  with event_notifications_conserved [OF sample_start(1,2) sample_run_def] sample_start(4) have "ew_lost sample_run = []"
    by simp
  then have "begun_times ''r'' ''s'' (ew_lost sample_run) = []" by (simp add: begun_times_def)
  with event_notifications_conserved [OF sample_start(1,2) sample_run_def] sample_start(4-6) log show ?thesis
    by simp
qed

lemma ref_events_frequent:
  assumes "successively (\<lambda>s t. t - s < five_minutes) (l # ts)"
  shows "map (\<lambda>(_, _, _, b). b) (ref_events mode (Some (f, l, c)) ts) = replicate (length ts) False"
  using assms by (induction ts arbitrary: f l c) (auto simp: event_notifies_def Let_def)

text \<open>
  When the events of a rule and server keep coming less than five minutes apart, only
  the first one notifies, for however long they go on and whatever the trigger mode: each event
  counts as the last notification although it notified nobody.
\<close>

lemma frequent_events_notify_once:
  assumes "known_rule rule sid (aw_db w)" and "ids_ok (aw_db w)"
    and "ew' = event_run rk moves (at_rest w)"
    and "previous_in (ru_id rule) sid (aw_db w) = None"
    and "pending_for (ru_id rule) sid (ew_log ew') = i # is"
    and "successively (\<lambda>s t. t - s < five_minutes) (map ei_occurred_at (i # is))"
  shows "ei_should_notify i \<and> list_all (\<lambda>j. \<not> ei_should_notify j) is"
proof -
  have "map decision_of (i # is) =
      ref_events (ru_trigger_mode rule) None (map ei_occurred_at (i # is))"
    using event_inv_run [OF event_inv_start [OF assms(1,2)], of rk moves] assms(4,5)
    unfolding assms(3) [symmetric] by (simp add: event_inv_def Let_def)
  then have first: "ei_should_notify i"
    and rest: "map decision_of is = ref_events (ru_trigger_mode rule)
      (Some (ei_occurred_at i, ei_occurred_at i, 1)) (map ei_occurred_at is)"
    by (simp_all add: decision_of_def event_notifies_def Let_def)
  have "map ei_should_notify is = map (\<lambda>(_, _, _, b). b) (map decision_of is)"
    by (simp add: decision_of_def)
  also have "\<dots> = replicate (length is) False"
    unfolding rest using ref_events_frequent assms(6) by simp
  finally have "ei_should_notify j \<longrightarrow> False" if "j \<in> set is" for j
    using that by (metis (no_types, lifting) in_set_conv_nth length_map nth_map nth_replicate)
  with first show ?thesis by (simp add: list_all_iff)
qed

text \<open>Four events: one notification; the two-phase machine of polls notifies twice at these times.\<close>

lemma frequent_events_notify_once_witness:
  "\<exists>i is. pending_for ''r'' ''s'' (ew_log sample_run) = i # is \<and> length is = 3 \<and>
     ei_should_notify i \<and> list_all (\<lambda>j. \<not> ei_should_notify j) is \<and>
     fst (phase_run ''always'' [(False, 0), (False, seconds 240), (False, seconds 480), (False, seconds 720)] Quiet) =
       [True, False, True, False]"
proof -
  let ?log = "pending_for ''r'' ''s'' (ew_log sample_run)"
  from sample_log_length obtain i "is" where log: "?log = i # is" "length is = 3"
    by (cases ?log) auto
  have "map (\<lambda>(_, t, _, _). t) (map decision_of ?log) = [0, seconds 240, seconds 480, seconds 720]"
    unfolding sample_log by simp
  then have times: "map ei_occurred_at (i # is) = [0, seconds 240, seconds 480, seconds 720]"
    unfolding log by (simp add: decision_of_def comp_def)
  have "successively (\<lambda>s t. t - s < five_minutes) (map ei_occurred_at (i # is))"
    unfolding times by (simp add: five_minutes_def)
  then have "ei_should_notify i \<and> list_all (\<lambda>j. \<not> ei_should_notify j) is"
    using frequent_events_notify_once [OF sample_start(1,2) sample_run_def] sample_start(3,4) log by simp
  with log show ?thesis by (simp add: five_minutes_def)
qed

end
