(* ===== verification/Mobile_Push.thy ===== *)
theory Mobile_Push
  imports Transactions
begin

text \<open>
  Push delivery to mobile devices: the registration of an installation and its preferences
  (\<open>crates/server/src/router/api/mobile_push.rs\<close>, \<open>push_session\<close> and \<open>push_unregister\<close> of
  \<open>router/api/mobile.rs\<close>), the outbox with its leases (\<open>service/mobile_push_outbox.rs\<close>) and the
  sealing of contents (\<open>service/push_envelope.rs\<close>).

  Parameters (record \<open>push_env\<close>): hashes, base64, the AEAD cipher, JSON, UUIDs and URLs, and
  whether the relay is configured.  An envelope is kept as its fields, not as JSON text; the targets and
  the summary of a task run are kept decoded (\<open>None\<close> where the text does not parse; the summary column
  may also be empty).  Job times are seconds, the others nanoseconds.  Handlers take the
  bearer token and the clock as arguments and run as transactions whose statements may fail.
\<close>

section \<open>Tables\<close>

record push_registration =
  rg_installation_id :: string
  rg_user_id :: string
  rg_mobile_session_id :: string
  rg_revision :: int
  rg_enabled :: bool
  rg_alerts :: bool
  rg_security :: bool
  rg_task_failure :: bool
  rg_task_success :: bool
  rg_device_token :: "string option"
  rg_environment :: "string option"
  rg_content_key_id :: "string option"
  rg_content_key :: "string option"
  rg_deployment_id :: "string option"
  rg_updated_at :: datetime

record mobile_session =
  ms_id :: string
  ms_user_id :: string
  ms_installation_id :: string
  ms_created_at :: datetime
  ms_expires_at :: datetime

record access_session =
  se_token :: string
  se_user_id :: string
  se_source :: string
  se_mobile_session_id :: "string option"
  se_expires_at :: datetime

record push_user =
  us_id :: string
  us_role :: string
  us_must_change_password :: bool
  us_password_changed_at :: "datetime option"

record task_run_summary =
  sm_task_id :: string
  sm_run_id :: string
  sm_total :: nat
  sm_failed :: nat
  sm_timed_out :: nat
  sm_offline :: nat
  sm_denied :: nat

record push_task_run =
  tk_run_id :: string
  tk_task_id :: string
  tk_owner_id :: string
  tk_targets :: "string list option"
  tk_status :: string
  tk_completed_at :: "int option"
  tk_summary :: "task_run_summary option option"

record push_task_result =
  tr_id :: int
  tr_task_id :: string
  tr_server_id :: string
  tr_exit_code :: int
  tr_run_id :: "string option"
  tr_attempt :: int

record push_envelope =
  ev_version :: u8
  ev_key_id :: string
  ev_identity :: string
  ev_nonce :: string
  ev_ciphertext :: string

record push_job =
  ob_event_id :: string
  ob_installation_id :: string
  ob_user_id :: string
  ob_mobile_session_id :: string
  ob_registration_revision :: int
  ob_recipient_role :: string
  ob_task_run_id :: "string option"
  ob_category :: string
  ob_created_at :: int
  ob_expires_at :: int
  ob_envelope :: "push_envelope option"
  ob_outcome :: string
  ob_reason :: string
  ob_attempts :: int
  ob_next_attempt_at :: int
  ob_lease_id :: "string option"
  ob_lease_until :: int

type_synonym job_key = "string \<times> string"

definition job_key_of :: "push_job \<Rightarrow> job_key" where
  "job_key_of j = (ob_event_id j, ob_installation_id j)"

text \<open>Tables with a primary key are keyed by it; \<open>pd_scheduled\<close> are the scheduled tasks.\<close>

record push_db =
  pd_registrations :: "(string, push_registration) table"
  pd_mobile_sessions :: "(string, mobile_session) table"
  pd_sessions :: "access_session list"
  pd_users :: "(string, push_user) table"
  pd_task_runs :: "(string, push_task_run) table"
  pd_task_results :: "push_task_result list"
  pd_scheduled :: "string list"
  pd_migrations :: "(string \<times> string) list"
  pd_device_tokens :: "(string \<times> string \<times> string) list"
  pd_outbox :: "(job_key, push_job) table"

record alert_push_target =
  ap_alert_key :: string
  ap_status :: string
  ap_rule_name :: string
  ap_server_name :: string

record push_content =
  pc_kind :: string
  pc_deployment_id :: string
  pc_user_id :: string
  pc_installation_id :: string
  pc_event_id :: string
  pc_created_at :: int
  pc_expires_at :: int
  pc_server_id :: "string option"
  pc_security_event_id :: "string option"
  pc_security_event_type :: "string option"
  pc_task_run :: "task_run_summary option"
  pc_alert :: "alert_push_target option"

record push_env =
  pe_hash_token :: "string \<Rightarrow> string"
  pe_parse_uuid :: "string \<Rightarrow> string option"
  pe_decode :: "string \<Rightarrow> string option"
  pe_encode :: "string \<Rightarrow> string"
  pe_url_ok :: "string \<Rightarrow> bool"
  pe_json :: "push_content \<Rightarrow> string"
  pe_identity :: "string \<Rightarrow> string \<Rightarrow> string \<Rightarrow> string"
  pe_aead :: "string \<Rightarrow> string \<Rightarrow> string \<Rightarrow> string \<Rightarrow> string option"
  pe_relay_configured :: bool

section \<open>Sealing\<close>

definition MAX_CONTENT_BYTES :: nat where "MAX_CONTENT_BYTES = 2048"

text \<open>\<open>encrypt\<close>, with the random nonce as an argument.\<close>

definition seal :: "push_env \<Rightarrow> string \<Rightarrow> string \<Rightarrow> push_content \<Rightarrow> string \<Rightarrow> app_error + push_envelope" where
  "seal en key_id secret content nonce =
     (let bytes = pe_json en content in
      if MAX_CONTENT_BYTES < length bytes then Inl (Validation ''Push content is too large'')
      else
        let ident = pe_identity en (pc_deployment_id content) (pc_user_id content) (pc_installation_id content);
            aad = ''ServerBee.Push.v1|'' @ key_id @ ''|'' @ ident
        in case pe_aead en secret nonce aad bytes of
             None \<Rightarrow> Inl (Validation ''Invalid push content key'')
           | Some ct \<Rightarrow> Inr \<lparr>ev_version = 1, ev_key_id = key_id, ev_identity = ident,
               ev_nonce = pe_encode en nonce, ev_ciphertext = pe_encode en ct\<rparr>)"

definition is_success :: "task_run_summary \<Rightarrow> bool" where
  "is_success s \<longleftrightarrow> 0 < sm_total s \<and> sm_failed s = 0 \<and> sm_timed_out s = 0 \<and> sm_offline s = 0 \<and> sm_denied s = 0"

section \<open>Registrations\<close>

definition is_hex_byte :: "char \<Rightarrow> bool" where
  "is_hex_byte b \<longleftrightarrow> is_ascii_digit b \<or> (97 \<le> (of_char b :: nat) \<and> (of_char b :: nat) \<le> 102)"

definition valid_registration :: "push_env \<Rightarrow> string \<Rightarrow> string \<Rightarrow> string \<Rightarrow> string \<Rightarrow> string \<Rightarrow> bool" where
  "valid_registration en token environment content_key_id content_key deployment_id \<longleftrightarrow>
     2 \<le> length token \<and> length token \<le> 1024 \<and> even (length token) \<and> list_all is_hex_byte token \<and>
     environment \<in> {''sandbox'', ''production''} \<and>
     pe_parse_uuid en content_key_id = Some content_key_id \<and>
     (case pe_decode en content_key of Some key \<Rightarrow> length key = 32 | None \<Rightarrow> False) \<and>
     length deployment_id \<le> 512 \<and> pe_url_ok en deployment_id"

definition is_registered :: "push_env \<Rightarrow> push_registration \<Rightarrow> bool" where
  "is_registered en r \<longleftrightarrow> rg_enabled r \<and>
     (case (rg_device_token r, rg_environment r, rg_content_key_id r, rg_content_key r, rg_deployment_id r) of
        (Some token, Some environment, Some key_id, Some key, Some deployment) \<Rightarrow>
          valid_registration en token environment key_id key deployment
      | _ \<Rightarrow> False)"

text \<open>\<open>push_session\<close>: the login behind a bearer token, revalidated in the transaction.\<close>

definition push_session ::
  "push_env \<Rightarrow> string \<Rightarrow> datetime \<Rightarrow> (push_db, access_session \<times> mobile_session) tx" where
  "push_session en token now =
     (let hash = pe_hash_token en token in
      tx_bind (tx_query (\<lambda>db. length (filter (\<lambda>s. se_token s = hash \<and> se_source s = ''mobile'' \<and> now < se_expires_at s)
        (pd_sessions db)))) (\<lambda>locked.
      if locked \<noteq> 1 then tx_fail Unauthorized
      else tx_bind (tx_query (\<lambda>db. find (\<lambda>s. se_token s = hash) (pd_sessions db))) (\<lambda>found.
      case found of None \<Rightarrow> tx_fail Unauthorized
      | Some session \<Rightarrow>
          (case se_mobile_session_id session of None \<Rightarrow> tx_fail Unauthorized
           | Some mid \<Rightarrow>
               tx_bind (tx_query (\<lambda>db. tget (pd_mobile_sessions db) mid)) (\<lambda>mobile.
               case mobile of None \<Rightarrow> tx_fail Unauthorized
               | Some mobile \<Rightarrow>
                   if ms_user_id mobile \<noteq> se_user_id session \<or> \<not> now < ms_expires_at mobile then tx_fail Unauthorized
                   else tx_bind (tx_query (\<lambda>db. tget (pd_users db) (se_user_id session))) (\<lambda>owner.
                     case owner of None \<Rightarrow> tx_fail Unauthorized
                     | Some owner \<Rightarrow>
                         if us_must_change_password owner \<or>
                            (case us_password_changed_at owner of None \<Rightarrow> False | Some changed \<Rightarrow> ms_created_at mobile < changed)
                         then tx_fail Unauthorized
                         else tx_return (session, mobile)))))))"

definition owned_row :: "string \<Rightarrow> string \<Rightarrow> string \<Rightarrow> (push_db, push_registration option) tx" where
  "owned_row installation owner session =
     tx_bind (tx_query (\<lambda>db. tget (pd_registrations db) installation)) (\<lambda>row.
     if (case row of None \<Rightarrow> False | Some r \<Rightarrow> rg_user_id r \<noteq> owner \<or> rg_mobile_session_id r \<noteq> session)
     then tx_fail (Forbidden ''This installation belongs to another login'')
     else tx_return row)"

definition check_revision :: "push_registration option \<Rightarrow> int \<Rightarrow> (push_db, unit) tx" where
  "check_revision row expected =
     (if (case row of None \<Rightarrow> 0 | Some r \<Rightarrow> rg_revision r) \<noteq> expected
      then tx_fail (Conflict ''Notification settings changed; reload before saving'')
      else tx_return ())"

definition put_registration :: "push_registration \<Rightarrow> push_db \<Rightarrow> push_db" where
  "put_registration r db = db\<lparr>pd_registrations := tput (rg_installation_id r) r (pd_registrations db)\<rparr>"

record push_preferences =
  pp_enabled :: bool
  pp_alerts :: bool
  pp_security :: bool
  pp_task_failure :: bool
  pp_task_success :: bool

definition saved_row ::
  "access_session \<Rightarrow> mobile_session \<Rightarrow> push_registration option \<Rightarrow> int \<Rightarrow> push_preferences \<Rightarrow> datetime \<Rightarrow>
   push_registration" where
  "saved_row session mobile row expected prefs now =
     (let base = (case row of Some r \<Rightarrow> r
          | None \<Rightarrow> \<lparr>rg_installation_id = ms_installation_id mobile, rg_user_id = se_user_id session,
              rg_mobile_session_id = ms_id mobile, rg_revision = 0, rg_enabled = False, rg_alerts = False,
              rg_security = False, rg_task_failure = False, rg_task_success = False, rg_device_token = None,
              rg_environment = None, rg_content_key_id = None, rg_content_key = None, rg_deployment_id = None,
              rg_updated_at = now\<rparr>);
          model = base\<lparr>rg_revision := expected + 1, rg_enabled := pp_enabled prefs, rg_alerts := pp_alerts prefs,
            rg_security := pp_security prefs, rg_task_failure := pp_task_failure prefs,
            rg_task_success := pp_task_success prefs, rg_updated_at := now\<rparr>
      in if pp_enabled prefs then model
         else model\<lparr>rg_device_token := None, rg_environment := None, rg_content_key_id := None,
           rg_content_key := None, rg_deployment_id := None\<rparr>)"

text \<open>\<open>response\<close> and the handler that reads the settings.\<close>

record push_setup_response =
  ps_revision :: int
  ps_preferences :: push_preferences
  ps_security_allowed :: bool
  ps_tasks_allowed :: bool
  ps_task_failure_available :: bool
  ps_registered :: bool
  ps_delivery_available :: bool
  ps_test_available :: bool

definition setup_response :: "push_env \<Rightarrow> push_registration option \<Rightarrow> bool \<Rightarrow> push_setup_response" where
  "setup_response en row security_allowed =
     (let is_some_and = (\<lambda>P. case row of None \<Rightarrow> False | Some r \<Rightarrow> P r);
          registered = is_some_and (is_registered en)
      in \<lparr>ps_revision = (case row of None \<Rightarrow> 0 | Some r \<Rightarrow> rg_revision r),
          ps_preferences = \<lparr>pp_enabled = is_some_and rg_enabled, pp_alerts = is_some_and rg_alerts,
            pp_security = is_some_and rg_security, pp_task_failure = is_some_and rg_task_failure,
            pp_task_success = is_some_and rg_task_success\<rparr>,
          ps_security_allowed = security_allowed, ps_tasks_allowed = security_allowed,
          ps_task_failure_available = True, ps_registered = registered,
          ps_delivery_available = pe_relay_configured en,
          ps_test_available = (registered \<and> pe_relay_configured en)\<rparr>)"

definition push_settings :: "push_env \<Rightarrow> string \<Rightarrow> datetime \<Rightarrow> (push_db, push_setup_response) tx" where
  "push_settings en token now =
     tx_bind (push_session en token now) (\<lambda>(session, mobile).
     tx_bind (owned_row (ms_installation_id mobile) (se_user_id session) (ms_id mobile)) (\<lambda>row.
     tx_bind (tx_query (\<lambda>db. tget (pd_users db) (se_user_id session))) (\<lambda>owner.
     case owner of None \<Rightarrow> tx_fail Unauthorized
     | Some owner \<Rightarrow> tx_return (setup_response en row (us_role owner = ''admin'')))))"

definition save_preferences ::
  "push_env \<Rightarrow> string \<Rightarrow> int \<Rightarrow> push_preferences \<Rightarrow> datetime \<Rightarrow> (push_db, push_registration) tx" where
  "save_preferences en token expected prefs now =
     tx_bind (push_session en token now) (\<lambda>(session, mobile).
     tx_bind (owned_row (ms_installation_id mobile) (se_user_id session) (ms_id mobile)) (\<lambda>row.
     tx_bind (check_revision row expected) (\<lambda>_.
     tx_bind (tx_query (\<lambda>db. tget (pd_users db) (se_user_id session))) (\<lambda>owner.
     case owner of None \<Rightarrow> tx_fail Unauthorized
     | Some owner \<Rightarrow>
         if pp_security prefs \<and> us_role owner \<noteq> ''admin''
         then tx_fail (Forbidden ''Security notifications require an administrator'')
         else if (pp_task_failure prefs \<or> pp_task_success prefs) \<and> us_role owner \<noteq> ''admin''
         then tx_fail (Forbidden ''Task notifications require an administrator'')
         else
           let model = saved_row session mobile row expected prefs now
           in tx_bind (tx_exec (put_registration model)) (\<lambda>_. tx_return model)))))"

record push_registration_request =
  pq_expected_revision :: int
  pq_device_token :: string
  pq_environment :: string
  pq_content_key_id :: string
  pq_content_key :: string
  pq_deployment_id :: string

definition same_identity :: "push_registration \<Rightarrow> push_registration_request \<Rightarrow> bool" where
  "same_identity r body \<longleftrightarrow>
     rg_device_token r = Some (pq_device_token body) \<and> rg_environment r = Some (pq_environment body) \<and>
     rg_content_key_id r = Some (pq_content_key_id body) \<and> rg_content_key r = Some (pq_content_key body) \<and>
     rg_deployment_id r = Some (pq_deployment_id body)"

definition registered_row :: "push_registration \<Rightarrow> push_registration_request \<Rightarrow> datetime \<Rightarrow> push_registration" where
  "registered_row r body now =
     r\<lparr>rg_revision := pq_expected_revision body + 1, rg_device_token := Some (pq_device_token body),
       rg_environment := Some (pq_environment body), rg_content_key_id := Some (pq_content_key_id body),
       rg_content_key := Some (pq_content_key body), rg_deployment_id := Some (pq_deployment_id body),
       rg_updated_at := now\<rparr>"

definition register_identity ::
  "access_session \<Rightarrow> mobile_session \<Rightarrow> push_registration option \<Rightarrow> push_registration_request \<Rightarrow> datetime \<Rightarrow>
   (push_db, push_registration) tx" where
  "register_identity session mobile row body now =
     (case row of None \<Rightarrow> tx_fail (Forbidden ''Enable notifications first'')
      | Some r \<Rightarrow>
          if \<not> rg_enabled r then tx_fail (Forbidden ''Enable notifications first'')
          else
            tx_bind (tx_query (\<lambda>db. tget (pd_users db) (se_user_id session))) (\<lambda>owner.
            if owner = None then tx_fail Unauthorized
            else
              tx_bind (tx_exec (\<lambda>db. db\<lparr>pd_migrations :=
                List.insert (ms_installation_id mobile, se_user_id session) (pd_migrations db)\<rparr>)) (\<lambda>_.
              tx_bind (tx_exec (\<lambda>db. db\<lparr>pd_device_tokens :=
                filter (\<lambda>(i, u, _). \<not> (i = ms_installation_id mobile \<and> u = se_user_id session)) (pd_device_tokens db)\<rparr>)) (\<lambda>_.
              if same_identity r body then tx_return r
              else
                let model = registered_row r body now
                in tx_bind (tx_exec (put_registration model)) (\<lambda>_. tx_return model)))))"

definition encrypted_register ::
  "push_env \<Rightarrow> string \<Rightarrow> push_registration_request \<Rightarrow> datetime \<Rightarrow> (push_db, push_registration) tx" where
  "encrypted_register en token body now =
     (if \<not> valid_registration en (pq_device_token body) (pq_environment body) (pq_content_key_id body)
           (pq_content_key body) (pq_deployment_id body)
      then tx_fail (Validation ''Invalid device token, environment, content key or deployment identity'')
      else if \<not> pe_relay_configured en then tx_fail (BadRequest ''Encrypted push relay is not configured'')
      else
        tx_bind (push_session en token now) (\<lambda>(session, mobile).
        tx_bind (owned_row (ms_installation_id mobile) (se_user_id session) (ms_id mobile)) (\<lambda>row.
        tx_bind (check_revision row (pq_expected_revision body)) (\<lambda>_.
        register_identity session mobile row body now))))"

definition push_unregister :: "push_env \<Rightarrow> string \<Rightarrow> datetime \<Rightarrow> (push_db, unit) tx" where
  "push_unregister en token now =
     tx_bind (push_session en token now) (\<lambda>(session, mobile).
     tx_bind (tx_exec (\<lambda>db. db\<lparr>pd_device_tokens :=
       filter (\<lambda>(i, u, m). \<not> (i = ms_installation_id mobile \<and> u = se_user_id session \<and> m = ms_id mobile)) (pd_device_tokens db)\<rparr>)) (\<lambda>_.
     tx_exec (\<lambda>db. db\<lparr>pd_registrations :=
       tretain (\<lambda>i r. \<not> (i = ms_installation_id mobile \<and> rg_user_id r = se_user_id session \<and>
         rg_mobile_session_id r = ms_id mobile)) (pd_registrations db)\<rparr>)))"

section \<open>Eligibility\<close>

text \<open>
  The scheduled run a job reports on: \<open>None\<close> is no longer deliverable, otherwise the outcome of
  the run, if the job is about one.
\<close>

definition task_outcome :: "push_db \<Rightarrow> push_job \<Rightarrow> bool option option" where
  "task_outcome db job =
     (case ob_task_run_id job of
        None \<Rightarrow> Some None
      | Some run_id \<Rightarrow>
          if ob_event_id job \<noteq> run_id then None
          else case tget (pd_task_runs db) run_id of
            None \<Rightarrow> None
          | Some run \<Rightarrow>
              if tk_owner_id run \<noteq> ob_user_id job \<or> tk_status run \<noteq> ''completed'' then None
              else case tk_summary run of
                Some (Some s) \<Rightarrow>
                  if sm_task_id s = tk_task_id run \<and> sm_run_id s = tk_run_id run \<and> 0 < sm_total s \<and>
                     ob_recipient_role job = ''admin'' \<and> tk_task_id run \<in> set (pd_scheduled db)
                  then Some (Some (is_success s)) else None
              | _ \<Rightarrow> None)"

definition category_wanted :: "push_registration \<Rightarrow> push_job \<Rightarrow> bool option \<Rightarrow> bool" where
  "category_wanted r job task_success \<longleftrightarrow>
     (case task_success of
        None \<Rightarrow>
          if ob_category job = ''test'' then True
          else if ob_category job = ''alert'' then rg_alerts r
          else if ob_category job = ''security'' then rg_security r \<and> ob_recipient_role job = ''admin''
          else False
      | Some False \<Rightarrow> ob_category job \<in> {''test'', ''task_failure''} \<and> rg_task_failure r
      | Some True \<Rightarrow> ob_category job \<in> {''test'', ''task_success''} \<and> rg_task_success r)"

definition eligible_row :: "push_env \<Rightarrow> push_db \<Rightarrow> push_job \<Rightarrow> datetime \<Rightarrow> push_registration option" where
  "eligible_row en db job now =
     (case task_outcome db job of
        None \<Rightarrow> None
      | Some task_success \<Rightarrow>
          (case tget (pd_registrations db) (ob_installation_id job) of
             None \<Rightarrow> None
           | Some r \<Rightarrow>
               if rg_user_id r = ob_user_id job \<and> rg_mobile_session_id r = ob_mobile_session_id job \<and>
                  rg_revision r = ob_registration_revision job \<and> is_registered en r \<and>
                  category_wanted r job task_success
               then (case (tget (pd_mobile_sessions db) (ob_mobile_session_id job), tget (pd_users db) (ob_user_id job)) of
                       (Some mobile, Some owner) \<Rightarrow>
                         if ms_user_id mobile = ob_user_id job \<and> ms_installation_id mobile = ob_installation_id job \<and>
                            now < ms_expires_at mobile \<and> \<not> us_must_change_password owner \<and>
                            us_role owner = ob_recipient_role job \<and> us_role owner \<in> {''admin'', ''member''} \<and>
                            (case us_password_changed_at owner of None \<Rightarrow> True | Some changed \<Rightarrow> changed \<le> ms_created_at mobile)
                         then Some r else None
                     | _ \<Rightarrow> None)
               else None))"

text \<open>The queries of \<open>eligible\<close> as one statement.\<close>

definition eligible :: "push_env \<Rightarrow> push_job \<Rightarrow> datetime \<Rightarrow> (push_db, push_registration option) tx" where
  "eligible en job now = tx_query (\<lambda>db. eligible_row en db job now)"

section \<open>Filling the outbox\<close>

definition put_job :: "push_job \<Rightarrow> push_db \<Rightarrow> push_db" where
  "put_job j db = db\<lparr>pd_outbox := tput (job_key_of j) j (pd_outbox db)\<rparr>"

definition queued_job ::
  "string \<Rightarrow> string \<Rightarrow> push_registration \<Rightarrow> string \<Rightarrow> string option \<Rightarrow> int \<Rightarrow> push_envelope option \<Rightarrow> push_job" where
  "queued_job category event_id r role run created_at envelope =
     \<lparr>ob_event_id = event_id, ob_installation_id = rg_installation_id r, ob_user_id = rg_user_id r,
      ob_mobile_session_id = rg_mobile_session_id r, ob_registration_revision = rg_revision r,
      ob_recipient_role = role, ob_task_run_id = run, ob_category = category,
      ob_created_at = created_at, ob_expires_at = created_at + 1800, ob_envelope = envelope,
      ob_outcome = ''pending'', ob_reason = ''Queued'', ob_attempts = 0, ob_next_attempt_at = created_at,
      ob_lease_id = None, ob_lease_until = 0\<rparr>"

text \<open>A recipient of a security event is the identity of its registration at that time.\<close>

record security_push_recipient =
  sr_installation_id :: string
  sr_user_id :: string
  sr_mobile_session_id :: string
  sr_registration_revision :: int

definition security_job :: "security_push_recipient \<Rightarrow> string \<Rightarrow> int \<Rightarrow> push_job" where
  "security_job r event_id created_at =
     \<lparr>ob_event_id = event_id, ob_installation_id = sr_installation_id r, ob_user_id = sr_user_id r,
      ob_mobile_session_id = sr_mobile_session_id r, ob_registration_revision = sr_registration_revision r,
      ob_recipient_role = ''admin'', ob_task_run_id = None, ob_category = ''security'',
      ob_created_at = created_at, ob_expires_at = created_at + 1800, ob_envelope = None,
      ob_outcome = ''pending'', ob_reason = ''Queued'', ob_attempts = 0, ob_next_attempt_at = created_at,
      ob_lease_id = None, ob_lease_until = 0\<rparr>"

definition recipient_of :: "push_registration \<Rightarrow> security_push_recipient" where
  "recipient_of r = \<lparr>sr_installation_id = rg_installation_id r, sr_user_id = rg_user_id r,
     sr_mobile_session_id = rg_mobile_session_id r, sr_registration_revision = rg_revision r\<rparr>"

fun prepare_rows ::
  "push_env \<Rightarrow> string \<Rightarrow> int \<Rightarrow> datetime \<Rightarrow> push_registration list \<Rightarrow>
   (push_db, security_push_recipient list) tx" where
  "prepare_rows en event_id created_at now [] = tx_return []"
| "prepare_rows en event_id created_at now (r # rows) =
     (let job = security_job (recipient_of r) event_id created_at in
      tx_bind (if ob_expires_at job \<le> as_secs now then tx_return None else eligible en job now) (\<lambda>e.
      tx_bind (prepare_rows en event_id created_at now rows) (\<lambda>rs.
      tx_return (if e = None then rs else recipient_of r # rs))))"

definition prepare_security ::
  "push_env \<Rightarrow> string \<Rightarrow> int \<Rightarrow> datetime \<Rightarrow> (push_db, security_push_recipient list) tx" where
  "prepare_security en event_id created_at now =
     tx_bind (tx_exec (\<lambda>db. db)) (\<lambda>_.
     tx_bind (tx_query (\<lambda>db. sort_key rg_installation_id
       (filter (\<lambda>r. rg_enabled r \<and> rg_security r) (map snd (pd_registrations db)))))
       (prepare_rows en event_id created_at now))"

text \<open>\<open>nonces\<close> are the random nonces of the recipients in turn.\<close>

fun enqueue_security ::
  "push_env \<Rightarrow> string \<Rightarrow> string \<Rightarrow> string \<Rightarrow> int \<Rightarrow> datetime \<Rightarrow> string list \<Rightarrow> security_push_recipient list \<Rightarrow>
   (push_db, unit) tx" where
  "enqueue_security en server_id event_id event_type created_at now nonces [] = tx_return ()"
| "enqueue_security en server_id event_id event_type created_at now nonces (rc # rcs) =
     (let job = security_job rc event_id created_at;
          rest = enqueue_security en server_id event_id event_type created_at now (tl nonces) rcs
      in if ob_expires_at job \<le> as_secs now then rest
         else
           tx_bind (eligible en job now) (\<lambda>e.
           case e of None \<Rightarrow> rest
           | Some row \<Rightarrow>
               tx_bind (tx_query (\<lambda>db. tget (pd_outbox db) (event_id, rg_installation_id row))) (\<lambda>known.
               if known \<noteq> None then rest
               else case (rg_content_key_id row, rg_content_key row, rg_deployment_id row) of
                 (Some key_id, Some key, Some deployment) \<Rightarrow>
                   (case pe_decode en key of
                      None \<Rightarrow> tx_fail (Internal ''Invalid stored push key'')
                    | Some secret \<Rightarrow>
                        (case seal en key_id secret
                            \<lparr>pc_kind = ''security'', pc_deployment_id = deployment, pc_user_id = ob_user_id job,
                             pc_installation_id = ob_installation_id job, pc_event_id = event_id,
                             pc_created_at = ob_created_at job, pc_expires_at = ob_expires_at job,
                             pc_server_id = Some server_id, pc_security_event_id = Some event_id,
                             pc_security_event_type = Some event_type, pc_task_run = None, pc_alert = None\<rparr>
                            (case nonces of [] \<Rightarrow> [] | n # _ \<Rightarrow> n) of
                           Inl e \<Rightarrow> tx_fail e
                         | Inr envelope \<Rightarrow>
                             tx_bind (tx_exec (put_job (job\<lparr>ob_envelope := Some envelope\<rparr>))) (\<lambda>_. rest)))
               | _ \<Rightarrow> rest)))"

definition test_content :: "string \<Rightarrow> string \<Rightarrow> string \<Rightarrow> string \<Rightarrow> int \<Rightarrow> push_content" where
  "test_content deployment user installation event_id now =
     \<lparr>pc_kind = ''test'', pc_deployment_id = deployment, pc_user_id = user, pc_installation_id = installation,
      pc_event_id = event_id, pc_created_at = now, pc_expires_at = now + 1800,
      pc_server_id = None, pc_security_event_id = None, pc_security_event_type = None,
      pc_task_run = None, pc_alert = None\<rparr>"

text \<open>A first request for the test event; \<open>test_notification\<close> answers a repeated one from the outbox.\<close>

definition new_test ::
  "push_env \<Rightarrow> string \<Rightarrow> access_session \<Rightarrow> mobile_session \<Rightarrow> int \<Rightarrow> string \<Rightarrow> datetime \<Rightarrow> (push_db, push_job) tx" where
  "new_test en event_id session mobile expected nonce now =
     tx_bind (owned_row (ms_installation_id mobile) (se_user_id session) (ms_id mobile)) (\<lambda>row.
     case row of None \<Rightarrow> tx_fail (Forbidden ''Enable notifications first'')
     | Some row \<Rightarrow>
         tx_bind (check_revision (Some row) expected) (\<lambda>_.
         if \<not> is_registered en row \<or> \<not> pe_relay_configured en
         then tx_fail (Forbidden ''Retry notification setup first'')
         else
           tx_bind (tx_query (\<lambda>db. tget (pd_users db) (se_user_id session))) (\<lambda>owner.
           case owner of None \<Rightarrow> tx_fail Unauthorized
           | Some owner \<Rightarrow>
               if us_role owner \<notin> {''admin'', ''member''} then tx_fail (Forbidden ''Account role unavailable'')
               else case (rg_content_key_id row, map_option (pe_decode en) (rg_content_key row), rg_deployment_id row) of
                 (Some key_id, Some (Some secret), Some deployment) \<Rightarrow>
                   (case seal en key_id secret
                       (test_content deployment (se_user_id session) (ms_installation_id mobile) event_id (as_secs now)) nonce of
                      Inl e \<Rightarrow> tx_fail e
                    | Inr envelope \<Rightarrow>
                        let job = queued_job ''test'' event_id row (us_role owner) None (as_secs now) (Some envelope)
                        in tx_bind (tx_exec (put_job job)) (\<lambda>_. tx_return job))
               | _ \<Rightarrow> tx_fail (Forbidden ''Content key is not registered''))))"

definition test_notification ::
  "push_env \<Rightarrow> string \<Rightarrow> string \<Rightarrow> int \<Rightarrow> string \<Rightarrow> datetime \<Rightarrow> (push_db, push_job) tx" where
  "test_notification en token raw_event_id expected nonce now =
     (case pe_parse_uuid en raw_event_id of
        None \<Rightarrow> tx_fail (Validation ''Invalid test event UUID'')
      | Some event_id \<Rightarrow>
          tx_bind (push_session en token now) (\<lambda>(session, mobile).
          tx_bind (tx_query (\<lambda>db. tget (pd_outbox db) (event_id, ms_installation_id mobile))) (\<lambda>known.
          case known of
            Some job \<Rightarrow>
              if ob_user_id job \<noteq> se_user_id session \<or> ob_mobile_session_id job \<noteq> ms_id mobile
              then tx_fail (Forbidden ''This test belongs to another login'')
              else if ob_registration_revision job \<noteq> expected
              then tx_fail (Conflict ''Test identity already used with another revision'')
              else tx_return job
          | None \<Rightarrow> new_test en event_id session mobile expected nonce now)))"

section \<open>Delivery\<close>

definition LEASE_SECONDS :: int where "LEASE_SECONDS = 30"

definition unfinished :: "push_job \<Rightarrow> bool" where
  "unfinished j \<longleftrightarrow> ob_outcome j = ''pending'' \<or> ob_outcome j = ''retryable''"

definition expire_job :: "int \<Rightarrow> push_job \<Rightarrow> push_job" where
  "expire_job now j =
     (if unfinished j \<and> ob_expires_at j \<le> now \<and> ob_lease_until j \<le> now
      then j\<lparr>ob_outcome := ''expired'', ob_reason := ''Expired'', ob_envelope := None, ob_lease_id := None,
        ob_lease_until := 0\<rparr>
      else j)"

text \<open>The earliest due job; equal times in table order.\<close>

definition due_job :: "int \<Rightarrow> push_db \<Rightarrow> push_job option" where
  "due_job now db =
     (case sort_key ob_next_attempt_at
         (filter (\<lambda>j. unfinished j \<and> ob_next_attempt_at j \<le> now \<and> ob_lease_until j \<le> now) (map snd (pd_outbox db))) of
        [] \<Rightarrow> None | j # _ \<Rightarrow> Some j)"

definition map_job :: "job_key \<Rightarrow> (push_job \<Rightarrow> push_job) \<Rightarrow> push_db \<Rightarrow> push_db" where
  "map_job k f db = db\<lparr>pd_outbox := tmodify k f (pd_outbox db)\<rparr>"

text \<open>
  The claiming transaction of \<open>deliver_next\<close>; a result is the job (as selected) and the row it may
  be sent with.
\<close>

definition claim_job ::
  "push_env \<Rightarrow> string \<Rightarrow> datetime \<Rightarrow> (push_db, (push_job \<times> push_registration) option) tx" where
  "claim_job en lease now =
     (let secs = as_secs now in
      tx_bind (tx_exec (\<lambda>db. db\<lparr>pd_outbox := map (\<lambda>(k, j). (k, expire_job secs j)) (pd_outbox db)\<rparr>)) (\<lambda>_.
      tx_bind (tx_query (due_job secs)) (\<lambda>due.
      case due of None \<Rightarrow> tx_return None
      | Some job \<Rightarrow>
          tx_bind (eligible en job now) (\<lambda>row.
          case row of
            None \<Rightarrow>
              tx_bind (tx_exec (map_job (job_key_of job) (\<lambda>j. j\<lparr>ob_outcome := ''permanent'',
                ob_reason := ''Ineligible'', ob_envelope := None\<rparr>))) (\<lambda>_. tx_return None)
          | Some row \<Rightarrow>
              tx_bind (tx_exec (map_job (job_key_of job) (\<lambda>j. j\<lparr>ob_lease_id := Some lease,
                ob_lease_until := secs + LEASE_SECONDS, ob_attempts := ob_attempts j + 1\<rparr>))) (\<lambda>_.
              tx_return (Some (job, row)))))))"

record relay_delivery =
  rd_outcome :: string
  rd_reason :: string
  rd_device_invalid :: bool

text \<open>What came back: no usable answer, or a status with the verdict its body parses to.\<close>

datatype relay_reply = NoReply | Reply nat "relay_delivery option"

definition relay_retry :: relay_delivery where
  "relay_retry = \<lparr>rd_outcome = ''retryable'', rd_reason = ''RelayUnavailable'', rd_device_invalid = False\<rparr>"

definition relay_permanent :: "string \<Rightarrow> relay_delivery" where
  "relay_permanent reason = \<lparr>rd_outcome = ''permanent'', rd_reason = reason, rd_device_invalid = False\<rparr>"

definition known_reasons :: "string list" where
  "known_reasons = [''Unregistered'', ''Accepted'', ''Expired'', ''BadTopic'', ''BadDeviceToken'',
     ''DeviceTokenNotForTopic'', ''TooManyRequests'', ''ServiceUnavailable'', ''InternalServerError'',
     ''Shutdown'', ''ProviderUnavailable'', ''NetworkUnavailable'', ''RequestTimeout'',
     ''DeviceOrEnvironmentMismatch'', ''ProviderConfigurationOrPayload'', ''PayloadTooLarge'']"

definition bounded_reason :: "relay_delivery \<Rightarrow> string" where
  "bounded_reason v =
     (if rd_reason v \<in> set known_reasons then rd_reason v
      else if rd_outcome v = ''accepted'' then ''Accepted''
      else if rd_outcome v = ''retryable'' then ''ProviderUnavailable''
      else if rd_outcome v = ''expired'' then ''Expired'' else ''ProviderRejected'')"

text \<open>\<open>send\<close>, up to the request itself.\<close>

definition classify :: "relay_reply \<Rightarrow> relay_delivery" where
  "classify r =
     (case r of
        NoReply \<Rightarrow> relay_retry
      | Reply status body \<Rightarrow>
          if 200 \<le> status \<and> status < 300
          then (case body of
                  Some v \<Rightarrow> if rd_outcome v \<in> {''accepted'', ''retryable'', ''permanent'', ''expired''}
                    then v\<lparr>rd_reason := bounded_reason v\<rparr> else relay_retry
                | None \<Rightarrow> relay_retry)
          else if status = 408 then \<lparr>rd_outcome = ''retryable'', rd_reason = ''RequestTimeout'', rd_device_invalid = False\<rparr>
          else if status = 503
          then (case body of
                  Some v \<Rightarrow> if rd_outcome v = ''permanent'' \<and> rd_reason v = ''RelayNotConfigured''
                    then relay_permanent ''RelayNotConfigured'' else relay_retry
                | None \<Rightarrow> relay_retry)
          else if 400 \<le> status \<and> status < 500 \<and> status \<noteq> 429 then relay_permanent ''RelayPayloadRejected''
          else relay_retry)"

definition send_push :: "push_env \<Rightarrow> push_job \<Rightarrow> relay_reply \<Rightarrow> relay_delivery" where
  "send_push en job reply =
     (if \<not> pe_relay_configured en then relay_retry
      else if ob_envelope job = None then relay_permanent ''InvalidEnvelope''
      else classify reply)"

definition backoff :: "int \<Rightarrow> int" where
  "backoff attempts = min (2 ^ nat (min (attempts + 1) 8)) 300"

definition unset_device :: "push_registration \<Rightarrow> push_registration \<Rightarrow> push_registration" where
  "unset_device row r =
     (if rg_installation_id r = rg_installation_id row \<and> rg_user_id r = rg_user_id row \<and>
         rg_mobile_session_id r = rg_mobile_session_id row \<and> rg_revision r = rg_revision row \<and>
         rg_device_token r = rg_device_token row \<and> rg_environment r = rg_environment row \<and>
         rg_content_key_id r = rg_content_key_id row \<and> rg_content_key r = rg_content_key row \<and>
         rg_deployment_id r = rg_deployment_id row
      then r\<lparr>rg_device_token := None, rg_revision := rg_revision r + 1\<rparr> else r)"

definition invalidate_device :: "push_registration \<Rightarrow> push_db \<Rightarrow> push_db" where
  "invalidate_device row db =
     db\<lparr>pd_registrations := map (\<lambda>(i, r). (i, unset_device row r)) (pd_registrations db)\<rparr>"

definition verdict :: "push_job \<Rightarrow> relay_delivery \<Rightarrow> int \<Rightarrow> string \<times> string" where
  "verdict job delivery finished =
     (if rd_outcome delivery = ''retryable'' \<and> ob_expires_at job \<le> finished then (''expired'', ''Expired'')
      else (rd_outcome delivery, rd_reason delivery))"

definition settled :: "push_job \<Rightarrow> relay_delivery \<Rightarrow> int \<Rightarrow> push_job \<Rightarrow> push_job" where
  "settled job delivery finished j =
     (let (outcome, reason) = verdict job delivery finished in
      j\<lparr>ob_outcome := outcome, ob_reason := reason,
        ob_next_attempt_at := min (finished + backoff (ob_attempts job)) (ob_expires_at job),
        ob_lease_id := None, ob_lease_until := 0,
        ob_envelope := (if outcome = ''retryable'' then ob_envelope j else None)\<rparr>)"

text \<open>The second transaction, after the answer of the relay.\<close>

definition finish_job ::
  "push_job \<Rightarrow> push_registration \<Rightarrow> string \<Rightarrow> relay_delivery \<Rightarrow> int \<Rightarrow> (push_db, unit) tx" where
  "finish_job job row lease delivery finished =
     (let k = job_key_of job in
      tx_bind (tx_query (\<lambda>db. case tget (pd_outbox db) k of None \<Rightarrow> False | Some j \<Rightarrow> ob_lease_id j = Some lease)) (\<lambda>locked.
      if \<not> locked then tx_return ()
      else
        tx_bind (if rd_device_invalid delivery \<and> rd_reason delivery = ''Unregistered'' \<and>
                    fst (verdict job delivery finished) = ''permanent''
                 then tx_exec (invalidate_device row) else tx_return ()) (\<lambda>_.
        tx_exec (map_job k (\<lambda>j. if ob_lease_id j = Some lease then settled job delivery finished j else j)))))"

definition test_response :: "push_job \<Rightarrow> int \<Rightarrow> string \<times> string" where
  "test_response job now =
     (if unfinished job \<and> ob_expires_at job \<le> now then (''expired'', ''Expired'')
      else (if ob_outcome job \<in> {''accepted'', ''retryable'', ''permanent'', ''expired''} then ob_outcome job
            else ''pending'', ob_reason job))"

definition test_status :: "push_env \<Rightarrow> string \<Rightarrow> string \<Rightarrow> datetime \<Rightarrow> (push_db, string \<times> string) tx" where
  "test_status en token event_id now =
     tx_bind (push_session en token now) (\<lambda>(session, mobile).
     tx_bind (tx_query (\<lambda>db. tget (pd_outbox db) (event_id, ms_installation_id mobile))) (\<lambda>found.
     case found of None \<Rightarrow> tx_fail (NotFound ''Test notification unavailable'')
     | Some job \<Rightarrow>
         if ob_user_id job = se_user_id session \<and> ob_mobile_session_id job = ms_id mobile
         then tx_return (test_response job (as_secs now))
         else tx_fail (NotFound ''Test notification unavailable'')))"

end
