(* ===== verification/Push_Producers.thy ===== *)
theory Push_Producers
  imports Mobile_Push
begin

text \<open>
  The other producers of push jobs: completed task runs (\<open>crates/server/src/service/task_notification.rs\<close>)
  and alert transitions (\<open>service/mobile_alert_push.rs\<close>, the fan-out of \<open>enqueue\<close>; its admission is in
  theory \<open>Alert_State\<close>).  A run is \<open>running\<close> until the scheduler drains it, then \<open>incomplete\<close> or
  \<open>drained\<close>, and \<open>completed\<close> once its jobs are queued.
\<close>

section \<open>Completion of a run\<close>

definition put_run :: "push_task_run \<Rightarrow> push_db \<Rightarrow> push_db" where
  "put_run run db = db\<lparr>pd_task_runs := tput (tk_run_id run) run (pd_task_runs db)\<rparr>"

text \<open>The exit code of each server's last attempt.\<close>

definition final_results :: "string \<Rightarrow> string \<Rightarrow> push_task_result list \<Rightarrow> (string, int) table" where
  "final_results task_id run_id results =
     foldl (\<lambda>t r. tput (tr_server_id r) (tr_exit_code r) t) []
       (sort_key tr_attempt (sort_key tr_id
          (filter (\<lambda>r. tr_task_id r = task_id \<and> tr_run_id r = Some run_id) results)))"

definition count_exit :: "int \<Rightarrow> task_run_summary \<Rightarrow> task_run_summary" where
  "count_exit code s =
     (if code = 0 then s
      else if code = -2 then s\<lparr>sm_denied := sm_denied s + 1\<rparr>
      else if code = -3 then s\<lparr>sm_offline := sm_offline s + 1\<rparr>
      else if code = -4 then s\<lparr>sm_timed_out := sm_timed_out s + 1\<rparr>
      else s\<lparr>sm_failed := sm_failed s + 1\<rparr>)"

fun count_targets :: "(string, int) table \<Rightarrow> string list \<Rightarrow> task_run_summary \<Rightarrow> task_run_summary" where
  "count_targets finals [] s = s"
| "count_targets finals (i # is) s =
     count_targets finals is (case tget finals i of None \<Rightarrow> s | Some code \<Rightarrow> count_exit code s)"

definition run_summary :: "push_task_run \<Rightarrow> string \<Rightarrow> (string, int) table \<Rightarrow> string list \<Rightarrow> task_run_summary" where
  "run_summary run run_id finals targets =
     count_targets finals targets
       \<lparr>sm_task_id = tk_task_id run, sm_run_id = run_id, sm_total = length targets, sm_failed = 0,
        sm_timed_out = 0, sm_offline = 0, sm_denied = 0\<rparr>"

definition record_completion :: "string \<Rightarrow> bool \<Rightarrow> int \<Rightarrow> (push_db, unit) tx" where
  "record_completion run_id executors_complete finished_at =
     tx_bind (tx_exec (\<lambda>db. db)) (\<lambda>_.
     tx_bind (tx_query (\<lambda>db. tget (pd_task_runs db) run_id)) (\<lambda>found.
     case found of None \<Rightarrow> tx_return ()
     | Some run \<Rightarrow>
         if tk_status run \<noteq> ''running'' then tx_return ()
         else case tk_targets run of None \<Rightarrow> tx_fail (Internal ''Invalid run targets'')
         | Some targets \<Rightarrow>
             tx_bind (tx_query (\<lambda>db. final_results (tk_task_id run) run_id (pd_task_results db))) (\<lambda>finals.
             if executors_complete \<and> targets \<noteq> [] \<and> list_all (\<lambda>i. tget finals i \<noteq> None) targets
             then tx_exec (put_run (run\<lparr>tk_completed_at := Some finished_at, tk_status := ''drained'',
                    tk_summary := Some (Some (run_summary run run_id finals targets))\<rparr>))
             else tx_exec (put_run (run\<lparr>tk_completed_at := Some finished_at, tk_status := ''incomplete''\<rparr>)))))"

section \<open>Jobs of a run\<close>

definition task_category :: "bool \<Rightarrow> string" where
  "task_category success = (if success then ''task_success'' else ''task_failure'')"

definition task_job :: "push_task_run \<Rightarrow> string \<Rightarrow> bool \<Rightarrow> int \<Rightarrow> int \<Rightarrow> push_registration \<Rightarrow> push_job" where
  "task_job run run_id success created_at now row =
     \<lparr>ob_event_id = run_id, ob_installation_id = rg_installation_id row, ob_user_id = tk_owner_id run,
      ob_mobile_session_id = rg_mobile_session_id row, ob_registration_revision = rg_revision row,
      ob_recipient_role = ''admin'', ob_task_run_id = Some run_id, ob_category = task_category success,
      ob_created_at = created_at, ob_expires_at = created_at + 1800, ob_envelope = None,
      ob_outcome = ''pending'', ob_reason = ''Queued'', ob_attempts = 0, ob_next_attempt_at = now,
      ob_lease_id = None, ob_lease_until = 0\<rparr>"

definition task_content :: "string \<Rightarrow> push_task_run \<Rightarrow> task_run_summary \<Rightarrow> push_job \<Rightarrow> push_content" where
  "task_content deployment run summary job =
     \<lparr>pc_kind = task_category (is_success summary), pc_deployment_id = deployment, pc_user_id = tk_owner_id run,
      pc_installation_id = ob_installation_id job, pc_event_id = ob_event_id job,
      pc_created_at = ob_created_at job, pc_expires_at = ob_created_at job + 1800,
      pc_server_id = None, pc_security_event_id = None, pc_security_event_type = None,
      pc_task_run = Some summary, pc_alert = None\<rparr>"

text \<open>The envelope of a job for a row; \<open>None\<close> where the loops skip the row.\<close>

definition row_envelope ::
  "push_env \<Rightarrow> push_registration \<Rightarrow> (string \<Rightarrow> push_content) \<Rightarrow> string \<Rightarrow> push_envelope option" where
  "row_envelope en row content nonce =
     (case (rg_content_key_id row, rg_content_key row, rg_deployment_id row) of
        (Some key_id, Some key, Some deployment) \<Rightarrow>
          (case pe_decode en key of
             None \<Rightarrow> None
           | Some secret \<Rightarrow>
               (case seal en key_id secret (content deployment) nonce of Inl _ \<Rightarrow> None | Inr envelope \<Rightarrow> Some envelope))
      | _ \<Rightarrow> None)"

definition first_nonce :: "string list \<Rightarrow> string" where
  "first_nonce nonces = (case nonces of [] \<Rightarrow> [] | n # _ \<Rightarrow> n)"

text \<open>\<open>INSERT ... ON CONFLICT DO NOTHING\<close>.\<close>

definition insert_job :: "push_job \<Rightarrow> push_db \<Rightarrow> push_db" where
  "insert_job j db = (if tget (pd_outbox db) (job_key_of j) = None then put_job j db else db)"

fun task_rows ::
  "push_env \<Rightarrow> push_task_run \<Rightarrow> string \<Rightarrow> task_run_summary \<Rightarrow> int \<Rightarrow> datetime \<Rightarrow> string list \<Rightarrow>
   push_registration list \<Rightarrow> (push_db, unit) tx" where
  "task_rows en run run_id summary created_at now nonces [] = tx_return ()"
| "task_rows en run run_id summary created_at now nonces (row # rows) =
     (let job = task_job run run_id (is_success summary) created_at (as_secs now) row;
          rest = task_rows en run run_id summary created_at now (tl nonces) rows
      in tx_bind (eligible en job now) (\<lambda>e.
         if e = None then rest
         else case row_envelope en row (\<lambda>d. task_content d run summary job) (first_nonce nonces) of
             None \<Rightarrow> rest
           | Some envelope \<Rightarrow>
               tx_bind (tx_exec (insert_job (job\<lparr>ob_envelope := Some envelope\<rparr>))) (\<lambda>_. rest)))"

definition task_wanted :: "push_task_run \<Rightarrow> bool \<Rightarrow> push_registration \<Rightarrow> bool" where
  "task_wanted run success r \<longleftrightarrow> rg_user_id r = tk_owner_id run \<and> rg_enabled r \<and>
     (if success then rg_task_success r else rg_task_failure r)"

definition finish_run :: "push_env \<Rightarrow> string \<Rightarrow> datetime \<Rightarrow> string list \<Rightarrow> (push_db, unit) tx" where
  "finish_run en run_id now nonces =
     tx_bind (tx_exec (\<lambda>db. db)) (\<lambda>_.
     tx_bind (tx_query (\<lambda>db. tget (pd_task_runs db) run_id)) (\<lambda>found.
     case found of None \<Rightarrow> tx_return ()
     | Some run \<Rightarrow>
         if tk_status run \<noteq> ''drained'' then tx_return ()
         else case tk_summary run of
           None \<Rightarrow> tx_fail (Internal ''Missing drained run summary'')
         | Some None \<Rightarrow> tx_fail (Internal ''Invalid drained run summary'')
         | Some (Some summary) \<Rightarrow>
             (case tk_completed_at run of
                None \<Rightarrow> tx_fail (Internal ''Missing drained run time'')
              | Some created_at \<Rightarrow>
                  if sm_task_id summary \<noteq> tk_task_id run \<or> sm_run_id summary \<noteq> tk_run_id run
                  then tx_fail (Internal ''Invalid drained run identity'')
                  else
                    tx_bind (tx_exec (put_run (run\<lparr>tk_status := ''completed''\<rparr>))) (\<lambda>_.
                    if created_at + 1800 \<le> as_secs now then tx_return ()
                    else
                      tx_bind (tx_query (\<lambda>db. filter (task_wanted run (is_success summary)) (map snd (pd_registrations db))))
                      (task_rows en run run_id summary created_at now nonces)))))"

text \<open>
  \<open>recover_pending\<close>: each run in its own transaction; the last error is the answer.  Runs without a
  time come first; \<open>nonces\<close> are the nonces drawn for a run.
\<close>

definition drained_runs :: "push_db \<Rightarrow> push_task_run list" where
  "drained_runs db =
     (let runs = filter (\<lambda>r. tk_status r = ''drained'') (map snd (pd_task_runs db)) in
      take 32 (filter (\<lambda>r. tk_completed_at r = None) runs @
        sort_key (\<lambda>r. case tk_completed_at r of None \<Rightarrow> 0 | Some t \<Rightarrow> t) (filter (\<lambda>r. tk_completed_at r \<noteq> None) runs)))"

fun finish_runs ::
  "push_env \<Rightarrow> datetime \<Rightarrow> (string \<Rightarrow> string list) \<Rightarrow> push_task_run list \<Rightarrow> app_error option \<Rightarrow>
   push_db \<times> bool list \<Rightarrow> app_error option \<times> push_db \<times> bool list" where
  "finish_runs en now nonces [] failure s = (failure, s)"
| "finish_runs en now nonces (run # runs) failure s =
     (case run_tx (finish_run en (tk_run_id run) now (nonces (tk_run_id run))) s of
        (Inl e, s) \<Rightarrow> finish_runs en now nonces runs (Some e) s
      | (Inr _, s) \<Rightarrow> finish_runs en now nonces runs failure s)"

definition recover_pending ::
  "push_env \<Rightarrow> datetime \<Rightarrow> (string \<Rightarrow> string list) \<Rightarrow> push_db \<times> bool list \<Rightarrow>
   (app_error + unit) \<times> push_db \<times> bool list" where
  "recover_pending en now nonces s =
     (case tx_query drained_runs s of
        (Inl e, s) \<Rightarrow> (Inl e, s)
      | (Inr runs, s) \<Rightarrow>
          (case finish_runs en now nonces runs None s of
             (None, s) \<Rightarrow> (Inr (), s) | (Some e, s) \<Rightarrow> (Inl e, s)))"

section \<open>Jobs of an alert\<close>

definition alert_content :: "string \<Rightarrow> push_job \<Rightarrow> alert_push_target \<Rightarrow> push_content" where
  "alert_content deployment job target =
     \<lparr>pc_kind = ''alert'', pc_deployment_id = deployment, pc_user_id = ob_user_id job,
      pc_installation_id = ob_installation_id job, pc_event_id = ob_event_id job,
      pc_created_at = ob_created_at job, pc_expires_at = ob_created_at job + 1800,
      pc_server_id = None, pc_security_event_id = None, pc_security_event_type = None,
      pc_task_run = None, pc_alert = Some target\<rparr>"

definition alert_target :: "string \<Rightarrow> string \<Rightarrow> string \<Rightarrow> string \<Rightarrow> alert_push_target" where
  "alert_target alert_key status rule_name server_name =
     \<lparr>ap_alert_key = alert_key, ap_status = status, ap_rule_name = take 120 rule_name,
      ap_server_name = take 120 server_name\<rparr>"

fun alert_rows ::
  "push_env \<Rightarrow> string \<Rightarrow> int \<Rightarrow> alert_push_target \<Rightarrow> datetime \<Rightarrow> string list \<Rightarrow> push_registration list \<Rightarrow>
   (push_db, unit) tx" where
  "alert_rows en event_id created_at target now nonces [] = tx_return ()"
| "alert_rows en event_id created_at target now nonces (row # rows) =
     (let rest = alert_rows en event_id created_at target now (tl nonces) rows in
      tx_bind (tx_query (\<lambda>db. tget (pd_users db) (rg_user_id row))) (\<lambda>owner.
      case owner of None \<Rightarrow> rest
      | Some owner \<Rightarrow>
          let job = queued_job ''alert'' event_id row (us_role owner) None created_at None in
          tx_bind (eligible en job now) (\<lambda>e.
          if e = None then rest
          else
            tx_bind (tx_query (\<lambda>db. tget (pd_outbox db) (event_id, rg_installation_id row))) (\<lambda>known.
            if known \<noteq> None then rest
            else case row_envelope en row (\<lambda>d. alert_content d job target) (first_nonce nonces) of
                None \<Rightarrow> rest
              | Some envelope \<Rightarrow>
                  tx_bind (tx_exec (put_job (job\<lparr>ob_envelope := Some envelope\<rparr>))) (\<lambda>_. rest)))))"

definition fan_out_alert ::
  "push_env \<Rightarrow> string \<Rightarrow> int \<Rightarrow> alert_push_target \<Rightarrow> datetime \<Rightarrow> string list \<Rightarrow> (push_db, unit) tx" where
  "fan_out_alert en event_id created_at target now nonces =
     tx_bind (tx_query (\<lambda>db. filter (\<lambda>r. rg_enabled r \<and> rg_alerts r) (map snd (pd_registrations db))))
       (alert_rows en event_id created_at target now nonces)"

end
