(* ===== verification/Push_Delivery.thy ===== *)
theory Push_Delivery
  imports Push_Producers
begin

text \<open>
  Delivery as a transition system: the handlers of a device, the producers of jobs,
  four workers that claim, send and finish (any number here), crashes of workers, and changes of the
  accounts by other services, in any order and with any failing statements.  Shown: what is sent
  goes to the login and the key it was made for, at most 63 times, and a settled job stays settled.
\<close>

section \<open>The transition system\<close>

text \<open>A request in flight: the lease, the job as selected, the row, and the time of the claim.\<close>

record push_flight =
  fl_lease :: string
  fl_job :: push_job
  fl_row :: push_registration
  fl_at :: int

record push_world =
  pw_db :: push_db
  pw_flights :: "push_flight list"
  pw_sent :: "push_flight list"

definition same_push_tables :: "push_db \<Rightarrow> push_db \<Rightarrow> bool" where
  "same_push_tables db db' \<longleftrightarrow>
     pd_registrations db' = pd_registrations db \<and> pd_outbox db' = pd_outbox db"

text \<open>The clock has not gone back since the run was drained.\<close>

definition run_before :: "push_db \<Rightarrow> string \<Rightarrow> datetime \<Rightarrow> bool" where
  "run_before db run_id now \<longleftrightarrow>
     (case tget (pd_task_runs db) run_id of
        None \<Rightarrow> True
      | Some run \<Rightarrow> (case tk_completed_at run of None \<Rightarrow> True | Some t \<Rightarrow> t \<le> as_secs now))"

inductive push_step :: "push_env \<Rightarrow> push_world \<Rightarrow> push_world \<Rightarrow> bool" for en where
  StepSave: "run_tx (save_preferences en token expected prefs now) (pw_db w, fs) = (r, db, fs') \<Longrightarrow>
     push_step en w (w\<lparr>pw_db := db\<rparr>)"
| StepRegister: "run_tx (encrypted_register en token body now) (pw_db w, fs) = (r, db, fs') \<Longrightarrow>
     push_step en w (w\<lparr>pw_db := db\<rparr>)"
| StepTest: "run_tx (test_notification en token event_id expected nonce now) (pw_db w, fs) = (r', db, fs') \<Longrightarrow>
     push_step en w (w\<lparr>pw_db := db\<rparr>)"
| StepSecurity: "run_tx (enqueue_security en server_id event_id event_type created now nonces rcs) (pw_db w, fs) = (q, db, fs') \<Longrightarrow>
     push_step en w (w\<lparr>pw_db := db\<rparr>)"
| StepAlert: "run_tx (fan_out_alert en event_id created target now nonces) (pw_db w, fs) = (q, db, fs') \<Longrightarrow>
     push_step en w (w\<lparr>pw_db := db\<rparr>)"
| StepCompletion: "run_tx (record_completion run_id complete finished_at) (pw_db w, fs) = (q, db, fs') \<Longrightarrow>
     push_step en w (w\<lparr>pw_db := db\<rparr>)"
| StepRun: "run_tx (finish_run en run_id now nonces) (pw_db w, fs) = (q, db, fs') \<Longrightarrow>
     run_before (pw_db w) run_id now \<Longrightarrow> push_step en w (w\<lparr>pw_db := db\<rparr>)"
| StepIdle: "run_tx (claim_job en lease now) (pw_db w, fs) = (c, db, fs') \<Longrightarrow> \<forall>x. c \<noteq> Inr (Some x) \<Longrightarrow>
     push_step en w (w\<lparr>pw_db := db\<rparr>)"
| StepClaim: "run_tx (claim_job en lease now) (pw_db w, fs) = (Inr (Some (job, row)), db, fs') \<Longrightarrow>
     lease \<notin> fl_lease ` set (pw_sent w) \<Longrightarrow>
     fl = \<lparr>fl_lease = lease, fl_job = job, fl_row = row, fl_at = as_secs now\<rparr> \<Longrightarrow>
     push_step en w (w\<lparr>pw_db := db, pw_flights := fl # pw_flights w, pw_sent := pw_sent w @ [fl]\<rparr>)"
| StepFinish: "fl \<in> set (pw_flights w) \<Longrightarrow> fl_at fl \<le> finished \<Longrightarrow>
     run_tx (finish_job (fl_job fl) (fl_row fl) (fl_lease fl) (send_push en (fl_job fl) reply) finished) (pw_db w, fs) = (u, db, fs') \<Longrightarrow>
     push_step en w (w\<lparr>pw_db := db, pw_flights := remove1 fl (pw_flights w)\<rparr>)"
| StepCrash: "push_step en w (w\<lparr>pw_flights := []\<rparr>)"
| StepAccounts: "same_push_tables (pw_db w) db \<Longrightarrow> push_step en w (w\<lparr>pw_db := db\<rparr>)"

text \<open>
  With the deletions of rows: \<open>push_unregister\<close>, and what deletes them beside it (the recovery of
  a login in \<open>mobile_auth_recovery.rs\<close>, and the cascades from users and mobile sessions).  No
  deletion touches the outbox.
\<close>

inductive push_step_all :: "push_env \<Rightarrow> push_world \<Rightarrow> push_world \<Rightarrow> bool" for en where
  StepBasic: "push_step en w w' \<Longrightarrow> push_step_all en w w'"
| StepUnregister: "run_tx (push_unregister en token now) (pw_db w, fs) = (q, db, fs') \<Longrightarrow>
     push_step_all en w (w\<lparr>pw_db := db\<rparr>)"
| StepDeleted: "pd_registrations db = tretain P (pd_registrations (pw_db w)) \<Longrightarrow>
     pd_outbox db = pd_outbox (pw_db w) \<Longrightarrow> push_step_all en w (w\<lparr>pw_db := db\<rparr>)"

definition push_start :: "push_world \<Rightarrow> bool" where
  "push_start w \<longleftrightarrow> pd_registrations (pw_db w) = [] \<and> pd_outbox (pw_db w) = [] \<and> pw_flights w = [] \<and> pw_sent w = []"

section \<open>Effects of the operations\<close>

lemma fault_blind_prod [fault_blind_intros]:
  "(\<And>a b. fault_blind (f a b)) \<Longrightarrow> fault_blind (case p of (a, b) \<Rightarrow> f a b)"
  by (cases p) simp

lemma fault_blind_sum [fault_blind_intros]:
  "(\<And>a. fault_blind (f a)) \<Longrightarrow> (\<And>b. fault_blind (g b)) \<Longrightarrow> fault_blind (case s of Inl a \<Rightarrow> f a | Inr b \<Rightarrow> g b)"
  by (cases s) simp_all

lemma fault_blind_push_session [fault_blind_intros]: "fault_blind (push_session en token now)"
  unfolding push_session_def Let_def by (intro fault_blind_intros)

lemma fault_blind_owned_row [fault_blind_intros]: "fault_blind (owned_row i u s)"
  unfolding owned_row_def by (intro fault_blind_intros)

lemma fault_blind_check_revision [fault_blind_intros]: "fault_blind (check_revision row n)"
  unfolding check_revision_def by (intro fault_blind_intros)

lemma fault_blind_eligible [fault_blind_intros]: "fault_blind (eligible en job now)"
  unfolding eligible_def by (intro fault_blind_intros)

lemma fault_blind_save [fault_blind_intros]: "fault_blind (save_preferences en token expected prefs now)"
  unfolding save_preferences_def Let_def by (intro fault_blind_intros)

lemma fault_blind_identity [fault_blind_intros]: "fault_blind (register_identity session mobile row body now)"
  unfolding register_identity_def Let_def by (intro fault_blind_intros)

lemma fault_blind_register [fault_blind_intros]: "fault_blind (encrypted_register en token body now)"
  unfolding encrypted_register_def Let_def by (intro fault_blind_intros)

lemma fault_blind_new_test [fault_blind_intros]: "fault_blind (new_test en event_id session mobile expected nonce now)"
  unfolding new_test_def Let_def by (intro fault_blind_intros)

lemma fault_blind_test [fault_blind_intros]: "fault_blind (test_notification en token event_id expected nonce now)"
  unfolding test_notification_def Let_def by (intro fault_blind_intros)

lemma fault_blind_security [fault_blind_intros]:
  "fault_blind (enqueue_security en server_id event_id event_type created now nonces rcs)"
proof (induction rcs arbitrary: nonces)
  case Nil
  show ?case by (simp add: fault_blind_intros)
next
  case (Cons rc rcs)
  show ?case unfolding enqueue_security.simps Let_def by (intro fault_blind_intros Cons.IH)
qed

lemma fault_blind_task_rows [fault_blind_intros]:
  "fault_blind (task_rows en run run_id summary created_at now nonces rows)"
proof (induction rows arbitrary: nonces)
  case Nil
  show ?case by (simp add: fault_blind_intros)
next
  case (Cons row rows)
  show ?case unfolding task_rows.simps Let_def by (intro fault_blind_intros Cons.IH)
qed

lemma fault_blind_alert_rows [fault_blind_intros]:
  "fault_blind (alert_rows en event_id created_at target now nonces rows)"
proof (induction rows arbitrary: nonces)
  case Nil
  show ?case by (simp add: fault_blind_intros)
next
  case (Cons row rows)
  show ?case unfolding alert_rows.simps Let_def by (intro fault_blind_intros Cons.IH)
qed

lemma fault_blind_fan_out [fault_blind_intros]: "fault_blind (fan_out_alert en event_id created_at target now nonces)"
  unfolding fan_out_alert_def by (intro fault_blind_intros)

lemma fault_blind_completion [fault_blind_intros]: "fault_blind (record_completion run_id complete finished_at)"
  unfolding record_completion_def by (intro fault_blind_intros)

lemma fault_blind_finish_run [fault_blind_intros]: "fault_blind (finish_run en run_id now nonces)"
  unfolding finish_run_def by (intro fault_blind_intros)

lemma fault_blind_claim [fault_blind_intros]: "fault_blind (claim_job en lease now)"
  unfolding claim_job_def Let_def by (intro fault_blind_intros)

lemma fault_blind_finish [fault_blind_intros]: "fault_blind (finish_job job row lease delivery finished)"
  unfolding finish_job_def Let_def by (intro fault_blind_intros)

lemma fault_blind_unregister [fault_blind_intros]: "fault_blind (push_unregister en token now)"
  unfolding push_unregister_def by (intro fault_blind_intros)

lemma tx_bind_success:
  assumes "tx_bind m f s = (Inr y, s')"
  obtains x s1 where "m s = (Inr x, s1)" "f x s1 = (Inr y, s')"
  using assms by (auto simp: tx_bind_def split: prod.splits sum.splits)

lemma tx_simps:
  "tx_query f (db, []) = (Inr x, s) \<longleftrightarrow> x = f db \<and> s = (db, [])"
  "tx_exec g (db, []) = (Inr u, s) \<longleftrightarrow> s = (g db, [])"
  "tx_return y t = (Inr z, s) \<longleftrightarrow> z = y \<and> s = t"
  "tx_fail e (db, []) \<noteq> (Inr z, s)"
  by (auto simp: tx_pure)

lemma push_session_pure:
  "push_session en token now (db, []) = (Inr x, s) \<Longrightarrow> s = (db, [])"
  by (auto simp: push_session_def Let_def tx_simps elim!: tx_bind_success split: if_splits option.splits)

lemma owned_row_pure:
  "owned_row i u m (db, []) = (Inr row, s) \<Longrightarrow>
   s = (db, []) \<and> row = tget (pd_registrations db) i \<and>
   (\<forall>r. row = Some r \<longrightarrow> rg_user_id r = u \<and> rg_mobile_session_id r = m)"
  by (auto simp: owned_row_def tx_simps elim!: tx_bind_success split: if_splits option.splits)

lemma check_revision_pure:
  "check_revision row n (db, []) = (Inr x, s) \<Longrightarrow>
   s = (db, []) \<and> n = (case row of None \<Rightarrow> 0 | Some r \<Rightarrow> rg_revision r)"
  by (auto simp: check_revision_def tx_simps split: if_splits)

lemma eligible_pure: "eligible en job now (db, []) = (Inr x, s) \<Longrightarrow> s = (db, []) \<and> x = eligible_row en db job now"
  by (simp add: eligible_def tx_simps)

text \<open>A handler of a device leaves the outbox alone and advances at most one row by one revision.\<close>

definition advances_row :: "push_db \<Rightarrow> push_db \<Rightarrow> bool" where
  "advances_row db db' \<longleftrightarrow> pd_outbox db' = pd_outbox db \<and>
     (pd_registrations db' = pd_registrations db \<or>
      (\<exists>r'. pd_registrations db' = tput (rg_installation_id r') r' (pd_registrations db) \<and>
         (\<forall>r. tget (pd_registrations db) (rg_installation_id r') = Some r \<longrightarrow>
            rg_user_id r' = rg_user_id r \<and> rg_mobile_session_id r' = rg_mobile_session_id r \<and>
            rg_revision r' = rg_revision r + 1)))"

definition regs_ok :: "push_db \<Rightarrow> bool" where
  "regs_ok db \<longleftrightarrow> table_ok (pd_registrations db) \<and> (\<forall>i r. tget (pd_registrations db) i = Some r \<longrightarrow> rg_installation_id r = i)"

lemma save_effect:
  assumes "save_preferences en token expected prefs now (db, []) = (Inr x, db', fs)" "regs_ok db"
  shows "advances_row db db'"
proof -
  from assms(1) obtain session mobile row where
    row: "row = tget (pd_registrations db) (ms_installation_id mobile)"
    and own: "\<forall>r. row = Some r \<longrightarrow> rg_user_id r = se_user_id session \<and> rg_mobile_session_id r = ms_id mobile"
    and rev: "expected = (case row of None \<Rightarrow> 0 | Some r \<Rightarrow> rg_revision r)"
    and db': "db' = put_registration (saved_row session mobile row expected prefs now) db"
    by (fastforce simp: save_preferences_def Let_def tx_simps split: prod.splits option.splits if_splits
        elim!: tx_bind_success dest!: push_session_pure owned_row_pure check_revision_pure)
  let ?r = "saved_row session mobile row expected prefs now"
  have i: "rg_installation_id ?r = ms_installation_id mobile"
  proof (cases row)
    case None
    then show ?thesis by (simp add: saved_row_def Let_def)
  next
    case (Some r)
    with row assms(2) have "rg_installation_id r = ms_installation_id mobile" by (auto simp: regs_ok_def)
    with Some show ?thesis by (simp add: saved_row_def Let_def)
  qed
  have "rg_user_id ?r = rg_user_id r \<and> rg_mobile_session_id ?r = rg_mobile_session_id r \<and> rg_revision ?r = rg_revision r + 1"
    if "row = Some r" for r
    using that rev by (simp add: saved_row_def Let_def)
  with i row db' show ?thesis
    by (auto simp: advances_row_def put_registration_def intro!: exI [of _ ?r])
qed

lemma register_effect:
  assumes "encrypted_register en token body now (db, []) = (Inr x, db', fs)" "regs_ok db"
  shows "advances_row db db'"
proof -
  from assms(1) have "tx_bind (push_session en token now) (\<lambda>(session, mobile).
        tx_bind (owned_row (ms_installation_id mobile) (se_user_id session) (ms_id mobile)) (\<lambda>row.
        tx_bind (check_revision row (pq_expected_revision body)) (\<lambda>_.
        register_identity session mobile row body now))) (db, []) = (Inr x, db', fs)"
    by (simp add: encrypted_register_def tx_simps split: if_splits)
  then obtain session mobile where "tx_bind (owned_row (ms_installation_id mobile) (se_user_id session) (ms_id mobile)) (\<lambda>row.
        tx_bind (check_revision row (pq_expected_revision body)) (\<lambda>_.
        register_identity session mobile row body now)) (db, []) = (Inr x, db', fs)"
    by (rule tx_bind_success) (auto dest: push_session_pure split: prod.splits)
  then obtain row where row: "row = tget (pd_registrations db) (ms_installation_id mobile)"
    and "tx_bind (check_revision row (pq_expected_revision body)) (\<lambda>_.
        register_identity session mobile row body now) (db, []) = (Inr x, db', fs)"
    by (rule tx_bind_success) (auto dest!: owned_row_pure)
  then have rev: "pq_expected_revision body = (case row of None \<Rightarrow> 0 | Some r \<Rightarrow> rg_revision r)"
    and tail: "register_identity session mobile row body now (db, []) = (Inr x, db', fs)"
    by (auto elim!: tx_bind_success dest!: check_revision_pure)
  let ?dbm = "db\<lparr>pd_migrations := List.insert (ms_installation_id mobile, se_user_id session) (pd_migrations db),
    pd_device_tokens := filter (\<lambda>(i, u, _). \<not> (i = ms_installation_id mobile \<and> u = se_user_id session)) (pd_device_tokens db)\<rparr>"
  from tail obtain r where r: "row = Some r"
    and db': "db' = ?dbm \<or> db' = put_registration (registered_row r body now) ?dbm"
    by (auto simp: register_identity_def Let_def tx_simps split: option.splits if_splits elim!: tx_bind_success)
  note row = row r
  from rev r have rev: "pq_expected_revision body = rg_revision r" by simp
  have i: "rg_installation_id r = ms_installation_id mobile"
    using row assms(2) by (auto simp: regs_ok_def)
  from db' show ?thesis
  proof
    assume "db' = ?dbm"
    then show ?thesis by (simp add: advances_row_def)
  next
    assume "db' = put_registration (registered_row r body now) ?dbm"
    with row rev i show ?thesis
      by (auto simp: advances_row_def put_registration_def registered_row_def
          intro!: exI [of _ "registered_row r body now"])
  qed
qed

text \<open>
  An envelope made for a row and a job: sealed under the key the row has, for its deployment, user
  and installation and the event of the job.
\<close>

definition sealed_for :: "push_env \<Rightarrow> push_registration \<Rightarrow> push_job \<Rightarrow> push_envelope \<Rightarrow> bool" where
  "sealed_for en r j e \<longleftrightarrow>
     (\<exists>key_id key secret content nonce.
        rg_content_key_id r = Some key_id \<and> rg_content_key r = Some key \<and> pe_decode en key = Some secret \<and>
        rg_deployment_id r = Some (pc_deployment_id content) \<and>
        pc_installation_id content = rg_installation_id r \<and> pc_user_id content = rg_user_id r \<and>
        pc_event_id content = ob_event_id j \<and> pc_expires_at content = ob_expires_at j \<and>
        seal en key_id secret content nonce = Inr e)"

definition same_login :: "push_registration \<Rightarrow> push_job \<Rightarrow> bool" where
  "same_login r j \<longleftrightarrow> rg_installation_id r = ob_installation_id j \<and> rg_user_id r = ob_user_id j \<and>
     rg_mobile_session_id r = ob_mobile_session_id j"

definition untried :: "push_job \<Rightarrow> bool" where
  "untried j \<longleftrightarrow> ob_outcome j = ''pending'' \<and> ob_attempts j = 0 \<and> ob_expires_at j = ob_created_at j + 1800 \<and>
     ob_created_at j \<le> ob_next_attempt_at j \<and> ob_lease_id j = None \<and> ob_lease_until j = 0"

definition fresh_job :: "push_env \<Rightarrow> push_db \<Rightarrow> job_key \<Rightarrow> push_job \<Rightarrow> bool" where
  "fresh_job en db k j \<longleftrightarrow> k = job_key_of j \<and> untried j \<and>
     (\<exists>r e. tget (pd_registrations db) (ob_installation_id j) = Some r \<and> same_login r j \<and>
        ob_registration_revision j = rg_revision r \<and> ob_envelope j = Some e \<and> sealed_for en r j e)"

definition adds_jobs :: "push_env \<Rightarrow> push_db \<Rightarrow> push_db \<Rightarrow> bool" where
  "adds_jobs en db db' \<longleftrightarrow> pd_registrations db' = pd_registrations db \<and>
     (table_ok (pd_outbox db) \<longrightarrow> table_ok (pd_outbox db')) \<and>
     (\<forall>k. tget (pd_outbox db') k = tget (pd_outbox db) k \<or>
        tget (pd_outbox db) k = None \<and> (\<exists>j. tget (pd_outbox db') k = Some j \<and> fresh_job en db k j))"

lemma adds_jobs_refl: "adds_jobs en db db"
  by (simp add: adds_jobs_def)

lemma fresh_job_regs: "pd_registrations db' = pd_registrations db \<Longrightarrow> fresh_job en db' k j = fresh_job en db k j"
  by (simp add: fresh_job_def)

lemma adds_jobs_trans: "adds_jobs en a b \<Longrightarrow> adds_jobs en b c \<Longrightarrow> adds_jobs en a c"
  unfolding adds_jobs_def using fresh_job_regs [of b a en] by (metis option.distinct(1))

lemma adds_jobs_put:
  assumes "tget (pd_outbox db) (job_key_of j) = None" "fresh_job en db (job_key_of j) j"
  shows "adds_jobs en db (put_job j db)"
  using assms by (auto simp: adds_jobs_def put_job_def tget_tput)

lemma eligible_row_facts:
  assumes "eligible_row en db job now = Some r"
  shows "tget (pd_registrations db) (ob_installation_id job) = Some r \<and> rg_user_id r = ob_user_id job \<and>
    rg_mobile_session_id r = ob_mobile_session_id job \<and> rg_revision r = ob_registration_revision job \<and>
    is_registered en r"
  using assms by (auto simp: eligible_row_def split: option.splits if_splits)

lemma new_test_effect:
  assumes "new_test en event_id session mobile expected nonce now (db, []) = (Inr x, db', fs)" "regs_ok db"
    and known: "tget (pd_outbox db) (event_id, ms_installation_id mobile) = None"
  shows "adds_jobs en db db'"
proof -
  from assms(1) obtain row role key_id key secret deployment envelope where
    row: "tget (pd_registrations db) (ms_installation_id mobile) = Some row"
    and own: "rg_user_id row = se_user_id session" "rg_mobile_session_id row = ms_id mobile"
    and keys: "rg_content_key_id row = Some key_id" "rg_content_key row = Some key" "pe_decode en key = Some secret"
      "rg_deployment_id row = Some deployment"
    and sealed: "seal en key_id secret (test_content deployment (se_user_id session) (ms_installation_id mobile)
        event_id (as_secs now)) nonce = Inr envelope"
    and db': "db' = put_job (queued_job ''test'' event_id row role None (as_secs now) (Some envelope)) db"
    by (cases "tget (pd_registrations db) (ms_installation_id mobile)")
      (auto simp: new_test_def owned_row_def check_revision_def tx_bind_def tx_pure Let_def
        split: option.splits if_splits sum.splits)
  let ?j = "queued_job ''test'' event_id row role None (as_secs now) (Some envelope)"
  from assms(2) row have i: "rg_installation_id row = ms_installation_id mobile" by (auto simp: regs_ok_def)
  have "sealed_for en row ?j envelope"
    using keys sealed i own unfolding sealed_for_def
    by (intro exI [of _ key_id] exI [of _ key] exI [of _ secret] exI [of _ nonce]
        exI [of _ "test_content deployment (se_user_id session) (ms_installation_id mobile) event_id (as_secs now)"])
      (simp add: test_content_def queued_job_def)
  with row i have "fresh_job en db (job_key_of ?j) ?j"
    by (simp add: fresh_job_def untried_def same_login_def queued_job_def)
  moreover have "tget (pd_outbox db) (job_key_of ?j) = None" using known i by (simp add: job_key_of_def queued_job_def)
  ultimately show ?thesis unfolding db' by (rule adds_jobs_put [rotated])
qed

lemma test_effect:
  assumes "test_notification en token raw expected nonce now (db, []) = (Inr x, db', fs)" "regs_ok db"
  shows "adds_jobs en db db'"
proof (cases "pe_parse_uuid en raw")
  case None
  with assms(1) show ?thesis by (simp add: test_notification_def tx_simps)
next
  case (Some event_id)
  from assms(1) show ?thesis
    unfolding test_notification_def Some option.case
  proof (rule tx_bind_success)
    fix p s1
    assume sess: "push_session en token now (db, []) = (Inr p, s1)"
    obtain session mobile where p: "p = (session, mobile)" by (cases p)
    assume "(case p of (session, mobile) \<Rightarrow>
        tx_bind (tx_query (\<lambda>db. tget (pd_outbox db) (event_id, ms_installation_id mobile)))
          (\<lambda>known. case known of None \<Rightarrow> new_test en event_id session mobile expected nonce now
             | Some job \<Rightarrow> if ob_user_id job \<noteq> se_user_id session \<or> ob_mobile_session_id job \<noteq> ms_id mobile
                 then tx_fail (Forbidden ''This test belongs to another login'')
                 else if ob_registration_revision job \<noteq> expected
                 then tx_fail (Conflict ''Test identity already used with another revision'') else tx_return job)) s1 =
        (Inr x, db', fs)"
    with push_session_pure [OF sess] p
    show ?thesis
      by (cases "tget (pd_outbox db) (event_id, ms_installation_id mobile)")
        (auto simp: tx_bind_def tx_pure adds_jobs_refl split: if_splits intro: new_test_effect [OF _ assms(2)])
  qed
qed

lemma security_effect:
  assumes "enqueue_security en server_id event_id event_type created now nonces rcs (db, []) = (Inr x, db', fs)" "regs_ok db"
  shows "adds_jobs en db db'"
  using assms
proof (induction rcs arbitrary: nonces db)
  case Nil
  then show ?case by (simp add: tx_simps adds_jobs_refl)
next
  case (Cons rc rcs)
  let ?job = "security_job rc event_id created"
  let ?rest = "enqueue_security en server_id event_id event_type created now (tl nonces) rcs"
  let ?nonce = "case nonces of [] \<Rightarrow> [] | n # _ \<Rightarrow> n"
  let ?content = "\<lambda>deployment. \<lparr>pc_kind = ''security'', pc_deployment_id = deployment, pc_user_id = ob_user_id ?job,
      pc_installation_id = ob_installation_id ?job, pc_event_id = event_id, pc_created_at = ob_created_at ?job,
      pc_expires_at = ob_expires_at ?job, pc_server_id = Some server_id, pc_security_event_id = Some event_id,
      pc_security_event_type = Some event_type, pc_task_run = None, pc_alert = None\<rparr>"
  show ?case
  proof (cases "?rest (db, []) = (Inr x, db', fs)")
    case True
    from Cons.IH [OF this Cons.prems(2)] show ?thesis .
  next
    case False
    with Cons.prems(1) obtain row key_id key secret deployment envelope where
      row: "eligible_row en db ?job now = Some row"
      and known: "tget (pd_outbox db) (event_id, rg_installation_id row) = None"
      and keys: "rg_content_key_id row = Some key_id" "rg_content_key row = Some key" "pe_decode en key = Some secret"
        "rg_deployment_id row = Some deployment"
      and sealed: "seal en key_id secret (?content deployment) ?nonce = Inr envelope"
      and rest: "?rest (put_job (?job\<lparr>ob_envelope := Some envelope\<rparr>) db, []) = (Inr x, db', fs)"
      by (auto simp: Let_def eligible_def tx_bind_def tx_pure split: option.splits if_splits sum.splits)
    let ?j = "?job\<lparr>ob_envelope := Some envelope\<rparr>"
    note facts = eligible_row_facts [OF row]
    with Cons.prems(2) have i: "rg_installation_id row = ob_installation_id ?job" by (auto simp: regs_ok_def)
    have "sealed_for en row ?j envelope"
      using keys sealed i facts unfolding sealed_for_def
      by (intro exI [of _ key_id] exI [of _ key] exI [of _ secret] exI [of _ "?content deployment"] exI [of _ ?nonce])
        (simp add: security_job_def)
    with facts i have "fresh_job en db (job_key_of ?j) ?j"
      by (simp add: fresh_job_def untried_def same_login_def security_job_def)
    moreover have "tget (pd_outbox db) (job_key_of ?j) = None"
      using known i by (simp add: job_key_of_def security_job_def)
    ultimately have "adds_jobs en db (put_job ?j db)" by (rule adds_jobs_put [rotated])
    moreover have "regs_ok (put_job ?j db)" using Cons.prems(2) by (simp add: regs_ok_def put_job_def)
    from Cons.IH [OF rest this] have "adds_jobs en (put_job ?j db) db'" .
    ultimately show ?thesis by (rule adds_jobs_trans)
  qed
qed

text \<open>The loops of the other producers: each row they queue for is the one they read.\<close>

lemma adds_jobs_row:
  assumes "tget (pd_registrations db) (ob_installation_id j) = Some row" "same_login row j"
    and "ob_registration_revision j = rg_revision row" "untried j"
    and env: "row_envelope en row content nonce = Some e"
    and content: "\<And>d. pc_deployment_id (content d) = d \<and> pc_installation_id (content d) = ob_installation_id j \<and>
      pc_user_id (content d) = ob_user_id j \<and> pc_event_id (content d) = ob_event_id j \<and>
      pc_expires_at (content d) = ob_expires_at j"
    and new: "tget (pd_outbox db) (job_key_of j) = None"
  shows "adds_jobs en db (put_job (j\<lparr>ob_envelope := Some e\<rparr>) db)"
proof -
  let ?j = "j\<lparr>ob_envelope := Some e\<rparr>"
  from env obtain key_id key secret d where keys: "rg_content_key_id row = Some key_id" "rg_content_key row = Some key"
      "pe_decode en key = Some secret" "rg_deployment_id row = Some d" "seal en key_id secret (content d) nonce = Inr e"
    by (auto simp: row_envelope_def split: option.splits sum.splits)
  with content [of d] assms(2) have "sealed_for en row ?j e"
    unfolding sealed_for_def
    by (intro exI [of _ key_id] exI [of _ key] exI [of _ secret] exI [of _ "content d"] exI [of _ nonce])
      (simp add: same_login_def)
  with assms(1-4) have "fresh_job en db (job_key_of ?j) ?j"
    by (simp add: fresh_job_def untried_def same_login_def)
  moreover have "tget (pd_outbox db) (job_key_of ?j) = None" using new by (simp add: job_key_of_def)
  ultimately show ?thesis by (rule adds_jobs_put [rotated])
qed

definition rows_current :: "push_db \<Rightarrow> push_registration list \<Rightarrow> bool" where
  "rows_current db rows \<longleftrightarrow> (\<forall>row\<in>set rows. tget (pd_registrations db) (rg_installation_id row) = Some row)"

lemma rows_current_filter:
  assumes "regs_ok db"
  shows "rows_current db (filter P (map snd (pd_registrations db)))"
  unfolding rows_current_def
proof
  fix row
  assume "row \<in> set (filter P (map snd (pd_registrations db)))"
  then obtain i where "(i, row) \<in> set (pd_registrations db)" by auto
  with assms have "tget (pd_registrations db) i = Some row" by (simp add: regs_ok_def tget_in_set)
  with assms show "tget (pd_registrations db) (rg_installation_id row) = Some row" unfolding regs_ok_def by metis
qed

lemma rows_current_put [simp]: "rows_current (put_job j db) rows = rows_current db rows"
  by (simp add: rows_current_def put_job_def)

lemma alert_rows_effect:
  assumes "alert_rows en event_id created target now nonces rows (db, []) = (Inr x, db', fs)" "rows_current db rows"
  shows "adds_jobs en db db'"
  using assms
proof (induction rows arbitrary: nonces db)
  case Nil
  then show ?case by (simp add: tx_simps adds_jobs_refl)
next
  case (Cons row rows)
  let ?rest = "alert_rows en event_id created target now (tl nonces) rows"
  show ?case
  proof (cases "?rest (db, []) = (Inr x, db', fs)")
    case True
    with Cons show ?thesis by (simp add: rows_current_def)
  next
    case False
    with Cons.prems(1) obtain role envelope where
      known: "tget (pd_outbox db) (event_id, rg_installation_id row) = None"
      and env: "row_envelope en row (\<lambda>d. alert_content d (queued_job ''alert'' event_id row role None created None) target)
          (first_nonce nonces) = Some envelope"
      and rest: "?rest (put_job ((queued_job ''alert'' event_id row role None created None)\<lparr>ob_envelope := Some envelope\<rparr>) db, [])
          = (Inr x, db', fs)"
      by (auto simp: Let_def eligible_def tx_bind_def tx_pure split: option.splits if_splits)
    let ?job = "queued_job ''alert'' event_id row role None created None"
    have "adds_jobs en db (put_job (?job\<lparr>ob_envelope := Some envelope\<rparr>) db)"
      using Cons.prems(2) known env
      by (intro adds_jobs_row [of db ?job row en "\<lambda>d. alert_content d ?job target" "first_nonce nonces"])
        (simp_all add: rows_current_def queued_job_def alert_content_def same_login_def untried_def job_key_of_def)
    moreover have "adds_jobs en (put_job (?job\<lparr>ob_envelope := Some envelope\<rparr>) db) db'"
      using Cons.IH [OF rest] Cons.prems(2) by (simp add: rows_current_def put_job_def)
    ultimately show ?thesis by (rule adds_jobs_trans)
  qed
qed

lemma alert_effect:
  assumes "fan_out_alert en event_id created target now nonces (db, []) = (Inr x, db', fs)" "regs_ok db"
  shows "adds_jobs en db db'"
  using assms(1) alert_rows_effect rows_current_filter [OF assms(2)]
  by (auto simp: fan_out_alert_def tx_simps elim!: tx_bind_success)

lemma task_rows_effect:
  assumes "task_rows en run run_id summary created now nonces rows (db, []) = (Inr x, db', fs)" "rows_current db rows"
    and "\<forall>row\<in>set rows. rg_user_id row = tk_owner_id run" "created \<le> as_secs now"
  shows "adds_jobs en db db'"
  using assms(1-3)
proof (induction rows arbitrary: nonces db)
  case Nil
  then show ?case by (simp add: tx_simps adds_jobs_refl)
next
  case (Cons row rows)
  let ?rest = "task_rows en run run_id summary created now (tl nonces) rows"
  let ?job = "task_job run run_id (is_success summary) created (as_secs now) row"
  let ?content = "\<lambda>d. task_content d run summary ?job"
  show ?case
  proof (cases "?rest (db, []) = (Inr x, db', fs)")
    case True
    with Cons show ?thesis by (simp add: rows_current_def)
  next
    case False
    with Cons.prems(1) obtain envelope where
      env: "row_envelope en row ?content (first_nonce nonces) = Some envelope"
      and rest: "?rest (insert_job (?job\<lparr>ob_envelope := Some envelope\<rparr>) db, []) = (Inr x, db', fs)"
      by (auto simp: Let_def eligible_def tx_bind_def tx_pure split: option.splits if_splits)
    let ?j = "?job\<lparr>ob_envelope := Some envelope\<rparr>"
    have "adds_jobs en db (insert_job ?j db)"
    proof (cases "tget (pd_outbox db) (job_key_of ?j)")
      case None
      have "adds_jobs en db (put_job ?j db)"
        using Cons.prems(2,3) assms(4) None env
        by (intro adds_jobs_row [of db ?job row en ?content "first_nonce nonces"])
          (simp_all add: rows_current_def task_job_def task_content_def same_login_def untried_def job_key_of_def)
      with None show ?thesis by (simp add: insert_job_def)
    qed (simp add: insert_job_def adds_jobs_refl)
    moreover have "adds_jobs en (insert_job ?j db) db'"
      using Cons.IH [OF rest] Cons.prems(2,3) by (simp add: rows_current_def put_job_def insert_job_def)
    ultimately show ?thesis by (rule adds_jobs_trans)
  qed
qed

lemma adds_jobs_same: "same_push_tables db db1 \<Longrightarrow> adds_jobs en db1 db2 \<Longrightarrow> adds_jobs en db db2"
  by (simp add: adds_jobs_def same_push_tables_def fresh_job_def)

lemma same_tables_put_run [simp]: "same_push_tables db (put_run run db)"
  by (simp add: same_push_tables_def put_run_def)

lemma put_run_tables [simp]:
  "pd_registrations (put_run run db) = pd_registrations db" "pd_outbox (put_run run db) = pd_outbox db"
  by (simp_all add: put_run_def)

lemma adds_jobs_same_tables: "same_push_tables db db' \<Longrightarrow> adds_jobs en db db'"
  using adds_jobs_same [OF _ adds_jobs_refl] .

lemma finish_run_effect:
  assumes run: "finish_run en run_id now nonces (db, []) = (Inr x, db', fs)" and ok: "regs_ok db"
    and clock: "run_before db run_id now"
  shows "adds_jobs en db db'"
proof (cases "db' = db \<or> (\<exists>r. db' = put_run r db)")
  case True
  then show ?thesis using adds_jobs_refl adds_jobs_same_tables by auto
next
  case False
  let ?rows = "\<lambda>run summary. filter (task_wanted run (is_success summary)) (map snd (pd_registrations db))"
  from False run obtain run summary created where
    found: "tget (pd_task_runs db) run_id = Some run" "tk_completed_at run = Some created"
    and rows: "task_rows en run run_id summary created now nonces (?rows run summary)
        (put_run (run\<lparr>tk_status := ''completed''\<rparr>) db, []) = (Inr x, db', fs)"
    by (auto simp: finish_run_def tx_bind_def tx_pure split: option.splits if_splits)
  let ?db = "put_run (run\<lparr>tk_status := ''completed''\<rparr>) db"
  have "rows_current ?db (?rows run summary)"
    using rows_current_filter [OF ok] by (simp add: rows_current_def put_run_def)
  moreover have "created \<le> as_secs now" using clock found by (simp add: run_before_def)
  ultimately have "adds_jobs en ?db db'" using rows by (intro task_rows_effect [OF rows]) (auto simp: task_wanted_def)
  then show ?thesis by (rule adds_jobs_same [rotated]) simp
qed

lemma completion_effect:
  assumes "record_completion run_id complete finished_at (db, []) = (Inr x, db', fs)"
  shows "adds_jobs en db db'"
proof -
  from assms have "db' = db \<or> (\<exists>r. db' = put_run r db)"
    by (auto simp: record_completion_def tx_bind_def tx_pure split: option.splits if_splits)
  then show ?thesis using adds_jobs_refl adds_jobs_same_tables by auto
qed

text \<open>The jobs as tables: keyed by event and installation.\<close>

definition outbox_ok :: "push_db \<Rightarrow> bool" where
  "outbox_ok db \<longleftrightarrow> table_ok (pd_outbox db) \<and> (\<forall>k j. tget (pd_outbox db) k = Some j \<longrightarrow> job_key_of j = k)"

definition expire_all :: "int \<Rightarrow> push_db \<Rightarrow> push_db" where
  "expire_all now db = db\<lparr>pd_outbox := map (\<lambda>(k, j). (k, expire_job now j)) (pd_outbox db)\<rparr>"

lemma due_job_facts:
  assumes "due_job now db = Some j" "outbox_ok db"
  shows "tget (pd_outbox db) (job_key_of j) = Some j \<and> unfinished j \<and> ob_next_attempt_at j \<le> now \<and> ob_lease_until j \<le> now"
proof -
  let ?js = "sort_key ob_next_attempt_at
         (filter (\<lambda>j. unfinished j \<and> ob_next_attempt_at j \<le> now \<and> ob_lease_until j \<le> now) (map snd (pd_outbox db)))"
  from assms(1) obtain js where "?js = j # js"
    by (auto simp: due_job_def split: list.splits)
  then have "j \<in> set ?js" by (metis list.set_intros(1))
  then obtain k where k: "(k, j) \<in> set (pd_outbox db)" and "unfinished j" "ob_next_attempt_at j \<le> now" "ob_lease_until j \<le> now"
    by auto
  moreover from k assms(2) have "tget (pd_outbox db) k = Some j" by (simp add: outbox_ok_def tget_in_set)
  moreover from this assms(2) have "job_key_of j = k" unfolding outbox_ok_def by blast
  ultimately show ?thesis by simp
qed

lemma tget_expire_all: "tget (pd_outbox (expire_all now db)) k = map_option (expire_job now) (tget (pd_outbox db) k)"
  by (simp add: expire_all_def tget_map_values)

lemma job_key_expire [simp]: "job_key_of (expire_job now j) = job_key_of j"
  by (simp add: expire_job_def job_key_of_def)

lemma outbox_ok_expire: "outbox_ok db \<Longrightarrow> outbox_ok (expire_all now db)"
  by (auto simp: outbox_ok_def tget_expire_all) (simp add: expire_all_def)

text \<open>What a claim leaves: \<open>c\<close> is the job taken, if one was.\<close>

lemma claim_job_effect:
  assumes "claim_job en lease now (db, []) = (Inr c, db', fs)" "outbox_ok db"
  defines "dx \<equiv> expire_all (as_secs now) db"
  shows "c = None \<and> db' = dx \<or>
    (\<exists>job. tget (pd_outbox dx) (job_key_of job) = Some job \<and> unfinished job \<and>
       ob_next_attempt_at job \<le> as_secs now \<and> ob_lease_until job \<le> as_secs now \<and> as_secs now < ob_expires_at job \<and>
       (c = None \<and> db' = map_job (job_key_of job) (\<lambda>j. j\<lparr>ob_outcome := ''permanent'', ob_reason := ''Ineligible'',
            ob_envelope := None\<rparr>) dx \<or>
        (\<exists>row. c = Some (job, row) \<and> eligible_row en dx job now = Some row \<and>
           db' = map_job (job_key_of job) (\<lambda>j. j\<lparr>ob_lease_id := Some lease,
             ob_lease_until := as_secs now + LEASE_SECONDS, ob_attempts := ob_attempts j + 1\<rparr>) dx)))"
proof (cases "due_job (as_secs now) dx")
  case None
  with assms(1) show ?thesis
    by (simp add: claim_job_def Let_def tx_bind_def tx_pure dx_def expire_all_def)
next
  case (Some job)
  from due_job_facts [OF Some] outbox_ok_expire [OF assms(2)]
  have job: "tget (pd_outbox dx) (job_key_of job) = Some job" "unfinished job"
    "ob_next_attempt_at job \<le> as_secs now" "ob_lease_until job \<le> as_secs now"
    by (simp_all add: dx_def)
  from job(1) obtain j where "job = expire_job (as_secs now) j" by (auto simp: dx_def tget_expire_all)
  with job have "as_secs now < ob_expires_at job"
    by (auto simp: expire_job_def unfinished_def split: if_splits)
  moreover from assms(1) Some have "c = None \<and> db' = map_job (job_key_of job) (\<lambda>j. j\<lparr>ob_outcome := ''permanent'',
      ob_reason := ''Ineligible'', ob_envelope := None\<rparr>) dx \<or>
    (\<exists>row. c = Some (job, row) \<and> eligible_row en dx job now = Some row \<and>
       db' = map_job (job_key_of job) (\<lambda>j. j\<lparr>ob_lease_id := Some lease,
         ob_lease_until := as_secs now + LEASE_SECONDS, ob_attempts := ob_attempts j + 1\<rparr>) dx)"
    by (cases "eligible_row en dx job now")
      (auto simp: claim_job_def Let_def tx_bind_def tx_pure eligible_def expire_all_def dx_def)
  ultimately show ?thesis using job by blast
qed

text \<open>What finishing leaves: nothing, unless the job still has the lease.\<close>

lemma finish_effect:
  assumes "finish_job job row lease delivery finished (db, []) = (Inr u, db', fs)"
  shows "db' = db \<and> (\<forall>j. tget (pd_outbox db) (job_key_of job) = Some j \<longrightarrow> ob_lease_id j \<noteq> Some lease) \<or>
    (\<exists>j db1. tget (pd_outbox db) (job_key_of job) = Some j \<and> ob_lease_id j = Some lease \<and>
       (db1 = db \<or> db1 = invalidate_device row db) \<and>
       db' = map_job (job_key_of job) (\<lambda>j. if ob_lease_id j = Some lease then settled job delivery finished j else j) db1)"
proof (cases "\<exists>j. tget (pd_outbox db) (job_key_of job) = Some j \<and> ob_lease_id j = Some lease")
  case False
  with assms show ?thesis
    by (auto simp: finish_job_def Let_def tx_bind_def tx_pure split: option.splits)
next
  case True
  with assms show ?thesis
    by (auto simp: finish_job_def Let_def tx_bind_def tx_pure split: if_splits)
qed

section \<open>What is sent goes where it was made for\<close>

text \<open>
  Every job has the row of its login, at its revision or a later one; at its own revision the row
  has the key the envelope was sealed under.
\<close>

definition job_ok :: "push_env \<Rightarrow> push_db \<Rightarrow> push_job \<Rightarrow> bool" where
  "job_ok en db j \<longleftrightarrow>
     (\<exists>r. tget (pd_registrations db) (ob_installation_id j) = Some r \<and> same_login r j \<and>
        ob_registration_revision j \<le> rg_revision r \<and>
        (ob_registration_revision j = rg_revision r \<longrightarrow>
           (\<forall>e. ob_envelope j = Some e \<longrightarrow> sealed_for en r j e)))"

definition push_ok :: "push_env \<Rightarrow> push_db \<Rightarrow> bool" where
  "push_ok en db \<longleftrightarrow> regs_ok db \<and> outbox_ok db \<and>
     (\<forall>k j. tget (pd_outbox db) k = Some j \<longrightarrow> job_ok en db j)"

lemma push_ok_job: "push_ok en db \<Longrightarrow> tget (pd_outbox db) k = Some j \<Longrightarrow> job_ok en db j"
  unfolding push_ok_def by blast

lemma push_okI:
  assumes "regs_ok db" "outbox_ok db" "\<And>k j. tget (pd_outbox db) k = Some j \<Longrightarrow> job_ok en db j"
  shows "push_ok en db"
  using assms unfolding push_ok_def by blast

lemma push_ok_parts: "push_ok en db \<Longrightarrow> regs_ok db" "push_ok en db \<Longrightarrow> outbox_ok db"
  by (simp_all add: push_ok_def)

definition flight_ok :: "push_env \<Rightarrow> push_flight \<Rightarrow> bool" where
  "flight_ok en fl \<longleftrightarrow>
     fl_at fl < ob_expires_at (fl_job fl) \<and> same_login (fl_row fl) (fl_job fl) \<and>
     rg_revision (fl_row fl) = ob_registration_revision (fl_job fl) \<and> is_registered en (fl_row fl) \<and>
     (\<forall>e. ob_envelope (fl_job fl) = Some e \<longrightarrow> sealed_for en (fl_row fl) (fl_job fl) e)"

definition same_identity_job :: "push_job \<Rightarrow> push_job \<Rightarrow> bool" where
  "same_identity_job j j' \<longleftrightarrow>
     ob_event_id j' = ob_event_id j \<and> ob_installation_id j' = ob_installation_id j \<and> ob_user_id j' = ob_user_id j \<and>
     ob_mobile_session_id j' = ob_mobile_session_id j \<and>
     ob_registration_revision j' = ob_registration_revision j \<and> ob_created_at j' = ob_created_at j \<and>
     ob_expires_at j' = ob_expires_at j \<and> (ob_envelope j' = ob_envelope j \<or> ob_envelope j' = None)"

lemma job_ok_mono:
  assumes "job_ok en db j" "same_identity_job j j'" "pd_registrations db' = pd_registrations db"
  shows "job_ok en db' j'"
  using assms by (auto simp: job_ok_def same_identity_job_def same_login_def sealed_for_def)

lemma job_ok_advance:
  assumes "job_ok en db j" "tget (pd_registrations db) i = Some r"
    and "rg_installation_id r' = rg_installation_id r" "rg_user_id r' = rg_user_id r"
      "rg_mobile_session_id r' = rg_mobile_session_id r" "rg_revision r' = rg_revision r + 1"
    and "pd_registrations db' = tput i r' (pd_registrations db)"
  shows "job_ok en db' j"
  using assms by (auto simp: job_ok_def same_login_def tget_tput)

lemma job_ok_same: "pd_registrations db' = pd_registrations db \<Longrightarrow> job_ok en db j \<Longrightarrow> job_ok en db' j"
  by (simp add: job_ok_def)

text \<open>The keys of both tables, which every operation keeps.\<close>

lemma regs_ok_advances: "advances_row db db' \<Longrightarrow> regs_ok db \<Longrightarrow> regs_ok db'"
  by (auto simp: advances_row_def regs_ok_def tget_tput split: if_splits)

lemma regs_ok_same: "pd_registrations db' = pd_registrations db \<Longrightarrow> regs_ok db \<Longrightarrow> regs_ok db'"
  by (simp add: regs_ok_def)

lemma outbox_ok_same: "pd_outbox db' = pd_outbox db \<Longrightarrow> outbox_ok db \<Longrightarrow> outbox_ok db'"
  by (simp add: outbox_ok_def)

lemma regs_ok_bumps:
  assumes "pd_registrations db' = map (\<lambda>(i, r). (i, g r)) (pd_registrations db)"
    and "\<And>r. rg_installation_id (g r) = rg_installation_id r" "regs_ok db"
  shows "regs_ok db'"
  using assms by (auto simp: regs_ok_def tget_map_values)

lemma outbox_ok_map:
  assumes "outbox_ok db" "\<And>j. job_key_of (f j) = job_key_of j"
  shows "outbox_ok (map_job k f db)"
  using assms by (auto simp: outbox_ok_def map_job_def tget_tmodify)

lemma adds_jobs_outbox_ok:
  assumes "adds_jobs en db db'" "outbox_ok db"
  shows "outbox_ok db'"
  unfolding outbox_ok_def
proof (intro conjI allI impI)
  show "table_ok (pd_outbox db')" using assms by (simp add: adds_jobs_def outbox_ok_def)
  fix k j
  assume j: "tget (pd_outbox db') k = Some j"
  show "job_key_of j = k"
  proof (cases "tget (pd_outbox db) k = Some j")
    case True
    with assms(2) show ?thesis unfolding outbox_ok_def by blast
  next
    case False
    with assms(1) j have "fresh_job en db k j" unfolding adds_jobs_def by (metis option.inject)
    then show ?thesis by (simp add: fresh_job_def)
  qed
qed

lemma push_ok_advances:
  assumes ok: "push_ok en db" and adv: "advances_row db db'"
  shows "push_ok en db'"
proof (cases "pd_registrations db' = pd_registrations db")
  case True
  with adv have "pd_outbox db' = pd_outbox db" by (simp add: advances_row_def)
  with True show ?thesis
    using push_ok_parts [OF ok] push_ok_job [OF ok] job_ok_same [OF True] regs_ok_same [OF True] outbox_ok_same
    by (intro push_okI) simp_all
next
  case False
  with adv obtain r' where regs: "pd_registrations db' = tput (rg_installation_id r') r' (pd_registrations db)"
    and out: "pd_outbox db' = pd_outbox db"
    and next': "\<And>r. tget (pd_registrations db) (rg_installation_id r') = Some r \<Longrightarrow>
            rg_user_id r' = rg_user_id r \<and> rg_mobile_session_id r' = rg_mobile_session_id r \<and>
            rg_revision r' = rg_revision r + 1"
    by (auto simp: advances_row_def)
  show ?thesis
  proof (rule push_okI)
    show "regs_ok db'" using adv push_ok_parts(1) [OF ok] by (rule regs_ok_advances)
    show "outbox_ok db'" using out push_ok_parts(2) [OF ok] by (rule outbox_ok_same)
    fix k j
    assume "tget (pd_outbox db') k = Some j"
    with out push_ok_job [OF ok] have j: "job_ok en db j" by simp
    show "job_ok en db' j"
    proof (cases "tget (pd_registrations db) (rg_installation_id r')")
      case None
      with j regs show ?thesis by (auto simp: job_ok_def tget_tput)
    next
      case (Some r)
      with push_ok_parts(1) [OF ok] have "rg_installation_id r = rg_installation_id r'" by (simp add: regs_ok_def)
      with job_ok_advance [OF j Some, of r' db'] next' [OF Some] regs show ?thesis by simp
    qed
  qed
qed

lemma push_ok_adds:
  assumes ok: "push_ok en db" and adds: "adds_jobs en db db'"
  shows "push_ok en db'"
proof (rule push_okI)
  from adds have regs: "pd_registrations db' = pd_registrations db" by (simp add: adds_jobs_def)
  with push_ok_parts(1) [OF ok] show "regs_ok db'" using regs_ok_same by blast
  show "outbox_ok db'" using adds push_ok_parts(2) [OF ok] by (rule adds_jobs_outbox_ok)
  fix k j
  assume j: "tget (pd_outbox db') k = Some j"
  show "job_ok en db' j"
  proof (cases "tget (pd_outbox db) k = Some j")
    case True
    with push_ok_job [OF ok] job_ok_same [OF regs] show ?thesis by blast
  next
    case False
    with adds j have "fresh_job en db k j" unfolding adds_jobs_def by (metis option.inject)
    then have "job_ok en db j" unfolding fresh_job_def job_ok_def by auto
    then show ?thesis by (rule job_ok_same [OF regs])
  qed
qed

lemma push_ok_evolves:
  assumes ok: "push_ok en db" and keys: "outbox_ok db'"
    and regs: "pd_registrations db' = pd_registrations db"
    and old: "\<And>k j'. tget (pd_outbox db') k = Some j' \<Longrightarrow> \<exists>j. tget (pd_outbox db) k = Some j \<and> same_identity_job j j'"
  shows "push_ok en db'"
proof (rule push_okI)
  show "regs_ok db'" using regs push_ok_parts(1) [OF ok] by (rule regs_ok_same)
  show "outbox_ok db'" by fact
  fix k j'
  assume "tget (pd_outbox db') k = Some j'"
  from old [OF this] obtain j where "tget (pd_outbox db) k = Some j" "same_identity_job j j'" by blast
  with push_ok_job [OF ok] regs show "job_ok en db' j'" using job_ok_mono by blast
qed

lemma push_ok_bumps:
  assumes ok: "push_ok en db" and out: "pd_outbox db' = pd_outbox db"
    and regs: "pd_registrations db' = map (\<lambda>(i, r). (i, g r)) (pd_registrations db)"
    and g: "\<And>r. rg_installation_id (g r) = rg_installation_id r" "\<And>r. rg_user_id (g r) = rg_user_id r"
      "\<And>r. rg_mobile_session_id (g r) = rg_mobile_session_id r" "\<And>r. g r = r \<or> rg_revision (g r) = rg_revision r + 1"
  shows "push_ok en db'"
proof (rule push_okI)
  show "regs_ok db'" using regs g(1) push_ok_parts(1) [OF ok] by (rule regs_ok_bumps)
  show "outbox_ok db'" using out push_ok_parts(2) [OF ok] by (rule outbox_ok_same)
  fix k j
  assume "tget (pd_outbox db') k = Some j"
  with out push_ok_job [OF ok] obtain r where r: "tget (pd_registrations db) (ob_installation_id j) = Some r"
      "same_login r j" "ob_registration_revision j \<le> rg_revision r"
    and sealed: "ob_registration_revision j = rg_revision r \<longrightarrow> (\<forall>e. ob_envelope j = Some e \<longrightarrow> sealed_for en r j e)"
    unfolding job_ok_def by metis
  have login: "same_login (g r) j" using r(2) by (simp add: same_login_def g(1) g(2) g(3))
  have upto: "ob_registration_revision j \<le> rg_revision (g r)" using g(4) [of r] r(3) by auto
  have sealed': "\<forall>e. ob_envelope j = Some e \<longrightarrow> sealed_for en (g r) j e" if "ob_registration_revision j = rg_revision (g r)"
    using g(4) [of r]
  proof
    assume "g r = r"
    with that sealed show ?thesis by simp
  next
    assume "rg_revision (g r) = rg_revision r + 1"
    with that r(3) show ?thesis by linarith
  qed
  from r(1) have "tget (pd_registrations db') (ob_installation_id j) = Some (g r)" by (simp add: regs tget_map_values)
  with login upto sealed' show "job_ok en db' j" unfolding job_ok_def by blast
qed

lemma push_ok_invalidate: "push_ok en db \<Longrightarrow> push_ok en (invalidate_device row db)"
  by (rule push_ok_bumps [where g = "unset_device row"]) (simp_all add: invalidate_device_def unset_device_def)

text \<open>A job that changes keeps its identity.\<close>

lemma same_identity_refl [simp]: "same_identity_job j j"
  by (simp add: same_identity_job_def)

lemma same_identity_trans: "same_identity_job a b \<Longrightarrow> same_identity_job b c \<Longrightarrow> same_identity_job a c"
  by (auto simp: same_identity_job_def)

lemma same_identity_expire [simp]: "same_identity_job j (expire_job now j)"
  by (simp add: expire_job_def same_identity_job_def)

lemma same_identity_key: "same_identity_job j j' \<Longrightarrow> job_key_of j' = job_key_of j"
  by (simp add: same_identity_job_def job_key_of_def)

lemma push_ok_expire:
  assumes "push_ok en db"
  shows "push_ok en (expire_all now db)"
proof (rule push_ok_evolves [OF assms])
  show "outbox_ok (expire_all now db)" using push_ok_parts(2) [OF assms] by (rule outbox_ok_expire)
  show "pd_registrations (expire_all now db) = pd_registrations db" by (simp add: expire_all_def)
qed (auto simp: tget_expire_all)

lemma push_ok_map:
  assumes ok: "push_ok en db" and f: "\<And>j. same_identity_job j (f j)"
  shows "push_ok en (map_job k f db)"
proof (rule push_ok_evolves [OF ok])
  show "outbox_ok (map_job k f db)"
    using push_ok_parts(2) [OF ok] same_identity_key [OF f] by (rule outbox_ok_map)
  show "pd_registrations (map_job k f db) = pd_registrations db" by (simp add: map_job_def)
  fix i j'
  assume "tget (pd_outbox (map_job k f db)) i = Some j'"
  with f show "\<exists>j. tget (pd_outbox db) i = Some j \<and> same_identity_job j j'"
    by (auto simp: map_job_def tget_tmodify split: if_splits)
qed

lemma same_identity_settled: "same_identity_job j (settled job delivery finished j)"
  by (simp add: settled_def Let_def same_identity_job_def split_def)

lemma push_ok_claim:
  assumes "claim_job en lease now (db, []) = (Inr c, db', fs)" "push_ok en db"
  shows "push_ok en db'"
  using claim_job_effect [OF assms(1) push_ok_parts(2) [OF assms(2)]] push_ok_expire [OF assms(2)]
  by (auto intro!: push_ok_map simp: same_identity_job_def)

lemma push_ok_finish:
  assumes "finish_job job row lease delivery finished (db, []) = (Inr u, db', fs)" "push_ok en db"
  shows "push_ok en db'"
  using finish_effect [OF assms(1)] assms(2)
  by (auto intro!: push_ok_map push_ok_invalidate simp: same_identity_settled)

lemma claimed_flight_ok:
  assumes "claim_job en lease now (db, []) = (Inr (Some (job, row)), db', fs)" "push_ok en db"
  shows "flight_ok en \<lparr>fl_lease = lease, fl_job = job, fl_row = row, fl_at = as_secs now\<rparr>"
proof -
  let ?dx = "expire_all (as_secs now) db"
  from claim_job_effect [OF assms(1) push_ok_parts(2) [OF assms(2)]]
  have job: "tget (pd_outbox ?dx) (job_key_of job) = Some job" "as_secs now < ob_expires_at job"
    and row: "eligible_row en ?dx job now = Some row" by auto
  from push_ok_job [OF push_ok_expire [OF assms(2)] job(1)] obtain r
    where r: "tget (pd_registrations ?dx) (ob_installation_id job) = Some r" "same_login r job"
      "ob_registration_revision job = rg_revision r \<longrightarrow> (\<forall>e. ob_envelope job = Some e \<longrightarrow> sealed_for en r job e)"
    unfolding job_ok_def by blast
  note facts = eligible_row_facts [OF row]
  with r(1) have "r = row" by simp
  with r facts job(2) show ?thesis by (simp add: flight_ok_def)
qed

text \<open>The tables of a world and what has been sent.\<close>

definition world_ok :: "push_env \<Rightarrow> push_world \<Rightarrow> bool" where
  "world_ok en w \<longleftrightarrow> push_ok en (pw_db w) \<and> (\<forall>fl\<in>set (pw_sent w). flight_ok en fl)"

lemma push_ok_run:
  assumes "run_tx m (db, fs) = (r, db', fs')" "fault_blind m" "push_ok en db"
    and "\<And>x. m (db, []) = (Inr x, db', []) \<Longrightarrow> push_ok en db'"
  shows "push_ok en db'"
proof (cases r)
  case (Inl e)
  with assms(1) have "db' = db" using run_tx_error [of m db fs e db' fs'] by simp
  with assms(3) show ?thesis by simp
next
  case (Inr x)
  with run_tx_success [of m db fs x db' fs'] assms(1,2) have "m (db, []) = (Inr x, db', [])" by simp
  then show ?thesis by (rule assms(4))
qed

lemma push_ok_tables: "same_push_tables db db' \<Longrightarrow> push_ok en db \<Longrightarrow> push_ok en db'"
  by (simp add: push_ok_def same_push_tables_def regs_ok_def outbox_ok_def job_ok_def)

lemma push_step_ok:
  assumes "push_step en w w'" "world_ok en w"
  shows "world_ok en w'"
proof -
  note ok = assms(2) [unfolded world_ok_def, THEN conjunct1]
  note regs = push_ok_parts(1) [OF ok]
  from assms(1) show ?thesis
  proof cases
    case (StepSave token expected prefs now fs r db fs')
    have "push_ok en db"
      by (rule push_ok_run [OF StepSave(2) fault_blind_save ok]) (rule push_ok_advances [OF ok save_effect [OF _ regs]])
    with StepSave assms(2) show ?thesis by (simp add: world_ok_def)
  next
    case (StepRegister token body now fs r db fs')
    have "push_ok en db"
      by (rule push_ok_run [OF StepRegister(2) fault_blind_register ok]) (rule push_ok_advances [OF ok register_effect [OF _ regs]])
    with StepRegister assms(2) show ?thesis by (simp add: world_ok_def)
  next
    case (StepTest token event_id expected nonce now fs r' db fs')
    have "push_ok en db"
      by (rule push_ok_run [OF StepTest(2) fault_blind_test ok]) (rule push_ok_adds [OF ok test_effect [OF _ regs]])
    with StepTest assms(2) show ?thesis by (simp add: world_ok_def)
  next
    case (StepSecurity server_id event_id event_type created now nonces rcs fs q db fs')
    have "push_ok en db"
      by (rule push_ok_run [OF StepSecurity(2) fault_blind_security ok]) (rule push_ok_adds [OF ok security_effect [OF _ regs]])
    with StepSecurity assms(2) show ?thesis by (simp add: world_ok_def)
  next
    case (StepAlert event_id created target now nonces fs q db fs')
    have "push_ok en db"
      by (rule push_ok_run [OF StepAlert(2) fault_blind_fan_out ok]) (rule push_ok_adds [OF ok alert_effect [OF _ regs]])
    with StepAlert assms(2) show ?thesis by (simp add: world_ok_def)
  next
    case (StepCompletion run_id complete finished_at fs q db fs')
    have "push_ok en db"
      by (rule push_ok_run [OF StepCompletion(2) fault_blind_completion ok]) (rule push_ok_adds [OF ok completion_effect])
    with StepCompletion assms(2) show ?thesis by (simp add: world_ok_def)
  next
    case (StepRun run_id now nonces fs q db fs')
    have "push_ok en db"
      by (rule push_ok_run [OF StepRun(2) fault_blind_finish_run ok])
        (rule push_ok_adds [OF ok finish_run_effect [OF _ regs StepRun(3)]])
    with StepRun assms(2) show ?thesis by (simp add: world_ok_def)
  next
    case (StepIdle lease now fs c db fs')
    have "push_ok en db"
      by (rule push_ok_run [OF StepIdle(2) fault_blind_claim ok]) (rule push_ok_claim [OF _ ok])
    with StepIdle assms(2) show ?thesis by (simp add: world_ok_def)
  next
    case (StepClaim lease now fs job row db fs' fl)
    from run_tx_success [OF StepClaim(2) fault_blind_claim]
    have claim: "claim_job en lease now (pw_db w, []) = (Inr (Some (job, row)), db, [])" .
    from push_ok_claim [OF claim ok] claimed_flight_ok [OF claim ok] StepClaim assms(2)
    show ?thesis by (simp add: world_ok_def)
  next
    case (StepFinish fl finished reply fs u db fs')
    have "push_ok en db"
      by (rule push_ok_run [OF StepFinish(4) fault_blind_finish ok]) (rule push_ok_finish [OF _ ok])
    with StepFinish assms(2) show ?thesis by (simp add: world_ok_def)
  next
    case StepCrash
    with assms(2) show ?thesis by (simp add: world_ok_def)
  next
    case (StepAccounts db)
    with push_ok_tables [OF _ ok] assms(2) show ?thesis by (simp add: world_ok_def)
  qed
qed

lemma push_start_ok: "push_start w \<Longrightarrow> world_ok en w"
  by (simp add: push_start_def world_ok_def push_ok_def regs_ok_def outbox_ok_def)

lemma push_run_ok: "(push_step en)\<^sup>*\<^sup>* w w' \<Longrightarrow> world_ok en w \<Longrightarrow> world_ok en w'"
  by (induction rule: rtranclp_induct) (auto intro: push_step_ok)

end
