(* ===== verification/Push_Outbox.thy ===== *)
theory Push_Outbox
  imports Push_Delivery
begin

text \<open>
  The life of one row of the outbox.  \<open>job_step\<close> is a machine for a single row, with what has been
  sent of it: it is queued, claimed, settled by the answer of its own lease, expired, or refused.
  Each step of the whole system, the deletions of registrations included, is a step of this machine
  for every row (\<open>push_step_refines\<close>), so bounds and finality are proved on the small machine.
  Last, what every push sent satisfies even when rows are deleted.
\<close>

section \<open>The machine of a row\<close>

definition ineligible_job :: "push_job \<Rightarrow> push_job" where
  "ineligible_job j = j\<lparr>ob_outcome := ''permanent'', ob_reason := ''Ineligible'', ob_envelope := None\<rparr>"

definition leased_job :: "string \<Rightarrow> int \<Rightarrow> push_job \<Rightarrow> push_job" where
  "leased_job lease now j =
     j\<lparr>ob_lease_id := Some lease, ob_lease_until := now + LEASE_SECONDS, ob_attempts := ob_attempts j + 1\<rparr>"

definition due :: "int \<Rightarrow> push_job \<Rightarrow> bool" where
  "due now j \<longleftrightarrow> unfinished j \<and> ob_next_attempt_at j \<le> now \<and> ob_lease_until j \<le> now"

inductive job_step ::
  "push_job option \<times> push_flight list \<Rightarrow> push_job option \<times> push_flight list \<Rightarrow> bool" where
  JobSame: "job_step s s"
| JobQueued: "untried j \<Longrightarrow> job_step (None, fls) (Some j, fls)"
| JobExpired: "unfinished j \<Longrightarrow> ob_lease_until j \<le> now \<Longrightarrow>
     job_step (Some j, fls) (Some (expire_job now j), fls)"
| JobIneligible: "due now j \<Longrightarrow> job_step (Some j, fls) (Some (ineligible_job j), fls)"
| JobClaimed: "due (fl_at fl) (fl_job fl) \<Longrightarrow> fl_at fl < ob_expires_at (fl_job fl) \<Longrightarrow>
     fl_lease fl \<notin> fl_lease ` set fls \<Longrightarrow>
     job_step (Some (fl_job fl), fls) (Some (leased_job (fl_lease fl) (fl_at fl) (fl_job fl)), fls @ [fl])"
| JobSettled: "fl \<in> set fls \<Longrightarrow> fl_at fl \<le> finished \<Longrightarrow> ob_lease_id j = Some (fl_lease fl) \<Longrightarrow>
     job_step (Some j, fls) (Some (settled (fl_job fl) delivery finished j), fls)"

text \<open>A world seen from one row.\<close>

definition job_view :: "job_key \<Rightarrow> push_world \<Rightarrow> push_job option \<times> push_flight list" where
  "job_view k w = (tget (pd_outbox (pw_db w)) k, filter (\<lambda>fl. job_key_of (fl_job fl) = k) (pw_sent w))"

section \<open>Every step is a step of each row\<close>

definition keyed :: "push_db \<Rightarrow> bool" where
  "keyed db \<longleftrightarrow> regs_ok db \<and> outbox_ok db"

definition worlds_ok :: "push_world \<Rightarrow> bool" where
  "worlds_ok w \<longleftrightarrow> keyed (pw_db w) \<and> set (pw_flights w) \<subseteq> set (pw_sent w)"

text \<open>What a run of a transaction keeps, and the rows it leaves.\<close>

definition row_steps :: "push_db \<Rightarrow> push_db \<Rightarrow> bool" where
  "row_steps db db' \<longleftrightarrow> keyed db' \<and>
     (\<forall>k fls. job_step (tget (pd_outbox db) k, fls) (tget (pd_outbox db') k, fls))"

lemma row_steps_refl: "keyed db \<Longrightarrow> row_steps db db"
  by (simp add: row_steps_def JobSame)

lemma row_steps_advances:
  assumes "advances_row db db'" "keyed db"
  shows "row_steps db db'"
proof -
  from assms(1) have "pd_outbox db' = pd_outbox db" by (simp add: advances_row_def)
  with assms show ?thesis
    using regs_ok_advances outbox_ok_same by (simp add: row_steps_def keyed_def JobSame)
qed

lemma row_steps_adds:
  assumes adds: "adds_jobs en db db'" and "keyed db"
  shows "row_steps db db'"
  unfolding row_steps_def
proof (intro conjI allI)
  from adds have "pd_registrations db' = pd_registrations db" by (simp add: adds_jobs_def)
  with assms show "keyed db'" using regs_ok_same adds_jobs_outbox_ok [OF adds] by (simp add: keyed_def)
  fix k fls
  from adds have "tget (pd_outbox db') k = tget (pd_outbox db) k \<or>
      tget (pd_outbox db) k = None \<and> (\<exists>j. tget (pd_outbox db') k = Some j \<and> fresh_job en db k j)"
    unfolding adds_jobs_def by blast
  then show "job_step (tget (pd_outbox db) k, fls) (tget (pd_outbox db') k, fls)"
    by (auto intro: JobSame JobQueued simp: fresh_job_def)
qed

lemma row_steps_run:
  assumes "run_tx m (db, fs) = (r, db', fs')" "fault_blind m" "keyed db"
    and "\<And>x. m (db, []) = (Inr x, db', []) \<Longrightarrow> row_steps db db'"
  shows "row_steps db db'"
proof (cases r)
  case (Inl e)
  with assms(1) have "db' = db" using run_tx_error [of m db fs e db' fs'] by simp
  with row_steps_refl [OF assms(3)] show ?thesis by simp
next
  case (Inr x)
  with run_tx_success [of m db fs x db' fs'] assms(1,2) have "m (db, []) = (Inr x, db', [])" by simp
  then show ?thesis by (rule assms(4))
qed

lemma unregister_effect:
  assumes "push_unregister en token now (db, []) = (Inr x, db', fs)"
  shows "pd_outbox db' = pd_outbox db \<and> (\<exists>P. pd_registrations db' = tretain P (pd_registrations db))"
  using assms
  by (auto simp: push_unregister_def tx_simps elim!: tx_bind_success dest!: push_session_pure split: prod.splits)

lemma row_steps_deleted:
  assumes "pd_registrations db' = tretain P (pd_registrations db)" "pd_outbox db' = pd_outbox db" "keyed db"
  shows "row_steps db db'"
  using assms
  by (auto simp: row_steps_def keyed_def regs_ok_def outbox_ok_def tget_tretain JobSame split: option.splits if_splits)

lemma row_steps_unregister:
  assumes "push_unregister en token now (db, []) = (Inr x, db', fs)" "keyed db"
  shows "row_steps db db'"
  using unregister_effect [OF assms(1)] row_steps_deleted [OF _ _ assms(2)] by blast

lemma keyed_expire: "keyed db \<Longrightarrow> keyed (expire_all now db)"
  using outbox_ok_expire by (simp add: keyed_def regs_ok_def expire_all_def)

lemma keyed_map: "keyed db \<Longrightarrow> (\<And>j. job_key_of (f j) = job_key_of j) \<Longrightarrow> keyed (map_job k f db)"
  using outbox_ok_map by (simp add: keyed_def regs_ok_def map_job_def)

lemma keyed_invalidate: "keyed db \<Longrightarrow> keyed (invalidate_device row db)"
proof -
  assume db: "keyed db"
  have "regs_ok (invalidate_device row db)"
    by (rule regs_ok_bumps [where g = "unset_device row" and db = db])
      (use db in \<open>simp_all add: invalidate_device_def unset_device_def keyed_def\<close>)
  with db show ?thesis by (simp add: keyed_def outbox_ok_def invalidate_device_def)
qed

lemma job_step_expire: "job_step (tget (pd_outbox db) k, fls) (tget (pd_outbox (expire_all now db)) k, fls)"
proof (cases "tget (pd_outbox db) k")
  case None
  then show ?thesis by (simp add: tget_expire_all JobSame)
next
  case (Some j)
  show ?thesis
  proof (cases "unfinished j \<and> ob_lease_until j \<le> now")
    case True
    with Some show ?thesis by (simp add: tget_expire_all JobExpired)
  next
    case False
    then have "expire_job now j = j" by (auto simp: expire_job_def)
    with Some show ?thesis by (simp add: tget_expire_all JobSame)
  qed
qed

text \<open>An unfinished row after the sweep was not touched by it.\<close>

lemma expire_all_unfinished:
  "tget (pd_outbox (expire_all now db)) k = Some j \<Longrightarrow> unfinished j \<Longrightarrow> tget (pd_outbox db) k = Some j"
  by (auto simp: tget_expire_all expire_job_def unfinished_def split: if_splits)

lemma claim_rows:
  assumes "claim_job en lease now (db, []) = (Inr c, db', fs)" "keyed db"
  shows "keyed db' \<and>
    (case c of
       None \<Rightarrow> row_steps db db'
     | Some (job, row) \<Rightarrow>
         tget (pd_outbox db) (job_key_of job) = Some job \<and> due (as_secs now) job \<and> as_secs now < ob_expires_at job \<and>
         tget (pd_outbox db') (job_key_of job) = Some (leased_job lease (as_secs now) job) \<and>
         (\<forall>k fls. k \<noteq> job_key_of job \<longrightarrow> job_step (tget (pd_outbox db) k, fls) (tget (pd_outbox db') k, fls)))"
proof -
  let ?now = "as_secs now"
  let ?dx = "expire_all ?now db"
  have dx: "keyed ?dx" using assms(2) by (rule keyed_expire)
  have ok: "outbox_ok db" using assms(2) by (simp add: keyed_def)
  from claim_job_effect [OF assms(1) ok] show ?thesis
  proof (elim disjE exE conjE)
    assume "c = None" "db' = ?dx"
    with dx job_step_expire show ?thesis by (simp add: row_steps_def)
  next
    fix job
    assume job: "tget (pd_outbox ?dx) (job_key_of job) = Some job" "unfinished job" "ob_next_attempt_at job \<le> ?now"
        "ob_lease_until job \<le> ?now"
      and c: "c = None"
      and db': "db' = map_job (job_key_of job) (\<lambda>j. j\<lparr>ob_outcome := ''permanent'', ob_reason := ''Ineligible'',
            ob_envelope := None\<rparr>) ?dx"
    from db' have db': "db' = map_job (job_key_of job) ineligible_job ?dx" by (simp add: ineligible_job_def [abs_def])
    from expire_all_unfinished [OF job(1,2)] have "tget (pd_outbox db) (job_key_of job) = Some job" .
    with job have "job_step (tget (pd_outbox db) k, fls) (tget (pd_outbox db') k, fls)" for k fls
      using job_step_expire [of db k fls ?now] JobIneligible [of ?now job fls]
      by (cases "k = job_key_of job") (simp_all add: db' map_job_def tget_tmodify due_def)
    moreover have "keyed db'" unfolding db' using dx by (rule keyed_map) (simp add: ineligible_job_def job_key_of_def)
    ultimately show ?thesis using c by (simp add: row_steps_def)
  next
    fix job row
    assume job: "tget (pd_outbox ?dx) (job_key_of job) = Some job" "unfinished job" "ob_next_attempt_at job \<le> ?now"
        "ob_lease_until job \<le> ?now" "?now < ob_expires_at job"
      and c: "c = Some (job, row)"
      and db': "db' = map_job (job_key_of job) (\<lambda>j. j\<lparr>ob_lease_id := Some lease,
             ob_lease_until := ?now + LEASE_SECONDS, ob_attempts := ob_attempts j + 1\<rparr>) ?dx"
    from db' have db': "db' = map_job (job_key_of job) (leased_job lease ?now) ?dx" by (simp add: leased_job_def [abs_def])
    have "keyed db'" unfolding db' using dx by (rule keyed_map) (simp add: leased_job_def job_key_of_def)
    moreover have "job_step (tget (pd_outbox db) k, fls) (tget (pd_outbox db') k, fls)" if "k \<noteq> job_key_of job" for k fls
      using job_step_expire [of db k fls ?now] that by (simp add: db' map_job_def tget_tmodify)
    ultimately show ?thesis
      using c job expire_all_unfinished [OF job(1,2)] by (simp add: due_def db' map_job_def tget_tmodify)
  qed
qed

lemma finish_rows:
  assumes "finish_job (fl_job fl) row (fl_lease fl) delivery finished (db, []) = (Inr u, db', fs)" "keyed db"
    and "fl_at fl \<le> finished"
  shows "keyed db' \<and> (\<forall>k fls. (job_key_of (fl_job fl) = k \<longrightarrow> fl \<in> set fls) \<longrightarrow>
    job_step (tget (pd_outbox db) k, fls) (tget (pd_outbox db') k, fls))"
proof -
  let ?k = "job_key_of (fl_job fl)"
  let ?f = "\<lambda>j. if ob_lease_id j = Some (fl_lease fl) then settled (fl_job fl) delivery finished j else j"
  show ?thesis
  proof (cases "db' = db")
    case True
    with assms(2) show ?thesis by (simp add: JobSame)
  next
    case False
    with finish_effect [OF assms(1)] obtain j db1 where j: "tget (pd_outbox db) ?k = Some j" "ob_lease_id j = Some (fl_lease fl)"
      and db1: "db1 = db \<or> db1 = invalidate_device row db" and db': "db' = map_job ?k ?f db1"
      by blast
    have out: "pd_outbox db1 = pd_outbox db" and "keyed db1"
      using db1 assms(2) keyed_invalidate [of db row] by (auto simp: invalidate_device_def)
    have "keyed db'"
      unfolding db' by (rule keyed_map) (use \<open>keyed db1\<close> same_identity_key [OF same_identity_settled] in \<open>auto\<close>)
    moreover have "job_step (tget (pd_outbox db) k, fls) (tget (pd_outbox db') k, fls)"
      if "job_key_of (fl_job fl) = k \<longrightarrow> fl \<in> set fls" for k fls
      using that j JobSettled [of fl fls finished j delivery] assms(3)
      by (cases "k = ?k") (simp_all add: db' map_job_def tget_tmodify out JobSame)
    ultimately show ?thesis by blast
  qed
qed

lemma row_steps_view:
  assumes "row_steps (pw_db w) db"
  shows "job_step (job_view k w) (job_view k (w\<lparr>pw_db := db\<rparr>))"
proof -
  from assms have "job_step (tget (pd_outbox (pw_db w)) k, fls) (tget (pd_outbox db) k, fls)" for fls
    unfolding row_steps_def by blast
  then show ?thesis by (simp add: job_view_def)
qed

lemma row_steps_world:
  assumes "row_steps (pw_db w) db" "worlds_ok w"
  shows "worlds_ok (w\<lparr>pw_db := db\<rparr>) \<and> job_step (job_view k w) (job_view k (w\<lparr>pw_db := db\<rparr>))"
  using assms row_steps_view [OF assms(1)] by (simp add: worlds_ok_def row_steps_def)

lemma push_step_rows:
  assumes "push_step en w w'" "worlds_ok w"
  shows "worlds_ok w' \<and> job_step (job_view k w) (job_view k w')"
proof -
  from assms(2) have keyed: "keyed (pw_db w)" by (simp add: worlds_ok_def)
  then have regs: "regs_ok (pw_db w)" by (simp add: keyed_def)
  from assms(1) show ?thesis
  proof cases
    case (StepSave token expected prefs now fs r db fs')
    have "row_steps (pw_db w) db"
      by (rule row_steps_run [OF StepSave(2) fault_blind_save keyed]) (rule row_steps_advances [OF save_effect [OF _ regs] keyed])
    then show ?thesis unfolding StepSave(1) using assms(2) by (rule row_steps_world)
  next
    case (StepRegister token body now fs r db fs')
    have "row_steps (pw_db w) db"
      by (rule row_steps_run [OF StepRegister(2) fault_blind_register keyed])
        (rule row_steps_advances [OF register_effect [OF _ regs] keyed])
    then show ?thesis unfolding StepRegister(1) using assms(2) by (rule row_steps_world)
  next
    case (StepTest token event_id expected nonce now fs r' db fs')
    have "row_steps (pw_db w) db"
      by (rule row_steps_run [OF StepTest(2) fault_blind_test keyed]) (rule row_steps_adds [OF test_effect [OF _ regs] keyed])
    then show ?thesis unfolding StepTest(1) using assms(2) by (rule row_steps_world)
  next
    case (StepSecurity server_id event_id event_type created now nonces rcs fs q db fs')
    have "row_steps (pw_db w) db"
      by (rule row_steps_run [OF StepSecurity(2) fault_blind_security keyed])
        (rule row_steps_adds [OF security_effect [OF _ regs] keyed])
    then show ?thesis unfolding StepSecurity(1) using assms(2) by (rule row_steps_world)
  next
    case (StepAlert event_id created target now nonces fs q db fs')
    have "row_steps (pw_db w) db"
      by (rule row_steps_run [OF StepAlert(2) fault_blind_fan_out keyed]) (rule row_steps_adds [OF alert_effect [OF _ regs] keyed])
    then show ?thesis unfolding StepAlert(1) using assms(2) by (rule row_steps_world)
  next
    case (StepCompletion run_id complete finished_at fs q db fs')
    have "row_steps (pw_db w) db"
      by (rule row_steps_run [OF StepCompletion(2) fault_blind_completion keyed])
        (rule row_steps_adds [OF completion_effect keyed])
    then show ?thesis unfolding StepCompletion(1) using assms(2) by (rule row_steps_world)
  next
    case (StepRun run_id now nonces fs q db fs')
    have "row_steps (pw_db w) db"
      by (rule row_steps_run [OF StepRun(2) fault_blind_finish_run keyed])
        (rule row_steps_adds [OF finish_run_effect [OF _ regs StepRun(3)] keyed])
    then show ?thesis unfolding StepRun(1) using assms(2) by (rule row_steps_world)
  next
    case (StepIdle lease now fs c db fs')
    have "row_steps (pw_db w) db"
    proof (cases c)
      case (Inl e)
      with StepIdle(2) have "db = pw_db w" using run_tx_error [of _ "pw_db w" fs e db fs'] by blast
      with row_steps_refl [OF keyed] show ?thesis by simp
    next
      case (Inr o')
      with StepIdle(3) have "o' = None" by (cases o') auto
      with Inr run_tx_success [OF StepIdle(2) [unfolded Inr] fault_blind_claim]
      show ?thesis using claim_rows [of en lease now "pw_db w" None db "[]"] keyed by simp
    qed
    then show ?thesis unfolding StepIdle(1) using assms(2) by (rule row_steps_world)
  next
    case (StepClaim lease now fs job row db fs' fl)
    from claim_rows [OF run_tx_success [OF StepClaim(2) fault_blind_claim] keyed]
    have "keyed db"
      and job: "tget (pd_outbox (pw_db w)) (job_key_of job) = Some job" "due (as_secs now) job" "as_secs now < ob_expires_at job"
        "tget (pd_outbox db) (job_key_of job) = Some (leased_job lease (as_secs now) job)"
      and other: "\<And>k fls. k \<noteq> job_key_of job \<Longrightarrow> job_step (tget (pd_outbox (pw_db w)) k, fls) (tget (pd_outbox db) k, fls)"
      by auto
    let ?fls = "filter (\<lambda>fl. job_key_of (fl_job fl) = k) (pw_sent w)"
    have fl: "fl_lease fl = lease" "fl_job fl = job" "fl_at fl = as_secs now" using StepClaim(4) by simp_all
    have "worlds_ok w'" using assms(2) \<open>keyed db\<close> StepClaim(1) by (auto simp: worlds_ok_def)
    moreover have "job_step (job_view k w) (job_view k w')"
    proof (cases "job_key_of job = k")
      case True
      have "lease \<notin> fl_lease ` set ?fls" using StepClaim(3) by auto
      with job True JobClaimed [of fl ?fls] fl StepClaim(1) show ?thesis by (auto simp: job_view_def)
    next
      case False
      with other StepClaim(1) fl show ?thesis by (simp add: job_view_def)
    qed
    ultimately show ?thesis ..
  next
    case (StepFinish fl finished reply fs u db fs')
    let ?del = "send_push en (fl_job fl) reply"
    have rows: "keyed db \<and> (\<forall>k fls. (job_key_of (fl_job fl) = k \<longrightarrow> fl \<in> set fls) \<longrightarrow>
        job_step (tget (pd_outbox (pw_db w)) k, fls) (tget (pd_outbox db) k, fls))"
    proof (cases u)
      case (Inl e)
      with StepFinish(4) have "db = pw_db w" using run_tx_error [of _ "pw_db w" fs e db fs'] by blast
      with keyed show ?thesis by (simp add: JobSame)
    next
      case (Inr x)
      from finish_rows [OF run_tx_success [OF StepFinish(4) [unfolded Inr] fault_blind_finish] keyed StepFinish(3)]
      show ?thesis .
    qed
    have "fl \<in> set (pw_sent w)" using StepFinish(2) assms(2) by (auto simp: worlds_ok_def)
    then have "job_key_of (fl_job fl) = k \<longrightarrow> fl \<in> set (filter (\<lambda>fl. job_key_of (fl_job fl) = k) (pw_sent w))" by simp
    with rows have "job_step (tget (pd_outbox (pw_db w)) k, filter (\<lambda>fl. job_key_of (fl_job fl) = k) (pw_sent w))
        (tget (pd_outbox db) k, filter (\<lambda>fl. job_key_of (fl_job fl) = k) (pw_sent w))" by blast
    with StepFinish(1) have "job_step (job_view k w) (job_view k w')" by (simp add: job_view_def)
    moreover have "worlds_ok w'"
      using rows StepFinish(1) assms(2) set_remove1_subset [of fl "pw_flights w"] by (auto simp: worlds_ok_def)
    ultimately show ?thesis by simp
  next
    case StepCrash
    with assms(2) show ?thesis by (simp add: worlds_ok_def job_view_def JobSame)
  next
    case (StepAccounts db)
    then have "row_steps (pw_db w) db"
      using keyed by (simp add: row_steps_def same_push_tables_def keyed_def regs_ok_def outbox_ok_def JobSame)
    then show ?thesis unfolding StepAccounts(1) using assms(2) by (rule row_steps_world)
  qed
qed

lemma push_step_all_rows:
  assumes "push_step_all en w w'" "worlds_ok w"
  shows "worlds_ok w' \<and> job_step (job_view k w) (job_view k w')"
  using assms(1)
proof cases
  case StepBasic
  then show ?thesis using assms(2) by (rule push_step_rows)
next
  case (StepUnregister token now fs q db fs')
  have keyed: "keyed (pw_db w)" using assms(2) by (simp add: worlds_ok_def)
  have "row_steps (pw_db w) db"
    by (rule row_steps_run [OF StepUnregister(2) fault_blind_unregister keyed]) (rule row_steps_unregister [OF _ keyed])
  then show ?thesis unfolding StepUnregister(1) using assms(2) by (rule row_steps_world)
next
  case (StepDeleted db P)
  have "row_steps (pw_db w) db"
    using row_steps_deleted [OF StepDeleted(2,3)] assms(2) by (simp add: worlds_ok_def)
  then show ?thesis unfolding StepDeleted(1) using assms(2) by (rule row_steps_world)
qed

lemma push_run_rows:
  assumes "(push_step_all en)\<^sup>*\<^sup>* w w'" "worlds_ok w"
  shows "worlds_ok w' \<and> job_step\<^sup>*\<^sup>* (job_view k w) (job_view k w')"
  using assms
proof (induction rule: rtranclp_induct)
  case base
  then show ?case by simp
next
  case (step w1 w2)
  then have "worlds_ok w1" "job_step\<^sup>*\<^sup>* (job_view k w) (job_view k w1)" by simp_all
  with push_step_all_rows [OF step.hyps(2), of k] show ?case by (auto intro: rtranclp.rtrancl_into_rtrancl)
qed

lemma push_start_rows: "push_start w \<Longrightarrow> worlds_ok w \<and> job_view k w = (None, [])"
  by (simp add: push_start_def worlds_ok_def keyed_def regs_ok_def outbox_ok_def job_view_def)

section \<open>How often a row is sent\<close>

text \<open>The least time from the creation of a job to its claim after \<open>n\<close> others.\<close>

fun gap :: "nat \<Rightarrow> int" where
  "gap 0 = 0"
| "gap (Suc n) = gap n + min LEASE_SECONDS (backoff (int n))"

lemma backoff_pos: "0 < backoff n"
  by (simp add: backoff_def)

lemma gap_Suc_le: "gap (Suc n) \<le> gap n + LEASE_SECONDS" "gap (Suc n) \<le> gap n + backoff (int n)"
  by simp_all

lemma gap_mono: "m \<le> n \<Longrightarrow> gap m \<le> gap n"
  using lift_Suc_mono_le [of gap m n] backoff_pos by (simp add: LEASE_SECONDS_def less_imp_le)

lemma gap_63: "gap 63 = 1800"
  by (simp add: eval_nat_numeral LEASE_SECONDS_def backoff_def)

definition flight_row_ok :: "push_job \<Rightarrow> push_flight \<Rightarrow> bool" where
  "flight_row_ok j fl \<longleftrightarrow>
     ob_created_at (fl_job fl) = ob_created_at j \<and> ob_expires_at (fl_job fl) = ob_expires_at j \<and>
     (\<exists>n. ob_attempts (fl_job fl) = int n \<and> ob_created_at j + min 1800 (gap n) \<le> fl_at fl) \<and>
     (ob_lease_id j = Some (fl_lease fl) \<longrightarrow> ob_attempts (fl_job fl) + 1 = ob_attempts j)"

fun row_ok :: "push_job option \<times> push_flight list \<Rightarrow> bool" where
  "row_ok (None, fls) \<longleftrightarrow> fls = []"
| "row_ok (Some j, fls) \<longleftrightarrow>
     ob_attempts j = int (length fls) \<and> length fls \<le> 63 \<and> ob_expires_at j = ob_created_at j + 1800 \<and>
     (unfinished j \<longrightarrow>
        ob_created_at j + min 1800 (gap (length fls)) \<le> max (ob_next_attempt_at j) (ob_lease_until j)) \<and>
     (\<forall>fl\<in>set fls. flight_row_ok j fl)"

lemma row_ok_keeps:
  assumes "row_ok (Some j, fls)" "same_identity_job j j'" "ob_attempts j' = ob_attempts j"
    and "ob_lease_id j' = ob_lease_id j \<or> ob_lease_id j' = None"
    and "unfinished j' \<Longrightarrow>
      ob_created_at j + min 1800 (gap (length fls)) \<le> max (ob_next_attempt_at j') (ob_lease_until j')"
  shows "row_ok (Some j', fls)"
  using assms by (auto simp: same_identity_job_def flight_row_ok_def)

lemma row_ok_claimed:
  assumes ok: "row_ok (Some j, fls)" and j: "j = fl_job fl" and due: "due (fl_at fl) j" "fl_at fl < ob_expires_at j"
    and lease: "fl_lease fl \<notin> fl_lease ` set fls"
  shows "row_ok (Some (leased_job (fl_lease fl) (fl_at fl) j), fls @ [fl])"
proof -
  let ?n = "length fls"
  from ok due have start: "ob_created_at j + min 1800 (gap ?n) \<le> fl_at fl" by (auto simp: due_def)
  with ok due(2) have "gap ?n < 1800" by auto
  with gap_63 gap_mono [of 63 ?n] have "?n < 63" by (cases "63 \<le> ?n") auto
  moreover have "ob_created_at j + min 1800 (gap (Suc ?n)) \<le> fl_at fl + LEASE_SECONDS"
    using start gap_Suc_le(1) [of ?n] by (auto simp: min_def LEASE_SECONDS_def simp del: gap.simps split: if_splits)
  moreover have "flight_row_ok (leased_job (fl_lease fl) (fl_at fl) j) f" if "f \<in> set fls" for f
    using ok lease that by (auto simp: flight_row_ok_def leased_job_def)
  moreover have "flight_row_ok (leased_job (fl_lease fl) (fl_at fl) j) fl"
    using start ok j by (auto simp: flight_row_ok_def leased_job_def)
  ultimately show ?thesis using ok by (auto simp: leased_job_def)
qed

lemma row_ok_settled:
  assumes ok: "row_ok (Some j, fls)" and fl: "fl \<in> set fls" "fl_at fl \<le> finished" "ob_lease_id j = Some (fl_lease fl)"
  shows "row_ok (Some (settled (fl_job fl) delivery finished j), fls)"
proof -
  from ok fl obtain n where n: "ob_attempts (fl_job fl) = int n" "ob_created_at j + min 1800 (gap n) \<le> fl_at fl"
    "length fls = Suc n" "ob_expires_at (fl_job fl) = ob_created_at j + 1800"
    by (fastforce simp: flight_row_ok_def)
  have "ob_created_at j + min 1800 (gap (Suc n)) \<le> min (finished + backoff (int n)) (ob_created_at j + 1800)"
    using n(2) fl(2) gap_Suc_le(2) [of n] backoff_pos [of "int n"] by (auto simp: min_def simp del: gap.simps split: if_splits)
  with ok n show ?thesis
    by (intro row_ok_keeps [OF ok same_identity_settled])
      (auto simp: settled_def Let_def split_def simp del: gap.simps)
qed

lemma row_ok_step:
  assumes "job_step s s'" "row_ok s"
  shows "row_ok s'"
  using assms(1)
proof cases
  case JobSame
  with assms(2) show ?thesis by simp
next
  case (JobQueued j fls)
  with assms(2) show ?thesis by (auto simp: untried_def)
next
  case (JobExpired j now fls)
  have "row_ok (Some (expire_job now j), fls)"
  proof (rule row_ok_keeps)
    show "row_ok (Some j, fls)" using assms(2) JobExpired by simp
    then show "ob_created_at j + min 1800 (gap (length fls)) \<le>
        max (ob_next_attempt_at (expire_job now j)) (ob_lease_until (expire_job now j))" if "unfinished (expire_job now j)"
      using that by (auto simp: expire_job_def unfinished_def split: if_splits)
    show "same_identity_job j (expire_job now j)" by simp
    show "ob_attempts (expire_job now j) = ob_attempts j"
      "ob_lease_id (expire_job now j) = ob_lease_id j \<or> ob_lease_id (expire_job now j) = None"
      by (simp_all add: expire_job_def)
  qed
  with JobExpired show ?thesis by simp
next
  case (JobIneligible now j fls)
  with assms(2) show ?thesis
    using row_ok_keeps [of j fls "ineligible_job j"]
    by (simp add: ineligible_job_def unfinished_def same_identity_job_def)
next
  case (JobClaimed fl fls)
  with assms(2) show ?thesis using row_ok_claimed [of "fl_job fl" fls fl] by simp
next
  case (JobSettled fl fls finished j delivery)
  with assms(2) show ?thesis using row_ok_settled by blast
qed

lemma row_ok_run: "job_step\<^sup>*\<^sup>* s s' \<Longrightarrow> row_ok s \<Longrightarrow> row_ok s'"
  by (induction rule: rtranclp_induct) (auto intro: row_ok_step)

lemma row_ok_sent: "row_ok (jo, fls) \<Longrightarrow> length fls \<le> 63"
  by (cases jo) simp_all

section \<open>Outcomes stay\<close>

definition final_job :: "push_job \<Rightarrow> bool" where
  "final_job j \<longleftrightarrow> \<not> unfinished j \<and> ob_lease_id j = None"

lemma final_step: "job_step (Some j, fls) s \<Longrightarrow> final_job j \<Longrightarrow> s = (Some j, fls)"
  by (auto elim!: job_step.cases simp: final_job_def due_def)

lemma final_run: "job_step\<^sup>*\<^sup>* (Some j, fls) s \<Longrightarrow> final_job j \<Longrightarrow> s = (Some j, fls)"
  by (induction rule: rtranclp_induct) (auto dest: final_step)

text \<open>What a worker records is final, unless it is to be tried again.\<close>

lemma send_push_outcome: "rd_outcome (send_push en job reply) \<in> {''accepted'', ''retryable'', ''permanent'', ''expired''}"
  by (auto simp: send_push_def classify_def relay_retry_def relay_permanent_def
      split: relay_reply.split option.split)

lemma settled_final:
  "final_job (settled job (send_push en job reply) finished j) \<or>
   ob_outcome (settled job (send_push en job reply) finished j) = ''retryable''"
  using send_push_outcome [of en job reply]
  by (auto simp: final_job_def settled_def verdict_def unfinished_def)

section \<open>What is sent, rows deleted or not\<close>

text \<open>
  The envelope of a job was sealed for a row of its login at its revision; the row may be gone.
\<close>

definition sealed_once :: "push_env \<Rightarrow> push_job \<Rightarrow> bool" where
  "sealed_once en j \<longleftrightarrow> (\<forall>e. ob_envelope j = Some e \<longrightarrow>
     (\<exists>r. same_login r j \<and> rg_revision r = ob_registration_revision j \<and> sealed_for en r j e))"

definition jobs_sealed :: "push_env \<Rightarrow> push_db \<Rightarrow> bool" where
  "jobs_sealed en db \<longleftrightarrow> (\<forall>k j. tget (pd_outbox db) k = Some j \<longrightarrow> sealed_once en j)"

definition addressed :: "push_env \<Rightarrow> push_flight \<Rightarrow> bool" where
  "addressed en fl \<longleftrightarrow>
     fl_at fl < ob_expires_at (fl_job fl) \<and> same_login (fl_row fl) (fl_job fl) \<and>
     rg_revision (fl_row fl) = ob_registration_revision (fl_job fl) \<and> is_registered en (fl_row fl) \<and>
     sealed_once en (fl_job fl)"

definition world_sealed :: "push_env \<Rightarrow> push_world \<Rightarrow> bool" where
  "world_sealed en w \<longleftrightarrow> jobs_sealed en (pw_db w) \<and> (\<forall>fl\<in>set (pw_sent w). addressed en fl)"

lemma sealed_once_mono: "sealed_once en j \<Longrightarrow> same_identity_job j j' \<Longrightarrow> sealed_once en j'"
  by (auto simp: sealed_once_def same_identity_job_def same_login_def sealed_for_def)

lemma sealed_once_fresh: "fresh_job en db k j \<Longrightarrow> sealed_once en j"
  by (auto simp: fresh_job_def sealed_once_def)

lemma jobs_sealed_same: "jobs_sealed en db \<Longrightarrow> pd_outbox db' = pd_outbox db \<Longrightarrow> jobs_sealed en db'"
  by (simp add: jobs_sealed_def)

lemma jobs_sealed_advances: "jobs_sealed en db \<Longrightarrow> advances_row db db' \<Longrightarrow> jobs_sealed en db'"
  by (simp add: jobs_sealed_def advances_row_def)

lemma jobs_sealed_adds:
  assumes "jobs_sealed en db" "adds_jobs en db db'"
  shows "jobs_sealed en db'"
  unfolding jobs_sealed_def
proof (intro allI impI)
  fix k j
  assume j: "tget (pd_outbox db') k = Some j"
  from assms(2) have "tget (pd_outbox db') k = tget (pd_outbox db) k \<or>
      (\<exists>j. tget (pd_outbox db') k = Some j \<and> fresh_job en db k j)"
    unfolding adds_jobs_def by blast
  with j assms(1) show "sealed_once en j" unfolding jobs_sealed_def by (metis option.inject sealed_once_fresh)
qed

lemma jobs_sealed_expire: "jobs_sealed en db \<Longrightarrow> jobs_sealed en (expire_all now db)"
  by (auto simp: jobs_sealed_def tget_expire_all intro: sealed_once_mono [OF _ same_identity_expire])

lemma jobs_sealed_map:
  assumes "jobs_sealed en db" "\<And>j. same_identity_job j (f j)"
  shows "jobs_sealed en (map_job k f db)"
  using assms sealed_once_mono [OF _ assms(2)] by (auto simp: jobs_sealed_def map_job_def tget_tmodify)

lemma jobs_sealed_claim:
  assumes "claim_job en lease now (db, []) = (Inr c, db', fs)" "outbox_ok db" "jobs_sealed en db"
  shows "jobs_sealed en db'"
  using claim_job_effect [OF assms(1,2)] jobs_sealed_expire [OF assms(3)]
  by (auto intro!: jobs_sealed_map simp: same_identity_job_def)

lemma jobs_sealed_finish:
  assumes "finish_job job row lease delivery finished (db, []) = (Inr u, db', fs)" "jobs_sealed en db"
  shows "jobs_sealed en db'"
proof -
  have "jobs_sealed en (invalidate_device row db)"
    using assms(2) by (rule jobs_sealed_same) (simp add: invalidate_device_def)
  with finish_effect [OF assms(1)] assms(2) show ?thesis
    by (auto intro!: jobs_sealed_map simp: same_identity_settled)
qed

lemma claimed_addressed:
  assumes claim: "claim_job en lease now (db, []) = (Inr (Some (job, row)), db', fs)" and "keyed db" "jobs_sealed en db"
  shows "addressed en \<lparr>fl_lease = lease, fl_job = job, fl_row = row, fl_at = as_secs now\<rparr>"
proof -
  let ?dx = "expire_all (as_secs now) db"
  from assms(2) have "outbox_ok db" by (simp add: keyed_def)
  from claim_job_effect [OF claim this]
  have job: "tget (pd_outbox ?dx) (job_key_of job) = Some job" "as_secs now < ob_expires_at job"
    and row: "eligible_row en ?dx job now = Some row" by auto
  note facts = eligible_row_facts [OF row]
  moreover from facts have "rg_installation_id row = ob_installation_id job"
    using keyed_expire [OF assms(2), of "as_secs now"] unfolding keyed_def regs_ok_def by blast
  moreover have "sealed_once en job" using jobs_sealed_expire [OF assms(3)] job(1) unfolding jobs_sealed_def by blast
  ultimately show ?thesis using job(2) by (simp add: addressed_def same_login_def)
qed

text \<open>A transaction that fails leaves the outbox, so only its success counts.\<close>

lemma jobs_sealed_run:
  assumes "run_tx m (db, fs) = (r, db', fs')" "fault_blind m" "jobs_sealed en db"
    and "\<And>x. m (db, []) = (Inr x, db', []) \<Longrightarrow> jobs_sealed en db'"
  shows "jobs_sealed en db'"
proof (cases r)
  case (Inl e)
  with assms(1) have "db' = db" using run_tx_error [of m db fs e db' fs'] by simp
  with assms(3) show ?thesis by simp
next
  case (Inr x)
  with run_tx_success [of m db fs x db' fs'] assms(1,2) have "m (db, []) = (Inr x, db', [])" by simp
  then show ?thesis by (rule assms(4))
qed

lemma push_step_sealed:
  assumes "push_step en w w'" "worlds_ok w" "world_sealed en w"
  shows "world_sealed en w'"
proof -
  from assms(2) have keyed: "keyed (pw_db w)" by (simp add: worlds_ok_def)
  then have regs: "regs_ok (pw_db w)" and out: "outbox_ok (pw_db w)" by (simp_all add: keyed_def)
  from assms(3) have ok: "jobs_sealed en (pw_db w)" by (simp add: world_sealed_def)
  have database: ?thesis if "jobs_sealed en (pw_db w')" "pw_sent w' = pw_sent w"
    using that assms(3) by (simp add: world_sealed_def)
  from assms(1) show ?thesis
  proof cases
    case (StepSave token expected prefs now fs r db fs')
    have "jobs_sealed en db"
      by (rule jobs_sealed_run [OF StepSave(2) fault_blind_save ok])
        (rule jobs_sealed_advances [OF ok save_effect [OF _ regs]])
    with database StepSave(1) show ?thesis by simp
  next
    case (StepRegister token body now fs r db fs')
    have "jobs_sealed en db"
      by (rule jobs_sealed_run [OF StepRegister(2) fault_blind_register ok])
        (rule jobs_sealed_advances [OF ok register_effect [OF _ regs]])
    with database StepRegister(1) show ?thesis by simp
  next
    case (StepTest token event_id expected nonce now fs r' db fs')
    have "jobs_sealed en db"
      by (rule jobs_sealed_run [OF StepTest(2) fault_blind_test ok]) (rule jobs_sealed_adds [OF ok test_effect [OF _ regs]])
    with database StepTest(1) show ?thesis by simp
  next
    case (StepSecurity server_id event_id event_type created now nonces rcs fs q db fs')
    have "jobs_sealed en db"
      by (rule jobs_sealed_run [OF StepSecurity(2) fault_blind_security ok])
        (rule jobs_sealed_adds [OF ok security_effect [OF _ regs]])
    with database StepSecurity(1) show ?thesis by simp
  next
    case (StepAlert event_id created target now nonces fs q db fs')
    have "jobs_sealed en db"
      by (rule jobs_sealed_run [OF StepAlert(2) fault_blind_fan_out ok]) (rule jobs_sealed_adds [OF ok alert_effect [OF _ regs]])
    with database StepAlert(1) show ?thesis by simp
  next
    case (StepCompletion run_id complete finished_at fs q db fs')
    have "jobs_sealed en db"
      by (rule jobs_sealed_run [OF StepCompletion(2) fault_blind_completion ok]) (rule jobs_sealed_adds [OF ok completion_effect])
    with database StepCompletion(1) show ?thesis by simp
  next
    case (StepRun run_id now nonces fs q db fs')
    have "jobs_sealed en db"
      by (rule jobs_sealed_run [OF StepRun(2) fault_blind_finish_run ok])
        (rule jobs_sealed_adds [OF ok finish_run_effect [OF _ regs StepRun(3)]])
    with database StepRun(1) show ?thesis by simp
  next
    case (StepIdle lease now fs c db fs')
    have "jobs_sealed en db"
      by (rule jobs_sealed_run [OF StepIdle(2) fault_blind_claim ok]) (rule jobs_sealed_claim [OF _ out ok])
    with database StepIdle(1) show ?thesis by simp
  next
    case (StepClaim lease now fs job row db fs' fl)
    from run_tx_success [OF StepClaim(2) fault_blind_claim]
    have claim: "claim_job en lease now (pw_db w, []) = (Inr (Some (job, row)), db, [])" .
    from jobs_sealed_claim [OF claim out ok] claimed_addressed [OF claim keyed ok] StepClaim assms(3)
    show ?thesis by (simp add: world_sealed_def)
  next
    case (StepFinish fl finished reply fs u db fs')
    have "jobs_sealed en db"
      by (rule jobs_sealed_run [OF StepFinish(4) fault_blind_finish ok]) (rule jobs_sealed_finish [OF _ ok])
    with database StepFinish(1) show ?thesis by simp
  next
    case StepCrash
    with assms(3) show ?thesis by (simp add: world_sealed_def)
  next
    case (StepAccounts db)
    then have "jobs_sealed en db" using ok by (simp add: jobs_sealed_def same_push_tables_def)
    with database StepAccounts(1) show ?thesis by simp
  qed
qed

lemma push_step_all_sealed:
  assumes "push_step_all en w w'" "worlds_ok w" "world_sealed en w"
  shows "world_sealed en w'"
  using assms(1)
proof cases
  case StepBasic
  then show ?thesis using assms(2,3) by (rule push_step_sealed)
next
  case (StepUnregister token now fs q db fs')
  from assms(3) have ok: "jobs_sealed en (pw_db w)" by (simp add: world_sealed_def)
  have "jobs_sealed en db"
    by (rule jobs_sealed_run [OF StepUnregister(2) fault_blind_unregister ok])
      (use jobs_sealed_same [OF ok] unregister_effect in blast)
  with StepUnregister(1) assms(3) show ?thesis by (simp add: world_sealed_def)
next
  case (StepDeleted db P)
  with assms(3) show ?thesis by (simp add: world_sealed_def jobs_sealed_def)
qed

lemma push_run_sealed:
  assumes "(push_step_all en)\<^sup>*\<^sup>* w w'" "push_start w"
  shows "world_sealed en w'"
  using assms
proof (induction rule: rtranclp_induct)
  case base
  then show ?case by (simp add: push_start_def world_sealed_def jobs_sealed_def)
next
  case (step w1 w2)
  have "worlds_ok w1" using push_run_rows [OF step.hyps(1)] push_start_rows [OF step.prems] by blast
  with push_step_all_sealed [OF step.hyps(2)] step show ?case by blast
qed

end
