(* ===== verification/Push_Properties.thy ===== *)
theory Push_Properties
  imports Push_Outbox
begin

text \<open>
  The properties of push delivery, with one run of the system at which they are evaluated: an
  administrator saves the preferences, registers, asks for a test notification, and a worker claims
  it.  Last, two flaws as lemmas: unregistering revives old jobs, and a late answer overwrites a
  refusal.
\<close>

section \<open>A run\<close>

definition ex_push_env :: push_env where
  "ex_push_env = \<lparr>pe_hash_token = id, pe_parse_uuid = Some, pe_decode = Some, pe_encode = id,
     pe_url_ok = (\<lambda>_. True), pe_json = (\<lambda>_. ''{}''), pe_identity = (\<lambda>d u i. d @ u @ i),
     pe_aead = (\<lambda>key nonce aad bytes. Some bytes), pe_relay_configured = True\<rparr>"

definition ex_push_db :: push_db where
  "ex_push_db = \<lparr>pd_registrations = [],
     pd_mobile_sessions = [(''m'', \<lparr>ms_id = ''m'', ms_user_id = ''u'', ms_installation_id = ''i'',
       ms_created_at = 0, ms_expires_at = 1000000000000000\<rparr>)],
     pd_sessions = [\<lparr>se_token = ''t'', se_user_id = ''u'', se_source = ''mobile'',
       se_mobile_session_id = Some ''m'', se_expires_at = 1000000000000000\<rparr>],
     pd_users = [(''u'', \<lparr>us_id = ''u'', us_role = ''admin'', us_must_change_password = False,
       us_password_changed_at = None\<rparr>)],
     pd_task_runs = [], pd_task_results = [], pd_scheduled = [], pd_migrations = [], pd_device_tokens = [], pd_outbox = []\<rparr>"

definition ex_push_world :: push_world where
  "ex_push_world = \<lparr>pw_db = ex_push_db, pw_flights = [], pw_sent = []\<rparr>"

definition ex_prefs :: push_preferences where
  "ex_prefs = \<lparr>pp_enabled = True, pp_alerts = True, pp_security = False, pp_task_failure = False, pp_task_success = False\<rparr>"

definition ex_identity :: "string \<Rightarrow> push_registration_request" where
  "ex_identity key_id = \<lparr>pq_expected_revision = 1, pq_device_token = ''ab'', pq_environment = ''sandbox'',
     pq_content_key_id = key_id, pq_content_key = replicate 32 (CHR ''k''), pq_deployment_id = ''d''\<rparr>"

definition db_after :: "(push_db, 'a) tx \<Rightarrow> push_db \<Rightarrow> push_db" where
  "db_after m db = fst (snd (run_tx m (db, [])))"

definition setup_db :: "string \<Rightarrow> push_db \<Rightarrow> push_db" where
  "setup_db key_id db =
     db_after (encrypted_register ex_push_env ''t'' (ex_identity key_id) 0)
       (db_after (save_preferences ex_push_env ''t'' 0 ex_prefs 0) db)"

definition queued_db :: push_db where
  "queued_db = db_after (test_notification ex_push_env ''t'' ''e'' 2 ''n'' 0) (setup_db ''K1'' ex_push_db)"

definition ex_claim :: "push_db \<Rightarrow> (app_error + (push_job \<times> push_registration) option) \<times> push_db \<times> bool list" where
  "ex_claim db = run_tx (claim_job ex_push_env ''l'' 0) (db, [])"

definition ex_flight :: "push_db \<Rightarrow> push_flight option" where
  "ex_flight db = (case fst (ex_claim db) of
     Inr (Some (job, row)) \<Rightarrow> Some \<lparr>fl_lease = ''l'', fl_job = job, fl_row = row, fl_at = 0\<rparr>
   | _ \<Rightarrow> None)"

lemma run_db_after: "\<exists>r fs'. run_tx m (db, []) = (r, db_after m db, fs')"
  by (cases "run_tx m (db, [])") (auto simp: db_after_def)

text \<open>A database reached without anything sent; a claim there sends.\<close>

definition at_db :: "push_db \<Rightarrow> push_world" where
  "at_db db = ex_push_world\<lparr>pw_db := db\<rparr>"

definition with_flight :: "push_db \<Rightarrow> push_flight \<Rightarrow> push_world" where
  "with_flight db fl = \<lparr>pw_db = fst (snd (ex_claim db)), pw_flights = [fl], pw_sent = [fl]\<rparr>"

lemma step_setup:
  "(push_step ex_push_env)\<^sup>*\<^sup>* (at_db db) (at_db (setup_db key_id db))"
proof -
  let ?db1 = "db_after (save_preferences ex_push_env ''t'' 0 ex_prefs 0) db"
  obtain r fs where "run_tx (save_preferences ex_push_env ''t'' 0 ex_prefs 0) (db, []) = (r, ?db1, fs)"
    using run_db_after by blast
  from StepSave [of ex_push_env _ _ _ _ "at_db db", simplified at_db_def, simplified, OF this]
  have 1: "push_step ex_push_env (at_db db) (at_db ?db1)" by (simp add: at_db_def)
  obtain r fs where "run_tx (encrypted_register ex_push_env ''t'' (ex_identity key_id) 0) (?db1, []) =
      (r, setup_db key_id db, fs)"
    using run_db_after unfolding setup_db_def by blast
  from StepRegister [of ex_push_env _ _ _ "at_db ?db1", simplified at_db_def, simplified, OF this]
  have 2: "push_step ex_push_env (at_db ?db1) (at_db (setup_db key_id db))" by (simp add: at_db_def)
  from 1 2 show ?thesis by (rule converse_rtranclp_into_rtranclp [OF _ r_into_rtranclp])
qed

lemma step_test:
  "push_step ex_push_env (at_db db) (at_db (db_after (test_notification ex_push_env ''t'' ''e'' 2 ''n'' 0) db))"
  using run_db_after [of "test_notification ex_push_env ''t'' ''e'' 2 ''n'' 0" db]
    StepTest [of ex_push_env "''t''" "''e''" 2 "''n''" 0 "at_db db" "[]"]
  by (auto simp: at_db_def)

lemma step_claim:
  assumes "ex_flight db = Some fl"
  shows "push_step ex_push_env (at_db db) (with_flight db fl)"
proof -
  from assms obtain job row db' fs' where run: "ex_claim db = (Inr (Some (job, row)), db', fs')"
    and fl: "fl = \<lparr>fl_lease = ''l'', fl_job = job, fl_row = row, fl_at = as_secs 0\<rparr>"
    by (cases "ex_claim db") (auto simp: ex_flight_def split: sum.splits option.splits)
  from run StepClaim [of ex_push_env "''l''" 0 "at_db db" "[]" job row db' fs' fl] fl
  show ?thesis by (simp add: ex_claim_def at_db_def with_flight_def ex_push_world_def)
qed

lemma at_start: "push_start (at_db ex_push_db)"
  by (simp add: push_start_def at_db_def ex_push_world_def ex_push_db_def)

lemma queued_reached: "(push_step ex_push_env)\<^sup>*\<^sup>* (at_db ex_push_db) (at_db queued_db)"
  unfolding queued_db_def using step_setup step_test by (rule rtranclp.rtrancl_into_rtrancl)

definition first_flight :: push_flight where
  "first_flight = the (ex_flight queued_db)"

lemma first_flight_sent: "ex_flight queued_db = Some first_flight"
proof -
  have "ex_flight queued_db \<noteq> None" by code_simp
  then show ?thesis by (simp add: first_flight_def)
qed

definition sent_world :: push_world where
  "sent_world = with_flight queued_db first_flight"

lemma sent_reached: "(push_step ex_push_env)\<^sup>*\<^sup>* (at_db ex_push_db) sent_world"
  unfolding sent_world_def using queued_reached step_claim [OF first_flight_sent]
  by (rule rtranclp.rtrancl_into_rtrancl)

lemma all_run: "(push_step en)\<^sup>*\<^sup>* w w' \<Longrightarrow> (push_step_all en)\<^sup>*\<^sup>* w w'"
  by (induction rule: rtranclp_induct) (auto intro: StepBasic rtranclp.rtrancl_into_rtrancl)

section \<open>The properties\<close>

text \<open>
  Claim C9: a push is sent only before it expires, and to a fully registered row of the
  installation, user and login it was made for, at the same revision; its envelope was sealed for a
  row of that login and revision.  This holds in every state reached by any interleaving of
  preference changes, registrations, tests, security events, workers that crash or answer late,
  failing statements, account changes, \<open>push_unregister\<close> and other deletions of rows, the clock
  not going back while a task run is finished or an answer awaited.  If no row
  has been deleted, the envelope is sealed for the very row it is sent to, under the key that row
  has; after a deletion it may not be (\<open>unregister_revives_old_jobs\<close> below).
\<close>

theorem push_sent_to_its_recipient:
  assumes "push_start w" "(push_step_all en)\<^sup>*\<^sup>* w w'" "fl \<in> set (pw_sent w')"
  shows "fl_at fl < ob_expires_at (fl_job fl) \<and> same_login (fl_row fl) (fl_job fl) \<and>
    rg_revision (fl_row fl) = ob_registration_revision (fl_job fl) \<and> is_registered en (fl_row fl) \<and>
    (\<forall>e. ob_envelope (fl_job fl) = Some e \<longrightarrow>
       (\<exists>r. same_login r (fl_job fl) \<and> rg_revision r = ob_registration_revision (fl_job fl) \<and>
          sealed_for en r (fl_job fl) e) \<and>
       ((push_step en)\<^sup>*\<^sup>* w w' \<longrightarrow> sealed_for en (fl_row fl) (fl_job fl) e))"
proof -
  have "addressed en fl" using push_run_sealed [OF assms(2,1)] assms(3) by (simp add: world_sealed_def)
  moreover have "flight_ok en fl" if "(push_step en)\<^sup>*\<^sup>* w w'"
    using push_run_ok [OF that push_start_ok [OF assms(1)]] assms(3) by (simp add: world_ok_def)
  ultimately show ?thesis by (simp add: addressed_def sealed_once_def flight_ok_def)
qed

theorem push_sent_to_its_recipient_witness:
  "\<exists>e. ob_envelope (fl_job first_flight) = Some e \<and>
     sealed_for ex_push_env (fl_row first_flight) (fl_job first_flight) e \<and>
     rg_revision (fl_row first_flight) = ob_registration_revision (fl_job first_flight)"
proof -
  have "ob_envelope (fl_job first_flight) \<noteq> None" by code_simp
  then obtain e where "ob_envelope (fl_job first_flight) = Some e" by blast
  moreover have "first_flight \<in> set (pw_sent sent_world)" by (simp add: sent_world_def with_flight_def)
  ultimately show ?thesis
    using push_sent_to_its_recipient [OF at_start all_run [OF sent_reached]] sent_reached by blast
qed

text \<open>
  Claim C13: every step of the system, deletions of registrations included, is for each row of the outbox a step
  of the machine \<open>job_step\<close>: it stays, is queued, expires when no lease holds it, is refused or
  claimed when due, or is settled by the answer of the lease it has.
\<close>

theorem push_step_refines:
  assumes "push_start w" "(push_step_all en)\<^sup>*\<^sup>* w w1" "push_step_all en w1 w2"
  shows "job_step (job_view k w1) (job_view k w2)"
  using push_step_all_rows [OF assms(3)] push_run_rows [OF assms(2)] push_start_rows [OF assms(1)] by blast

theorem push_step_refines_witness:
  "job_step (job_view (''e'', ''i'') (at_db queued_db)) (job_view (''e'', ''i'') sent_world)"
  by (rule push_step_refines [OF at_start all_run [OF queued_reached] StepBasic,
        of sent_world, unfolded sent_world_def, OF step_claim [OF first_flight_sent], folded sent_world_def])

text \<open>
  Claim C22: a push is sent at most 63 times, whatever the relay answers and however often workers
  crash: each attempt waits for its lease or its backoff, and after 1800 seconds the job expires.
\<close>

theorem push_attempts_bounded:
  assumes "push_start w" "(push_step_all en)\<^sup>*\<^sup>* w w'"
  shows "length (filter (\<lambda>fl. job_key_of (fl_job fl) = k) (pw_sent w')) \<le> 63"
proof -
  from push_start_rows [OF assms(1)] push_run_rows [OF assms(2)]
  have "job_step\<^sup>*\<^sup>* (None, []) (job_view k w')" by metis
  then have "row_ok (job_view k w')" using row_ok_run by fastforce
  then show ?thesis by (simp add: job_view_def row_ok_sent)
qed

theorem push_attempts_bounded_witness:
  "length (filter (\<lambda>fl. job_key_of (fl_job fl) = (''e'', ''i'')) (pw_sent sent_world)) \<le> 63"
  by (rule push_attempts_bounded [OF at_start all_run [OF sent_reached]])

text \<open>The answer arrives and the job is settled.\<close>

definition accepted_reply :: relay_reply where
  "accepted_reply = Reply 200 (Some \<lparr>rd_outcome = ''accepted'', rd_reason = ''Accepted'', rd_device_invalid = False\<rparr>)"

definition settled_db :: push_db where
  "settled_db = db_after (finish_job (fl_job first_flight) (fl_row first_flight) (fl_lease first_flight)
     (send_push ex_push_env (fl_job first_flight) accepted_reply) 1) (pw_db sent_world)"

definition settled_world :: push_world where
  "settled_world = sent_world\<lparr>pw_db := settled_db, pw_flights := []\<rparr>"

lemma settled_reached: "(push_step ex_push_env)\<^sup>*\<^sup>* (at_db ex_push_db) settled_world"
proof -
  obtain u fs' where run: "run_tx (finish_job (fl_job first_flight) (fl_row first_flight) (fl_lease first_flight)
      (send_push ex_push_env (fl_job first_flight) accepted_reply) 1) (pw_db sent_world, []) = (u, settled_db, fs')"
    using run_db_after unfolding settled_db_def by blast
  have "fl_at first_flight = 0" by code_simp
  with StepFinish [OF _ _ run] have "push_step ex_push_env sent_world
      (sent_world\<lparr>pw_db := settled_db, pw_flights := remove1 first_flight (pw_flights sent_world)\<rparr>)"
    by (simp add: sent_world_def with_flight_def)
  then have "push_step ex_push_env sent_world settled_world"
    by (simp add: settled_world_def sent_world_def with_flight_def)
  with sent_reached show ?thesis by (rule rtranclp.rtrancl_into_rtrancl)
qed

text \<open>
  Once a row has an outcome and no lease it never changes again and is never sent again;
  no late answer, sweep or crash of another worker touches it.
\<close>

lemma push_outcome_final:
  assumes "push_start w0" "(push_step_all en)\<^sup>*\<^sup>* w0 w" "(push_step_all en)\<^sup>*\<^sup>* w w'"
    and "tget (pd_outbox (pw_db w)) k = Some j" "\<not> unfinished j" "ob_lease_id j = None"
  shows "tget (pd_outbox (pw_db w')) k = Some j \<and>
    filter (\<lambda>fl. job_key_of (fl_job fl) = k) (pw_sent w') = filter (\<lambda>fl. job_key_of (fl_job fl) = k) (pw_sent w)"
proof -
  from push_start_rows [OF assms(1)] push_run_rows [OF assms(2)] have "worlds_ok w" by blast
  with push_run_rows [OF assms(3)] have "job_step\<^sup>*\<^sup>* (job_view k w) (job_view k w')" by blast
  with assms(4) final_run have "job_view k w' = job_view k w" using assms(5,6)
    by (auto simp: job_view_def final_job_def)
  with assms(4) show ?thesis by (simp add: job_view_def)
qed

lemma settled_row:
  "(case tget (pd_outbox settled_db) (''e'', ''i'') of
      Some j \<Rightarrow> ob_outcome j = ''accepted'' \<and> ob_lease_id j = None | None \<Rightarrow> False)"
  by code_simp

lemma push_outcome_final_witness:
  "\<exists>j. tget (pd_outbox (pw_db settled_world)) (''e'', ''i'') = Some j \<and> ob_outcome j = ''accepted''"
proof -
  obtain j where j: "tget (pd_outbox (pw_db settled_world)) (''e'', ''i'') = Some j" "ob_outcome j = ''accepted''"
    "ob_lease_id j = None"
    using settled_row by (auto simp: settled_world_def split: option.splits)
  from push_outcome_final [OF at_start all_run [OF settled_reached] rtranclp.rtrancl_refl j(1)] j
  show ?thesis by (auto simp: unfinished_def)
qed

section \<open>Two flaws\<close>

text \<open>
  Unregistering deletes the row, and the revisions of the next one start again: a job queued for
  the old row becomes eligible for the new one, and its envelope, sealed under the old key, is sent
  to the new device.
\<close>

definition revived_db :: push_db where
  "revived_db = setup_db ''K2'' (db_after (push_unregister ex_push_env ''t'' 0) queued_db)"

lemma unregister_revives_old_jobs:
  "\<exists>w w' fl. push_start w \<and> (push_step_all ex_push_env)\<^sup>*\<^sup>* w w' \<and> fl \<in> set (pw_sent w') \<and>
     (\<exists>e. ob_envelope (fl_job fl) = Some e \<and> \<not> sealed_for ex_push_env (fl_row fl) (fl_job fl) e)"
proof -
  have sends: "case ex_flight revived_db of None \<Rightarrow> False
    | Some fl \<Rightarrow> map_option ev_key_id (ob_envelope (fl_job fl)) = Some ''K1'' \<and> rg_content_key_id (fl_row fl) = Some ''K2''"
    by code_simp
  then obtain fl where fl: "ex_flight revived_db = Some fl" by (cases "ex_flight revived_db") auto
  with sends obtain e where e: "ob_envelope (fl_job fl) = Some e" "ev_key_id e = ''K1''"
    and row: "rg_content_key_id (fl_row fl) = Some ''K2''" by auto
  have "\<not> sealed_for ex_push_env (fl_row fl) (fl_job fl) e"
    using e(2) row by (auto simp: sealed_for_def seal_def Let_def split: if_splits option.splits)
  moreover have "push_step_all ex_push_env (at_db queued_db)
      (at_db (db_after (push_unregister ex_push_env ''t'' 0) queued_db))"
    using run_db_after [of "push_unregister ex_push_env ''t'' 0" queued_db]
      StepUnregister [of ex_push_env "''t''" 0 "at_db queued_db" "[]"]
    by (auto simp: at_db_def)
  with all_run [OF queued_reached] all_run [OF step_setup]
  have "(push_step_all ex_push_env)\<^sup>*\<^sup>* (at_db ex_push_db) (at_db revived_db)"
    unfolding revived_db_def by (meson rtranclp.rtrancl_into_rtrancl rtranclp_trans)
  with StepBasic [OF step_claim [OF fl]]
  have "(push_step_all ex_push_env)\<^sup>*\<^sup>* (at_db ex_push_db) (with_flight revived_db fl)"
    by (meson rtranclp.rtrancl_into_rtrancl)
  moreover have "fl \<in> set (pw_sent (with_flight revived_db fl))" by (simp add: with_flight_def)
  ultimately show ?thesis using at_start e(1) by blast
qed

text \<open>
  The refusal of a job leaves the lease it had: the late answer of that lease makes the job
  retryable again, without an envelope.
\<close>

lemma late_answer_overwrites_refusal:
  assumes "tget (pd_outbox db) (job_key_of job) = Some (ineligible_job j)" "ob_lease_id j = Some lease"
    and "finished < ob_expires_at job"
  shows "\<exists>db' j'. finish_job job row lease relay_retry finished (db, []) = (Inr (), db', []) \<and>
    tget (pd_outbox db') (job_key_of job) = Some j' \<and> unfinished j' \<and> ob_envelope j' = None"
  using assms
  by (simp add: finish_job_def Let_def tx_bind_def tx_pure relay_retry_def ineligible_job_def map_job_def
      tget_tmodify settled_def verdict_def unfinished_def)

end
