(* ===== verification/Task_Push.thy ===== *)
theory Task_Push
  imports Push_Properties
begin

text \<open>
  From the last results of a task run to the jobs of its owner: the run is a success exactly when
  every target's last exit code is zero, and the jobs \<open>finish_run\<close> queues say so.
\<close>

section \<open>The summary of a run\<close>

definition no_failures :: "task_run_summary \<Rightarrow> bool" where
  "no_failures s \<longleftrightarrow> sm_failed s = 0 \<and> sm_timed_out s = 0 \<and> sm_offline s = 0 \<and> sm_denied s = 0"

lemma no_failures_count: "no_failures (count_exit code s) \<longleftrightarrow> no_failures s \<and> code = 0"
  by (auto simp: no_failures_def count_exit_def)

lemma no_failures_targets:
  "list_all (\<lambda>i. tget finals i \<noteq> None) targets \<Longrightarrow>
   no_failures (count_targets finals targets s) \<longleftrightarrow> no_failures s \<and> (\<forall>i\<in>set targets. tget finals i = Some 0)"
  by (induction targets arbitrary: s) (auto simp: no_failures_count)

lemma count_exit_keeps [simp]:
  "sm_total (count_exit code s) = sm_total s" "sm_task_id (count_exit code s) = sm_task_id s"
  "sm_run_id (count_exit code s) = sm_run_id s"
  by (simp_all add: count_exit_def)

lemma count_targets_keeps [simp]:
  "sm_total (count_targets finals targets s) = sm_total s"
  "sm_task_id (count_targets finals targets s) = sm_task_id s"
  "sm_run_id (count_targets finals targets s) = sm_run_id s"
  by (induction targets arbitrary: s) (auto split: option.splits)

lemma run_summary_success:
  assumes "list_all (\<lambda>i. tget finals i \<noteq> None) targets" "targets \<noteq> []"
  shows "is_success (run_summary run run_id finals targets) \<longleftrightarrow> (\<forall>i\<in>set targets. tget finals i = Some 0)"
proof -
  let ?s = "\<lparr>sm_task_id = tk_task_id run, sm_run_id = run_id, sm_total = length targets, sm_failed = 0,
        sm_timed_out = 0, sm_offline = 0, sm_denied = 0\<rparr>"
  have "is_success (run_summary run run_id finals targets) \<longleftrightarrow> no_failures (count_targets finals targets ?s)"
    using assms(2) by (auto simp: run_summary_def is_success_def no_failures_def)
  with no_failures_targets [OF assms(1)] show ?thesis by (simp add: no_failures_def)
qed

text \<open>The counters never exceed the targets.\<close>

definition failures :: "task_run_summary \<Rightarrow> nat" where
  "failures s = sm_failed s + sm_timed_out s + sm_offline s + sm_denied s"

lemma failures_count: "failures (count_exit code s) = failures s + (if code = 0 then 0 else 1)"
  by (simp add: failures_def count_exit_def)

lemma failures_targets:
  "list_all (\<lambda>i. tget finals i \<noteq> None) targets \<Longrightarrow>
   failures (count_targets finals targets s) = failures s + length (filter (\<lambda>i. tget finals i \<noteq> Some 0) targets)"
  by (induction targets arbitrary: s) (auto simp: failures_count split: option.splits)

section \<open>The jobs of a run\<close>

lemma insert_job_tables:
  "pd_registrations (insert_job j db) = pd_registrations db" "pd_task_runs (insert_job j db) = pd_task_runs db"
  "pd_mobile_sessions (insert_job j db) = pd_mobile_sessions db" "pd_users (insert_job j db) = pd_users db"
  "pd_scheduled (insert_job j db) = pd_scheduled db"
  by (simp_all add: insert_job_def put_job_def)

lemma eligible_row_insert [simp]: "eligible_row en (insert_job j db) job now = eligible_row en db job now"
  unfolding eligible_row_def task_outcome_def insert_job_tables ..

lemma tget_insert_job:
  "tget (pd_outbox (insert_job j db)) k =
     (if k = job_key_of j \<and> tget (pd_outbox db) k = None then Some j else tget (pd_outbox db) k)"
  by (auto simp: insert_job_def put_job_def tget_tput)

lemma task_rows_jobs:
  assumes "task_rows en run run_id summary created now nonces rows (db, []) = (Inr x, db', fs)"
  defines "job \<equiv> task_job run run_id (is_success summary) created (as_secs now)"
  shows "(\<forall>j. eligible_row en db' j now = eligible_row en db j now) \<and>
    (\<forall>k j. tget (pd_outbox db) k = Some j \<longrightarrow> tget (pd_outbox db') k = Some j) \<and>
    (\<forall>k j. tget (pd_outbox db) k = None \<and> tget (pd_outbox db') k = Some j \<longrightarrow>
       (\<exists>row\<in>set rows. \<exists>e. j = (job row)\<lparr>ob_envelope := Some e\<rparr>)) \<and>
    (\<forall>row\<in>set rows. eligible_row en db (job row) now \<noteq> None \<and>
       (\<forall>n. row_envelope en row (\<lambda>d. task_content d run summary (job row)) n \<noteq> None) \<longrightarrow>
       tget (pd_outbox db') (run_id, rg_installation_id row) \<noteq> None)"
  using assms(1)
proof (induction rows arbitrary: nonces db)
  case Nil
  then have "db' = db" by (simp add: tx_simps)
  then show ?case by auto
next
  case (Cons row rows)
  let ?rest = "task_rows en run run_id summary created now (tl nonces) rows"
  let ?env = "row_envelope en row (\<lambda>d. task_content d run summary (job row)) (first_nonce nonces)"
  show ?case
  proof (cases "eligible_row en db (job row) now = None \<or> ?env = None")
    case True
    with Cons.prems have "?rest (db, []) = (Inr x, db', fs)"
      by (auto simp: Let_def eligible_def tx_bind_def tx_pure job_def split: option.splits if_splits)
    from Cons.IH [OF this] True show ?thesis by (simp del: not_None_eq) metis
  next
    case False
    then obtain e where env: "?env = Some e" by auto
    let ?db = "insert_job ((job row)\<lparr>ob_envelope := Some e\<rparr>) db"
    from False env Cons.prems have "?rest (?db, []) = (Inr x, db', fs)"
      by (auto simp: Let_def eligible_def tx_bind_def tx_pure job_def split: option.splits if_splits)
    note IH = Cons.IH [OF this]
    have key: "job_key_of ((job row)\<lparr>ob_envelope := Some e\<rparr>) = (run_id, rg_installation_id row)"
      by (simp add: job_key_of_def job_def task_job_def)
    from IH have keeps: "tget (pd_outbox ?db) k = Some j \<Longrightarrow> tget (pd_outbox db') k = Some j" for k j by blast
    have "tget (pd_outbox ?db) (run_id, rg_installation_id row) \<noteq> None"
      by (simp add: tget_insert_job key)
    then have here: "tget (pd_outbox db') (run_id, rg_installation_id row) \<noteq> None" using keeps by fastforce
    have old: "tget (pd_outbox db) k = Some j \<Longrightarrow> tget (pd_outbox db') k = Some j" for k j
      by (rule keeps) (simp add: tget_insert_job)
    have new: "\<exists>r\<in>set (row # rows). \<exists>e. j = (job r)\<lparr>ob_envelope := Some e\<rparr>"
      if "tget (pd_outbox db) k = None" "tget (pd_outbox db') k = Some j" for k j
    proof (cases "tget (pd_outbox ?db) k")
      case None
      with that IH have "\<exists>r\<in>set rows. \<exists>e. j = (job r)\<lparr>ob_envelope := Some e\<rparr>" by blast
      then show ?thesis by simp
    next
      case (Some j')
      with keeps that have "j = j'" by fastforce
      moreover from Some that(1) have "j' = (job row)\<lparr>ob_envelope := Some e\<rparr>"
        by (simp add: tget_insert_job split: if_splits)
      ultimately show ?thesis by auto
    qed
    have all: "\<forall>r\<in>set (row # rows). eligible_row en db (job r) now \<noteq> None \<and>
       (\<forall>n. row_envelope en r (\<lambda>d. task_content d run summary (job r)) n \<noteq> None) \<longrightarrow>
       tget (pd_outbox db') (run_id, rg_installation_id r) \<noteq> None"
      using here IH by simp
    from IH have "\<forall>j. eligible_row en db' j now = eligible_row en db j now" by simp
    with old new all show ?thesis by blast
  qed
qed

section \<open>From results to jobs\<close>

text \<open>
  The last exit code of a target, said without a table: of the results of the run on it, those of
  the greatest attempt, and of these the one with the greatest identifier.
\<close>

definition greatest_by :: "('a \<Rightarrow> 'b :: linorder) \<Rightarrow> 'a list \<Rightarrow> 'a list" where
  "greatest_by f xs = filter (\<lambda>x. list_all (\<lambda>y. f y \<le> f x) xs) xs"

definition last_exit :: "push_db \<Rightarrow> push_task_run \<Rightarrow> string \<Rightarrow> int option" where
  "last_exit db run i =
     (let results = filter (\<lambda>r. tr_task_id r = tk_task_id run \<and> tr_run_id r = Some (tk_run_id run) \<and> tr_server_id r = i)
            (pd_task_results db)
      in case greatest_by tr_id (greatest_by tr_attempt results) of [] \<Rightarrow> None | rs \<Rightarrow> Some (tr_exit_code (last rs)))"

lemma last_sort_key:
  assumes "xs \<noteq> []"
  shows "last (sort_key f xs) = last (greatest_by f xs)" and "greatest_by f xs \<noteq> []"
proof -
  let ?l = "last (sort_key f xs)"
  have ne: "sort_key f xs \<noteq> []" using assms by (metis length_0_conv length_sort)
  have mem: "?l \<in> set xs" using last_in_set [OF ne] by simp
  have "sorted (map f (butlast (sort_key f xs) @ [?l]))"
    using sorted_sort_key [of f xs] by (simp only: append_butlast_last_id [OF ne])
  then have "f y \<le> f ?l" if "y \<in> set (butlast (sort_key f xs) @ [?l])" for y
    using that by (auto simp: sorted_append)
  then have top: "f y \<le> f ?l" if "y \<in> set xs" for y
    using that by (simp only: append_butlast_last_id [OF ne] set_sort)
  have g: "greatest_by f xs = filter (\<lambda>x. f x = f ?l) xs"
    unfolding greatest_by_def list_all_iff using top mem by (intro filter_cong refl) (auto intro: antisym)
  show "greatest_by f xs \<noteq> []" unfolding g using mem by (auto simp: filter_empty_conv)
  have "last (filter (\<lambda>x. f x = f ?l) (butlast (sort_key f xs) @ [?l])) = ?l" by simp
  then show "?l = last (greatest_by f xs)"
    unfolding g append_butlast_last_id [OF ne] sort_key_stable by simp
qed

lemma tget_last_put:
  "tget (foldl (\<lambda>t r. tput (k r) (v r) t) t rs) i =
     (case filter (\<lambda>r. k r = i) rs of [] \<Rightarrow> tget t i | xs \<Rightarrow> Some (v (last xs)))"
  by (induction rs arbitrary: t) (auto simp: tget_tput split: list.split)

lemma final_results_last:
  "tget (final_results (tk_task_id run) (tk_run_id run) (pd_task_results db)) i = last_exit db run i"
proof -
  define rs where "rs = filter (\<lambda>r. tr_task_id r = tk_task_id run \<and> tr_run_id r = Some (tk_run_id run) \<and> tr_server_id r = i)
    (pd_task_results db)"
  have empty: "tget ([] :: (string, int) table) i = None" by (simp add: tget_def)
  have "tget (final_results (tk_task_id run) (tk_run_id run) (pd_task_results db)) i =
      (case sort_key tr_attempt (sort_key tr_id rs) of [] \<Rightarrow> None | xs \<Rightarrow> Some (tr_exit_code (last xs)))"
    by (simp add: final_results_def tget_last_put filter_sort rs_def conj_ac empty split: list.split)
  also have "\<dots> = last_exit db run i"
  proof (cases "rs = []")
    case True
    then show ?thesis by (simp add: last_exit_def rs_def [symmetric] greatest_by_def)
  next
    case False
    let ?s = "sort_key tr_id rs"
    have ne: "?s \<noteq> []" "sort_key tr_attempt ?s \<noteq> []" using False by (metis length_0_conv length_sort)+
    note a = last_sort_key [OF ne(1), of tr_attempt] last_sort_key(2) [OF False, of tr_attempt]
    have g: "greatest_by tr_attempt ?s = sort_key tr_id (greatest_by tr_attempt rs)"
      by (simp add: greatest_by_def filter_sort list_all_iff)
    note b = last_sort_key [OF a(3), of tr_id]
    have "last (sort_key tr_attempt ?s) = last (greatest_by tr_id (greatest_by tr_attempt rs))"
      using a(1) b(1) by (simp only: g)
    moreover have "(case xs of [] \<Rightarrow> None | ys \<Rightarrow> Some (tr_exit_code (last ys))) = Some (tr_exit_code (last xs))"
      if "xs \<noteq> []" for xs :: "push_task_result list" using that by (cases xs) simp_all
    ultimately show ?thesis
      using ne b(2) by (simp only: last_exit_def rs_def [symmetric] Let_def simp_thms)
  qed
  finally show ?thesis .
qed

definition drained_run :: "push_db \<Rightarrow> push_task_run \<Rightarrow> string list \<Rightarrow> int \<Rightarrow> push_task_run" where
  "drained_run db run targets t = run\<lparr>tk_completed_at := Some t, tk_status := ''drained'',
     tk_summary := Some (Some (run_summary run (tk_run_id run)
       (final_results (tk_task_id run) (tk_run_id run) (pd_task_results db)) targets))\<rparr>"

lemma completion_drains:
  assumes "record_completion (tk_run_id run) True t (db, []) = (Inr (), db1, [])"
    and "tget (pd_task_runs db) (tk_run_id run) = Some run" "tk_status run = ''running''"
    and "tk_targets run = Some targets" "targets \<noteq> []" "\<forall>i\<in>set targets. last_exit db run i \<noteq> None"
  shows "db1 = put_run (drained_run db run targets t) db"
  using assms
  by (simp add: record_completion_def tx_bind_def tx_pure list_all_iff final_results_last drained_run_def)

lemma drained_success:
  assumes "targets \<noteq> []" "\<forall>i\<in>set targets. last_exit db run i \<noteq> None"
    and "tk_summary (drained_run db run targets t) = Some (Some s)"
  shows "is_success s \<longleftrightarrow> (\<forall>i\<in>set targets. last_exit db run i = Some 0)"
proof -
  let ?finals = "final_results (tk_task_id run) (tk_run_id run) (pd_task_results db)"
  have "list_all (\<lambda>i. tget ?finals i \<noteq> None) targets" using assms(2) by (simp add: list_all_iff final_results_last)
  from run_summary_success [OF this assms(1), of run "tk_run_id run"] assms(3)
  show ?thesis by (simp add: drained_run_def final_results_last)
qed

lemma finish_drained:
  assumes "finish_run en (tk_run_id run) now nonces (db, []) = (Inr (), db', [])"
    and "tget (pd_task_runs db) (tk_run_id run) = Some run" "tk_status run = ''drained''"
    and "tk_summary run = Some (Some s)" "tk_completed_at run = Some t" "as_secs now < t + 1800"
  shows "task_rows en run (tk_run_id run) s t now nonces
      (filter (task_wanted run (is_success s)) (map snd (pd_registrations db)))
      (put_run (run\<lparr>tk_status := ''completed''\<rparr>) db, []) = (Inr (), db', [])"
  using assms by (simp add: finish_run_def tx_bind_def tx_pure split: if_splits)

text \<open>The job of a registration for a run, and whether it can be delivered.\<close>

definition report_job :: "push_db \<Rightarrow> push_task_run \<Rightarrow> string list \<Rightarrow> int \<Rightarrow> datetime \<Rightarrow> push_registration \<Rightarrow> push_job" where
  "report_job db run targets t now row =
     task_job run (tk_run_id run) (\<forall>i\<in>set targets. last_exit db run i = Some 0) t (as_secs now) row"

definition deliverable :: "push_env \<Rightarrow> push_db \<Rightarrow> push_task_run \<Rightarrow> push_job \<Rightarrow> push_registration \<Rightarrow> task_run_summary \<Rightarrow> datetime \<Rightarrow> bool" where
  "deliverable en db run job row s now \<longleftrightarrow> eligible_row en db job now \<noteq> None \<and>
     (\<forall>n. row_envelope en row (\<lambda>d. task_content d run s job) n \<noteq> None)"

lemma task_job_run [simp]:
  "task_job (drained_run db run targets t) = task_job run" "tk_run_id (drained_run db run targets t) = tk_run_id run"
  "tk_owner_id (drained_run db run targets t) = tk_owner_id run" "tk_status (drained_run db run targets t) = ''drained''"
  "tk_completed_at (drained_run db run targets t) = Some t"
  by (simp_all add: task_job_def drained_run_def fun_eq_iff)

lemma tget_put_run [simp]: "tget (pd_task_runs (put_run run db)) (tk_run_id run) = Some run"
  by (simp add: put_run_def tget_tput)

text \<open>A run that is not drained is left alone.\<close>

lemma finish_run_again:
  assumes "tget (pd_task_runs db) run_id = Some run" "tk_status run \<noteq> ''drained''"
  shows "finish_run en run_id now nonces (db, []) = (Inr (), db, [])"
  using assms by (simp add: finish_run_def tx_bind_def tx_pure)

text \<open>A successful completion and a successful \<open>finish_run\<close> within the window, as plain functions.\<close>

lemma finished_rows:
  assumes "run_tx (record_completion (tk_run_id run) True t) (db, fs) = (Inr (), db1, fs1)"
    and "tget (pd_task_runs db) (tk_run_id run) = Some run" "tk_status run = ''running''"
    and "tk_targets run = Some targets" "targets \<noteq> []" "\<forall>i\<in>set targets. last_exit db run i \<noteq> None"
    and "run_tx (finish_run en (tk_run_id run) now nonces) (db1, fs2) = (Inr (), db2, fs3)" "as_secs now < t + 1800"
  defines "dr \<equiv> drained_run db run targets t"
  shows "\<exists>s. tk_summary dr = Some (Some s) \<and> is_success s = (\<forall>i\<in>set targets. last_exit db run i = Some 0) \<and>
    task_rows en dr (tk_run_id run) s t now nonces
      (filter (task_wanted dr (is_success s)) (map snd (pd_registrations db)))
      (put_run (dr\<lparr>tk_status := ''completed''\<rparr>) (put_run dr db), []) = (Inr (), db2, [])"
proof -
  from completion_drains [OF run_tx_success [OF assms(1) fault_blind_completion] assms(2-6)]
  have db1: "db1 = put_run dr db" by (simp add: dr_def)
  obtain s where s: "tk_summary dr = Some (Some s)" by (simp add: dr_def drained_run_def)
  have "finish_run en (tk_run_id dr) now nonces (put_run dr db, []) = (Inr (), db2, [])"
    using run_tx_success [OF assms(7) fault_blind_finish_run] by (simp add: db1 dr_def)
  from finish_drained [OF this tget_put_run _ s _ assms(8)] drained_success [OF assms(5,6), of t s] s
  show ?thesis by (simp add: dr_def)
qed

text \<open>
  Claim C23: when a task run whose targets all have results is drained and finished within thirty
  minutes, exactly the registrations of its owner that want this outcome are told: every job
  added is for the run, its owner and a registration that asked for the outcome, says success
  exactly when the exit code of the last attempt on every target is zero, and every such registration that is
  eligible when it finishes (\<open>eligible_row\<close>) and whose content can be sealed has a job.
\<close>

theorem task_push_reports_outcome:
  assumes "run_tx (record_completion (tk_run_id run) True t) (db, fs) = (Inr (), db1, fs1)"
    and "tget (pd_task_runs db) (tk_run_id run) = Some run" "tk_status run = ''running''"
    and "tk_targets run = Some targets" "targets \<noteq> []" "\<forall>i\<in>set targets. last_exit db run i \<noteq> None"
    and "run_tx (finish_run en (tk_run_id run) now nonces) (db1, fs2) = (Inr (), db2, fs3)" "as_secs now < t + 1800"
  defines "success \<equiv> \<forall>i\<in>set targets. last_exit db run i = Some 0"
  shows "(\<forall>k j. tget (pd_outbox db) k = None \<and> tget (pd_outbox db2) k = Some j \<longrightarrow>
      (\<exists>row e. row \<in> snd ` set (pd_registrations db) \<and> task_wanted run success row \<and>
         j = (report_job db run targets t now row)\<lparr>ob_envelope := Some e\<rparr>)) \<and>
    (\<forall>row s. row \<in> snd ` set (pd_registrations db) \<and> task_wanted run success row \<and>
       tk_summary (drained_run db run targets t) = Some (Some s) \<and>
       deliverable en db2 (drained_run db run targets t) (report_job db run targets t now row) row s now \<longrightarrow>
       tget (pd_outbox db2) (tk_run_id run, rg_installation_id row) \<noteq> None)"
proof -
  let ?dr = "drained_run db run targets t"
  from finished_rows [OF assms(1-8)] obtain s where s: "tk_summary ?dr = Some (Some s)" "is_success s = success"
    and rows0: "task_rows en ?dr (tk_run_id run) s t now nonces
      (filter (task_wanted ?dr (is_success s)) (map snd (pd_registrations db)))
      (put_run (?dr\<lparr>tk_status := ''completed''\<rparr>) (put_run ?dr db), []) = (Inr (), db2, [])"
    unfolding success_def by blast
  note rows = rows0 [unfolded s(2)]
  let ?db = "put_run (?dr\<lparr>tk_status := ''completed''\<rparr>) (put_run ?dr db)"
  have wanted: "task_wanted ?dr = task_wanted run" by (simp add: task_wanted_def fun_eq_iff)
  have job: "task_job ?dr (tk_run_id run) (is_success s) t (as_secs now) row = report_job db run targets t now row" for row
    using s(2) by (simp add: report_job_def success_def)
  note jobs = task_rows_jobs [OF rows, unfolded job wanted put_run_tables]
  show ?thesis
  proof (intro conjI allI impI; elim conjE)
    fix k j
    assume "tget (pd_outbox db) k = None" "tget (pd_outbox db2) k = Some j"
    with jobs obtain row e where "row \<in> set (filter (task_wanted run success) (map snd (pd_registrations db)))"
      "j = (report_job db run targets t now row)\<lparr>ob_envelope := Some e\<rparr>" by blast
    then show "\<exists>row e. row \<in> snd ` set (pd_registrations db) \<and> task_wanted run success row \<and>
        j = (report_job db run targets t now row)\<lparr>ob_envelope := Some e\<rparr>" by auto
  next
    fix row s'
    assume row: "row \<in> snd ` set (pd_registrations db)" "task_wanted run success row"
      and "tk_summary ?dr = Some (Some s')" "deliverable en db2 ?dr (report_job db run targets t now row) row s' now"
    with s(1) jobs have "eligible_row en ?db (report_job db run targets t now row) now \<noteq> None"
      "\<forall>n. row_envelope en row (\<lambda>d. task_content d ?dr s (report_job db run targets t now row)) n \<noteq> None"
      by (auto simp: deliverable_def)
    moreover have "row \<in> set (filter (task_wanted run success) (map snd (pd_registrations db)))" using row by auto
    ultimately show "tget (pd_outbox db2) (tk_run_id run, rg_installation_id row) \<noteq> None" using jobs by blast
  qed
qed

text \<open>A run on two targets, the second of which succeeded at its second attempt.\<close>

definition ex_run :: push_task_run where
  "ex_run = \<lparr>tk_run_id = ''r'', tk_task_id = ''k'', tk_owner_id = ''u'', tk_targets = Some [''s1'', ''s2''],
     tk_status = ''running'', tk_completed_at = None, tk_summary = None\<rparr>"

definition ex_result :: "int \<Rightarrow> string \<Rightarrow> int \<Rightarrow> int \<Rightarrow> push_task_result" where
  "ex_result i server code attempt = \<lparr>tr_id = i, tr_task_id = ''k'', tr_server_id = server, tr_exit_code = code,
     tr_run_id = Some ''r'', tr_attempt = attempt\<rparr>"

definition ex_run_db :: push_db where
  "ex_run_db = (setup_db ''K1'' ex_push_db)
     \<lparr>pd_registrations := map (\<lambda>(i, r). (i, r\<lparr>rg_task_success := True\<rparr>)) (pd_registrations (setup_db ''K1'' ex_push_db)),
      pd_task_runs := [(''r'', ex_run)], pd_scheduled := [''k''],
      pd_task_results := [ex_result 1 ''s1'' 0 1, ex_result 3 ''s2'' 0 2, ex_result 2 ''s2'' (-4) 1]\<rparr>"

definition ex_drained_db :: push_db where
  "ex_drained_db = db_after (record_completion ''r'' True 0) ex_run_db"

definition ex_finished_db :: push_db where
  "ex_finished_db = db_after (finish_run ex_push_env ''r'' 0 [''n'']) ex_drained_db"

lemma run_db_after_ok: "fst (run_tx m (db, [])) = Inr () \<Longrightarrow> \<exists>fs'. run_tx m (db, []) = (Inr (), db_after m db, fs')"
  by (cases "run_tx m (db, [])") (auto simp: db_after_def)

theorem task_push_reports_outcome_witness:
  "\<exists>j. tget (pd_outbox ex_finished_db) (''r'', ''i'') = Some j \<and> ob_category j = ''task_success''"
proof -
  have ok1: "fst (run_tx (record_completion (tk_run_id ex_run) True 0) (ex_run_db, [])) = Inr ()" by code_simp
  have ok2: "fst (run_tx (finish_run ex_push_env (tk_run_id ex_run) 0 [''n'']) (ex_drained_db, [])) = Inr ()" by code_simp
  have found: "tget (pd_task_runs ex_run_db) (tk_run_id ex_run) = Some ex_run" by (simp add: ex_run_db_def ex_run_def tget_def)
  have exits: "last_exit ex_run_db ex_run ''s1'' = Some 0 \<and> last_exit ex_run_db ex_run ''s2'' = Some 0" by code_simp
  have queued: "tget (pd_outbox ex_run_db) (''r'', ''i'') = None \<and> tget (pd_outbox ex_finished_db) (''r'', ''i'') \<noteq> None"
    by code_simp
  then obtain j where j: "tget (pd_outbox ex_run_db) (''r'', ''i'') = None" "tget (pd_outbox ex_finished_db) (''r'', ''i'') = Some j"
    by auto
  have status: "tk_status ex_run = ''running''" "tk_targets ex_run = Some [''s1'', ''s2'']" by (simp_all add: ex_run_def)
  obtain fs1 where run1: "run_tx (record_completion (tk_run_id ex_run) True 0) (ex_run_db, []) = (Inr (), ex_drained_db, fs1)"
    using run_db_after_ok [OF ok1] by (auto simp: ex_drained_db_def ex_run_def)
  obtain fs2 where run2: "run_tx (finish_run ex_push_env (tk_run_id ex_run) 0 [''n'']) (ex_drained_db, []) = (Inr (), ex_finished_db, fs2)"
    using run_db_after_ok [OF ok2] by (auto simp: ex_finished_db_def ex_run_def)
  have targets: "[''s1'', ''s2''] \<noteq> []" "\<forall>i\<in>set [''s1'', ''s2'']. last_exit ex_run_db ex_run i \<noteq> None"
    and window: "as_secs 0 < 0 + 1800" using exits by simp_all
  note reports = task_push_reports_outcome [OF run1 found status targets run2 window, THEN conjunct1]
  from reports [rule_format, OF conjI [OF j]]
  obtain row e where "j = (report_job ex_run_db ex_run [''s1'', ''s2''] 0 0 row)\<lparr>ob_envelope := Some e\<rparr>" by blast
  with j exits show ?thesis by (simp add: report_job_def task_job_def task_category_def)
qed

end
