(* ===== verification/Security_Events.thy ===== *)
theory Security_Events
  imports Block_List Alert_State Mobile_Push Ssh_Detector Scan_Detector "HOL-Library.Product_Lexorder"
begin

text \<open>
  Security events on the server (\<open>crates/server/src/service/security.rs\<close>): retention of what an
  agent reports, its storage, the admission of each stored event to the alert rules, and the
  effects of a match: the durable push intent, the block of the source address, the notification.

  An event passes three places: the retained queue in memory, the table with an admission payload
  (pending), and the table without one (decided or refused).  Parameters are in the record
  \<open>security_env\<close>: address parsing, the JSON codecs, the digest of a token hash, and the range of
  \<open>DateTime\<close>.  Encoding to JSON cannot fail for these types.  The clock and random identifiers are
  arguments, the webhook of a notification group is only recorded.
\<close>

section \<open>Events\<close>

datatype security_event_type = SshLoginEvent | SshBruteForceEvent | PortScanEvent

datatype detector_source = Journal | AuthLog | Conntrack | FirewallLog

datatype security_evidence =
    SshLoginEvidence ssh_auth_method
  | SshBruteForceEvidence brute_force_evidence
  | PortScanEvidence scan_evidence

record security_payload =
  spy_event_type :: security_event_type
  spy_severity :: severity
  spy_source_ip :: string
  spy_source_port :: "u16 option"
  spy_username :: "string option"
  spy_started_at :: int
  spy_ended_at :: int
  spy_first_seen :: bool
  spy_detector_source :: detector_source
  spy_evidence :: security_evidence

record security_event =
  sev_id :: string
  sev_server_id :: string
  sev_event_type :: string
  sev_severity :: string
  sev_source_ip :: string
  sev_source_port :: "int option"
  sev_username :: "string option"
  sev_started_at :: datetime
  sev_ended_at :: datetime
  sev_first_seen :: bool
  sev_detector_source :: string
  sev_evidence :: string
  sev_created_at :: datetime
  sev_admission_payload :: "string option"
  sev_push_intent :: "string option"
  sev_authority_fingerprint :: "string option"
  sev_maintenance_at_admission :: "bool option"

record ('f, 'n) security_env =
  sx_block :: "'n block_env"
  sx_rules :: "'f rule_codec"
  sx_push :: push_env
  sx_fingerprint :: "string \<Rightarrow> string"
  sx_utc_range :: "int \<Rightarrow> bool"
  sx_print_evidence :: "security_evidence \<Rightarrow> string"
  sx_print_payload :: "security_payload \<Rightarrow> string"
  sx_parse_payload :: "string \<Rightarrow> security_payload option"
  sx_print_recipients :: "security_push_recipient list \<Rightarrow> string"
  sx_parse_recipients :: "string \<Rightarrow> security_push_recipient list option"

fun event_type_to_str :: "security_event_type \<Rightarrow> string" where
  "event_type_to_str SshLoginEvent = ''ssh_login''"
| "event_type_to_str SshBruteForceEvent = ''ssh_brute_force''"
| "event_type_to_str PortScanEvent = ''port_scan''"

fun event_type_to_rule_type :: "security_event_type \<Rightarrow> string" where
  "event_type_to_rule_type SshLoginEvent = ''ssh_new_ip_login''"
| "event_type_to_rule_type SshBruteForceEvent = ''ssh_brute_force_detected''"
| "event_type_to_rule_type PortScanEvent = ''port_scan_detected''"

fun severity_to_str :: "severity \<Rightarrow> string" where
  "severity_to_str Info = ''info''"
| "severity_to_str Low = ''low''"
| "severity_to_str Medium = ''medium''"
| "severity_to_str High = ''high''"
| "severity_to_str Critical = ''critical''"

fun detector_source_to_str :: "detector_source \<Rightarrow> string" where
  "detector_source_to_str Journal = ''journal''"
| "detector_source_to_str AuthLog = ''auth_log''"
| "detector_source_to_str Conntrack = ''conntrack''"
| "detector_source_to_str FirewallLog = ''firewall_log''"

definition unix_to_utc :: "('f, 'n) security_env \<Rightarrow> datetime \<Rightarrow> int \<Rightarrow> datetime" where
  "unix_to_utc en now secs = (if sx_utc_range en secs then seconds secs else now)"

record retained_event =
  rt_event :: security_event
  rt_payload :: security_payload

definition original_event ::
  "('f, 'n) security_env \<Rightarrow> string \<Rightarrow> security_payload \<Rightarrow> string \<Rightarrow> datetime \<Rightarrow> app_error + retained_event" where
  "original_event en server_id payload uuid now =
     (case bn_parse_addr (sx_block en) (spy_source_ip payload) of
        None \<Rightarrow> Inl (BadRequest (''invalid source_ip: '' @ spy_source_ip payload))
      | Some _ \<Rightarrow>
          Inr \<lparr>rt_event = \<lparr>sev_id = uuid, sev_server_id = server_id,
                 sev_event_type = event_type_to_str (spy_event_type payload),
                 sev_severity = severity_to_str (spy_severity payload), sev_source_ip = spy_source_ip payload,
                 sev_source_port = map_option uint (spy_source_port payload), sev_username = spy_username payload,
                 sev_started_at = unix_to_utc en now (spy_started_at payload),
                 sev_ended_at = unix_to_utc en now (spy_ended_at payload), sev_first_seen = spy_first_seen payload,
                 sev_detector_source = detector_source_to_str (spy_detector_source payload),
                 sev_evidence = sx_print_evidence en (spy_evidence payload), sev_created_at = now,
                 sev_admission_payload = Some (sx_print_payload en payload), sev_push_intent = None,
                 sev_authority_fingerprint = None, sev_maintenance_at_admission = None\<rparr>,
               rt_payload = payload\<rparr>)"

section \<open>State\<close>

record security_tables =
  sdb_events :: "(string, security_event) table"
  sdb_core :: db
  sdb_alert :: alert_db
  sdb_push :: push_db

text \<open>What has been sent to a notification group: the group, the rule and the event.\<close>

record security_world =
  sw_db :: security_tables
  sw_faults :: "bool list"
  sw_retained :: "retained_event list"
  sw_cursor :: "(datetime \<times> string) option"
  sw_push_cursor :: "(datetime \<times> string) option"
  sw_triggered :: "(alert_dim, triggered_info) table"
  sw_manager :: agent_manager
  sw_firewall :: firewall_service
  sw_browser :: "(string \<times> string \<times> security_payload) list"
  sw_sent :: "(string \<times> string \<times> string) list"

type_synonym 'a stx = "(security_tables, 'a) tx"

abbreviation on_alert :: "(alert_db, 'a) tx \<Rightarrow> 'a stx" where
  "on_alert \<equiv> tx_at sdb_alert (\<lambda>d s. s\<lparr>sdb_alert := d\<rparr>)"

abbreviation on_push :: "(push_db, 'a) tx \<Rightarrow> 'a stx" where
  "on_push \<equiv> tx_at sdb_push (\<lambda>d s. s\<lparr>sdb_push := d\<rparr>)"

definition security_tx :: "'a stx \<Rightarrow> security_world \<Rightarrow> (app_error + 'a) \<times> security_world" where
  "security_tx m w = (case run_tx m (sw_db w, sw_faults w) of (r, db, fs) \<Rightarrow> (r, w\<lparr>sw_db := db, sw_faults := fs\<rparr>))"

text \<open>A statement outside a transaction.\<close>

definition security_query :: "(security_tables \<Rightarrow> 'a) \<Rightarrow> security_world \<Rightarrow> (app_error + 'a) \<times> security_world" where
  "security_query f w = (case tx_query f (sw_db w, sw_faults w) of (r, db, fs) \<Rightarrow> (r, w\<lparr>sw_faults := fs\<rparr>))"

definition put_event :: "security_event \<Rightarrow> security_tables \<Rightarrow> security_tables" where
  "put_event e db = db\<lparr>sdb_events := tput (sev_id e) e (sdb_events db)\<rparr>"

section \<open>Retention and storage\<close>

definition authority_valid ::
  "('f, 'n) security_env \<Rightarrow> agent_manager \<Rightarrow> string \<Rightarrow> string option \<Rightarrow> bool stx" where
  "authority_valid en am server_id expected =
     (case expected of
        None \<Rightarrow> tx_return True
      | Some fingerprint \<Rightarrow>
          tx_bind (tx_query (\<lambda>db. find_server server_id (sdb_core db))) (\<lambda>server.
          case server of
            None \<Rightarrow> tx_return False
          | Some server \<Rightarrow>
              let matches = (case sv_token_hash server of None \<Rightarrow> False | Some hash \<Rightarrow> sx_fingerprint en hash = fingerprint);
                  caps = effective_capabilities_or server_id (word_of_int (sv_capabilities server)) am
              in tx_return (matches \<and> has_capability caps CAP_SECURITY_EVENTS)))"

definition retain_agent_event ::
  "('f, 'n) security_env \<Rightarrow> string \<Rightarrow> security_payload \<Rightarrow> string \<Rightarrow> datetime \<Rightarrow> security_world \<Rightarrow>
   (app_error + unit) \<times> security_world" where
  "retain_agent_event en server_id payload uuid now w =
     (case security_authority server_id (sw_manager w) of
        None \<Rightarrow> (Inl (Forbidden ''Security authority unavailable''), w)
      | Some fingerprint \<Rightarrow>
          (case original_event en server_id payload uuid now of
             Inl e \<Rightarrow> (Inl e, w)
           | Inr retained \<Rightarrow>
               let retained = retained\<lparr>rt_event := (rt_event retained)\<lparr>sev_authority_fingerprint := Some fingerprint\<rparr>\<rparr>
               in (Inr (), w\<lparr>sw_retained := sw_retained w @ [retained]\<rparr>)))"

text \<open>The answer is whether the event goes to the browsers.\<close>

definition persist_body :: "('f, 'n) security_env \<Rightarrow> agent_manager \<Rightarrow> security_event \<Rightarrow> bool stx" where
  "persist_body en am event =
     tx_bind (tx_exec (\<lambda>db. db)) (\<lambda>_.
     tx_bind (authority_valid en am (sev_server_id event) (sev_authority_fingerprint event)) (\<lambda>valid.
     if \<not> valid then tx_return False
     else
       tx_bind (tx_query (\<lambda>db. tget (sdb_events db) (sev_id event))) (\<lambda>known.
       if known \<noteq> None then tx_return True
       else
         tx_bind (tx_try (tx_query (\<lambda>db. is_in_maintenance_at (sx_rules en) (adb_maintenance (sdb_alert db))
             (sev_server_id event) (sev_created_at event)))) (\<lambda>maintenance.
         tx_bind (tx_exec (put_event (event\<lparr>sev_maintenance_at_admission := maintenance\<rparr>))) (\<lambda>_.
         tx_return True)))))"

definition persist_original ::
  "('f, 'n) security_env \<Rightarrow> retained_event \<Rightarrow> security_world \<Rightarrow> (app_error + unit) \<times> security_world" where
  "persist_original en retained w =
     (let event = rt_event retained in
      case security_tx (persist_body en (sw_manager w) event) w of
        (Inl e, w) \<Rightarrow> (Inl e, w)
      | (Inr False, w) \<Rightarrow> (Inr (), w)
      | (Inr True, w) \<Rightarrow>
          (Inr (), w\<lparr>sw_browser := sw_browser w @ [(sev_server_id event, sev_id event, rt_payload retained)]\<rparr>))"

text \<open>One retained event of a pass: it leaves the queue, or goes to its end.\<close>

definition remove_retained :: "string \<Rightarrow> retained_event list \<Rightarrow> retained_event list" where
  "remove_retained i rs = (case find (\<lambda>r. sev_id (rt_event r) = i) rs of None \<Rightarrow> rs | Some r \<Rightarrow> remove1 r rs)"

definition store_retained :: "('f, 'n) security_env \<Rightarrow> retained_event \<Rightarrow> security_world \<Rightarrow> security_world" where
  "store_retained en original w =
     (case persist_original en original w of
        (Inr _, w) \<Rightarrow> w\<lparr>sw_retained := remove_retained (sev_id (rt_event original)) (sw_retained w)\<rparr>
      | (Inl _, w) \<Rightarrow>
          (case find (\<lambda>r. sev_id (rt_event r) = sev_id (rt_event original)) (sw_retained w) of
             None \<Rightarrow> w
           | Some pending \<Rightarrow>
               w\<lparr>sw_retained := remove_retained (sev_id (rt_event original)) (sw_retained w) @ [pending]\<rparr>))"

section \<open>Choosing what to admit\<close>

definition event_stamp :: "security_event \<Rightarrow> datetime \<times> string" where
  "event_stamp e = (sev_created_at e, sev_id e)"

definition same_event_key :: "security_event \<Rightarrow> security_event \<Rightarrow> bool" where
  "same_event_key a b \<longleftrightarrow> sev_server_id a = sev_server_id b \<and> sev_event_type a = sev_event_type b \<and>
     sev_source_ip a = sev_source_ip b"

definition earlier_original :: "security_event \<Rightarrow> security_event \<Rightarrow> bool" where
  "earlier_original e a \<longleftrightarrow> same_event_key a e \<and> event_stamp a < event_stamp e"

definition stored_events :: "security_tables \<Rightarrow> security_event list" where
  "stored_events db = map snd (sdb_events db)"

definition pending_events :: "security_tables \<Rightarrow> security_event list" where
  "pending_events db = filter (\<lambda>e. sev_admission_payload e \<noteq> None) (stored_events db)"

text \<open>The next \<open>64\<close> of a list of events after a cursor, in order of time and identifier.\<close>

definition page_after :: "(datetime \<times> string) option \<Rightarrow> security_event list \<Rightarrow> security_event list" where
  "page_after cursor es =
     take 64 (sort_key event_stamp
       (filter (\<lambda>e. case cursor of None \<Rightarrow> True | Some c \<Rightarrow> c < event_stamp e) es))"

definition event_heads :: "security_tables \<Rightarrow> security_event list" where
  "event_heads db = filter (\<lambda>e. \<not> list_ex (earlier_original e) (pending_events db)) (pending_events db)"

definition pending_heads :: "(datetime \<times> string) option \<Rightarrow> security_tables \<Rightarrow> security_event list" where
  "pending_heads cursor db = page_after cursor (event_heads db)"

definition pending_push_intents :: "(datetime \<times> string) option \<Rightarrow> security_tables \<Rightarrow> security_event list" where
  "pending_push_intents cursor db = page_after cursor (filter (\<lambda>e. sev_push_intent e \<noteq> None) (stored_events db))"

text \<open>A page after the cursor, or the first one when there is none, and the next cursor.\<close>

definition next_page ::
  "((datetime \<times> string) option \<Rightarrow> security_tables \<Rightarrow> security_event list) \<Rightarrow> (datetime \<times> string) option \<Rightarrow>
   security_world \<Rightarrow> (app_error + security_event list \<times> (datetime \<times> string) option) \<times> security_world" where
  "next_page page cursor w =
     (case security_query (page cursor) w of
        (Inl e, w) \<Rightarrow> (Inl e, w)
      | (Inr es, w) \<Rightarrow>
          (case (if es = [] then security_query (page None) w else (Inr es, w)) of
             (Inl e, w) \<Rightarrow> (Inl e, w)
           | (Inr es, w) \<Rightarrow> (Inr (es, if es = [] then None else Some (event_stamp (last es))), w)))"

definition has_earlier_original :: "retained_event list \<Rightarrow> security_event \<Rightarrow> bool stx" where
  "has_earlier_original retained event =
     (if list_ex (\<lambda>r. earlier_original event (rt_event r)) retained then tx_return True
      else tx_query (\<lambda>db. list_ex (earlier_original event) (pending_events db)))"

section \<open>Rules\<close>

definition default_security_params :: security_rule_params where
  "default_security_params = \<lparr>sp_min_failed_count = None, sp_min_distinct_ports = None, sp_exclude_users = [],
     sp_exclude_cidrs = [], sp_dedupe_window_seconds = 600\<rparr>"

definition ip_in_any_cidr :: "'n block_env \<Rightarrow> string \<Rightarrow> string list \<Rightarrow> bool" where
  "ip_in_any_cidr en ip cidrs =
     (case bn_parse_addr en ip of
        None \<Rightarrow> False
      | Some addr \<Rightarrow>
          list_ex (\<lambda>c. case no_parse (bn_ops en) c of
              Some net \<Rightarrow> no_contains (bn_ops en) net addr
            | None \<Rightarrow> (case bn_parse_addr en c of Some other \<Rightarrow> other = addr | None \<Rightarrow> False)) cidrs)"

definition matches_security_params ::
  "'n block_env \<Rightarrow> 'f alert_rule_item \<Rightarrow> security_rule_params \<Rightarrow> security_payload \<Rightarrow> bool" where
  "matches_security_params en it params payload =
     (case spy_evidence payload of
        SshBruteForceEvidence ev \<Rightarrow>
          ri_rule_type it = ''ssh_brute_force_detected'' \<and>
          (case sp_min_failed_count params of None \<Rightarrow> True | Some n \<Rightarrow> n \<le> bf_failed_count ev)
      | PortScanEvidence ev \<Rightarrow>
          ri_rule_type it = ''port_scan_detected'' \<and>
          (case sp_min_distinct_ports params of None \<Rightarrow> True | Some n \<Rightarrow> n \<le> se_distinct_ports ev)
      | SshLoginEvidence _ \<Rightarrow>
          ri_rule_type it = ''ssh_new_ip_login'' \<and> spy_first_seen payload \<and>
          \<not> (case spy_username payload of None \<Rightarrow> False
              | Some username \<Rightarrow> list_ex (\<lambda>u. eq_ignore_ascii_case u username) (sp_exclude_users params)) \<and>
          \<not> ip_in_any_cidr en (spy_source_ip payload) (sp_exclude_cidrs params))"

text \<open>The item and parameters by which a rule matches an event of a server.\<close>

definition rule_match ::
  "('f, 'n) security_env \<Rightarrow> string \<Rightarrow> security_payload \<Rightarrow> alert_rule \<Rightarrow> security_rule_params option" where
  "rule_match en server_id payload rule =
     (if \<not> rule_covers_server (rk_parse_ids (sx_rules en)) (ru_cover_type rule) (ru_server_ids_json rule) server_id
      then None
      else case find (\<lambda>i. ri_rule_type i \<in> set SECURITY_RULE_TYPES) (items_of (sx_rules en) rule) of
          None \<Rightarrow> None
        | Some it \<Rightarrow>
            if ri_rule_type it \<noteq> event_type_to_rule_type (spy_event_type payload) then None
            else
              let params = (case ri_security it of Some p \<Rightarrow> p | None \<Rightarrow> default_security_params)
              in if matches_security_params (sx_block en) it params payload then Some params else None)"

record matched_rule =
  mr_rule :: alert_rule
  mr_dim :: alert_dim
  mr_state :: alert_state
  mr_should_notify :: bool
  mr_event_time :: datetime

definition match_notifies :: "security_rule_params \<Rightarrow> datetime \<Rightarrow> alert_state option \<Rightarrow> bool" where
  "match_notifies params now previous =
     (case previous of None \<Rightarrow> True
      | Some row \<Rightarrow> st_resolved row \<or> seconds (uint (sp_dedupe_window_seconds params)) \<le> now - st_last_notified_at row)"

definition match_state :: "datetime \<Rightarrow> alert_state option \<Rightarrow> alert_state" where
  "match_state now previous =
     (case previous of
        None \<Rightarrow> \<lparr>st_first_triggered_at = now, st_last_notified_at = now, st_count = 1, st_resolved = False,
          st_resolved_at = None, st_updated_at = now\<rparr>
      | Some row \<Rightarrow>
          \<lparr>st_first_triggered_at = (if st_resolved row then now else st_first_triggered_at row),
           st_last_notified_at = max now (st_last_notified_at row),
           st_count = (if st_resolved row then 1 else saturating_succ_i32 (st_count row)),
           st_resolved = False, st_resolved_at = None, st_updated_at = max now (st_updated_at row)\<rparr>)"

fun evaluate_loop ::
  "('f, 'n) security_env \<Rightarrow> string \<Rightarrow> security_payload \<Rightarrow> datetime \<Rightarrow> alert_rule list \<Rightarrow> (alert_db, matched_rule list) tx" where
  "evaluate_loop en server_id payload now [] = tx_return []"
| "evaluate_loop en server_id payload now (rule # rules) =
     (case rule_match en server_id payload rule of
        None \<Rightarrow> evaluate_loop en server_id payload now rules
      | Some params \<Rightarrow>
          let k = (ru_id rule, server_id, spy_source_ip payload) in
          tx_bind (tx_query (\<lambda>db. tget (adb_states db) k)) (\<lambda>previous.
          let st = match_state now previous in
          tx_bind (tx_exec (set_state k st)) (\<lambda>_.
          tx_bind (evaluate_loop en server_id payload now rules) (\<lambda>ms.
          tx_return (\<lparr>mr_rule = rule, mr_dim = k, mr_state = st,
            mr_should_notify = match_notifies params now previous, mr_event_time = now\<rparr> # ms)))))"

definition evaluate_rules ::
  "('f, 'n) security_env \<Rightarrow> string \<Rightarrow> security_payload \<Rightarrow> datetime \<Rightarrow> bool \<Rightarrow> (alert_db, matched_rule list) tx" where
  "evaluate_rules en server_id payload now in_maintenance =
     (if in_maintenance then tx_return []
      else tx_bind (tx_query (\<lambda>db. filter ru_enabled (adb_rules db))) (evaluate_loop en server_id payload now))"

section \<open>Admission\<close>

definition set_admission :: "string option \<Rightarrow> string option \<Rightarrow> security_event \<Rightarrow> security_tables \<Rightarrow> security_tables" where
  "set_admission payload intent e = put_event (e\<lparr>sev_admission_payload := payload, sev_push_intent := intent\<rparr>)"

definition lock_event :: "string \<Rightarrow> security_event option stx" where
  "lock_event event_id = tx_bind (tx_exec (\<lambda>db. db)) (\<lambda>_. tx_query (\<lambda>db. tget (sdb_events db) event_id))"

text \<open>The decision on a pending event that is next in its key and has its maintenance snapshot.\<close>

definition decide_event ::
  "('f, 'n) security_env \<Rightarrow> security_event \<Rightarrow> string \<Rightarrow> bool \<Rightarrow> datetime \<Rightarrow>
   (security_payload \<times> matched_rule list) stx" where
  "decide_event en event original in_maintenance now =
     (case sx_parse_payload en original of
        None \<Rightarrow> tx_fail (Internal ''Invalid stored security admission'')
      | Some payload \<Rightarrow>
          tx_bind (on_alert (evaluate_rules en (sev_server_id event) payload (sev_created_at event) in_maintenance)) (\<lambda>matched.
          tx_bind (if list_ex mr_should_notify matched
                   then on_push (prepare_security (sx_push en) (sev_id event) (as_secs (sev_created_at event)) now)
                   else tx_return []) (\<lambda>recipients.
          tx_bind (tx_exec (set_admission None
              (if recipients = [] then None else Some (sx_print_recipients en recipients)) event)) (\<lambda>_.
          tx_return (payload, matched)))))"

text \<open>\<open>None\<close>: nothing was decided in this transaction.\<close>

definition admit_event_body ::
  "('f, 'n) security_env \<Rightarrow> agent_manager \<Rightarrow> retained_event list \<Rightarrow> string \<Rightarrow> datetime \<Rightarrow>
   (security_event \<times> security_payload \<times> matched_rule list) option stx" where
  "admit_event_body en am retained event_id now =
     tx_bind (lock_event event_id) (\<lambda>found.
     case found of None \<Rightarrow> tx_return None
     | Some event \<Rightarrow>
         (case sev_admission_payload event of None \<Rightarrow> tx_return None
          | Some original \<Rightarrow>
              tx_bind (authority_valid en am (sev_server_id event) (sev_authority_fingerprint event)) (\<lambda>valid.
              if \<not> valid
              then tx_bind (tx_exec (set_admission None (sev_push_intent event) event)) (\<lambda>_. tx_return None)
              else
                tx_bind (has_earlier_original retained event) (\<lambda>earlier.
                if earlier then tx_return None
                else case sev_maintenance_at_admission event of
                    None \<Rightarrow>
                      tx_bind (tx_query (\<lambda>db. is_in_maintenance_at (sx_rules en) (adb_maintenance (sdb_alert db))
                          (sev_server_id event) (sev_created_at event))) (\<lambda>decision.
                      tx_bind (tx_exec (put_event (event\<lparr>sev_maintenance_at_admission := Some decision\<rparr>))) (\<lambda>_.
                      tx_return None))
                  | Some in_maintenance \<Rightarrow>
                      tx_bind (decide_event en event original in_maintenance now) (\<lambda>(payload, matched).
                      tx_return (Some (event, payload, matched)))))))"

section \<open>Effects\<close>

fun block_actions ::
  "('f, 'n) security_env \<Rightarrow> security_event \<Rightarrow> security_payload \<Rightarrow> alert_rule \<Rightarrow> datetime \<Rightarrow> string list \<Rightarrow> block_action list \<Rightarrow>
   security_world \<Rightarrow> security_world" where
  "block_actions en event payload rule now uuids [] w = w"
| "block_actions en event payload rule now uuids (a # as) w =
     (let m = \<lparr>sm_server_id = sev_server_id event, sm_rule_id = ru_id rule, sm_rule_name = ru_name rule,
            sm_source_ip = spy_source_ip payload, sm_event_type = event_type_to_str (spy_event_type payload),
            sm_severity = severity_to_str (spy_severity payload), sm_event_id = sev_id event\<rparr>;
          (r, fs) = auto_block (sx_block en) m a (case uuids of [] \<Rightarrow> [] | u # _ \<Rightarrow> u) now (sw_manager w) (sw_firewall w)
      in block_actions en event payload rule now (tl uuids) as (w\<lparr>sw_firewall := fs\<rparr>))"

text \<open>
  \<open>dispatch_rule_effects\<close>; \<open>named\<close> says whether the server's name is known already.  When the
  name cannot be read the rest is skipped.
\<close>

fun dispatch_rule_effects ::
  "('f, 'n) security_env \<Rightarrow> security_event \<Rightarrow> security_payload \<Rightarrow> datetime \<Rightarrow> (string \<Rightarrow> string list) \<Rightarrow> bool \<Rightarrow>
   matched_rule list \<Rightarrow> security_world \<Rightarrow> (app_error + unit) \<times> security_world" where
  "dispatch_rule_effects en event payload now uuids named [] w = (Inr (), w)"
| "dispatch_rule_effects en event payload now uuids named (m # ms) w =
     (let rule = mr_rule m;
          w = block_actions en event payload rule now (uuids (ru_id rule)) (actions_of (sx_rules en) rule) w
      in if \<not> mr_should_notify m then dispatch_rule_effects en event payload now uuids named ms w
         else case ru_notification_group_id rule of
             None \<Rightarrow> dispatch_rule_effects en event payload now uuids named ms w
           | Some g \<Rightarrow>
               (case (if named then (Inr (), w) else security_query (\<lambda>_. ()) w) of
                  (Inl e, w) \<Rightarrow> (Inl e, w)
                | (Inr _, w) \<Rightarrow>
                    dispatch_rule_effects en event payload now uuids True ms
                      (w\<lparr>sw_sent := sw_sent w @ [(g, ru_id rule, sev_id event)]\<rparr>)))"

definition publish_matches :: "matched_rule list \<Rightarrow> security_world \<Rightarrow> security_world" where
  "publish_matches ms w =
     w\<lparr>sw_triggered := fold (\<lambda>m. committed_match (mr_dim m) (mr_state m)) ms (sw_triggered w)\<rparr>"

definition admit_original_event ::
  "('f, 'n) security_env \<Rightarrow> string \<Rightarrow> datetime \<Rightarrow> (string \<Rightarrow> string list) \<Rightarrow> security_world \<Rightarrow>
   (app_error + unit) \<times> security_world" where
  "admit_original_event en event_id now uuids w =
     (case security_tx (admit_event_body en (sw_manager w) (sw_retained w) event_id now) w of
        (Inl e, w) \<Rightarrow> (Inl e, w)
      | (Inr None, w) \<Rightarrow> (Inr (), w)
      | (Inr (Some (event, payload, matched)), w) \<Rightarrow>
          (Inr (), snd (dispatch_rule_effects en event payload now uuids False matched (publish_matches matched w))))"

section \<open>Push intents\<close>

definition materialize_body :: "('f, 'n) security_env \<Rightarrow> string \<Rightarrow> datetime \<Rightarrow> string list \<Rightarrow> unit stx" where
  "materialize_body en event_id now nonces =
     tx_bind (lock_event event_id) (\<lambda>found.
     case found of None \<Rightarrow> tx_return ()
     | Some event \<Rightarrow>
         (case sev_push_intent event of None \<Rightarrow> tx_return ()
          | Some intent \<Rightarrow>
              (case sx_parse_recipients en intent of
                 None \<Rightarrow> tx_fail (Internal ''Invalid stored security push intent'')
               | Some recipients \<Rightarrow>
                   tx_bind (on_push (enqueue_security (sx_push en) (sev_server_id event) (sev_id event)
                       (sev_event_type event) (as_secs (sev_created_at event)) now nonces recipients)) (\<lambda>_.
                   tx_exec (set_admission (sev_admission_payload event) None event)))))"

definition materialize_push_intent ::
  "('f, 'n) security_env \<Rightarrow> string \<Rightarrow> datetime \<Rightarrow> string list \<Rightarrow> security_world \<Rightarrow> (app_error + unit) \<times> security_world" where
  "materialize_push_intent en event_id now nonces w = security_tx (materialize_body en event_id now nonces) w"

section \<open>A pass\<close>

text \<open>What a pass draws: the clock, the identifiers of blocks and the nonces, for each event.\<close>

record pass_inputs =
  pi_now :: "string \<Rightarrow> datetime"
  pi_uuids :: "string \<Rightarrow> string \<Rightarrow> string list"
  pi_nonces :: "string \<Rightarrow> string list"

fun admit_each :: "('f, 'n) security_env \<Rightarrow> pass_inputs \<Rightarrow> security_event list \<Rightarrow> app_error option \<Rightarrow> security_world \<Rightarrow>
   app_error option \<times> security_world" where
  "admit_each en inp [] failure w = (failure, w)"
| "admit_each en inp (e # es) failure w =
     (case admit_original_event en (sev_id e) (pi_now inp (sev_id e)) (pi_uuids inp (sev_id e)) w of
        (Inl err, w) \<Rightarrow> admit_each en inp es (Some err) w
      | (Inr _, w) \<Rightarrow> admit_each en inp es failure w)"

fun materialize_each :: "('f, 'n) security_env \<Rightarrow> pass_inputs \<Rightarrow> security_event list \<Rightarrow> app_error option \<Rightarrow> security_world \<Rightarrow>
   app_error option \<times> security_world" where
  "materialize_each en inp [] failure w = (failure, w)"
| "materialize_each en inp (e # es) failure w =
     (case materialize_push_intent en (sev_id e) (pi_now inp (sev_id e)) (pi_nonces inp (sev_id e)) w of
        (Inl err, w) \<Rightarrow> materialize_each en inp es (Some err) w
      | (Inr _, w) \<Rightarrow> materialize_each en inp es failure w)"

definition recover_security :: "('f, 'n) security_env \<Rightarrow> pass_inputs \<Rightarrow> security_world \<Rightarrow> (app_error + unit) \<times> security_world" where
  "recover_security en inp w =
     (let w = fold (store_retained en) (take 64 (sw_retained w)) w in
      case next_page pending_heads (sw_cursor w) w of
        (Inl e, w) \<Rightarrow> (Inl e, w)
      | (Inr (pending, cursor), w) \<Rightarrow>
          (case admit_each en inp pending None (w\<lparr>sw_cursor := cursor\<rparr>) of
             (failure, w) \<Rightarrow>
               (case next_page pending_push_intents (sw_push_cursor w) w of
                  (Inl e, w) \<Rightarrow> (Inl e, w)
                | (Inr (intents, cursor), w) \<Rightarrow>
                    (case materialize_each en inp intents failure (w\<lparr>sw_push_cursor := cursor\<rparr>) of
                       (None, w) \<Rightarrow> (Inr (), w) | (Some e, w) \<Rightarrow> (Inl e, w)))))"

definition record_event ::
  "('f, 'n) security_env \<Rightarrow> pass_inputs \<Rightarrow> string \<Rightarrow> security_payload \<Rightarrow> string \<Rightarrow> datetime \<Rightarrow> security_world \<Rightarrow>
   (app_error + string) \<times> security_world" where
  "record_event en inp server_id payload uuid now w =
     (case original_event en server_id payload uuid now of
        Inl e \<Rightarrow> (Inl e, w)
      | Inr retained \<Rightarrow>
          (case persist_original en retained w of
             (Inl e, w) \<Rightarrow> (Inl e, w)
           | (Inr _, w) \<Rightarrow> (Inr (sev_id (rt_event retained)), snd (recover_security en inp w))))"

text \<open>\<open>cleanup_security_events\<close>: only what is decided and has no intent is deleted.\<close>

definition cleanup_security_events :: "datetime \<Rightarrow> security_tables \<Rightarrow> security_tables" where
  "cleanup_security_events cutoff db =
     db\<lparr>sdb_events := tretain (\<lambda>_ e. \<not> (sev_created_at e < cutoff \<and> sev_admission_payload e = None \<and>
        sev_push_intent e = None)) (sdb_events db)\<rparr>"

end
