(* ===== verification/Security_Admission.thy ===== *)
theory Security_Admission
  imports Security_Events Push_Delivery
begin

text \<open>
  Runs of the security service: events arrive, are stored, admitted and cleaned up in any order and
  with any failing statements, while other services change accounts, rules, connections and blocks.
  Shown: every accepted event is retained, pending or finished, exactly once, and none overtakes an
  earlier one of its server, type and address.
\<close>

section \<open>Effects of the transactions\<close>

lemma run_tx_any:
  assumes "run_tx m (db, fs) = (Inr x, db', fs')"
  obtains fs1 fs2 where "m (db, fs1) = (Inr x, db', fs2)"
  using assms by (auto simp: run_tx_def tx_bind_def tx_query_def tx_statement_def
      split: prod.splits sum.splits list.splits if_splits)

lemma tx_bind_query: "tx_bind (tx_query f) k (db, []) = k (f db) (db, [])"
  by (simp add: tx_bind_def tx_pure)

lemma tx_bind_exec: "tx_bind (tx_exec g) k (db, []) = k () (g db, [])"
  by (simp add: tx_bind_def tx_pure)

lemmas tx_bind_steps = tx_bind_query tx_bind_exec

lemma tx_query_any: "tx_query f (db, fs) = (Inr x, db', fs') \<Longrightarrow> x = f db \<and> db' = db"
  by (auto simp: tx_query_def tx_statement_def split: list.splits if_splits)

lemma tx_exec_any: "tx_exec f (db, fs) = (Inr x, db', fs') \<Longrightarrow> db' = f db"
  by (auto simp: tx_exec_def tx_statement_def split: list.splits if_splits)

lemma tx_query_err: "tx_query f (db, fs) = (Inl e, db', fs') \<Longrightarrow> db' = db"
  by (auto simp: tx_query_def tx_statement_def split: list.splits if_splits)

lemma tx_try_query:
  "tx_try (tx_query f) (db, fs) = (r, db', fs') \<Longrightarrow> db' = db \<and> (\<exists>y. r = Inr y)"
  by (auto simp: tx_try_def split: prod.splits sum.splits dest: tx_query_any tx_query_err)

text \<open>Whether the authority an event was reported under still holds.\<close>

definition authority_holds ::
  "('f, 'n) security_env \<Rightarrow> agent_manager \<Rightarrow> security_tables \<Rightarrow> security_event \<Rightarrow> bool" where
  "authority_holds en am db e \<longleftrightarrow>
     (case sev_authority_fingerprint e of
        None \<Rightarrow> True
      | Some fingerprint \<Rightarrow>
          (case find_server (sev_server_id e) (sdb_core db) of
             None \<Rightarrow> False
           | Some server \<Rightarrow>
               (case sv_token_hash server of None \<Rightarrow> False | Some hash \<Rightarrow> sx_fingerprint en hash = fingerprint) \<and>
               has_capability (effective_capabilities_or (sev_server_id e) (word_of_int (sv_capabilities server)) am)
                 CAP_SECURITY_EVENTS))"

lemma authority_valid_any:
  "authority_valid en am (sev_server_id e) (sev_authority_fingerprint e) (db, fs) = (Inr b, db', fs') \<Longrightarrow>
   b = authority_holds en am db e \<and> db' = db"
  by (auto simp: authority_valid_def authority_holds_def Let_def tx_return_def tx_bind_def
      split: option.splits prod.splits sum.splits dest!: tx_query_any)

lemma authority_valid_pure:
  "authority_valid en am (sev_server_id e) (sev_authority_fingerprint e) (db, []) =
   (Inr (authority_holds en am db e), db, [])"
  by (simp add: authority_valid_def authority_holds_def Let_def tx_bind_def tx_pure split: option.split)

lemma tx_bind_authority:
  "tx_bind (authority_valid en am (sev_server_id e) (sev_authority_fingerprint e)) k (db, []) =
   k (authority_holds en am db e) (db, [])"
  by (simp add: tx_bind_def authority_valid_pure)

lemma tx_bind_lock: "tx_bind (lock_event i) k (db, []) = k (tget (sdb_events db) i) (db, [])"
  by (simp add: lock_event_def tx_bind_def tx_pure)

lemma persist_effect:
  assumes "persist_body en am e (db, fs) = (Inr b, db', fs')"
  shows "\<not> b \<and> \<not> authority_holds en am db e \<and> db' = db \<or>
    b \<and> authority_holds en am db e \<and>
      (tget (sdb_events db) (sev_id e) \<noteq> None \<and> db' = db \<or>
       tget (sdb_events db) (sev_id e) = None \<and> (\<exists>m. db' = put_event (e\<lparr>sev_maintenance_at_admission := m\<rparr>) db))"
proof -
  from assms obtain v where rest: "(if \<not> authority_holds en am db e then tx_return False
       else tx_bind (tx_query (\<lambda>db. tget (sdb_events db) (sev_id e))) (\<lambda>known.
       if known \<noteq> None then tx_return True
       else
         tx_bind (tx_try (tx_query (\<lambda>db. is_in_maintenance_at (sx_rules en) (adb_maintenance (sdb_alert db))
             (sev_server_id e) (sev_created_at e)))) (\<lambda>maintenance.
         tx_bind (tx_exec (put_event (e\<lparr>sev_maintenance_at_admission := maintenance\<rparr>))) (\<lambda>_.
         tx_return True)))) (db, v) = (Inr b, db', fs')"
    unfolding persist_body_def
    by (elim tx_bind_success) (auto dest!: tx_exec_any authority_valid_any)
  show ?thesis
  proof (cases "authority_holds en am db e")
    case False
    with rest show ?thesis by (simp add: tx_return_def)
  next
    case True
    with rest obtain fs1 where "(if tget (sdb_events db) (sev_id e) \<noteq> None then tx_return True
       else
         tx_bind (tx_try (tx_query (\<lambda>db. is_in_maintenance_at (sx_rules en) (adb_maintenance (sdb_alert db))
             (sev_server_id e) (sev_created_at e)))) (\<lambda>maintenance.
         tx_bind (tx_exec (put_event (e\<lparr>sev_maintenance_at_admission := maintenance\<rparr>))) (\<lambda>_.
         tx_return True))) (db, fs1) = (Inr b, db', fs')"
      by (auto elim!: tx_bind_success dest!: tx_query_any)
    with True show ?thesis
      by (auto simp: tx_return_def elim!: tx_bind_success split: if_splits dest!: tx_try_query tx_exec_any)
  qed
qed

lemma fault_blind_authority [fault_blind_intros]: "fault_blind (authority_valid en am sid expected)"
  unfolding authority_valid_def Let_def by (intro fault_blind_intros)

lemma fault_blind_lock_event [fault_blind_intros]: "fault_blind (lock_event i)"
  unfolding lock_event_def by (intro fault_blind_intros)

lemma fault_blind_evaluate_loop [fault_blind_intros]: "fault_blind (evaluate_loop en sid payload now rules)"
proof (induction rules)
  case Nil
  show ?case by (simp add: fault_blind_intros)
next
  case (Cons r rules)
  show ?case unfolding evaluate_loop.simps Let_def by (intro fault_blind_intros Cons.IH)
qed

lemma fault_blind_evaluate_rules [fault_blind_intros]: "fault_blind (evaluate_rules en sid payload now maintained)"
  unfolding evaluate_rules_def by (intro fault_blind_intros)

lemma fault_blind_prepare_rows [fault_blind_intros]: "fault_blind (prepare_rows en event_id created now rows)"
proof (induction rows)
  case Nil
  show ?case by (simp add: fault_blind_intros)
next
  case (Cons r rows)
  show ?case unfolding prepare_rows.simps Let_def by (intro fault_blind_intros Cons.IH)
qed

lemma fault_blind_prepare [fault_blind_intros]: "fault_blind (prepare_security en event_id created now)"
  unfolding prepare_security_def by (intro fault_blind_intros)

lemma fault_blind_earlier [fault_blind_intros]: "fault_blind (has_earlier_original retained event)"
  unfolding has_earlier_original_def by (intro fault_blind_intros)

lemma fault_blind_decide [fault_blind_intros]: "fault_blind (decide_event en event original maintained now)"
  unfolding decide_event_def by (intro fault_blind_intros)

lemma fault_blind_admit [fault_blind_intros]: "fault_blind (admit_event_body en am retained i now)"
  unfolding admit_event_body_def by (intro fault_blind_intros)

lemma fault_blind_materialize [fault_blind_intros]: "fault_blind (materialize_body en i now nonces)"
  unfolding materialize_body_def by (intro fault_blind_intros)

lemma prepare_rows_pure: "prepare_rows en event_id created now rows (db, []) = (Inr rs, s) \<Longrightarrow> s = (db, [])"
  by (induction rows arbitrary: rs)
    (auto simp: Let_def eligible_def tx_simps elim!: tx_bind_success split: if_splits)

lemma prepare_pure: "prepare_security en event_id created now (db, []) = (Inr rs, s) \<Longrightarrow> s = (db, [])"
  by (auto simp: prepare_security_def tx_simps elim!: tx_bind_success dest: prepare_rows_pure)

text \<open>No event of its key is before it, in the queue or pending.\<close>

definition next_in_key :: "retained_event list \<Rightarrow> security_tables \<Rightarrow> security_event \<Rightarrow> bool" where
  "next_in_key retained db e \<longleftrightarrow>
     (\<forall>r\<in>set retained. \<not> earlier_original e (rt_event r)) \<and> (\<forall>a\<in>set (pending_events db). \<not> earlier_original e a)"

lemma has_earlier_pure:
  "has_earlier_original retained e (db, []) = (Inr (\<not> next_in_key retained db e), db, [])"
  by (auto simp: has_earlier_original_def next_in_key_def tx_pure list_ex_iff)

lemma tx_bind_earlier:
  "tx_bind (has_earlier_original retained e) k (db, []) = k (\<not> next_in_key retained db e) (db, [])"
  by (simp add: tx_bind_def has_earlier_pure)

text \<open>The tables after a decision: the states of the matched rules, and the event with its intent.\<close>

definition decided_tables ::
  "('f, 'n) security_env \<Rightarrow> security_event \<Rightarrow> alert_db \<Rightarrow> security_push_recipient list \<Rightarrow> security_tables \<Rightarrow> security_tables" where
  "decided_tables en e adb rs db =
     set_admission None (if rs = [] then None else Some (sx_print_recipients en rs)) e (db\<lparr>sdb_alert := adb\<rparr>)"

definition decision ::
  "('f, 'n) security_env \<Rightarrow> security_tables \<Rightarrow> security_event \<Rightarrow> security_payload \<Rightarrow> matched_rule list \<Rightarrow> security_tables \<Rightarrow> bool" where
  "decision en db e payload matched db' \<longleftrightarrow>
     (\<exists>original maintained adb rs. sev_admission_payload e = Some original \<and>
        sx_parse_payload en original = Some payload \<and> sev_maintenance_at_admission e = Some maintained \<and>
        evaluate_rules en (sev_server_id e) payload (sev_created_at e) maintained (sdb_alert db, []) = (Inr matched, adb, []) \<and>
        (\<not> list_ex mr_should_notify matched \<longrightarrow> rs = []) \<and> db' = decided_tables en e adb rs db)"

lemma on_alert_pure:
  "tx_at sdb_alert (\<lambda>d s. s\<lparr>sdb_alert := d\<rparr>) m (db, []) = (Inr x, db', fs') \<Longrightarrow>
   m (sdb_alert db, []) = (Inr x, sdb_alert db', fs') \<and> db' = db\<lparr>sdb_alert := sdb_alert db'\<rparr>"
  by (auto simp: tx_at_def split: prod.splits)

lemma on_push_prepare:
  "tx_at sdb_push (\<lambda>d s. s\<lparr>sdb_push := d\<rparr>) (prepare_security en i created now) (db, []) = (Inr rs, db', fs') \<Longrightarrow>
   db' = db \<and> fs' = []"
  by (auto simp: tx_at_def split: prod.splits dest: prepare_pure)

lemma evaluate_loop_no_faults:
  "evaluate_loop en sid payload now rules (db, []) = (Inr ms, db', fs) \<Longrightarrow> fs = []"
  by (induction rules arbitrary: ms db)
    (auto simp: tx_simps Let_def elim!: tx_bind_success split: option.splits)

lemma evaluate_no_faults: "evaluate_rules en sid payload now b (db, []) = (Inr ms, db', fs) \<Longrightarrow> fs = []"
  by (auto simp: evaluate_rules_def tx_simps elim!: tx_bind_success dest: evaluate_loop_no_faults split: if_splits)

lemma decide_effect:
  assumes "decide_event en e original maintained now (db, []) = (Inr (payload, matched), db', fs')"
    and "sev_admission_payload e = Some original" "sev_maintenance_at_admission e = Some maintained"
  shows "decision en db e payload matched db'"
proof (cases "sx_parse_payload en original")
  case None
  with assms(1) show ?thesis by (simp add: decide_event_def tx_simps)
next
  case (Some p)
  let ?ev = "on_alert (evaluate_rules en (sev_server_id e) p (sev_created_at e) maintained)"
  let ?prep = "\<lambda>ms. if list_ex mr_should_notify ms
      then on_push (prepare_security (sx_push en) (sev_id e) (as_secs (sev_created_at e)) now) else tx_return []"
  let ?mark = "\<lambda>ms rs. tx_bind (tx_exec (set_admission None (if rs = [] then None else Some (sx_print_recipients en rs)) e))
      (\<lambda>_. tx_return (p, ms))"
  from assms(1) Some have "tx_bind ?ev (\<lambda>ms. tx_bind (?prep ms) (?mark ms)) (db, []) = (Inr (payload, matched), db', fs')"
    by (simp add: decide_event_def)
  then obtain ms s1 where ev0: "?ev (db, []) = (Inr ms, s1)"
    and rest: "tx_bind (?prep ms) (?mark ms) s1 = (Inr (payload, matched), db', fs')" by (rule tx_bind_success)
  obtain db1 fs1 where s1: "s1 = (db1, fs1)" by (cases s1)
  note ev = on_alert_pure [OF ev0 [unfolded s1], THEN conjunct1]
  note upd = on_alert_pure [OF ev0 [unfolded s1], THEN conjunct2]
  have fs1: "fs1 = []" using evaluate_no_faults [OF ev] .
  from rest [unfolded s1 fs1] obtain rs s2 where prep: "?prep ms (db1, []) = (Inr rs, s2)"
    and tail': "?mark ms rs s2 = (Inr (payload, matched), db', fs')" by (rule tx_bind_success)
  have s2: "s2 = (db1, []) \<and> (\<not> list_ex mr_should_notify ms \<longrightarrow> rs = [])"
  proof (cases "list_ex mr_should_notify ms")
    case True
    obtain d f where s2: "s2 = (d, f)" by (cases s2)
    from prep True s2 have "on_push (prepare_security (sx_push en) (sev_id e) (as_secs (sev_created_at e)) now) (db1, []) =
        (Inr rs, d, f)" by simp
    from on_push_prepare [OF this] True s2 show ?thesis by simp
  next
    case False
    with prep show ?thesis by (simp add: tx_simps)
  qed
  from tail' [unfolded s2 [THEN conjunct1]] have db': "db' = set_admission None (if rs = [] then None else Some (sx_print_recipients en rs)) e db1"
    "payload = p" "ms = matched"
    by (auto simp: tx_simps elim!: tx_bind_success)
  have "evaluate_rules en (sev_server_id e) p (sev_created_at e) maintained (sdb_alert db, []) = (Inr matched, sdb_alert db1, [])"
    using ev fs1 db'(3) by simp
  moreover note upd
  moreover have "\<not> list_ex mr_should_notify matched \<Longrightarrow> rs = []" using s2 db'(3) by simp
  ultimately show ?thesis
    using Some assms(2,3) db' unfolding decision_def decided_tables_def by metis
qed

definition refused :: "('f, 'n) security_env \<Rightarrow> agent_manager \<Rightarrow> security_tables \<Rightarrow> security_event \<Rightarrow> security_tables \<Rightarrow> bool" where
  "refused en am db e db' \<longleftrightarrow> sev_admission_payload e \<noteq> None \<and> \<not> authority_holds en am db e \<and>
     db' = set_admission None (sev_push_intent e) e db"

lemma admit_effect:
  assumes run: "admit_event_body en am retained i now (db, []) = (Inr r, db', fs')"
  shows "r = None \<and> db' = db \<or>
    (\<exists>e. tget (sdb_events db) i = Some e \<and>
      (r = None \<and> refused en am db e db' \<or>
       r = None \<and> sev_admission_payload e \<noteq> None \<and> (\<exists>d. db' = put_event (e\<lparr>sev_maintenance_at_admission := Some d\<rparr>) db) \<or>
       (\<exists>payload matched. r = Some (e, payload, matched) \<and> authority_holds en am db e \<and> next_in_key retained db e \<and>
          decision en db e payload matched db')))"
proof (cases "tget (sdb_events db) i")
  case None
  with run show ?thesis by (simp add: admit_event_body_def lock_event_def tx_bind_def tx_pure)
next
  case (Some e)
  note found = Some
  show ?thesis
  proof (cases "sev_admission_payload e")
    case None
    with found run show ?thesis by (simp add: admit_event_body_def lock_event_def tx_bind_def tx_pure)
  next
    case (Some original)
    note payload = Some
    have run1: "(if \<not> authority_holds en am db e
        then tx_bind (tx_exec (set_admission None (sev_push_intent e) e)) (\<lambda>_. tx_return None)
        else tx_bind (has_earlier_original retained e) (\<lambda>earlier.
          if earlier then tx_return None
          else case sev_maintenance_at_admission e of
              None \<Rightarrow>
                tx_bind (tx_query (\<lambda>db. is_in_maintenance_at (sx_rules en) (adb_maintenance (sdb_alert db))
                    (sev_server_id e) (sev_created_at e))) (\<lambda>decision.
                tx_bind (tx_exec (put_event (e\<lparr>sev_maintenance_at_admission := Some decision\<rparr>))) (\<lambda>_. tx_return None))
            | Some in_maintenance \<Rightarrow>
                tx_bind (decide_event en e original in_maintenance now) (\<lambda>(payload, matched).
                tx_return (Some (e, payload, matched))))) (db, []) = (Inr r, db', fs')"
      using run found payload
      by (simp add: admit_event_body_def tx_bind_steps tx_bind_lock tx_bind_authority)
    show ?thesis
    proof (cases "authority_holds en am db e \<and> next_in_key retained db e")
      case False
      with run1 found payload show ?thesis
        by (auto simp: refused_def tx_bind_steps tx_bind_earlier tx_pure split: if_splits)
    next
      case True
      note ok = True
      show ?thesis
      proof (cases "sev_maintenance_at_admission e")
        case None
        let ?d = "is_in_maintenance_at (sx_rules en) (adb_maintenance (sdb_alert db)) (sev_server_id e) (sev_created_at e)"
        from None run1 ok have "r = None" "db' = put_event (e\<lparr>sev_maintenance_at_admission := Some ?d\<rparr>) db"
          by (auto simp: tx_bind_steps tx_bind_earlier tx_simps)
        with found payload show ?thesis by auto
      next
        case (Some maintained)
        with run1 ok have "tx_bind (decide_event en e original maintained now) (\<lambda>(payload, matched).
                tx_return (Some (e, payload, matched))) (db, []) = (Inr r, db', fs')"
          by (simp add: tx_bind_earlier)
        then obtain pm s1 where d: "decide_event en e original maintained now (db, []) = (Inr pm, s1)"
          and tail': "(case pm of (payload, matched) \<Rightarrow> tx_return (Some (e, payload, matched))) s1 = (Inr r, db', fs')"
          by (rule tx_bind_success)
        obtain payload' matched where pm: "pm = (payload', matched)" by (cases pm)
        with tail' have r: "r = Some (e, payload', matched)" "s1 = (db', fs')" by (simp_all add: tx_simps)
        from decide_effect [OF d [unfolded pm r(2)] payload Some] r(1) ok found show ?thesis by blast
      qed
    qed
  qed
qed

section \<open>Runs\<close>

datatype security_label =
    Accepted security_event
  | Refused string
  | Decided security_event security_payload "matched_rule list"
  | Quiet

definition rule_ids :: "security_world \<Rightarrow> string set" where
  "rule_ids w = ru_id ` set (adb_rules (sdb_alert (sw_db w)))"

definition rules_ok :: "security_world \<Rightarrow> bool" where
  "rules_ok w \<longleftrightarrow> distinct (map ru_id (adb_rules (sdb_alert (sw_db w))))"

text \<open>
  Changes by other services: everything but the events, their queue and, as long as its rule exists,
  the state of a source address (deleting a rule deletes its states).  The states of a deleted server
  are purged too; that is left out, as its identifier is not used again.
\<close>

definition others_change :: "security_world \<Rightarrow> security_world \<Rightarrow> bool" where
  "others_change w w' \<longleftrightarrow>
     sdb_events (sw_db w') = sdb_events (sw_db w) \<and> sw_retained w' = sw_retained w \<and> rules_ok w' \<and>
     (\<forall>rule sid ip. ip \<noteq> '''' \<and> rule \<in> rule_ids w' \<longrightarrow> tget (adb_states (sdb_alert (sw_db w'))) (rule, sid, ip) =
        tget (adb_states (sdb_alert (sw_db w))) (rule, sid, ip))"

definition event_pending :: "security_tables \<Rightarrow> string \<Rightarrow> bool" where
  "event_pending db i \<longleftrightarrow> (case tget (sdb_events db) i of None \<Rightarrow> False | Some e \<Rightarrow> sev_admission_payload e \<noteq> None)"

definition event_retained :: "security_world \<Rightarrow> string \<Rightarrow> bool" where
  "event_retained w i \<longleftrightarrow> i \<in> (\<lambda>r. sev_id (rt_event r)) ` set (sw_retained w)"

text \<open>An event that was waiting and is not any more, without a decision, was refused.\<close>

definition refusal :: "security_world \<Rightarrow> security_world \<Rightarrow> string \<Rightarrow> security_label" where
  "refusal w w' i =
     (if (event_retained w i \<or> event_pending (sw_db w) i) \<and> \<not> event_retained w' i \<and> \<not> event_pending (sw_db w') i
      then Refused i else Quiet)"

definition admission_label :: "('f, 'n) security_env \<Rightarrow> string \<Rightarrow> datetime \<Rightarrow> security_world \<Rightarrow> security_world \<Rightarrow> security_label" where
  "admission_label en i now w w' =
     (case fst (security_tx (admit_event_body en (sw_manager w) (sw_retained w) i now) w) of
        Inr (Some (e, payload, matched)) \<Rightarrow> Decided e payload matched
      | _ \<Rightarrow> refusal w w' i)"

inductive security_step :: "('f, 'n) security_env \<Rightarrow> security_world \<Rightarrow> security_label \<Rightarrow> security_world \<Rightarrow> bool" for en where
  SecRetain: "retain_agent_event en server_id payload uuid now w = (Inr (), w') \<Longrightarrow>
     sw_retained w' = sw_retained w @ [r] \<Longrightarrow> security_step en w (Accepted (rt_event r)) w'"
| SecRecord: "original_event en server_id payload uuid now = Inr r \<Longrightarrow> persist_original en r w = (Inr (), w') \<Longrightarrow>
     security_step en w (Accepted (rt_event r)) w'"
| SecRecordFails: "original_event en server_id payload uuid now = Inr r \<Longrightarrow> persist_original en r w = (Inl e, w') \<Longrightarrow>
     security_step en w Quiet w'"
| SecStore: "r \<in> set (sw_retained w) \<Longrightarrow> w' = store_retained en r w \<Longrightarrow>
     security_step en w (refusal w w' (sev_id (rt_event r))) w'"
| SecAdmit: "admit_original_event en i now uuids w = (q, w') \<Longrightarrow>
     security_step en w (admission_label en i now w w') w'"
| SecMaterialize: "materialize_push_intent en i now nonces w = (q, w') \<Longrightarrow> security_step en w Quiet w'"
| SecCleanup: "security_step en w Quiet (w\<lparr>sw_db := cleanup_security_events cutoff (sw_db w)\<rparr>)"
| SecOthers: "others_change w w' \<Longrightarrow> security_step en w Quiet w'"

fun accepted :: "security_label list \<Rightarrow> security_event list" where
  "accepted [] = []"
| "accepted (Accepted e # ls) = e # accepted ls"
| "accepted (_ # ls) = accepted ls"

fun finished :: "security_label list \<Rightarrow> string list" where
  "finished [] = []"
| "finished (Refused i # ls) = i # finished ls"
| "finished (Decided e _ _ # ls) = sev_id e # finished ls"
| "finished (_ # ls) = finished ls"

definition security_start :: "security_world \<Rightarrow> bool" where
  "security_start w \<longleftrightarrow> sdb_events (sw_db w) = [] \<and> sw_retained w = [] \<and> rules_ok w"

text \<open>The rules that took part in decisions.\<close>

fun decided_rules :: "security_label list \<Rightarrow> string set" where
  "decided_rules [] = {}"
| "decided_rules (Decided _ _ ms # ls) = (\<lambda>m. fst (mr_dim m)) ` set ms \<union> decided_rules ls"
| "decided_rules (_ # ls) = decided_rules ls"

text \<open>A run with its labels; identifiers of events and of rules are new.\<close>

inductive security_run :: "('f, 'n) security_env \<Rightarrow> security_world \<Rightarrow> security_label list \<Rightarrow> security_world \<Rightarrow> bool" for en where
  RunStart: "security_start w \<Longrightarrow> security_run en w [] w"
| RunStep: "security_run en w0 ls w \<Longrightarrow> security_step en w l w' \<Longrightarrow>
     (\<forall>e. l = Accepted e \<longrightarrow> sev_id e \<notin> sev_id ` set (accepted ls)) \<Longrightarrow>
     (rule_ids w' - rule_ids w) \<inter> decided_rules ls = {} \<Longrightarrow> security_run en w0 (ls @ [l]) w'"

lemma accepted_append [simp]: "accepted (ls @ ls') = accepted ls @ accepted ls'"
  by (induction ls rule: accepted.induct) simp_all

lemma finished_append [simp]: "finished (ls @ ls') = finished ls @ finished ls'"
  by (induction ls rule: finished.induct) simp_all

lemma decided_rules_append [simp]: "decided_rules (ls @ ls') = decided_rules ls \<union> decided_rules ls'"
  by (induction ls rule: decided_rules.induct) auto

section \<open>What a step changes\<close>

lemma security_tx_cases:
  assumes "security_tx m w = (q, w')"
  shows "w' = w\<lparr>sw_db := sw_db w', sw_faults := sw_faults w'\<rparr> \<and>
    (\<forall>e. q = Inl e \<longrightarrow> sw_db w' = sw_db w) \<and>
    (\<forall>x. q = Inr x \<longrightarrow> (\<exists>fs1 fs2. m (sw_db w, fs1) = (Inr x, sw_db w', fs2)) \<and>
       (fault_blind m \<longrightarrow> m (sw_db w, []) = (Inr x, sw_db w', [])))"
proof -
  obtain r db fs where run: "run_tx m (sw_db w, sw_faults w) = (r, db, fs)" by (cases "run_tx m (sw_db w, sw_faults w)")
  with assms have q: "q = r" "w' = w\<lparr>sw_db := db, sw_faults := fs\<rparr>" by (simp_all add: security_tx_def)
  have "\<exists>fs1 fs2. m (sw_db w, fs1) = (Inr x, db, fs2)" if "r = Inr x" for x
  proof -
    from run that have "run_tx m (sw_db w, sw_faults w) = (Inr x, db, fs)" by simp
    then obtain fs1 fs2 where "m (sw_db w, fs1) = (Inr x, db, fs2)" by (rule run_tx_any)
    then show ?thesis by blast
  qed
  moreover have "m (sw_db w, []) = (Inr x, db, [])" if "r = Inr x" "fault_blind m" for x
    using run_tx_success [of m "sw_db w" "sw_faults w" x db fs] run that by simp
  moreover have "db = sw_db w" if "r = Inl e" for e
    using run_tx_error [of m "sw_db w" "sw_faults w" e db fs] run that by simp
  ultimately show ?thesis using q by simp
qed

lemma persist_cases:
  assumes "persist_original en r w = (q, w')"
  shows "sw_retained w' = sw_retained w \<and>
    (case q of
       Inl e \<Rightarrow> sw_db w' = sw_db w
     | Inr _ \<Rightarrow>
         sw_db w' = sw_db w \<and>
           (\<not> authority_holds en (sw_manager w) (sw_db w) (rt_event r) \<or> tget (sdb_events (sw_db w)) (sev_id (rt_event r)) \<noteq> None) \<or>
         authority_holds en (sw_manager w) (sw_db w) (rt_event r) \<and> tget (sdb_events (sw_db w)) (sev_id (rt_event r)) = None \<and>
           (\<exists>m. sw_db w' = put_event ((rt_event r)\<lparr>sev_maintenance_at_admission := m\<rparr>) (sw_db w)))"
proof -
  let ?m = "persist_body en (sw_manager w) (rt_event r)"
  obtain p w1 where tx: "security_tx ?m w = (p, w1)" by (cases "security_tx ?m w")
  note facts = security_tx_cases [OF tx]
  from facts have ret: "sw_retained w1 = sw_retained w" by (metis security_world.select_convs(3) security_world.surjective security_world.update_convs(1) security_world.update_convs(2))
  show ?thesis
  proof (cases p)
    case (Inl e)
    with assms tx have "q = Inl e" "w' = w1" by (auto simp: persist_original_def Let_def)
    with Inl ret facts show ?thesis by simp
  next
    case (Inr b)
    with facts obtain fs1 fs2 where "?m (sw_db w, fs1) = (Inr b, sw_db w1, fs2)" by blast
    from persist_effect [OF this] have eff: "sw_db w1 = sw_db w \<and>
           (\<not> authority_holds en (sw_manager w) (sw_db w) (rt_event r) \<or> tget (sdb_events (sw_db w)) (sev_id (rt_event r)) \<noteq> None) \<or>
         authority_holds en (sw_manager w) (sw_db w) (rt_event r) \<and> tget (sdb_events (sw_db w)) (sev_id (rt_event r)) = None \<and>
           (\<exists>m. sw_db w1 = put_event ((rt_event r)\<lparr>sev_maintenance_at_admission := m\<rparr>) (sw_db w))" by blast
    from assms tx Inr ret have "q = Inr ()" "sw_db w' = sw_db w1" "sw_retained w' = sw_retained w"
      by (cases b; auto simp: persist_original_def Let_def)+
    with eff show ?thesis by simp
  qed
qed

lemma block_actions_keeps [simp]:
  "sw_db (block_actions en e p rule now uuids as w) = sw_db w"
  "sw_retained (block_actions en e p rule now uuids as w) = sw_retained w"
  by (induction en e p rule now uuids as w rule: block_actions.induct) (simp_all add: Let_def split: prod.split)

lemma security_query_keeps:
  "security_query f w = (r, w') \<Longrightarrow> sw_db w' = sw_db w \<and> sw_retained w' = sw_retained w"
  by (auto simp: security_query_def split: prod.splits)

lemma dispatch_keeps:
  "dispatch_rule_effects en e p now uuids named ms w = (r, w') \<Longrightarrow> sw_db w' = sw_db w \<and> sw_retained w' = sw_retained w"
proof (induction ms arbitrary: named w)
  case Nil
  then show ?case by simp
next
  case (Cons m ms)
  then show ?case
    by (fastforce simp: Let_def split: if_splits option.splits sum.splits prod.splits dest: security_query_keeps)
qed

lemma publish_keeps [simp]: "sw_db (publish_matches ms w) = sw_db w" "sw_retained (publish_matches ms w) = sw_retained w"
  by (simp_all add: publish_matches_def)

text \<open>An admission: the tables stay, or one pending event changes.\<close>

lemma admit_cases:
  assumes "admit_original_event en i now uuids w = (q, w')"
  shows "sw_retained w' = sw_retained w \<and>
    (sw_db w' = sw_db w \<and> admission_label en i now w w' = refusal w w' i \<or>
     (\<exists>e. tget (sdb_events (sw_db w)) i = Some e \<and>
       (refused en (sw_manager w) (sw_db w) e (sw_db w') \<and> admission_label en i now w w' = refusal w w' i \<or>
        sev_admission_payload e \<noteq> None \<and> admission_label en i now w w' = refusal w w' i \<and>
          (\<exists>d. sw_db w' = put_event (e\<lparr>sev_maintenance_at_admission := Some d\<rparr>) (sw_db w)) \<or>
        (\<exists>payload matched. admission_label en i now w w' = Decided e payload matched \<and>
          authority_holds en (sw_manager w) (sw_db w) e \<and> next_in_key (sw_retained w) (sw_db w) e \<and>
          decision en (sw_db w) e payload matched (sw_db w')))))"
proof -
  let ?m = "admit_event_body en (sw_manager w) (sw_retained w) i now"
  obtain p w1 where tx: "security_tx ?m w = (p, w1)" by (cases "security_tx ?m w")
  note facts = security_tx_cases [OF tx]
  from facts have ret: "sw_retained w1 = sw_retained w" by (metis security_world.select_convs(3) security_world.surjective security_world.update_convs(1) security_world.update_convs(2))
  show ?thesis
  proof (cases p)
    case (Inl e)
    with assms tx ret facts show ?thesis by (simp add: admit_original_event_def admission_label_def)
  next
    case (Inr r)
    with facts fault_blind_admit have "?m (sw_db w, []) = (Inr r, sw_db w1, [])" by blast
    note eff = admit_effect [OF this]
    show ?thesis
    proof (cases r)
      case None
      with assms tx Inr have "w' = w1" by (simp add: admit_original_event_def)
      moreover have "admission_label en i now w w' = refusal w w' i" using tx Inr None by (simp add: admission_label_def)
      ultimately show ?thesis using eff None ret by auto
    next
      case (Some x)
      obtain e payload matched where x: "x = (e, payload, matched)" by (cases x)
      have "sw_db w' = sw_db w1 \<and> sw_retained w' = sw_retained w1"
        using assms tx Inr Some x dispatch_keeps [of en e payload now uuids False matched "publish_matches matched w1"]
        by (auto simp: admit_original_event_def) (metis prod.collapse)+
      moreover have "admission_label en i now w w' = Decided e payload matched"
        using tx Inr Some x by (simp add: admission_label_def)
      ultimately show ?thesis using eff Some x ret by auto
    qed
  qed
qed

end
