(* ===== verification/Security_Queue.thy ===== *)
theory Security_Queue
  imports Security_Admission
begin

text \<open>
  The events of the security service as one queue: what waits, retained or pending, is a set of
  keys and times.  Every step changes this set as \<open>queue_change\<close> says, and from it follow the
  accounting of the accepted events and the order of the decisions.
\<close>

section \<open>The queue\<close>

text \<open>What of an event never changes: identifier, server, type, address, time.\<close>

type_synonym event_core = "string \<times> string \<times> string \<times> string \<times> datetime"

definition event_core :: "security_event \<Rightarrow> event_core" where
  "event_core e = (sev_id e, sev_server_id e, sev_event_type e, sev_source_ip e, sev_created_at e)"

fun core_before :: "event_core \<Rightarrow> event_core \<Rightarrow> bool" where
  "core_before (i, s, t, ip, at) (i', s', t', ip', at') \<longleftrightarrow> s = s' \<and> t = t' \<and> ip = ip' \<and> (at, i) < (at', i')"

lemma earlier_core: "earlier_original e a \<longleftrightarrow> core_before (event_core a) (event_core e)"
  by (simp add: earlier_original_def same_event_key_def event_stamp_def event_core_def)

lemma fst_event_core [simp]: "fst (event_core e) = sev_id e"
  by (simp add: event_core_def)

lemma event_core_update [simp]:
  "event_core (e\<lparr>sev_admission_payload := p\<rparr>) = event_core e"
  "event_core (e\<lparr>sev_push_intent := q\<rparr>) = event_core e"
  "event_core (e\<lparr>sev_maintenance_at_admission := m\<rparr>) = event_core e"
  by (simp_all add: event_core_def)

definition waiting :: "security_world \<Rightarrow> event_core set" where
  "waiting w = event_core ` (rt_event ` set (sw_retained w) \<union> set (pending_events (sw_db w)))"

fun queue_change :: "event_core set \<Rightarrow> security_label \<Rightarrow> event_core set \<Rightarrow> bool" where
  "queue_change W (Accepted e) W' \<longleftrightarrow> W' = insert (event_core e) W"
| "queue_change W (Refused i) W' \<longleftrightarrow> i \<in> fst ` W \<and> W' = {c\<in>W. fst c \<noteq> i}"
| "queue_change W (Decided e _ _) W' \<longleftrightarrow>
     event_core e \<in> W \<and> (\<forall>c\<in>W. \<not> core_before c (event_core e)) \<and> W' = {c\<in>W. fst c \<noteq> sev_id e}"
| "queue_change W Quiet W' \<longleftrightarrow> W' = W"

section \<open>Well-formed queues\<close>

definition events_ok :: "security_tables \<Rightarrow> bool" where
  "events_ok db \<longleftrightarrow> table_ok (sdb_events db) \<and> (\<forall>i e. tget (sdb_events db) i = Some e \<longrightarrow> sev_id e = i)"

definition queue_ok :: "security_world \<Rightarrow> bool" where
  "queue_ok w \<longleftrightarrow> events_ok (sw_db w) \<and> distinct (map (\<lambda>r. sev_id (rt_event r)) (sw_retained w)) \<and>
     (\<forall>r\<in>set (sw_retained w). sev_admission_payload (rt_event r) \<noteq> None \<and>
        tget (sdb_events (sw_db w)) (sev_id (rt_event r)) = None)"

definition known_ids :: "security_world \<Rightarrow> string set" where
  "known_ids w = {i. tget (sdb_events (sw_db w)) i \<noteq> None} \<union> (\<lambda>r. sev_id (rt_event r)) ` set (sw_retained w)"

lemma events_okD: "events_ok db \<Longrightarrow> tget (sdb_events db) i = Some e \<Longrightarrow> sev_id e = i"
  by (simp add: events_ok_def)

lemma pending_iff:
  assumes "events_ok db"
  shows "e \<in> set (pending_events db) \<longleftrightarrow> tget (sdb_events db) (sev_id e) = Some e \<and> sev_admission_payload e \<noteq> None"
proof -
  have in_table: "(k, e) \<in> set (sdb_events db) \<longleftrightarrow> tget (sdb_events db) k = Some e" for k
    using assms by (simp add: events_ok_def tget_in_set)
  have "e \<in> snd ` set (sdb_events db) \<longleftrightarrow> (\<exists>k. tget (sdb_events db) k = Some e)"
    unfolding in_table [symmetric] by force
  also have "\<dots> \<longleftrightarrow> tget (sdb_events db) (sev_id e) = Some e" using events_okD [OF assms] by blast
  finally show ?thesis by (simp add: pending_events_def stored_events_def)
qed

lemma event_pending_iff:
  assumes "events_ok db"
  shows "event_pending db i \<longleftrightarrow> (\<exists>e\<in>set (pending_events db). sev_id e = i)"
proof (cases "tget (sdb_events db) i")
  case None
  then show ?thesis using pending_iff [OF assms] by (auto simp: event_pending_def)
next
  case (Some e)
  with events_okD [OF assms Some] show ?thesis using pending_iff [OF assms] by (auto simp: event_pending_def)
qed

lemma events_ok_put: "events_ok db \<Longrightarrow> events_ok (put_event e db)"
  by (auto simp: events_ok_def put_event_def tget_tput)

lemma tget_put_event: "tget (sdb_events (put_event e db)) i = (if i = sev_id e then Some e else tget (sdb_events db) i)"
  by (simp add: put_event_def tget_tput)

lemma pending_put:
  assumes "events_ok db"
  shows "set (pending_events (put_event e db)) =
    {a \<in> set (pending_events db). sev_id a \<noteq> sev_id e} \<union> (if sev_admission_payload e = None then {} else {e})"
  using assms events_ok_put [OF assms] by (auto simp: pending_iff tget_put_event split: if_splits)

lemma pending_ids_distinct:
  "events_ok db \<Longrightarrow> a \<in> set (pending_events db) \<Longrightarrow> b \<in> set (pending_events db) \<Longrightarrow> sev_id a = sev_id b \<Longrightarrow> a = b"
  by (simp add: pending_iff)

text \<open>The same identifier in the queue is the same event.\<close>

lemma waiting_inj:
  assumes "queue_ok w" "c \<in> waiting w" "d \<in> waiting w" "fst c = fst d"
  shows "c = d"
proof -
  have ev: "events_ok (sw_db w)" using assms(1) by (simp add: queue_ok_def)
  have dist: "r = r'" if "r \<in> set (sw_retained w)" "r' \<in> set (sw_retained w)" "sev_id (rt_event r) = sev_id (rt_event r')" for r r'
    using assms(1) that by (auto simp: queue_ok_def distinct_map inj_on_def)
  have sep: "sev_id (rt_event r) \<noteq> sev_id e" if "r \<in> set (sw_retained w)" "e \<in> set (pending_events (sw_db w))" for r e
    using assms(1) that ev by (auto simp: queue_ok_def pending_iff)
  from assms(2-4) show ?thesis
    by (auto simp: waiting_def dest: dist pending_ids_distinct [OF ev]) (metis sep)+
qed

section \<open>What steps do to the queue\<close>

lemma pending_cong: "sdb_events db' = sdb_events db \<Longrightarrow> pending_events db' = pending_events db"
  by (simp add: pending_events_def stored_events_def)

lemma events_ok_cong: "sdb_events db' = sdb_events db \<Longrightarrow> events_ok db' = events_ok db"
  by (simp add: events_ok_def)

lemma waiting_ids:
  assumes "queue_ok w"
  shows "i \<in> fst ` waiting w \<longleftrightarrow> event_retained w i \<or> event_pending (sw_db w) i"
proof -
  have "events_ok (sw_db w)" using assms by (simp add: queue_ok_def)
  then show ?thesis
    by (auto simp: waiting_def event_retained_def event_pending_iff image_image image_Un image_iff)
qed

lemma refusal_change:
  assumes "queue_ok w" "queue_ok w'" and "waiting w' = waiting w \<or> waiting w' = {c\<in>waiting w. fst c \<noteq> i}"
  shows "queue_change (waiting w) (refusal w w' i) (waiting w')"
proof (cases "i \<in> fst ` waiting w \<and> i \<notin> fst ` waiting w'")
  case True
  then have "waiting w' = {c\<in>waiting w. fst c \<noteq> i}" using assms(3) by auto
  moreover have "refusal w w' i = Refused i"
    using True unfolding waiting_ids [OF assms(1)] waiting_ids [OF assms(2)] by (simp add: refusal_def)
  ultimately show ?thesis using True by simp
next
  case False
  have "waiting w' = waiting w"
  proof (cases "i \<in> fst ` waiting w")
    case True
    with False assms(3) show ?thesis by auto
  next
    case False
    then have "{c\<in>waiting w. fst c \<noteq> i} = waiting w" by auto
    with assms(3) show ?thesis by simp
  qed
  moreover have "refusal w w' i = Quiet"
    using False unfolding waiting_ids [OF assms(1)] waiting_ids [OF assms(2)] by (auto simp: refusal_def)
  ultimately show ?thesis by simp
qed

lemma queue_same:
  assumes "queue_ok w" "sdb_events (sw_db w') = sdb_events (sw_db w)" "set (sw_retained w') = set (sw_retained w)"
    "distinct (map (\<lambda>r. sev_id (rt_event r)) (sw_retained w'))"
  shows "queue_ok w' \<and> waiting w' = waiting w \<and> known_ids w' = known_ids w"
  using assms pending_cong [OF assms(2)] events_ok_cong [OF assms(2)] by (simp add: queue_ok_def waiting_def known_ids_def)

lemma queue_same_retained:
  assumes "queue_ok w" "sdb_events (sw_db w') = sdb_events (sw_db w)" "sw_retained w' = sw_retained w"
  shows "queue_ok w' \<and> waiting w' = waiting w \<and> known_ids w' = known_ids w"
  using queue_same [OF assms(1,2)] assms(1,3) by (simp add: queue_ok_def)

text \<open>A pending event written back, pending or not.\<close>

lemma queue_put_pending:
  assumes ok: "queue_ok w" and e: "tget (sdb_events (sw_db w)) (sev_id e) = Some e" "sev_admission_payload e \<noteq> None"
    and core: "event_core e' = event_core e"
    and w': "sdb_events (sw_db w') = sdb_events (put_event e' (sw_db w))" "sw_retained w' = sw_retained w"
  shows "queue_ok w' \<and> known_ids w' = known_ids w \<and>
    waiting w' = (if sev_admission_payload e' = None then {c\<in>waiting w. fst c \<noteq> sev_id e} else waiting w) \<and>
    event_core e \<in> waiting w"
proof -
  have ids: "sev_id e' = sev_id e" using core by (simp add: event_core_def)
  have ev: "events_ok (sw_db w)" using ok by (simp add: queue_ok_def)
  have pend: "set (pending_events (sw_db w')) = {a \<in> set (pending_events (sw_db w)). sev_id a \<noteq> sev_id e} \<union>
      (if sev_admission_payload e' = None then {} else {e'})"
    using pending_put [OF ev, of e'] ids pending_cong [OF w'(1)] by simp
  have mem: "e \<in> set (pending_events (sw_db w))" using pending_iff [OF ev] e by simp
  have tg: "tget (sdb_events (sw_db w')) i = (if i = sev_id e then Some e' else tget (sdb_events (sw_db w)) i)" for i
    using w'(1) ids by (simp add: tget_put_event)
  have apart: "sev_id (rt_event r) \<noteq> sev_id e" if "r \<in> set (sw_retained w)" for r
    using ok that e(1) by (auto simp: queue_ok_def)
  have ok': "queue_ok w'"
    using ok apart events_ok_put [OF ev, of e'] events_ok_cong [OF w'(1)] w'(2) by (simp add: queue_ok_def tg)
  have kn: "known_ids w' = known_ids w" using e(1) w'(2) by (auto simp: known_ids_def tg)
  have only: "a = e" if "a \<in> set (pending_events (sw_db w))" "sev_id a = sev_id e" for a
    using pending_ids_distinct [OF ev that(1) mem that(2)] .
  have "waiting w' = (if sev_admission_payload e' = None then {c\<in>waiting w. fst c \<noteq> sev_id e} else waiting w)"
  proof (cases "sev_admission_payload e' = None")
    case True
    then show ?thesis using apart by (auto simp: waiting_def pend w'(2))
  next
    case False
    then have "event_core ` set (pending_events (sw_db w')) = event_core ` set (pending_events (sw_db w))"
      using mem core only unfolding pend by (auto simp: image_iff)
    then have "waiting w' = waiting w" by (simp add: waiting_def w'(2) image_Un)
    then show ?thesis using False by (auto split: if_splits)
  qed
  moreover have "event_core e \<in> waiting w" using mem by (auto simp: waiting_def)
  ultimately show ?thesis using ok' kn by blast
qed

text \<open>A new event in the table, that was not waiting.\<close>

lemma queue_put_new:
  assumes ok: "queue_ok w" and new: "sev_id e \<notin> known_ids w" and pl: "sev_admission_payload e \<noteq> None"
    and w': "sdb_events (sw_db w') = sdb_events (put_event e (sw_db w))" "sw_retained w' = sw_retained w"
  shows "queue_ok w' \<and> waiting w' = insert (event_core e) (waiting w) \<and> known_ids w' = insert (sev_id e) (known_ids w)"
proof -
  have ev: "events_ok (sw_db w)" using ok by (simp add: queue_ok_def)
  have tg: "tget (sdb_events (sw_db w')) i = (if i = sev_id e then Some e else tget (sdb_events (sw_db w)) i)" for i
    using w'(1) by (simp add: tget_put_event)
  have "{a \<in> set (pending_events (sw_db w)). sev_id a \<noteq> sev_id e} = set (pending_events (sw_db w))"
    using new pending_iff [OF ev] by (auto simp: known_ids_def)
  then have "set (pending_events (sw_db w')) = insert e (set (pending_events (sw_db w)))"
    using pending_put [OF ev, of e] pending_cong [OF w'(1)] pl by simp
  then have "waiting w' = insert (event_core e) (waiting w)" by (auto simp: waiting_def w'(2))
  moreover have "sev_id (rt_event r) \<noteq> sev_id e" if "r \<in> set (sw_retained w)" for r
    using new that unfolding known_ids_def by (metis UnI2 image_eqI)
  then have "queue_ok w'"
    using ok events_ok_put [OF ev, of e] events_ok_cong [OF w'(1)] w'(2) by (simp add: queue_ok_def tg)
  moreover have "known_ids w' = insert (sev_id e) (known_ids w)" using w'(2) by (auto simp: known_ids_def tg)
  ultimately show ?thesis by blast
qed

text \<open>A retained event leaves the queue in memory.\<close>

lemma remove_retained_set:
  assumes "distinct (map (\<lambda>r. sev_id (rt_event r)) rs)" "r \<in> set rs"
  shows "remove_retained (sev_id (rt_event r)) rs = remove1 r rs" "find (\<lambda>x. sev_id (rt_event x) = sev_id (rt_event r)) rs = Some r"
proof -
  have only: "x = r" if "x \<in> set rs" "sev_id (rt_event x) = sev_id (rt_event r)" for x
    using assms that by (auto simp: distinct_map inj_on_def)
  show "find (\<lambda>x. sev_id (rt_event x) = sev_id (rt_event r)) rs = Some r"
  proof (cases "find (\<lambda>x. sev_id (rt_event x) = sev_id (rt_event r)) rs")
    case None
    with assms(2) show ?thesis by (auto simp: find_None_iff)
  next
    case (Some x)
    then have "x \<in> set rs \<and> sev_id (rt_event x) = sev_id (rt_event r)" by (auto simp: find_Some_iff)
    with only Some show ?thesis by simp
  qed
  then show "remove_retained (sev_id (rt_event r)) rs = remove1 r rs" by (simp add: remove_retained_def)
qed

lemma queue_retained_leaves:
  assumes ok: "queue_ok w" and r: "r \<in> set (sw_retained w)"
    and w': "sw_retained w' = remove1 r (sw_retained w)" "sdb_events (sw_db w') = sdb_events (sw_db w)"
  shows "queue_ok w' \<and> waiting w' = {c\<in>waiting w. fst c \<noteq> sev_id (rt_event r)} \<and>
    known_ids w' = known_ids w - {sev_id (rt_event r)}"
proof -
  have ev: "events_ok (sw_db w)" using ok by (simp add: queue_ok_def)
  have dist: "distinct (map (\<lambda>r. sev_id (rt_event r)) (sw_retained w))" using ok by (simp add: queue_ok_def)
  then have d: "distinct (sw_retained w)" by (simp add: distinct_map)
  have set': "set (sw_retained w') = {x\<in>set (sw_retained w). sev_id (rt_event x) \<noteq> sev_id (rt_event r)}"
    using dist r d w'(1) by (auto simp: distinct_map inj_on_def)
  have apart: "sev_id e \<noteq> sev_id (rt_event r)" if "e \<in> set (pending_events (sw_db w))" for e
    using ok r that pending_iff [OF ev] by (auto simp: queue_ok_def)
  have none: "tget (sdb_events (sw_db w)) (sev_id (rt_event r)) = None" using ok r by (simp add: queue_ok_def)
  have "distinct (map (\<lambda>r. sev_id (rt_event r)) (sw_retained w'))"
    unfolding w'(1) distinct_map using d dist by (auto simp: distinct_map intro: inj_on_subset)
  then have "queue_ok w'" using ok set' events_ok_cong [OF w'(2)] w'(2) by (simp add: queue_ok_def)
  moreover have "waiting w' = {c\<in>waiting w. fst c \<noteq> sev_id (rt_event r)}"
    using apart unfolding waiting_def set' pending_cong [OF w'(2)] by auto
  moreover have "known_ids w' = known_ids w - {sev_id (rt_event r)}"
    using none unfolding known_ids_def set' w'(2) by auto
  ultimately show ?thesis by blast
qed

lemma store_cases:
  assumes ok: "queue_ok w" and r: "r \<in> set (sw_retained w)" and w': "w' = store_retained en r w"
  shows "sw_db w' = sw_db w \<and> set (sw_retained w') = set (sw_retained w) \<and>
      distinct (map (\<lambda>r. sev_id (rt_event r)) (sw_retained w')) \<or>
    sw_db w' = sw_db w \<and> sw_retained w' = remove1 r (sw_retained w) \<or>
    (\<exists>m. sw_db w' = put_event ((rt_event r)\<lparr>sev_maintenance_at_admission := m\<rparr>) (sw_db w)) \<and>
      sw_retained w' = remove1 r (sw_retained w)"
proof -
  have dist: "distinct (map (\<lambda>r. sev_id (rt_event r)) (sw_retained w))" using ok by (simp add: queue_ok_def)
  then have d: "distinct (sw_retained w)" by (simp add: distinct_map)
  note rem = remove_retained_set [OF dist r]
  obtain q w1 where p: "persist_original en r w = (q, w1)" by (cases "persist_original en r w")
  note eff = persist_cases [OF p]
  show ?thesis
  proof (cases q)
    case (Inl e)
    with p w' eff rem have "sw_db w' = sw_db w" "sw_retained w' = remove1 r (sw_retained w) @ [r]"
      by (simp_all add: store_retained_def)
    moreover have "set (remove1 r (sw_retained w) @ [r]) = set (sw_retained w)" using d r by auto
    moreover have "distinct (map (\<lambda>r. sev_id (rt_event r)) (remove1 r (sw_retained w) @ [r]))"
      using dist d r by (auto simp: distinct_map inj_on_def)
    ultimately show ?thesis by simp
  next
    case (Inr u)
    with p w' eff rem have "sw_db w' = sw_db w1" "sw_retained w' = remove1 r (sw_retained w)"
      by (simp_all add: store_retained_def)
    with eff Inr show ?thesis by auto
  qed
qed

text \<open>Every step changes the queue as its label says.\<close>

lemma accept_retained:
  assumes ok: "queue_ok w" and new: "sev_id (rt_event r) \<notin> known_ids w"
    and run: "retain_agent_event en server_id payload uuid now w = (Inr (), w')"
    and r: "sw_retained w' = sw_retained w @ [r]"
  shows "queue_ok w' \<and> waiting w' = insert (event_core (rt_event r)) (waiting w) \<and>
    known_ids w' = insert (sev_id (rt_event r)) (known_ids w)"
proof -
  from run r have db: "sw_db w' = sw_db w" and pl: "sev_admission_payload (rt_event r) \<noteq> None"
    by (auto simp: retain_agent_event_def original_event_def Let_def split: option.splits sum.splits if_splits)
  have "sev_id (rt_event r) \<notin> (\<lambda>r. sev_id (rt_event r)) ` set (sw_retained w)"
    using new unfolding known_ids_def by blast
  moreover have "tget (sdb_events (sw_db w)) (sev_id (rt_event r)) = None" using new by (auto simp: known_ids_def)
  ultimately have "queue_ok w'" using ok pl by (auto simp: queue_ok_def db r)
  then show ?thesis by (auto simp: waiting_def known_ids_def db r)
qed

lemma accept_recorded:
  assumes ok: "queue_ok w" and new: "sev_id (rt_event r) \<notin> known_ids w"
    and o: "original_event en server_id payload uuid now = Inr r"
    and run: "persist_original en r w = (Inr (), w')"
  shows "queue_ok w' \<and> waiting w' = insert (event_core (rt_event r)) (waiting w) \<and>
    known_ids w' = insert (sev_id (rt_event r)) (known_ids w)"
proof -
  from o have e: "sev_authority_fingerprint (rt_event r) = None" "sev_admission_payload (rt_event r) \<noteq> None"
    by (auto simp: original_event_def split: option.splits)
  then have "authority_holds en (sw_manager w) (sw_db w) (rt_event r)" by (simp add: authority_holds_def)
  moreover have "tget (sdb_events (sw_db w)) (sev_id (rt_event r)) = None" using new by (auto simp: known_ids_def)
  ultimately obtain m where "sw_db w' = put_event ((rt_event r)\<lparr>sev_maintenance_at_admission := m\<rparr>) (sw_db w)"
    "sw_retained w' = sw_retained w"
    using persist_cases [OF run] by auto
  with queue_put_new [OF ok, of "(rt_event r)\<lparr>sev_maintenance_at_admission := m\<rparr>" w'] new e show ?thesis by simp
qed

lemma storing_step:
  assumes ok: "queue_ok w" and r: "r \<in> set (sw_retained w)" and w': "w' = store_retained en r w"
  shows "queue_ok w' \<and> queue_change (waiting w) (refusal w w' (sev_id (rt_event r))) (waiting w') \<and> known_ids w' \<subseteq> known_ids w"
proof -
  have known: "sev_id (rt_event r) \<in> known_ids w" using r by (auto simp: known_ids_def)
  have "queue_ok w' \<and> (waiting w' = waiting w \<or> waiting w' = {c\<in>waiting w. fst c \<noteq> sev_id (rt_event r)}) \<and>
    known_ids w' \<subseteq> known_ids w"
    using store_cases [OF ok r w']
  proof (elim disjE conjE exE)
    assume "sw_db w' = sw_db w" "set (sw_retained w') = set (sw_retained w)"
      "distinct (map (\<lambda>r. sev_id (rt_event r)) (sw_retained w'))"
    with queue_same [OF ok, of w'] show ?thesis by simp
  next
    assume "sw_db w' = sw_db w" "sw_retained w' = remove1 r (sw_retained w)"
    with queue_retained_leaves [OF ok r, of w'] show ?thesis by auto
  next
    fix m
    let ?e = "(rt_event r)\<lparr>sev_maintenance_at_admission := m\<rparr>"
    assume db: "sw_db w' = put_event ?e (sw_db w)" and ret: "sw_retained w' = remove1 r (sw_retained w)"
    let ?w = "w\<lparr>sw_retained := remove1 r (sw_retained w)\<rparr>"
    from queue_retained_leaves [OF ok r, of ?w]
    have mid: "queue_ok ?w" "waiting ?w = {c\<in>waiting w. fst c \<noteq> sev_id (rt_event r)}"
      "known_ids ?w = known_ids w - {sev_id (rt_event r)}" by simp_all
    have pl: "sev_admission_payload ?e \<noteq> None" using ok r by (auto simp: queue_ok_def)
    have new: "sev_id ?e \<notin> known_ids ?w" using mid(3) by simp
    have core: "event_core (rt_event r) \<in> waiting w" using r by (auto simp: waiting_def)
    have "c \<in> waiting w \<longleftrightarrow> c = event_core (rt_event r) \<or> c \<in> waiting w \<and> fst c \<noteq> sev_id (rt_event r)" for c
      using waiting_inj [OF ok _ core, of c] core by (metis fst_event_core)
    then have "insert (event_core (rt_event r)) {c\<in>waiting w. fst c \<noteq> sev_id (rt_event r)} = waiting w"
      by blast
    then have "queue_ok w' \<and> waiting w' = waiting w \<and> known_ids w' = insert (sev_id (rt_event r)) (known_ids ?w)"
      using queue_put_new [OF mid(1) new pl, of w'] db ret mid(2) by simp
    then show ?thesis using mid(3) known by auto
  qed
  then show ?thesis using refusal_change [OF ok, of w'] by blast
qed

lemma tget_set_admission:
  "sdb_events (set_admission p q e db) = sdb_events (put_event (e\<lparr>sev_admission_payload := p, sev_push_intent := q\<rparr>) db)"
  by (simp add: set_admission_def)

lemma decided_events:
  "\<exists>q. sdb_events (decided_tables en e adb rs db) =
     sdb_events (put_event (e\<lparr>sev_admission_payload := None, sev_push_intent := q\<rparr>) db)"
  unfolding decided_tables_def tget_set_admission
  by (rule exI [of _ "if rs = [] then None else Some (sx_print_recipients en rs)"]) (simp add: put_event_def)

lemma admission_step:
  assumes ok: "queue_ok w" and run: "admit_original_event en i now uuids w = (q, w')"
  shows "queue_ok w' \<and> queue_change (waiting w) (admission_label en i now w w') (waiting w') \<and> known_ids w' \<subseteq> known_ids w"
proof -
  note facts = admit_cases [OF run]
  have ret: "sw_retained w' = sw_retained w" using facts by blast
  from facts consider
      (same) "sw_db w' = sw_db w" "admission_label en i now w w' = refusal w w' i"
    | (refused) e where "tget (sdb_events (sw_db w)) i = Some e" "refused en (sw_manager w) (sw_db w) e (sw_db w')"
        "admission_label en i now w w' = refusal w w' i"
    | (snapshot) e d where "tget (sdb_events (sw_db w)) i = Some e" "sev_admission_payload e \<noteq> None"
        "admission_label en i now w w' = refusal w w' i" "sw_db w' = put_event (e\<lparr>sev_maintenance_at_admission := Some d\<rparr>) (sw_db w)"
    | (decided) e payload matched where "tget (sdb_events (sw_db w)) i = Some e"
        "admission_label en i now w w' = Decided e payload matched"
        "next_in_key (sw_retained w) (sw_db w) e" "decision en (sw_db w) e payload matched (sw_db w')"
    by blast
  then show ?thesis
  proof cases
    case same
    with queue_same_retained [OF ok, of w'] ret refusal_change [OF ok, of w' i] show ?thesis by simp
  next
    case refused
    have i: "sev_id e = i" using ok refused(1) by (auto simp: queue_ok_def dest: events_okD)
    from refused(2) have "sev_admission_payload e \<noteq> None" "sdb_events (sw_db w') =
        sdb_events (put_event (e\<lparr>sev_admission_payload := None, sev_push_intent := sev_push_intent e\<rparr>) (sw_db w))"
      by (simp_all add: refused_def tget_set_admission)
    with queue_put_pending [OF ok, of e "e\<lparr>sev_admission_payload := None, sev_push_intent := sev_push_intent e\<rparr>" w']
      refused(1) i ret have "queue_ok w'" "waiting w' = {c\<in>waiting w. fst c \<noteq> i}" "known_ids w' = known_ids w" by simp_all
    with refusal_change [OF ok, of w' i] refused(3) show ?thesis by simp
  next
    case snapshot
    have i: "sev_id e = i" using ok snapshot(1) by (auto simp: queue_ok_def dest: events_okD)
    from queue_put_pending [OF ok, of e "e\<lparr>sev_maintenance_at_admission := Some d\<rparr>" w'] snapshot i ret
    have "queue_ok w'" "waiting w' = waiting w" "known_ids w' = known_ids w" by simp_all
    with refusal_change [OF ok, of w' i] snapshot(3) show ?thesis by simp
  next
    case decided
    have i: "sev_id e = i" using ok decided(1) by (auto simp: queue_ok_def dest: events_okD)
    from decided(4) have pl: "sev_admission_payload e \<noteq> None" by (auto simp: decision_def)
    from decided(4) obtain adb rs where "sw_db w' = decided_tables en e adb rs (sw_db w)" by (auto simp: decision_def)
    then obtain p where "sdb_events (sw_db w') =
        sdb_events (put_event (e\<lparr>sev_admission_payload := None, sev_push_intent := p\<rparr>) (sw_db w))"
      using decided_events [of en e adb rs "sw_db w"] by auto
    with queue_put_pending [OF ok, of e "e\<lparr>sev_admission_payload := None, sev_push_intent := p\<rparr>" w'] decided(1) pl i ret
    have new: "queue_ok w'" "waiting w' = {c\<in>waiting w. fst c \<noteq> sev_id e}" "known_ids w' = known_ids w"
      "event_core e \<in> waiting w" by simp_all
    from decided(3) have "\<forall>c\<in>waiting w. \<not> core_before c (event_core e)"
      by (auto simp: next_in_key_def waiting_def earlier_core)
    with new decided(2) show ?thesis by simp
  qed
qed

lemma queue_put_decided:
  assumes ok: "queue_ok w" and e: "tget (sdb_events (sw_db w)) (sev_id e) = Some e" "sev_admission_payload e = None"
    and e': "sev_id e' = sev_id e" "sev_admission_payload e' = None"
    and w': "sdb_events (sw_db w') = sdb_events (put_event e' (sw_db w))" "sw_retained w' = sw_retained w"
  shows "queue_ok w' \<and> waiting w' = waiting w \<and> known_ids w' = known_ids w"
proof -
  have ev: "events_ok (sw_db w)" using ok by (simp add: queue_ok_def)
  have tg: "tget (sdb_events (sw_db w')) i = (if i = sev_id e then Some e' else tget (sdb_events (sw_db w)) i)" for i
    using w'(1) e'(1) by (simp add: tget_put_event)
  have "set (pending_events (sw_db w')) = set (pending_events (sw_db w))"
    using pending_put [OF ev, of e'] e' e pending_cong [OF w'(1)] pending_iff [OF ev] by auto
  moreover have "sev_id (rt_event r) \<noteq> sev_id e" if "r \<in> set (sw_retained w)" for r
    using ok that e(1) by (auto simp: queue_ok_def)
  then have "queue_ok w'"
    using ok events_ok_put [OF ev, of e'] events_ok_cong [OF w'(1)] w'(2) by (simp add: queue_ok_def tg)
  moreover have "known_ids w' = known_ids w" using e(1) w'(2) by (auto simp: known_ids_def tg)
  ultimately show ?thesis by (simp add: waiting_def w'(2))
qed

lemma on_push_keeps:
  "tx_at sdb_push (\<lambda>d s. s\<lparr>sdb_push := d\<rparr>) m (db, fs) = (r, db', fs') \<Longrightarrow>
   sdb_events db' = sdb_events db \<and> sdb_core db' = sdb_core db \<and> sdb_alert db' = sdb_alert db"
  by (auto simp: tx_at_def split: prod.splits)

lemma materialize_effect:
  assumes "materialize_body en i now nonces (db, fs) = (Inr (), db', fs')"
  shows "sdb_alert db' = sdb_alert db \<and> (sdb_events db' = sdb_events db \<or>
    (\<exists>e. tget (sdb_events db) i = Some e \<and>
       sdb_events db' = sdb_events (put_event (e\<lparr>sev_push_intent := None\<rparr>) db)))"
proof -
  from assms obtain v where rest: "(case tget (sdb_events db) i of None \<Rightarrow> tx_return ()
     | Some event \<Rightarrow>
         (case sev_push_intent event of None \<Rightarrow> tx_return ()
          | Some intent \<Rightarrow>
              (case sx_parse_recipients en intent of
                 None \<Rightarrow> tx_fail (Internal ''Invalid stored security push intent'')
               | Some recipients \<Rightarrow>
                   tx_bind (on_push (enqueue_security (sx_push en) (sev_server_id event) (sev_id event)
                       (sev_event_type event) (as_secs (sev_created_at event)) now nonces recipients)) (\<lambda>_.
                   tx_exec (set_admission (sev_admission_payload event) None event))))) (db, v) = (Inr (), db', fs')"
    unfolding materialize_body_def lock_event_def
    by (elim tx_bind_success) (auto dest!: tx_exec_any tx_query_any)
  show ?thesis
  proof (cases "tget (sdb_events db) i")
    case None
    with rest show ?thesis by (simp add: tx_return_def)
  next
    case (Some e)
    note found = Some
    show ?thesis
    proof (cases "sev_push_intent e")
      case None
      with rest found show ?thesis by (simp add: tx_return_def)
    next
      case (Some intent)
      with rest found have "(case sx_parse_recipients en intent of
                 None \<Rightarrow> tx_fail (Internal ''Invalid stored security push intent'')
               | Some recipients \<Rightarrow>
                   tx_bind (on_push (enqueue_security (sx_push en) (sev_server_id e) (sev_id e)
                       (sev_event_type e) (as_secs (sev_created_at e)) now nonces recipients)) (\<lambda>_.
                   tx_exec (set_admission (sev_admission_payload e) None e))) (db, v) = (Inr (), db', fs')" by simp
      then obtain rs where "tx_bind (on_push (enqueue_security (sx_push en) (sev_server_id e) (sev_id e)
                       (sev_event_type e) (as_secs (sev_created_at e)) now nonces rs)) (\<lambda>_.
                   tx_exec (set_admission (sev_admission_payload e) None e)) (db, v) = (Inr (), db', fs')"
        by (auto simp: tx_fail_def split: option.splits)
      then obtain u s1 where push: "on_push (enqueue_security (sx_push en) (sev_server_id e) (sev_id e)
                       (sev_event_type e) (as_secs (sev_created_at e)) now nonces rs) (db, v) = (Inr u, s1)"
        and tail': "tx_exec (set_admission (sev_admission_payload e) None e) s1 = (Inr (), db', fs')" by (rule tx_bind_success)
      obtain db1 fs1 where s1: "s1 = (db1, fs1)" by (cases s1)
      have "sdb_events db1 = sdb_events db" "sdb_alert db1 = sdb_alert db" using on_push_keeps [OF push [unfolded s1]] by blast+
      moreover have "db' = set_admission (sev_admission_payload e) None e db1" using tx_exec_any [OF tail' [unfolded s1]] .
      ultimately have "sdb_events db' = sdb_events (put_event (e\<lparr>sev_push_intent := None\<rparr>) db)" "sdb_alert db' = sdb_alert db"
        by (simp_all add: set_admission_def put_event_def)
      with found show ?thesis by blast
    qed
  qed
qed

lemma materialize_step:
  assumes ok: "queue_ok w" and run: "materialize_push_intent en i now nonces w = (q, w')"
  shows "queue_ok w' \<and> waiting w' = waiting w \<and> known_ids w' = known_ids w"
proof -
  from run have tx: "security_tx (materialize_body en i now nonces) w = (q, w')" by (simp add: materialize_push_intent_def)
  note facts = security_tx_cases [OF tx]
  from facts have ret: "sw_retained w' = sw_retained w"
    by (metis security_world.select_convs(3) security_world.surjective security_world.update_convs(1) security_world.update_convs(2))
  show ?thesis
  proof (cases q)
    case (Inl e)
    with facts have "sw_db w' = sw_db w" by blast
    then have "sdb_events (sw_db w') = sdb_events (sw_db w)" by (rule arg_cong)
    then show ?thesis using queue_same_retained [OF ok _ ret] by blast
  next
    case (Inr u)
    with facts obtain fs1 fs2 where "materialize_body en i now nonces (sw_db w, fs1) = (Inr (), sw_db w', fs2)" by auto
    from materialize_effect [OF this] show ?thesis
    proof (elim disjE exE conjE)
      assume "sdb_events (sw_db w') = sdb_events (sw_db w)"
      then show ?thesis using queue_same_retained [OF ok _ ret] by blast
    next
      fix e
      assume e: "tget (sdb_events (sw_db w)) i = Some e"
        and put: "sdb_events (sw_db w') = sdb_events (put_event (e\<lparr>sev_push_intent := None\<rparr>) (sw_db w))"
      have i: "sev_id e = i" using ok e by (auto simp: queue_ok_def dest: events_okD)
      show ?thesis
      proof (cases "sev_admission_payload e")
        case None
        with queue_put_decided [OF ok _ None _ _ put ret] e i show ?thesis by simp
      next
        case (Some p)
        with queue_put_pending [OF ok, of e, OF _ _ _ put ret] e i show ?thesis by simp
      qed
    qed
  qed
qed

lemma materialize_alert:
  assumes "materialize_push_intent en i now nonces w = (q, w')"
  shows "sdb_alert (sw_db w') = sdb_alert (sw_db w)"
proof -
  from assms have "security_tx (materialize_body en i now nonces) w = (q, w')" by (simp add: materialize_push_intent_def)
  note facts = security_tx_cases [OF this]
  show ?thesis
  proof (cases q)
    case (Inl e)
    with facts have "sw_db w' = sw_db w" by blast
    then show ?thesis by (rule arg_cong)
  next
    case (Inr u)
    with facts obtain fs1 fs2 where "materialize_body en i now nonces (sw_db w, fs1) = (Inr (), sw_db w', fs2)" by auto
    from materialize_effect [OF this] show ?thesis by blast
  qed
qed

lemma cleanup_step:
  assumes ok: "queue_ok w"
  shows "queue_ok (w\<lparr>sw_db := cleanup_security_events cutoff (sw_db w)\<rparr>) \<and>
    waiting (w\<lparr>sw_db := cleanup_security_events cutoff (sw_db w)\<rparr>) = waiting w \<and>
    known_ids (w\<lparr>sw_db := cleanup_security_events cutoff (sw_db w)\<rparr>) \<subseteq> known_ids w"
proof -
  let ?db = "cleanup_security_events cutoff (sw_db w)"
  let ?keep = "\<lambda>e. \<not> (sev_created_at e < cutoff \<and> sev_admission_payload e = None \<and> sev_push_intent e = None)"
  have ev: "events_ok (sw_db w)" using ok by (simp add: queue_ok_def)
  have "table_ok (sdb_events (sw_db w))" using ev by (simp add: events_ok_def)
  note tg = tget_tretain [OF this]
  have "events_ok ?db" using ev by (auto simp: events_ok_def cleanup_security_events_def tg split: option.splits if_splits)
  moreover have "pending_events ?db = pending_events (sw_db w)"
    by (auto simp: pending_events_def stored_events_def cleanup_security_events_def tretain_def filter_map comp_def
        split_def intro!: arg_cong [of _ _ "map snd"] filter_cong)
  moreover have none: "tget (sdb_events (sw_db w)) i = None \<Longrightarrow> tget (sdb_events ?db) i = None" for i
    by (simp add: cleanup_security_events_def tg)
  ultimately have "queue_ok (w\<lparr>sw_db := ?db\<rparr>)" "waiting (w\<lparr>sw_db := ?db\<rparr>) = waiting w"
    using ok by (simp_all add: queue_ok_def waiting_def)
  moreover have "known_ids (w\<lparr>sw_db := ?db\<rparr>) \<subseteq> known_ids w" using none by (auto simp: known_ids_def)
  ultimately show ?thesis by blast
qed

lemma record_failed_step:
  assumes ok: "queue_ok w" and run: "persist_original en r w = (Inl e, w')"
  shows "queue_ok w' \<and> waiting w' = waiting w \<and> known_ids w' = known_ids w"
  using queue_same_retained [OF ok, of w'] persist_cases [OF run] by simp

theorem step_change:
  assumes ok: "queue_ok w" and step: "security_step en w l w'"
    and new: "\<And>e. l = Accepted e \<Longrightarrow> sev_id e \<notin> known_ids w"
  shows "queue_ok w' \<and> queue_change (waiting w) l (waiting w') \<and> known_ids w' \<subseteq> known_ids w \<union> sev_id ` set (accepted [l])"
  using step
proof cases
  case (SecRetain server_id payload uuid now r)
  have "sev_id (rt_event r) \<notin> known_ids w" using new SecRetain(1) by blast
  from accept_retained [OF ok this SecRetain(2,3)] SecRetain(1) show ?thesis by simp
next
  case (SecRecord server_id payload uuid now r)
  have "sev_id (rt_event r) \<notin> known_ids w" using new SecRecord(1) by blast
  from accept_recorded [OF ok this SecRecord(2,3)] SecRecord(1) show ?thesis by simp
next
  case (SecRecordFails server_id payload uuid now r e)
  from record_failed_step [OF ok SecRecordFails(3)] SecRecordFails(1) show ?thesis by simp
next
  case (SecStore r)
  from storing_step [OF ok SecStore(2,3)] SecStore(1) show ?thesis by blast
next
  case (SecAdmit i now uuids q)
  from admission_step [OF ok SecAdmit(2)] SecAdmit(1) show ?thesis by blast
next
  case (SecMaterialize i now nonces q)
  from materialize_step [OF ok SecMaterialize(2)] SecMaterialize(1) show ?thesis by simp
next
  case (SecCleanup cutoff)
  with cleanup_step [OF ok] show ?thesis by simp
next
  case SecOthers
  with queue_same_retained [OF ok, of w'] show ?thesis by (simp add: others_change_def)
qed

section \<open>Accounting\<close>

text \<open>
  What a run says of its queue: identifiers of accepted events are distinct, what waits was accepted,
  and the accepted ones are those that wait and those that are finished, none of them twice.
\<close>

definition accounted :: "security_label list \<Rightarrow> security_world \<Rightarrow> bool" where
  "accounted ls w \<longleftrightarrow> queue_ok w \<and> distinct (map sev_id (accepted ls)) \<and> known_ids w \<subseteq> sev_id ` set (accepted ls) \<and>
     waiting w \<subseteq> event_core ` set (accepted ls) \<and> distinct (finished ls) \<and>
     fst ` waiting w \<inter> set (finished ls) = {} \<and> fst ` waiting w \<union> set (finished ls) = sev_id ` set (accepted ls)"

lemma accountedD:
  assumes "accounted ls w"
  shows "queue_ok w" "distinct (map sev_id (accepted ls))" "known_ids w \<subseteq> sev_id ` set (accepted ls)"
    "waiting w \<subseteq> event_core ` set (accepted ls)" "distinct (finished ls)"
    "fst ` waiting w \<inter> set (finished ls) = {}" "fst ` waiting w \<union> set (finished ls) = sev_id ` set (accepted ls)"
  using assms by (simp_all only: accounted_def)

lemma accounted_start: "security_start w \<Longrightarrow> accounted [] w"
  by (auto simp: accounted_def security_start_def queue_ok_def events_ok_def waiting_def known_ids_def pending_events_def
      stored_events_def)

lemma accounted_leaves:
  assumes "accounted ls w" "queue_ok w'" "known_ids w' \<subseteq> known_ids w" "i \<in> fst ` waiting w"
    "waiting w' = {c\<in>waiting w. fst c \<noteq> i}" "accepted ls' = accepted ls" "finished ls' = finished ls @ [i]"
  shows "accounted ls' w'"
proof -
  note acc = accountedD [OF assms(1)]
  have W: "fst ` waiting w' = fst ` waiting w - {i}" "waiting w' \<subseteq> waiting w" using assms(5) by blast+
  have F: "set (finished ls') = insert i (set (finished ls))" "i \<notin> set (finished ls)"
    using acc(6) assms(4) by (auto simp only: assms(7) set_append list.set)
  show ?thesis
    unfolding accounted_def
  proof (intro conjI)
    show "queue_ok w'" by fact
    show "distinct (map sev_id (accepted ls'))" using acc(2) assms(6) by simp
    show "known_ids w' \<subseteq> sev_id ` set (accepted ls')" using subset_trans [OF assms(3) acc(3)] unfolding assms(6) .
    show "waiting w' \<subseteq> event_core ` set (accepted ls')" using subset_trans [OF W(2) acc(4)] unfolding assms(6) .
    show "distinct (finished ls')" using acc(5) assms(7) F(2) by simp
    show "fst ` waiting w' \<inter> set (finished ls') = {}" using acc(6) unfolding W F(1) by blast
    show "fst ` waiting w' \<union> set (finished ls') = sev_id ` set (accepted ls')"
      using acc(7) assms(4) unfolding W F(1) assms(6) by blast
  qed
qed

lemma accounted_joins:
  assumes "accounted ls w" "queue_ok w'" "known_ids w' \<subseteq> insert (sev_id e) (known_ids w)"
    "waiting w' = insert (event_core e) (waiting w)" "sev_id e \<notin> sev_id ` set (accepted ls)"
  shows "accounted (ls @ [Accepted e]) w'"
proof -
  note acc = accountedD [OF assms(1)]
  have A: "set (accepted (ls @ [Accepted e])) = insert e (set (accepted ls))" "finished (ls @ [Accepted e]) = finished ls"
    by simp_all
  have f: "sev_id e \<notin> set (finished ls)" using acc(7) assms(5) by blast
  have W: "fst ` waiting w' = insert (sev_id e) (fst ` waiting w)" unfolding assms(4) by simp
  show ?thesis
    unfolding accounted_def
  proof (intro conjI)
    show "queue_ok w'" by fact
    show "distinct (map sev_id (accepted (ls @ [Accepted e])))" using acc(2) assms(5) by simp
    show "known_ids w' \<subseteq> sev_id ` set (accepted (ls @ [Accepted e]))" using acc(3) assms(3) unfolding A by blast
    show "waiting w' \<subseteq> event_core ` set (accepted (ls @ [Accepted e]))" using acc(4) unfolding A assms(4) by blast
    show "distinct (finished (ls @ [Accepted e]))" using acc(5) unfolding A .
    show "fst ` waiting w' \<inter> set (finished (ls @ [Accepted e])) = {}" using acc(6) f unfolding A W by blast
    show "fst ` waiting w' \<union> set (finished (ls @ [Accepted e])) = sev_id ` set (accepted (ls @ [Accepted e]))"
      using acc(7) unfolding A W by blast
  qed
qed

lemma accounted_step:
  assumes acc: "accounted ls w" and step: "security_step en w l w'"
    and fresh: "\<And>e. l = Accepted e \<Longrightarrow> sev_id e \<notin> sev_id ` set (accepted ls)"
  shows "accounted (ls @ [l]) w'"
proof -
  have ok: "queue_ok w" and known: "known_ids w \<subseteq> sev_id ` set (accepted ls)" using acc by (simp_all add: accounted_def)
  have new: "sev_id e \<notin> known_ids w" if "l = Accepted e" for e using fresh [OF that] known by blast
  note change = step_change [OF ok step new]
  have ok': "queue_ok w'" and known': "known_ids w' \<subseteq> known_ids w \<union> sev_id ` set (accepted [l])"
    and q: "queue_change (waiting w) l (waiting w')" using change by simp_all
  show ?thesis
  proof (cases l)
    case (Accepted e)
    from known' Accepted have "known_ids w' \<subseteq> insert (sev_id e) (known_ids w)" by simp
    from accounted_joins [OF acc ok' this _ fresh [OF Accepted]] q Accepted show ?thesis by simp
  next
    case (Refused i)
    with q known' have "i \<in> fst ` waiting w" "waiting w' = {c\<in>waiting w. fst c \<noteq> i}" "known_ids w' \<subseteq> known_ids w" by simp_all
    from accounted_leaves [OF acc ok' this(3,1,2), of "ls @ [l]"] Refused show ?thesis by simp
  next
    case (Decided e p ms)
    with q known' have mem: "event_core e \<in> waiting w"
      and rest: "waiting w' = {c\<in>waiting w. fst c \<noteq> sev_id e}" "known_ids w' \<subseteq> known_ids w" by simp_all
    have "sev_id e \<in> fst ` waiting w" using imageI [OF mem, of fst] by simp
    from accounted_leaves [OF acc ok' rest(2) this rest(1), of "ls @ [l]"] Decided show ?thesis by simp
  next
    case Quiet
    with q known' have W: "waiting w' = waiting w" "known_ids w' \<subseteq> known_ids w" by simp_all
    have "accepted (ls @ [l]) = accepted ls" "finished (ls @ [l]) = finished ls" using Quiet by simp_all
    with acc ok' W show ?thesis unfolding accounted_def by (metis subset_trans)
  qed
qed

lemma run_accounted: "security_run en w0 ls w \<Longrightarrow> accounted ls w"
proof (induction rule: security_run.induct)
  case (RunStart w)
  then show ?case by (rule accounted_start)
next
  case (RunStep w0 ls w l w')
  from RunStep.IH RunStep.hyps(2) show ?case by (rule accounted_step) (use RunStep.hyps(3) in blast)
qed

end
