(* ===== verification/Security_Properties.thy ===== *)
theory Security_Properties
  imports Security_Queue Block_Safety Push_Properties
begin

text \<open>
  The properties of the security service: the accounting and the order of its events, what a decision
  is, how far apart the notifications of a source are, and why an address was blocked; and
  one run at which they are evaluated.
\<close>

section \<open>Refusals\<close>

text \<open>An event that is refused had lost its authority.\<close>

lemma refusal_Refused:
  "refusal w w' i = Refused j \<Longrightarrow> j = i \<and> \<not> event_retained w' i \<and> \<not> event_pending (sw_db w') i \<and>
     (event_retained w i \<or> event_pending (sw_db w) i)"
  by (simp add: refusal_def split: if_splits)

lemma refused_step:
  assumes ok: "queue_ok w" and step: "security_step en w (Refused i) w'"
  shows "\<exists>e \<in> rt_event ` set (sw_retained w) \<union> set (pending_events (sw_db w)).
    sev_id e = i \<and> \<not> authority_holds en (sw_manager w) (sw_db w) e"
  using step
proof cases
  case (SecStore r)
  from refusal_Refused [OF SecStore(1) [symmetric]] have i: "i = sev_id (rt_event r)"
    and gone: "\<not> event_retained w' i" "\<not> event_pending (sw_db w') i" by simp_all
  have dist: "distinct (map (\<lambda>r. sev_id (rt_event r)) (sw_retained w))" using ok by (simp add: queue_ok_def)
  obtain q w1 where p: "persist_original en r w = (q, w1)" by (cases "persist_original en r w")
  note rem = remove_retained_set [OF dist SecStore(2)]
  show ?thesis
  proof (cases "authority_holds en (sw_manager w) (sw_db w) (rt_event r)")
    case False
    with SecStore(2) i show ?thesis by blast
  next
    case True
    have none: "tget (sdb_events (sw_db w)) (sev_id (rt_event r)) = None" "sev_admission_payload (rt_event r) \<noteq> None"
      using ok SecStore(2) by (auto simp: queue_ok_def)
    show ?thesis
    proof (cases q)
      case (Inl e)
      with p SecStore(3) persist_cases [OF p] rem have "sw_retained w' = remove1 r (sw_retained w) @ [r]"
        by (simp add: store_retained_def)
      with gone(1) i show ?thesis by (simp add: event_retained_def)
    next
      case (Inr u)
      with persist_cases [OF p] True none obtain m where
        "sw_db w1 = put_event ((rt_event r)\<lparr>sev_maintenance_at_admission := m\<rparr>) (sw_db w)" by auto
      then have "event_pending (sw_db w') i"
        using p SecStore(3) Inr none(2) i by (auto simp: store_retained_def event_pending_def tget_put_event)
      with gone(2) show ?thesis by blast
    qed
  qed
next
  case (SecAdmit j now uuids q)
  note facts = admit_cases [OF SecAdmit(2)]
  have ret: "sw_retained w' = sw_retained w" using facts by blast
  have lab: "admission_label en j now w w' = Refused i" using SecAdmit(1) by simp
  from facts lab have "refusal w w' j = Refused i" by auto
  from refusal_Refused [OF this] have j: "i = j" and gone: "\<not> event_retained w' i" "\<not> event_pending (sw_db w') i"
    and was: "event_retained w i \<or> event_pending (sw_db w) i" by simp_all
  have "event_retained w' i = event_retained w i" by (simp add: event_retained_def ret)
  with gone(1) was have pend: "event_pending (sw_db w) i" by simp
  have "sw_db w' \<noteq> sw_db w" using gone(2) pend by metis
  with facts lab obtain e where e: "tget (sdb_events (sw_db w)) j = Some e"
    and "refused en (sw_manager w) (sw_db w) e (sw_db w') \<or>
      sev_admission_payload e \<noteq> None \<and> (\<exists>d. sw_db w' = put_event (e\<lparr>sev_maintenance_at_admission := Some d\<rparr>) (sw_db w))"
    by auto
  moreover have ev: "events_ok (sw_db w)" using ok by (simp add: queue_ok_def)
  note id = events_okD [OF ev e]
  ultimately show ?thesis
  proof (elim disjE conjE exE)
    assume "refused en (sw_manager w) (sw_db w) e (sw_db w')"
    then have "e \<in> set (pending_events (sw_db w))" "\<not> authority_holds en (sw_manager w) (sw_db w) e"
      using pending_iff [OF ev] e id by (auto simp: refused_def)
    with id j show ?thesis by blast
  next
    fix d
    assume "sev_admission_payload e \<noteq> None" "sw_db w' = put_event (e\<lparr>sev_maintenance_at_admission := Some d\<rparr>) (sw_db w)"
    then have "event_pending (sw_db w') i" using id j by (auto simp: event_pending_def tget_put_event)
    with gone(2) show ?thesis by blast
  qed
qed

section \<open>Decisions\<close>

text \<open>What a rule makes of an event, from the rule, the event and the state stored for them.\<close>

definition match_of ::
  "('f, 'n) security_env \<Rightarrow> string \<Rightarrow> security_payload \<Rightarrow> datetime \<Rightarrow> alert_db \<Rightarrow> alert_rule \<Rightarrow> matched_rule option" where
  "match_of en sid payload now db rule =
     (let k = (ru_id rule, sid, spy_source_ip payload) in
      map_option (\<lambda>params. \<lparr>mr_rule = rule, mr_dim = k, mr_state = match_state now (tget (adb_states db) k),
          mr_should_notify = match_notifies params now (tget (adb_states db) k), mr_event_time = now\<rparr>)
        (rule_match en sid payload rule))"

definition after_matches :: "matched_rule list \<Rightarrow> alert_db \<Rightarrow> alert_db" where
  "after_matches ms = fold (\<lambda>m. set_state (mr_dim m) (mr_state m)) ms"

lemma after_matches_simps [simp]:
  "after_matches [] db = db"
  "after_matches (m # ms) db = after_matches ms (set_state (mr_dim m) (mr_state m) db)"
  by (simp_all add: after_matches_def)

lemma match_of_other:
  "ru_id r' \<noteq> ru_id r \<Longrightarrow> match_of en sid payload now (set_state (ru_id r, k) st db) r' = match_of en sid payload now db r'"
  by (simp add: match_of_def set_state_def tget_tput Let_def)

lemma match_of_dim: "match_of en sid payload now db r = Some m \<Longrightarrow>
    mr_dim m = (ru_id r, sid, spy_source_ip payload) \<and> mr_rule m = r \<and> mr_event_time m = now"
  by (auto simp: match_of_def Let_def)

lemma map_filter_agree: "(\<And>x. x \<in> set xs \<Longrightarrow> f x = g x) \<Longrightarrow> List.map_filter f xs = List.map_filter g xs"
  by (induction xs) (auto simp: List.map_filter_simps split: option.split)

lemma evaluate_loop_exact:
  assumes "distinct (map ru_id rules)"
  shows "evaluate_loop en sid payload now rules (db, []) =
    (Inr (List.map_filter (match_of en sid payload now db) rules),
     after_matches (List.map_filter (match_of en sid payload now db) rules) db, [])"
  using assms
proof (induction rules arbitrary: db)
  case Nil
  show ?case by (simp add: tx_pure List.map_filter_simps)
next
  case (Cons r rules)
  show ?case
  proof (cases "rule_match en sid payload r")
    case None
    with Cons show ?thesis by (simp add: match_of_def List.map_filter_simps)
  next
    case (Some params)
    let ?k = "(ru_id r, sid, spy_source_ip payload)"
    let ?st = "match_state now (tget (adb_states db) ?k)"
    have other: "List.map_filter (match_of en sid payload now (set_state ?k ?st db)) rules =
        List.map_filter (match_of en sid payload now db) rules"
      using Cons.prems by (intro map_filter_agree match_of_other) (force simp: image_iff)
    from Cons.IH [of "set_state ?k ?st db"] Cons.prems other
    have "evaluate_loop en sid payload now rules (set_state ?k ?st db, []) =
      (Inr (List.map_filter (match_of en sid payload now db) rules),
       after_matches (List.map_filter (match_of en sid payload now db) rules) (set_state ?k ?st db), [])" by simp
    moreover have "match_of en sid payload now db r = Some \<lparr>mr_rule = r, mr_dim = ?k, mr_state = ?st,
        mr_should_notify = match_notifies params now (tget (adb_states db) ?k), mr_event_time = now\<rparr>"
      using Some by (simp add: match_of_def Let_def)
    ultimately show ?thesis
      using Some by (simp add: tx_bind_steps Let_def tx_bind_def tx_pure List.map_filter_simps)
  qed
qed

lemma evaluate_rules_exact:
  assumes "distinct (map ru_id (adb_rules db))"
  shows "evaluate_rules en sid payload now maintained (db, []) =
    (let ms = if maintained then [] else List.map_filter (match_of en sid payload now db) (filter ru_enabled (adb_rules db))
     in (Inr ms, after_matches ms db, []))"
proof -
  have "distinct (map ru_id (filter ru_enabled (adb_rules db)))" using assms by (rule distinct_map_filter)
  from evaluate_loop_exact [OF this, of en sid payload now db] show ?thesis
    by (simp add: evaluate_rules_def tx_pure tx_bind_query Let_def)
qed

lemma decision_exact:
  assumes "decision en db e payload matched db'" and "distinct (map ru_id (adb_rules (sdb_alert db)))"
  shows "\<exists>maintained. sev_maintenance_at_admission e = Some maintained \<and>
    matched = (if maintained then []
      else List.map_filter (match_of en (sev_server_id e) payload (sev_created_at e) (sdb_alert db))
        (filter ru_enabled (adb_rules (sdb_alert db)))) \<and>
    sdb_alert db' = after_matches matched (sdb_alert db)"
proof -
  from assms(1) obtain original maintained adb rs where m: "sev_maintenance_at_admission e = Some maintained"
    and run: "evaluate_rules en (sev_server_id e) payload (sev_created_at e) maintained (sdb_alert db, []) = (Inr matched, adb, [])"
    and db': "db' = decided_tables en e adb rs db" unfolding decision_def by blast
  from run have "matched = (if maintained then []
      else List.map_filter (match_of en (sev_server_id e) payload (sev_created_at e) (sdb_alert db))
        (filter ru_enabled (adb_rules (sdb_alert db))))" "adb = after_matches matched (sdb_alert db)"
    unfolding evaluate_rules_exact [OF assms(2)] Let_def by blast+
  moreover have "sdb_alert db' = adb" unfolding db' by (simp add: decided_tables_def set_admission_def put_event_def)
  ultimately show ?thesis using m by metis
qed

section \<open>Cooldown\<close>

lemma put_event_alert [simp]: "sdb_alert (put_event e db) = sdb_alert db"
  by (simp add: put_event_def)

lemma store_alert: "w' = store_retained en r w \<Longrightarrow> sdb_alert (sw_db w') = sdb_alert (sw_db w)"
  using persist_cases [of en r w "fst (persist_original en r w)" "snd (persist_original en r w)"]
  by (auto simp: store_retained_def split: prod.splits sum.splits option.splits)

text \<open>Only decisions and other services change the tables of the alerts.\<close>

lemma step_alert:
  assumes "security_step en w l w'"
  shows "sdb_alert (sw_db w') = sdb_alert (sw_db w) \<and> (\<forall>e p ms. l \<noteq> Decided e p ms) \<or>
    (\<exists>e p ms. l = Decided e p ms \<and> decision en (sw_db w) e p ms (sw_db w')) \<or> l = Quiet \<and> others_change w w'"
  using assms
proof cases
  case (SecRetain server_id payload uuid now r)
  then show ?thesis
    by (auto simp: retain_agent_event_def Let_def split: option.splits sum.splits)
next
  case (SecRecord server_id payload uuid now r)
  with persist_cases [OF SecRecord(3)] show ?thesis by auto
next
  case (SecRecordFails server_id payload uuid now r e)
  with persist_cases [OF SecRecordFails(3)] show ?thesis by auto
next
  case (SecStore r)
  with store_alert [OF SecStore(3)] show ?thesis by (simp add: refusal_def)
next
  case (SecAdmit i now uuids q)
  note facts = admit_cases [OF SecAdmit(2)]
  have plain: "refusal w w' i \<noteq> Decided e p ms" for e p ms by (simp add: refusal_def)
  have quiet: ?thesis if "admission_label en i now w w' = refusal w w' i" "sdb_alert (sw_db w') = sdb_alert (sw_db w)"
    using that plain SecAdmit(1) by simp
  from facts consider "sw_db w' = sw_db w" "admission_label en i now w w' = refusal w w' i"
    | e where "refused en (sw_manager w) (sw_db w) e (sw_db w')" "admission_label en i now w w' = refusal w w' i"
    | e d where "sw_db w' = put_event (e\<lparr>sev_maintenance_at_admission := Some d\<rparr>) (sw_db w)"
        "admission_label en i now w w' = refusal w w' i"
    | e p ms where "admission_label en i now w w' = Decided e p ms" "decision en (sw_db w) e p ms (sw_db w')"
    by blast
  then show ?thesis
  proof cases
    case 1
    from arg_cong [OF 1(1), of sdb_alert] show ?thesis by (rule quiet [OF 1(2)])
  next
    case 2
    note tables = 2(1) [unfolded refused_def, THEN conjunct2, THEN conjunct2]
    have "sdb_alert (sw_db w') = sdb_alert (sw_db w)" unfolding tables set_admission_def by simp
    then show ?thesis by (rule quiet [OF 2(2)])
  next
    case 3
    from arg_cong [OF 3(1), of sdb_alert] have "sdb_alert (sw_db w') = sdb_alert (sw_db w)" by simp
    then show ?thesis by (rule quiet [OF 3(2)])
  next
    case 4
    have "l = Decided e p ms" using SecAdmit(1) 4(1) by (rule trans)
    with 4(2) show ?thesis by (intro disjI2 disjI1 exI conjI)
  qed
next
  case (SecMaterialize i now nonces q)
  with materialize_alert [OF SecMaterialize(2)] show ?thesis by simp
next
  case (SecCleanup cutoff)
  then show ?thesis by (simp add: cleanup_security_events_def)
next
  case SecOthers
  then show ?thesis by simp
qed

lemma after_matches_rules [simp]: "adb_rules (after_matches ms db) = adb_rules db"
  by (induction ms arbitrary: db) (simp_all add: set_state_def)

lemma after_matches_states:
  "distinct (map mr_dim ms) \<Longrightarrow>
   tget (adb_states (after_matches ms db)) k =
     (case find (\<lambda>m. mr_dim m = k) ms of Some m \<Rightarrow> Some (mr_state m) | None \<Rightarrow> tget (adb_states db) k)"
proof (induction ms arbitrary: db)
  case Nil
  show ?case by simp
next
  case (Cons m ms)
  have "find (\<lambda>x. mr_dim x = mr_dim m) ms = None" using Cons.prems unfolding find_None_iff by (metis (mono_tags, lifting) distinct.simps(2) image_eqI list.set_map list.simps(9))
  with Cons show ?case by (auto simp: set_state_def tget_tput split: option.split)
qed

lemma map_filter_dims:
  assumes "distinct (map ru_id rules)"
  shows "distinct (map mr_dim (List.map_filter (match_of en sid payload now db) rules))"
    and "m \<in> set (List.map_filter (match_of en sid payload now db) rules) \<Longrightarrow>
      \<exists>r\<in>set rules. match_of en sid payload now db r = Some m"
proof -
  show mem: "\<exists>r\<in>set rules. match_of en sid payload now db r = Some m"
    if "m \<in> set (List.map_filter (match_of en sid payload now db) rules)" for m rules
    using that by (induction rules) (auto simp: List.map_filter_simps split: option.splits)
  show "distinct (map mr_dim (List.map_filter (match_of en sid payload now db) rules))"
    using assms
  proof (induction rules)
    case Nil
    show ?case by (simp add: List.map_filter_simps)
  next
    case (Cons r rules)
    show ?case
    proof (cases "match_of en sid payload now db r")
      case None
      with Cons show ?thesis by (simp add: List.map_filter_simps)
    next
      case (Some m)
      have "mr_dim x \<noteq> mr_dim m" if "x \<in> set (List.map_filter (match_of en sid payload now db) rules)" for x
      proof -
        from mem [OF that] obtain r' where "r' \<in> set rules" "match_of en sid payload now db r' = Some x" by blast
        with Cons.prems Some match_of_dim [OF Some] match_of_dim [of en sid payload now db r' x] show ?thesis
          by (force simp: image_iff)
      qed
      with Cons Some show ?thesis by (force simp: List.map_filter_simps image_iff)
    qed
  qed
qed

text \<open>The state that the decisions of a run have left for every source.\<close>

definition cooled :: "security_label list \<Rightarrow> security_world \<Rightarrow> bool" where
  "cooled ls w \<longleftrightarrow>
     (\<forall>e p ms m. Decided e p ms \<in> set ls \<longrightarrow> m \<in> set ms \<longrightarrow> snd (snd (mr_dim m)) \<noteq> '''' \<longrightarrow> fst (mr_dim m) \<in> rule_ids w \<longrightarrow>
        (\<exists>st. tget (adb_states (sdb_alert (sw_db w))) (mr_dim m) = Some st \<and> \<not> st_resolved st \<and>
           sev_created_at e \<le> st_last_notified_at st))"

lemma decided_rules_mem: "Decided e p ms \<in> set ls \<Longrightarrow> m \<in> set ms \<Longrightarrow> fst (mr_dim m) \<in> decided_rules ls"
  by (induction ls rule: decided_rules.induct) auto

lemma match_state_keeps:
  "st_last_notified_at (match_state now previous) \<ge> now" "\<not> st_resolved (match_state now previous)"
  "previous = Some st \<Longrightarrow> st_last_notified_at st \<le> st_last_notified_at (match_state now previous)"
  by (auto simp: match_state_def split: option.split)

lemma decision_states:
  assumes dec: "decision en db e p ms db'" and ok: "distinct (map ru_id (adb_rules (sdb_alert db)))"
  shows "adb_rules (sdb_alert db') = adb_rules (sdb_alert db) \<and>
    tget (adb_states (sdb_alert db')) k =
      (case find (\<lambda>m. mr_dim m = k) ms of Some m \<Rightarrow> Some (mr_state m) | None \<Rightarrow> tget (adb_states (sdb_alert db)) k) \<and>
    (\<forall>m\<in>set ms. \<exists>params. rule_match en (sev_server_id e) p (mr_rule m) = Some params \<and> mr_rule m \<in> set (adb_rules (sdb_alert db)) \<and>
       mr_dim m = (ru_id (mr_rule m), sev_server_id e, spy_source_ip p) \<and>
       mr_state m = match_state (sev_created_at e) (tget (adb_states (sdb_alert db)) (mr_dim m)) \<and>
       mr_should_notify m = match_notifies params (sev_created_at e) (tget (adb_states (sdb_alert db)) (mr_dim m)))"
proof -
  let ?rules = "filter ru_enabled (adb_rules (sdb_alert db))"
  let ?ms = "List.map_filter (match_of en (sev_server_id e) p (sev_created_at e) (sdb_alert db)) ?rules"
  from decision_exact [OF dec ok] have ms: "ms = [] \<or> ms = ?ms" and db': "sdb_alert db' = after_matches ms (sdb_alert db)"
    by (metis (full_types))+
  have "distinct (map ru_id ?rules)" using ok by (rule distinct_map_filter)
  note dims = map_filter_dims [OF this]
  have "distinct (map mr_dim ms)" using ms dims(1) by auto
  from after_matches_states [OF this, of "sdb_alert db" k]
  have "tget (adb_states (sdb_alert db')) k =
      (case find (\<lambda>m. mr_dim m = k) ms of Some m \<Rightarrow> Some (mr_state m) | None \<Rightarrow> tget (adb_states (sdb_alert db)) k)"
    by (simp add: db')
  moreover have "\<exists>params. rule_match en (sev_server_id e) p (mr_rule m) = Some params \<and> mr_rule m \<in> set (adb_rules (sdb_alert db)) \<and>
       mr_dim m = (ru_id (mr_rule m), sev_server_id e, spy_source_ip p) \<and>
       mr_state m = match_state (sev_created_at e) (tget (adb_states (sdb_alert db)) (mr_dim m)) \<and>
       mr_should_notify m = match_notifies params (sev_created_at e) (tget (adb_states (sdb_alert db)) (mr_dim m))"
    if "m \<in> set ms" for m
  proof -
    from that ms have "m \<in> set ?ms" by auto
    from dims(2) [OF this] obtain r where "r \<in> set (adb_rules (sdb_alert db))"
      "match_of en (sev_server_id e) p (sev_created_at e) (sdb_alert db) r = Some m" by auto
    then show ?thesis by (auto simp: match_of_def Let_def)
  qed
  ultimately show ?thesis by (simp add: db')
qed

lemma cooled_decided:
  assumes cool: "cooled ls w" and ok: "rules_ok w" and dec: "decision en (sw_db w) e p ms (sw_db w')"
  shows "cooled (ls @ [Decided e p ms]) w' \<and> rules_ok w'"
proof -
  have dist: "distinct (map ru_id (adb_rules (sdb_alert (sw_db w))))" using ok by (simp add: rules_ok_def)
  note st = decision_states [OF dec dist]
  have rules: "rule_ids w' = rule_ids w" "rules_ok w'" using st ok by (simp_all add: rule_ids_def rules_ok_def)
  have fresh: "\<exists>s. tget (adb_states (sdb_alert (sw_db w'))) (mr_dim m) = Some s \<and> \<not> st_resolved s \<and>
      sev_created_at e \<le> st_last_notified_at s \<and>
      (\<forall>s0. tget (adb_states (sdb_alert (sw_db w))) (mr_dim m) = Some s0 \<longrightarrow> st_last_notified_at s0 \<le> st_last_notified_at s)"
    if "m \<in> set ms" for m
  proof -
    from that have "find (\<lambda>x. mr_dim x = mr_dim m) ms \<noteq> None" by (auto simp: find_None_iff)
    then obtain m1 where m1: "find (\<lambda>x. mr_dim x = mr_dim m) ms = Some m1" by blast
    then have "m1 \<in> set ms" "mr_dim m1 = mr_dim m" by (auto simp: find_Some_iff)
    with st have "mr_state m1 = match_state (sev_created_at e) (tget (adb_states (sdb_alert (sw_db w))) (mr_dim m))" by metis
    moreover have "tget (adb_states (sdb_alert (sw_db w'))) (mr_dim m) = Some (mr_state m1)"
      using decision_states [OF dec dist, of "mr_dim m"] m1 by simp
    ultimately show ?thesis using match_state_keeps by auto
  qed
  have "\<exists>s. tget (adb_states (sdb_alert (sw_db w'))) (mr_dim m) = Some s \<and> \<not> st_resolved s \<and> sev_created_at e1 \<le> st_last_notified_at s"
    if old: "Decided e1 p1 ms1 \<in> set (ls @ [Decided e p ms])" "m \<in> set ms1" "snd (snd (mr_dim m)) \<noteq> ''''" "fst (mr_dim m) \<in> rule_ids w'"
    for e1 p1 ms1 m
  proof (cases "Decided e1 p1 ms1 \<in> set ls")
    case False
    with old(1,2) fresh [of m] show ?thesis by auto
  next
    case True
    with cool old rules obtain s0 where s0: "tget (adb_states (sdb_alert (sw_db w))) (mr_dim m) = Some s0"
      "\<not> st_resolved s0" "sev_created_at e1 \<le> st_last_notified_at s0" unfolding cooled_def by blast
    show ?thesis
    proof (cases "find (\<lambda>x. mr_dim x = mr_dim m) ms")
      case None
      with decision_states [OF dec dist, of "mr_dim m"] s0 show ?thesis by simp
    next
      case (Some m1)
      then have "m1 \<in> set ms" "mr_dim m1 = mr_dim m" by (auto simp: find_Some_iff)
      with fresh [of m1] s0 show ?thesis by force
    qed
  qed
  then show ?thesis using rules(2) unfolding cooled_def by blast
qed

lemma cooled_step:
  assumes cool: "cooled ls w" and ok: "rules_ok w" and step: "security_step en w l w'"
    and fresh: "(rule_ids w' - rule_ids w) \<inter> decided_rules ls = {}"
  shows "cooled (ls @ [l]) w' \<and> rules_ok w'"
  using step_alert [OF step]
proof (elim disjE conjE exE)
  assume same: "sdb_alert (sw_db w') = sdb_alert (sw_db w)" and no: "\<forall>e p ms. l \<noteq> Decided e p ms"
  have "Decided e p ms \<in> set (ls @ [l]) \<longleftrightarrow> Decided e p ms \<in> set ls" for e p ms using no by auto
  moreover have "rule_ids w' = rule_ids w" "rules_ok w'" using same ok by (simp_all add: rule_ids_def rules_ok_def)
  ultimately show ?thesis using cool same unfolding cooled_def by metis
next
  fix e p ms
  assume "l = Decided e p ms" "decision en (sw_db w) e p ms (sw_db w')"
  with cooled_decided [OF cool ok] show ?thesis by blast
next
  assume l: "l = Quiet" and others: "others_change w w'"
  have "\<exists>st. tget (adb_states (sdb_alert (sw_db w'))) (mr_dim m) = Some st \<and> \<not> st_resolved st \<and> sev_created_at e \<le> st_last_notified_at st"
    if old: "Decided e p ms \<in> set (ls @ [l])" "m \<in> set ms" "snd (snd (mr_dim m)) \<noteq> ''''" "fst (mr_dim m) \<in> rule_ids w'"
    for e p ms m
  proof -
    from old(1) l have dec: "Decided e p ms \<in> set ls" by simp
    from decided_rules_mem [OF dec old(2)] fresh old(4) have "fst (mr_dim m) \<in> rule_ids w" by blast
    with cool dec old(2,3) obtain st where st: "tget (adb_states (sdb_alert (sw_db w))) (mr_dim m) = Some st"
      "\<not> st_resolved st" "sev_created_at e \<le> st_last_notified_at st" unfolding cooled_def by blast
    obtain rule sid ip where k: "mr_dim m = (rule, sid, ip)" by (cases "mr_dim m")
    with others old(3,4) have "tget (adb_states (sdb_alert (sw_db w'))) (mr_dim m) = tget (adb_states (sdb_alert (sw_db w))) (mr_dim m)"
      unfolding others_change_def by simp
    with st show ?thesis by metis
  qed
  then show ?thesis using others unfolding cooled_def others_change_def by blast
qed

lemma run_cooled: "security_run en w0 ls w \<Longrightarrow> cooled ls w \<and> rules_ok w"
proof (induction rule: security_run.induct)
  case (RunStart w)
  then show ?case by (simp add: cooled_def security_start_def)
next
  case (RunStep w0 ls w l w')
  from RunStep.IH show ?case using cooled_step [OF _ _ RunStep.hyps(2,4)] by blast
qed

lemma run_last:
  assumes "security_run en w0 (ls @ [l]) w'"
  obtains w where "security_run en w0 ls w" "security_step en w l w'"
    "\<And>e. l = Accepted e \<Longrightarrow> sev_id e \<notin> sev_id ` set (accepted ls)"
  using assms by (cases rule: security_run.cases) auto

section \<open>Blocks\<close>

lemma auto_block_origin:
  assumes "auto_block en m a uuid now am fs = (res, fs')" and "r \<in> set (fs_rows fs')" and "r \<notin> set (fs_rows fs)"
  shows "(\<exists>family. canonicalize_target en (sm_source_ip m) = Inr (br_target r, family)) \<and>
    br_origin_event_id r = Some (sm_event_id m) \<and> br_origin_rule_id r = Some (sm_rule_id m) \<and>
    br_cover_type r = ba_cover_type a \<and> br_server_ids_json r = ba_server_ids_json a"
proof (cases "canonicalize_target en (sm_source_ip m)")
  case (Inl e)
  with assms show ?thesis by (simp add: auto_block_def)
next
  case (Inr tf)
  obtain target family where tf: "tf = (target, family)" by (cases tf)
  obtain fd fs1 where find: "find_block (\<lambda>r. br_target r = target) fs = (fd, fs1)"
    by (cases "find_block (\<lambda>r. br_target r = target) fs")
  note rows1 = find_block_frames [OF find]
  show ?thesis
  proof (cases "fd = Inr None \<and> is_protected en target (effective_allow en fs1) = None")
    case False
    then show ?thesis using assms Inr tf find rows1
      by (cases fd; cases "projr fd") (auto simp: auto_block_def block_frames split: option.splits if_splits)
  next
    case True
    let ?row = "\<lparr>br_id = uuid, br_target = target, br_family = uint family,
      br_cover_type = ba_cover_type a, br_server_ids_json = ba_server_ids_json a,
      br_comment = Some (auto_comment m a), br_origin = ORIGIN_AUTO,
      br_origin_event_id = Some (sm_event_id m), br_origin_rule_id = Some (sm_rule_id m),
      br_created_by = None, br_created_at = now\<rparr>"
    obtain res2 fs2 where ins: "insert_block ?row fs1 = (res2, fs2)" by (cases "insert_block ?row fs1")
    have "r = ?row"
      using insert_block_rows [OF ins] assms Inr tf True find ins rows1
      by (cases res2) (auto simp: auto_block_def Let_def block_frames)
    then show ?thesis using Inr tf by simp
  qed
qed

text \<open>Where a row comes from: the event, and a rule of the list with the action.\<close>

definition row_from ::
  "('f, 'n) security_env \<Rightarrow> security_event \<Rightarrow> security_payload \<Rightarrow> alert_rule \<Rightarrow> block_action \<Rightarrow> block_row \<Rightarrow> bool" where
  "row_from en e p rule a r \<longleftrightarrow>
     (\<exists>family. canonicalize_target (sx_block en) (spy_source_ip p) = Inr (br_target r, family)) \<and>
     br_origin_event_id r = Some (sev_id e) \<and> br_origin_rule_id r = Some (ru_id rule) \<and>
     br_cover_type r = ba_cover_type a \<and> br_server_ids_json r = ba_server_ids_json a"

lemma block_actions_origin:
  "r \<in> set (fs_rows (sw_firewall (block_actions en e p rule now uuids as w))) \<Longrightarrow>
   r \<notin> set (fs_rows (sw_firewall w)) \<Longrightarrow> \<exists>a\<in>set as. row_from en e p rule a r"
proof (induction en e p rule now uuids as w rule: block_actions.induct)
  case (1 en e p rule now uuids w)
  then show ?case by simp
next
  case (2 en e p rule now uuids a as w)
  let ?m = "\<lparr>sm_server_id = sev_server_id e, sm_rule_id = ru_id rule, sm_rule_name = ru_name rule,
            sm_source_ip = spy_source_ip p, sm_event_type = event_type_to_str (spy_event_type p),
            sm_severity = severity_to_str (spy_severity p), sm_event_id = sev_id e\<rparr>"
  let ?u = "case uuids of [] \<Rightarrow> [] | u # _ \<Rightarrow> u"
  obtain res fs where auto: "auto_block (sx_block en) ?m a ?u now (sw_manager w) (sw_firewall w) = (res, fs)"
    by (cases "auto_block (sx_block en) ?m a ?u now (sw_manager w) (sw_firewall w)")
  have next': "block_actions en e p rule now uuids (a # as) w =
      block_actions en e p rule now (tl uuids) as (w\<lparr>sw_firewall := fs\<rparr>)" using auto by (simp add: Let_def)
  show ?case
  proof (cases "r \<in> set (fs_rows fs)")
    case True
    from auto_block_origin [OF auto True 2(3)] show ?thesis by (auto simp: row_from_def)
  next
    case False
    with 2(1) [OF refl auto [symmetric]] 2(2) next' show ?thesis by auto
  qed
qed

lemma dispatch_origin:
  "dispatch_rule_effects en e p now uuids named ms w = (res, w') \<Longrightarrow>
   r \<in> set (fs_rows (sw_firewall w')) \<Longrightarrow> r \<notin> set (fs_rows (sw_firewall w)) \<Longrightarrow>
   \<exists>m\<in>set ms. \<exists>a\<in>set (actions_of (sx_rules en) (mr_rule m)). row_from en e p (mr_rule m) a r"
proof (induction ms arbitrary: named w)
  case Nil
  then show ?case by simp
next
  case (Cons m ms)
  let ?w = "block_actions en e p (mr_rule m) now (uuids (ru_id (mr_rule m))) (actions_of (sx_rules en) (mr_rule m)) w"
  show ?case
  proof (cases "r \<in> set (fs_rows (sw_firewall ?w))")
    case True
    from block_actions_origin [OF True Cons.prems(3)] show ?thesis by auto
  next
    case False
    from Cons.prems(1,2) False obtain named2 w2 where
      "dispatch_rule_effects en e p now uuids named2 ms w2 = (res, w')" "sw_firewall w2 = sw_firewall ?w"
      by (auto simp: Let_def security_query_def split: if_splits option.splits sum.splits prod.splits)
    with Cons.IH [of named2 w2] Cons.prems(2) False show ?thesis by auto
  qed
qed

section \<open>A run\<close>

definition ex_block_env :: "(ip_addr \<times> nat) block_env" where
  "ex_block_env = demo_env\<lparr>bn_parse_addr := (\<lambda>s. if s = ''198.51.100.7'' then Some (V4 198 51 100 7) else None),
     bn_print := (\<lambda>_. ''198.51.100.0/24'')\<rparr>"

definition ex_payload :: security_payload where
  "ex_payload = \<lparr>spy_event_type = SshBruteForceEvent, spy_severity = High, spy_source_ip = ''198.51.100.7'',
     spy_source_port = None, spy_username = None, spy_started_at = 0, spy_ended_at = 1, spy_first_seen = False,
     spy_detector_source = Journal,
     spy_evidence = SshBruteForceEvidence \<lparr>bf_failed_count = 9, bf_distinct_users = 1, bf_sample_users = [],
       bf_invalid_user_count = 0, bf_window_seconds = 60, bf_threshold = 5\<rparr>\<rparr>"

definition ex_security_env :: "(unit, ip_addr \<times> nat) security_env" where
  "ex_security_env = \<lparr>sx_block = ex_block_env, sx_rules = ssh_codec, sx_push = ex_push_env, sx_fingerprint = id,
     sx_utc_range = (\<lambda>_. True), sx_print_evidence = (\<lambda>_. ''{}''), sx_print_payload = (\<lambda>_. ''p''),
     sx_parse_payload = (\<lambda>s. if s = ''p'' then Some ex_payload else None), sx_print_recipients = (\<lambda>_. ''[]''),
     sx_parse_recipients = (\<lambda>_. Some [])\<rparr>"

definition ex_ssh_rule :: alert_rule where
  "ex_ssh_rule = \<lparr>ru_id = ''r'', ru_name = ''ssh'', ru_enabled = True, ru_rules_json = ''[ssh]'',
     ru_trigger_mode = ''always'', ru_notification_group_id = Some ''g'', ru_cover_type = ''all'',
     ru_server_ids_json = None, ru_actions_json = Some ''[block]'', ru_updated_at = 0\<rparr>"

definition ex_security_world :: security_world where
  "ex_security_world = \<lparr>sw_db = \<lparr>sdb_events = [], sdb_core = \<lparr>db_servers = [], db_offers = [], db_events = []\<rparr>,
       sdb_alert = \<lparr>adb_rules = [ex_ssh_rule], adb_servers = [], adb_states = [], adb_intents = [], adb_next_intent = 0,
         adb_maintenance = [], adb_recipients = [], adb_outbox = []\<rparr>,
       sdb_push = ex_push_db\<rparr>,
     sw_faults = [], sw_retained = [], sw_cursor = None, sw_push_cursor = None, sw_triggered = [],
     sw_manager = new_manager\<lparr>am_connections := [(''srv'', \<lparr>ac_connection_id = 1, ac_authority_fingerprint = Some ''f'',
        ac_server_name = ''srv'', ac_tx = 9, ac_last_report_at = 0, ac_remote_addr = [], ac_protocol_version = 2\<rparr>)]\<rparr>,
     sw_firewall = new_service, sw_browser = [], sw_sent = []\<rparr>"

definition ex_original :: "string \<Rightarrow> datetime \<Rightarrow> retained_event" where
  "ex_original i now = (case original_event ex_security_env ''srv'' ex_payload i now of Inr r \<Rightarrow> r)"

definition ex_record :: "string \<Rightarrow> datetime \<Rightarrow> security_world \<Rightarrow> security_world" where
  "ex_record i now w = snd (persist_original ex_security_env (ex_original i now) w)"

definition ex_admit :: "string \<Rightarrow> datetime \<Rightarrow> security_world \<Rightarrow> security_world" where
  "ex_admit i now w = snd (admit_original_event ex_security_env i now (\<lambda>_. [''u'' @ i]) w)"

definition ex_label :: "string \<Rightarrow> datetime \<Rightarrow> security_world \<Rightarrow> security_label" where
  "ex_label i now w = admission_label ex_security_env i now w (ex_admit i now w)"

text \<open>Two events eleven minutes apart are recorded and then decided.\<close>

definition ex_recorded :: security_world where
  "ex_recorded = ex_record ''2'' (seconds 660) (ex_record ''1'' 0 ex_security_world)"

definition ex_decided :: security_world where
  "ex_decided = ex_admit ''1'' (seconds 661) ex_recorded"

definition ex_finished :: security_world where
  "ex_finished = ex_admit ''2'' (seconds 662) ex_decided"

definition ex_labels :: "security_label list" where
  "ex_labels = [Accepted (rt_event (ex_original ''1'' 0)), Accepted (rt_event (ex_original ''2'' (seconds 660))),
     ex_label ''1'' (seconds 661) ex_recorded]"

lemma rule_ids_map: "rule_ids w = set (map ru_id (adb_rules (sdb_alert (sw_db w))))"
  by (simp add: rule_ids_def)

lemma ex_admit_step: "security_step ex_security_env w (ex_label i now w) (ex_admit i now w)"
  unfolding ex_label_def ex_admit_def
  by (rule SecAdmit [of _ _ _ _ _ "fst (admit_original_event ex_security_env i now (\<lambda>_. [''u'' @ i]) w)"]) simp

lemma ex_record_step:
  assumes "case original_event ex_security_env ''srv'' ex_payload i now of Inl _ \<Rightarrow> False | Inr _ \<Rightarrow> True"
    and "fst (persist_original ex_security_env (ex_original i now) w) = Inr ()"
  shows "security_step ex_security_env w (Accepted (rt_event (ex_original i now))) (ex_record i now w)"
proof (rule SecRecord)
  show "original_event ex_security_env ''srv'' ex_payload i now = Inr (ex_original i now)"
    using assms(1) by (simp add: ex_original_def split: sum.splits)
  show "persist_original ex_security_env (ex_original i now) w = (Inr (), ex_record i now w)"
    using assms(2) by (simp add: ex_record_def prod_eq_iff)
qed

lemma ex_original_id [simp]: "sev_id (rt_event (ex_original i now)) = i"
  by (simp add: ex_original_def original_event_def ex_security_env_def ex_block_env_def ex_payload_def)

lemma ex_rules:
  "map ru_id (adb_rules (sdb_alert (sw_db ex_security_world))) = [''r'']"
  "map ru_id (adb_rules (sdb_alert (sw_db (ex_record ''1'' 0 ex_security_world)))) = [''r'']"
  "map ru_id (adb_rules (sdb_alert (sw_db ex_recorded))) = [''r'']"
  "map ru_id (adb_rules (sdb_alert (sw_db ex_decided))) = [''r'']"
  "map ru_id (adb_rules (sdb_alert (sw_db ex_finished))) = [''r'']"
  by code_simp+

lemma ex_label_shapes:
  "case ex_label ''1'' (seconds 661) ex_recorded of
     Decided e p ms \<Rightarrow> sev_id e = ''1'' \<and> map mr_dim ms = [(''r'', ''srv'', ''198.51.100.7'')] | _ \<Rightarrow> False"
  "case ex_label ''2'' (seconds 662) ex_decided of
     Decided e p ms \<Rightarrow> sev_id e = ''2'' \<and> map mr_dim ms = [(''r'', ''srv'', ''198.51.100.7'')] \<and> map mr_should_notify ms = [True]
   | _ \<Rightarrow> False"
  by code_simp+

lemma ex_prefix_run:
  "security_run ex_security_env ex_security_world ex_labels ex_decided"
proof -
  let ?a1 = "rt_event (ex_original ''1'' 0)" and ?a2 = "rt_event (ex_original ''2'' (seconds 660))"
  have 0: "security_run ex_security_env ex_security_world [] ex_security_world"
    by (rule RunStart) (simp add: security_start_def rules_ok_def ex_rules, simp add: ex_security_world_def)
  have 1: "security_step ex_security_env ex_security_world (Accepted ?a1) (ex_record ''1'' 0 ex_security_world)"
    by (rule ex_record_step) code_simp+
  have 2: "security_step ex_security_env (ex_record ''1'' 0 ex_security_world) (Accepted ?a2) ex_recorded"
    unfolding ex_recorded_def by (rule ex_record_step) code_simp+
  have run1: "security_run ex_security_env ex_security_world ([] @ [Accepted ?a1]) (ex_record ''1'' 0 ex_security_world)"
    by (rule RunStep [OF 0 1]) simp_all
  have run2: "security_run ex_security_env ex_security_world (([] @ [Accepted ?a1]) @ [Accepted ?a2]) ex_recorded"
    by (rule RunStep [OF run1 2]) simp_all
  have "security_run ex_security_env ex_security_world
      ((([] @ [Accepted ?a1]) @ [Accepted ?a2]) @ [ex_label ''1'' (seconds 661) ex_recorded]) ex_decided"
    unfolding ex_decided_def
  proof (rule RunStep [OF run2 ex_admit_step])
    show "\<forall>e. ex_label ''1'' (seconds 661) ex_recorded = Accepted e \<longrightarrow>
        sev_id e \<notin> sev_id ` set (accepted (([] @ [Accepted ?a1]) @ [Accepted ?a2]))"
      using ex_label_shapes(1) by auto
  qed simp
  then show ?thesis by (simp add: ex_labels_def)
qed

lemma ex_last_run:
  obtains e p m where "ex_label ''2'' (seconds 662) ex_decided = Decided e p [m]" "mr_dim m = (''r'', ''srv'', ''198.51.100.7'')"
    "mr_should_notify m" "sev_id e = ''2''"
    "security_run ex_security_env ex_security_world (ex_labels @ [Decided e p [m]]) ex_finished"
proof -
  obtain e p ms where l: "ex_label ''2'' (seconds 662) ex_decided = Decided e p ms" and i: "sev_id e = ''2''"
    and ms: "map mr_dim ms = [(''r'', ''srv'', ''198.51.100.7'')]" "map mr_should_notify ms = [True]"
    using ex_label_shapes(2) by (auto split: security_label.splits)
  then obtain m where m: "ms = [m]" "mr_dim m = (''r'', ''srv'', ''198.51.100.7'')" "mr_should_notify m" by auto
  have "security_run ex_security_env ex_security_world (ex_labels @ [ex_label ''2'' (seconds 662) ex_decided]) ex_finished"
    unfolding ex_finished_def
  proof (rule RunStep [OF ex_prefix_run ex_admit_step])
    show "\<forall>e. ex_label ''2'' (seconds 662) ex_decided = Accepted e \<longrightarrow> sev_id e \<notin> sev_id ` set (accepted ex_labels)"
      using l by simp
    show "(rule_ids (ex_admit ''2'' (seconds 662) ex_decided) - rule_ids ex_decided) \<inter> decided_rules ex_labels = {}"
      unfolding ex_finished_def [symmetric] rule_ids_map ex_rules by simp
  qed
  then show ?thesis using that l i m by simp
qed

section \<open>Properties\<close>

text \<open>
  Claim C3: at every moment of a run the accepted events are exactly those that wait (retained or
  pending) and those that are finished (decided or refused), and no event is both, or finished
  twice, whatever statements fail and in whatever order storing, admission and cleanup happen.
\<close>

theorem security_events_accounted:
  assumes "security_run en w0 ls w"
  shows "distinct (finished ls) \<and> fst ` waiting w \<inter> set (finished ls) = {} \<and>
    fst ` waiting w \<union> set (finished ls) = sev_id ` set (accepted ls)"
  using accountedD(5-7) [OF run_accounted [OF assms]] by blast

theorem security_events_accounted_witness:
  "fst ` waiting ex_decided \<union> {''1''} = {''1'', ''2''} \<and> ''1'' \<notin> fst ` waiting ex_decided"
proof -
  have "finished ex_labels = [''1'']" "sev_id ` set (accepted ex_labels) = {''1'', ''2''}"
    using ex_label_shapes(1) by (auto simp: ex_labels_def split: security_label.splits)
  with security_events_accounted [OF ex_prefix_run] show ?thesis by auto
qed

text \<open>
  Claim C4: an event is decided only after every earlier accepted event of the same server, type
  and address is finished, although storing retries out of order.
\<close>

theorem security_decisions_in_order:
  assumes "security_run en w0 (ls @ [Decided e p ms]) w'" and "a \<in> set (accepted ls)" and "earlier_original e a"
  shows "sev_id a \<in> set (finished ls)"
proof (rule ccontr)
  assume unfinished: "sev_id a \<notin> set (finished ls)"
  obtain w where run: "security_run en w0 ls w" and step: "security_step en w (Decided e p ms) w'"
    using assms(1) by (rule run_last) blast
  note acc = accountedD [OF run_accounted [OF run]]
  have "sev_id a \<in> fst ` waiting w" using acc(7) assms(2) unfinished by blast
  then obtain c where c: "c \<in> waiting w" "fst c = sev_id a" by (metis imageE)
  then obtain b where b: "b \<in> set (accepted ls)" "c = event_core b" using acc(4) by blast
  with c have b': "sev_id b = sev_id a" "event_core b \<in> waiting w" by simp_all
  then have "b = a" using acc(2) assms(2) b(1) b'(1) by (auto simp: distinct_map dest: inj_onD)
  moreover have "queue_change (waiting w) (Decided e p ms) (waiting w')" using step_change [OF acc(1) step] by simp
  ultimately show False using b'(2) assms(3) by (simp add: earlier_core)
qed

theorem security_decisions_in_order_witness:
  "\<exists>e p m. ex_label ''2'' (seconds 662) ex_decided = Decided e p [m] \<and> earlier_original e (rt_event (ex_original ''1'' 0)) \<and>
     ''1'' \<in> set (finished ex_labels)"
proof -
  obtain e p m where run: "ex_label ''2'' (seconds 662) ex_decided = Decided e p [m]"
    "security_run ex_security_env ex_security_world (ex_labels @ [Decided e p [m]]) ex_finished"
    by (rule ex_last_run)
  have "case ex_label ''2'' (seconds 662) ex_decided of Decided e p ms \<Rightarrow> earlier_original e (rt_event (ex_original ''1'' 0)) | _ \<Rightarrow> False"
    by code_simp
  then have "earlier_original e (rt_event (ex_original ''1'' 0))" by (simp only: run(1) security_label.case)
  from security_decisions_in_order [OF run(2) _ this] this run(1) show ?thesis by (auto simp: ex_labels_def)
qed

text \<open>
  Claim C11: a notification for a server, rule and address comes at least the rule's window after every
  earlier match of them in the run, suppressed ones included, as long as the rule exists.
\<close>

theorem security_notifications_spaced:
  assumes "security_run en w0 (ls @ [Decided e p ms]) w'" and "m \<in> set ms" and "mr_should_notify m"
    and "Decided e1 p1 ms1 \<in> set ls" and "m1 \<in> set ms1" and "mr_dim m1 = mr_dim m" and "spy_source_ip p \<noteq> ''''"
  shows "\<exists>params. rule_match en (sev_server_id e) p (mr_rule m) = Some params \<and>
    seconds (uint (sp_dedupe_window_seconds params)) \<le> sev_created_at e - sev_created_at e1"
proof -
  obtain w where run: "security_run en w0 ls w" and step: "security_step en w (Decided e p ms) w'"
    using assms(1) by (rule run_last) blast
  note cool = run_cooled [OF run]
  from step_alert [OF step] have dec: "decision en (sw_db w) e p ms (sw_db w')" by auto
  have "distinct (map ru_id (adb_rules (sdb_alert (sw_db w))))" using cool by (simp add: rules_ok_def)
  from decision_states [OF dec this] assms(2) obtain params where m:
    "rule_match en (sev_server_id e) p (mr_rule m) = Some params" "mr_rule m \<in> set (adb_rules (sdb_alert (sw_db w)))"
    "mr_dim m = (ru_id (mr_rule m), sev_server_id e, spy_source_ip p)"
    "mr_should_notify m = match_notifies params (sev_created_at e) (tget (adb_states (sdb_alert (sw_db w))) (mr_dim m))" by blast
  have "fst (mr_dim m1) \<in> rule_ids w" "snd (snd (mr_dim m1)) \<noteq> ''''" using m(2,3) assms(6,7) by (auto simp: rule_ids_def)
  with cool assms(4,5) obtain st where "tget (adb_states (sdb_alert (sw_db w))) (mr_dim m1) = Some st" "\<not> st_resolved st"
    "sev_created_at e1 \<le> st_last_notified_at st" unfolding cooled_def by blast
  with m assms(3,6) have "seconds (uint (sp_dedupe_window_seconds params)) \<le> sev_created_at e - sev_created_at e1"
    by (simp add: match_notifies_def)
  with m(1) show ?thesis by blast
qed

theorem security_notifications_spaced_witness:
  "\<exists>e p m params. ex_label ''2'' (seconds 662) ex_decided = Decided e p [m] \<and> mr_should_notify m \<and>
     rule_match ex_security_env (sev_server_id e) p (mr_rule m) = Some params \<and>
     seconds (uint (sp_dedupe_window_seconds params)) \<le> sev_created_at e"
proof -
  obtain e p m where l: "ex_label ''2'' (seconds 662) ex_decided = Decided e p [m]" "mr_dim m = (''r'', ''srv'', ''198.51.100.7'')"
    "mr_should_notify m" and run: "security_run ex_security_env ex_security_world (ex_labels @ [Decided e p [m]]) ex_finished"
    by (rule ex_last_run)
  obtain e1 p1 ms1 where l1: "ex_label ''1'' (seconds 661) ex_recorded = Decided e1 p1 ms1"
    "map mr_dim ms1 = [(''r'', ''srv'', ''198.51.100.7'')]"
    using ex_label_shapes(1) by (auto split: security_label.splits)
  then obtain m1 where m1: "ms1 = [m1]" "mr_dim m1 = (''r'', ''srv'', ''198.51.100.7'')" by auto
  have "case ex_label ''2'' (seconds 662) ex_decided of Decided e p ms \<Rightarrow> spy_source_ip p = ''198.51.100.7'' | _ \<Rightarrow> False"
    by code_simp
  then have ip: "spy_source_ip p \<noteq> ''''" unfolding l(1) security_label.case by simp
  have "case ex_label ''1'' (seconds 661) ex_recorded of Decided e p ms \<Rightarrow> sev_created_at e = 0 | _ \<Rightarrow> False"
    by code_simp
  then have at: "sev_created_at e1 = 0" unfolding l1(1) security_label.case by simp
  have "Decided e1 p1 ms1 \<in> set ex_labels" unfolding ex_labels_def l1(1) by simp
  from security_notifications_spaced [OF run _ l(3) this, of m1] m1 l(2) ip at have
    "\<exists>params. rule_match ex_security_env (sev_server_id e) p (mr_rule m) = Some params \<and>
      seconds (uint (sp_dedupe_window_seconds params)) \<le> sev_created_at e" by simp
  with l(1,3) show ?thesis by blast
qed

text \<open>
  Claim C40: an event leaves the queue without a decision only when the authority it was reported
  under no longer holds: the server is gone, its token changed, or security events are not allowed.
\<close>

theorem security_refusal_lost_authority:
  assumes "security_run en w0 (ls @ [Refused i]) w'"
  shows "\<exists>w. security_run en w0 ls w \<and> (\<exists>e \<in> rt_event ` set (sw_retained w) \<union> set (pending_events (sw_db w)).
    sev_id e = i \<and> \<not> authority_holds en (sw_manager w) (sw_db w) e)"
proof -
  obtain w where run: "security_run en w0 ls w" and step: "security_step en w (Refused i) w'"
    using assms by (rule run_last) blast
  from refused_step [OF accountedD(1) [OF run_accounted [OF run]] step] run show ?thesis by blast
qed

definition ex_retained :: security_world where
  "ex_retained = snd (retain_agent_event ex_security_env ''srv'' ex_payload ''3'' 0 ex_security_world)"

lemma ex_refused_run:
  "security_run ex_security_env ex_security_world
     ([Accepted (rt_event (hd (sw_retained ex_retained)))] @ [Refused ''3''])
     (store_retained ex_security_env (hd (sw_retained ex_retained)) ex_retained)"
proof -
  let ?r = "hd (sw_retained ex_retained)"
  have 0: "security_run ex_security_env ex_security_world [] ex_security_world"
    by (rule RunStart) (simp add: security_start_def rules_ok_def ex_rules, simp add: ex_security_world_def)
  have facts: "fst (retain_agent_event ex_security_env ''srv'' ex_payload ''3'' 0 ex_security_world) = Inr ()"
    "length (sw_retained ex_retained) = 1" "sw_retained ex_security_world = []" "sev_id (rt_event ?r) = ''3''"
    by code_simp+
  then have r: "sw_retained ex_retained = sw_retained ex_security_world @ [?r]" by (cases "sw_retained ex_retained") auto
  have 1: "security_step ex_security_env ex_security_world (Accepted (rt_event ?r)) ex_retained"
    by (rule SecRetain [OF _ r]) (use facts(1) in \<open>simp add: ex_retained_def prod_eq_iff\<close>)
  have run1: "security_run ex_security_env ex_security_world ([] @ [Accepted (rt_event ?r)]) ex_retained"
    by (rule RunStep [OF 0 1]) simp_all
  let ?w = "store_retained ex_security_env ?r ex_retained"
  have "refusal ex_retained ?w ''3'' = Refused ''3''" by code_simp
  moreover have "?r \<in> set (sw_retained ex_retained)" using facts(2) by (cases "sw_retained ex_retained") auto
  ultimately have 2: "security_step ex_security_env ex_retained (Refused ''3'') ?w"
    using SecStore [of ?r ex_retained ?w ex_security_env] facts(4) by simp
  have "security_run ex_security_env ex_security_world (([] @ [Accepted (rt_event ?r)]) @ [Refused ''3'']) ?w"
  proof (rule RunStep [OF run1 2])
    have "map ru_id (adb_rules (sdb_alert (sw_db ?w))) = map ru_id (adb_rules (sdb_alert (sw_db ex_retained)))" by code_simp
    then show "(rule_ids ?w - rule_ids ex_retained) \<inter> decided_rules ([] @ [Accepted (rt_event ?r)]) = {}"
      by (simp add: rule_ids_map)
  qed simp
  then show ?thesis by simp
qed

theorem security_refusal_lost_authority_witness:
  "\<exists>w e. security_run ex_security_env ex_security_world [Accepted (rt_event (hd (sw_retained ex_retained)))] w \<and>
     sev_id e = ''3'' \<and> \<not> authority_holds ex_security_env (sw_manager w) (sw_db w) e"
  using security_refusal_lost_authority [OF ex_refused_run] by blast

text \<open>
  Claim C12: a row that an admission adds to the block list stems from a pending event whose
  authority holds and that is next in its key, and from an enabled rule that matched it outside
  maintenance and has the blocking action; its target is the address of the event.
\<close>

theorem security_blocks_justified:
  assumes "admit_original_event en i now uuids w = (q, w')" and "rules_ok w"
    and "r \<in> set (fs_rows (sw_firewall w'))" and "r \<notin> set (fs_rows (sw_firewall w))"
  shows "\<exists>e p rule a. tget (sdb_events (sw_db w)) i = Some e \<and> authority_holds en (sw_manager w) (sw_db w) e \<and>
    next_in_key (sw_retained w) (sw_db w) e \<and> sev_maintenance_at_admission e = Some False \<and>
    Option.bind (sev_admission_payload e) (sx_parse_payload en) = Some p \<and>
    rule \<in> set (adb_rules (sdb_alert (sw_db w))) \<and> ru_enabled rule \<and> rule_match en (sev_server_id e) p rule \<noteq> None \<and>
    a \<in> set (actions_of (sx_rules en) rule) \<and> row_from en e p rule a r"
proof -
  let ?m = "admit_event_body en (sw_manager w) (sw_retained w) i now"
  obtain res w1 where tx: "security_tx ?m w = (res, w1)" by (cases "security_tx ?m w")
  note facts = security_tx_cases [OF tx]
  have fw: "sw_firewall w1 = sw_firewall w" using tx by (auto simp: security_tx_def split: prod.splits)
  from assms(1,3,4) tx fw obtain e p ms where res: "res = Inr (Some (e, p, ms))"
    and w': "w' = snd (dispatch_rule_effects en e p now uuids False ms (publish_matches ms w1))"
    by (auto simp: admit_original_event_def split: sum.splits option.splits prod.splits)
  obtain d where "dispatch_rule_effects en e p now uuids False ms (publish_matches ms w1) = (d, w')"
    using w' by (metis prod.collapse)
  from dispatch_origin [OF this assms(3)] assms(4) fw obtain m a where m: "m \<in> set ms"
    "a \<in> set (actions_of (sx_rules en) (mr_rule m))" "row_from en e p (mr_rule m) a r"
    by (auto simp: publish_matches_def)
  from facts res fault_blind_admit have "?m (sw_db w, []) = (Inr (Some (e, p, ms)), sw_db w1, [])" by blast
  from admit_effect [OF this] have e: "tget (sdb_events (sw_db w)) i = Some e" "authority_holds en (sw_manager w) (sw_db w) e"
    "next_in_key (sw_retained w) (sw_db w) e" and dec: "decision en (sw_db w) e p ms (sw_db w1)" by auto
  have dist: "distinct (map ru_id (adb_rules (sdb_alert (sw_db w))))" using assms(2) by (simp add: rules_ok_def)
  from decision_exact [OF dec dist] m(1) have
    "sev_maintenance_at_admission e = Some False" and ms: "ms = List.map_filter (match_of en (sev_server_id e) p (sev_created_at e)
      (sdb_alert (sw_db w))) (filter ru_enabled (adb_rules (sdb_alert (sw_db w))))" by (auto split: if_splits)
  moreover obtain rule where "rule \<in> set (filter ru_enabled (adb_rules (sdb_alert (sw_db w))))"
    "match_of en (sev_server_id e) p (sev_created_at e) (sdb_alert (sw_db w)) rule = Some m"
    using map_filter_dims(2) [OF distinct_map_filter [OF dist]] m(1) unfolding ms by blast
  then have "mr_rule m \<in> set (adb_rules (sdb_alert (sw_db w))) \<and> ru_enabled (mr_rule m) \<and>
      rule_match en (sev_server_id e) p (mr_rule m) \<noteq> None"
    by (auto simp: match_of_def Let_def)
  moreover have "Option.bind (sev_admission_payload e) (sx_parse_payload en) = Some p"
    using dec by (auto simp: decision_def)
  ultimately show ?thesis using e m(2,3) by blast
qed

theorem security_blocks_justified_witness:
  "\<exists>r e p rule a. r \<in> set (fs_rows (sw_firewall ex_decided)) \<and> tget (sdb_events (sw_db ex_recorded)) ''1'' = Some e \<and>
     row_from ex_security_env e p rule a r \<and> ru_enabled rule"
proof -
  have rows: "length (fs_rows (sw_firewall ex_decided)) = 1" "length (fs_rows (sw_firewall ex_recorded)) = 0" by code_simp+
  then obtain r where r: "r \<in> set (fs_rows (sw_firewall ex_decided))" "r \<notin> set (fs_rows (sw_firewall ex_recorded))"
    by (cases "fs_rows (sw_firewall ex_decided)") auto
  have run: "admit_original_event ex_security_env ''1'' (seconds 661) (\<lambda>_. [''u'' @ ''1'']) ex_recorded =
      (fst (admit_original_event ex_security_env ''1'' (seconds 661) (\<lambda>_. [''u'' @ ''1'']) ex_recorded), ex_decided)"
    unfolding ex_decided_def ex_admit_def by (rule prod.collapse [symmetric])
  have "rules_ok ex_recorded" unfolding rules_ok_def ex_rules by simp
  from security_blocks_justified [OF run this r] r(1) show ?thesis by blast
qed

text \<open>
  The blocks of a rule are lost when an earlier notification cannot read the server's name: the
  effects end there, and the event is decided already.
\<close>

lemma failed_lookup_skips_blocks:
  assumes "mr_should_notify m" and "ru_notification_group_id (mr_rule m) = Some g"
    and "sw_faults w = True # fs" and "actions_of (sx_rules en) (mr_rule m) = []"
  shows "dispatch_rule_effects en e p now uuids False (m # ms) w = (Inl db_error, w\<lparr>sw_faults := fs\<rparr>)"
  using assms by (simp add: security_query_def tx_query_def tx_statement_def)

end
