(* ===== verification/Spec2Isabelle.thy ===== *)
theory Spec2Isabelle
  imports Ssrf Capability_Policy Capability_Authority Agent_Registry Capability_Gate
    Authority_Properties Upgrade_Tracker Docker_Viewers File_Transfer Ssh_Detector Scan_Detector
    First_Seen Billing_Cycle Traffic Upgrade_Transaction Agent_Firewall
    Block_Safety Block_Pages Reconcile_Order Alert_Events Task_Push Security_Properties
begin

text \<open>
  ServerBee is a monitoring system: an agent (\<open>crates/agent\<close>) runs on every server and keeps a
  websocket to one central server (\<open>crates/server\<close>), which stores what agents report, drives them
  with commands and serves browsers; \<open>crates/common\<close> holds the protocol both speak.  This library
  models the parts of the three crates that decide something, and proves what makes them correct.

  \<^bold>\<open>How the parts interact.\<close>  An agent obtains its credential by claiming an enrolment offer and is
  then admitted to the registry of connections; commands reach it through the capability gate, its
  replies find their waiter through the registry.  The server pushes the desired state (ping tasks,
  probes, block list) over that connection, and the agent reports traffic, security events, capability changes
  and acknowledgements back, which become traffic rows, alert states, push jobs and blocked addresses.

  \<^bold>\<open>Server: enrolment, registry, gate\<close> (\<open>service/agent_authority\<close>, \<open>service/agent_manager.rs\<close>,
  \<open>service/capability_gate.rs\<close>).  \<open>Authority_Types\<close> has the values, \<open>Agent_Authority\<close> every operation
  on the tables and the registry, \<open>Agent_Manager\<close> the registry; \<open>Authority_Logic\<close> is a
  weakest-precondition calculus that covers every schedule of failing statements.
  \<open>Authority_Steps\<close> is the abstract protocol, \<open>Authority_Refinement\<close> shows that each operation commits only its
  transitions, \<open>Authority_Safety\<close> is the transition system of the whole service, and
  \<open>Authority_Properties\<close> states its safety, atomicity and single use of codes.  \<open>Agent_Registry\<close> is
  the contract of the registry as the locale \<open>agent_registry\<close>, interpreted on \<open>Agent_Manager\<close>, on which
  the authority's proofs rest.  \<open>Capability_Gate\<close> is the gate; this theory composes it with the rest.

  \<^bold>\<open>Server: block list and desired state\<close> (\<open>service/firewall.rs\<close>, \<open>router/api/firewall.rs\<close>,
  \<open>service/agent_reconcile.rs\<close>).  \<open>Block_List\<close> has the service and its handlers, \<open>Block_Pages\<close> the paged
  listing and the client's walk over it, \<open>Block_Safety\<close> what a run of operations with failing
  statements leaves in the table and that a repair brings an agent's kernel to it; for that it is composed with
  \<open>Agent_Firewall\<close>, the agent's side.  The listing matches targets as SQLite's \<open>LIKE\<close> does, wildcards
  and case included.  \<open>Agent_Reconcile\<close> has the providers of the desired state and
  \<open>Reconcile_Order\<close> their interleaving under the provider lock, while agents report the
  capabilities that each message is made of.

  \<^bold>\<open>Server: alerts\<close> (\<open>service/alert.rs\<close>, \<open>alert_event_intents.rs\<close>, \<open>mobile_alert_push.rs\<close>,
  \<open>maintenance.rs\<close>).  \<open>Alert_Rules\<close> has rules and their validation, \<open>Alert_State\<close> the transactions on states,
  intents and push jobs, \<open>Alert_Admission\<close> refines a run of polls to a two-phase machine, and
  \<open>Alert_Events\<close> shows that capture, overlapping replay passes (which notify after they release the
  admission lock) and crashes repeat no notification, begin them in order, and lose only what a
  crash finds under way.

  \<^bold>\<open>Server: mobile push\<close> (\<open>router/api/mobile_push.rs\<close>, \<open>mobile_push_outbox.rs\<close>, \<open>push_envelope.rs\<close>,
  \<open>task_notification.rs\<close>).  \<open>Mobile_Push\<close> has registrations, sealing, the outbox and its workers,
  \<open>Push_Producers\<close> the jobs of task runs and alerts.  \<open>Push_Delivery\<close> is the system of all of them as a
  step relation with crashes, late answers and account changes, with the invariant that jobs stay bound
  to the key and login they were made for, and, with the deletions of registrations, what of it is left;
  \<open>Push_Outbox\<close> refines it to a machine for one row, which bounds
  the attempts; \<open>Push_Properties\<close> and \<open>Task_Push\<close> state the results, and two flaws.

  \<^bold>\<open>Server: security events\<close> (\<open>service/security.rs\<close>, \<open>task/cleanup.rs\<close>).  \<open>Security_Events\<close> has the service:
  the queue in memory, the table, the admission to the alert rules, the effects of a match on
  \<open>Block_List\<close> and \<open>Mobile_Push\<close>.  \<open>Security_Admission\<close> gives its transactions as effects and its
  runs, in which other services change rules, accounts, connections and blocks at any time;
  \<open>Security_Queue\<close> abstracts them to one set of waiting events; \<open>Security_Properties\<close> states that none is
  lost, decided twice or out of order, how far apart notifications are, and what a block stems from.
  A run takes the admission of an event, with the queue it reads, as one step.

  \<^bold>\<open>Server: the rest.\<close>  \<open>Traffic\<close> (counters, roll-up, history; \<open>service/traffic.rs\<close>,
  \<open>task/record_writer.rs\<close>) on \<open>Billing_Cycle\<close> (calendar arithmetic), \<open>Upgrade_Tracker\<close>,
  \<open>Docker_Viewers\<close>, \<open>File_Transfer\<close> (a write goes on after its call returns, and its error
  appears at the next operation, as \<open>tokio\<close> documents), \<open>Ssrf\<close> (the guard of outgoing requests) and \<open>App_Error\<close>.

  \<^bold>\<open>Agent.\<close>  \<open>Capability\<close> (the bits, shared), \<open>Capability_Policy\<close> (start-up mask), \<open>Grant_Store\<close> and
  \<open>Capability_Authority\<close> (temporary grants, their journal); \<open>Sliding_Window\<close> with the locale
  \<open>window_detector\<close>, interpreted by \<open>Ssh_Detector\<close> and \<open>Scan_Detector\<close>, each equal to a reference that keeps the whole
  history; \<open>First_Seen\<close>; \<open>Upgrade_Transaction\<close> (installing and rolling back the executable, every
  system call able to fail or crash); \<open>Agent_Firewall\<close> (the mirror of the block list in \<open>nft\<close>): there
  the kernel changes by the commands whose process ends well, and by no other, so that an answer of
  the driver can be false of it; the mirror is exact under the stated truth of nft's answers.

  \<^bold>\<open>Conventions.\<close>  \<open>SB_Prelude\<close> fixes them: results as sums, hash tables as association lists, words of
  the width the code uses, times as integers of nanoseconds.  A \<open>i64\<close> or \<open>i32\<close> is an integer with its wrap-around or
  saturation written out where the code can reach it.  Everything evaluates, and witnesses evaluate it.
  Clocks, random identifiers and what a library or the operating system answers (JSON, base64,
  \<open>ipnet\<close>, password hashing, files, \<open>nft\<close>) are arguments.  A database statement succeeds or fails as a
  list of faults says, and a theorem quantifies over the list; a transaction is atomic (theory
  \<open>Transactions\<close>).  Sums of the database are exact integers: SQLite's change to reals beyond 64 bits is left out.  Concurrency
  is interleaving: an operation is one step where the code holds a lock or a transaction, and
  is split where it does not (removing a viewer, a ready frame, a claim, a repair, a replay pass and
  its notification, a write and its end).
  There is no fuel: every loop is structural or has a measure, and the one walk that depends on
  a client (\<open>Block_Pages\<close>) has its number of steps bounded by a theorem.

  \<^bold>\<open>Not modelled.\<close>  Routing, serialisation and documentation attributes of the HTTP layer; the agent's websocket loop,
  collectors, terminal, files, docker and probes (input and output of the operating system); the conditions of
  alerts, charts and predictions (floating point over stored records); user and mobile
  login, one-time codes, OAuth, status pages, dashboards, the scheduling of tasks
  and notification templates; the web and iOS applications (other languages).
\<close>

section \<open>Enrolment, registry and gate together\<close>

text \<open>
  Claim C8: a gated command only reaches an agent with the current credential.  In every reachable
  world of the enrolment service, when the online gate lets a command for a server through, the
  agent's mask holds the capability and the command goes to a connection that was admitted under
  the token hash of the very server row the gate returns; after a successful revocation the gate
  lets nothing through for that server.
\<close>

theorem commands_reach_credentialed_agents:
  assumes "reachable cr w"
    and "require_capability_online (Some (w_db w)) (w_mgr w) (w_mgr w) sid cap = Inr server"
  shows "(\<exists>c h. tget (am_connections (w_mgr w)) sid = Some c \<and> sv_token_hash server = Some h \<and>
      ac_authority_fingerprint c = Some (cr_fingerprint cr h)) \<and>
    has_capability (deciding_mask (w_mgr w) sid server) cap \<and>
    (\<forall>en input changed w' cap'. rq_server_id input = sid \<longrightarrow>
       revoke_authority en input w = (Inr changed, w') \<longrightarrow>
       (\<exists>e. require_capability_online (Some (w_db w')) (w_mgr w') (w_mgr w') sid cap' = Inl e))"
proof (intro conjI allI impI)
  have row: "get_server (Some (w_db w)) sid = Inr server"
    and mask: "has_capability (deciding_mask (w_mgr w) sid server) cap"
    and online: "is_online sid (w_mgr w)"
    using assms(2) require_capability_iff [of "Some (w_db w)" "w_mgr w" sid cap server]
    by (auto simp: require_capability_online_def try_bind_def split: sum.splits if_splits)
  show "has_capability (deciding_mask (w_mgr w) sid server) cap" by (rule mask)
  from online obtain c where c: "tget (am_connections (w_mgr w)) sid = Some c"
    by (auto simp: is_online_def thas_def)
  with reachable_inv [OF assms(1)] row show "\<exists>c h. tget (am_connections (w_mgr w)) sid = Some c \<and>
      sv_token_hash server = Some h \<and> ac_authority_fingerprint c = Some (cr_fingerprint cr h)"
    by (fastforce simp: auth_inv_def live_ok_def conns_def get_server_def)
  fix en input changed w' cap'
  assume sid: "rq_server_id input = sid" and rev: "revoke_authority en input w = (Inr changed, w')"
  from revoke_effect [OF auth_inv_db [OF reachable_inv [OF assms(1)]], of en input changed] rev sid
  have "w_mgr w' = broadcast_agent_authority_changed sid
      \<lparr>as_status = Unclaimed, as_outstanding_offer = None\<rparr> (remove_connection sid (w_mgr w))"
    by (simp add: revoked_world_def)
  then have "\<not> is_online sid (w_mgr w')"
    using remove_offline [of sid "w_mgr w"]
    by (simp add: is_online_def broadcast_agent_authority_changed_def broadcast_browser_def)
  then show "\<exists>e. require_capability_online (Some (w_db w')) (w_mgr w') (w_mgr w') sid cap' = Inl e"
    by (cases "require_capability (Some (w_db w')) (w_mgr w') sid cap'")
      (auto simp: require_capability_online_def)
qed

definition demo_reporting :: world where
  "demo_reporting = demo_admitted
     \<lparr>w_mgr := am_step (w_mgr demo_admitted) (Capabilities ''srv'' CAP_EXEC)\<rparr>"

theorem commands_reach_credentialed_agents_witness:
  "\<exists>server c h. require_capability_online (Some (w_db demo_reporting)) (w_mgr demo_reporting)
       (w_mgr demo_reporting) ''srv'' CAP_EXEC = Inr server \<and>
     tget (am_connections (w_mgr demo_reporting)) ''srv'' = Some c \<and> sv_token_hash server = Some h \<and>
     ac_authority_fingerprint c = Some (cr_fingerprint demo_crypto h)"
proof -
  have "reachable demo_crypto demo_reporting"
    unfolding demo_reporting_def
    by (rule reachable_step [OF demo_reachable(3)]) (rule auth_step.StepRegistry, simp)
  moreover have "case require_capability_online (Some (w_db demo_reporting)) (w_mgr demo_reporting)
       (w_mgr demo_reporting) ''srv'' CAP_EXEC of Inr _ \<Rightarrow> True | Inl _ \<Rightarrow> False"
    by code_simp
  then obtain server where server: "require_capability_online (Some (w_db demo_reporting))
       (w_mgr demo_reporting) (w_mgr demo_reporting) ''srv'' CAP_EXEC = Inr server"
    by (auto split: sum.splits)
  ultimately show ?thesis
    using commands_reach_credentialed_agents [of demo_crypto demo_reporting "''srv''" CAP_EXEC server]
    by blast
qed

end
